(* ===== verification/Prelude.thy ===== *)
theory Prelude
  imports Main "HOL-Library.AList"
begin

text \<open>
  Shared vocabulary of the development: the Python operations that several components use
  (clamped slices, \<open>list.insert\<close>, \<open>str.strip\<close>, \<open>str.split\<close>, \<open>str.join\<close>), the result type of
  fallible code, and generic list lemmas.

  A fallible function returns a value of \<^typ>\<open>'e + 'a\<close>: \<^term>\<open>Inl\<close> carries the exception and
  \<^term>\<open>Inr\<close> the result. \<open>rbind\<close> is the sequencing of two fallible steps; an exception of the
  first one is the exception of the sequence.
\<close>

type_synonym str = string

section \<open>Named collections\<close>

named_theorems py_defs \<open>definitions of the modelled Python operations\<close>
named_theorems ev_simps \<open>simplification rules for the event classes\<close>

section \<open>Results\<close>

definition rbind :: "'e + 'a \<Rightarrow> ('a \<Rightarrow> 'e + 'b) \<Rightarrow> 'e + 'b" where
  "rbind r f = (case r of Inl e \<Rightarrow> Inl e | Inr a \<Rightarrow> f a)"

lemma rbind_Inl [simp]: "rbind (Inl e) f = Inl e"
  by (simp add: rbind_def)

lemma rbind_Inr [simp]: "rbind (Inr a) f = f a"
  by (simp add: rbind_def)

lemma rbind_eq_Inr: "rbind r f = Inr b \<longleftrightarrow> (\<exists>a. r = Inr a \<and> f a = Inr b)"
  by (cases r) auto

lemma rbind_eq_Inl: "rbind r f = Inl e \<longleftrightarrow> r = Inl e \<or> (\<exists>a. r = Inr a \<and> f a = Inl e)"
  by (cases r) auto

lemma rbind_cong [fundef_cong]:
  "r = r' \<Longrightarrow> (\<And>a. r' = Inr a \<Longrightarrow> f a = g a) \<Longrightarrow> rbind r f = rbind r' g"
  by (cases r') auto

text \<open>The exceptions the modelled code raises or lets through, with their message where it matters.\<close>

datatype py_exc =
    KeyError
  | IndexError
  | ValueError str
  | AssertionError str
  | RuntimeError str
  | AttributeError str
  | TimeoutError str
  | FileNotFoundError str
  | OSError str
  | NoCondensationAvailable str
  | LLMError str
  | ToolError str
  | DiffError str
  | TypeError str
  | FunctionCallValidationError str
  | LLMContentPolicyViolationError str
  | LLMMalformedConversationHistoryError str
  | LLMContextWindowExceedError str
  | ConversationRunError py_exc
  | ConversationLeaseHeldError str
  | ConversationOwnershipLostError

text \<open>A fallible function over a list, left to right.\<close>

fun rmap :: "('a \<Rightarrow> 'e + 'b) \<Rightarrow> 'a list \<Rightarrow> 'e + 'b list" where
  "rmap f [] = Inr []"
| "rmap f (x # xs) = rbind (f x) (\<lambda>y. rbind (rmap f xs) (\<lambda>ys. Inr (y # ys)))"

lemma rmap_Inr: "(\<And>x. x \<in> set xs \<Longrightarrow> f x = Inr (g x)) \<Longrightarrow> rmap f xs = Inr (map g xs)"
  by (induction xs) auto

section \<open>Sets and dictionaries\<close>

text \<open>\<open>set.remove\<close> raises on an absent element; \<open>set.discard\<close> is plain difference.\<close>

definition py_set_remove :: "'a \<Rightarrow> 'a set \<Rightarrow> py_exc + 'a set" where
  "py_set_remove x S = (if x \<in> S then Inr (S - {x}) else Inl KeyError)"

text \<open>
  A \<open>dict\<close> is an association list in insertion order. \<open>AList.update\<close> keeps the position of an
  existing key and appends a new one, and \<open>AList.delete\<close> removes the key, as Python does.
\<close>

type_synonym ('k, 'v) dict = "('k \<times> 'v) list"

abbreviation dict_get :: "('k, 'v) dict \<Rightarrow> 'k \<Rightarrow> 'v option" where
  "dict_get d k \<equiv> map_of d k"

abbreviation dict_put :: "'k \<Rightarrow> 'v \<Rightarrow> ('k, 'v) dict \<Rightarrow> ('k, 'v) dict" where
  "dict_put k v d \<equiv> AList.update k v d"

abbreviation dict_del :: "'k \<Rightarrow> ('k, 'v) dict \<Rightarrow> ('k, 'v) dict" where
  "dict_del k d \<equiv> AList.delete k d"

abbreviation dict_keys :: "('k, 'v) dict \<Rightarrow> 'k list" where
  "dict_keys d \<equiv> map fst d"

lemma dict_get_put [simp]: "dict_get (dict_put k v d) = (dict_get d)(k \<mapsto> v)"
  by (simp add: update_conv' fun_eq_iff)

lemma dict_get_del [simp]: "dict_get (dict_del k d) = (dict_get d)(k := None)"
  by (simp add: delete_conv' fun_eq_iff)

lemma distinct_dict_put [simp]: "distinct (dict_keys d) \<Longrightarrow> distinct (dict_keys (dict_put k v d))"
  by (rule distinct_update)

lemma dict_keys_put [simp]: "set (dict_keys (dict_put k v d)) = insert k (set (dict_keys d))"
  by (simp add: dom_update)

lemma distinct_dict_del [simp]: "distinct (dict_keys d) \<Longrightarrow> distinct (dict_keys (dict_del k d))"
  by (rule distinct_delete)

section \<open>Python sequences\<close>

text \<open>\<open>py_clamp n i\<close> is the position the slice bound \<open>i\<close> denotes in a sequence of length \<open>n\<close>.\<close>

definition py_clamp :: "nat \<Rightarrow> int \<Rightarrow> nat" where
  "py_clamp n i = (if i < 0 then nat (int n + i) else min n (nat i))"

definition py_slice :: "'a list \<Rightarrow> int \<Rightarrow> int \<Rightarrow> 'a list" where
  "py_slice xs a b =
     (let i = py_clamp (length xs) a; j = py_clamp (length xs) b in take (j - i) (drop i xs))"

definition py_insert :: "int \<Rightarrow> 'a \<Rightarrow> 'a list \<Rightarrow> 'a list" where
  "py_insert i x xs = (let j = py_clamp (length xs) i in take j xs @ x # drop j xs)"

lemma py_clamp_le: "py_clamp n i \<le> n"
  by (simp add: py_clamp_def nat_le_iff)

lemma py_clamp_of_nat [simp]: "py_clamp n (int i) = min n i"
  by (simp add: py_clamp_def)

lemma set_py_slice: "set (py_slice xs a b) \<subseteq> set xs"
  unfolding py_slice_def Let_def by (meson in_set_dropD in_set_takeD subsetI)

lemma py_slice_nat [simp]: "py_slice xs (int a) (int b) = take (min (length xs) b - a) (drop a xs)"
  by (cases "a \<le> length xs") (simp_all add: py_slice_def Let_def min_def)

lemma length_py_slice_le: "length (py_slice xs a b) \<le> length xs"
  by (simp add: py_slice_def Let_def)

lemma set_py_insert [simp]: "set (py_insert i x xs) = insert x (set xs)"
proof -
  have "set xs = set (take j xs) \<union> set (drop j xs)" for j
    by (metis append_take_drop_id set_append)
  then show ?thesis by (auto simp: py_insert_def Let_def)
qed

lemma length_py_insert [simp]: "length (py_insert i x xs) = Suc (length xs)"
  by (simp add: py_insert_def Let_def)

section \<open>Lists\<close>

text \<open>The first index of a list with a property, as Python's \<open>for i, x in enumerate\<close> with \<open>break\<close>.\<close>

fun find_index_from :: "nat \<Rightarrow> ('a \<Rightarrow> bool) \<Rightarrow> 'a list \<Rightarrow> nat option" where
  "find_index_from k P [] = None"
| "find_index_from k P (x # xs) = (if P x then Some k else find_index_from (Suc k) P xs)"

lemma find_index_from_Some:
  "find_index_from k P xs = Some i \<Longrightarrow>
     k \<le> i \<and> i < k + length xs \<and> P (xs ! (i - k)) \<and> (\<forall>j < i - k. \<not> P (xs ! j))"
proof (induction xs arbitrary: k)
  case (Cons x xs)
  show ?case
  proof (cases "P x")
    case True
    with Cons.prems show ?thesis by auto
  next
    case False
    with Cons.prems have "find_index_from (Suc k) P xs = Some i" by simp
    then have ih: "Suc k \<le> i \<and> i < Suc k + length xs \<and> P (xs ! (i - Suc k)) \<and>
        (\<forall>j < i - Suc k. \<not> P (xs ! j))" by (rule Cons.IH)
    then have "i - k = Suc (i - Suc k)" by arith
    with ih False show ?thesis by (auto simp: less_Suc_eq_0_disj nth_Cons' Suc_diff_le)
  qed
qed simp

lemma find_index_from_None: "find_index_from k P xs = None \<longleftrightarrow> (\<forall>x \<in> set xs. \<not> P x)"
  by (induction xs arbitrary: k) auto

lemma filter_id_conv_all: "filter P xs = xs \<longleftrightarrow> (\<forall>x \<in> set xs. P x)"
  by (rule filter_id_conv)

lemma length_filter_less_ex: "x \<in> set xs \<Longrightarrow> \<not> P x \<Longrightarrow> length (filter P xs) < length xs"
  by (rule length_filter_less)

section \<open>Strings\<close>

definition newline :: char where
  "newline = CHR 0x0A"

text \<open>
  \<open>str.isspace\<close> on the code points below 256: tab to carriage return, the separators 0x1C to
  0x1F, the blank, NEXT LINE and NO-BREAK SPACE.
\<close>

definition py_isspace :: "char \<Rightarrow> bool" where
  "py_isspace c = (let n = of_char c :: nat in
     9 \<le> n \<and> n \<le> 13 \<or> 28 \<le> n \<and> n \<le> 32 \<or> n = 133 \<or> n = 160)"

definition py_lstrip :: "str \<Rightarrow> str" where
  "py_lstrip s = dropWhile py_isspace s"

definition py_rstrip :: "str \<Rightarrow> str" where
  "py_rstrip s = rev (dropWhile py_isspace (rev s))"

definition py_strip :: "str \<Rightarrow> str" where
  "py_strip s = py_rstrip (py_lstrip s)"

fun py_startswith :: "'a list \<Rightarrow> 'a list \<Rightarrow> bool" where
  "py_startswith s [] = True"
| "py_startswith [] (p # ps) = False"
| "py_startswith (c # s) (p # ps) = (c = p \<and> py_startswith s ps)"

lemma py_startswith_iff: "py_startswith s p \<longleftrightarrow> (\<exists>t. s = p @ t)"
  by (induction s p rule: py_startswith.induct) auto

text \<open>\<open>s.split(c)\<close> for a one-character separator: never empty.\<close>

fun py_split :: "char \<Rightarrow> str \<Rightarrow> str list" where
  "py_split c [] = [[]]"
| "py_split c (x # xs) =
     (if x = c then [] # py_split c xs
      else (case py_split c xs of [] \<Rightarrow> [[x]] | l # ls \<Rightarrow> (x # l) # ls))"

fun py_join :: "str \<Rightarrow> str list \<Rightarrow> str" where
  "py_join sep [] = []"
| "py_join sep [l] = l"
| "py_join sep (l # m # ls) = l @ sep @ py_join sep (m # ls)"

lemma py_split_neq_Nil [simp]: "py_split c s \<noteq> []"
  by (induction s) (auto split: list.splits)

lemma py_join_split: "py_join [c] (py_split c s) = s"
proof (induction s)
  case (Cons x xs)
  obtain l ls where eq: "py_split c xs = l # ls"
    using py_split_neq_Nil by (cases "py_split c xs") auto
  show ?case
  proof (cases "x = c")
    case True
    with Cons eq show ?thesis by simp
  next
    case False
    with Cons eq show ?thesis by (cases ls) auto
  qed
qed simp

lemma py_split_no_sep: "\<forall>l \<in> set (py_split c s). c \<notin> set l"
proof (induction s)
  case (Cons x xs)
  then show ?case
    by (cases "py_split c xs") auto
qed simp

lemma py_split_append_sep: "c \<notin> set l \<Longrightarrow> py_split c (l @ c # s) = l # py_split c s"
  by (induction l) auto

lemma py_split_id: "c \<notin> set l \<Longrightarrow> py_split c l = [l]"
  by (induction l) auto

lemma py_split_join: "ls \<noteq> [] \<Longrightarrow> \<forall>l \<in> set ls. c \<notin> set l \<Longrightarrow> py_split c (py_join [c] ls) = ls"
proof (induction ls)
  case (Cons l ls)
  then show ?case
    by (cases ls) (auto simp: py_split_id py_split_append_sep)
qed simp

end
