(* ===== verification/Events.thy ===== *)
theory Events
  imports Prelude
begin

text \<open>
  The event classes of \<open>sdk/event\<close> and the projection of an event stream to the messages of
  an LLM request (\<open>LLMConvertibleEvent.events_to_messages\<close> in \<open>event/base.py\<close>).

  One record \<open>event\<close> holds the fields of the class \<open>Event\<close> (id, source, parent id) and a body
  with one constructor per event class. Payloads that the modelled code only compares or passes
  on (a validated tool action, an observation, a reasoning item, a thinking block) are strings:
  their serialised form. Timestamps and the fields used for display only are left out.
\<close>

section \<open>Messages\<close>

datatype role = Role_User | Role_System | Role_Assistant | Role_Tool

datatype content = TextContent str | ImageContent "str list"

record tool_call =
  tc_id :: str
  tc_name :: str
  tc_arguments :: str

record message =
  msg_role :: role
  msg_content :: "content list"
  msg_tool_calls :: "tool_call list option"
  msg_tool_call_id :: "str option"
  msg_name :: "str option"
  msg_reasoning_content :: "str option"
  msg_thinking_blocks :: "str list"
  msg_reasoning_item :: "str option"

definition plain_message :: "role \<Rightarrow> content list \<Rightarrow> message" where
  "plain_message r cs = \<lparr>msg_role = r, msg_content = cs, msg_tool_calls = None,
     msg_tool_call_id = None, msg_name = None, msg_reasoning_content = None,
     msg_thinking_blocks = [], msg_reasoning_item = None\<rparr>"

section \<open>Events\<close>

datatype source_type = Src_Agent | Src_User | Src_Environment | Src_Hook

record action_data =
  thought :: "str list"
  reasoning_content :: "str option"
  thinking_blocks :: "str list"
  reasoning_item :: "str option"
  act_action :: "str option"
  act_tool_name :: str
  act_tool_call_id :: str
  act_tool_call :: tool_call
  llm_response_id :: str

record observation_base =
  obs_tool_name :: str
  obs_tool_call_id :: str

record observation_data =
  observation :: str
  obs_llm_content :: "content list"
  obs_extended_content :: "str list"
  obs_action_id :: str

record condensation_data =
  forgotten_event_ids :: "str set"
  summary :: "str option"
  summary_offset :: "nat option"
  cond_llm_response_id :: str

datatype event_body =
    SystemPromptEvent str "str list" "str option"
  | MessageEvent message "str list"
  | ActionEvent action_data
  | ObservationEvent observation_base observation_data
  | UserRejectObservation observation_base str str
  | AgentErrorEvent observation_base str
  | CondensationSummaryEvent str
  | Condensation condensation_data
  | CondensationRequest
  | ConversationStateUpdateEvent str str
  | ConversationErrorEvent str str
  | OtherEvent str

record event =
  ev_id :: str
  ev_source :: source_type
  ev_parent_id :: "str option"
  ev_body :: event_body

text \<open>The \<open>isinstance\<close> tests of the code. \<open>ObservationBaseEvent\<close> has three subclasses.\<close>

fun body_is_llm :: "event_body \<Rightarrow> bool" where
  "body_is_llm (SystemPromptEvent _ _ _) = True"
| "body_is_llm (MessageEvent _ _) = True"
| "body_is_llm (ActionEvent _) = True"
| "body_is_llm (ObservationEvent _ _) = True"
| "body_is_llm (UserRejectObservation _ _ _) = True"
| "body_is_llm (AgentErrorEvent _ _) = True"
| "body_is_llm (CondensationSummaryEvent _) = True"
| "body_is_llm _ = False"

fun body_action :: "event_body \<Rightarrow> action_data option" where
  "body_action (ActionEvent a) = Some a"
| "body_action _ = None"

fun body_obs :: "event_body \<Rightarrow> observation_base option" where
  "body_obs (ObservationEvent b _) = Some b"
| "body_obs (UserRejectObservation b _ _) = Some b"
| "body_obs (AgentErrorEvent b _) = Some b"
| "body_obs _ = None"

definition is_llm_convertible :: "event \<Rightarrow> bool" where
  "is_llm_convertible e = body_is_llm (ev_body e)"

definition as_action :: "event \<Rightarrow> action_data option" where
  "as_action e = body_action (ev_body e)"

definition as_obs :: "event \<Rightarrow> observation_base option" where
  "as_obs e = body_obs (ev_body e)"

definition is_action :: "event \<Rightarrow> bool" where
  "is_action e = (as_action e \<noteq> None)"

definition is_obs :: "event \<Rightarrow> bool" where
  "is_obs e = (as_obs e \<noteq> None)"

lemma body_action_obs: "body_action b = Some a \<Longrightarrow> body_obs b = None"
  by (cases b) auto

lemma as_action_not_obs [simp]: "as_action e = Some a \<Longrightarrow> as_obs e = None"
  by (simp add: as_action_def as_obs_def body_action_obs)

lemma as_obs_not_action [simp]: "as_obs e = Some b \<Longrightarrow> as_action e = None"
  by (cases "as_action e") simp_all

lemma as_action_llm: "as_action e = Some a \<Longrightarrow> is_llm_convertible e"
  by (cases "ev_body e") (auto simp: as_action_def is_llm_convertible_def)

lemma as_obs_llm: "as_obs e = Some a \<Longrightarrow> is_llm_convertible e"
  by (cases "ev_body e") (auto simp: as_obs_def is_llm_convertible_def)

lemma as_action_iff: "as_action e = Some a \<longleftrightarrow> ev_body e = ActionEvent a"
  by (cases "ev_body e") (auto simp: as_action_def)

lemmas event_class_defs [ev_simps] = is_llm_convertible_def as_action_def as_obs_def
  is_action_def is_obs_def

section \<open>Conversion to messages\<close>

definition action_to_llm_message :: "action_data \<Rightarrow> message" where
  "action_to_llm_message a =
     (plain_message Role_Assistant (map TextContent (thought a)))
       \<lparr>msg_tool_calls := Some [act_tool_call a],
        msg_reasoning_content := reasoning_content a,
        msg_thinking_blocks := thinking_blocks a,
        msg_reasoning_item := reasoning_item a\<rparr>"

fun body_to_llm_message :: "event_body \<Rightarrow> message option" where
  "body_to_llm_message (SystemPromptEvent p _ None) =
     Some (plain_message Role_System [TextContent p])"
| "body_to_llm_message (SystemPromptEvent p _ (Some d)) =
     Some (plain_message Role_System [TextContent p, TextContent d])"
| "body_to_llm_message (MessageEvent m ext) =
     Some (m\<lparr>msg_content := msg_content m @ map TextContent ext\<rparr>)"
| "body_to_llm_message (ActionEvent a) =
     Some (action_to_llm_message a)"
| "body_to_llm_message (ObservationEvent b d) =
     Some ((plain_message Role_Tool
              (obs_llm_content d @ map TextContent (obs_extended_content d)))
       \<lparr>msg_name := Some (obs_tool_name b), msg_tool_call_id := Some (obs_tool_call_id b)\<rparr>)"
| "body_to_llm_message (UserRejectObservation b reason _) =
     Some ((plain_message Role_Tool [TextContent (''Action rejected: '' @ reason)])
       \<lparr>msg_name := Some (obs_tool_name b), msg_tool_call_id := Some (obs_tool_call_id b)\<rparr>)"
| "body_to_llm_message (AgentErrorEvent b err) =
     Some ((plain_message Role_Tool [TextContent err])
       \<lparr>msg_name := Some (obs_tool_name b), msg_tool_call_id := Some (obs_tool_call_id b)\<rparr>)"
| "body_to_llm_message (CondensationSummaryEvent s) =
     Some (plain_message Role_User [TextContent s])"
| "body_to_llm_message _ = None"

lemma body_to_llm_message_None: "body_to_llm_message b = None \<longleftrightarrow> \<not> body_is_llm b"
  by (cases b rule: body_to_llm_message.cases) auto

definition to_llm_message :: "event \<Rightarrow> py_exc + message" where
  "to_llm_message e =
     (case body_to_llm_message (ev_body e) of
        None \<Rightarrow> Inl (AttributeError ''to_llm_message'') | Some m \<Rightarrow> Inr m)"

definition is_plain_user_message :: "message \<Rightarrow> bool" where
  "is_plain_user_message m =
     (msg_role m = Role_User \<and> msg_tool_calls m = None \<and> msg_tool_call_id m = None
      \<and> msg_name m = None)"

definition can_merge_user_messages :: "message \<Rightarrow> message \<Rightarrow> bool" where
  "can_merge_user_messages previous current =
     (is_plain_user_message previous \<and> is_plain_user_message current)"

text \<open>
  \<open>_combine_action_events\<close>: a batch of one action is converted as it is. In a larger batch the
  thought, the reasoning and the thinking blocks are those of the first action.
\<close>

fun combine_action_events :: "action_data list \<Rightarrow> py_exc + message" where
  "combine_action_events [] = Inl IndexError"
| "combine_action_events (a # as) =
     (if as = [] then Inr (action_to_llm_message a)
      else if \<exists>b \<in> set as. thought b \<noteq> [] then
        Inl (AssertionError ''Expected empty thought for multi-action events'')
      else Inr ((plain_message Role_Assistant (map TextContent (thought a)))
       \<lparr>msg_tool_calls := Some (map act_tool_call (a # as)),
        msg_reasoning_content := reasoning_content a,
        msg_thinking_blocks := thinking_blocks a,
        msg_reasoning_item := reasoning_item a\<rparr>))"

text \<open>
  The look-ahead loop of \<open>events_to_messages\<close>: the following actions with the same response id,
  and the rest of the events.
\<close>

fun take_batch :: "str \<Rightarrow> event list \<Rightarrow> action_data list \<times> event list" where
  "take_batch r [] = ([], [])"
| "take_batch r (e # es) =
     (case as_action e of
        None \<Rightarrow> ([], e # es)
      | Some a \<Rightarrow>
          if llm_response_id a \<noteq> r then ([], e # es)
          else (let (as, rest) = take_batch r es in (a # as, rest)))"

lemma length_take_batch: "length (snd (take_batch r es)) \<le> length es"
  by (induction es) (auto simp: le_SucI split: option.splits prod.splits)

text \<open>Appending one message, merging it into the last one where both are plain user turns.\<close>

definition push_message :: "message list \<Rightarrow> message \<Rightarrow> message list" where
  "push_message ms m =
     (if ms \<noteq> [] \<and> can_merge_user_messages (last ms) m
      then butlast ms @ [(last ms)\<lparr>msg_content := msg_content (last ms) @ msg_content m\<rparr>]
      else ms @ [m])"

function events_to_messages_from :: "message list \<Rightarrow> event list \<Rightarrow> py_exc + message list" where
  "events_to_messages_from ms [] = Inr ms"
| "events_to_messages_from ms (e # es) =
     (case as_action e of
        Some a \<Rightarrow>
          (let (as, rest) = take_batch (llm_response_id a) es
           in rbind (combine_action_events (a # as))
                (\<lambda>m. events_to_messages_from (push_message ms m) rest))
      | None \<Rightarrow>
          rbind (to_llm_message e) (\<lambda>m. events_to_messages_from (push_message ms m) es))"
  by pat_completeness auto
termination
  apply (relation "measure (\<lambda>(ms, es). length es)")
    apply (auto simp: less_Suc_eq_le)
  apply (metis length_take_batch snd_conv)
  done

definition events_to_messages :: "event list \<Rightarrow> py_exc + message list" where
  "events_to_messages es = events_to_messages_from [] es"

section \<open>Concrete events\<close>

text \<open>Small events the witnesses of the development are built from.\<close>

definition mk_user :: "str \<Rightarrow> event" where
  "mk_user i = \<lparr>ev_id = i, ev_source = Src_User, ev_parent_id = None,
     ev_body = MessageEvent (plain_message Role_User [TextContent i]) []\<rparr>"

definition mk_action :: "str \<Rightarrow> str \<Rightarrow> str \<Rightarrow> str list \<Rightarrow> event" where
  "mk_action i call resp thinking = \<lparr>ev_id = i, ev_source = Src_Agent, ev_parent_id = None,
     ev_body = ActionEvent \<lparr>thought = [], reasoning_content = None, thinking_blocks = thinking,
       reasoning_item = None, act_action = Some ''a'', act_tool_name = ''terminal'',
       act_tool_call_id = call,
       act_tool_call = \<lparr>tc_id = call, tc_name = ''terminal'', tc_arguments = []\<rparr>,
       llm_response_id = resp\<rparr>\<rparr>"

definition mk_obs :: "str \<Rightarrow> str \<Rightarrow> str \<Rightarrow> event" where
  "mk_obs i call act = \<lparr>ev_id = i, ev_source = Src_Environment, ev_parent_id = None,
     ev_body = ObservationEvent \<lparr>obs_tool_name = ''terminal'', obs_tool_call_id = call\<rparr>
       \<lparr>observation = ''ok'', obs_llm_content = [], obs_extended_content = [], obs_action_id = act\<rparr>\<rparr>"

definition mk_error :: "str \<Rightarrow> str \<Rightarrow> str \<Rightarrow> event" where
  "mk_error i call err = \<lparr>ev_id = i, ev_source = Src_Agent, ev_parent_id = None,
     ev_body = AgentErrorEvent \<lparr>obs_tool_name = ''terminal'', obs_tool_call_id = call\<rparr> err\<rparr>"

definition mk_condensation :: "str \<Rightarrow> condensation_data \<Rightarrow> event" where
  "mk_condensation i c = \<lparr>ev_id = i, ev_source = Src_Environment, ev_parent_id = None,
     ev_body = Condensation c\<rparr>"

lemmas mk_defs = mk_user_def mk_action_def mk_obs_def mk_error_def mk_condensation_def

end
