(* ===== verification/Text_Utils.thy ===== *)
theory Text_Utils
  imports Prelude
begin

text \<open>
  Text helpers: decimal printing, \<open>str.splitlines\<close>, and \<open>maybe_truncate\<close> of
  \<open>sdk/utils/truncate.py\<close>, which every tool uses to bound what it returns to the LLM.
  Writing the full text to a file (\<open>_save_full_content\<close>) is I/O: its result, the path or nothing,
  is an argument.
\<close>

section \<open>Decimal numbers\<close>

definition digit_char :: "nat \<Rightarrow> char" where
  "digit_char d = char_of (48 + d)"

fun nat_to_str :: "nat \<Rightarrow> str" where
  "nat_to_str n = (if n < 10 then [digit_char n] else nat_to_str (n div 10) @ [digit_char (n mod 10)])"

declare nat_to_str.simps [simp del]

definition int_to_str :: "int \<Rightarrow> str" where
  "int_to_str i = (if i < 0 then ''-'' @ nat_to_str (nat (- i)) else nat_to_str (nat i))"

lemma nat_to_str_neq_Nil [simp]: "nat_to_str n \<noteq> []"
  by (subst nat_to_str.simps) simp

definition is_digit :: "char \<Rightarrow> bool" where
  "is_digit c = (let n = of_char c :: nat in 48 \<le> n \<and> n \<le> 57)"

definition digits_value :: "str \<Rightarrow> nat" where
  "digits_value ds = foldl (\<lambda>n c. 10 * n + (of_char c - 48)) 0 ds"

text \<open>Decimal numbers are read back.\<close>

lemma of_char_digit: "d < 10 \<Longrightarrow> (of_char (digit_char d) :: nat) = 48 + d"
  by (simp add: digit_char_def of_char_of)

lemma is_digit_digit: "d < 10 \<Longrightarrow> is_digit (digit_char d)"
  by (simp add: is_digit_def of_char_digit)

lemma set_nat_to_str: "c \<in> set (nat_to_str n) \<Longrightarrow> is_digit c"
proof (induction n rule: nat_to_str.induct)
  case (1 n)
  then show ?case
    by (subst (asm) (2) nat_to_str.simps) (auto simp: is_digit_digit split: if_splits)
qed

lemma digits_value_snoc: "digits_value (ds @ [c]) = 10 * digits_value ds + (of_char c - 48)"
  by (simp add: digits_value_def)

lemma digits_value_nat: "digits_value (nat_to_str n) = n"
proof (induction n rule: nat_to_str.induct)
  case (1 n)
  show ?case
  proof (cases "n < 10")
    case True
    then show ?thesis by (subst nat_to_str.simps) (simp add: digits_value_def of_char_digit)
  next
    case False
    then have "digits_value (nat_to_str n) = 10 * (n div 10) + n mod 10"
      using 1 by (subst nat_to_str.simps) (simp add: digits_value_snoc of_char_digit)
    then show ?thesis by presburger
  qed
qed

lemma nat_to_str_inject [simp]: "nat_to_str m = nat_to_str n \<longleftrightarrow> m = n"
  by (metis digits_value_nat)

text \<open>\<open>str.lower\<close> on ASCII letters.\<close>

definition lower_char :: "char \<Rightarrow> char" where
  "lower_char c = (let n = of_char c :: nat in if 65 \<le> n \<and> n \<le> 90 then char_of (n + 32) else c)"

definition py_lower :: "str \<Rightarrow> str" where
  "py_lower = map lower_char"

section \<open>splitlines\<close>

definition is_line_break :: "char \<Rightarrow> bool" where
  "is_line_break c = (let n = of_char c :: nat in
     10 \<le> n \<and> n \<le> 13 \<or> 28 \<le> n \<and> n \<le> 30 \<or> n = 133)"

fun py_splitlines_from :: "str \<Rightarrow> str \<Rightarrow> str list" where
  "py_splitlines_from acc [] = (if acc = [] then [] else [rev acc])"
| "py_splitlines_from acc (c # s) =
     (if c = CHR 0x0D \<and> py_startswith s [newline] then rev acc # py_splitlines_from [] (tl s)
      else if is_line_break c then rev acc # py_splitlines_from [] s
      else py_splitlines_from (c # acc) s)"

definition py_splitlines :: "str \<Rightarrow> str list" where
  "py_splitlines s = py_splitlines_from [] s"

section \<open>Truncation\<close>

definition default_truncate_notice :: str where
  "default_truncate_notice =
     ''<response clipped><NOTE>Due to the max output limit, only part of the full ''
     @ ''response has been shown to you.</NOTE>''"

definition persist_notice :: "str \<Rightarrow> nat \<Rightarrow> str" where
  "persist_notice file_path line_num =
     ''<response clipped><NOTE>Due to the max output limit, only part of the full ''
     @ ''response has been shown to you. The complete output has been saved to ''
     @ file_path @ '' - you can use other tools to view the full content (truncated ''
     @ ''part starts around line '' @ nat_to_str line_num @ '').</NOTE>''"

text \<open>Steps 5 and 6 of \<open>maybe_truncate\<close>: the final notice between a head and a tail of the content.\<close>

definition clip_around :: "nat \<Rightarrow> nat \<Rightarrow> str \<Rightarrow> str \<Rightarrow> str" where
  "clip_around n proposed_head content final_notice =
     (if length final_notice \<ge> n then take n final_notice
      else let remaining = n - length final_notice;
               head_chars = min proposed_head remaining;
               tail_chars = remaining - head_chars
           in take head_chars content @ final_notice @
              (if tail_chars > 0 then drop (length content - tail_chars) content else []))"

text \<open>
  \<open>truncate_after\<close> is \<open>None\<close> or an integer. \<open>saved\<close> is the path \<open>_save_full_content\<close> returns, \<open>None\<close>
  where no directory is given or the write fails.
\<close>

definition maybe_truncate :: "str \<Rightarrow> int option \<Rightarrow> str \<Rightarrow> str option \<Rightarrow> str" where
  "maybe_truncate content truncate_after truncate_notice saved =
     (case truncate_after of
        None \<Rightarrow> content
      | Some limit \<Rightarrow>
          if limit = 0 \<or> int (length content) \<le> limit \<or> limit < 0 then content
          else let n = nat limit in
            if length truncate_notice \<ge> n then take n truncate_notice
            else let available_chars = n - length truncate_notice;
                     proposed_head = available_chars div 2 + available_chars mod 2;
                     final_notice =
                       (case saved of
                          None \<Rightarrow> truncate_notice
                        | Some path \<Rightarrow>
                            if path = [] then truncate_notice
                            else persist_notice path
                              (length (py_splitlines (take proposed_head content)) + 1))
                 in clip_around n proposed_head content final_notice)"

lemma length_clip_around:
  assumes "n \<le> length content"
  shows "length (clip_around n h content final) = n"
proof (cases "length final \<ge> n")
  case False
  define hd where "hd = min h (n - length final)"
  define tl where "tl = n - length final - hd"
  have "hd + tl + length final = n" "hd \<le> length content" "tl \<le> length content"
    using False assms by (auto simp: tl_def hd_def)
  moreover have "clip_around n h content final =
      take hd content @ final @ (if tl > 0 then drop (length content - tl) content else [])"
    using False by (simp add: clip_around_def Let_def hd_def tl_def)
  ultimately show ?thesis by (simp del: length_greater_0_conv)
qed (simp add: clip_around_def)

lemma maybe_truncate_id:
  assumes "limit \<le> 0 \<or> int (length content) \<le> limit"
  shows "maybe_truncate content (Some limit) notice saved = content"
  using assms unfolding maybe_truncate_def by auto

lemma maybe_truncate_None [simp]: "maybe_truncate content None notice saved = content"
  by (simp add: maybe_truncate_def)

lemma maybe_truncate_long:
  assumes "0 < limit" "limit < int (length content)"
  shows "maybe_truncate content (Some limit) notice saved =
    (if length notice \<ge> nat limit then take (nat limit) notice
     else let available_chars = nat limit - length notice;
              proposed_head = available_chars div 2 + available_chars mod 2
          in clip_around (nat limit) proposed_head content
            (case saved of
               None \<Rightarrow> notice
             | Some path \<Rightarrow> if path = [] then notice
                 else persist_notice path (length (py_splitlines (take proposed_head content)) + 1)))"
proof -
  have "\<not> (limit = 0 \<or> int (length content) \<le> limit \<or> limit < 0)" using assms by simp
  then show ?thesis unfolding maybe_truncate_def Let_def option.case by (simp only: if_False)
qed

text \<open>
  A positive limit bounds the result of \<open>maybe_truncate\<close>, whatever the notice and whether or
  not the full text was saved; a text that exceeds the limit fills it exactly when the notice is
  shorter than the limit.
\<close>

theorem maybe_truncate_bounded:
  assumes "0 < limit"
  shows "length (maybe_truncate content (Some limit) notice saved) \<le> nat limit
    \<and> (limit < int (length content) \<and> int (length notice) < limit \<longrightarrow>
        length (maybe_truncate content (Some limit) notice saved) = nat limit)"
proof (cases "int (length content) \<le> limit")
  case True
  then have "length content \<le> nat limit" "\<not> limit < int (length content)" by linarith+
  then show ?thesis using True by (simp add: maybe_truncate_id)
next
  case False
  then have "nat limit \<le> length content" "limit < int (length content)" by linarith+
  then have "length (maybe_truncate content (Some limit) notice saved)
      = (if length notice \<ge> nat limit then min (length notice) (nat limit) else nat limit)"
    unfolding maybe_truncate_long [OF assms \<open>limit < int (length content)\<close>] Let_def
    by (simp add: length_clip_around)
  then show ?thesis by (auto split: if_splits)
qed

text \<open>
  A truncated text keeps its two ends: it is a head of the content, a notice and a tail of the
  content, and the head is at least as long as the tail when nothing is saved.
\<close>

theorem maybe_truncate_keeps_ends:
  assumes "0 < limit" and "limit < int (length content)" and "int (length notice) < limit"
  shows "\<exists>h t. maybe_truncate content (Some limit) notice None =
      take h content @ notice @ drop (length content - t) content
    \<and> h + t = nat limit - length notice \<and> t \<le> h \<and> h \<le> t + 1"
proof -
  define avail where "avail = nat limit - length notice"
  define h where "h = avail div 2 + avail mod 2"
  have bounds: "h \<le> avail" "avail - h \<le> h" "h \<le> avail - h + 1" unfolding h_def by presburger+
  have short: "\<not> nat limit \<le> length notice" using assms by linarith
  have "maybe_truncate content (Some limit) notice None = clip_around (nat limit) h content notice"
    unfolding maybe_truncate_long [OF assms(1,2)] Let_def using short
    by (simp only: if_False option.case h_def avail_def)
  also have "\<dots> = take h content @ notice @ drop (length content - (avail - h)) content"
  proof -
    have "min h avail = h" using bounds by simp
    then show ?thesis using short unfolding clip_around_def Let_def avail_def [symmetric] by simp
  qed
  finally show ?thesis using bounds unfolding avail_def [symmetric]
    by (intro exI [of _ h] exI [of _ "avail - h"]) simp
qed

theorem maybe_truncate_bounded_witness:
  "(0 :: int) < 5 \<and> length (maybe_truncate ''abcdefghij'' (Some 5) ''..'' None) \<le> nat 5"
  by (rule conjI, simp, rule maybe_truncate_bounded [THEN conjunct1]) simp

theorem maybe_truncate_keeps_ends_witness:
  "\<exists>h t. maybe_truncate ''abcdefghij'' (Some 5) ''..'' None =
      take h ''abcdefghij'' @ ''..'' @ drop (length ''abcdefghij'' - t) ''abcdefghij''
    \<and> h + t = nat 5 - length ''..'' \<and> t \<le> h \<and> h \<le> t + 1"
  by (rule maybe_truncate_keeps_ends) simp_all

end
