(* ===== verification/View_Properties.thy ===== *)
theory View_Properties
  imports Events Text_Utils
begin

text \<open>
  The manipulation indices of \<open>context/view/manipulation_indices.py\<close> and the four properties of
  \<open>context/view/properties\<close> that a view must have before it is sent to an LLM: unique
  observations, atomic batches, matched tool calls and atomic tool loops. Each property has an
  \<open>enforce\<close> method (the ids to drop from the view) and a \<open>manipulation_indices\<close> method (the
  positions at which the view may be cut). The locale \<open>view_property\<close> states what the caller
  of \<open>enforce\<close> relies on; it is interpreted on all four.
\<close>

section \<open>Manipulation indices\<close>

type_synonym manip = "nat set"

definition complete :: "event list \<Rightarrow> manip" where
  "complete es = insert (length es) {0..<length es}"

definition find_next :: "manip \<Rightarrow> int \<Rightarrow> py_exc + nat" where
  "find_next S threshold =
     (let valid = {i \<in> S. threshold \<le> int i} in
      if valid = {} then Inl (ValueError (''No manipulation index found >= '' @ int_to_str threshold @ ''.''))
      else Inr (Min valid))"

lemma complete_eq: "complete es = {0..length es}"
  by (auto simp: complete_def)

lemma finite_complete [simp]: "finite (complete es)"
  by (simp add: complete_def)

lemma find_next_Inr:
  assumes "finite S" and "find_next S t = Inr i"
  shows "i \<in> S \<and> t \<le> int i \<and> (\<forall>j \<in> S. t \<le> int j \<longrightarrow> i \<le> j)"
proof -
  let ?V = "{i \<in> S. t \<le> int i}"
  have ne: "?V \<noteq> {}" and i: "i = Min ?V" and fin: "finite ?V"
    using assms by (auto simp: find_next_def Let_def split: if_splits)
  have "i \<in> ?V" unfolding i using fin ne by (rule Min_in)
  moreover have "\<forall>j \<in> ?V. i \<le> j" unfolding i using fin by simp
  ultimately show ?thesis by simp
qed

lemma find_next_Inl: "find_next S t = Inl e \<Longrightarrow> e = ValueError (''No manipulation index found >= '' @ int_to_str t @ ''.'') \<and> (\<forall>j \<in> S. int j < t)"
  by (auto simp: find_next_def Let_def not_le split: if_splits)

section \<open>ObservationUniquenessProperty\<close>

fun ou_enforce_from :: "str set \<Rightarrow> event list \<Rightarrow> str set" where
  "ou_enforce_from seen [] = {}"
| "ou_enforce_from seen (e # es) =
     (case as_obs e of
        None \<Rightarrow> ou_enforce_from seen es
      | Some b \<Rightarrow>
          if obs_tool_call_id b \<in> seen then insert (ev_id e) (ou_enforce_from seen es)
          else ou_enforce_from (insert (obs_tool_call_id b) seen) es)"

definition ou_enforce :: "event list \<Rightarrow> event list \<Rightarrow> str set" where
  "ou_enforce view all = ou_enforce_from {} view"

definition ou_manipulation_indices :: "event list \<Rightarrow> py_exc + manip" where
  "ou_manipulation_indices view = Inr (complete view)"

section \<open>BatchAtomicityProperty\<close>

fun build_batches_from :: "(str, str set) dict \<Rightarrow> event list \<Rightarrow> (str, str set) dict" where
  "build_batches_from d [] = d"
| "build_batches_from d (e # es) =
     (case as_action e of
        None \<Rightarrow> build_batches_from d es
      | Some a \<Rightarrow>
          (let old = (case dict_get d (llm_response_id a) of None \<Rightarrow> {} | Some s \<Rightarrow> s)
           in build_batches_from (dict_put (llm_response_id a) (insert (ev_id e) old) d) es))"

definition build_batches :: "event list \<Rightarrow> (str, str set) dict" where
  "build_batches es = build_batches_from [] es"

definition ba_enforce :: "event list \<Rightarrow> event list \<Rightarrow> str set" where
  "ba_enforce view all =
     (let all_batches = build_batches all in
      \<Union> (set (map snd (filter
        (\<lambda>(r, ids). ids \<noteq> (case dict_get all_batches r of None \<Rightarrow> {} | Some s \<Rightarrow> s))
        (build_batches view)))))"

definition same_batch :: "event \<Rightarrow> event \<Rightarrow> bool" where
  "same_batch left right =
     (case (as_action left, as_action right) of
        (Some a, Some b) \<Rightarrow> llm_response_id a = llm_response_id b
      | _ \<Rightarrow> False)"

text \<open>\<open>pairwise\<close>: the pairs of neighbours, with the index of the left one.\<close>

fun ba_manip_from :: "nat \<Rightarrow> manip \<Rightarrow> event list \<Rightarrow> py_exc + manip" where
  "ba_manip_from index S (left # right # es) =
     (if same_batch left right
      then rbind (py_set_remove (index + 1) S) (\<lambda>S'. ba_manip_from (index + 1) S' (right # es))
      else ba_manip_from (index + 1) S (right # es))"
| "ba_manip_from index S es = Inr S"

definition ba_manipulation_indices :: "event list \<Rightarrow> py_exc + manip" where
  "ba_manipulation_indices view = ba_manip_from 0 (complete view) view"

section \<open>ToolCallMatchingProperty\<close>

fun action_tool_call_ids :: "event list \<Rightarrow> str set" where
  "action_tool_call_ids [] = {}"
| "action_tool_call_ids (e # es) =
     (case as_action e of
        Some a \<Rightarrow> insert (act_tool_call_id a) (action_tool_call_ids es)
      | None \<Rightarrow> action_tool_call_ids es)"

fun observation_tool_call_ids :: "event list \<Rightarrow> str set" where
  "observation_tool_call_ids [] = {}"
| "observation_tool_call_ids (e # es) =
     (case as_obs e of
        Some b \<Rightarrow> insert (obs_tool_call_id b) (observation_tool_call_ids es)
      | None \<Rightarrow> observation_tool_call_ids es)"

definition unmatched :: "str set \<Rightarrow> str set \<Rightarrow> event \<Rightarrow> bool" where
  "unmatched acts obss e =
     (case as_action e of
        Some a \<Rightarrow> act_tool_call_id a \<notin> obss
      | None \<Rightarrow> (case as_obs e of Some b \<Rightarrow> obs_tool_call_id b \<notin> acts | None \<Rightarrow> False))"

definition tcm_enforce :: "event list \<Rightarrow> event list \<Rightarrow> str set" where
  "tcm_enforce view all =
     (let acts = action_tool_call_ids view; obss = observation_tool_call_ids view
      in set (map ev_id (filter (unmatched acts obss) view)))"

definition pending_step :: "str set \<Rightarrow> event \<Rightarrow> py_exc + str set" where
  "pending_step pending e =
     (case as_action e of
        Some a \<Rightarrow> Inr (insert (act_tool_call_id a) pending)
      | None \<Rightarrow> (case as_obs e of
          Some b \<Rightarrow> py_set_remove (obs_tool_call_id b) pending
        | None \<Rightarrow> Inr pending))"

fun tcm_manip_from :: "nat \<Rightarrow> str set \<Rightarrow> manip \<Rightarrow> event list \<Rightarrow> py_exc + manip" where
  "tcm_manip_from index pending S [] = Inr S"
| "tcm_manip_from index pending S (e # es) =
     rbind (pending_step pending e) (\<lambda>pending'.
       if pending' \<noteq> {}
       then rbind (py_set_remove (index + 1) S) (\<lambda>S'. tcm_manip_from (index + 1) pending' S' es)
       else tcm_manip_from (index + 1) pending' S es)"

definition tcm_manipulation_indices :: "event list \<Rightarrow> py_exc + manip" where
  "tcm_manipulation_indices view = tcm_manip_from 0 {} (complete view) view"

section \<open>ToolLoopAtomicityProperty\<close>

definition starts_tool_loop :: "event \<Rightarrow> bool" where
  "starts_tool_loop e = (case as_action e of Some a \<Rightarrow> thinking_blocks a \<noteq> [] | None \<Rightarrow> False)"

definition continues_tool_loop :: "event \<Rightarrow> bool" where
  "continues_tool_loop e = (is_action e \<or> is_obs e)"

definition opt_to_list :: "'a option \<Rightarrow> 'a list" where
  "opt_to_list x = (case x of None \<Rightarrow> [] | Some a \<Rightarrow> [a])"

fun tool_loops_from :: "str set option \<Rightarrow> event list \<Rightarrow> str set list" where
  "tool_loops_from current [] = opt_to_list current"
| "tool_loops_from current (e # es) =
     (if starts_tool_loop e then
        opt_to_list current @ tool_loops_from (Some {ev_id e}) es
      else if continues_tool_loop e then
        tool_loops_from (map_option (insert (ev_id e)) current) es
      else opt_to_list current @ tool_loops_from None es)"

definition tool_loops :: "event list \<Rightarrow> str set list" where
  "tool_loops es = tool_loops_from None es"

fun first_loop_of :: "str \<Rightarrow> str set list \<Rightarrow> str set option" where
  "first_loop_of i [] = None"
| "first_loop_of i (l # ls) = (if i \<in> l then Some l else first_loop_of i ls)"

fun tla_enforce_from :: "str set list \<Rightarrow> str set \<Rightarrow> str set \<Rightarrow> event list \<Rightarrow> str set" where
  "tla_enforce_from loops view_ids removed [] = removed"
| "tla_enforce_from loops view_ids removed (e # es) =
     (if ev_id e \<in> removed then tla_enforce_from loops view_ids removed es
      else (case first_loop_of (ev_id e) loops of
              None \<Rightarrow> tla_enforce_from loops view_ids removed es
            | Some l \<Rightarrow>
                if \<not> l \<subseteq> view_ids
                then tla_enforce_from loops view_ids (removed \<union> (view_ids \<inter> l)) es
                else tla_enforce_from loops view_ids removed es))"

definition tla_enforce :: "event list \<Rightarrow> event list \<Rightarrow> str set" where
  "tla_enforce view all =
     tla_enforce_from (tool_loops all) (set (map ev_id view)) {} view"

fun tla_manip_from :: "nat \<Rightarrow> bool \<Rightarrow> manip \<Rightarrow> event list \<Rightarrow> py_exc + manip" where
  "tla_manip_from index in_loop S [] = Inr S"
| "tla_manip_from index in_loop S (e # es) =
     (if starts_tool_loop e then tla_manip_from (index + 1) True S es
      else if continues_tool_loop e then
        (if in_loop
         then rbind (py_set_remove index S) (\<lambda>S'. tla_manip_from (index + 1) in_loop S' es)
         else tla_manip_from (index + 1) in_loop S es)
      else tla_manip_from (index + 1) False S es)"

definition tla_manipulation_indices :: "event list \<Rightarrow> py_exc + manip" where
  "tla_manipulation_indices view = tla_manip_from 0 False (complete view) view"

section \<open>The contract of enforce\<close>

text \<open>
  \<open>View.enforce_properties\<close> drops the events whose ids \<open>enforce\<close> returns and starts again. It relies on
  the ids being ids of the view: a non-empty answer then shortens the view.
\<close>

locale view_property =
  fixes enforce :: "event list \<Rightarrow> event list \<Rightarrow> str set"
  assumes enforce_subset: "enforce view all \<subseteq> ev_id ` set view"
begin

lemma forget_shrinks:
  assumes "enforce view all \<noteq> {}"
  shows "length (filter (\<lambda>e. ev_id e \<notin> enforce view all) view) < length view"
proof -
  obtain i where "i \<in> enforce view all" using assms by blast
  moreover from this obtain e where "e \<in> set view" "i = ev_id e"
    using enforce_subset by blast
  ultimately show ?thesis by (simp add: length_filter_less)
qed

lemma enforce_Nil [simp]: "enforce [] all = {}"
  using enforce_subset [of "[]" all] by simp

end

lemma ou_enforce_from_subset: "ou_enforce_from seen es \<subseteq> ev_id ` set es"
  by (induction es arbitrary: seen) (auto split: option.splits)

interpretation ou: view_property ou_enforce
  by unfold_locales (simp add: ou_enforce_def ou_enforce_from_subset)

lemma map_of_build_batches_from:
  "dict_get (build_batches_from d es) r =
     (let new = {ev_id e | e a. e \<in> set es \<and> as_action e = Some a \<and> llm_response_id a = r}
      in case dict_get d r of
           None \<Rightarrow> if new = {} then None else Some new
         | Some s \<Rightarrow> Some (s \<union> new))"
proof (induction es arbitrary: d)
  case Nil
  then show ?case by (auto split: option.splits)
next
  case (Cons e es)
  show ?case
  proof (cases "as_action e")
    case None
    then have eq: "{ev_id e' | e' a. e' \<in> set (e # es) \<and> as_action e' = Some a \<and> llm_response_id a = r}
        = {ev_id e' | e' a. e' \<in> set es \<and> as_action e' = Some a \<and> llm_response_id a = r}"
      by auto
    from None show ?thesis by (simp only: eq) (simp add: Cons.IH)
  next
    case (Some a)
    show ?thesis
    proof (cases "llm_response_id a = r")
      case True
      then have eq: "{ev_id e' | e' a. e' \<in> set (e # es) \<and> as_action e' = Some a \<and> llm_response_id a = r}
          = insert (ev_id e) {ev_id e' | e' a. e' \<in> set es \<and> as_action e' = Some a \<and> llm_response_id a = r}"
        using Some by auto
      show ?thesis unfolding eq using Some True
        by (auto simp: Cons.IH Let_def split: option.splits)
    next
      case False
      then have eq: "{ev_id e' | e' a. e' \<in> set (e # es) \<and> as_action e' = Some a \<and> llm_response_id a = r}
          = {ev_id e' | e' a. e' \<in> set es \<and> as_action e' = Some a \<and> llm_response_id a = r}"
        using Some by auto
      show ?thesis unfolding eq using Some False by (simp add: Cons.IH Let_def)
    qed
  qed
qed

definition batch_ids :: "event list \<Rightarrow> str \<Rightarrow> str set" where
  "batch_ids es r = {ev_id e | e a. e \<in> set es \<and> as_action e = Some a \<and> llm_response_id a = r}"

lemma dict_get_build_batches:
  "dict_get (build_batches es) r = (if batch_ids es r = {} then None else Some (batch_ids es r))"
  by (simp add: build_batches_def map_of_build_batches_from batch_ids_def Let_def)

lemma distinct_build_batches: "distinct (dict_keys (build_batches es))"
proof -
  have "distinct (dict_keys d) \<Longrightarrow> distinct (dict_keys (build_batches_from d es))" for d
    by (induction es arbitrary: d) (auto simp: Let_def split: option.splits)
  then show ?thesis by (simp add: build_batches_def)
qed

lemma ba_enforce_eq:
  "ba_enforce view all = \<Union> {batch_ids view r | r. batch_ids view r \<noteq> batch_ids all r}"
proof -
  have item: "(r, s) \<in> set (build_batches view) \<longleftrightarrow> batch_ids view r \<noteq> {} \<and> s = batch_ids view r" for r s
    using distinct_build_batches [of view]
    by (auto simp: dict_get_build_batches map_of_eq_Some_iff [symmetric] split: if_splits)
  have dflt: "(case dict_get (build_batches all) r of None \<Rightarrow> {} | Some s \<Rightarrow> s) = batch_ids all r" for r
    by (simp add: dict_get_build_batches)
  have "ba_enforce view all = \<Union> {s. \<exists>r. (r, s) \<in> set (build_batches view) \<and> s \<noteq> batch_ids all r}"
    by (auto simp: ba_enforce_def dflt)
  also have "\<dots> = \<Union> {batch_ids view r | r. batch_ids view r \<noteq> batch_ids all r}"
    by (auto simp: item)
  finally show ?thesis .
qed

interpretation ba: view_property ba_enforce
  by unfold_locales (auto simp: ba_enforce_eq batch_ids_def)

interpretation tcm: view_property tcm_enforce
  by unfold_locales (auto simp: tcm_enforce_def Let_def)

lemma tla_enforce_from_subset:
  "tla_enforce_from loops ids removed es \<subseteq> removed \<union> ids"
proof (induction es arbitrary: removed)
  case (Cons e es)
  have "tla_enforce_from loops ids (removed \<union> (ids \<inter> l)) es \<subseteq> removed \<union> ids" for l
    using Cons.IH [of "removed \<union> (ids \<inter> l)"] by blast
  with Cons.IH show ?case by (auto split: option.split)
qed simp

interpretation tla: view_property tla_enforce
  using tla_enforce_from_subset by unfold_locales (fastforce simp: tla_enforce_def)

end
