(* ===== verification/Manipulation.thy ===== *)
theory Manipulation
  imports View_Properties
begin

text \<open>
  Why a condenser may cut a view at its manipulation indices: for each of the four properties,
  replacing the events between two manipulation indices by events that are neither actions nor
  observations keeps the property. The locale \<open>cuttable_property\<close> is that contract
  (\<open>properties/base.py\<close>: "maintaining the property"), and the four interpretations prove it for the
  code's \<open>enforce\<close> and \<open>manipulation_indices\<close>.
\<close>

section \<open>Splices and contiguous groups\<close>

definition splice :: "nat \<Rightarrow> nat \<Rightarrow> 'a list \<Rightarrow> 'a list \<Rightarrow> 'a list" where
  "splice i j mid es = take i es @ mid @ drop j es"

lemma splice_parts:
  assumes "i \<le> j"
  shows "es = take i es @ take (j - i) (drop i es) @ drop j es"
proof -
  have "drop (j - i) (drop i es) = drop j es" using assms by (simp add: drop_drop)
  then have "drop i es = take (j - i) (drop i es) @ drop j es"
    by (metis append_take_drop_id)
  then show ?thesis by (metis append_take_drop_id)
qed

definition neutral :: "str set \<Rightarrow> event \<Rightarrow> bool" where
  "neutral used e \<longleftrightarrow> as_action e = None \<and> as_obs e = None \<and> ev_id e \<notin> used"

text \<open>The elements with \<open>P\<close> stand next to each other.\<close>

definition contiguous :: "('a \<Rightarrow> bool) \<Rightarrow> 'a list \<Rightarrow> bool" where
  "contiguous P es \<longleftrightarrow> (\<forall>e \<in> set (dropWhile P (dropWhile (\<lambda>e. \<not> P e) es)). \<not> P e)"

lemma contiguous_parts:
  assumes "contiguous P es"
  obtains xs ys zs where "es = xs @ ys @ zs" "\<forall>x \<in> set xs \<union> set zs. \<not> P x" "\<forall>y \<in> set ys. P y"
proof -
  let ?xs = "takeWhile (\<lambda>e. \<not> P e) es" and ?r = "dropWhile (\<lambda>e. \<not> P e) es"
  have "es = ?xs @ takeWhile P ?r @ dropWhile P ?r" by simp
  moreover have "\<forall>x \<in> set ?xs. \<not> P x" using set_takeWhileD by fast
  then have "\<forall>x \<in> set ?xs \<union> set (dropWhile P ?r). \<not> P x"
    using assms unfolding contiguous_def by blast
  moreover have "\<forall>y \<in> set (takeWhile P ?r). P y" using set_takeWhileD by fast
  ultimately show thesis by (rule that)
qed

text \<open>A cut that does not separate two neighbours with \<open>P\<close> removes none or all of a contiguous group.\<close>

lemma cut_all_or_nothing:
  assumes "contiguous P es" and "i \<le> j"
    and sep: "\<And>k. 0 < k \<Longrightarrow> k < length es \<Longrightarrow> P (es ! (k - 1)) \<Longrightarrow> P (es ! k) \<Longrightarrow> k \<noteq> i \<and> k \<noteq> j"
  shows "filter P (take i es @ drop j es) = [] \<or> filter P (take i es @ drop j es) = filter P es"
proof -
  obtain xs ys zs where es: "es = xs @ ys @ zs" and out: "\<forall>x \<in> set xs \<union> set zs. \<not> P x"
    and ys: "\<forall>y \<in> set ys. P y"
    using contiguous_parts [OF assms(1)] by blast
  have zero: "filter P xs = []" "filter P zs = []" "filter P ys = ys"
    using out ys by (auto simp: filter_empty_conv filter_id_conv)
  have sub: "filter P (take n xs) = []" "filter P (drop n zs) = []"
            "filter P (drop n xs) = []" "filter P (take n zs) = []" for n
    using out by (auto simp: filter_empty_conv dest!: in_set_takeD in_set_dropD)
  have inner: "\<not> (length xs < k \<and> k < length xs + length ys)" if "k = i \<or> k = j" for k
  proof
    assume k: "length xs < k \<and> k < length xs + length ys"
    then have "es ! (k - 1) = ys ! (k - 1 - length xs)" "es ! k = ys ! (k - length xs)"
      by (auto simp: es nth_append)
    then have "P (es ! (k - 1))" "P (es ! k)" using ys k by auto
    with sep [of k] k that show False by (auto simp: es)
  qed
  have take: "filter P (take n es) = (if n \<le> length xs then [] else ys)"
    if "\<not> (length xs < n \<and> n < length xs + length ys)" for n
    using that by (auto simp: es zero sub take_Cons' not_less not_le)
  have drop: "filter P (drop n es) = (if n \<le> length xs then ys else [])"
    if "\<not> (length xs < n \<and> n < length xs + length ys)" for n
    using that by (auto simp: es zero sub not_less)
  have "filter P es = ys" by (simp add: es zero)
  then show ?thesis
    using take [OF inner [of i]] drop [OF inner [of j]] \<open>i \<le> j\<close> inner [of i]
    by (cases "ys = []") auto
qed

section \<open>The contract\<close>

locale cuttable_property = view_property +
  fixes manip :: "event list \<Rightarrow> py_exc + manip"
    and wf :: "event list \<Rightarrow> event list \<Rightarrow> bool"
    and used :: "event list \<Rightarrow> str set"
  assumes manip_bounded: "manip view = Inr S \<Longrightarrow> S \<subseteq> {0..length view}"
    and splice_keeps: "manip view = Inr S \<Longrightarrow> wf view all \<Longrightarrow> enforce view all = {} \<Longrightarrow>
      i \<in> S \<Longrightarrow> j \<in> S \<Longrightarrow> i \<le> j \<Longrightarrow> \<forall>e \<in> set mid. neutral (used all) e \<Longrightarrow>
      enforce (splice i j mid view) all = {}"
begin

lemma delete_keeps:
  assumes "manip view = Inr S" "wf view all" "enforce view all = {}" "i \<in> S" "j \<in> S" "i \<le> j"
  shows "enforce (take i view @ drop j view) all = {}"
  using splice_keeps [OF assms, of "[]"] by (simp add: splice_def)

lemma insert_keeps:
  assumes "manip view = Inr S" "wf view all" "enforce view all = {}" "i \<in> S"
    and "neutral (used all) e"
  shows "enforce (take i view @ e # drop i view) all = {}"
  using splice_keeps [OF assms(1-4) assms(4) order_refl, of "[e]"] assms(5) by (simp add: splice_def)

end

section \<open>Unique observations\<close>

fun obs_call_ids :: "event list \<Rightarrow> str list" where
  "obs_call_ids [] = []"
| "obs_call_ids (e # es) =
     (case as_obs e of Some b \<Rightarrow> obs_tool_call_id b # obs_call_ids es | None \<Rightarrow> obs_call_ids es)"

lemma obs_call_ids_append [simp]: "obs_call_ids (xs @ ys) = obs_call_ids xs @ obs_call_ids ys"
  by (induction xs) (auto split: option.splits)

lemma obs_call_ids_neutral: "\<forall>e \<in> set mid. neutral U e \<Longrightarrow> obs_call_ids mid = []"
  by (induction mid) (auto simp: neutral_def)

lemma ou_enforce_from_empty:
  "ou_enforce_from seen es = {} \<longleftrightarrow> distinct (obs_call_ids es) \<and> set (obs_call_ids es) \<inter> seen = {}"
  by (induction es arbitrary: seen) (auto split: option.splits)

lemma ou_enforce_empty: "ou_enforce view all = {} \<longleftrightarrow> distinct (obs_call_ids view)"
  by (simp add: ou_enforce_def ou_enforce_from_empty)

interpretation ou: cuttable_property ou_enforce ou_manipulation_indices "\<lambda>view all. True" "\<lambda>all. {}"
proof unfold_locales
  fix view S
  assume "ou_manipulation_indices view = Inr S"
  then show "S \<subseteq> {0..length view}" by (simp add: ou_manipulation_indices_def complete_eq)
next
  fix view all :: "event list" and i j :: nat and mid
  assume "ou_enforce view all = {}" and ij: "i \<le> j" and mid: "\<forall>e \<in> set mid. neutral {} e"
  then have "distinct (obs_call_ids view)" by (simp add: ou_enforce_empty)
  then have "distinct (obs_call_ids (take i view) @ obs_call_ids (take (j - i) (drop i view))
      @ obs_call_ids (drop j view))"
    using splice_parts [OF ij, of view] by (metis obs_call_ids_append)
  then show "ou_enforce (splice i j mid view) all = {}"
    using mid by (auto simp: ou_enforce_empty splice_def obs_call_ids_neutral)
qed

section \<open>Matched tool calls\<close>

text \<open>The pending set after a run over some events, or the \<open>KeyError\<close> of \<open>set.remove\<close>.\<close>

fun pending_run :: "str set \<Rightarrow> event list \<Rightarrow> py_exc + str set" where
  "pending_run p [] = Inr p"
| "pending_run p (e # es) = rbind (pending_step p e) (\<lambda>p'. pending_run p' es)"

lemma pending_run_append: "pending_run p (xs @ ys) = rbind (pending_run p xs) (\<lambda>p'. pending_run p' ys)"
proof (induction xs arbitrary: p)
  case (Cons x xs)
  then show ?case by (cases "pending_step p x") simp_all
qed simp

lemma pending_run_neutral: "\<forall>e \<in> set mid. neutral U e \<Longrightarrow> pending_run p mid = Inr p"
  by (induction mid) (auto simp: neutral_def pending_step_def)

lemma tcm_manip_from_Inr:
  assumes "{index<..index + length es} \<subseteq> S"
  shows "(case pending_run p es of Inl e \<Rightarrow> tcm_manip_from index p S es = Inl e
     | Inr _ \<Rightarrow> tcm_manip_from index p S es =
         Inr (S - {index + k | k. 0 < k \<and> k \<le> length es \<and> pending_run p (take k es) \<noteq> Inr {}}))"
  using assms
proof (induction es arbitrary: index p S)
  case (Cons e es)
  show ?case
  proof (cases "pending_step p e")
    case (Inr p')
    let ?S = "if p' = {} then S else S - {index + 1}"
    have "Suc index \<in> S" using Cons.prems by auto
    then have step: "tcm_manip_from index p S (e # es) = tcm_manip_from (index + 1) p' ?S es"
      using Inr by (auto simp: py_set_remove_def)
    have sub: "{index + 1<..index + 1 + length es} \<subseteq> ?S"
    proof
      fix x assume "x \<in> {index + 1<..index + 1 + length es}"
      then have "x \<in> {index<..index + length (e # es)}" "x \<noteq> index + 1" by auto
      with Cons.prems show "x \<in> ?S" by auto
    qed
    have sets: "?S - {index + 1 + k | k. 0 < k \<and> k \<le> length es \<and> pending_run p' (take k es) \<noteq> Inr {}} =
      S - {index + k | k. 0 < k \<and> k \<le> length (e # es) \<and> pending_run p (take k (e # es)) \<noteq> Inr {}}"
      (is "?L = ?R")
    proof -
      have "{index + k | k. 0 < k \<and> k \<le> length (e # es) \<and> pending_run p (take k (e # es)) \<noteq> Inr {}}
        = {index + Suc k | k. k \<le> length es \<and> pending_run p' (take k es) \<noteq> Inr {}}"
        using Inr by (auto simp: gr0_conv_Suc)
      also have "\<dots> = (if p' = {} then {} else {index + 1})
          \<union> {index + 1 + k | k. 0 < k \<and> k \<le> length es \<and> pending_run p' (take k es) \<noteq> Inr {}}"
        by (auto simp: gr0_conv_Suc) (metis not0_implies_Suc pending_run.simps(1) take_0)
      finally show ?thesis by auto
    qed
    show ?thesis
      using Cons.IH [OF sub, of p'] unfolding step sets using Inr
      by (auto split: sum.splits)
  qed simp
qed simp

lemma tcm_manip_Inr:
  assumes "tcm_manipulation_indices view = Inr S"
  shows "S = {k. k \<le> length view \<and> pending_run {} (take k view) = Inr {}}"
    and "\<exists>p. pending_run {} view = Inr p"
proof -
  have "{0<..0 + length view} \<subseteq> complete view" by (auto simp: complete_eq)
  from tcm_manip_from_Inr [OF this, of "{}"] assms
  have S: "S = complete view - {0 + k | k. 0 < k \<and> k \<le> length view \<and> pending_run {} (take k view) \<noteq> Inr {}}"
    and "\<exists>p. pending_run {} view = Inr p"
    by (auto simp: tcm_manipulation_indices_def split: sum.splits)
  then show "\<exists>p. pending_run {} view = Inr p" by simp
  show "S = {k. k \<le> length view \<and> pending_run {} (take k view) = Inr {}}"
    unfolding S by (auto simp: complete_eq)
qed

lemma tcm_manip_Inl: "tcm_manipulation_indices view = Inl e \<longleftrightarrow> pending_run {} view = Inl e"
proof -
  have "{0<..0 + length view} \<subseteq> complete view" by (auto simp: complete_eq)
  from tcm_manip_from_Inr [OF this, of "{}"] show ?thesis
    by (auto simp: tcm_manipulation_indices_def split: sum.splits)
qed

text \<open>A run without an exception pairs every observation with an earlier action.\<close>

lemma pending_run_ids:
  "pending_run p es = Inr q \<Longrightarrow>
     q \<subseteq> p \<union> action_tool_call_ids es \<and> observation_tool_call_ids es \<subseteq> p \<union> action_tool_call_ids es
     \<and> p \<union> action_tool_call_ids es \<subseteq> q \<union> observation_tool_call_ids es"
proof (induction es arbitrary: p)
  case (Cons e es)
  then obtain p' where "pending_step p e = Inr p'" "pending_run p' es = Inr q"
    by (auto simp: rbind_eq_Inr)
  with Cons.IH show ?case
    by (fastforce simp: pending_step_def py_set_remove_def split: option.splits if_splits)
qed simp

lemma action_id_mem: "e \<in> set es \<Longrightarrow> as_action e = Some a \<Longrightarrow> act_tool_call_id a \<in> action_tool_call_ids es"
  by (induction es) (auto split: option.splits)

lemma observation_id_mem: "e \<in> set es \<Longrightarrow> as_obs e = Some b \<Longrightarrow> obs_tool_call_id b \<in> observation_tool_call_ids es"
  by (induction es) (auto split: option.splits)

lemma tcm_enforce_empty_if_ids:
  assumes "action_tool_call_ids view = observation_tool_call_ids view"
  shows "tcm_enforce view all = {}"
  using assms action_id_mem observation_id_mem
  by (fastforce simp: tcm_enforce_def Let_def unmatched_def filter_empty_conv split: option.splits)

lemma closed_run_enforce_empty: "pending_run {} view = Inr {} \<Longrightarrow> tcm_enforce view all = {}"
  by (rule tcm_enforce_empty_if_ids) (use pending_run_ids [of "{}" view "{}"] in auto)

definition tool_calls_closed :: "event list \<Rightarrow> bool" where
  "tool_calls_closed view \<longleftrightarrow> pending_run {} view = Inr {}"

lemma closed_splice:
  assumes "tool_calls_closed view" "pending_run {} (take i view) = Inr {}"
    "pending_run {} (take j view) = Inr {}" "\<forall>e \<in> set mid. neutral U e"
  shows "tool_calls_closed (splice i j mid view)"
proof -
  have "pending_run {} (drop j view) = Inr {}"
    using assms(1,3) pending_run_append [of "{}" "take j view" "drop j view"]
    by (simp add: tool_calls_closed_def)
  then show ?thesis
    using assms(2) pending_run_neutral [OF assms(4)]
    by (simp add: tool_calls_closed_def splice_def pending_run_append)
qed

interpretation tcm: cuttable_property tcm_enforce tcm_manipulation_indices
  "\<lambda>view all. tool_calls_closed view" "\<lambda>all. {}"
proof unfold_locales
  fix view S
  assume "tcm_manipulation_indices view = Inr S"
  then show "S \<subseteq> {0..length view}" by (auto dest: tcm_manip_Inr(1))
next
  fix view all :: "event list" and i j :: nat and mid S
  assume S: "tcm_manipulation_indices view = Inr S" and closed: "tool_calls_closed view"
    and "i \<in> S" "j \<in> S" and mid: "\<forall>e \<in> set mid. neutral {} e"
  then have "pending_run {} (take i view) = Inr {}" "pending_run {} (take j view) = Inr {}"
    using tcm_manip_Inr(1) [OF S] by auto
  from closed_splice [OF closed this mid] show "tcm_enforce (splice i j mid view) all = {}"
    by (simp add: tool_calls_closed_def closed_run_enforce_empty)
qed

section \<open>Atomic batches\<close>

definition in_batch :: "str \<Rightarrow> event \<Rightarrow> bool" where
  "in_batch r e = (case as_action e of Some a \<Rightarrow> llm_response_id a = r | None \<Rightarrow> False)"

definition batches_contiguous :: "event list \<Rightarrow> bool" where
  "batches_contiguous view =
     (\<forall>e \<in> set view. case as_action e of
        Some a \<Rightarrow> contiguous (in_batch (llm_response_id a)) view | None \<Rightarrow> True)"

lemma batch_ids_eq: "batch_ids es r = ev_id ` set (filter (in_batch r) es)"
  by (auto simp: batch_ids_def in_batch_def split: option.splits)

lemma same_batch_iff: "same_batch x y \<longleftrightarrow> (\<exists>r. in_batch r x \<and> in_batch r y)"
  by (auto simp: same_batch_def in_batch_def split: option.splits)

lemma ba_enforce_empty:
  "ba_enforce view all = {} \<longleftrightarrow> (\<forall>r. batch_ids view r = {} \<or> batch_ids view r = batch_ids all r)"
  by (auto simp: ba_enforce_eq)

lemma ba_manip_from_Inr:
  assumes "{index<..<index + length es} \<subseteq> S"
  shows "ba_manip_from index S es =
    Inr (S - {index + k | k. 0 < k \<and> k < length es \<and> same_batch (es ! (k - 1)) (es ! k)})"
  using assms
proof (induction index S es rule: ba_manip_from.induct)
  case (1 index S left right es)
  let ?S = "if same_batch left right then S - {index + 1} else S"
  have "Suc index \<in> S" using "1.prems" by auto
  then have step: "ba_manip_from index S (left # right # es) = ba_manip_from (index + 1) ?S (right # es)"
    by (simp add: py_set_remove_def)
  have sub: "{index + 1<..<index + 1 + length (right # es)} \<subseteq> ?S"
  proof
    fix x assume "x \<in> {index + 1<..<index + 1 + length (right # es)}"
    then have "x \<in> {index<..<index + length (left # right # es)}" "x \<noteq> index + 1" by auto
    with "1.prems" show "x \<in> ?S" by auto
  qed
  have ih: "ba_manip_from (index + 1) ?S (right # es) = Inr (?S -
      {index + 1 + k | k. 0 < k \<and> k < length (right # es) \<and> same_batch ((right # es) ! (k - 1)) ((right # es) ! k)})"
  proof (cases "same_batch left right")
    case True
    then have "py_set_remove (index + 1) S = Inr ?S"
      using \<open>Suc index \<in> S\<close> by (simp add: py_set_remove_def)
    from "1.IH"(1) [OF True this] sub show ?thesis by simp
  next
    case False
    with "1.IH"(2) sub show ?thesis by simp
  qed
  have "{index + k | k. 0 < k \<and> k < length (left # right # es) \<and>
          same_batch ((left # right # es) ! (k - 1)) ((left # right # es) ! k)}
    = (if same_batch left right then {index + 1} else {}) \<union>
      {index + 1 + k | k. 0 < k \<and> k < length (right # es) \<and> same_batch ((right # es) ! (k - 1)) ((right # es) ! k)}"
    (is "?A = ?B \<union> ?C")
  proof (intro set_eqI iffI)
    fix x assume "x \<in> ?A"
    then obtain k where k: "x = index + k" "0 < k" "k < length (left # right # es)"
      "same_batch ((left # right # es) ! (k - 1)) ((left # right # es) ! k)" by blast
    show "x \<in> ?B \<union> ?C"
    proof (cases "k = 1")
      case False
      with k have "x = index + 1 + (k - 1) \<and> 0 < k - 1 \<and> k - 1 < length (right # es) \<and>
        same_batch ((right # es) ! (k - 1 - 1)) ((right # es) ! (k - 1))"
        by (auto simp: nth_Cons')
      then show ?thesis by blast
    qed (use k in simp)
  next
    fix x assume "x \<in> ?B \<union> ?C"
    then consider "x = index + 1" "same_batch left right" | k where "x = index + Suc k" "0 < k"
      "k < length (right # es)" "same_batch ((right # es) ! (k - 1)) ((right # es) ! k)"
      by (auto split: if_splits)
    then show "x \<in> ?A"
    proof cases
      case 1
      then show ?thesis by (auto intro!: exI [of _ 1])
    next
      case (2 k)
      then show ?thesis by (auto intro!: exI [of _ "Suc k"] simp: nth_Cons')
    qed
  qed
  then show ?case unfolding step ih by auto
qed auto

lemma ba_manip_eq:
  "ba_manipulation_indices view = Inr (complete view -
     {k. 0 < k \<and> k < length view \<and> same_batch (view ! (k - 1)) (view ! k)})"
proof -
  have "{0<..<0 + length view} \<subseteq> complete view" by (auto simp: complete_eq)
  from ba_manip_from_Inr [OF this] show ?thesis by (simp add: ba_manipulation_indices_def)
qed

lemma filter_splice_neutral:
  assumes "\<forall>e \<in> set mid. \<not> P e"
  shows "filter P (splice i j mid es) = filter P (take i es @ drop j es)"
  using assms by (simp add: splice_def filter_empty_conv)

interpretation ba: cuttable_property ba_enforce ba_manipulation_indices
  "\<lambda>view all. batches_contiguous view" "\<lambda>all. {}"
proof unfold_locales
  fix view S
  assume "ba_manipulation_indices view = Inr S"
  then show "S \<subseteq> {0..length view}" by (auto simp: ba_manip_eq complete_eq)
next
  fix view all :: "event list" and i j :: nat and mid S
  assume S: "ba_manipulation_indices view = Inr S" and contig: "batches_contiguous view"
    and ok: "ba_enforce view all = {}" and ij: "i \<in> S" "j \<in> S" "i \<le> j"
    and mid: "\<forall>e \<in> set mid. neutral {} e"
  have "batch_ids (splice i j mid view) r = {} \<or> batch_ids (splice i j mid view) r = batch_ids view r" for r
  proof (cases "filter (in_batch r) view = []")
    case True
    then have "filter (in_batch r) (take i view @ drop j view) = []"
      by (auto simp: filter_empty_conv dest: in_set_takeD in_set_dropD)
    moreover have "\<forall>e \<in> set mid. \<not> in_batch r e" using mid by (simp add: neutral_def in_batch_def)
    ultimately show ?thesis by (simp add: batch_ids_eq filter_splice_neutral)
  next
    case False
    then have "contiguous (in_batch r) view"
      using contig unfolding batches_contiguous_def
      by (auto simp: filter_empty_conv in_batch_def split: option.splits)
    moreover have "k \<noteq> i \<and> k \<noteq> j" if "0 < k" "k < length view" "in_batch r (view ! (k - 1))"
        "in_batch r (view ! k)" for k
      using that ij S by (auto simp: ba_manip_eq same_batch_iff)
    ultimately have "filter (in_batch r) (take i view @ drop j view) = []
        \<or> filter (in_batch r) (take i view @ drop j view) = filter (in_batch r) view"
      using ij(3) by (intro cut_all_or_nothing)
    moreover have mid': "\<forall>e \<in> set mid. \<not> in_batch r e" using mid by (simp add: neutral_def in_batch_def)
    ultimately show ?thesis unfolding batch_ids_eq filter_splice_neutral [OF mid']
      by (elim disjE) (simp_all only: list.set image_empty simp_thms)
  qed
  with ok show "ba_enforce (splice i j mid view) all = {}"
    unfolding ba_enforce_empty by metis
qed

section \<open>Atomic tool loops\<close>

fun loop_state :: "bool \<Rightarrow> event list \<Rightarrow> bool" where
  "loop_state b [] = b"
| "loop_state b (e # es) =
     loop_state (if starts_tool_loop e then True else if continues_tool_loop e then b else False) es"

lemma loop_state_append: "loop_state b (xs @ ys) = loop_state (loop_state b xs) ys"
  by (induction xs arbitrary: b) simp_all

lemma tla_manip_from_Inr:
  assumes "{index..<index + length es} \<subseteq> S"
  shows "tla_manip_from index b S es = Inr (S - {index + k | k. k < length es \<and>
     \<not> starts_tool_loop (es ! k) \<and> continues_tool_loop (es ! k) \<and> loop_state b (take k es)})"
  using assms
proof (induction es arbitrary: index b S)
  case (Cons e es)
  let ?b = "if starts_tool_loop e then True else if continues_tool_loop e then b else False"
  let ?hit = "\<not> starts_tool_loop e \<and> continues_tool_loop e \<and> b"
  let ?S = "if ?hit then S - {index} else S"
  have "index \<in> S" using Cons.prems by auto
  then have step: "tla_manip_from index b S (e # es) = tla_manip_from (index + 1) ?b ?S es"
    by (auto simp: py_set_remove_def)
  have "{index + 1..<index + 1 + length es} \<subseteq> ?S"
  proof
    fix x assume "x \<in> {index + 1..<index + 1 + length es}"
    then have "x \<in> {index..<index + length (e # es)}" "x \<noteq> index" by auto
    with Cons.prems show "x \<in> ?S" by auto
  qed
  note ih = Cons.IH [OF this, of ?b]
  have "{index + k | k. k < length (e # es) \<and> \<not> starts_tool_loop ((e # es) ! k) \<and>
      continues_tool_loop ((e # es) ! k) \<and> loop_state b (take k (e # es))}
    = (if ?hit then {index} else {}) \<union> {index + 1 + k | k. k < length es \<and>
        \<not> starts_tool_loop (es ! k) \<and> continues_tool_loop (es ! k) \<and> loop_state ?b (take k es)}"
    (is "?A = ?B \<union> ?C")
  proof (intro set_eqI iffI)
    fix x assume "x \<in> ?A"
    then obtain k where k: "x = index + k" "k < length (e # es)" "\<not> starts_tool_loop ((e # es) ! k)"
      "continues_tool_loop ((e # es) ! k)" "loop_state b (take k (e # es))" by blast
    then show "x \<in> ?B \<union> ?C" by (cases k) auto
  next
    fix x assume "x \<in> ?B \<union> ?C"
    then consider "x = index" "?hit" | k where "x = index + Suc k" "k < length es"
      "\<not> starts_tool_loop (es ! k)" "continues_tool_loop (es ! k)" "loop_state ?b (take k es)"
      by (auto split: if_splits)
    then show "x \<in> ?A"
    proof cases
      case 1
      then show ?thesis by (auto intro!: exI [of _ 0])
    next
      case (2 k)
      then show ?thesis by (intro CollectI exI [of _ "Suc k"]) simp
    qed
  qed
  then show ?case unfolding step ih by auto
qed simp

lemma tla_manip_eq:
  "tla_manipulation_indices view = Inr (complete view - {k. k < length view \<and>
     \<not> starts_tool_loop (view ! k) \<and> continues_tool_loop (view ! k) \<and> loop_state False (take k view)})"
proof -
  have "{0..<0 + length view} \<subseteq> complete view" by (auto simp: complete_eq)
  from tla_manip_from_Inr [OF this] show ?thesis by (simp add: tla_manipulation_indices_def)
qed

text \<open>
  A loop of the whole history that is in the view stands in the view as one block: its thinking
  action first, then actions without thinking blocks and observations.
\<close>

definition loop_shape :: "event list \<Rightarrow> str set \<Rightarrow> bool" where
  "loop_shape view l =
     (contiguous (\<lambda>e. ev_id e \<in> l) view \<and>
      (case filter (\<lambda>e. ev_id e \<in> l) view of
         [] \<Rightarrow> True
       | e # es \<Rightarrow> starts_tool_loop e \<and>
           (\<forall>x \<in> set es. continues_tool_loop x \<and> \<not> starts_tool_loop x)))"

definition loops_contiguous :: "event list \<Rightarrow> event list \<Rightarrow> bool" where
  "loops_contiguous view all = (\<forall>l \<in> set (tool_loops all). loop_shape view l)"

definition loop_ids :: "event list \<Rightarrow> str set" where
  "loop_ids all = \<Union> (set (tool_loops all))"

lemma loop_state_True: "\<forall>x \<in> set es. continues_tool_loop x \<and> \<not> starts_tool_loop x \<Longrightarrow> loop_state True es"
  by (induction es) simp_all

lemma loop_shape_interior:
  assumes shape: "loop_shape view l" and k: "0 < k" "k < length view"
    and left: "ev_id (view ! (k - 1)) \<in> l" and right: "ev_id (view ! k) \<in> l"
  shows "\<not> starts_tool_loop (view ! k) \<and> continues_tool_loop (view ! k) \<and> loop_state False (take k view)"
proof -
  let ?P = "\<lambda>e. ev_id e \<in> l"
  obtain xs ys zs where view: "view = xs @ ys @ zs" and out: "\<forall>x \<in> set xs \<union> set zs. \<not> ?P x"
    and ys: "\<forall>y \<in> set ys. ?P y"
    using contiguous_parts shape unfolding loop_shape_def by blast
  have filt: "filter ?P view = ys"
    using out ys by (auto simp: view filter_empty_conv filter_id_conv)
  have lo: "length xs < k"
  proof (rule ccontr)
    assume "\<not> length xs < k"
    with k have "view ! (k - 1) \<in> set xs" by (auto simp: view nth_append)
    with out left show False by blast
  qed
  have hi: "k < length xs + length ys"
  proof (rule ccontr)
    assume "\<not> k < length xs + length ys"
    with k have "view ! k \<in> set zs" by (auto simp: view nth_append)
    with out right show False by blast
  qed
  with lo obtain y ys' where yy: "ys = y # ys'" by (cases ys) auto
  have st: "starts_tool_loop y" and cont: "\<forall>x \<in> set ys'. continues_tool_loop x \<and> \<not> starts_tool_loop x"
    using shape filt yy by (auto simp: loop_shape_def)
  define m where "m = k - Suc (length xs)"
  have km: "k = length xs + Suc m" and m: "m < length ys'" using lo hi yy by (auto simp: m_def)
  have "view ! k = ys' ! m" using m by (simp add: view km yy nth_append)
  moreover have "take k view = xs @ y # take m ys'" using m by (simp add: view km yy)
  moreover have "loop_state True (take m ys')"
    using cont by (intro loop_state_True) (auto dest: in_set_takeD)
  ultimately show ?thesis using m cont st by (simp add: loop_state_append)
qed

lemma first_loop_of_Some: "first_loop_of i ls = Some l \<Longrightarrow> l \<in> set ls \<and> i \<in> l"
  by (induction ls) (auto split: if_splits)

lemma first_loop_of_None: "i \<notin> \<Union> (set ls) \<Longrightarrow> first_loop_of i ls = None"
  by (induction ls) auto

lemma tla_enforce_from_mono: "removed \<subseteq> tla_enforce_from loops ids removed es"
proof (induction es arbitrary: removed)
  case (Cons e es)
  have "removed \<subseteq> tla_enforce_from loops ids (removed \<union> (ids \<inter> l)) es" for l
    using Cons.IH [of "removed \<union> (ids \<inter> l)"] by blast
  with Cons.IH show ?case by (auto split: option.splits)
qed simp

lemma tla_enforce_from_empty:
  assumes "set (map ev_id es) \<subseteq> ids"
  shows "tla_enforce_from loops ids {} es = {} \<longleftrightarrow>
    (\<forall>e \<in> set es. \<forall>l. first_loop_of (ev_id e) loops = Some l \<longrightarrow> l \<subseteq> ids)"
  using assms
proof (induction es)
  case (Cons e es)
  have "tla_enforce_from loops ids (ids \<inter> l) es \<noteq> {}" if "first_loop_of (ev_id e) loops = Some l" for l
    using tla_enforce_from_mono [of "ids \<inter> l" loops ids es] first_loop_of_Some [OF that] Cons.prems by auto
  with Cons show ?case by (auto split: option.split)
qed simp

lemma tla_enforce_empty:
  "tla_enforce view all = {} \<longleftrightarrow>
     (\<forall>e \<in> set view. \<forall>l. first_loop_of (ev_id e) (tool_loops all) = Some l \<longrightarrow> l \<subseteq> ev_id ` set view)"
  by (simp add: tla_enforce_def tla_enforce_from_empty)

interpretation tla: cuttable_property tla_enforce tla_manipulation_indices loops_contiguous loop_ids
proof unfold_locales
  fix view S
  assume "tla_manipulation_indices view = Inr S"
  then show "S \<subseteq> {0..length view}" by (auto simp: tla_manip_eq complete_eq)
next
  fix view all :: "event list" and i j :: nat and mid S
  assume S: "tla_manipulation_indices view = Inr S" and contig: "loops_contiguous view all"
    and ok: "tla_enforce view all = {}" and ij: "i \<in> S" "j \<in> S" "i \<le> j"
    and mid: "\<forall>e \<in> set mid. neutral (loop_ids all) e"
  show "tla_enforce (splice i j mid view) all = {}"
    unfolding tla_enforce_empty
  proof (intro ballI allI impI)
    fix e l
    assume e: "e \<in> set (splice i j mid view)" and l: "first_loop_of (ev_id e) (tool_loops all) = Some l"
    let ?P = "\<lambda>e. ev_id e \<in> l"
    have lall: "l \<in> set (tool_loops all)" and el: "ev_id e \<in> l"
      using first_loop_of_Some [OF l] by auto
    then have "e \<notin> set mid" using mid by (auto simp: neutral_def loop_ids_def)
    with e have e': "e \<in> set (take i view @ drop j view)" by (auto simp: splice_def)
    then have "e \<in> set view" by (auto dest: in_set_takeD in_set_dropD)
    with ok l have lview: "l \<subseteq> ev_id ` set view" by (simp add: tla_enforce_empty)
    have shape: "loop_shape view l" using contig lall by (simp add: loops_contiguous_def)
    have "k \<noteq> i \<and> k \<noteq> j" if "0 < k" "k < length view" "?P (view ! (k - 1))" "?P (view ! k)" for k
      using loop_shape_interior [OF shape that] S ij that(2) by (auto simp: tla_manip_eq)
    moreover have "contiguous ?P view" using shape by (simp add: loop_shape_def)
    ultimately have "filter ?P (take i view @ drop j view) = []
        \<or> filter ?P (take i view @ drop j view) = filter ?P view"
      using ij(3) by (intro cut_all_or_nothing)
    moreover have "filter ?P (take i view @ drop j view) \<noteq> []"
      using e' el by (auto simp: filter_empty_conv)
    ultimately have eq: "filter ?P (take i view @ drop j view) = filter ?P view" by blast
    show "l \<subseteq> ev_id ` set (splice i j mid view)"
    proof
      fix x assume "x \<in> l"
      with lview obtain e1 where "e1 \<in> set (filter ?P view)" "x = ev_id e1" by auto
      with eq have "e1 \<in> set (take i view @ drop j view)" by (metis filter_is_subset subsetD)
      with \<open>x = ev_id e1\<close> show "x \<in> ev_id ` set (splice i j mid view)" by (auto simp: splice_def)
    qed
  qed
qed

end
