(* ===== verification/View.thy ===== *)
theory View
  imports Manipulation
begin

text \<open>
  \<open>View\<close> of \<open>context/view/view.py\<close> and the application of a \<open>Condensation\<close> (\<open>event/condenser.py\<close>):
  building a view from an event stream, enforcing the four properties until none applies, and the
  manipulation indices of a view.
\<close>

section \<open>Condensations\<close>

definition has_summary_metadata :: "condensation_data \<Rightarrow> bool" where
  "has_summary_metadata c = (summary c \<noteq> None \<and> summary_offset c \<noteq> None)"

definition summary_event :: "event \<Rightarrow> condensation_data \<Rightarrow> py_exc + event" where
  "summary_event e c =
     (case summary c of
        None \<Rightarrow> Inl (ValueError ''No summary present to generate CondensationSummaryEvent.'')
      | Some s \<Rightarrow> Inr \<lparr>ev_id = ev_id e @ ''-summary'', ev_source = ev_source e,
          ev_parent_id = None, ev_body = CondensationSummaryEvent s\<rparr>)"

definition condensation_apply :: "event \<Rightarrow> condensation_data \<Rightarrow> event list \<Rightarrow> py_exc + event list" where
  "condensation_apply e c events =
     (let output = filter (\<lambda>ev. ev_id ev \<notin> forgotten_event_ids c) events in
      if has_summary_metadata c
      then (case summary_offset c of
              None \<Rightarrow> Inl (AssertionError ''summary_offset'')
            | Some k \<Rightarrow> rbind (summary_event e c) (\<lambda>s. Inr (py_insert (int k) s output)))
      else Inr output)"

lemma condensation_apply_Inr: "\<exists>es'. condensation_apply e c es = Inr es'"
  by (cases "summary c"; cases "summary_offset c")
    (simp_all add: condensation_apply_def has_summary_metadata_def summary_event_def Let_def)

section \<open>Views\<close>

record view =
  events :: "event list"
  unhandled_condensation_request :: bool

definition empty_view :: view where
  "empty_view = \<lparr>events = [], unhandled_condensation_request = False\<rparr>"

definition append_event :: "view \<Rightarrow> event \<Rightarrow> py_exc + view" where
  "append_event v e =
     (case ev_body e of
        Condensation c \<Rightarrow>
          rbind (condensation_apply e c (events v)) (\<lambda>es.
            Inr (v\<lparr>events := es, unhandled_condensation_request := False\<rparr>))
      | CondensationRequest \<Rightarrow> Inr (v\<lparr>unhandled_condensation_request := True\<rparr>)
      | _ \<Rightarrow> if is_llm_convertible e then Inr (v\<lparr>events := events v @ [e]\<rparr>) else Inr v)"

fun append_events :: "view \<Rightarrow> event list \<Rightarrow> py_exc + view" where
  "append_events v [] = Inr v"
| "append_events v (e # es) = rbind (append_event v e) (\<lambda>v'. append_events v' es)"

lemma append_event_Inr: "\<exists>v'. append_event v e = Inr v'"
proof (cases "ev_body e")
  case (Condensation c)
  then show ?thesis
    using condensation_apply_Inr [of e c "events v"] by (auto simp: append_event_def)
qed (auto simp: append_event_def)

lemma append_events_Inr: "\<exists>v'. append_events v es = Inr v'"
proof (induction es arbitrary: v)
  case (Cons e es)
  then show ?case using append_event_Inr [of v e] by auto
qed simp

lemma append_events_append:
  "append_events v (xs @ ys) = rbind (append_events v xs) (\<lambda>v'. append_events v' ys)"
proof (induction xs arbitrary: v)
  case (Cons x xs)
  then show ?case by (cases "append_event v x") simp_all
qed simp

section \<open>Enforcement\<close>

definition all_enforce :: "(event list \<Rightarrow> event list \<Rightarrow> str set) list" where
  "all_enforce = [ou_enforce, ba_enforce, tcm_enforce, tla_enforce]"

text \<open>The \<open>for\<close> loop with \<open>break\<close>: the ids of the first property that has to be enforced.\<close>

fun first_violation ::
    "(event list \<Rightarrow> event list \<Rightarrow> str set) list \<Rightarrow> event list \<Rightarrow> event list \<Rightarrow> str set" where
  "first_violation [] es all = {}"
| "first_violation (p # ps) es all =
     (let ids = p es all in if ids \<noteq> {} then ids else first_violation ps es all)"

lemma first_violation_cases:
  "first_violation ps es all = {} \<and> (\<forall>p \<in> set ps. p es all = {}) \<or>
   (\<exists>p \<in> set ps. first_violation ps es all = p es all \<and> p es all \<noteq> {})"
  by (induction ps) (auto simp: Let_def)

definition violation :: "event list \<Rightarrow> event list \<Rightarrow> str set" where
  "violation es all = first_violation all_enforce es all"

lemma violation_empty:
  "violation es all = {} \<longleftrightarrow>
     ou_enforce es all = {} \<and> ba_enforce es all = {} \<and> tcm_enforce es all = {} \<and> tla_enforce es all = {}"
  by (simp add: violation_def all_enforce_def Let_def)

lemma violation_shrinks:
  assumes "violation es all \<noteq> {}"
  shows "length (filter (\<lambda>e. ev_id e \<notin> violation es all) es) < length es"
proof -
  from assms first_violation_cases [of all_enforce es all]
  obtain p where "p \<in> set all_enforce" "violation es all = p es all" "p es all \<noteq> {}"
    unfolding violation_def by blast
  moreover from this have "view_property p"
    using ou.view_property_axioms ba.view_property_axioms tcm.view_property_axioms
      tla.view_property_axioms by (auto simp: all_enforce_def)
  ultimately show ?thesis by (simp add: view_property.forget_shrinks)
qed

function enforce_properties :: "event list \<Rightarrow> event list \<Rightarrow> event list" where
  "enforce_properties all es =
     (let ids = violation es all in
      if ids = {} then es
      else enforce_properties all (filter (\<lambda>e. ev_id e \<notin> ids) es))"
  by pat_completeness auto
termination
  by (relation "measure (\<lambda>(all, es). length es)") (auto simp: violation_shrinks)

declare enforce_properties.simps [simp del]

definition from_events :: "event list \<Rightarrow> py_exc + view" where
  "from_events es =
     rbind (append_events empty_view es) (\<lambda>v.
       Inr (v\<lparr>events := enforce_properties es (events v)\<rparr>))"

section \<open>Manipulation indices of a view\<close>

definition view_manipulation_indices :: "event list \<Rightarrow> py_exc + manip" where
  "view_manipulation_indices es =
     rbind (ou_manipulation_indices es) (\<lambda>s1.
     rbind (ba_manipulation_indices es) (\<lambda>s2.
     rbind (tcm_manipulation_indices es) (\<lambda>s3.
     rbind (tla_manipulation_indices es) (\<lambda>s4.
       Inr (complete es \<inter> s1 \<inter> s2 \<inter> s3 \<inter> s4)))))"

definition view_slice :: "event list \<Rightarrow> nat \<Rightarrow> nat \<Rightarrow> event list" where
  "view_slice es i j = py_slice es (int i) (int j)"

section \<open>Enforcement reaches a stable view\<close>

lemma enforce_properties_stable: "violation (enforce_properties all es) all = {}"
proof (induction all es rule: enforce_properties.induct)
  case (1 all es)
  show ?case
  proof (cases "violation es all = {}")
    case False
    with "1" show ?thesis by (simp add: enforce_properties.simps [of all es] Let_def)
  qed (simp add: enforce_properties.simps [of all es])
qed

lemma enforce_properties_id: "violation es all = {} \<Longrightarrow> enforce_properties all es = es"
  by (simp add: enforce_properties.simps)

lemma enforce_properties_filter: "\<exists>P. enforce_properties all es = filter P es"
proof (induction all es rule: enforce_properties.induct)
  case (1 all es)
  show ?case
  proof (cases "violation es all = {}")
    case True
    then show ?thesis
      by (intro exI [of _ "\<lambda>_. True"]) (simp add: enforce_properties_id)
  next
    case False
    with "1" obtain P where "enforce_properties all (filter (\<lambda>e. ev_id e \<notin> violation es all) es)
      = filter P (filter (\<lambda>e. ev_id e \<notin> violation es all) es)" by auto
    with False show ?thesis
      by (auto simp: enforce_properties.simps [of all es] Let_def intro: exI)
  qed
qed

lemma set_enforce_properties: "set (enforce_properties all es) \<subseteq> set es"
  using enforce_properties_filter [of all es] by auto

section \<open>Condensation at manipulation indices keeps the properties\<close>

lemma filter_forget:
  assumes "distinct (map ev_id es)" and "i \<le> j"
  shows "filter (\<lambda>e. ev_id e \<notin> ev_id ` set (take (j - i) (drop i es))) es = take i es @ drop j es"
proof -
  let ?m = "take (j - i) (drop i es)"
  have es: "es = take i es @ ?m @ drop j es" using assms(2) by (rule splice_parts)
  have "distinct (map ev_id (take i es @ ?m @ drop j es))" using assms(1) es by metis
  then have "\<forall>e \<in> set (take i es) \<union> set (drop j es). ev_id e \<notin> ev_id ` set ?m"
    by (auto simp: image_iff)
  then have "filter (\<lambda>e. ev_id e \<notin> ev_id ` set ?m) (take i es @ ?m @ drop j es) = take i es @ drop j es"
    by (simp add: filter_empty_conv filter_id_conv)
  with es show ?thesis by metis
qed

lemma tool_loops_from_other:
  "\<not> continues_tool_loop e \<Longrightarrow> tool_loops_from c (all @ [e]) = tool_loops_from c all"
proof (induction all arbitrary: c)
  case Nil
  then have "\<not> starts_tool_loop e"
    by (auto simp: starts_tool_loop_def continues_tool_loop_def is_action_def split: option.splits)
  with Nil show ?case by (simp add: opt_to_list_def)
qed simp

lemma violation_extend:
  assumes "as_action e = None" "as_obs e = None"
  shows "violation es (all @ [e]) = {} \<longleftrightarrow> violation es all = {}"
proof -
  have "tool_loops (all @ [e]) = tool_loops all"
    using assms by (simp add: tool_loops_def tool_loops_from_other continues_tool_loop_def
        is_action_def is_obs_def)
  moreover have "batch_ids (all @ [e]) r = batch_ids all r" for r
    using assms by (auto simp: batch_ids_def)
  ultimately show ?thesis
    by (simp add: violation_empty ou_enforce_empty ba_enforce_empty tla_enforce_empty
        tcm_enforce_def)
qed

text \<open>
  The shape the condensers rely on: actions of one response stand next to each other, every tool
  call of the view is answered in the view, and tool loops stand in one block.
\<close>

definition view_wf :: "event list \<Rightarrow> event list \<Rightarrow> bool" where
  "view_wf es all = (batches_contiguous es \<and> tool_calls_closed es \<and> loops_contiguous es all)"

lemma view_manip_Inr:
  assumes "view_manipulation_indices es = Inr S"
  obtains s2 s3 s4 where "ba_manipulation_indices es = Inr s2" "tcm_manipulation_indices es = Inr s3"
    "tla_manipulation_indices es = Inr s4" "S = complete es \<inter> s2 \<inter> s3 \<inter> s4"
  using assms
  by (auto simp: view_manipulation_indices_def rbind_eq_Inr ou_manipulation_indices_def)

lemma finite_view_manip: "view_manipulation_indices es = Inr S \<Longrightarrow> finite S"
  by (elim view_manip_Inr) simp

lemma view_manip_bounded: "view_manipulation_indices es = Inr S \<Longrightarrow> i \<in> S \<Longrightarrow> i \<le> length es"
  by (elim view_manip_Inr) (simp add: complete_eq)

lemma splice_keeps_view:
  assumes S: "view_manipulation_indices es = Inr S" and wf: "view_wf es all"
    and ok: "violation es all = {}" and ij: "i \<in> S" "j \<in> S" "i \<le> j"
    and mid: "\<forall>e \<in> set mid. neutral (loop_ids all) e"
  shows "violation (splice i j mid es) all = {}"
proof -
  have mid': "\<forall>e \<in> set mid. neutral {} e" using mid by (simp add: neutral_def)
  from S obtain s2 s3 s4 where s: "ba_manipulation_indices es = Inr s2"
    "tcm_manipulation_indices es = Inr s3" "tla_manipulation_indices es = Inr s4"
    "S = complete es \<inter> s2 \<inter> s3 \<inter> s4" by (rule view_manip_Inr)
  have ok': "ou_enforce es all = {}" "ba_enforce es all = {}" "tcm_enforce es all = {}"
    "tla_enforce es all = {}" using ok by (simp_all add: violation_empty)
  have in_s: "i \<in> complete es" "j \<in> complete es" "i \<in> s2" "j \<in> s2" "i \<in> s3" "j \<in> s3" "i \<in> s4" "j \<in> s4"
    using ij s(4) by auto
  show ?thesis unfolding violation_empty
    using ou.splice_keeps [OF _ _ ok'(1) in_s(1,2) ij(3) mid']
      ba.splice_keeps [OF s(1) _ ok'(2) in_s(3,4) ij(3) mid']
      tcm.splice_keeps [OF s(2) _ ok'(3) in_s(5,6) ij(3) mid']
      tla.splice_keeps [OF s(3) _ ok'(4) in_s(7,8) ij(3) mid] wf
    by (simp add: view_wf_def ou_manipulation_indices_def)
qed

text \<open>The condensation a condenser makes from a range of the view and a summary.\<close>

definition range_condensation :: "event list \<Rightarrow> nat \<Rightarrow> nat \<Rightarrow> str option \<Rightarrow> str \<Rightarrow> condensation_data" where
  "range_condensation es i j summ rid =
     \<lparr>forgotten_event_ids = ev_id ` set (take (j - i) (drop i es)), summary = summ,
      summary_offset = Some i, cond_llm_response_id = rid\<rparr>"

definition summary_block :: "event \<Rightarrow> str option \<Rightarrow> event list" where
  "summary_block e summ =
     (case summ of
        None \<Rightarrow> []
      | Some s \<Rightarrow> [\<lparr>ev_id = ev_id e @ ''-summary'', ev_source = ev_source e,
          ev_parent_id = None, ev_body = CondensationSummaryEvent s\<rparr>])"

lemma summary_block_neutral:
  "ev_id e @ ''-summary'' \<notin> U \<Longrightarrow> \<forall>x \<in> set (summary_block e summ). neutral U x"
  by (auto simp: summary_block_def neutral_def ev_simps split: option.splits)

lemma length_summary_block: "length (summary_block e summ) \<le> 1"
  by (simp add: summary_block_def split: option.splits)

lemma apply_range_condensation:
  assumes "distinct (map ev_id es)" "i \<le> j" "i \<le> length es"
    and "condensation_apply e (range_condensation es i j summ rid) es = Inr es'"
  shows "es' = splice i j (summary_block e summ) es"
  using assms(4) filter_forget [OF assms(1,2)] assms(3)
  by (cases summ) (auto simp: condensation_apply_def range_condensation_def has_summary_metadata_def
      summary_event_def py_insert_def Let_def splice_def summary_block_def)

lemma apply_range:
  assumes "c = range_condensation es i j (summary c) (cond_llm_response_id c)"
    and "distinct (map ev_id es)" "i \<le> j" "i \<le> length es" "condensation_apply e c es = Inr es'"
  shows "es' = splice i j (summary_block e (summary c)) es"
proof (rule apply_range_condensation [OF assms(2-4)])
  show "condensation_apply e (range_condensation es i j (summary c) (cond_llm_response_id c)) es = Inr es'"
    using assms(5) by (simp only: assms(1) [symmetric])
qed

section \<open>When the manipulation indices exist\<close>

fun action_call_ids :: "event list \<Rightarrow> str list" where
  "action_call_ids [] = []"
| "action_call_ids (e # es) =
     (case as_action e of Some a \<Rightarrow> act_tool_call_id a # action_call_ids es | None \<Rightarrow> action_call_ids es)"

text \<open>"Actions always come before observations": every observation answers an earlier action.\<close>

fun calls_ordered_from :: "str set \<Rightarrow> event list \<Rightarrow> bool" where
  "calls_ordered_from acts [] = True"
| "calls_ordered_from acts (e # es) =
     (case as_action e of
        Some a \<Rightarrow> calls_ordered_from (insert (act_tool_call_id a) acts) es
      | None \<Rightarrow> (case as_obs e of
          Some b \<Rightarrow> obs_tool_call_id b \<in> acts \<and> calls_ordered_from acts es
        | None \<Rightarrow> calls_ordered_from acts es))"

lemma set_action_call_ids [simp]: "set (action_call_ids es) = action_tool_call_ids es"
  by (induction es) (auto split: option.splits)

lemma set_obs_call_ids [simp]: "set (obs_call_ids es) = observation_tool_call_ids es"
  by (induction es) (auto split: option.splits)

lemma pending_run_ordered:
  assumes "distinct (action_call_ids es)" "distinct (obs_call_ids es)" "calls_ordered_from acts es"
    and "acts \<inter> action_tool_call_ids es = {}" "seen \<subseteq> acts" "seen \<inter> observation_tool_call_ids es = {}"
  shows "pending_run (acts - seen) es =
    Inr ((acts \<union> action_tool_call_ids es) - (seen \<union> observation_tool_call_ids es))"
  using assms
proof (induction es arbitrary: acts seen)
  case (Cons e es)
  show ?case
  proof (cases "as_action e")
    case (Some a)
    let ?t = "act_tool_call_id a"
    have "as_obs e = None" using Some by simp
    have *: "?t \<notin> acts" "distinct (action_call_ids es)" "distinct (obs_call_ids es)"
      "calls_ordered_from (insert ?t acts) es" "insert ?t acts \<inter> action_tool_call_ids es = {}"
      "seen \<subseteq> insert ?t acts" "seen \<inter> observation_tool_call_ids es = {}"
      using Cons.prems Some \<open>as_obs e = None\<close> by auto
    then have "insert ?t acts - seen = insert ?t (acts - seen)" using Cons.prems(5) by auto
    then have "pending_run (acts - seen) (e # es) = pending_run (insert ?t acts - seen) es"
      using Some by (simp add: pending_step_def)
    also note Cons.IH [OF *(2-7)]
    finally show ?thesis using Some \<open>as_obs e = None\<close> by simp
  next
    case None
    show ?thesis
    proof (cases "as_obs e")
      case (Some b)
      let ?t = "obs_tool_call_id b"
      from Cons.prems None Some have *: "?t \<in> acts" "?t \<notin> seen" "distinct (action_call_ids es)"
        "distinct (obs_call_ids es)" "calls_ordered_from acts es" "acts \<inter> action_tool_call_ids es = {}"
        "insert ?t seen \<subseteq> acts" "insert ?t seen \<inter> observation_tool_call_ids es = {}"
        by auto
      have "pending_step (acts - seen) e = Inr (acts - insert ?t seen)"
        using None Some *(1,2) by (auto simp: pending_step_def py_set_remove_def)
      then have "pending_run (acts - seen) (e # es) = pending_run (acts - insert ?t seen) es"
        by simp
      also note Cons.IH [OF *(3-8)]
      finally show ?thesis using None Some by simp
    qed (use None Cons in \<open>simp add: pending_step_def\<close>)
  qed
qed simp

lemma action_tool_call_ids_ex:
  "t \<in> action_tool_call_ids es \<Longrightarrow> \<exists>e \<in> set es. \<exists>a. as_action e = Some a \<and> act_tool_call_id a = t"
  by (induction es) (auto split: option.splits)

lemma tcm_enforce_ids:
  assumes "tcm_enforce es all = {}"
  shows "action_tool_call_ids es \<subseteq> observation_tool_call_ids es"
proof
  fix t assume "t \<in> action_tool_call_ids es"
  then obtain e a where ea: "e \<in> set es" "as_action e = Some a" "act_tool_call_id a = t"
    using action_tool_call_ids_ex by blast
  have "\<not> unmatched (action_tool_call_ids es) (observation_tool_call_ids es) e"
    using assms ea(1) by (auto simp: tcm_enforce_def Let_def filter_empty_conv)
  with ea show "t \<in> observation_tool_call_ids es" by (simp add: unmatched_def)
qed

lemma enforced_closed:
  assumes "violation es all = {}" "distinct (action_call_ids es)" "calls_ordered_from {} es"
  shows "tool_calls_closed es"
proof -
  have "distinct (obs_call_ids es)" "action_tool_call_ids es \<subseteq> observation_tool_call_ids es"
    using assms(1) tcm_enforce_ids [of es all] by (simp_all add: violation_empty ou_enforce_empty)
  with pending_run_ordered [OF assms(2) _ assms(3), of "{}"] show ?thesis
    by (simp add: tool_calls_closed_def Diff_eq_empty_iff)
qed

text \<open>
  C5: condensing at manipulation indices is safe. Let \<open>es\<close> be the events of a view that needs no
  enforcement, whose batches and tool loops stand in one block and whose tool calls are answered.
  If a condensation forgets the events between two of the view's manipulation indices and puts
  its summary (if any) at the first one, then the view after \<open>append_event\<close> needs no enforcement
  either: \<open>enforce_properties\<close> over the extended history leaves it as it is.
\<close>

theorem condensation_keeps_view:
  assumes "view_manipulation_indices es = Inr S" and "i \<in> S" and "j \<in> S" and "i \<le> j"
    and "violation es all = {}" and "view_wf es all" and "distinct (map ev_id es)"
    and "ev_body e = Condensation (range_condensation es i j summ rid)"
    and "ev_id e @ ''-summary'' \<notin> loop_ids all"
    and "events v = es" and "append_event v e = Inr v'"
  shows "enforce_properties (all @ [e]) (events v') = events v'
    \<and> \<not> unhandled_condensation_request v'"
proof -
  obtain es' where es': "condensation_apply e (range_condensation es i j summ rid) es = Inr es'"
    using condensation_apply_Inr by blast
  have v': "v' = v\<lparr>events := es', unhandled_condensation_request := False\<rparr>"
    using assms(8,10,11) es' by (simp add: append_event_def)
  have "i \<le> length es" using view_manip_bounded assms(1,2) by blast
  then have "es' = splice i j (summary_block e summ) es" using apply_range_condensation [OF assms(7,4)] es' by blast
  moreover have "\<forall>x \<in> set (summary_block e summ). neutral (loop_ids all) x"
    using assms(9) by (rule summary_block_neutral)
  ultimately have "violation es' all = {}" using splice_keeps_view assms(1-6) by blast
  moreover have "as_action e = None" "as_obs e = None" using assms(8) by (simp_all add: ev_simps)
  ultimately show ?thesis by (simp add: v' violation_extend enforce_properties_id)
qed

text \<open>
  C24: a view built from a history has all four properties: no property would drop another event,
  and the events are events of the unenforced view in their order.
\<close>

theorem from_events_enforced:
  assumes "from_events all = Inr v"
  shows "violation (events v) all = {}
    \<and> (\<exists>w P. append_events empty_view all = Inr w \<and> events v = filter P (events w))"
  using assms enforce_properties_stable enforce_properties_filter
  by (auto simp: from_events_def rbind_eq_Inr)

text \<open>
  Building a view never fails, whatever the history holds: the enforcement loop ends and no
  condensation raises.
\<close>

theorem from_events_total: "\<exists>v. from_events all = Inr v"
  using append_events_Inr [of empty_view all] by (auto simp: from_events_def)

text \<open>
  An enforced view in which tool call ids of actions are unique and every observation follows
  its action has manipulation indices (\<open>set.remove\<close> never raises \<open>KeyError\<close>), and both ends of the
  view are among them, so a condenser always finds a boundary.
\<close>

theorem manipulation_indices_exist:
  assumes "violation es all = {}" and "distinct (action_call_ids es)" and "calls_ordered_from {} es"
  shows "\<exists>S. view_manipulation_indices es = Inr S \<and> 0 \<in> S \<and> length es \<in> S"
proof -
  have closed: "pending_run {} es = Inr {}"
    using enforced_closed [OF assms] by (simp add: tool_calls_closed_def)
  then obtain s3 where s3: "tcm_manipulation_indices es = Inr s3"
    using tcm_manip_Inl [of es] by (cases "tcm_manipulation_indices es") auto
  then show ?thesis
    using tcm_manip_Inr(1) [OF s3] closed
    by (auto simp: view_manipulation_indices_def ou_manipulation_indices_def ba_manip_eq
        tla_manip_eq complete_eq)
qed

text \<open>
  The comment "actions always come before observations" in \<open>tool_call_matching.py\<close> is an
  assumption that no property enforces. A view with an observation ahead of its action passes all
  four \<open>enforce\<close> methods, and computing its manipulation indices raises \<open>KeyError\<close>.
\<close>

theorem enforced_view_key_error:
  "violation [mk_obs ''o1'' ''c1'' ''a1'', mk_action ''a1'' ''c1'' ''r1'' []]
     [mk_obs ''o1'' ''c1'' ''a1'', mk_action ''a1'' ''c1'' ''r1'' []] = {} \<and>
   view_manipulation_indices [mk_obs ''o1'' ''c1'' ''a1'', mk_action ''a1'' ''c1'' ''r1'' []] = Inl KeyError"
  by code_simp

text \<open>
  The manipulation indices of \<open>BatchAtomicityProperty\<close> only exclude the positions between
  neighbouring actions, not the whole range of a batch as its comment says. When the actions of one
  response alternate with their observations, position 2 is inside the batch and is a manipulation
  index, and cutting there leaves a partial batch that \<open>enforce\<close> has to drop.
\<close>

theorem batch_split_at_index:
  "let es = [mk_action ''a1'' ''c1'' ''r1'' [], mk_obs ''o1'' ''c1'' ''a1'',
             mk_action ''a2'' ''c2'' ''r1'' [], mk_obs ''o2'' ''c2'' ''a2''] in
   violation es es = {} \<and> view_manipulation_indices es = Inr {0, 2, 4} \<and>
   ba_enforce (splice 2 4 [] es) es = {''a1''}"
  by code_simp

section \<open>Witnesses\<close>

definition sample_view :: "event list" where
  "sample_view = [mk_user ''m1'', mk_action ''a1'' ''c1'' ''r1'' [], mk_obs ''o1'' ''c1'' ''a1'',
     mk_action ''a2'' ''c2'' ''r2'' [''t''], mk_obs ''o2'' ''c2'' ''a2'']"

definition sample_condensation :: event where
  "sample_condensation =
     mk_condensation ''c1'' (range_condensation sample_view 1 3 (Some ''summary'') ''r3'')"

lemma sample_view_facts:
  "view_manipulation_indices sample_view = Inr {0, 1, 3, 5}" "violation sample_view sample_view = {}"
  "view_wf sample_view sample_view" "distinct (map ev_id sample_view)"
  "distinct (action_call_ids sample_view)" "calls_ordered_from {} sample_view"
  by code_simp+

theorem condensation_keeps_view_witness:
  "\<exists>v'. append_event \<lparr>events = sample_view, unhandled_condensation_request = True\<rparr>
      sample_condensation = Inr v' \<and> length (events v') = 4 \<and>
    enforce_properties (sample_view @ [sample_condensation]) (events v') = events v'"
proof -
  let ?v = "\<lparr>events = sample_view, unhandled_condensation_request = True\<rparr>"
  have "case append_event ?v sample_condensation of Inl _ \<Rightarrow> False | Inr w \<Rightarrow> length (events w) = 4"
    by code_simp
  then obtain v' where v': "append_event ?v sample_condensation = Inr v'" "length (events v') = 4"
    by (auto split: sum.splits)
  have sample: "ev_body sample_condensation =
      Condensation (range_condensation sample_view 1 3 (Some ''summary'') ''r3'')"
    and sample': "ev_id sample_condensation @ ''-summary'' \<notin> loop_ids sample_view"
    by (simp add: sample_condensation_def mk_defs) code_simp
  have "enforce_properties (sample_view @ [sample_condensation]) (events v') = events v'
      \<and> \<not> unhandled_condensation_request v'"
    by (rule condensation_keeps_view [OF sample_view_facts(1) _ _ _ sample_view_facts(2-4) sample sample' _ v'(1)])
      simp_all
  with v' show ?thesis by blast
qed

theorem from_events_enforced_witness:
  "\<exists>v. from_events sample_view = Inr v \<and> violation (events v) sample_view = {}"
  using from_events_total [of sample_view] from_events_enforced [of sample_view] by blast

theorem manipulation_indices_exist_witness:
  "\<exists>S. view_manipulation_indices sample_view = Inr S \<and> 0 \<in> S \<and> length sample_view \<in> S"
  by (rule manipulation_indices_exist [OF sample_view_facts(2,5,6)])

end
