(* ===== verification/Condenser.thy ===== *)
theory Condenser
  imports Complex_Main View Text_Utils
begin

text \<open>
  The condensers of \<open>context/condenser\<close>: token counting and the binary search of \<open>utils.py\<close>, the
  rolling condenser of \<open>base.py\<close>, the LLM summarizing condenser, and the pipeline and no-op
  condensers. The asynchronous variants run the same steps and are not repeated.

  The token counter of an LLM, the summarizing LLM call (with the rendering of its prompt) and
  \<open>str(event)\<close> are arguments. The two double-precision products of the code,
  \<open>len(view) * minimum_progress\<close> and \<open>int(max_len * scaling)\<close>, are fields of the configuration.
\<close>

section \<open>Token counts\<close>

record agent_llm =
  effective_max_input_tokens :: "int option"
  get_token_count :: "message list \<Rightarrow> str list option \<Rightarrow> bool \<Rightarrow> int"

fun first_tools :: "event list \<Rightarrow> str list option" where
  "first_tools [] = None"
| "first_tools (e # es) =
     (case ev_body e of SystemPromptEvent _ ts _ \<Rightarrow> Some ts | _ \<Rightarrow> first_tools es)"

definition get_total_token_count :: "event list \<Rightarrow> agent_llm \<Rightarrow> py_exc + int" where
  "get_total_token_count es llm =
     rbind (events_to_messages es) (\<lambda>messages.
       let tools = (case first_tools es of Some (t # ts) \<Rightarrow> Some (t # ts) | _ \<Rightarrow> None)
       in Inr (get_token_count llm messages tools (tools \<noteq> None)))"

text \<open>The tokens of a prefix of \<open>es\<close> on top of the base events.\<close>

definition prefix_tokens :: "event list \<Rightarrow> agent_llm \<Rightarrow> event list \<Rightarrow> int \<Rightarrow> nat \<Rightarrow> py_exc + int" where
  "prefix_tokens es llm base_events base_tokens n =
     rbind (get_total_token_count (base_events @ take n es) llm) (\<lambda>t. Inr (t - base_tokens))"

function search_prefix :: "(nat \<Rightarrow> py_exc + int) \<Rightarrow> int \<Rightarrow> nat \<Rightarrow> nat \<Rightarrow> py_exc + nat" where
  "search_prefix tokens token_count left right =
     (if left < right then
        (let mid = (left + right) div 2 in
         rbind (tokens mid) (\<lambda>t.
           if t > token_count then search_prefix tokens token_count left mid
           else search_prefix tokens token_count (mid + 1) right))
      else Inr left)"
  by pat_completeness auto
termination
  by (relation "measure (\<lambda>(_, _, left, right). right - left)") auto

declare search_prefix.simps [simp del]

definition get_shortest_prefix_above_token_count ::
    "event list \<Rightarrow> agent_llm \<Rightarrow> int \<Rightarrow> event list \<Rightarrow> py_exc + nat" where
  "get_shortest_prefix_above_token_count es llm token_count base_events =
     (if es = [] then Inr 0
      else rbind (if base_events = [] then Inr 0 else get_total_token_count base_events llm)
        (\<lambda>base_tokens.
         rbind (get_total_token_count (base_events @ es) llm) (\<lambda>t.
           if t - base_tokens \<le> token_count then Inr (length es)
           else search_prefix (prefix_tokens es llm base_events base_tokens) token_count
                  1 (length es))))"

definition get_suffix_length_for_token_reduction ::
    "event list \<Rightarrow> agent_llm \<Rightarrow> int \<Rightarrow> event list \<Rightarrow> py_exc + nat" where
  "get_suffix_length_for_token_reduction es llm token_reduction base_events =
     (if es = [] then Inr 0
      else if token_reduction \<le> 0 then Inr (length es)
      else rbind (get_shortest_prefix_above_token_count es llm token_reduction base_events)
        (\<lambda>prefix_length. Inr (length es - prefix_length)))"

section \<open>The rolling condenser\<close>

datatype requirement = HARD | SOFT

datatype cond_result = Result_View view | Result_Condensation condensation_data

definition rolling_condense ::
    "py_exc + requirement option \<Rightarrow> py_exc + condensation_data \<Rightarrow>
     py_exc + condensation_data option \<Rightarrow> view \<Rightarrow> py_exc + cond_result" where
  "rolling_condense request condensation hard_reset v =
     rbind request (\<lambda>req.
       case req of
         None \<Rightarrow> Inr (Result_View v)
       | Some r \<Rightarrow>
           (case condensation of
              Inr c \<Rightarrow> Inr (Result_Condensation c)
            | Inl (NoCondensationAvailable m) \<Rightarrow>
                (case r of
                   SOFT \<Rightarrow> Inr (Result_View v)
                 | HARD \<Rightarrow>
                     rbind hard_reset (\<lambda>h.
                       case h of
                         Some c \<Rightarrow> Inr (Result_Condensation c)
                       | None \<Rightarrow> Inl (NoCondensationAvailable m)))
            | Inl e \<Rightarrow> Inl e))"

section \<open>Pipelines\<close>

definition no_op_condense :: "view \<Rightarrow> py_exc + cond_result" where
  "no_op_condense v = Inr (Result_View v)"

fun pipeline_from :: "(view \<Rightarrow> py_exc + cond_result) list \<Rightarrow> cond_result \<Rightarrow> py_exc + cond_result" where
  "pipeline_from [] result = Inr result"
| "pipeline_from (c # cs) result =
     (case result of
        Result_Condensation _ \<Rightarrow> Inr result
      | Result_View v \<Rightarrow> rbind (c v) (pipeline_from cs))"

definition pipeline_condense :: "(view \<Rightarrow> py_exc + cond_result) list \<Rightarrow> view \<Rightarrow> py_exc + cond_result" where
  "pipeline_condense cs v = pipeline_from cs (Result_View v)"

definition pipeline_handles_requests :: "bool list \<Rightarrow> bool" where
  "pipeline_handles_requests handles = list_ex (\<lambda>b. b) handles"

section \<open>The LLM summarizing condenser\<close>

datatype reason = REQUEST | TOKENS | EVENTS

record summarizer_config =
  max_size :: int
  max_tokens :: "int option"
  keep_first :: nat
  progress_product :: "nat \<Rightarrow> rat"
  hard_reset_max_retries :: nat
  scale_length :: "nat \<Rightarrow> nat"

definition validate_keep_first_vs_max_size :: "summarizer_config \<Rightarrow> bool" where
  "validate_keep_first_vs_max_size cfg \<longleftrightarrow> \<not> max_size cfg div 2 - int (keep_first cfg) - 1 \<le> 0"

text \<open>The summary call: attempt number and event strings to content blocks and response id, or an error.\<close>

type_synonym summarize_fn = "nat \<Rightarrow> str list \<Rightarrow> str + content list \<times> str"

definition effective_max_tokens :: "summarizer_config \<Rightarrow> agent_llm option \<Rightarrow> int option" where
  "effective_max_tokens cfg agent =
     (let limits = opt_to_list (max_tokens cfg) @
            (case agent of None \<Rightarrow> [] | Some llm \<Rightarrow> opt_to_list (effective_max_input_tokens llm))
      in if limits = [] then None else Some (Min (set limits)))"

definition get_condensation_reasons ::
    "summarizer_config \<Rightarrow> view \<Rightarrow> agent_llm option \<Rightarrow> py_exc + reason set" where
  "get_condensation_reasons cfg v agent =
     (let r1 = (if unhandled_condensation_request v then {REQUEST} else {});
          r3 = (if int (length (events v)) > max_size cfg then {EVENTS} else {})
      in case (effective_max_tokens cfg agent, agent) of
           (Some limit, Some llm) \<Rightarrow>
             rbind (get_total_token_count (events v) llm) (\<lambda>total.
               Inr (r1 \<union> (if total > limit then {TOKENS} else {}) \<union> r3))
         | _ \<Rightarrow> Inr (r1 \<union> r3))"

definition requirement_of :: "reason set \<Rightarrow> requirement option" where
  "requirement_of reasons =
     (if reasons = {} then None
      else if TOKENS \<in> reasons then Some HARD
      else if reasons \<subseteq> {EVENTS} then Some SOFT
      else if REQUEST \<in> reasons then Some HARD
      else None)"

definition condensation_requirement ::
    "summarizer_config \<Rightarrow> view \<Rightarrow> agent_llm option \<Rightarrow> py_exc + requirement option" where
  "condensation_requirement cfg v agent =
     rbind (get_condensation_reasons cfg v agent) (\<lambda>reasons. Inr (requirement_of reasons))"

definition first_text :: "content list \<Rightarrow> str option" where
  "first_text cs = (case cs of TextContent t # _ \<Rightarrow> Some t | _ \<Rightarrow> None)"

definition generate_condensation ::
    "(event \<Rightarrow> str) \<Rightarrow> summarize_fn \<Rightarrow> nat \<Rightarrow> event list \<Rightarrow> nat \<Rightarrow> nat option \<Rightarrow>
     py_exc + condensation_data" where
  "generate_condensation show_event summarize attempt forgotten offset max_event_str_length =
     (if forgotten = [] then Inl (AssertionError ''No events to condense.'')
      else
        let event_strings = map (\<lambda>e. maybe_truncate (show_event e)
              (map_option int max_event_str_length) default_truncate_notice None) forgotten
        in case summarize attempt event_strings of
             Inl m \<Rightarrow> Inl (NoCondensationAvailable m)
           | Inr (cs, rid) \<Rightarrow>
               Inr \<lparr>forgotten_event_ids = set (map ev_id forgotten), summary = first_text cs,
                    summary_offset = Some offset, cond_llm_response_id = rid\<rparr>)"

text \<open>\<open>suffix_events_to_keep\<close> of \<open>_get_forgotten_events\<close>: one target per reason.\<close>

definition suffix_events_to_keep ::
    "summarizer_config \<Rightarrow> view \<Rightarrow> agent_llm option \<Rightarrow> reason set \<Rightarrow> py_exc + int set" where
  "suffix_events_to_keep cfg v agent reasons =
     (let n = int (length (events v)); k = int (keep_first cfg);
          by_request = (if REQUEST \<in> reasons then {n div 2 - k - 1} else {});
          by_events = (if EVENTS \<in> reasons then {max_size cfg div 2 - k - 1} else {})
      in if TOKENS \<in> reasons then
           (case (effective_max_tokens cfg agent, agent) of
              (Some limit, Some llm) \<Rightarrow>
                rbind (get_total_token_count (events v) llm) (\<lambda>total.
                rbind (get_suffix_length_for_token_reduction
                         (py_slice (events v) k n) llm (total - limit div 2)
                         (py_slice (events v) 0 k)) (\<lambda>m.
                  Inr (by_request \<union> by_events \<union> {int m})))
            | _ \<Rightarrow> Inl (AssertionError ''max_tokens''))
         else Inr (by_request \<union> by_events))"

definition get_forgotten_events ::
    "summarizer_config \<Rightarrow> view \<Rightarrow> agent_llm option \<Rightarrow> py_exc + event list \<times> nat" where
  "get_forgotten_events cfg v agent =
     rbind (get_condensation_reasons cfg v agent) (\<lambda>reasons.
       if reasons = {} then Inl (AssertionError ''No condensation reasons found.'')
       else
         rbind (suffix_events_to_keep cfg v agent reasons) (\<lambda>targets.
         let events_from_tail = Min targets;
             naive_end = int (length (events v)) - events_from_tail
         in rbind (view_manipulation_indices (events v)) (\<lambda>indices.
            rbind (find_next indices (int (keep_first cfg))) (\<lambda>forgetting_start.
            rbind (find_next indices naive_end) (\<lambda>forgetting_end.
              Inr (view_slice (events v) forgetting_start forgetting_end, forgetting_start))))))"

definition get_condensation ::
    "(event \<Rightarrow> str) \<Rightarrow> summarize_fn \<Rightarrow> summarizer_config \<Rightarrow> view \<Rightarrow> agent_llm option \<Rightarrow>
     py_exc + condensation_data" where
  "get_condensation show_event summarize cfg v agent =
     (case get_forgotten_events cfg v agent of
        Inl (ValueError m) \<Rightarrow> Inl (NoCondensationAvailable ''Unable to compute forgotten events'')
      | Inl e \<Rightarrow> Inl e
      | Inr (forgotten, offset) \<Rightarrow>
          if forgotten = [] then Inl (NoCondensationAvailable ''Cannot condense 0 events.'')
          else if of_nat (length forgotten) < progress_product cfg (length (events v))
          then Inl (NoCondensationAvailable ''Cannot apply condensation'')
          else generate_condensation show_event summarize 0 forgotten offset None)"

text \<open>
  The retry loop of \<open>hard_context_reset\<close>. Every exception of an attempt is caught; the length of the
  event strings is then scaled down, starting from the longest one (\<open>max\<close> of no events raises).
\<close>

fun hard_reset_loop ::
    "(event \<Rightarrow> str) \<Rightarrow> summarize_fn \<Rightarrow> (nat \<Rightarrow> nat) \<Rightarrow> event list \<Rightarrow> nat \<Rightarrow> nat option \<Rightarrow> nat \<Rightarrow>
     py_exc + condensation_data option" where
  "hard_reset_loop show_event summarize scale es attempt max_len 0 = Inr None"
| "hard_reset_loop show_event summarize scale es attempt max_len (Suc attempts_remaining) =
     (case generate_condensation show_event summarize attempt es 0 max_len of
        Inr c \<Rightarrow> Inr (Some c)
      | Inl _ \<Rightarrow>
          (case max_len of
             Some n \<Rightarrow>
               hard_reset_loop show_event summarize scale es (attempt + 1) (Some (scale n))
                 attempts_remaining
           | None \<Rightarrow>
               if es = [] then Inl (ValueError ''max() arg is an empty sequence'')
               else hard_reset_loop show_event summarize scale es (attempt + 1)
                 (Some (scale (Max (set (map (\<lambda>e. length (show_event e)) es))))) attempts_remaining))"

definition hard_context_reset ::
    "(event \<Rightarrow> str) \<Rightarrow> summarize_fn \<Rightarrow> summarizer_config \<Rightarrow> view \<Rightarrow> py_exc + condensation_data option" where
  "hard_context_reset show_event summarize cfg v =
     hard_reset_loop show_event summarize (scale_length cfg) (events v) 0 None
       (hard_reset_max_retries cfg)"

text \<open>\<open>RollingCondenser.condense\<close> with the methods of the summarizing condenser.\<close>

definition summarizing_condense ::
    "(event \<Rightarrow> str) \<Rightarrow> summarize_fn \<Rightarrow> summarize_fn \<Rightarrow> summarizer_config \<Rightarrow> view \<Rightarrow>
     agent_llm option \<Rightarrow> py_exc + cond_result" where
  "summarizing_condense show_event summarize summarize_hard cfg v agent =
     rolling_condense (condensation_requirement cfg v agent)
       (get_condensation show_event summarize cfg v agent)
       (hard_context_reset show_event summarize_hard cfg v) v"

definition default_condenser_sizes :: "summarizer_config \<Rightarrow> summarizer_config" where
  "default_condenser_sizes cfg = cfg\<lparr>max_size := 80, keep_first := 4\<rparr>"

section \<open>The binary search\<close>

lemma search_prefix_boundary:
  assumes "search_prefix tokens t left right = Inr k" and "left \<le> right"
    and "\<exists>x. tokens right = Inr x \<and> x > t"
    and "left = 1 \<or> (\<exists>x. tokens (left - 1) = Inr x \<and> x \<le> t)"
  shows "left \<le> k \<and> k \<le> right \<and> (\<exists>x. tokens k = Inr x \<and> x > t)
    \<and> (k = 1 \<or> (\<exists>x. tokens (k - 1) = Inr x \<and> x \<le> t))"
  using assms
proof (induction tokens t left right rule: search_prefix.induct)
  case (1 tokens t left right)
  show ?case
  proof (cases "left < right")
    case True
    let ?mid = "(left + right) div 2"
    have mid: "left \<le> ?mid" "?mid < right" using True by simp_all
    obtain x where x: "tokens ?mid = Inr x"
      and rec: "(if x > t then search_prefix tokens t left ?mid
        else search_prefix tokens t (?mid + 1) right) = Inr k"
      using "1.prems"(1) True by (subst (asm) search_prefix.simps) (auto simp: Let_def rbind_eq_Inr)
    show ?thesis
    proof (cases "x > t")
      case gt: True
      with "1.IH"(1) [OF True refl x gt] x rec mid "1.prems"(4) show ?thesis by auto
    next
      case le: False
      with "1.IH"(2) [OF True refl x le] x rec mid "1.prems"(3) show ?thesis by auto
    qed
  next
    case False
    with "1.prems" show ?thesis by (auto simp: search_prefix.simps)
  qed
qed

lemma search_prefix_total:
  assumes "\<And>n. \<exists>x. tokens n = Inr x"
  shows "\<exists>k. search_prefix tokens t left right = Inr k"
  using assms
proof (induction tokens t left right rule: search_prefix.induct)
  case (1 tokens t left right)
  show ?case
  proof (cases "left < right")
    case True
    obtain x where x: "tokens ((left + right) div 2) = Inr x" using "1.prems" by blast
    show ?thesis
      using "1.IH"(1) [OF True refl x _ "1.prems"] "1.IH"(2) [OF True refl x _ "1.prems"] True x
      by (subst search_prefix.simps) (simp add: Let_def)
  qed (simp add: search_prefix.simps)
qed

text \<open>
  The binary search stops at a boundary of the token target, for any token counter: the
  prefix of the returned length exceeds the target and the next shorter one does not, unless all
  events together stay within the target (then every event is returned). No monotonicity of the
  counter is needed.
\<close>

theorem shortest_prefix_boundary:
  assumes "get_shortest_prefix_above_token_count es llm t base = Inr k" and "es \<noteq> []"
  shows "\<exists>b. (if base = [] then b = 0 else get_total_token_count base llm = Inr b) \<and> 1 \<le> k \<and> k \<le> length es
    \<and> ((k = length es \<and> (\<exists>x. prefix_tokens es llm base b k = Inr x \<and> x \<le> t))
      \<or> (\<exists>x. prefix_tokens es llm base b k = Inr x \<and> x > t) \<and>
        (k = 1 \<or> (\<exists>x. prefix_tokens es llm base b (k - 1) = Inr x \<and> x \<le> t)))"
proof -
  from assms obtain b total where
    b: "(if base = [] then Inr 0 else get_total_token_count base llm) = Inr b"
    and total: "get_total_token_count (base @ es) llm = Inr total"
    and k: "(if total - b \<le> t then Inr (length es)
      else search_prefix (prefix_tokens es llm base b) t 1 (length es)) = Inr k"
    by (auto simp: get_shortest_prefix_above_token_count_def rbind_eq_Inr)
  have full: "prefix_tokens es llm base b (length es) = Inr (total - b)"
    using total by (simp add: prefix_tokens_def)
  have one: "1 \<le> length es" using assms(2) by (cases es) simp_all
  have base: "if base = [] then b = 0 else get_total_token_count base llm = Inr b"
    using b by (auto split: if_splits)
  show ?thesis
  proof (cases "total - b \<le> t")
    case True
    with k full one base show ?thesis by (intro exI [of _ b]) auto
  next
    case False
    then have "\<exists>x. prefix_tokens es llm base b (length es) = Inr x \<and> x > t" using full by simp
    moreover have "search_prefix (prefix_tokens es llm base b) t 1 (length es) = Inr k" using False k by simp
    ultimately show ?thesis
      using search_prefix_boundary [of "prefix_tokens es llm base b" t 1 "length es" k] one base by blast
  qed
qed

section \<open>What a condensation forgets\<close>

lemma suffix_targets:
  assumes "suffix_events_to_keep cfg v agent reasons = Inr T"
  shows "finite T"
    and "EVENTS \<in> reasons \<Longrightarrow> max_size cfg div 2 - int (keep_first cfg) - 1 \<in> T"
    and "REQUEST \<in> reasons \<Longrightarrow> int (length (events v)) div 2 - int (keep_first cfg) - 1 \<in> T"
  using assms
  by (auto simp: suffix_events_to_keep_def Let_def rbind_eq_Inr split: option.splits if_split_asm)

lemma get_forgotten_events_range:
  assumes "get_forgotten_events cfg v agent = Inr (forgotten, offset)"
  shows "\<exists>S j reasons tail. get_condensation_reasons cfg v agent = Inr reasons \<and> reasons \<noteq> {}
    \<and> view_manipulation_indices (events v) = Inr S
    \<and> offset \<in> S \<and> j \<in> S \<and> keep_first cfg \<le> offset
    \<and> (\<forall>m \<in> S. keep_first cfg \<le> m \<longrightarrow> offset \<le> m)
    \<and> int (length (events v)) - tail \<le> int j
    \<and> (EVENTS \<in> reasons \<longrightarrow> tail \<le> max_size cfg div 2 - int (keep_first cfg) - 1)
    \<and> (REQUEST \<in> reasons \<longrightarrow> tail \<le> int (length (events v)) div 2 - int (keep_first cfg) - 1)
    \<and> forgotten = view_slice (events v) offset j"
proof -
  obtain reasons T S j where
    r: "get_condensation_reasons cfg v agent = Inr reasons" "reasons \<noteq> {}"
    and T: "suffix_events_to_keep cfg v agent reasons = Inr T"
    and S: "view_manipulation_indices (events v) = Inr S"
    and start: "find_next S (int (keep_first cfg)) = Inr offset"
    and stop: "find_next S (int (length (events v)) - Min T) = Inr j"
    and forgotten: "forgotten = view_slice (events v) offset j"
    using assms
    by (auto simp: get_forgotten_events_def Let_def rbind_eq_Inr split: if_split_asm)
  have finS: "finite S" using S by (rule finite_view_manip)
  have "EVENTS \<in> reasons \<longrightarrow> Min T \<le> max_size cfg div 2 - int (keep_first cfg) - 1"
    "REQUEST \<in> reasons \<longrightarrow> Min T \<le> int (length (events v)) div 2 - int (keep_first cfg) - 1"
    using suffix_targets [OF T] by (blast intro: Min_le)+
  then show ?thesis
    using r S forgotten find_next_Inr [OF finS start] find_next_Inr [OF finS stop]
    by (intro exI [of _ S] exI [of _ j] exI [of _ reasons] exI [of _ "Min T"]) auto
qed

lemma generate_condensation_Inr:
  "generate_condensation sh summ n forgotten off len = Inr c \<Longrightarrow>
     forgotten \<noteq> [] \<and> forgotten_event_ids c = set (map ev_id forgotten) \<and> summary_offset c = Some off"
  by (auto simp: generate_condensation_def Let_def split: if_splits sum.splits prod.splits)

lemma view_slice_eq: "j \<le> length es \<Longrightarrow> view_slice es i j = take (j - i) (drop i es)"
  by (simp add: view_slice_def min_absorb2)

lemma get_condensation_range:
  assumes "get_condensation sh summ cfg v agent = Inr c"
  shows "\<exists>S i j tail reasons. get_condensation_reasons cfg v agent = Inr reasons
    \<and> view_manipulation_indices (events v) = Inr S \<and> i \<in> S \<and> j \<in> S \<and> i < j
    \<and> keep_first cfg \<le> i \<and> (\<forall>m \<in> S. keep_first cfg \<le> m \<longrightarrow> i \<le> m)
    \<and> int (length (events v)) - tail \<le> int j
    \<and> (EVENTS \<in> reasons \<longrightarrow> tail \<le> max_size cfg div 2 - int (keep_first cfg) - 1)
    \<and> progress_product cfg (length (events v)) \<le> of_nat (j - i)
    \<and> c = range_condensation (events v) i j (summary c) (cond_llm_response_id c)"
proof -
  obtain forgotten offset where fo: "get_forgotten_events cfg v agent = Inr (forgotten, offset)"
    and prog: "\<not> of_nat (length forgotten) < progress_product cfg (length (events v))"
    and gen: "generate_condensation sh summ 0 forgotten offset None = Inr c"
    using assms by (auto simp: get_condensation_def split: sum.splits py_exc.splits if_splits)
  from get_forgotten_events_range [OF fo] obtain S j reasons tail where
    S: "view_manipulation_indices (events v) = Inr S" and in_S: "offset \<in> S" "j \<in> S"
    and rest: "get_condensation_reasons cfg v agent = Inr reasons" "keep_first cfg \<le> offset"
      "\<forall>m \<in> S. keep_first cfg \<le> m \<longrightarrow> offset \<le> m"
      "int (length (events v)) - tail \<le> int j"
      "EVENTS \<in> reasons \<longrightarrow> tail \<le> max_size cfg div 2 - int (keep_first cfg) - 1"
    and forgotten: "forgotten = view_slice (events v) offset j" by blast
  have jlen: "j \<le> length (events v)" using view_manip_bounded [OF S in_S(2)] .
  then have f: "forgotten = take (j - offset) (drop offset (events v))"
    using forgotten by (simp add: view_slice_eq)
  have c: "forgotten \<noteq> []" "forgotten_event_ids c = ev_id ` set forgotten" "summary_offset c = Some offset"
    using generate_condensation_Inr [OF gen] by simp_all
  then have lt: "offset < j" using f by auto
  have len: "length forgotten = j - offset" using f jlen lt by simp
  have "c = range_condensation (events v) offset j (summary c) (cond_llm_response_id c)"
    using c f by (simp add: range_condensation_def)
  then show ?thesis using S in_S rest lt prog len by (intro exI conjI) (auto simp: not_less)
qed

text \<open>
  What the summarizing condenser forgets. A condensation it generates starts at the first
  manipulation index at or after \<open>keep_first\<close> and ends at a later one; so the first \<open>keep_first\<close>
  events stay, at least one event and at least the minimum progress is forgotten, and the summary
  goes where the forgotten events were.
\<close>

theorem summarizer_forgets_a_range:
  assumes "get_condensation show_event summarize cfg v agent = Inr c"
  shows "\<exists>S i j. view_manipulation_indices (events v) = Inr S \<and> i \<in> S \<and> j \<in> S \<and> i < j
    \<and> keep_first cfg \<le> i \<and> (\<forall>m \<in> S. keep_first cfg \<le> m \<longrightarrow> i \<le> m)
    \<and> progress_product cfg (length (events v)) \<le> of_nat (j - i)
    \<and> c = range_condensation (events v) i j (summary c) (cond_llm_response_id c)"
  using get_condensation_range [OF assms] by blast

text \<open>
  Event-count pressure is relieved. When the condenser acts because the view is longer than
  \<open>max_size\<close>, the view after the condensation has at most \<open>max_size // 2\<close> events, plus the events by
  which the first manipulation index lies behind \<open>keep_first\<close>; and it is strictly shorter than before
  whenever more than one event is forgotten.
\<close>

theorem summarizer_size_bound:
  assumes "get_condensation show_event summarize cfg v agent = Inr c"
    and "int (length (events v)) > max_size cfg" and "distinct (map ev_id (events v))"
    and "condensation_apply e c (events v) = Inr es'"
  shows "\<exists>S i. view_manipulation_indices (events v) = Inr S \<and> i \<in> S \<and> keep_first cfg \<le> i
    \<and> (\<forall>m \<in> S. keep_first cfg \<le> m \<longrightarrow> i \<le> m)
    \<and> int (length es') \<le> max_size cfg div 2 + int (i - keep_first cfg)
    \<and> length es' + card (forgotten_event_ids c) \<le> length (events v) + 1"
proof -
  from get_condensation_range [OF assms(1)] obtain S i j tail reasons where
    reasons: "get_condensation_reasons cfg v agent = Inr reasons"
    and S: "view_manipulation_indices (events v) = Inr S" "i \<in> S" "j \<in> S" and ij: "i < j"
    and first: "keep_first cfg \<le> i" "\<forall>m \<in> S. keep_first cfg \<le> m \<longrightarrow> i \<le> m"
    and tail: "int (length (events v)) - tail \<le> int j"
      "EVENTS \<in> reasons \<longrightarrow> tail \<le> max_size cfg div 2 - int (keep_first cfg) - 1"
    and c: "c = range_condensation (events v) i j (summary c) (cond_llm_response_id c)" by blast
  have "EVENTS \<in> reasons"
    using reasons assms(2)
    by (auto simp: get_condensation_reasons_def Let_def rbind_eq_Inr split: option.splits)
  with tail have "int (length (events v)) - int j \<le> max_size cfg div 2 - int (keep_first cfg) - 1" by simp
  moreover have jl: "j \<le> length (events v)" using view_manip_bounded S by blast
  have "es' = splice i j (summary_block e (summary c)) (events v)"
    using apply_range [OF c assms(3) _ _ assms(4)] ij jl by simp
  then have "length es' = i + length (summary_block e (summary c)) + (length (events v) - j)"
    using ij jl by (simp add: splice_def)
  moreover have "length (summary_block e (summary c)) \<le> 1" by (rule length_summary_block)
  moreover have "card (forgotten_event_ids c) \<le> j - i"
  proof -
    have "forgotten_event_ids c = set (map ev_id (take (j - i) (drop i (events v))))"
      using arg_cong [OF c, of forgotten_event_ids] by (simp add: range_condensation_def)
    also have "card \<dots> \<le> length (map ev_id (take (j - i) (drop i (events v))))" by (rule card_length)
    finally show ?thesis by simp
  qed
  ultimately have "int (length es') \<le> max_size cfg div 2 + int (i - keep_first cfg)"
    "length es' + card (forgotten_event_ids c) \<le> length (events v) + 1"
    using first(1) ij jl by linarith+
  with S first show ?thesis by blast
qed

section \<open>Rolling and pipeline condensers\<close>

text \<open>
  A soft requirement never fails for lack of a condensation (the view is returned), a hard one
  falls back to the hard reset and only then re-raises, and without a requirement the view is
  returned unchanged.
\<close>

theorem rolling_condense_cases:
  "rolling_condense (Inr None) cond hard v = Inr (Result_View v)
   \<and> rolling_condense (Inr (Some r)) (Inr c) hard v = Inr (Result_Condensation c)
   \<and> rolling_condense (Inr (Some SOFT)) (Inl (NoCondensationAvailable m)) hard v = Inr (Result_View v)
   \<and> rolling_condense (Inr (Some HARD)) (Inl (NoCondensationAvailable m)) (Inr (Some c)) v =
       Inr (Result_Condensation c)
   \<and> rolling_condense (Inr (Some HARD)) (Inl (NoCondensationAvailable m)) (Inr None) v =
       Inl (NoCondensationAvailable m)
   \<and> rolling_condense (Inr (Some HARD)) (Inl (NoCondensationAvailable m)) (Inl e) v = Inl e"
  by (simp add: rolling_condense_def)

lemma rolling_condense_condensation:
  assumes "rolling_condense req cond hard v = Inr (Result_Condensation c)"
  shows "cond = Inr c \<or> hard = Inr (Some c)"
proof -
  from assms obtain r where r: "req = Inr (Some r)"
    by (auto simp: rolling_condense_def rbind_eq_Inr split: option.splits)
  show ?thesis
  proof (cases cond)
    case (Inl e)
    with r assms show ?thesis
      by (cases e; cases r) (auto simp: rolling_condense_def rbind_eq_Inr split: option.splits)
  qed (use r assms in \<open>simp add: rolling_condense_def\<close>)
qed

lemma pipeline_from_condensation [simp]: "pipeline_from cs (Result_Condensation c) = Inr (Result_Condensation c)"
  by (cases cs) simp_all

lemma pipeline_from_append:
  "pipeline_from (cs @ ds) r = rbind (pipeline_from cs r) (pipeline_from ds)"
proof (induction cs arbitrary: r)
  case (Cons c cs)
  show ?case
  proof (cases r)
    case (Result_View v)
    then show ?thesis using Cons.IH by (cases "c v") simp_all
  qed simp
qed simp

text \<open>
  A pipeline is the chaining of its condensers: running two pipelines one after the other is
  running their concatenation, and nothing runs after the first condensation.
\<close>

theorem pipeline_condense_append:
  "pipeline_condense (cs @ ds) v =
     rbind (pipeline_condense cs v) (\<lambda>r.
       case r of Result_View w \<Rightarrow> pipeline_condense ds w | Result_Condensation c \<Rightarrow> Inr (Result_Condensation c))"
proof (cases "pipeline_from cs (Result_View v)")
  case (Inr r)
  then show ?thesis by (cases r) (simp_all add: pipeline_condense_def pipeline_from_append)
qed (simp add: pipeline_condense_def pipeline_from_append)

section \<open>Hard context reset\<close>

lemma hard_reset_loop_Some:
  "hard_reset_loop sh summ scale es a len n = Inr (Some c) \<Longrightarrow>
     es \<noteq> [] \<and> forgotten_event_ids c = set (map ev_id es) \<and> summary_offset c = Some 0"
proof (induction n arbitrary: a len)
  case (Suc n)
  then show ?case
    by (auto dest: generate_condensation_Inr split: sum.splits option.splits if_splits)
qed simp

lemma hard_reset_loop_None:
  "hard_reset_loop sh summ scale es a len n = Inr None \<Longrightarrow> es \<noteq> [] \<Longrightarrow> k < n \<Longrightarrow>
     \<exists>strs m. summ (a + k) strs = Inl m"
proof (induction n arbitrary: a len k)
  case (Suc n)
  obtain e where gen: "generate_condensation sh summ a es 0 len = Inl e"
    using Suc.prems(1) by (auto split: sum.splits)
  then have first: "\<exists>strs m. summ a strs = Inl m"
    using Suc.prems(2) by (auto simp: generate_condensation_def Let_def split: sum.splits)
  obtain len' where rec: "hard_reset_loop sh summ scale es (a + 1) len' n = Inr None"
    using Suc.prems(1,2) gen by (auto split: option.splits)
  show ?case
  proof (cases k)
    case 0
    with first show ?thesis by simp
  next
    case (Suc k')
    with Suc.IH [OF rec Suc.prems(2), of k'] Suc.prems(3) show ?thesis by simp
  qed
qed simp

lemma hard_reset_loop_total: "es \<noteq> [] \<Longrightarrow> \<exists>r. hard_reset_loop sh summ scale es a len n = Inr r"
  by (induction n arbitrary: a len) (auto split: sum.splits option.splits)

text \<open>
  A hard context reset over a non-empty view always returns; a condensation it returns forgets
  every event of the view and puts the summary first, and it gives up only after the summarizing
  call has failed in every one of the configured attempts.
\<close>

theorem hard_context_reset_correct:
  assumes "events v \<noteq> []"
  shows "\<exists>r. hard_context_reset show_event summarize cfg v = Inr r \<and>
    (case r of
       Some c \<Rightarrow> forgotten_event_ids c = ev_id ` set (events v) \<and> summary_offset c = Some 0
     | None \<Rightarrow> (\<forall>k < hard_reset_max_retries cfg. \<exists>strs m. summarize k strs = Inl m))"
proof -
  let ?loop = "hard_reset_loop show_event summarize (scale_length cfg) (events v) 0 None
      (hard_reset_max_retries cfg)"
  obtain r where r: "?loop = Inr r" using hard_reset_loop_total [OF assms] by blast
  show ?thesis
  proof (cases r)
    case None
    with r hard_reset_loop_None [OF _ assms, of show_event summarize "scale_length cfg" 0 None] show ?thesis
      by (auto simp: hard_context_reset_def)
  next
    case (Some c)
    with r hard_reset_loop_Some [of show_event summarize "scale_length cfg" "events v" 0 None] show ?thesis
      by (auto simp: hard_context_reset_def)
  qed
qed

text \<open>A view that holds nothing but a summary violates no property.\<close>

lemma only_neutral_keeps_view:
  assumes "\<forall>x\<in>set mid. neutral (loop_ids all) x"
  shows "violation mid all = {}"
proof -
  have "view_manipulation_indices [] = Inr {0}" "violation [] all = {}" "view_wf [] all"
    by (auto simp: view_manipulation_indices_def ou_manipulation_indices_def ba_manipulation_indices_def
        tcm_manipulation_indices_def tla_manipulation_indices_def complete_eq violation_empty view_wf_def
        batches_contiguous_def tool_calls_closed_def loops_contiguous_def loop_shape_def contiguous_def)
  from splice_keeps_view [OF this(1,3,2) _ _ _ assms, of 0 0] show ?thesis by (simp add: splice_def)
qed

lemma summarizing_condense_range:
  assumes "summarizing_condense sh summ summ_hard cfg v agent = Inr (Result_Condensation c)"
  shows "(\<exists>S i j. view_manipulation_indices (events v) = Inr S \<and> i \<in> S \<and> j \<in> S \<and> i < j
       \<and> c = range_condensation (events v) i j (summary c) (cond_llm_response_id c))
     \<or> events v \<noteq> [] \<and> c = range_condensation (events v) 0 (length (events v)) (summary c) (cond_llm_response_id c)"
proof -
  have "get_condensation sh summ cfg v agent = Inr c \<or> hard_context_reset sh summ_hard cfg v = Inr (Some c)"
    using assms unfolding summarizing_condense_def by (rule rolling_condense_condensation)
  then show ?thesis
  proof
    assume "get_condensation sh summ cfg v agent = Inr c"
    from get_condensation_range [OF this] show ?thesis by blast
  next
    assume "hard_context_reset sh summ_hard cfg v = Inr (Some c)"
    then have "events v \<noteq> []" "forgotten_event_ids c = set (map ev_id (events v))" "summary_offset c = Some 0"
      unfolding hard_context_reset_def by (metis hard_reset_loop_Some)+
    then show ?thesis by (simp add: range_condensation_def)
  qed
qed

text \<open>
  C19: a condensation of the summarizing condenser, of the usual kind or of the hard context reset that
  forgets every event, keeps a view in order, for every summarizing LLM and token counter. The view it
  is computed for needs no enforcement, has distinct event ids and the shape \<open>view_wf\<close> (batches, tool
  calls and tool loops are each contiguous), and the id of the summary is new; then the view with the
  condensation appended needs no enforcement either. Without the shape the claim is false (lemma
  \<open>batch_split_at_index\<close>).
\<close>

theorem summarizer_keeps_view:
  assumes "summarizing_condense show_event summarize summarize_hard cfg v agent = Inr (Result_Condensation c)"
    and "violation (events v) all = {}" and "view_wf (events v) all" and "distinct (map ev_id (events v))"
    and "ev_body e = Condensation c" and "ev_id e @ ''-summary'' \<notin> loop_ids all"
    and "append_event v e = Inr v'"
  shows "violation (events v') (all @ [e]) = {}"
proof -
  obtain es' where es': "condensation_apply e c (events v) = Inr es'"
    using condensation_apply_Inr by blast
  have v': "events v' = es'"
    using assms(5,7) es' by (auto simp: append_event_def)
  have block: "\<forall>x \<in> set (summary_block e (summary c)). neutral (loop_ids all) x"
    using assms(6) by (rule summary_block_neutral)
  from summarizing_condense_range [OF assms(1)] have "violation es' all = {}"
  proof (elim disjE exE conjE)
    fix S i j
    assume S: "view_manipulation_indices (events v) = Inr S" "i \<in> S" "j \<in> S" and ij: "i < j"
      and c: "c = range_condensation (events v) i j (summary c) (cond_llm_response_id c)"
    have "i \<le> length (events v)" using view_manip_bounded S by blast
    then have "es' = splice i j (summary_block e (summary c)) (events v)"
      using apply_range [OF c assms(4) _ _ es'] ij by simp
    then show ?thesis
      using splice_keeps_view [OF S(1) assms(3,2) S(2,3) _ block] ij by simp
  next
    assume c: "c = range_condensation (events v) 0 (length (events v)) (summary c) (cond_llm_response_id c)"
    have "es' = splice 0 (length (events v)) (summary_block e (summary c)) (events v)"
      using apply_range [OF c assms(4) _ _ es'] by simp
    then show ?thesis using only_neutral_keeps_view [OF block] by (simp add: splice_def)
  qed
  moreover have "as_action e = None" "as_obs e = None" using assms(5) by (simp_all add: ev_simps)
  ultimately show ?thesis by (simp add: v' violation_extend)
qed

section \<open>Witnesses\<close>

definition long_view :: view where
  "long_view = \<lparr>events = [mk_user ''m1'', mk_action ''a1'' ''c1'' ''r1'' [], mk_obs ''o1'' ''c1'' ''a1'',
     mk_action ''a2'' ''c2'' ''r2'' [], mk_obs ''o2'' ''c2'' ''a2'',
     mk_action ''a3'' ''c3'' ''r3'' [], mk_obs ''o3'' ''c3'' ''a3'', mk_user ''m2''],
     unhandled_condensation_request = False\<rparr>"

definition small_config :: summarizer_config where
  "small_config = \<lparr>max_size = 6, max_tokens = None, keep_first = 1, progress_product = (\<lambda>n. 1),
     hard_reset_max_retries = 5, scale_length = (\<lambda>n. n * 4 div 5)\<rparr>"

definition content_counter :: agent_llm where
  "content_counter = \<lparr>effective_max_input_tokens = None,
     get_token_count = (\<lambda>ms tools risk. int (sum_list (map (\<lambda>m. length (msg_content m)) ms)))\<rparr>"

definition fixed_summary :: summarize_fn where
  "fixed_summary n strs = Inr ([TextContent ''s''], ''r9'')"

definition long_condensation :: condensation_data where
  "long_condensation = range_condensation (events long_view) 1 7 (Some ''s'') ''r9''"

lemma long_view_facts:
  "get_condensation ev_id fixed_summary small_config long_view None = Inr long_condensation"
  "violation (events long_view) (events long_view) = {}" "view_wf (events long_view) (events long_view)"
  "distinct (map ev_id (events long_view))" "int (length (events long_view)) > max_size small_config"
  by code_simp+

theorem shortest_prefix_boundary_witness:
  "get_shortest_prefix_above_token_count [mk_user ''m1'', mk_user ''m2'', mk_user ''m3''] content_counter 1 []
     = Inr 2 \<and> (1 :: nat) \<le> 2"
proof -
  have eq: "get_shortest_prefix_above_token_count [mk_user ''m1'', mk_user ''m2'', mk_user ''m3'']
      content_counter 1 [] = Inr 2" by code_simp
  from shortest_prefix_boundary [OF eq] eq show ?thesis by auto
qed

theorem summarizer_forgets_a_range_witness:
  "\<exists>i j. i < j \<and> keep_first small_config \<le> i \<and>
     long_condensation = range_condensation (events long_view) i j (summary long_condensation)
       (cond_llm_response_id long_condensation)"
  using summarizer_forgets_a_range [OF long_view_facts(1)] by blast

theorem summarizer_keeps_view_witness:
  "\<exists>v'. append_event long_view (mk_condensation ''e'' long_condensation) = Inr v' \<and>
     violation (events v') (events long_view @ [mk_condensation ''e'' long_condensation]) = {}"
proof -
  let ?e = "mk_condensation ''e'' long_condensation"
  have cond: "summarizing_condense ev_id fixed_summary fixed_summary small_config long_view None
      = Inr (Result_Condensation long_condensation)" by code_simp
  obtain v' where v': "append_event long_view ?e = Inr v'" using append_event_Inr by blast
  have "ev_body ?e = Condensation long_condensation" by (simp add: mk_defs)
  moreover have "ev_id ?e @ ''-summary'' \<notin> loop_ids (events long_view)" by code_simp
  ultimately show ?thesis
    using summarizer_keeps_view [OF cond long_view_facts(2-4) _ _ v'] v' by blast
qed

theorem summarizer_size_bound_witness:
  "\<exists>es' i. condensation_apply (mk_condensation ''e'' long_condensation) long_condensation
      (events long_view) = Inr es' \<and> int (length es') \<le> 6 div 2 + int (i - 1)"
proof -
  obtain es' where es': "condensation_apply (mk_condensation ''e'' long_condensation) long_condensation
      (events long_view) = Inr es'" using condensation_apply_Inr by blast
  from summarizer_size_bound [OF long_view_facts(1,5,4) es'] es' show ?thesis
    by (auto simp: small_config_def)
qed

theorem hard_context_reset_correct_witness:
  "events long_view \<noteq> [] \<and> (\<exists>r. hard_context_reset ev_id fixed_summary small_config long_view = Inr r)"
proof -
  have ne: "events long_view \<noteq> []" by (simp add: long_view_def)
  from hard_context_reset_correct [OF ne, of ev_id fixed_summary small_config] ne show ?thesis by blast
qed

end
