(* ===== verification/Fifo_Lock.thy ===== *)
theory Fifo_Lock
  imports Prelude
begin

text \<open>
  \<open>sdk/conversation/fifo_lock.py\<close>: the reentrant lock that serves its waiters in arrival order.

  Every method of \<open>FIFOLock\<close> runs with \<open>_mutex\<close> held and gives it up only inside
  \<open>Condition.wait\<close>, so a call is one atomic step up to its first wait and each later pass through
  the loop of \<open>acquire\<close> is one more. The state keeps what the object keeps (the queue, the owner,
  the count); a waiter's \<open>Condition\<close> is the identity of its thread, which has at most one acquire
  under way, and \<open>fl_awake\<close> holds the queued threads whose \<open>wait\<close> has returned (notified or timed
  out) and that are about to look at the queue again. Clock readings are integers.
\<close>

record 't fifo =
  fl_waiters :: "'t list"
  fl_owner :: "'t option"
  fl_count :: int
  fl_awake :: "'t set"

definition fifo_new :: "'t fifo" where
  "fifo_new = \<lparr>fl_waiters = [], fl_owner = None, fl_count = 0, fl_awake = {}\<rparr>"

text \<open>How far a call to \<open>acquire\<close> got: it returned True, returned False, or sleeps in \<open>wait\<close>.\<close>

datatype acquire_result = Acquired | Refused | Sleeping

section \<open>The operations\<close>

text \<open>\<open>remaining <= 0\<close>, for a \<open>timeout\<close> that is not negative.\<close>

definition timeout_expired :: "int \<Rightarrow> int \<Rightarrow> int \<Rightarrow> bool" where
  "timeout_expired timeout start now \<longleftrightarrow> timeout \<ge> 0 \<and> timeout - (now - start) \<le> 0"

text \<open>
  One pass through the \<open>while True\<close> loop of \<open>acquire\<close>; the front test precedes the timeout test. The
  thread has queued itself before and only its own pass takes it out again, so the queue is not empty:
  the first case, an \<open>IndexError\<close> of the code, is a value that no step uses (\<open>fifo_acquire\<close> appends the
  thread, and the rule \<open>pass\<close> of \<open>lock_step\<close> asks for it).
\<close>

definition acquire_pass :: "'t \<Rightarrow> int \<Rightarrow> int \<Rightarrow> int \<Rightarrow> 't fifo \<Rightarrow> acquire_result \<times> 't fifo" where
  "acquire_pass t timeout start now s =
     (case fl_waiters s of
        [] \<Rightarrow> (Refused, s)
      | w # ws \<Rightarrow>
          if w = t \<and> fl_owner s = None
          then (Acquired, s\<lparr>fl_waiters := ws, fl_owner := Some t, fl_count := 1,
                            fl_awake := fl_awake s - {t}\<rparr>)
          else if timeout_expired timeout start now
          then (Refused, s\<lparr>fl_waiters := remove1 t (w # ws), fl_awake := fl_awake s - {t}\<rparr>)
          else (Sleeping, s\<lparr>fl_awake := fl_awake s - {t}\<rparr>))"

definition fifo_acquire :: "'t \<Rightarrow> bool \<Rightarrow> int \<Rightarrow> int \<Rightarrow> int \<Rightarrow> 't fifo \<Rightarrow> acquire_result \<times> 't fifo" where
  "fifo_acquire t blocking timeout start now s =
     (if fl_owner s = Some t then (Acquired, s\<lparr>fl_count := fl_count s + 1\<rparr>)
      else if fl_owner s = None \<and> fl_waiters s = []
        then (Acquired, s\<lparr>fl_owner := Some t, fl_count := 1\<rparr>)
      else if \<not> blocking then (Refused, s)
      else acquire_pass t timeout start now (s\<lparr>fl_waiters := fl_waiters s @ [t]\<rparr>))"

text \<open>\<open>if self._waiters: self._waiters[0].notify()\<close>\<close>

definition notify_front :: "'t fifo \<Rightarrow> 't fifo" where
  "notify_front s = (case fl_waiters s of [] \<Rightarrow> s | w # _ \<Rightarrow> s\<lparr>fl_awake := insert w (fl_awake s)\<rparr>)"

abbreviation "not_owned_msg \<equiv> ''Cannot release lock not owned by current thread''"

definition fifo_release :: "'t \<Rightarrow> 't fifo \<Rightarrow> py_exc + 't fifo" where
  "fifo_release t s =
     (if fl_owner s \<noteq> Some t then Inl (RuntimeError not_owned_msg)
      else if \<not> fl_count s \<ge> 1
        then Inl (AssertionError ''When releasing the resource, the count must be >= 1'')
      else let s1 = s\<lparr>fl_count := fl_count s - 1\<rparr> in
        Inr (if fl_count s1 = 0 then notify_front (s1\<lparr>fl_owner := None\<rparr>) else s1))"

definition fifo_release_all :: "'t \<Rightarrow> 't fifo \<Rightarrow> py_exc + int \<times> 't fifo" where
  "fifo_release_all t s =
     (if fl_owner s \<noteq> Some t then Inl (RuntimeError not_owned_msg)
      else Inr (fl_count s, notify_front (s\<lparr>fl_count := 0, fl_owner := None\<rparr>)))"

text \<open>
  \<open>reacquire\<close> returns at once for a depth that is not positive (\<open>reacquire_wanted\<close>); otherwise it is a
  blocking acquire without timeout and, once that has returned, \<open>reacquire_restore\<close>.
\<close>

definition reacquire_wanted :: "int \<Rightarrow> bool" where
  "reacquire_wanted depth \<longleftrightarrow> \<not> depth \<le> 0"

definition reacquire_restore :: "int \<Rightarrow> 't fifo \<Rightarrow> 't fifo" where
  "reacquire_restore depth s = s\<lparr>fl_count := depth\<rparr>"

definition fifo_locked :: "'t fifo \<Rightarrow> bool" where
  "fifo_locked s \<longleftrightarrow> fl_owner s \<noteq> None"

definition fifo_owned :: "'t \<Rightarrow> 't fifo \<Rightarrow> bool" where
  "fifo_owned t s \<longleftrightarrow> fl_owner s = Some t"

lemmas fifo_defs = fifo_new_def acquire_pass_def fifo_acquire_def notify_front_def fifo_release_def
  fifo_release_all_def reacquire_wanted_def reacquire_restore_def fifo_locked_def fifo_owned_def
  timeout_expired_def

section \<open>Threads sharing one lock\<close>

text \<open>
  A step is one atomic section of one thread, with what it did as the label. A queued thread is
  inside \<open>acquire\<close>, so it starts no other call; it runs again only after its \<open>wait\<close> has returned,
  by a notification (already recorded in \<open>fl_awake\<close>) or by \<open>Timeout\<close>.
\<close>

datatype 't lock_event =
    Take 't           \<comment> \<open>\<open>acquire\<close> returns True\<close>
  | Queue 't          \<comment> \<open>\<open>acquire\<close> appends itself and sleeps\<close>
  | Fail 't           \<comment> \<open>\<open>acquire\<close> returns False\<close>
  | Timeout 't        \<comment> \<open>the \<open>wait\<close> of a sleeping waiter times out\<close>
  | Again 't          \<comment> \<open>a pass of the loop that goes back to sleep\<close>
  | Drop 't           \<comment> \<open>\<open>release\<close> returns\<close>
  | Drop_All 't int   \<comment> \<open>\<open>release_all\<close> returns the depth\<close>
  | Restore 't int    \<comment> \<open>the second section of \<open>reacquire\<close>\<close>

fun acquire_event :: "'t \<Rightarrow> bool \<Rightarrow> acquire_result \<Rightarrow> 't lock_event" where
  "acquire_event t queued Acquired = Take t"
| "acquire_event t queued Refused = Fail t"
| "acquire_event t queued Sleeping = (if queued then Again t else Queue t)"

inductive lock_step :: "'t fifo \<Rightarrow> 't lock_event \<Rightarrow> 't fifo \<Rightarrow> bool" where
  acquire: "t \<notin> set (fl_waiters s) \<Longrightarrow> fifo_acquire t blocking timeout start now s = (r, s') \<Longrightarrow>
     lock_step s (acquire_event t False r) s'"
| pass: "t \<in> set (fl_waiters s) \<Longrightarrow> t \<in> fl_awake s \<Longrightarrow>
     acquire_pass t timeout start now s = (r, s') \<Longrightarrow> lock_step s (acquire_event t True r) s'"
| timeout: "t \<in> set (fl_waiters s) \<Longrightarrow> lock_step s (Timeout t) (s\<lparr>fl_awake := insert t (fl_awake s)\<rparr>)"
| release: "t \<notin> set (fl_waiters s) \<Longrightarrow> fifo_release t s = Inr s' \<Longrightarrow> lock_step s (Drop t) s'"
| release_all: "t \<notin> set (fl_waiters s) \<Longrightarrow> fifo_release_all t s = Inr (d, s') \<Longrightarrow>
     lock_step s (Drop_All t d) s'"
| restore: "fl_owner s = Some t \<Longrightarrow> reacquire_wanted d \<Longrightarrow>
     lock_step s (Restore t d) (reacquire_restore d s)"

inductive lock_run :: "'t fifo \<Rightarrow> 't lock_event list \<Rightarrow> 't fifo \<Rightarrow> bool" where
  run_nil: "lock_run s [] s"
| run_cons: "lock_step s e s' \<Longrightarrow> lock_run s' es s'' \<Longrightarrow> lock_run s (e # es) s''"

inductive_cases lock_stepE: "lock_step s e s'"
inductive_simps lock_run_Nil [simp]: "lock_run s [] s'"
inductive_simps lock_run_Cons: "lock_run s (e # es) s'"

section \<open>The invariant\<close>

text \<open>
  A free lock with waiters has an awake front (no wakeup is lost), the owner is not queued, the
  queue has no duplicates, and the count is positive exactly while the lock is owned.
\<close>

definition fifo_inv :: "'t fifo \<Rightarrow> bool" where
  "fifo_inv s \<longleftrightarrow>
     distinct (fl_waiters s) \<and>
     fl_awake s \<subseteq> set (fl_waiters s) \<and>
     (\<forall>t. fl_owner s = Some t \<longrightarrow> t \<notin> set (fl_waiters s) \<and> fl_count s \<ge> 1) \<and>
     (fl_owner s = None \<longrightarrow> fl_count s = 0 \<and>
        (fl_waiters s \<noteq> [] \<longrightarrow> hd (fl_waiters s) \<in> fl_awake s))"

lemma fifo_inv_new: "fifo_inv fifo_new"
  by (simp add: fifo_inv_def fifo_new_def)

lemma fifo_inv_pass:
  assumes inv: "fifo_inv s" and t: "t \<in> set (fl_waiters s)"
    and st: "acquire_pass t timeout start now s = (r, s')"
  shows "fifo_inv s'"
proof -
  obtain w ws where ws: "fl_waiters s = w # ws" using t by (cases "fl_waiters s") auto
  show ?thesis
    using inv t st ws
    by (auto simp: acquire_pass_def fifo_inv_def split: if_splits dest: in_set_remove1)
qed

lemma fifo_inv_acquire:
  assumes inv: "fifo_inv s" and t: "t \<notin> set (fl_waiters s)"
    and st: "fifo_acquire t blocking timeout start now s = (r, s')"
  shows "fifo_inv s'"
proof -
  consider (own) "fl_owner s = Some t" | (free) "fl_owner s = None" "fl_waiters s = []"
    | (refuse) "fl_owner s \<noteq> Some t" "\<not> (fl_owner s = None \<and> fl_waiters s = [])" "\<not> blocking"
    | (queue) "fl_owner s \<noteq> Some t" "\<not> (fl_owner s = None \<and> fl_waiters s = [])" "blocking"
    by (cases blocking) auto
  then show ?thesis
  proof cases
    case queue
    define s1 where "s1 = s\<lparr>fl_waiters := fl_waiters s @ [t]\<rparr>"
    have "fifo_inv s1" using inv t queue
      by (cases "fl_waiters s") (auto simp: fifo_inv_def s1_def)
    moreover have "acquire_pass t timeout start now s1 = (r, s')"
      using st queue by (auto simp: fifo_acquire_def s1_def)
    ultimately show ?thesis using fifo_inv_pass[of s1 t] by (simp add: s1_def)
  qed (use inv st in \<open>auto simp: fifo_acquire_def fifo_inv_def\<close>)
qed

lemma fifo_inv_release: "fifo_inv s \<Longrightarrow> fifo_release t s = Inr s' \<Longrightarrow> fifo_inv s'"
  by (auto simp: fifo_release_def fifo_inv_def notify_front_def Let_def
      split: if_splits list.splits)

lemma fifo_inv_release_all: "fifo_inv s \<Longrightarrow> fifo_release_all t s = Inr (d, s') \<Longrightarrow> fifo_inv s'"
  by (auto simp: fifo_release_all_def fifo_inv_def notify_front_def
      split: if_splits list.splits)

lemma fifo_inv_step: "lock_step s e s' \<Longrightarrow> fifo_inv s \<Longrightarrow> fifo_inv s'"
proof (induction rule: lock_step.induct)
  case (timeout t s)
  then show ?case by (auto simp: fifo_inv_def)
next
  case (restore s t d)
  then show ?case by (auto simp: fifo_inv_def reacquire_restore_def reacquire_wanted_def)
qed (auto intro: fifo_inv_acquire fifo_inv_pass fifo_inv_release fifo_inv_release_all)

lemma fifo_inv_run: "lock_run s es s' \<Longrightarrow> fifo_inv s \<Longrightarrow> fifo_inv s'"
  by (induction rule: lock_run.induct) (auto intro: fifo_inv_step)

section \<open>Mutual exclusion against a counting specification\<close>

text \<open>
  The abstract lock: from the labels alone, how deep each thread holds it. \<open>Take\<close> adds a level,
  \<open>Drop\<close> removes one, \<open>Drop_All\<close> removes all of them, \<open>Restore\<close> sets the depth.
\<close>

fun note_event :: "'t lock_event \<Rightarrow> ('t \<Rightarrow> int) \<Rightarrow> 't \<Rightarrow> int" where
  "note_event (Take t) h = h(t := h t + 1)"
| "note_event (Drop t) h = h(t := h t - 1)"
| "note_event (Drop_All t d) h = h(t := 0)"
| "note_event (Restore t d) h = h(t := d)"
| "note_event _ h = h"

definition held_depth :: "'t lock_event list \<Rightarrow> ('t \<Rightarrow> int) \<Rightarrow> 't \<Rightarrow> int" where
  "held_depth es h = foldl (\<lambda>g e. note_event e g) h es"

definition depth_of :: "'t fifo \<Rightarrow> 't \<Rightarrow> int" where
  "depth_of s t = (if fl_owner s = Some t then fl_count s else 0)"

lemma depth_pass:
  assumes "fifo_inv s" "t \<in> set (fl_waiters s)" "acquire_pass t timeout start now s = (r, s')"
  shows "depth_of s' = note_event (acquire_event t q r) (depth_of s)"
  using assms
  by (auto simp: acquire_pass_def depth_of_def fun_eq_iff split: list.splits if_splits)

lemma depth_acquire:
  assumes inv: "fifo_inv s" and t: "t \<notin> set (fl_waiters s)"
    and st: "fifo_acquire t blocking timeout start now s = (r, s')"
  shows "depth_of s' = note_event (acquire_event t False r) (depth_of s)"
proof -
  have "hd (fl_waiters s @ [t]) = t \<longrightarrow> fl_waiters s = []" using t by (cases "fl_waiters s") auto
  then show ?thesis using inv st
    by (auto simp: fifo_acquire_def acquire_pass_def depth_of_def fifo_inv_def fun_eq_iff
        split: list.splits if_splits)
qed

lemma depth_step: "lock_step s e s' \<Longrightarrow> fifo_inv s \<Longrightarrow> depth_of s' = note_event e (depth_of s)"
proof (induction rule: lock_step.induct)
  case (release t s s')
  then show ?case
    by (auto simp: fifo_release_def notify_front_def depth_of_def fun_eq_iff Let_def
        split: if_splits list.splits)
next
  case (release_all t s d s')
  then show ?case
    by (auto simp: fifo_release_all_def notify_front_def depth_of_def fun_eq_iff
        split: if_splits list.splits)
next
  case (restore s t d)
  then show ?case by (auto simp: reacquire_restore_def depth_of_def fun_eq_iff)
next
  case (timeout t s)
  then show ?case by (auto simp: depth_of_def fun_eq_iff)
qed (auto intro: depth_acquire depth_pass)

lemma depth_run: "lock_run s es s' \<Longrightarrow> fifo_inv s \<Longrightarrow> depth_of s' = held_depth es (depth_of s)"
proof (induction rule: lock_run.induct)
  case (run_cons s e s' es s'')
  then show ?case using depth_step[of s e s'] fifo_inv_step[of s e s']
    by (simp add: held_depth_def)
qed (simp add: held_depth_def)

text \<open>
  C36: mutual exclusion and exact reentrancy counting. In every run of a new lock, under any
  interleaving, the depth each thread holds according to the calls that returned is the count of
  the lock if the thread is its owner and 0 otherwise; so at most one thread holds the lock, and
  \<open>locked()\<close> tells whether one does.
\<close>

theorem fifo_mutual_exclusion:
  assumes "lock_run fifo_new es s"
  shows "held_depth es (\<lambda>_. 0) = (\<lambda>t. if fifo_owned t s then fl_count s else 0) \<and>
    (\<forall>t u. held_depth es (\<lambda>_. 0) t > 0 \<and> held_depth es (\<lambda>_. 0) u > 0 \<longrightarrow> t = u) \<and>
    (fifo_locked s \<longleftrightarrow> (\<exists>t. held_depth es (\<lambda>_. 0) t > 0))"
proof -
  have inv: "fifo_inv s" by (rule fifo_inv_run[OF assms fifo_inv_new])
  have "depth_of fifo_new = (\<lambda>_. 0)" by (simp add: depth_of_def fifo_new_def fun_eq_iff)
  then have eq: "held_depth es (\<lambda>_. 0) = (\<lambda>t. if fl_owner s = Some t then fl_count s else 0)"
    using depth_run[OF assms fifo_inv_new] by (metis depth_of_def ext)
  show ?thesis using inv unfolding eq fifo_owned_def fifo_locked_def
    by (auto simp: fifo_inv_def split: if_splits)
qed

section \<open>Arrival order\<close>

text \<open>
  \<open>queued_ahead u t s\<close>: \<open>u\<close> waits in front of the waiting thread \<open>t\<close>. \<open>later u t s\<close>: \<open>t\<close> waits, and \<open>u\<close> is
  neither the owner nor in front of it, that is, it queues behind \<open>t\<close> or has not called yet.
\<close>

fun before :: "'t \<Rightarrow> 't list \<Rightarrow> 't list" where
  "before t [] = []"
| "before t (x # xs) = (if x = t then [] else x # before t xs)"

definition queued_ahead :: "'t \<Rightarrow> 't \<Rightarrow> 't fifo \<Rightarrow> bool" where
  "queued_ahead u t s \<longleftrightarrow> u \<in> set (before t (fl_waiters s))"

definition later :: "'t \<Rightarrow> 't \<Rightarrow> 't fifo \<Rightarrow> bool" where
  "later u t s \<longleftrightarrow> t \<in> set (fl_waiters s) \<and> u \<noteq> t \<and> fl_owner s \<noteq> Some u \<and> \<not> queued_ahead u t s"

lemma set_before_remove1: "x \<noteq> t \<Longrightarrow> set (before t (remove1 x xs)) \<subseteq> set (before t xs)"
  by (induction xs) auto

lemma before_append: "t \<in> set xs \<Longrightarrow> before t (xs @ ys) = before t xs"
  by (induction xs) auto

lemma later_pass:
  assumes inv: "fifo_inv s" and l: "later u t s" and x: "x \<in> set (fl_waiters s)"
    and st: "acquire_pass x timeout start now s = (r, s')"
  shows "acquire_event x q r \<noteq> Take u \<and>
    (acquire_event x q r \<in> {Take t, Fail t} \<or> later u t s')"
proof -
  obtain w ws where ws: "fl_waiters s = w # ws" using x by (cases "fl_waiters s") auto
  have sub: "x \<noteq> t \<Longrightarrow> \<not> u \<in> set (before t (remove1 x (w # ws)))"
    using l set_before_remove1[of x t "w # ws"]
    unfolding later_def queued_ahead_def ws by blast
  consider (take) "w = x" "fl_owner s = None" | (fail) "\<not> (w = x \<and> fl_owner s = None)" "timeout_expired timeout start now"
    | (sleep) "\<not> (w = x \<and> fl_owner s = None)" "\<not> timeout_expired timeout start now" by satx
  then show ?thesis
  proof cases
    case take
    have r: "r = Acquired" "fl_waiters s' = ws" "fl_owner s' = Some x"
      using st unfolding acquire_pass_def ws take by auto
    show ?thesis
    proof (cases "x = t")
      case False
      have "u \<notin> set (before t (x # ws))" "t \<in> set (x # ws)" "u \<noteq> t"
        using l take(1) ws unfolding later_def queued_ahead_def by simp_all
      then show ?thesis using r False by (auto simp: later_def queued_ahead_def)
    qed (use r l in \<open>auto simp: later_def\<close>)
  next
    case fail
    then have "r = Refused" "fl_owner s' = fl_owner s" "fl_waiters s' = remove1 x (w # ws)"
      using st ws by (auto simp: acquire_pass_def)
    then show ?thesis using l sub ws
      by (cases "x = t") (auto simp: later_def queued_ahead_def in_set_remove1 simp del: remove1.simps before.simps)
  next
    case sleep
    then show ?thesis using l st ws
      by (cases q) (auto simp: acquire_pass_def later_def queued_ahead_def)
  qed
qed

lemma later_append: "later u t s \<Longrightarrow> later u t (s\<lparr>fl_waiters := fl_waiters s @ [x]\<rparr>)"
  by (simp add: later_def queued_ahead_def before_append)

lemma later_acquire:
  assumes inv: "fifo_inv s" and l: "later u t s" and x: "x \<notin> set (fl_waiters s)"
    and st: "fifo_acquire x blocking timeout start now s = (r, s')"
  shows "acquire_event x False r \<noteq> Take u \<and>
    (acquire_event x False r \<in> {Take t, Fail t} \<or> later u t s')"
proof (cases "blocking \<and> fl_owner s \<noteq> Some x \<and> \<not> (fl_owner s = None \<and> fl_waiters s = [])")
  case True
  define s1 where "s1 = s\<lparr>fl_waiters := fl_waiters s @ [x]\<rparr>"
  have st1: "acquire_pass x timeout start now s1 = (r, s')"
    using st True by (auto simp: fifo_acquire_def s1_def)
  have inv1: "fifo_inv s1" using inv x True
    by (cases "fl_waiters s") (auto simp: fifo_inv_def s1_def)
  show ?thesis by (rule later_pass[OF inv1 _ _ st1]) (simp_all add: later_append[OF l] s1_def)
next
  case False
  then show ?thesis using l st
    by (auto simp: fifo_acquire_def later_def queued_ahead_def split: if_splits)
qed

lemma later_step:
  "lock_step s e s' \<Longrightarrow> fifo_inv s \<Longrightarrow> later u t s \<Longrightarrow>
     e \<noteq> Take u \<and> (e \<in> {Take t, Fail t} \<or> later u t s')"
proof (induction rule: lock_step.induct)
  case (acquire x s blocking timeout start now r s')
  then show ?case using later_acquire[of s u t x] by blast
next
  case (pass x s timeout start now r s')
  then show ?case using later_pass[of s u t x] by blast
next
  case (release x s s')
  then show ?case
    by (auto simp: fifo_release_def notify_front_def later_def queued_ahead_def Let_def
        split: if_splits list.splits)
next
  case (release_all x s d s')
  then show ?case
    by (auto simp: fifo_release_all_def notify_front_def later_def queued_ahead_def
        split: if_splits list.splits)
qed (auto simp: later_def queued_ahead_def reacquire_restore_def)

lemma later_run:
  "lock_run s es s' \<Longrightarrow> fifo_inv s \<Longrightarrow> later u t s \<Longrightarrow> Take u \<in> set es \<Longrightarrow>
     \<exists>pre post. es = pre @ Take u # post \<and> (Take t \<in> set pre \<or> Fail t \<in> set pre)"
proof (induction rule: lock_run.induct)
  case (run_cons s e s' es s'')
  have st: "e \<noteq> Take u" "e \<in> {Take t, Fail t} \<or> later u t s'"
    using later_step[OF run_cons.hyps(1) run_cons.prems(1,2)] by auto
  then have mem: "Take u \<in> set es" using run_cons.prems(3) by simp
  show ?case
  proof (cases "e \<in> {Take t, Fail t}")
    case True
    obtain pre post where "es = pre @ Take u # post" using mem by (meson split_list)
    then have "e # es = (e # pre) @ Take u # post" by simp
    then show ?thesis using True by (metis insert_iff list.set_intros(1) singletonD)
  next
    case False
    then obtain pre post where "es = pre @ Take u # post" "Take t \<in> set pre \<or> Fail t \<in> set pre"
      using run_cons.IH[OF fifo_inv_step[OF run_cons.hyps(1) run_cons.prems(1)] _ mem] st by auto
    then have "e # es = (e # pre) @ Take u # post \<and> (Take t \<in> set (e # pre) \<or> Fail t \<in> set (e # pre))" by auto
    then show ?thesis by blast
  qed
qed simp

text \<open>
  C35: first come, first served. Once a thread waits, no thread that neither owns the lock nor waits
  in front of it gets the lock before it, whatever the interleaving of later calls, timeouts,
  releases and reacquisitions: before that \<open>acquire\<close> returns True, the one of the earlier waiter
  has returned.
\<close>

theorem fifo_arrival_order:
  assumes "lock_run fifo_new es s" "t \<in> set (fl_waiters s)" "u \<noteq> t" "\<not> fifo_owned u s"
    "\<not> queued_ahead u t s" "lock_run s es' s'" "Take u \<in> set es'"
  shows "\<exists>pre post. es' = pre @ Take u # post \<and> (Take t \<in> set pre \<or> Fail t \<in> set pre)"
proof (rule later_run[OF assms(6) fifo_inv_run[OF assms(1) fifo_inv_new] _ assms(7)])
  show "later u t s" using assms(2-5) by (simp add: later_def fifo_owned_def)
qed

lemma fifo_arrival_order_witness:
  "\<exists>pre post. [Take (1::nat), Drop 1, Take 2] = pre @ Take 2 # post \<and>
     (Take 1 \<in> set pre \<or> Fail 1 \<in> set pre)"
proof -
  define s1 where "s1 = \<lparr>fl_waiters = [], fl_owner = Some (0::nat), fl_count = 1, fl_awake = {}\<rparr>"
  define s2 where "s2 = \<lparr>fl_waiters = [1, 2], fl_owner = Some (0::nat), fl_count = 1, fl_awake = {}\<rparr>"
  define s3 where "s3 = \<lparr>fl_waiters = [1, 2], fl_owner = None, fl_count = 0, fl_awake = {1::nat}\<rparr>"
  define s4 where "s4 = \<lparr>fl_waiters = [2], fl_owner = Some (1::nat), fl_count = 1, fl_awake = {}\<rparr>"
  define s5 where "s5 = \<lparr>fl_waiters = [2], fl_owner = None, fl_count = 0, fl_awake = {2::nat}\<rparr>"
  define s6 where "s6 = \<lparr>fl_waiters = [], fl_owner = Some (2::nat), fl_count = 1, fl_awake = {}\<rparr>"
  define s1' where "s1' = \<lparr>fl_waiters = [1], fl_owner = Some (0::nat), fl_count = 1, fl_awake = {}\<rparr>"
  note ds = s1_def s2_def s3_def s4_def s5_def s6_def s1'_def fifo_defs
  have a: "lock_step fifo_new (acquire_event 0 False Acquired) s1"
    by (rule lock_step.acquire[of _ _ True 0 0 0]) (simp_all add: ds)
  have b: "lock_step s1 (acquire_event 1 False Sleeping) s1'"
    by (rule lock_step.acquire[of _ _ True "-1" 0 0]) (simp_all add: ds)
  have c: "lock_step s1' (acquire_event 2 False Sleeping) s2"
    by (rule lock_step.acquire[of _ _ True "-1" 0 0]) (simp_all add: ds)
  have d: "lock_step s2 (Drop 0) s3"
    by (rule lock_step.release) (simp_all add: ds)
  have e: "lock_step s3 (acquire_event 1 True Acquired) s4"
    by (rule lock_step.pass[of _ _ "-1" 0 0]) (simp_all add: ds)
  have f: "lock_step s4 (Drop 1) s5"
    by (rule lock_step.release) (simp_all add: ds)
  have g: "lock_step s5 (acquire_event 2 True Acquired) s6"
    by (rule lock_step.pass[of _ _ "-1" 0 0]) (simp_all add: ds)
  have r1: "lock_run fifo_new [Take 0, Queue 1, Queue 2, Drop 0] s3"
    using a b c d by (auto simp: lock_run_Cons)
  have r2: "lock_run s3 [Take 1, Drop 1, Take 2] s6"
    using e f g by (auto simp: lock_run_Cons)
  show ?thesis
    by (rule fifo_arrival_order[OF r1 _ _ _ _ r2]) (simp_all add: s3_def fifo_owned_def queued_ahead_def)
qed

lemma fifo_mutual_exclusion_witness:
  "held_depth [Take (0::nat), Take 0] (\<lambda>_. 0) 0 = 2"
proof -
  have a: "lock_step fifo_new (acquire_event (0::nat) False Acquired)
      \<lparr>fl_waiters = [], fl_owner = Some 0, fl_count = 1, fl_awake = {}\<rparr>"
    by (rule lock_step.acquire[of _ _ True 0 0 0]) (simp_all add: fifo_defs)
  have b: "lock_step \<lparr>fl_waiters = [], fl_owner = Some (0::nat), fl_count = 1, fl_awake = {}\<rparr>
      (acquire_event 0 False Acquired) \<lparr>fl_waiters = [], fl_owner = Some 0, fl_count = 2, fl_awake = {}\<rparr>"
    by (rule lock_step.acquire[of _ _ True 0 0 0]) (simp_all add: fifo_defs)
  have "lock_run fifo_new [Take (0::nat), Take 0] \<lparr>fl_waiters = [], fl_owner = Some 0, fl_count = 2, fl_awake = {}\<rparr>"
    using a b by (auto simp: lock_run_Cons)
  from fun_cong[OF conjunct1[OF fifo_mutual_exclusion[OF this]], of 0]
  show ?thesis by (simp add: fifo_owned_def)
qed

section \<open>No lost wakeup\<close>

text \<open>
  No lost wakeup. In every reachable state in which the lock is free and threads wait, the
  first of them is about to run again, and its next pass takes the lock whatever its timeout and
  the clock say; the next waiter moves to the front.
\<close>

theorem fifo_no_lost_wakeup:
  assumes "lock_run fifo_new es s" "\<not> fifo_locked s" "fl_waiters s = t # ts"
  shows "t \<in> fl_awake s \<and> acquire_pass t timeout start now s =
    (Acquired, \<lparr>fl_waiters = ts, fl_owner = Some t, fl_count = 1, fl_awake = fl_awake s - {t}\<rparr>)"
proof -
  have "fifo_inv s" by (rule fifo_inv_run[OF assms(1) fifo_inv_new])
  then show ?thesis using assms(2,3)
    by (auto simp: fifo_inv_def fifo_locked_def acquire_pass_def)
qed

lemma fifo_no_lost_wakeup_witness:
  "acquire_pass (1::nat) 5 0 99 \<lparr>fl_waiters = [1], fl_owner = None, fl_count = 0, fl_awake = {1}\<rparr> =
    (Acquired, \<lparr>fl_waiters = [], fl_owner = Some 1, fl_count = 1, fl_awake = {}\<rparr>)"
proof -
  have a: "lock_step fifo_new (acquire_event (0::nat) False Acquired)
      \<lparr>fl_waiters = [], fl_owner = Some 0, fl_count = 1, fl_awake = {}\<rparr>"
    by (rule lock_step.acquire[of _ _ True 0 0 0]) (simp_all add: fifo_defs)
  have b: "lock_step \<lparr>fl_waiters = [], fl_owner = Some (0::nat), fl_count = 1, fl_awake = {}\<rparr>
      (acquire_event 1 False Sleeping)
      \<lparr>fl_waiters = [1], fl_owner = Some (0::nat), fl_count = 1, fl_awake = {}\<rparr>"
    by (rule lock_step.acquire[of _ _ True "-1" 0 0]) (simp_all add: fifo_defs)
  have c: "lock_step \<lparr>fl_waiters = [1], fl_owner = Some (0::nat), fl_count = 1, fl_awake = {}\<rparr> (Drop 0)
      \<lparr>fl_waiters = [1], fl_owner = None, fl_count = 0, fl_awake = {1}\<rparr>"
    by (rule lock_step.release) (simp_all add: fifo_defs)
  have "lock_run fifo_new [Take (0::nat), Queue 1, Drop 0]
      \<lparr>fl_waiters = [1], fl_owner = None, fl_count = 0, fl_awake = {1}\<rparr>"
    using a b c by (auto simp: lock_run_Cons)
  from fifo_no_lost_wakeup[OF this, of 1 "[]" 5 0 99] show ?thesis by (simp add: fifo_locked_def)
qed

section \<open>Suspending and restoring a hold\<close>

text \<open>
  C33: \<open>release_all\<close> and \<open>reacquire\<close> are inverse. A thread that owns a lock nobody waits for and that
  drops all its levels gets the depth it had, and reacquiring with this depth (an acquire that
  returns at once, then the restoring section) gives back the lock exactly as it was. When
  threads wait, the lock becomes free, the first waiter is notified, and a reacquire has to queue.
\<close>

theorem release_all_reacquire:
  assumes "fifo_inv s" "fifo_owned t s"
  shows "\<exists>s1. fifo_release_all t s = Inr (fl_count s, s1) \<and> fifo_inv s1 \<and> \<not> fifo_locked s1 \<and>
    reacquire_wanted (fl_count s) \<and>
    (if fl_waiters s = []
     then \<exists>s2. fifo_acquire t True (-1) start now s1 = (Acquired, s2) \<and>
            reacquire_restore (fl_count s) s2 = s
     else hd (fl_waiters s) \<in> fl_awake s1 \<and> fst (fifo_acquire t True (-1) start now s1) = Sleeping)"
proof -
  obtain s1 where s1: "fifo_release_all t s = Inr (fl_count s, s1)"
    using assms(2) by (simp add: fifo_release_all_def fifo_owned_def)
  have inv1: "fifo_inv s1" by (rule fifo_inv_release_all[OF assms(1) s1])
  have eq: "s1 = notify_front (s\<lparr>fl_count := 0, fl_owner := None\<rparr>)"
    using s1 assms(2) by (simp add: fifo_release_all_def fifo_owned_def)
  show ?thesis
  proof (cases "fl_waiters s")
    case Nil
    then show ?thesis using s1 inv1 assms
      by (cases s) (auto simp: fifo_defs fifo_inv_def)
  next
    case (Cons w ws)
    then have "w \<noteq> t" using assms by (auto simp: fifo_inv_def fifo_owned_def)
    then show ?thesis using Cons s1 inv1 assms unfolding eq
      by (auto simp: fifo_defs fifo_inv_def)
  qed
qed

lemma release_all_reacquire_witness:
  "let s = \<lparr>fl_waiters = [], fl_owner = Some (7::nat), fl_count = 3, fl_awake = {}\<rparr> in
   \<exists>s1. fifo_release_all 7 s = Inr (3, s1) \<and> \<not> fifo_locked s1"
proof -
  have "fifo_inv \<lparr>fl_waiters = [], fl_owner = Some (7::nat), fl_count = 3, fl_awake = {}\<rparr>"
    "fifo_owned 7 \<lparr>fl_waiters = [], fl_owner = Some (7::nat), fl_count = 3, fl_awake = {}\<rparr>"
    by (simp_all add: fifo_inv_def fifo_owned_def)
  from release_all_reacquire[OF this] show ?thesis by (auto simp: Let_def)
qed

section \<open>The interface: a lock with waiting threads\<close>

text \<open>
  What a client that takes several locks relies on: a free lock that somebody waits for serves one
  of the waiters. If threads ask for locks only above the ones they hold, in some linear order of
  the keys, this law alone excludes a circular wait.
\<close>

locale waiting_lock =
  fixes holder :: "'l \<Rightarrow> 't option"
    and waiting :: "'l \<Rightarrow> 't set"
    and served :: "'t \<Rightarrow> 'l \<Rightarrow> bool"
    and ok :: "'l \<Rightarrow> bool"
  assumes free_serves: "ok l \<Longrightarrow> holder l = None \<Longrightarrow> waiting l \<noteq> {} \<Longrightarrow> \<exists>t \<in> waiting l. served t l"
begin

lemma ordered_waits_progress:
  fixes wants :: "'t \<Rightarrow> 'k :: linorder" and lock_of :: "'k \<Rightarrow> 'l"
  assumes T: "finite T" "T \<noteq> {}"
    and waits: "\<And>t. t \<in> T \<Longrightarrow> ok (lock_of (wants t)) \<and> t \<in> waiting (lock_of (wants t))"
    and peers: "\<And>t u. t \<in> T \<Longrightarrow> u \<in> waiting (lock_of (wants t)) \<Longrightarrow> u \<in> T \<and> wants u = wants t"
    and above: "\<And>t u. t \<in> T \<Longrightarrow> holder (lock_of (wants t)) = Some u \<Longrightarrow> u \<in> T \<and> wants t < wants u"
  shows "\<exists>t \<in> T. served t (lock_of (wants t))"
proof -
  have fin: "finite (wants ` T)" "wants ` T \<noteq> {}" using T by simp_all
  obtain t where t: "t \<in> T" "wants t = Max (wants ` T)"
    using Max_in[OF fin] by auto
  have "holder (lock_of (wants t)) = None"
  proof (rule ccontr)
    assume "holder (lock_of (wants t)) \<noteq> None"
    then obtain u where "holder (lock_of (wants t)) = Some u" by blast
    then have u: "u \<in> T" "wants t < wants u" using above[OF t(1)] by auto
    have "wants u \<le> Max (wants ` T)" using fin u(1) by simp
    with u(2) t(2) show False by simp
  qed
  moreover have "waiting (lock_of (wants t)) \<noteq> {}" using waits[OF t(1)] by blast
  ultimately obtain u where u: "u \<in> waiting (lock_of (wants t))" "served u (lock_of (wants t))"
    using free_serves waits[OF t(1)] by blast
  then show ?thesis using peers[OF t(1) u(1)] by metis
qed

end

text \<open>\<open>served\<close> on the model: the thread is awake and its next pass takes the lock at any time.\<close>

definition fifo_served :: "'t \<Rightarrow> 't fifo \<Rightarrow> bool" where
  "fifo_served t s \<longleftrightarrow> t \<in> fl_awake s \<and> fl_owner s = None \<and> (\<exists>ts. fl_waiters s = t # ts)"

lemma fifo_served_pass:
  "fifo_served t s \<Longrightarrow> fst (acquire_pass t timeout start now s) = Acquired"
  by (auto simp: fifo_served_def acquire_pass_def)

interpretation fifo_wait: waiting_lock fl_owner "\<lambda>s. set (fl_waiters s)" fifo_served fifo_inv
proof
  fix s :: "'a fifo"
  assume "fifo_inv s" "fl_owner s = None" "set (fl_waiters s) \<noteq> {}"
  then show "\<exists>t \<in> set (fl_waiters s). fifo_served t s"
    by (cases "fl_waiters s") (auto simp: fifo_inv_def fifo_served_def)
qed
end
