(* ===== verification/Resource_Locks.thy ===== *)
theory Resource_Locks
  imports Fifo_Lock "HOL-Library.List_Lexorder" "HOL-Library.Char_ord"
begin

text \<open>
  \<open>sdk/conversation/resource_lock_manager.py\<close>: one \<^typ>\<open>'t fifo\<close> per resource key, created on
  demand, counted, and taken in sorted order.

  A lock is an object: the table maps a key to an object and the threads keep the object they were
  given, so the model has a heap of locks and the phases of a \<open>lock(...)\<close> call carry the
  identifier of the object. A step is one atomic section: a \<open>with self._meta_lock\<close> block, one call
  of the lock up to its wait, or a pass of its loop. Strings are ordered by code point, as Python
  does.
\<close>

section \<open>The manager\<close>

record 't lock_manager =
  rm_locks :: "(str, nat) dict"
  rm_refcounts :: "(str, int) dict"
  rm_timeouts :: "(str, int) dict"
  rm_heap :: "nat \<Rightarrow> 't fifo"
  rm_next :: nat

text \<open>Timeouts in seconds; an empty or missing argument stands for the defaults (\<open>or\<close>).\<close>

definition default_timeouts :: "(str, int) dict" where
  "default_timeouts = [(''file'', 30), (''terminal'', 300), (''browser'', 300), (''mcp'', 300), (''tool'', 60)]"

definition fallback_timeout :: int where
  "fallback_timeout = 30"

definition new_manager :: "(str, int) dict option \<Rightarrow> 't lock_manager" where
  "new_manager timeouts =
     \<lparr>rm_locks = [], rm_refcounts = [],
      rm_timeouts = (case timeouts of None \<Rightarrow> default_timeouts | Some [] \<Rightarrow> default_timeouts | Some d \<Rightarrow> d),
      rm_heap = (\<lambda>_. fifo_new), rm_next = 0\<rparr>"

definition get_lock :: "str \<Rightarrow> 't lock_manager \<Rightarrow> nat \<times> 't lock_manager" where
  "get_lock key m =
     (let (l, m1) = (case dict_get (rm_locks m) key of
            Some l \<Rightarrow> (l, m)
          | None \<Rightarrow> (rm_next m, m\<lparr>rm_locks := dict_put key (rm_next m) (rm_locks m),
                                 rm_heap := (rm_heap m)(rm_next m := fifo_new),
                                 rm_next := rm_next m + 1\<rparr>));
          n = (case dict_get (rm_refcounts m1) key of None \<Rightarrow> 0 | Some n \<Rightarrow> n)
      in (l, m1\<lparr>rm_refcounts := dict_put key (n + 1) (rm_refcounts m1)\<rparr>))"

text \<open>
  The shared tail of \<open>_release_lock\<close> and of the failure branch of \<open>lock\<close>: one reference less, and an
  unreferenced, unlocked lock leaves the table.
\<close>

definition drop_reference :: "str \<Rightarrow> 't lock_manager \<Rightarrow> py_exc + 't lock_manager" where
  "drop_reference key m =
     (case dict_get (rm_refcounts m) key of
        None \<Rightarrow> Inl KeyError
      | Some n \<Rightarrow>
          let m1 = m\<lparr>rm_refcounts := dict_put key (n - 1) (rm_refcounts m)\<rparr> in
          if n - 1 = 0 then
            (case dict_get (rm_locks m1) key of
               None \<Rightarrow> Inl KeyError
             | Some l \<Rightarrow>
                 if \<not> fifo_locked (rm_heap m1 l)
                 then Inr (m1\<lparr>rm_locks := dict_del key (rm_locks m1),
                              rm_refcounts := dict_del key (rm_refcounts m1)\<rparr>)
                 else Inr m1)
          else Inr m1)"

definition release_lock :: "'t \<Rightarrow> str \<Rightarrow> 't lock_manager \<Rightarrow> py_exc + 't lock_manager" where
  "release_lock t key m =
     (case dict_get (rm_locks m) key of
        None \<Rightarrow> Inr m
      | Some l \<Rightarrow>
          rbind (fifo_release t (rm_heap m l)) (\<lambda>f.
          drop_reference key (m\<lparr>rm_heap := (rm_heap m)(l := f)\<rparr>)))"

text \<open>\<open>key.split(":", 1)[0] if ":" in key else key\<close>\<close>

definition key_prefix :: "str \<Rightarrow> str" where
  "key_prefix key = (if CHR '':'' \<in> set key then takeWhile (\<lambda>c. c \<noteq> CHR '':'') key else key)"

definition get_timeout :: "str \<Rightarrow> 't lock_manager \<Rightarrow> int" where
  "get_timeout key m =
     (case dict_get (rm_timeouts m) (key_prefix key) of None \<Rightarrow> fallback_timeout | Some n \<Rightarrow> n)"

section \<open>A call of \<open>lock\<close>\<close>

text \<open>Where a thread stands in \<open>with mgr.lock(*resource_keys): ...\<close>.\<close>

datatype phase =
    Outside
  | Getting "str list" "str list"              \<comment> \<open>acquired, still to do\<close>
  | Trying "str list" str nat "str list"       \<comment> \<open>\<open>_get_lock\<close> has returned the object\<close>
  | Queued "str list" str nat "str list" int   \<comment> \<open>asleep in \<open>acquire\<close>, with its start time\<close>
  | Undoing "str list" str                     \<comment> \<open>\<open>acquire\<close> returned False\<close>
  | Inside "str list"                          \<comment> \<open>the body of the \<open>with\<close> statement\<close>
  | Leaving "str list"                         \<comment> \<open>the \<open>finally\<close> loop\<close>

definition sorted_keys :: "str list \<Rightarrow> str list" where
  "sorted_keys keys = sort (remdups keys)"

definition after_acquire :: "str list \<Rightarrow> str \<Rightarrow> nat \<Rightarrow> str list \<Rightarrow> int \<Rightarrow> acquire_result \<Rightarrow> phase" where
  "after_acquire acquired key l todo start r =
     (case r of Acquired \<Rightarrow> Getting (acquired @ [key]) todo
      | Refused \<Rightarrow> Undoing acquired key
      | Sleeping \<Rightarrow> Queued acquired key l todo start)"

text \<open>
  The next atomic section of thread \<open>t\<close>: \<open>start\<close> and \<open>now\<close> are the clock readings of \<open>acquire\<close>. A
  queued thread that is not awake stays asleep. The exception of the failure branch is raised once
  the \<open>finally\<close> loop is done; both ways of leaving the call end in \<^const>\<open>Outside\<close>.
\<close>

fun lock_call_step :: "'t \<Rightarrow> int \<Rightarrow> int \<Rightarrow> 't lock_manager \<Rightarrow> phase \<Rightarrow> py_exc + 't lock_manager \<times> phase" where
  "lock_call_step t start now m Outside = Inr (m, Outside)"
| "lock_call_step t start now m (Getting acq []) = Inr (m, Inside acq)"
| "lock_call_step t start now m (Getting acq (k # ks)) =
     (let (l, m1) = get_lock k m in Inr (m1, Trying acq k l ks))"
| "lock_call_step t start now m (Trying acq k l ks) =
     (let (r, f) = fifo_acquire t True (get_timeout k m) start now (rm_heap m l)
      in Inr (m\<lparr>rm_heap := (rm_heap m)(l := f)\<rparr>, after_acquire acq k l ks start r))"
| "lock_call_step t start now m (Queued acq k l ks began) =
     (if t \<in> fl_awake (rm_heap m l)
      then let (r, f) = acquire_pass t (get_timeout k m) began now (rm_heap m l)
        in Inr (m\<lparr>rm_heap := (rm_heap m)(l := f)\<rparr>, after_acquire acq k l ks began r)
      else Inr (m, Queued acq k l ks began))"
| "lock_call_step t start now m (Undoing acq k) =
     rbind (drop_reference k m) (\<lambda>m1. Inr (m1, Leaving (rev acq)))"
| "lock_call_step t start now m (Inside acq) = Inr (m, Leaving (rev acq))"
| "lock_call_step t start now m (Leaving []) = Inr (m, Outside)"
| "lock_call_step t start now m (Leaving (k # ks)) =
     rbind (release_lock t k m) (\<lambda>m1. Inr (m1, Leaving ks))"

text \<open>All threads together: a call begins, a thread runs its next section, or a wait times out.\<close>

inductive locks_reach :: "'t lock_manager \<Rightarrow> ('t \<Rightarrow> phase) \<Rightarrow> bool" where
  initial: "locks_reach (new_manager timeouts) (\<lambda>_. Outside)"
| call: "locks_reach m ph \<Longrightarrow> ph t = Outside \<Longrightarrow> locks_reach m (ph(t := Getting [] (sorted_keys keys)))"
| advance: "locks_reach m ph \<Longrightarrow> lock_call_step t start now m (ph t) = Inr (m', p) \<Longrightarrow>
     locks_reach m' (ph(t := p))"
| wait_timeout: "locks_reach m ph \<Longrightarrow> ph t = Queued acq k l ks began \<Longrightarrow>
     locks_reach (m\<lparr>rm_heap := (rm_heap m)(l := (rm_heap m l)\<lparr>fl_awake := insert t (fl_awake (rm_heap m l))\<rparr>)\<rparr>) ph"

section \<open>The invariant\<close>

text \<open>What a thread has to do with one key; in a well-formed phase it is exactly one thing.\<close>

datatype role = No_Role | Ready nat | Waits nat | Gave_Up | Holds

fun phase_ok :: "phase \<Rightarrow> bool" where
  "phase_ok Outside \<longleftrightarrow> True"
| "phase_ok (Getting acq todo) \<longleftrightarrow> sorted (acq @ todo) \<and> distinct (acq @ todo)"
| "phase_ok (Trying acq k l todo) \<longleftrightarrow> sorted (acq @ k # todo) \<and> distinct (acq @ k # todo)"
| "phase_ok (Queued acq k l todo b) \<longleftrightarrow> sorted (acq @ k # todo) \<and> distinct (acq @ k # todo)"
| "phase_ok (Undoing acq k) \<longleftrightarrow> distinct (acq @ [k])"
| "phase_ok (Inside acq) \<longleftrightarrow> distinct acq"
| "phase_ok (Leaving ks) \<longleftrightarrow> distinct ks"

fun role_of :: "phase \<Rightarrow> str \<Rightarrow> role" where
  "role_of Outside key = No_Role"
| "role_of (Getting acq todo) key = (if key \<in> set acq then Holds else No_Role)"
| "role_of (Trying acq k l todo) key =
     (if key \<in> set acq then Holds else if key = k then Ready l else No_Role)"
| "role_of (Queued acq k l todo b) key =
     (if key \<in> set acq then Holds else if key = k then Waits l else No_Role)"
| "role_of (Undoing acq k) key = (if key \<in> set acq then Holds else if key = k then Gave_Up else No_Role)"
| "role_of (Inside acq) key = (if key \<in> set acq then Holds else No_Role)"
| "role_of (Leaving ks) key = (if key \<in> set ks then Holds else No_Role)"

fun role_lock :: "role \<Rightarrow> nat option" where
  "role_lock (Ready l) = Some l"
| "role_lock (Waits l) = Some l"
| "role_lock _ = None"

definition users :: "('t \<Rightarrow> role) \<Rightarrow> 't set" where
  "users R = {t. R t \<noteq> No_Role}"

definition lock_ok :: "'t fifo \<Rightarrow> nat \<Rightarrow> ('t \<Rightarrow> role) \<Rightarrow> bool" where
  "lock_ok f l R \<longleftrightarrow>
     fifo_inv f \<and> (fl_owner f \<noteq> None \<longrightarrow> fl_count f = 1) \<and>
     (\<forall>t. fl_owner f = Some t \<longleftrightarrow> R t = Holds) \<and>
     (\<forall>t. t \<in> set (fl_waiters f) \<longleftrightarrow> R t = Waits l) \<and>
     (\<forall>t. role_lock (R t) = None \<or> role_lock (R t) = Some l)"

text \<open>
  The state of one key: not in the tables and nobody uses it, or in both, with the number of its
  users as the reference count and a lock whose owner and queue are the threads' roles.
\<close>

definition key_ok :: "'t lock_manager \<Rightarrow> ('t \<Rightarrow> role) \<Rightarrow> str \<Rightarrow> bool" where
  "key_ok m R key \<longleftrightarrow> finite (users R) \<and>
     (case dict_get (rm_locks m) key of
        None \<Rightarrow> dict_get (rm_refcounts m) key = None \<and> users R = {}
      | Some l \<Rightarrow> l < rm_next m \<and> users R \<noteq> {} \<and>
          dict_get (rm_refcounts m) key = Some (int (card (users R))) \<and>
          lock_ok (rm_heap m l) l R)"

definition locks_distinct :: "'t lock_manager \<Rightarrow> bool" where
  "locks_distinct m \<longleftrightarrow> (\<forall>k k' l. dict_get (rm_locks m) k = Some l \<and> dict_get (rm_locks m) k' = Some l \<longrightarrow> k = k')"

definition manager_ok :: "'t lock_manager \<Rightarrow> ('t \<Rightarrow> phase) \<Rightarrow> bool" where
  "manager_ok m ph \<longleftrightarrow> finite {t. ph t \<noteq> Outside} \<and> (\<forall>t. phase_ok (ph t)) \<and> locks_distinct m \<and>
     (\<forall>key. key_ok m (\<lambda>t. role_of (ph t) key) key)"

lemma key_frame:
  assumes "key_ok m R key" "dict_get (rm_locks m') key = dict_get (rm_locks m) key"
    "dict_get (rm_refcounts m') key = dict_get (rm_refcounts m) key" "rm_next m \<le> rm_next m'"
    "\<And>l. dict_get (rm_locks m) key = Some l \<Longrightarrow> rm_heap m' l = rm_heap m l"
  shows "key_ok m' R key"
  using assms unfolding key_ok_def by (fastforce split: option.splits)

lemma finite_users: "key_ok m R key \<Longrightarrow> finite (users R)"
  by (simp add: key_ok_def)

lemma users_upd:
  "r \<noteq> No_Role \<Longrightarrow> users (R(t := r)) = insert t (users R)"
  "users (R(t := No_Role)) = users R - {t}"
  by (auto simp: users_def)

lemma users_upd_same: "r \<noteq> No_Role \<Longrightarrow> R t \<noteq> No_Role \<Longrightarrow> users (R(t := r)) = users R"
  by (auto simp: users_def)

lemma in_users: "t \<in> users R \<longleftrightarrow> R t \<noteq> No_Role"
  by (simp add: users_def)

lemma key_ok_user:
  assumes "key_ok m R key" "R t \<noteq> No_Role"
  obtains l where "dict_get (rm_locks m) key = Some l" "l < rm_next m"
    "dict_get (rm_refcounts m) key = Some (int (card (users R)))" "lock_ok (rm_heap m l) l R"
  using assms unfolding key_ok_def by (cases "dict_get (rm_locks m) key") (auto simp: users_def)

lemma key_ok_get:
  assumes ok: "key_ok m R key" and R: "R t = No_Role" and g: "get_lock key m = (l, m')"
  shows "key_ok m' (R(t := Ready l)) key"
proof (cases "dict_get (rm_locks m) key")
  case None
  then have "users R = {}" "dict_get (rm_refcounts m) key = None"
    using ok by (auto simp: key_ok_def)
  moreover from this(1) have "R x = No_Role" for x by (auto simp: users_def)
  ultimately show ?thesis using g None
    by (auto simp: get_lock_def Let_def key_ok_def lock_ok_def fifo_inv_def fifo_new_def users_upd)
next
  case (Some l0)
  then have *: "l0 < rm_next m" "dict_get (rm_refcounts m) key = Some (int (card (users R)))"
    "lock_ok (rm_heap m l0) l0 R" "finite (users R)"
    using ok by (auto simp: key_ok_def)
  have g': "l = l0" "rm_locks m' = rm_locks m" "rm_heap m' = rm_heap m" "rm_next m' = rm_next m"
    "dict_get (rm_refcounts m') key = Some (int (card (users R)) + 1)"
    using g Some *(2) by (auto simp: get_lock_def)
  have "card (insert t (users R)) = card (users R) + 1"
    using *(4) R by (simp add: in_users)
  moreover have "lock_ok (rm_heap m l0) l0 (R(t := Ready l0))"
    using *(3) R by (auto simp: lock_ok_def split: if_splits)
  ultimately show ?thesis using * g' Some
    by (simp add: key_ok_def users_upd)
qed

text \<open>The role of a thread after an attempt on the lock of the key.\<close>

definition role_after :: "nat \<Rightarrow> acquire_result \<Rightarrow> role" where
  "role_after l r = (case r of Acquired \<Rightarrow> Holds | Refused \<Rightarrow> Gave_Up | Sleeping \<Rightarrow> Waits l)"

lemma acquire_pass_cases:
  assumes st: "acquire_pass t timeout start now f = (r, f')" and ws: "fl_waiters f = w # ws"
  obtains (take) "w = t" "fl_owner f = None" "r = Acquired" "fl_waiters f' = ws"
      "fl_owner f' = Some t" "fl_count f' = 1"
    | (fail) "r = Refused" "fl_waiters f' = remove1 t (w # ws)" "fl_owner f' = fl_owner f"
      "fl_count f' = fl_count f"
    | (sleep) "r = Sleeping" "fl_waiters f' = w # ws" "fl_owner f' = fl_owner f"
      "fl_count f' = fl_count f"
proof (cases "w = t \<and> fl_owner f = None")
  case True
  with st ws have "r = Acquired" "f' = f\<lparr>fl_waiters := ws, fl_owner := Some t, fl_count := 1,
      fl_awake := fl_awake f - {t}\<rparr>" by (simp_all add: acquire_pass_def)
  with True show ?thesis by (intro take) simp_all
next
  case False
  show ?thesis
  proof (cases "timeout_expired timeout start now")
    case True
    have "acquire_pass t timeout start now f = (Refused, f\<lparr>fl_waiters := remove1 t (w # ws),
        fl_awake := fl_awake f - {t}\<rparr>)"
      by (simp only: acquire_pass_def ws list.case if_not_P[OF False] if_P[OF True])
    with st have "r = Refused" "f' = f\<lparr>fl_waiters := remove1 t (w # ws), fl_awake := fl_awake f - {t}\<rparr>"
      by (simp_all only: prod.inject)
    then show ?thesis by (intro fail) simp_all
  next
    case not_expired: False
    have "acquire_pass t timeout start now f = (Sleeping, f\<lparr>fl_awake := fl_awake f - {t}\<rparr>)"
      by (simp only: acquire_pass_def ws list.case if_not_P[OF False] if_not_P[OF not_expired])
    with st have "r = Sleeping" "f' = f\<lparr>fl_awake := fl_awake f - {t}\<rparr>"
      by (simp_all only: prod.inject)
    then show ?thesis using ws by (intro sleep) simp_all
  qed
qed

lemma lock_ok_pass:
  assumes ok: "lock_ok f l R" and R: "R t = Waits l"
    and st: "acquire_pass t timeout start now f = (r, f')"
  shows "lock_ok f' l (R(t := role_after l r))"
proof -
  have t: "t \<in> set (fl_waiters f)" using ok R by (simp add: lock_ok_def)
  have inv: "fifo_inv f" using ok by (simp add: lock_ok_def)
  have inv': "fifo_inv f'" by (rule fifo_inv_pass[OF inv t st])
  obtain w ws where ws: "fl_waiters f = w # ws" using t by (cases "fl_waiters f") auto
  have d: "distinct (w # ws)" using inv ws by (simp add: fifo_inv_def)
  from st ws show ?thesis
  proof (cases rule: acquire_pass_cases)
    case take
    show ?thesis unfolding lock_ok_def
    proof (intro conjI allI impI)
      fix x
      have "R x \<noteq> Holds" using ok take(2) by (simp add: lock_ok_def)
      then show "(fl_owner f' = Some x) = ((R(t := role_after l r)) x = Holds)"
        using take by (auto simp: role_after_def)
      have "(x \<in> set (w # ws)) = (R x = Waits l)" using ok ws by (metis lock_ok_def)
      then show "(x \<in> set (fl_waiters f')) = ((R(t := role_after l r)) x = Waits l)"
        using take d by (auto simp: role_after_def)
      show "role_lock ((R(t := role_after l r)) x) = None \<or> role_lock ((R(t := role_after l r)) x) = Some l"
        using ok take(3) by (simp add: lock_ok_def role_after_def)
    qed (use inv' take in auto)
  next
    case fail
    then show ?thesis using ok R inv' d ws
      by (auto simp: lock_ok_def role_after_def)
  next
    case sleep
    then show ?thesis using ok R inv' ws
      by (auto simp: lock_ok_def role_after_def fun_upd_idem)
  qed
qed

lemma lock_ok_acquire:
  assumes ok: "lock_ok f l R" and R: "R t = Ready l"
    and st: "fifo_acquire t True timeout start now f = (r, f')"
  shows "lock_ok f' l (R(t := role_after l r))"
proof -
  have t: "t \<notin> set (fl_waiters f)" and own: "fl_owner f \<noteq> Some t"
    using ok R by (simp_all add: lock_ok_def)
  have inv: "fifo_inv f" using ok by (simp add: lock_ok_def)
  have inv': "fifo_inv f'" by (rule fifo_inv_acquire[OF inv t st])
  show ?thesis
  proof (cases "fl_owner f = None \<and> fl_waiters f = []")
    case True
    then have eq: "r = Acquired" "f' = f\<lparr>fl_owner := Some t, fl_count := 1\<rparr>"
      using st by (auto simp: fifo_acquire_def)
    show ?thesis using ok R inv' True unfolding eq by (auto simp: lock_ok_def role_after_def)
  next
    case False
    define f1 where "f1 = f\<lparr>fl_waiters := fl_waiters f @ [t]\<rparr>"
    have st1: "acquire_pass t timeout start now f1 = (r, f')"
      using st own False by (auto simp: fifo_acquire_def f1_def)
    have "fifo_inv f1" using inv t own False
      by (cases "fl_waiters f") (auto simp: fifo_inv_def f1_def)
    then have "lock_ok f1 l (R(t := Waits l))"
      using ok R own t by (auto simp: lock_ok_def f1_def)
    from lock_ok_pass[OF this _ st1] show ?thesis by simp
  qed
qed

lemma lock_ok_release:
  assumes ok: "lock_ok f l R" and R: "R t = Holds"
  shows "\<exists>f'. fifo_release t f = Inr f' \<and> lock_ok f' l (R(t := No_Role))"
proof -
  have own: "fl_owner f = Some t" and inv: "fifo_inv f" and c: "fl_count f = 1"
    using ok R by (auto simp: lock_ok_def)
  then have "fifo_release t f = Inr (notify_front (f\<lparr>fl_count := 0, fl_owner := None\<rparr>))"
    by (simp add: fifo_release_def)
  moreover from this have "fifo_inv (notify_front (f\<lparr>fl_count := 0, fl_owner := None\<rparr>))"
    by (rule fifo_inv_release[OF inv])
  moreover have "R x = Holds \<longleftrightarrow> x = t" for x using ok own R by (auto simp: lock_ok_def)
  moreover have "t \<notin> set (fl_waiters f)" using ok R by (simp add: lock_ok_def)
  ultimately show ?thesis using ok R
    by (auto simp: lock_ok_def notify_front_def split: list.splits)
qed

lemma lock_ok_leave: "lock_ok f l R \<Longrightarrow> R t = Gave_Up \<Longrightarrow> lock_ok f l (R(t := No_Role))"
  by (auto simp: lock_ok_def)

lemma lock_ok_timeout:
  "lock_ok f l R \<Longrightarrow> R t = Waits l \<Longrightarrow> lock_ok (f\<lparr>fl_awake := insert t (fl_awake f)\<rparr>) l R"
  by (auto simp: lock_ok_def fifo_inv_def)

text \<open>An attempt on the lock of the key keeps the tables and the set of users.\<close>

lemma key_ok_heap:
  assumes ok: "key_ok m R key" and l: "dict_get (rm_locks m) key = Some l"
    and f: "lock_ok f l (R(t := r))" and r: "r \<noteq> No_Role" "R t \<noteq> No_Role"
  shows "key_ok (m\<lparr>rm_heap := (rm_heap m)(l := f)\<rparr>) (R(t := r)) key"
  using ok l f users_upd_same[of r R t, OF r] by (simp add: key_ok_def)

lemma drop_reference_ok:
  assumes fin: "finite (users R)" and t: "R t \<noteq> No_Role" and l: "dict_get (rm_locks m) key = Some l"
    "l < rm_next m" and refs: "dict_get (rm_refcounts m) key = Some (int (card (users R)))"
    and ok: "lock_ok (rm_heap m l) l (R(t := No_Role))"
  shows "\<exists>m'. drop_reference key m = Inr m' \<and> key_ok m' (R(t := No_Role)) key \<and>
    rm_heap m' = rm_heap m \<and> rm_next m' = rm_next m \<and>
    (\<forall>k. k \<noteq> key \<longrightarrow> dict_get (rm_locks m') k = dict_get (rm_locks m) k \<and>
       dict_get (rm_refcounts m') k = dict_get (rm_refcounts m) k) \<and>
    (\<forall>k l. dict_get (rm_locks m') k = Some l \<longrightarrow> dict_get (rm_locks m) k = Some l)"
proof -
  let ?n = "card (users R)"
  have mem: "t \<in> users R" using t by (simp add: in_users)
  have pos: "?n > 0" using mem fin by (auto simp: card_gt_0_iff)
  have n': "card (users (R(t := No_Role))) = ?n - 1" using mem by (simp add: users_upd)
  have fin': "finite (users (R(t := No_Role)))" using fin by (simp add: users_upd)
  show ?thesis
  proof (cases "?n = 1")
    case True
    then have none: "users (R(t := No_Role)) = {}" using n' fin' by simp
    then have "(R(t := No_Role)) x = No_Role" for x by (auto simp: users_def)
    then have "fl_owner (rm_heap m l) \<noteq> Some x" for x using ok by (simp add: lock_ok_def)
    then have "\<not> fifo_locked (rm_heap m l)" by (simp add: fifo_locked_def)
    then show ?thesis using l refs True none
      by (auto simp: drop_reference_def key_ok_def)
  next
    case False
    then have "card (users (R(t := No_Role))) \<noteq> 0" using n' pos by linarith
    then have "users (R(t := No_Role)) \<noteq> {}" by (metis card.empty)
    define q where "q = int ?n - 1"
    have q: "q \<noteq> 0" "q = int (card (users (R(t := No_Role))))"
      using False pos n' unfolding q_def by auto
    define m1 where "m1 = m\<lparr>rm_refcounts := dict_put key q (rm_refcounts m)\<rparr>"
    have "drop_reference key m = Inr m1"
      using refs q(1) by (simp add: drop_reference_def m1_def Let_def flip: q_def)
    moreover have "key_ok m1 (R(t := No_Role)) key"
      using l ok fin' \<open>users (R(t := No_Role)) \<noteq> {}\<close> q(2) by (simp add: key_ok_def m1_def)
    ultimately show ?thesis by (auto simp: m1_def)
  qed
qed

section \<open>Every step keeps the invariant and none fails\<close>

lemma fun_upd_role: "(\<lambda>x. role_of ((ph(t := p)) x) key) = (\<lambda>x. role_of (ph x) key)(t := role_of p key)"
  by auto

lemma manager_ok_upd:
  assumes ok: "manager_ok m ph" and p: "phase_ok p"
    and roles: "\<And>key. key \<noteq> k \<Longrightarrow> role_of p key = role_of (ph t) key"
    and tabs: "\<And>key. key \<noteq> k \<Longrightarrow> dict_get (rm_locks m') key = dict_get (rm_locks m) key \<and>
       dict_get (rm_refcounts m') key = dict_get (rm_refcounts m) key"
    and nxt: "rm_next m \<le> rm_next m'"
    and heap: "\<And>key l. key \<noteq> k \<Longrightarrow> dict_get (rm_locks m) key = Some l \<Longrightarrow> rm_heap m' l = rm_heap m l"
    and own: "key_ok m' ((\<lambda>x. role_of (ph x) k)(t := role_of p k)) k"
    and dist: "locks_distinct m'"
  shows "manager_ok m' (ph(t := p))"
  unfolding manager_ok_def
proof (intro conjI allI)
  have "{x. (ph(t := p)) x \<noteq> Outside} \<subseteq> insert t {x. ph x \<noteq> Outside}" by auto
  moreover have "finite (insert t {x. ph x \<noteq> Outside})" using ok by (simp add: manager_ok_def)
  ultimately show "finite {x. (ph(t := p)) x \<noteq> Outside}" by (rule finite_subset)
next
  fix x show "phase_ok ((ph(t := p)) x)" using ok p by (simp add: manager_ok_def)
next
  fix key
  show "key_ok m' (\<lambda>x. role_of ((ph(t := p)) x) key) key"
  proof (cases "key = k")
    case True
    then show ?thesis using own by (simp only: fun_upd_role)
  next
    case False
    have eq: "(\<lambda>x. role_of ((ph(t := p)) x) key) = (\<lambda>x. role_of (ph x) key)"
      using roles[OF False] by (simp only: fun_upd_role fun_upd_idem)
    have k0: "key_ok m (\<lambda>x. role_of (ph x) key) key" using ok by (simp add: manager_ok_def)
    show ?thesis unfolding eq
      by (rule key_frame[OF k0]) (use tabs[OF False] nxt heap[OF False] in auto)
  qed
qed (rule dist)

text \<open>A phase change that keeps every role needs no change of the manager.\<close>

lemma manager_ok_same:
  assumes ok: "manager_ok m ph" and "phase_ok p" "\<And>key. role_of p key = role_of (ph t) key"
  shows "manager_ok m (ph(t := p))"
proof (rule manager_ok_upd[OF ok, where k = "''''"])
  have "(\<lambda>x. role_of (ph x) '''')(t := role_of p '''') = (\<lambda>x. role_of (ph x) '''')"
    using assms(3) by (simp add: fun_upd_idem)
  then show "key_ok m ((\<lambda>x. role_of (ph x) '''')(t := role_of p '''')) ''''"
    using ok by (simp add: manager_ok_def)
qed (use assms in \<open>auto simp: manager_ok_def\<close>)

lemma key_of_ok: "manager_ok m ph \<Longrightarrow> key_ok m (\<lambda>x. role_of (ph x) k) k"
  by (simp add: manager_ok_def)

lemma lock_id_bound: "manager_ok m ph \<Longrightarrow> dict_get (rm_locks m) k = Some l \<Longrightarrow> l < rm_next m"
  using key_of_ok[of m ph k] by (simp add: key_ok_def)

lemma manager_ok_get:
  assumes ok: "manager_ok m ph" and ph: "ph t = Getting acq (k # ks)" and g: "get_lock k m = (l, m')"
  shows "manager_ok m' (ph(t := Trying acq k l ks))"
proof (rule manager_ok_upd[OF ok, where k = k])
  have p: "phase_ok (Getting acq (k # ks))" using ok ph by (metis manager_ok_def)
  then show "phase_ok (Trying acq k l ks)" by simp
  have notin: "k \<notin> set acq" using p by simp
  then have "role_of (ph t) k = No_Role" using ph by simp
  then have "key_ok m' ((\<lambda>x. role_of (ph x) k)(t := Ready l)) k"
    by (rule key_ok_get[OF key_of_ok[OF ok] _ g])
  then show "key_ok m' ((\<lambda>x. role_of (ph x) k)(t := role_of (Trying acq k l ks) k)) k"
    using notin by simp
  show "rm_next m \<le> rm_next m'"
    using g by (auto simp: get_lock_def Let_def split: option.splits)
  show "locks_distinct m'"
    using g ok lock_id_bound[OF ok]
    by (fastforce simp: get_lock_def Let_def locks_distinct_def manager_ok_def split: option.splits if_splits)
next
  fix key assume "key \<noteq> k"
  then show "role_of (Trying acq k l ks) key = role_of (ph t) key" using ph by simp
  show "dict_get (rm_locks m') key = dict_get (rm_locks m) key \<and>
       dict_get (rm_refcounts m') key = dict_get (rm_refcounts m) key"
    using g \<open>key \<noteq> k\<close> by (auto simp: get_lock_def Let_def split: option.splits)
  fix l' assume "dict_get (rm_locks m) key = Some l'"
  then have "l' \<noteq> rm_next m" using lock_id_bound[OF ok] by fastforce
  then show "rm_heap m' l' = rm_heap m l'"
    using g by (auto simp: get_lock_def Let_def split: option.splits)
qed

text \<open>An attempt on the lock of \<open>k\<close>, from \<^const>\<open>Trying\<close> or from \<^const>\<open>Queued\<close>.\<close>

lemma role_after_acquire:
  "k \<notin> set acq \<Longrightarrow> role_of (after_acquire acq k l ks b r) k = role_after l r"
  "key \<noteq> k \<Longrightarrow> role_of (after_acquire acq k l ks b r) key = (if key \<in> set acq then Holds else No_Role)"
  by (auto simp: after_acquire_def role_after_def split: acquire_result.splits)

lemma role_after_neq [simp]: "role_after l r \<noteq> No_Role"
  by (simp add: role_after_def split: acquire_result.splits)

lemma phase_after_acquire:
  "sorted (acq @ k # ks) \<Longrightarrow> distinct (acq @ k # ks) \<Longrightarrow> phase_ok (after_acquire acq k l ks b r)"
  by (cases r) (auto simp: after_acquire_def)

lemma manager_ok_attempt:
  assumes ok: "manager_ok m ph" and l: "dict_get (rm_locks m) k = Some l"
    and d: "sorted (acq @ k # ks)" "distinct (acq @ k # ks)"
    and rt: "role_of (ph t) k \<noteq> No_Role" "\<And>key. key \<noteq> k \<Longrightarrow> role_of (ph t) key = (if key \<in> set acq then Holds else No_Role)"
    and f: "lock_ok f l ((\<lambda>x. role_of (ph x) k)(t := role_after l r))"
  shows "manager_ok (m\<lparr>rm_heap := (rm_heap m)(l := f)\<rparr>) (ph(t := after_acquire acq k l ks b r))"
proof (rule manager_ok_upd[OF ok, where k = k])
  have nk: "k \<notin> set acq" using d by simp
  show "key_ok (m\<lparr>rm_heap := (rm_heap m)(l := f)\<rparr>)
      ((\<lambda>x. role_of (ph x) k)(t := role_of (after_acquire acq k l ks b r) k)) k"
    unfolding role_after_acquire(1)[OF nk]
    by (rule key_ok_heap[OF key_of_ok[OF ok] l f]) (use rt in simp_all)
next
  fix key l' assume "key \<noteq> k" "dict_get (rm_locks m) key = Some l'"
  then have "l' \<noteq> l" using ok l by (auto simp: manager_ok_def locks_distinct_def)
  then show "rm_heap (m\<lparr>rm_heap := (rm_heap m)(l := f)\<rparr>) l' = rm_heap m l'" by simp
next
  show "locks_distinct (m\<lparr>rm_heap := (rm_heap m)(l := f)\<rparr>)"
    using ok by (simp add: manager_ok_def locks_distinct_def)
qed (use d rt in \<open>auto simp: role_after_acquire(2) phase_after_acquire simp del: phase_ok.simps\<close>)

lemma object_in_table:
  assumes ok: "manager_ok m ph" and "role_lock (role_of (ph t) k) = Some l"
  shows "dict_get (rm_locks m) k = Some l" "lock_ok (rm_heap m l) l (\<lambda>x. role_of (ph x) k)"
proof -
  have "role_of (ph t) k \<noteq> No_Role" using assms(2) by auto
  then obtain l' where l': "dict_get (rm_locks m) k = Some l'"
    "lock_ok (rm_heap m l') l' (\<lambda>x. role_of (ph x) k)"
    using key_ok_user[OF key_of_ok[OF ok], of t k] by blast
  then have "role_lock (role_of (ph t) k) = None \<or> role_lock (role_of (ph t) k) = Some l'"
    by (simp add: lock_ok_def)
  then have "l' = l" using assms(2) by simp
  with l' show "dict_get (rm_locks m) k = Some l" "lock_ok (rm_heap m l) l (\<lambda>x. role_of (ph x) k)" by simp_all
qed

text \<open>Giving up one reference: the failure branch and the \<open>finally\<close> loop.\<close>

lemma manager_ok_drop:
  assumes ok: "manager_ok m ph" and rt: "role_of (ph t) k \<noteq> No_Role" and p: "phase_ok p" "role_of p k = No_Role"
    and ro: "\<And>key. key \<noteq> k \<Longrightarrow> role_of p key = role_of (ph t) key"
    and l: "dict_get (rm_locks m) k = Some l"
    and f: "lock_ok f l ((\<lambda>x. role_of (ph x) k)(t := No_Role))"
  shows "\<exists>m'. drop_reference k (m\<lparr>rm_heap := (rm_heap m)(l := f)\<rparr>) = Inr m' \<and> manager_ok m' (ph(t := p))"
proof -
  let ?R = "\<lambda>x. role_of (ph x) k" and ?m = "m\<lparr>rm_heap := (rm_heap m)(l := f)\<rparr>"
  have k: "key_ok m ?R k" by (rule key_of_ok[OF ok])
  have "finite (users ?R)" "l < rm_next ?m" "dict_get (rm_refcounts ?m) k = Some (int (card (users ?R)))"
    using k l by (simp_all add: key_ok_def)
  moreover have "lock_ok (rm_heap ?m l) l (?R(t := No_Role))" using f by simp
  moreover have "dict_get (rm_locks ?m) k = Some l" using l by simp
  ultimately obtain m' where m': "drop_reference k ?m = Inr m'" "key_ok m' (?R(t := No_Role)) k"
    "rm_heap m' = rm_heap ?m" "rm_next m' = rm_next ?m"
    "\<forall>k'. k' \<noteq> k \<longrightarrow> dict_get (rm_locks m') k' = dict_get (rm_locks ?m) k' \<and>
       dict_get (rm_refcounts m') k' = dict_get (rm_refcounts ?m) k'"
    "\<forall>k l. dict_get (rm_locks m') k = Some l \<longrightarrow> dict_get (rm_locks ?m) k = Some l"
    using drop_reference_ok[of ?R t ?m k l] rt by blast
  have "manager_ok m' (ph(t := p))"
  proof (rule manager_ok_upd[OF ok p(1), where k = k])
    show "key_ok m' (?R(t := role_of p k)) k" using m'(2) p(2) by simp
    show "locks_distinct m'" using m'(6) ok unfolding manager_ok_def locks_distinct_def
      by (metis lock_manager.select_convs(1) lock_manager.surjective lock_manager.update_convs(4))
  next
    fix key l' assume "key \<noteq> k" "dict_get (rm_locks m) key = Some l'"
    then have "l' \<noteq> l" using ok l by (auto simp: manager_ok_def locks_distinct_def)
    then show "rm_heap m' l' = rm_heap m l'" using m'(3) by simp
  next
    fix key assume "key \<noteq> k"
    then show "role_of p key = role_of (ph t) key" by (rule ro)
    show "dict_get (rm_locks m') key = dict_get (rm_locks m) key \<and>
       dict_get (rm_refcounts m') key = dict_get (rm_refcounts m) key"
      using m'(5) \<open>key \<noteq> k\<close> by simp
  next
    show "rm_next m \<le> rm_next m'" using m'(4) by simp
  qed
  with m'(1) show ?thesis by blast
qed

lemma step_ok:
  assumes ok: "manager_ok m ph"
  shows "\<exists>m' p. lock_call_step t start now m (ph t) = Inr (m', p) \<and> manager_ok m' (ph(t := p))"
proof -
  have pt: "phase_ok (ph t)" using ok by (simp add: manager_ok_def)
  show ?thesis
  proof (cases "ph t")
    case Outside
    then have "ph(t := Outside) = ph" by auto
    then show ?thesis using ok Outside by auto
  next
    case (Getting acq todo)
    show ?thesis
    proof (cases todo)
      case Nil
      have "manager_ok m (ph(t := Inside acq))"
        by (rule manager_ok_same[OF ok]) (use Getting Nil pt in auto)
      then show ?thesis using Getting Nil by simp
    next
      case (Cons k ks)
      obtain l m' where g: "get_lock k m = (l, m')" by (cases "get_lock k m")
      have "ph t = Getting acq (k # ks)" using Getting Cons by simp
      from manager_ok_get[OF ok this g] show ?thesis using Getting Cons g by simp
    qed
  next
    case (Trying acq k l ks)
    have d: "sorted (acq @ k # ks)" "distinct (acq @ k # ks)" using pt Trying by simp_all
    have nk: "k \<notin> set acq" using d(2) by simp
    have r: "role_of (ph t) k = Ready l" using Trying nk by simp
    have tab: "dict_get (rm_locks m) k = Some l" "lock_ok (rm_heap m l) l (\<lambda>x. role_of (ph x) k)"
      using object_in_table[OF ok, of t k l] r by simp_all
    obtain r' f where a: "fifo_acquire t True (get_timeout k m) start now (rm_heap m l) = (r', f)"
      by (cases "fifo_acquire t True (get_timeout k m) start now (rm_heap m l)")
    have "lock_ok f l ((\<lambda>x. role_of (ph x) k)(t := role_after l r'))"
      by (rule lock_ok_acquire[OF tab(2) _ a]) (rule r)
    from manager_ok_attempt[OF ok tab(1) d _ _ this, of start] show ?thesis
      using Trying a r by auto
  next
    case (Queued acq k l ks b)
    have d: "sorted (acq @ k # ks)" "distinct (acq @ k # ks)" using pt Queued by simp_all
    have nk: "k \<notin> set acq" using d(2) by simp
    have r: "role_of (ph t) k = Waits l" using Queued nk by simp
    have tab: "dict_get (rm_locks m) k = Some l" "lock_ok (rm_heap m l) l (\<lambda>x. role_of (ph x) k)"
      using object_in_table[OF ok, of t k l] r by simp_all
    show ?thesis
    proof (cases "t \<in> fl_awake (rm_heap m l)")
      case True
      obtain r' f where a: "acquire_pass t (get_timeout k m) b now (rm_heap m l) = (r', f)"
        by (cases "acquire_pass t (get_timeout k m) b now (rm_heap m l)")
      have "lock_ok f l ((\<lambda>x. role_of (ph x) k)(t := role_after l r'))"
        by (rule lock_ok_pass[OF tab(2) _ a]) (rule r)
      from manager_ok_attempt[OF ok tab(1) d _ _ this, of b] show ?thesis
        using Queued a r True by auto
    next
      case False
      then have "ph(t := ph t) = ph" by auto
      then show ?thesis using ok Queued False by (auto simp: fun_upd_idem)
    qed
  next
    case (Undoing acq k)
    have nk: "k \<notin> set acq" using pt Undoing by simp
    have r: "role_of (ph t) k = Gave_Up" using Undoing nk by simp
    obtain l where l: "dict_get (rm_locks m) k = Some l" "lock_ok (rm_heap m l) l (\<lambda>x. role_of (ph x) k)"
      using key_ok_user[OF key_of_ok[OF ok], of t k] r by auto
    have "lock_ok (rm_heap m l) l ((\<lambda>x. role_of (ph x) k)(t := No_Role))"
      by (rule lock_ok_leave[OF l(2)]) (rule r)
    then have "\<exists>m'. drop_reference k (m\<lparr>rm_heap := (rm_heap m)(l := rm_heap m l)\<rparr>) = Inr m' \<and>
        manager_ok m' (ph(t := Leaving (rev acq)))"
      by (intro manager_ok_drop[OF ok _ _ _ _ l(1)]) (use r Undoing nk pt in auto)
    then show ?thesis using Undoing by auto
  next
    case (Inside acq)
    have "manager_ok m (ph(t := Leaving (rev acq)))"
      by (rule manager_ok_same[OF ok]) (use Inside pt in auto)
    then show ?thesis using Inside by simp
  next
    case (Leaving ks)
    show ?thesis
    proof (cases ks)
      case Nil
      have "manager_ok m (ph(t := Outside))"
        by (rule manager_ok_same[OF ok]) (use Leaving Nil in auto)
      then show ?thesis using Leaving Nil by simp
    next
      case (Cons k ks')
      have nk: "k \<notin> set ks'" "distinct ks'" using pt Leaving Cons by simp_all
      have r: "role_of (ph t) k = Holds" using Leaving Cons by simp
      obtain l where l: "dict_get (rm_locks m) k = Some l" "lock_ok (rm_heap m l) l (\<lambda>x. role_of (ph x) k)"
        using key_ok_user[OF key_of_ok[OF ok], of t k] r by auto
      obtain f where f: "fifo_release t (rm_heap m l) = Inr f" "lock_ok f l ((\<lambda>x. role_of (ph x) k)(t := No_Role))"
        using lock_ok_release[OF l(2), of t] r by blast
      have "\<exists>m'. drop_reference k (m\<lparr>rm_heap := (rm_heap m)(l := f)\<rparr>) = Inr m' \<and>
          manager_ok m' (ph(t := Leaving ks'))"
        by (rule manager_ok_drop[OF ok _ _ _ _ l(1) f(2)]) (use r nk Leaving Cons in auto)
      then show ?thesis using Leaving Cons l f by (auto simp: release_lock_def)
    qed
  qed
qed

lemma reach_ok: "locks_reach m ph \<Longrightarrow> manager_ok m ph"
proof (induction rule: locks_reach.induct)
  case (initial timeouts)
  have "users (\<lambda>t. No_Role) = {}" by (simp add: users_def)
  then show ?case
    by (auto simp: manager_ok_def new_manager_def locks_distinct_def key_ok_def)
next
  case (call m ph t keys)
  have "sorted (sorted_keys keys)" "distinct (sorted_keys keys)"
    by (simp_all add: sorted_keys_def)
  then show ?case
    by (intro manager_ok_same) (use call in auto)
next
  case (advance m ph t start now m' p)
  obtain m1 p1 where "lock_call_step t start now m (ph t) = Inr (m1, p1)" "manager_ok m1 (ph(t := p1))"
    using step_ok[OF advance.IH, of t start now] by blast
  then show ?case using advance.hyps(2) by (simp add: fun_upd_def)
next
  case (wait_timeout m ph t acq k l ks b)
  let ?f = "(rm_heap m l)\<lparr>fl_awake := insert t (fl_awake (rm_heap m l))\<rparr>"
  have ok: "manager_ok m ph" by (rule wait_timeout.IH)
  have "phase_ok (ph t)" using ok by (simp add: manager_ok_def)
  then have d: "sorted (acq @ k # ks)" "distinct (acq @ k # ks)" using wait_timeout.hyps(2) by simp_all
  then have r: "role_of (ph t) k = Waits l" using wait_timeout.hyps(2) by simp
  have tab: "dict_get (rm_locks m) k = Some l" "lock_ok (rm_heap m l) l (\<lambda>x. role_of (ph x) k)"
    using object_in_table[OF ok, of t k l] r by simp_all
  have same: "(\<lambda>x. role_of (ph x) k)(t := role_after l Sleeping) = (\<lambda>x. role_of (ph x) k)"
    using r by (simp add: role_after_def fun_upd_idem)
  have "lock_ok ?f l ((\<lambda>x. role_of (ph x) k)(t := role_after l Sleeping))"
    unfolding same using lock_ok_timeout[OF tab(2), of t] r by simp
  from manager_ok_attempt[OF ok tab(1) d _ _ this, where b = b]
  have "manager_ok (m\<lparr>rm_heap := (rm_heap m)(l := ?f)\<rparr>) (ph(t := after_acquire acq k l ks b Sleeping))"
    using r wait_timeout.hyps(2) by auto
  moreover have "ph(t := after_acquire acq k l ks b Sleeping) = ph"
    using wait_timeout.hyps(2) by (auto simp: after_acquire_def)
  ultimately show ?case by simp
qed

section \<open>Queued threads\<close>

fun wanted_key :: "phase \<Rightarrow> str" where
  "wanted_key (Queued acq k l todo b) = k"
| "wanted_key _ = ''''"

lemma call_step_moves:
  assumes "ph u \<noteq> Outside" "\<And>acq k l todo b. ph u \<noteq> Queued acq k l todo b"
    and "lock_call_step u start now m (ph u) = Inr (m', p)"
  shows "p \<noteq> ph u"
proof (cases "ph u")
  case (Getting acq todo)
  then show ?thesis using assms(3) by (cases todo) (auto simp: Let_def split: prod.splits)
next
  case (Leaving ks)
  then show ?thesis using assms(3) by (cases ks) (auto simp: rbind_eq_Inr)
next
  case (Trying acq k l ks)
  then show ?thesis using assms(3)
    by (auto simp: Let_def after_acquire_def split: prod.splits acquire_result.splits)
qed (use assms in \<open>auto simp: rbind_eq_Inr\<close>)

lemma queued_role:
  assumes ok: "manager_ok m ph" and q: "ph u = Queued acq k l todo b"
  shows "role_of (ph u) k = Waits l" "\<And>key. key \<in> set acq \<Longrightarrow> key < k"
proof -
  have "phase_ok (ph u)" using ok by (simp add: manager_ok_def)
  then have d: "sorted (acq @ k # todo)" "distinct (acq @ k # todo)" using q by simp_all
  then show "role_of (ph u) k = Waits l" using q by simp
  fix key assume "key \<in> set acq"
  with d show "key < k" by (auto simp: sorted_append order_less_le)
qed

lemma queued_object:
  assumes ok: "manager_ok m ph" and q: "ph u = Queued acq k l todo b"
  shows "dict_get (rm_locks m) k = Some l"
  using object_in_table(1)[OF ok, of u k l] queued_role(1)[OF ok q] by simp

text \<open>If every thread inside a call sleeps in a queue, one of them is being served.\<close>

lemma all_queued_progress:
  assumes ok: "manager_ok m ph" and T: "T = {u. ph u \<noteq> Outside}" and ne: "T \<noteq> {}"
    and q: "\<And>u. u \<in> T \<Longrightarrow> \<exists>acq k l todo b. ph u = Queued acq k l todo b"
  shows "\<exists>u \<in> T. fifo_served u (rm_heap m (the (dict_get (rm_locks m) (wanted_key (ph u)))))"
proof -
  define lock_of where "lock_of k = rm_heap m (the (dict_get (rm_locks m) k))" for k
  have lock: "lock_ok (lock_of k) l (\<lambda>x. role_of (ph x) k)" "lock_of k = rm_heap m l"
    if "ph u = Queued acq k l todo b" for u acq k l todo b
    using object_in_table[OF ok, of u k l] queued_role(1)[OF ok that]
    by (simp_all add: lock_of_def)
  have "\<exists>u \<in> T. fifo_served u (lock_of (wanted_key (ph u)))"
  proof (rule fifo_wait.ordered_waits_progress)
    show "finite T" using ok T by (simp add: manager_ok_def)
  next
    fix u assume "u \<in> T"
    then obtain acq k l todo b where u: "ph u = Queued acq k l todo b" using q by blast
    show "fifo_inv (lock_of (wanted_key (ph u))) \<and> u \<in> set (fl_waiters (lock_of (wanted_key (ph u))))"
      using lock[OF u] queued_role(1)[OF ok u] u by (simp add: lock_ok_def)
    fix v
    { assume "v \<in> set (fl_waiters (lock_of (wanted_key (ph u))))"
      then have "role_of (ph v) k = Waits l" using lock[OF u] u by (simp add: lock_ok_def)
      then show "v \<in> T \<and> wanted_key (ph v) = wanted_key (ph u)"
        using u T by (cases "ph v") (auto split: if_splits) }
    { assume "fl_owner (lock_of (wanted_key (ph u))) = Some v"
      then have "fl_owner (lock_of k) = Some v" using u by simp
      then have r: "role_of (ph v) k = Holds" using lock(1)[OF u] unfolding lock_ok_def by blast
      then have "v \<in> T" using T by (cases "ph v") auto
      then obtain acq' k' l' todo' b' where v: "ph v = Queued acq' k' l' todo' b'" using q by blast
      then have "k \<in> set acq'" using r by (auto split: if_splits)
      then have "k < k'" by (rule queued_role(2)[OF ok v])
      then show "v \<in> T \<and> wanted_key (ph u) < wanted_key (ph v)" using \<open>v \<in> T\<close> u v by simp }
  qed (rule ne)
  then show ?thesis by (simp add: lock_of_def)
qed

lemma served_step:
  assumes s: "fifo_served u (rm_heap m l)" and q: "ph u = Queued acq k l todo b"
  shows "\<exists>m'. lock_call_step u start now m (ph u) = Inr (m', Getting (acq @ [k]) todo)"
proof -
  obtain f where "acquire_pass u (get_timeout k m) b now (rm_heap m l) = (Acquired, f)"
    using fifo_served_pass[OF s, of "get_timeout k m" b now]
    by (cases "acquire_pass u (get_timeout k m) b now (rm_heap m l)") auto
  then show ?thesis using s q by (simp add: fifo_served_def after_acquire_def)
qed

section \<open>Exclusion\<close>

text \<open>The keys whose locks the thread owns at this point of its call.\<close>

fun held_keys :: "phase \<Rightarrow> str list" where
  "held_keys (Getting acq todo) = acq"
| "held_keys (Trying acq k l todo) = acq"
| "held_keys (Queued acq k l todo b) = acq"
| "held_keys (Undoing acq k) = acq"
| "held_keys (Inside acq) = acq"
| "held_keys (Leaving ks) = ks"
| "held_keys Outside = []"

lemma role_Holds_iff: "role_of p key = Holds \<longleftrightarrow> key \<in> set (held_keys p)"
  by (cases p) auto

text \<open>
  C34: two \<open>with mgr.lock(...)\<close> bodies never run at once on a common resource. In every reachable
  state, under any interleaving of calls, waits, timeouts, failures and cleanups of the lock
  table, a key is held by at most one thread, and the lock object the table has for it is the one
  that thread owns.
\<close>

theorem resource_exclusive:
  assumes "locks_reach m ph" "key \<in> set (held_keys (ph t))"
  shows "(\<forall>u. key \<in> set (held_keys (ph u)) \<longrightarrow> u = t) \<and>
    (\<exists>l. dict_get (rm_locks m) key = Some l \<and> fifo_owned t (rm_heap m l))"
proof -
  have ok: "manager_ok m ph" by (rule reach_ok[OF assms(1)])
  have r: "role_of (ph t) key = Holds" using assms(2) by (simp add: role_Holds_iff)
  then obtain l where l: "dict_get (rm_locks m) key = Some l"
    "lock_ok (rm_heap m l) l (\<lambda>x. role_of (ph x) key)"
    using key_ok_user[OF key_of_ok[OF ok], of t key] by auto
  have own: "fl_owner (rm_heap m l) = Some x \<longleftrightarrow> key \<in> set (held_keys (ph x))" for x
    using l(2) by (simp add: lock_ok_def role_Holds_iff)
  have t: "fl_owner (rm_heap m l) = Some t" using own[of t] assms(2) by simp
  have "u = t" if "key \<in> set (held_keys (ph u))" for u using own[of u] that t by simp
  then show ?thesis using t l(1) by (auto simp: fifo_owned_def)
qed

lemma resource_exclusive_witness:
  "\<exists>m ph. locks_reach m ph \<and> ph (1::nat) = Getting [''file:/a''] [] \<and>
     (\<forall>u. ''file:/a'' \<in> set (held_keys (ph u)) \<longrightarrow> u = 1)"
proof -
  let ?k = "''file:/a''"
  let ?m0 = "new_manager None :: nat lock_manager"
  obtain l m1 where g: "get_lock ?k ?m0 = (l, m1)" by (cases "get_lock ?k ?m0")
  have l: "l = 0" "rm_heap m1 0 = fifo_new"
    using g by (auto simp: get_lock_def new_manager_def Let_def)
  have r0: "locks_reach ?m0 (\<lambda>_. Outside)" by (rule locks_reach.initial)
  have r1: "locks_reach ?m0 ((\<lambda>_. Outside)(1 := Getting [] [?k]))"
    using locks_reach.call[OF r0, of 1 "[?k]"] by (simp add: sorted_keys_def)
  have r2: "locks_reach m1 ((\<lambda>_. Outside)(1 := Trying [] ?k 0 []))"
    using locks_reach.advance[OF r1, of 1 0 0 m1 "Trying [] ?k 0 []"] g l by simp
  define f where "f = snd (fifo_acquire (1::nat) True (get_timeout ?k m1) 0 0 fifo_new)"
  have a: "fifo_acquire 1 True (get_timeout ?k m1) 0 0 fifo_new = (Acquired, f)"
    by (simp add: f_def fifo_acquire_def fifo_new_def)
  have r3: "locks_reach (m1\<lparr>rm_heap := (rm_heap m1)(0 := f)\<rparr>) ((\<lambda>_. Outside)(1 := Getting [?k] []))"
    using locks_reach.advance[OF r2, of 1 0 0 "m1\<lparr>rm_heap := (rm_heap m1)(0 := f)\<rparr>" "Getting [?k] []"] a l
    by (simp add: after_acquire_def)
  let ?ph = "(\<lambda>_. Outside)(1 := Getting [?k] [])"
  have "\<forall>u. ?k \<in> set (held_keys (?ph u)) \<longrightarrow> u = 1"
    using resource_exclusive[OF r3, of ?k 1] by simp
  with r3 show ?thesis by (intro exI[of _ "m1\<lparr>rm_heap := (rm_heap m1)(0 := f)\<rparr>"] exI[of _ ?ph]) simp
qed

section \<open>The table\<close>

text \<open>The keys a thread has a reference to: those it holds and the one it is about to take or gave up.\<close>

fun referenced_keys :: "phase \<Rightarrow> str list" where
  "referenced_keys (Trying acq k l todo) = acq @ [k]"
| "referenced_keys (Queued acq k l todo b) = acq @ [k]"
| "referenced_keys (Undoing acq k) = acq @ [k]"
| "referenced_keys p = held_keys p"

lemma role_none_iff: "role_of p key = No_Role \<longleftrightarrow> key \<notin> set (referenced_keys p)"
  by (cases p) auto

lemma dict_empty: "(\<And>k. dict_get d k = None) \<Longrightarrow> d = []"
  by (cases d) (metis list.distinct(1) map_of_eq_empty_iff ext)+

text \<open>
  The bookkeeping of the lock table is exact and no call fails on it. In every reachable state
  the reference count of a key is the number of threads that hold its lock, wait for it, are about
  to ask for it or just gave up, absent if there is none, and the table has a lock for exactly
  these keys; so when no call is under way both tables are empty again. And from every reachable
  state every atomic section of every thread succeeds: no \<open>KeyError\<close> from the tables and no
  \<open>RuntimeError\<close> from releasing a lock that is not owned.
\<close>

theorem lock_table_exact:
  assumes "locks_reach m ph"
  shows "(\<forall>key. dict_get (rm_refcounts m) key =
        (let us = {t. key \<in> set (referenced_keys (ph t))} in
         if us = {} then None else Some (int (card us)))) \<and>
    (\<forall>key. dict_get (rm_locks m) key = None \<longleftrightarrow> dict_get (rm_refcounts m) key = None) \<and>
    ((\<forall>t. ph t = Outside) \<longrightarrow> rm_locks m = [] \<and> rm_refcounts m = []) \<and>
    (\<forall>t start now. \<exists>r. lock_call_step t start now m (ph t) = Inr r)"
proof -
  have ok: "manager_ok m ph" by (rule reach_ok[OF assms])
  have us: "{t. key \<in> set (referenced_keys (ph t))} = users (\<lambda>x. role_of (ph x) key)" for key
    by (auto simp: users_def role_none_iff)
  have refs: "dict_get (rm_refcounts m) key =
      (let us = {t. key \<in> set (referenced_keys (ph t))} in
       if us = {} then None else Some (int (card us)))" for key
    using key_of_ok[OF ok, of key] unfolding us by (auto simp: key_ok_def Let_def split: option.splits)
  have dom: "dict_get (rm_locks m) key = None \<longleftrightarrow> dict_get (rm_refcounts m) key = None" for key
    using key_of_ok[OF ok, of key] by (auto simp: key_ok_def split: option.splits)
  have "rm_locks m = [] \<and> rm_refcounts m = []" if "\<forall>t. ph t = Outside"
  proof -
    have "dict_get (rm_refcounts m) key = None" for key using refs[of key] that by simp
    then show ?thesis using dom by (auto intro: dict_empty)
  qed
  then show ?thesis using refs dom step_ok[OF ok] by blast
qed

lemma lock_table_exact_witness:
  "rm_locks (new_manager None :: nat lock_manager) = [] \<and>
   (\<exists>r. lock_call_step (3::nat) 0 0 (new_manager None) Outside = Inr r)"
proof -
  have "locks_reach (new_manager None :: nat lock_manager) (\<lambda>_. Outside)" by (rule locks_reach.initial)
  from lock_table_exact[OF this] show ?thesis by simp
qed

section \<open>No deadlock\<close>

text \<open>
  C33: lock acquisition never deadlocks. In every reachable state in which a call is under way,
  whatever keys the calls asked for and in whatever order they were given, some thread inside a
  call can advance now without waiting for a timeout: its next section changes its phase, and if
  it sleeps in a queue, this section takes the lock.
\<close>

theorem lock_no_deadlock:
  assumes "locks_reach m ph" "ph t \<noteq> Outside"
  shows "\<exists>u. ph u \<noteq> Outside \<and> (\<forall>start now. \<exists>m' p. lock_call_step u start now m (ph u) = Inr (m', p) \<and>
    p \<noteq> ph u \<and> (case ph u of Queued acq k l todo b \<Rightarrow> p = Getting (acq @ [k]) todo | _ \<Rightarrow> True))"
proof -
  have ok: "manager_ok m ph" by (rule reach_ok[OF assms(1)])
  show ?thesis
  proof (cases "\<exists>u. ph u \<noteq> Outside \<and> (\<forall>acq k l todo b. ph u \<noteq> Queued acq k l todo b)")
    case True
    then obtain u where u: "ph u \<noteq> Outside" "\<And>acq k l todo b. ph u \<noteq> Queued acq k l todo b" by blast
    have "\<exists>m' p. lock_call_step u start now m (ph u) = Inr (m', p) \<and> p \<noteq> ph u" for start now
      using step_ok[OF ok, of u start now] call_step_moves[of ph u, OF u] by blast
    moreover have "(case ph u of Queued acq k l todo b \<Rightarrow> p = Getting (acq @ [k]) todo | _ \<Rightarrow> True)" for p
    proof (cases "ph u")
      case (Queued acq k l todo b)
      with u(2) show ?thesis by blast
    qed simp_all
    ultimately show ?thesis using u(1) by (intro exI[of _ u]) simp
  next
    case False
    define T where "T = {u. ph u \<noteq> Outside}"
    have "t \<in> T" using assms(2) by (simp add: T_def)
    then have "T \<noteq> {}" by blast
    from all_queued_progress[OF ok T_def this]
    obtain u where "u \<in> T" "fifo_served u (rm_heap m (the (dict_get (rm_locks m) (wanted_key (ph u)))))"
      using False unfolding T_def by blast
    moreover from this False obtain acq k l todo b where q: "ph u = Queued acq k l todo b"
      by (auto simp: T_def)
    moreover have "dict_get (rm_locks m) k = Some l" by (rule queued_object[OF ok q])
    ultimately have s: "fifo_served u (rm_heap m l)" by simp
    have "\<exists>m' p. lock_call_step u start now m (ph u) = Inr (m', p) \<and> p = Getting (acq @ [k]) todo" for start now
      using served_step[of u m l ph, OF s q] by blast
    then show ?thesis using q by (intro exI[of _ u]) auto
  qed
qed

lemma lock_no_deadlock_witness:
  "let ph = (\<lambda>_. Outside)((0::nat) := Getting [] [''a'', ''b'']) in
   locks_reach (new_manager None) ph \<and>
   (\<exists>u m' p. ph u \<noteq> Outside \<and> lock_call_step u 0 0 (new_manager None) (ph u) = Inr (m', p) \<and> p \<noteq> ph u)"
proof -
  have "locks_reach (new_manager None) ((\<lambda>_. Outside)((0::nat) := Getting [] (sorted_keys [''b'', ''a''])))"
    by (rule locks_reach.call[OF locks_reach.initial]) simp
  moreover have "sorted_keys [''b'', ''a''] = [''a'', ''b'']" by code_simp
  ultimately have r: "locks_reach (new_manager None) ((\<lambda>_. Outside)((0::nat) := Getting [] [''a'', ''b'']))"
    by simp
  obtain u where u: "((\<lambda>_. Outside)((0::nat) := Getting [] [''a'', ''b''])) u \<noteq> Outside"
    "\<forall>start now. \<exists>m' p. lock_call_step u start now (new_manager None) (((\<lambda>_. Outside)((0::nat) := Getting [] [''a'', ''b''])) u) = Inr (m', p)
       \<and> p \<noteq> ((\<lambda>_. Outside)((0::nat) := Getting [] [''a'', ''b''])) u"
    using lock_no_deadlock[OF r, of 0] by fastforce
  show ?thesis using r u(1) u(2)[rule_format, of 0 0] unfolding Let_def by blast
qed

end
