(* ===== verification/File_Cache.thy ===== *)
theory File_Cache
  imports Prelude
begin

text \<open>
  \<open>sdk/io/cache.py\<close>: \<open>MemoryLRUCache\<close>, a \<open>cachetools.LRUCache\<close> with a second bound on the total length
  of its values. Entries are kept in the order of their last access, the least recent first.

  Which entry \<open>popitem\<close> takes is code of the \<open>cachetools\<close> package: it is the parameter \<open>evict\<close> of the
  operations. Its documented behaviour, a member of the cache that is not the entry accessed last
  as long as there is another one, is the hypothesis \<open>evict_ok\<close>.
\<close>

section \<open>State and operations\<close>

record 'k cache =
  c_entries :: "('k \<times> str) list"
  c_memory :: int
  c_max_memory :: int
  c_max_size :: nat

type_synonym 'k evict = "('k \<times> str) list \<Rightarrow> 'k"

definition new_cache :: "int \<Rightarrow> int \<Rightarrow> 'k cache" where
  "new_cache max_memory max_size =
     \<lparr>c_entries = [], c_memory = 0, c_max_memory = max_memory, c_max_size = nat (max 1 max_size)\<rparr>"

definition cache_contains :: "'k \<Rightarrow> 'k cache \<Rightarrow> bool" where
  "cache_contains k c \<longleftrightarrow> map_of (c_entries c) k \<noteq> None"

definition touch :: "'k \<Rightarrow> ('k \<times> str) list \<Rightarrow> ('k \<times> str) list" where
  "touch k es = (case map_of es k of None \<Rightarrow> es | Some v \<Rightarrow> AList.delete k es @ [(k, v)])"

definition cache_get :: "'k \<Rightarrow> 'k cache \<Rightarrow> py_exc + str \<times> 'k cache" where
  "cache_get k c = (case map_of (c_entries c) k of
       None \<Rightarrow> Inl KeyError
     | Some v \<Rightarrow> Inr (v, c\<lparr>c_entries := touch k (c_entries c)\<rparr>))"

definition cache_delitem :: "'k \<Rightarrow> 'k cache \<Rightarrow> py_exc + 'k cache" where
  "cache_delitem k c = (case map_of (c_entries c) k of
       None \<Rightarrow> Inl KeyError
     | Some v \<Rightarrow> Inr (c\<lparr>c_memory := c_memory c - int (length v), c_entries := AList.delete k (c_entries c)\<rparr>))"

definition cache_popitem :: "'k evict \<Rightarrow> 'k cache \<Rightarrow> py_exc + 'k cache" where
  "cache_popitem evict c = cache_delitem (evict (c_entries c)) c"

lemma length_delete_less: "map_of es k = Some v \<Longrightarrow> length (AList.delete k es) < length es"
proof -
  assume "map_of es k = Some v"
  then have "(k, v) \<in> set es" by (rule map_of_SomeD)
  then show ?thesis unfolding AList.delete_eq by (rule length_filter_less_ex) simp
qed

lemma popitem_less: "cache_popitem evict c = Inr c' \<Longrightarrow> length (c_entries c') < length (c_entries c)"
  by (auto simp: cache_popitem_def cache_delitem_def intro: length_delete_less split: option.splits)

text \<open>\<open>while self.current_memory > self.max_memory and len(self) > 0: self.popitem()\<close>\<close>

function evict_memory :: "'k evict \<Rightarrow> 'k cache \<Rightarrow> py_exc + 'k cache" where
  "evict_memory evict c =
     (if c_memory c > c_max_memory c \<and> length (c_entries c) > 0
      then rbind (cache_popitem evict c) (evict_memory evict) else Inr c)"
  by pat_completeness auto
termination
  by (relation "measure (\<lambda>(e, c). length (c_entries c))") (auto simp: popitem_less)

text \<open>The inherited \<open>__setitem__\<close>: a new key first makes room, every entry counting one.\<close>

function evict_count :: "'k evict \<Rightarrow> 'k cache \<Rightarrow> py_exc + 'k cache" where
  "evict_count evict c =
     (if length (c_entries c) + 1 > c_max_size c \<and> length (c_entries c) > 0
      then rbind (cache_popitem evict c) (evict_count evict) else Inr c)"
  by pat_completeness auto
termination
  by (relation "measure (\<lambda>(e, c). length (c_entries c))") (auto simp: popitem_less)

declare evict_memory.simps [simp del] evict_count.simps [simp del]

definition base_setitem :: "'k evict \<Rightarrow> 'k \<Rightarrow> str \<Rightarrow> 'k cache \<Rightarrow> py_exc + 'k cache" where
  "base_setitem evict k v c =
     rbind (if cache_contains k c then Inr c else evict_count evict c) (\<lambda>c1.
     Inr (c1\<lparr>c_entries := AList.delete k (c_entries c1) @ [(k, v)]\<rparr>))"

definition cache_setitem :: "'k evict \<Rightarrow> 'k \<Rightarrow> str \<Rightarrow> 'k cache \<Rightarrow> py_exc + 'k cache" where
  "cache_setitem evict k v c =
     (let new_size = int (length v) in
      if new_size > c_max_memory c then Inr c
      else let
        c1 = (case map_of (c_entries c) k of
                None \<Rightarrow> c
              | Some old \<Rightarrow> c\<lparr>c_entries := touch k (c_entries c), c_memory := c_memory c - int (length old)\<rparr>);
        c2 = c1\<lparr>c_memory := c_memory c1 + new_size\<rparr>
      in rbind (evict_memory evict c2) (base_setitem evict k v))"

text \<open>\<open>pop(key, None)\<close> and \<open>clear\<close> of the mapping interface.\<close>

definition cache_discard :: "'k \<Rightarrow> 'k cache \<Rightarrow> 'k cache" where
  "cache_discard k c = (case cache_delitem k c of Inl _ \<Rightarrow> c | Inr c' \<Rightarrow> c')"

definition cache_clear :: "'k cache \<Rightarrow> 'k cache" where
  "cache_clear c = c\<lparr>c_entries := [], c_memory := c_memory c - sum_list (map (\<lambda>(k, v). int (length v)) (c_entries c))\<rparr>"

section \<open>Bounds\<close>

definition evict_ok :: "'k evict \<Rightarrow> bool" where
  "evict_ok evict \<longleftrightarrow> (\<forall>es. es \<noteq> [] \<and> distinct (map fst es) \<longrightarrow>
     evict es \<in> fst ` set es \<and> (2 \<le> length es \<longrightarrow> evict es \<noteq> fst (last es)))"

definition lru_victim :: "'k evict" where
  "lru_victim es = fst (hd es)"

definition total_size :: "('k \<times> str) list \<Rightarrow> int" where
  "total_size es = sum_list (map (\<lambda>(k, v). int (length v)) es)"

definition cache_ok :: "'k cache \<Rightarrow> bool" where
  "cache_ok c \<longleftrightarrow> distinct (map fst (c_entries c)) \<and> c_memory c = total_size (c_entries c) \<and>
     c_memory c \<le> c_max_memory c \<and> length (c_entries c) \<le> c_max_size c \<and> 1 \<le> c_max_size c"

lemma cache_ok_new: "0 \<le> m \<Longrightarrow> cache_ok (new_cache m n)"
  by (auto simp: cache_ok_def new_cache_def total_size_def)

lemma total_size_simps [simp]:
  "total_size [] = 0" "total_size ((k, v) # es) = int (length v) + total_size es"
  "total_size (es @ fs) = total_size es + total_size fs"
  by (simp_all add: total_size_def)

lemma total_size_nonneg: "0 \<le> total_size es"
  by (induction es) auto

lemma delete_notin: "k \<notin> fst ` set es \<Longrightarrow> AList.delete k es = es"
  by (induction es) auto

lemma total_size_delete:
  "distinct (map fst es) \<Longrightarrow> map_of es k = Some v \<Longrightarrow>
     total_size (AList.delete k es) = total_size es - int (length v)"
proof (induction es)
  case (Cons e es)
  then show ?case
    by (cases e) (auto simp: delete_notin split: if_splits)
qed simp

lemma delete_snoc:
  "k \<noteq> k' \<Longrightarrow> AList.delete k (es @ [(k', v)]) = AList.delete k es @ [(k', v)]"
  by (simp add: AList.delete_eq)

lemma map_le_delete: "distinct (map fst es) \<Longrightarrow> map_of (AList.delete k es) \<subseteq>\<^sub>m map_of es"
  by (auto simp: map_le_def delete_conv')

text \<open>
  The memory loop: whatever it evicts, the difference between the counter and the real size stays,
  it ends within the bound or with an empty cache, and an entry that was accessed last stays last
  if it fits alone.
\<close>

lemma evict_memory_ok:
  assumes "evict_ok evict" "distinct (map fst (c_entries c))" "c_memory c = total_size (c_entries c) + x"
  shows "\<exists>c'. evict_memory evict c = Inr c' \<and> distinct (map fst (c_entries c')) \<and>
    c_memory c' = total_size (c_entries c') + x \<and>
    (c_memory c' \<le> c_max_memory c \<or> c_entries c' = []) \<and>
    map_of (c_entries c') \<subseteq>\<^sub>m map_of (c_entries c) \<and> length (c_entries c') \<le> length (c_entries c) \<and>
    c_max_memory c' = c_max_memory c \<and> c_max_size c' = c_max_size c \<and>
    (\<forall>k v es. c_entries c = es @ [(k, v)] \<and> int (length v) + x \<le> c_max_memory c \<longrightarrow>
       (\<exists>es'. c_entries c' = es' @ [(k, v)]))"
  using assms
proof (induction "length (c_entries c)" arbitrary: c rule: less_induct)
  case less
  show ?case
  proof (cases "c_memory c > c_max_memory c \<and> length (c_entries c) > 0")
    case False
    then show ?thesis using less.prems
      by (subst evict_memory.simps) (auto simp: map_le_def)
  next
    case True
    let ?k = "evict (c_entries c)"
    have "?k \<in> fst ` set (c_entries c)" using less.prems(1,2) True by (simp add: evict_ok_def)
    then obtain w where w: "map_of (c_entries c) ?k = Some w"
      by (metis map_of_eq_None_iff not_None_eq)
    define c1 where "c1 = c\<lparr>c_memory := c_memory c - int (length w),
        c_entries := AList.delete ?k (c_entries c)\<rparr>"
    have pop: "cache_popitem evict c = Inr c1"
      using w by (simp add: cache_popitem_def cache_delitem_def c1_def)
    have shorter: "length (c_entries c1) < length (c_entries c)" by (rule popitem_less[OF pop])
    have "distinct (map fst (c_entries c1))" "c_memory c1 = total_size (c_entries c1) + x"
      using less.prems(2,3) total_size_delete[OF less.prems(2) w] by (simp_all add: c1_def distinct_delete)
    from less.hyps[OF shorter less.prems(1) this]
    obtain c' where c': "evict_memory evict c1 = Inr c'" "distinct (map fst (c_entries c'))"
      "c_memory c' = total_size (c_entries c') + x" "c_memory c' \<le> c_max_memory c1 \<or> c_entries c' = []"
      "map_of (c_entries c') \<subseteq>\<^sub>m map_of (c_entries c1)" "length (c_entries c') \<le> length (c_entries c1)"
      "c_max_memory c' = c_max_memory c1" "c_max_size c' = c_max_size c1"
      "\<forall>k v es. c_entries c1 = es @ [(k, v)] \<and> int (length v) + x \<le> c_max_memory c1 \<longrightarrow>
       (\<exists>es'. c_entries c' = es' @ [(k, v)])" by blast
    have le: "map_of (c_entries c1) \<subseteq>\<^sub>m map_of (c_entries c)"
      using map_le_delete[OF less.prems(2)] by (simp add: c1_def)
    have last: "\<exists>es'. c_entries c' = es' @ [(k, v)]"
      if kv: "c_entries c = es @ [(k, v)]" "int (length v) + x \<le> c_max_memory c" for k v es
    proof (cases "es = []")
      case True
      then have "c_memory c = int (length v) + x" using less.prems(3) kv(1) by simp
      then show ?thesis using kv(2) \<open>c_memory c > c_max_memory c \<and> _\<close> by simp
    next
      case False
      then have "2 \<le> length (c_entries c)" using kv(1) by (cases es) auto
      moreover from this have "c_entries c \<noteq> []" by auto
      ultimately have "?k \<noteq> fst (last (c_entries c))" using less.prems(1,2) unfolding evict_ok_def by blast
      then have "?k \<noteq> k" using kv(1) by simp
      then have "c_entries c1 = AList.delete ?k es @ [(k, v)]"
        using kv(1) by (simp add: c1_def delete_snoc)
      then show ?thesis using c'(9) kv(2) by (simp add: c1_def)
    qed
    have "evict_memory evict c = Inr c'"
      using True pop c'(1) by (subst evict_memory.simps) simp
    then show ?thesis using c' shorter map_le_trans[OF c'(5) le] last
      by (auto simp: c1_def)
  qed
qed

lemma evict_count_ok:
  assumes "evict_ok evict" "distinct (map fst (c_entries c))"
    "c_memory c = total_size (c_entries c) + x" "1 \<le> c_max_size c"
  shows "\<exists>c'. evict_count evict c = Inr c' \<and> distinct (map fst (c_entries c')) \<and>
    c_memory c' = total_size (c_entries c') + x \<and> c_memory c' \<le> c_memory c \<and>
    map_of (c_entries c') \<subseteq>\<^sub>m map_of (c_entries c) \<and> length (c_entries c') + 1 \<le> c_max_size c \<and>
    c_max_memory c' = c_max_memory c \<and> c_max_size c' = c_max_size c"
  using assms
proof (induction "length (c_entries c)" arbitrary: c rule: less_induct)
  case less
  show ?case
  proof (cases "length (c_entries c) + 1 > c_max_size c \<and> length (c_entries c) > 0")
    case False
    then show ?thesis using less.prems
      by (subst evict_count.simps) (auto simp: map_le_def)
  next
    case True
    let ?k = "evict (c_entries c)"
    have "?k \<in> fst ` set (c_entries c)" using less.prems(1,2) True by (simp add: evict_ok_def)
    then obtain w where w: "map_of (c_entries c) ?k = Some w"
      by (metis map_of_eq_None_iff not_None_eq)
    define c1 where "c1 = c\<lparr>c_memory := c_memory c - int (length w),
        c_entries := AList.delete ?k (c_entries c)\<rparr>"
    have pop: "cache_popitem evict c = Inr c1"
      using w by (simp add: cache_popitem_def cache_delitem_def c1_def)
    have shorter: "length (c_entries c1) < length (c_entries c)" by (rule popitem_less[OF pop])
    have "distinct (map fst (c_entries c1))" "c_memory c1 = total_size (c_entries c1) + x" "1 \<le> c_max_size c1"
      using less.prems total_size_delete[OF less.prems(2) w] by (simp_all add: c1_def distinct_delete)
    from less.hyps[OF shorter less.prems(1) this]
    obtain c' where c': "evict_count evict c1 = Inr c'" "distinct (map fst (c_entries c'))"
      "c_memory c' = total_size (c_entries c') + x" "c_memory c' \<le> c_memory c1"
      "map_of (c_entries c') \<subseteq>\<^sub>m map_of (c_entries c1)" "length (c_entries c') + 1 \<le> c_max_size c1"
      "c_max_memory c' = c_max_memory c1" "c_max_size c' = c_max_size c1" by blast
    have le: "map_of (c_entries c1) \<subseteq>\<^sub>m map_of (c_entries c)"
      using map_le_delete[OF less.prems(2)] by (simp add: c1_def)
    have "evict_count evict c = Inr c'"
      using True pop c'(1) by (subst evict_count.simps) simp
    then show ?thesis using c' map_le_trans[OF c'(5) le] by (auto simp: c1_def)
  qed
qed

lemma delete_snoc_self: "AList.delete k (es @ [(k, v)]) = AList.delete k es"
  by (simp add: AList.delete_eq)

lemma touch_snoc:
  assumes "map_of es k = Some v"
  shows "touch k es = AList.delete k es @ [(k, v)]"
  using assms by (simp add: touch_def)

lemma map_of_delete_snoc: "map_of (AList.delete k es @ [(k, v)]) = (map_of es)(k \<mapsto> v)"
  by (auto simp: fun_eq_iff map_add_def delete_conv' split: option.splits)

lemma distinct_delete_snoc:
  "distinct (map fst es) \<Longrightarrow> distinct (map fst (AList.delete k es @ [(k, v)]))"
  using distinct_delete[of es k] delete_keys[of k es] by auto

lemma length_delete_Suc:
  "distinct (map fst es) \<Longrightarrow> map_of es k = Some v \<Longrightarrow> Suc (length (AList.delete k es)) = length es"
  by (induction es) (auto simp: delete_notin split: if_splits)

text \<open>Accesses keep the contents and the bounds.\<close>

lemma cache_get_ok:
  assumes "cache_ok c" "cache_get k c = Inr (v, c')"
  shows "cache_ok c' \<and> map_of (c_entries c') = map_of (c_entries c) \<and> map_of (c_entries c) k = Some v \<and>
    c_max_memory c' = c_max_memory c"
proof -
  have v: "map_of (c_entries c) k = Some v" and c': "c' = c\<lparr>c_entries := touch k (c_entries c)\<rparr>"
    using assms(2) by (auto simp: cache_get_def split: option.splits)
  have d: "distinct (map fst (c_entries c))" using assms(1) by (simp add: cache_ok_def)
  have "map_of (AList.delete k (c_entries c) @ [(k, v)]) = map_of (c_entries c)"
    unfolding map_of_delete_snoc using v by auto
  then show ?thesis
    using assms(1) v c' distinct_delete_snoc[OF d] length_delete_Suc[OF d v] total_size_delete[OF d v]
    by (simp add: touch_snoc cache_ok_def)
qed

lemma cache_discard_ok:
  assumes "cache_ok c"
  shows "cache_ok (cache_discard k c) \<and> map_of (c_entries (cache_discard k c)) = (map_of (c_entries c))(k := None) \<and>
    c_max_memory (cache_discard k c) = c_max_memory c"
proof (cases "map_of (c_entries c) k")
  case None
  then show ?thesis using assms by (auto simp: cache_discard_def cache_delitem_def fun_upd_idem)
next
  case (Some v)
  have d: "distinct (map fst (c_entries c))" using assms by (simp add: cache_ok_def)
  show ?thesis using assms Some total_size_delete[OF d Some] length_delete_less[OF Some]
    by (auto simp: cache_discard_def cache_delitem_def cache_ok_def distinct_delete delete_conv' fun_eq_iff)
qed

lemma cache_clear_ok: "cache_ok c \<Longrightarrow> 0 \<le> c_max_memory c \<Longrightarrow> cache_ok (cache_clear c) \<and> c_entries (cache_clear c) = [] \<and>
    c_max_memory (cache_clear c) = c_max_memory c"
  by (auto simp: cache_clear_def cache_ok_def total_size_def)

lemma cache_setitem_lemma:
  assumes "evict_ok evict" "cache_ok c"
  shows "\<exists>c'. cache_setitem evict k v c = Inr c' \<and> cache_ok c' \<and> c_max_memory c' = c_max_memory c \<and>
    (if int (length v) > c_max_memory c then c' = c
     else map_of (c_entries c') k = Some v \<and> map_of (c_entries c') \<subseteq>\<^sub>m (map_of (c_entries c))(k \<mapsto> v))"
proof (cases "int (length v) > c_max_memory c")
  case True
  then show ?thesis using assms(2) by (simp add: cache_setitem_def)
next
  case fits: False
  have d: "distinct (map fst (c_entries c))" "c_memory c = total_size (c_entries c)"
    "c_memory c \<le> c_max_memory c" "length (c_entries c) \<le> c_max_size c" "1 \<le> c_max_size c"
    using assms(2) by (simp_all add: cache_ok_def)
  show ?thesis
  proof (cases "map_of (c_entries c) k")
    case None
    define c2 where "c2 = c\<lparr>c_memory := c_memory c + int (length v)\<rparr>"
    have "distinct (map fst (c_entries c2))" "c_memory c2 = total_size (c_entries c2) + int (length v)"
      using d by (simp_all add: c2_def)
    from evict_memory_ok[OF assms(1) this]
    obtain c3 where c3: "evict_memory evict c2 = Inr c3" "distinct (map fst (c_entries c3))"
      "c_memory c3 = total_size (c_entries c3) + int (length v)"
      "c_memory c3 \<le> c_max_memory c2 \<or> c_entries c3 = []"
      "map_of (c_entries c3) \<subseteq>\<^sub>m map_of (c_entries c2)" "c_max_memory c3 = c_max_memory c2"
      "c_max_size c3 = c_max_size c2" by blast
    have m3: "c_memory c3 \<le> c_max_memory c" using c3(3,4) fits by (auto simp: c2_def)
    have k3: "map_of (c_entries c3) k = None"
      using c3(5) None by (auto simp: map_le_def c2_def dom_def)
    have "1 \<le> c_max_size c3" using c3(7) d(5) by (simp add: c2_def)
    from evict_count_ok[OF assms(1) c3(2,3) this]
    obtain c4 where c4: "evict_count evict c3 = Inr c4" "distinct (map fst (c_entries c4))"
      "c_memory c4 = total_size (c_entries c4) + int (length v)" "c_memory c4 \<le> c_memory c3"
      "map_of (c_entries c4) \<subseteq>\<^sub>m map_of (c_entries c3)" "length (c_entries c4) + 1 \<le> c_max_size c3"
      "c_max_memory c4 = c_max_memory c3" "c_max_size c4 = c_max_size c3" by blast
    have k4: "k \<notin> fst ` set (c_entries c4)"
      using c4(5) k3 unfolding map_le_def by (metis domIff map_of_eq_None_iff)
    define c5 where "c5 = c4\<lparr>c_entries := AList.delete k (c_entries c4) @ [(k, v)]\<rparr>"
    have "cache_setitem evict k v c = Inr c5"
      using fits None c3(1) c4(1) k3
      by (simp add: cache_setitem_def c2_def c5_def base_setitem_def cache_contains_def Let_def)
    moreover have "cache_ok c5"
      using c4 c3 m3 k4 d(5) distinct_delete_snoc[OF c4(2), of k v]
      by (auto simp: c5_def cache_ok_def delete_notin c2_def)
    moreover have "map_of (c_entries c4) \<subseteq>\<^sub>m map_of (c_entries c)"
      using map_le_trans[OF c4(5) c3(5)] by (simp add: c2_def)
    then have "map_of (c_entries c5) \<subseteq>\<^sub>m (map_of (c_entries c))(k \<mapsto> v)"
      unfolding c5_def by (simp add: map_of_delete_snoc[unfolded append.simps] map_le_upd del: map_of_append)
    ultimately show ?thesis using fits c4(7) c3(6)
      by (auto simp: c5_def map_of_delete_snoc c2_def simp del: map_of_append)
  next
    case (Some old)
    define c2 where "c2 = c\<lparr>c_entries := touch k (c_entries c),
        c_memory := c_memory c - int (length old) + int (length v)\<rparr>"
    have t: "touch k (c_entries c) = AList.delete k (c_entries c) @ [(k, old)]"
      by (rule touch_snoc[OF Some])
    have len: "length (touch k (c_entries c)) = length (c_entries c)"
      using length_delete_Suc[OF d(1) Some] t by simp
    have "distinct (map fst (c_entries c2))"
      using distinct_delete_snoc[OF d(1)] t by (simp add: c2_def)
    moreover have "c_memory c2 = total_size (c_entries c2) + (int (length v) - int (length old))"
      using d(2) t total_size_delete[OF d(1) Some] by (simp add: c2_def)
    ultimately obtain c3 where c3: "evict_memory evict c2 = Inr c3" "distinct (map fst (c_entries c3))"
      "c_memory c3 = total_size (c_entries c3) + (int (length v) - int (length old))"
      "c_memory c3 \<le> c_max_memory c2 \<or> c_entries c3 = []"
      "map_of (c_entries c3) \<subseteq>\<^sub>m map_of (c_entries c2)" "length (c_entries c3) \<le> length (c_entries c2)"
      "c_max_memory c3 = c_max_memory c2" "c_max_size c3 = c_max_size c2"
      "\<forall>k v' es. c_entries c2 = es @ [(k, v')] \<and> int (length v') + (int (length v) - int (length old)) \<le> c_max_memory c2 \<longrightarrow>
       (\<exists>es'. c_entries c3 = es' @ [(k, v')])"
      using evict_memory_ok[OF assms(1), of c2] by blast
    have "c_entries c2 = AList.delete k (c_entries c) @ [(k, old)] \<and>
        int (length old) + (int (length v) - int (length old)) \<le> c_max_memory c2"
      using fits t by (simp add: c2_def)
    then obtain es' where es': "c_entries c3 = es' @ [(k, old)]" using c3(9) by blast
    have nk: "k \<notin> fst ` set es'" using c3(2) es' by auto
    have m3: "c_memory c3 \<le> c_max_memory c" using c3(4) es' by (simp add: c2_def)
    define c5 where "c5 = c3\<lparr>c_entries := AList.delete k (c_entries c3) @ [(k, v)]\<rparr>"
    have e5: "c_entries c5 = es' @ [(k, v)]" unfolding c5_def es'
      by (simp add: delete_snoc_self delete_notin[OF nk])
    have "map_of es' k = None" using nk by (simp add: map_of_eq_None_iff)
    then have "map_of (c_entries c3) k = Some old" using es' by (simp add: map_add_def)
    then have "cache_setitem evict k v c = Inr c5"
      using fits Some c3(1)
      by (simp add: cache_setitem_def c2_def c5_def base_setitem_def cache_contains_def Let_def)
    moreover have "cache_ok c5"
      using c3 es' e5 m3 d(4,5) len by (auto simp: cache_ok_def c2_def) (auto simp: c5_def c2_def)
    moreover have "map_of (c_entries c2) = map_of (c_entries c)"
      using Some t map_of_delete_snoc[of k "c_entries c" old] by (auto simp: c2_def fun_eq_iff)
    then have "map_of (c_entries c5) \<subseteq>\<^sub>m (map_of (c_entries c))(k \<mapsto> v)"
      using c3(5) unfolding c5_def
      by (simp add: map_of_delete_snoc map_le_upd del: map_of_append)
    ultimately show ?thesis using fits c3(7)
      by (auto simp: c5_def map_of_delete_snoc c2_def simp del: map_of_append)
  qed
qed

text \<open>
  Both bounds of the cache hold and its accounting is exact. Storing any value in a cache that
  is within its bounds raises nothing and keeps it within them, the counter equal to the total
  length of the values; a value that fits is then in the cache under its key, and every other entry
  is an old one, unchanged.
\<close>

theorem cache_setitem_bounds:
  assumes "evict_ok evict" "cache_ok c"
  shows "\<exists>c'. cache_setitem evict k v c = Inr c' \<and> cache_ok c' \<and> c_max_memory c' = c_max_memory c \<and>
    (if int (length v) > c_max_memory c then c' = c
     else map_of (c_entries c') k = Some v \<and> map_of (c_entries c') \<subseteq>\<^sub>m (map_of (c_entries c))(k \<mapsto> v))"
  by (rule cache_setitem_lemma[OF assms])

lemma evict_ok_lru: "evict_ok lru_victim"
  unfolding evict_ok_def
proof (intro allI impI)
  fix es :: "('k \<times> str) list"
  assume "es \<noteq> [] \<and> distinct (map fst es)"
  then show "lru_victim es \<in> fst ` set es \<and> (2 \<le> length es \<longrightarrow> lru_victim es \<noteq> fst (last es))"
    by (cases es) (auto simp: lru_victim_def)
qed

lemma cache_setitem_bounds_witness:
  "\<exists>c'. cache_setitem lru_victim (2::nat) ''cdef'' \<lparr>c_entries = [(1, ''ab'')], c_memory = 2,
      c_max_memory = 5, c_max_size = 3\<rparr> = Inr c' \<and> cache_ok c' \<and> map_of (c_entries c') 2 = Some ''cdef''"
proof -
  have "cache_ok \<lparr>c_entries = [(1::nat, ''ab'')], c_memory = 2, c_max_memory = 5, c_max_size = 3\<rparr>"
    by (simp add: cache_ok_def)
  from cache_setitem_bounds[OF evict_ok_lru this, of 2 "''cdef''"] show ?thesis by auto
qed

end
