(* ===== verification/File_Store.thy ===== *)
theory File_Store
  imports File_Cache
begin

text \<open>
  \<open>sdk/io\<close>: the two file stores. \<open>LocalFileStore\<close> (\<open>local.py\<close>) keeps text files under a root directory
  with a read cache in front; \<open>InMemoryFileStore\<close> (\<open>memory.py\<close>) keeps everything in a
  \<^typ>\<open>'k cache\<close>.

  An absolute normalised path is the list of its components. The disk is the map from such paths
  to the text of regular files; a directory is a path strictly above a file or the root itself, so
  an empty directory below the root is not represented (listing it gives the empty list either
  way). Temporary files of an atomic write, file modes and encodings are left out.
\<close>

section \<open>Paths\<close>

type_synonym abs_path = "str list"

text \<open>\<open>normpath\<close> of an absolute path given by its components; \<open>..\<close> at the top stays at the top.\<close>

fun norm_from :: "str list \<Rightarrow> str list \<Rightarrow> str list" where
  "norm_from acc [] = rev acc"
| "norm_from acc (c # cs) =
     (if c = '''' \<or> c = ''.'' then norm_from acc cs
      else if c = ''..'' then norm_from (tl acc) cs
      else norm_from (c # acc) cs)"

definition slash :: char where "slash = CHR ''/''"
definition backslash :: char where "backslash = CHR 0x5C"

definition to_posix_path :: "str \<Rightarrow> str" where
  "to_posix_path p = map (\<lambda>c. if c = backslash then slash else c) p"

definition get_full_path :: "abs_path \<Rightarrow> str \<Rightarrow> py_exc + abs_path" where
  "get_full_path root path0 =
     (let path = (if py_startswith path0 [slash] then tl path0 else path0);
          normalized = to_posix_path path;
          joined = (if py_startswith normalized [slash] then py_split slash normalized
                    else root @ py_split slash normalized);
          full = norm_from [] joined
      in if take (length root) full \<noteq> root
         then Inl (ValueError (''path escapes filestore root: '' @ path)) else Inr full)"

definition os_path_join :: "str \<Rightarrow> str \<Rightarrow> str" where
  "os_path_join a b =
     (if py_startswith b [slash] then b
      else if a = [] \<or> last a = slash then a @ b else a @ [slash] @ b)"

definition posix_path_name :: "str \<Rightarrow> str" where
  "posix_path_name path =
     (let normalized = rev (dropWhile (\<lambda>c. c = slash) (rev (to_posix_path path)))
      in if normalized = [] then [] else last (py_split slash normalized))"

definition normal_name :: "str \<Rightarrow> bool" where
  "normal_name c \<longleftrightarrow> c \<noteq> '''' \<and> c \<noteq> ''.'' \<and> c \<noteq> ''..'' \<and> slash \<notin> set c"

lemma norm_from_append: "norm_from acc (xs @ ys) = norm_from (rev (norm_from acc xs)) ys"
  by (induction acc xs rule: norm_from.induct) auto

lemma norm_from_normal: "\<forall>c \<in> set xs. normal_name c \<Longrightarrow> norm_from acc xs = rev acc @ xs"
proof (induction xs arbitrary: acc)
  case (Cons c xs)
  have "normal_name c" "\<forall>c \<in> set xs. normal_name c" using Cons.prems by simp_all
  moreover from this(1) have "c \<noteq> '''' \<and> c \<noteq> ''.'' \<and> c \<noteq> ''..''" unfolding normal_name_def by blast
  ultimately show ?case using Cons.IH by simp
qed simp

lemma set_tl: "set (tl xs) \<subseteq> set xs"
  by (cases xs) auto

lemma norm_from_result:
  "\<forall>c \<in> set acc. normal_name c \<Longrightarrow> \<forall>c \<in> set cs. slash \<notin> set c \<Longrightarrow>
     \<forall>c \<in> set (norm_from acc cs). normal_name c"
proof (induction acc cs rule: norm_from.induct)
  case (2 acc c cs)
  have cs: "\<forall>c \<in> set cs. slash \<notin> set c" "slash \<notin> set c" using "2.prems"(2) by simp_all
  have tl: "\<forall>c \<in> set (tl acc). normal_name c" using "2.prems"(1) set_tl[of acc] by blast
  consider (skip) "c = '''' \<or> c = ''.''" | (up) "\<not> (c = '''' \<or> c = ''.'')" "c = ''..''"
    | (name) "\<not> (c = '''' \<or> c = ''.'')" "c \<noteq> ''..''" by satx
  then show ?case
  proof cases
    case skip
    then show ?thesis using "2.IH"(1)[OF skip "2.prems"(1) cs(1)] by (simp only: norm_from.simps if_True)
  next
    case up
    then show ?thesis using "2.IH"(2)[OF up tl cs(1)] by (simp only: norm_from.simps if_True if_False simp_thms)
  next
    case name
    then have "\<forall>x \<in> set (c # acc). normal_name x"
      using "2.prems"(1) cs(2) by (simp add: normal_name_def)
    from "2.IH"(3)[OF name this cs(1)] show ?thesis using name by (simp only: norm_from.simps if_False)
  qed
qed simp

text \<open>
  The file store is confined to its root. Whatever string is given as a path, with \<open>..\<close>, leading
  and doubled slashes, or backslashes, \<open>get_full_path\<close> either raises \<open>ValueError\<close> or returns the root
  extended by ordinary names, none of them empty, \<open>.\<close> or \<open>..\<close>, or containing a slash.
\<close>

theorem full_path_confined:
  assumes "\<forall>c \<in> set root. normal_name c"
  shows "case get_full_path root path of
      Inl e \<Rightarrow> \<exists>msg. e = ValueError msg
    | Inr full \<Rightarrow> \<exists>rest. full = root @ rest \<and> (\<forall>c \<in> set rest. normal_name c)"
proof -
  let ?p = "to_posix_path (if py_startswith path [slash] then tl path else path)"
  let ?j = "if py_startswith ?p [slash] then py_split slash ?p else root @ py_split slash ?p"
  have "\<forall>c \<in> set ?j. slash \<notin> set c"
    using assms py_split_no_sep[of slash ?p] by (auto simp: normal_name_def)
  then have n: "\<forall>c \<in> set (norm_from [] ?j). normal_name c" by (intro norm_from_result) auto
  show ?thesis
  proof (cases "take (length root) (norm_from [] ?j) = root")
    case True
    then have "norm_from [] ?j = root @ drop (length root) (norm_from [] ?j)"
      by (metis append_take_drop_id)
    moreover have "\<forall>c \<in> set (drop (length root) (norm_from [] ?j)). normal_name c"
      using n by (meson in_set_dropD)
    ultimately show ?thesis using True by (auto simp: get_full_path_def Let_def)
  qed (auto simp: get_full_path_def Let_def)
qed

lemma full_path_confined_witness:
  "get_full_path [''srv''] ''a/../../srv/b'' = Inr [''srv'', ''b''] \<and>
   (case get_full_path [''srv''] ''../etc'' of Inl e \<Rightarrow> \<exists>msg. e = ValueError msg | Inr _ \<Rightarrow> False)"
proof -
  have "\<forall>c \<in> set [''srv'']. normal_name c" by (simp add: normal_name_def slash_def)
  note full_path_confined[OF this, of "''../etc''"]
  moreover have "get_full_path [''srv''] ''../etc'' = Inl (ValueError ''path escapes filestore root: ../etc'')"
    "get_full_path [''srv''] ''a/../../srv/b'' = Inr [''srv'', ''b'']" by code_simp+
  ultimately show ?thesis by simp
qed

text \<open>A plain relative path: ordinary names between single slashes. The event log uses only these.\<close>

definition plain_path :: "str \<Rightarrow> bool" where
  "plain_path p \<longleftrightarrow> backslash \<notin> set p \<and> (\<forall>c \<in> set (py_split slash p). normal_name c)"

lemma plain_path_no_slash: "plain_path p \<Longrightarrow> \<not> py_startswith p [slash]"
proof
  assume "plain_path p" "py_startswith p [slash]"
  then obtain q where "p = slash # q" by (auto simp: py_startswith_iff)
  then have "normal_name ''''" using \<open>plain_path p\<close> by (simp add: plain_path_def)
  then show False by (simp add: normal_name_def)
qed

lemma to_posix_path_plain: "backslash \<notin> set p \<Longrightarrow> to_posix_path p = p"
  unfolding to_posix_path_def by (rule map_idI) auto

lemma get_full_path_plain:
  assumes "\<forall>c \<in> set root. normal_name c" "plain_path p"
  shows "get_full_path root p = Inr (root @ py_split slash p)"
proof -
  have "to_posix_path p = p" using assms(2) by (simp add: to_posix_path_plain plain_path_def)
  moreover have "norm_from [] (root @ py_split slash p) = root @ py_split slash p"
    using norm_from_normal[of "root @ py_split slash p" "[]"] assms by (auto simp: plain_path_def)
  ultimately show ?thesis using plain_path_no_slash[OF assms(2)]
    by (simp add: get_full_path_def Let_def)
qed

lemma py_split_inject: "py_split c p = py_split c q \<Longrightarrow> p = q"
  by (metis py_join_split)

section \<open>The local store\<close>

record local_store =
  ls_root :: abs_path
  ls_cache :: "abs_path cache"
  ls_disk :: "(abs_path, str) dict"

definition is_file :: "(abs_path, str) dict \<Rightarrow> abs_path \<Rightarrow> bool" where
  "is_file d f \<longleftrightarrow> f \<in> set (dict_keys d)"

definition is_above :: "abs_path \<Rightarrow> abs_path \<Rightarrow> bool" where
  "is_above f g \<longleftrightarrow> length f < length g \<and> take (length f) g = f"

definition is_dir :: "local_store \<Rightarrow> abs_path \<Rightarrow> bool" where
  "is_dir s f \<longleftrightarrow> (\<exists>g \<in> set (dict_keys (ls_disk s)). is_above f g) \<or> f = ls_root s \<or> is_above f (ls_root s)"

definition path_exists :: "local_store \<Rightarrow> abs_path \<Rightarrow> bool" where
  "path_exists s f \<longleftrightarrow> is_file (ls_disk s) f \<or> is_dir s f"

definition local_write :: "abs_path evict \<Rightarrow> str \<Rightarrow> str \<Rightarrow> local_store \<Rightarrow> py_exc + local_store" where
  "local_write evict path contents s =
     rbind (get_full_path (ls_root s) path) (\<lambda>full.
     if (\<exists>g \<in> set (dict_keys (ls_disk s)). is_above g full) then Inl (OSError ''makedirs'')
     else if is_dir s full then Inl (OSError ''replace'')
     else let s1 = s\<lparr>ls_disk := dict_put full contents (ls_disk s)\<rparr> in
       rbind (cache_setitem evict full contents (ls_cache s1)) (\<lambda>c. Inr (s1\<lparr>ls_cache := c\<rparr>)))"

text \<open>The branch for \<open>bytes\<close>, which does not touch the cache; \<open>text\<close> is what the bytes decode to.\<close>

definition local_write_bytes :: "str \<Rightarrow> str \<Rightarrow> local_store \<Rightarrow> py_exc + local_store" where
  "local_write_bytes path text s =
     rbind (get_full_path (ls_root s) path) (\<lambda>full.
     if (\<exists>g \<in> set (dict_keys (ls_disk s)). is_above g full) then Inl (OSError ''makedirs'')
     else if is_dir s full then Inl (OSError ''open'')
     else Inr (s\<lparr>ls_disk := dict_put full text (ls_disk s)\<rparr>))"

definition local_read :: "abs_path evict \<Rightarrow> str \<Rightarrow> local_store \<Rightarrow> py_exc + str \<times> local_store" where
  "local_read evict path s =
     rbind (get_full_path (ls_root s) path) (\<lambda>full.
     if cache_contains full (ls_cache s) then
       rbind (cache_get full (ls_cache s)) (\<lambda>(v, c). Inr (v, s\<lparr>ls_cache := c\<rparr>))
     else if \<not> path_exists s full then Inl (FileNotFoundError path)
     else case dict_get (ls_disk s) full of
         None \<Rightarrow> Inl (OSError ''open'')
       | Some result \<Rightarrow>
           rbind (cache_setitem evict full result (ls_cache s)) (\<lambda>c. Inr (result, s\<lparr>ls_cache := c\<rparr>)))"

definition listdir :: "local_store \<Rightarrow> abs_path \<Rightarrow> str list" where
  "listdir s f = remdups (map (\<lambda>g. g ! length f) (filter (is_above f) (dict_keys (ls_disk s))))"

definition local_list :: "str \<Rightarrow> local_store \<Rightarrow> py_exc + str list" where
  "local_list path s =
     rbind (get_full_path (ls_root s) path) (\<lambda>full.
     if \<not> path_exists s full then Inr []
     else if is_file (ls_disk s) full then Inr [path]
     else rmap (\<lambda>f. rbind (get_full_path (ls_root s) f) (\<lambda>g. Inr (if is_dir s g then f @ [slash] else f)))
            (map (os_path_join path) (listdir s full)))"

text \<open>\<open>delete\<close> logs every exception and returns.\<close>

definition local_delete :: "str \<Rightarrow> local_store \<Rightarrow> local_store" where
  "local_delete path s =
     (case get_full_path (ls_root s) path of
        Inl _ \<Rightarrow> s
      | Inr full \<Rightarrow>
          if \<not> path_exists s full then s
          else if is_file (ls_disk s) full
            then s\<lparr>ls_disk := dict_del full (ls_disk s), ls_cache := cache_discard full (ls_cache s)\<rparr>
          else s\<lparr>ls_disk := filter (\<lambda>(g, _). \<not> is_above full g) (ls_disk s),
                 ls_cache := cache_clear (ls_cache s)\<rparr>)"

definition local_exists :: "str \<Rightarrow> local_store \<Rightarrow> py_exc + bool" where
  "local_exists path s = rbind (get_full_path (ls_root s) path) (\<lambda>full. Inr (path_exists s full))"

section \<open>Coherence of the cache\<close>

definition store_inv :: "local_store \<Rightarrow> bool" where
  "store_inv s \<longleftrightarrow> (\<forall>c \<in> set (ls_root s). normal_name c) \<and> cache_ok (ls_cache s) \<and>
     0 \<le> c_max_memory (ls_cache s) \<and> distinct (dict_keys (ls_disk s)) \<and>
     (\<forall>g \<in> set (dict_keys (ls_disk s)). \<exists>p. plain_path p \<and> g = ls_root s @ py_split slash p) \<and>
     map_of (c_entries (ls_cache s)) \<subseteq>\<^sub>m dict_get (ls_disk s)"

definition same_files :: "local_store \<Rightarrow> local_store \<Rightarrow> bool" where
  "same_files s s' \<longleftrightarrow> ls_root s' = ls_root s \<and> ls_disk s' = ls_disk s \<and>
     c_max_memory (ls_cache s') = c_max_memory (ls_cache s)"

lemma local_read_ok:
  assumes ev: "evict_ok evict" and inv: "store_inv s"
    and full: "get_full_path (ls_root s) path = Inr full" and v: "dict_get (ls_disk s) full = Some v"
  shows "\<exists>s'. local_read evict path s = Inr (v, s') \<and> store_inv s' \<and> same_files s s'"
proof (cases "cache_contains full (ls_cache s)")
  case True
  then obtain w c where g: "cache_get full (ls_cache s) = Inr (w, c)"
    by (auto simp: cache_contains_def cache_get_def split: option.splits)
  have c: "cache_ok c" "map_of (c_entries c) = map_of (c_entries (ls_cache s))"
    "map_of (c_entries (ls_cache s)) full = Some w" "c_max_memory c = c_max_memory (ls_cache s)"
    using cache_get_ok[OF _ g] inv by (auto simp: store_inv_def)
  then have "w = v" using inv v by (auto simp: store_inv_def map_le_def dom_def)
  then show ?thesis using True g c inv full
    by (auto simp: local_read_def store_inv_def same_files_def)
next
  case False
  obtain c where c: "cache_setitem evict full v (ls_cache s) = Inr c" "cache_ok c"
    "c_max_memory c = c_max_memory (ls_cache s)"
    "if int (length v) > c_max_memory (ls_cache s) then c = ls_cache s
     else map_of (c_entries c) full = Some v \<and> map_of (c_entries c) \<subseteq>\<^sub>m (map_of (c_entries (ls_cache s)))(full \<mapsto> v)"
    using cache_setitem_lemma[OF ev, of "ls_cache s" full v] inv by (auto simp: store_inv_def)
  have "map_of (c_entries c) \<subseteq>\<^sub>m dict_get (ls_disk s)"
  proof (cases "int (length v) > c_max_memory (ls_cache s)")
    case True
    then show ?thesis using c(4) inv by (simp add: store_inv_def)
  next
    case False
    then have "map_of (c_entries c) \<subseteq>\<^sub>m (map_of (c_entries (ls_cache s)))(full \<mapsto> v)" using c(4) by simp
    moreover have "(map_of (c_entries (ls_cache s)))(full \<mapsto> v) \<subseteq>\<^sub>m dict_get (ls_disk s)"
      using inv v by (auto simp: store_inv_def map_le_def)
    ultimately show ?thesis by (rule map_le_trans)
  qed
  moreover have "path_exists s full" using v
    by (simp add: path_exists_def is_file_def) (metis map_of_eq_None_iff option.distinct(1) set_map)
  ultimately show ?thesis using False c v full inv
    by (auto simp: local_read_def store_inv_def same_files_def)
qed

lemma local_write_disk:
  assumes "local_write evict path contents s = Inr s'" "get_full_path (ls_root s) path = Inr full"
  shows "ls_disk s' = dict_put full contents (ls_disk s)" "ls_root s' = ls_root s"
    "cache_setitem evict full contents (ls_cache s) = Inr (ls_cache s')"
  using assms by (auto simp: local_write_def rbind_eq_Inr Let_def split: if_splits)

lemma store_inv_write:
  assumes ev: "evict_ok evict" and inv: "store_inv s" and fit: "int (length contents) \<le> c_max_memory (ls_cache s)"
    and p: "plain_path path" and w: "local_write evict path contents s = Inr s'"
  shows "store_inv s'" "c_max_memory (ls_cache s') = c_max_memory (ls_cache s)"
proof -
  let ?full = "ls_root s @ py_split slash path"
  have root: "\<forall>c \<in> set (ls_root s). normal_name c" using inv by (simp add: store_inv_def)
  note d = local_write_disk[OF w get_full_path_plain[OF root p]]
  have ok: "cache_ok (ls_cache s)" using inv by (simp add: store_inv_def)
  have c: "cache_ok (ls_cache s')" "c_max_memory (ls_cache s') = c_max_memory (ls_cache s)"
    "map_of (c_entries (ls_cache s')) \<subseteq>\<^sub>m (map_of (c_entries (ls_cache s)))(?full \<mapsto> contents)"
    using cache_setitem_lemma[OF ev ok, of ?full contents] d(3) fit by auto
  have "(map_of (c_entries (ls_cache s)))(?full \<mapsto> contents) \<subseteq>\<^sub>m dict_get (ls_disk s')"
    using inv unfolding d(1) store_inv_def by (auto simp: map_le_def)
  with c(3) have "map_of (c_entries (ls_cache s')) \<subseteq>\<^sub>m dict_get (ls_disk s')" by (rule map_le_trans)
  moreover have "set (dict_keys (ls_disk s')) = insert ?full (set (dict_keys (ls_disk s)))"
    unfolding d(1) by (rule dict_keys_put)
  moreover have "distinct (dict_keys (ls_disk s'))"
    unfolding d(1) using inv by (intro distinct_dict_put) (simp add: store_inv_def)
  ultimately show "store_inv s'" "c_max_memory (ls_cache s') = c_max_memory (ls_cache s)"
    using inv c p d(2) unfolding store_inv_def by auto
qed

text \<open>
  Reading returns what was written, through the cache. On a store whose cache agrees with the
  disk, a text write that succeeds and is no longer than the memory bound of the cache leaves them
  in agreement, whatever else it evicts; the next read of the path returns the contents written,
  and every other path that had a file still reads as before.
\<close>

theorem local_store_coherent:
  assumes "evict_ok evict" "store_inv s" "plain_path path"
    "int (length contents) \<le> c_max_memory (ls_cache s)"
    "local_write evict path contents s = Inr s'"
  shows "store_inv s' \<and> (\<exists>s''. local_read evict path s' = Inr (contents, s'')) \<and>
    (\<forall>q v. plain_path q \<and> q \<noteq> path \<and> dict_get (ls_disk s) (ls_root s @ py_split slash q) = Some v \<longrightarrow>
       (\<exists>s''. local_read evict q s' = Inr (v, s'')))"
proof -
  have root: "\<forall>c \<in> set (ls_root s). normal_name c" using assms(2) by (simp add: store_inv_def)
  note d = local_write_disk[OF assms(5) get_full_path_plain[OF root assms(3)]]
  have inv': "store_inv s'" by (rule store_inv_write(1)[OF assms(1,2,4,3,5)])
  have full: "get_full_path (ls_root s') q = Inr (ls_root s @ py_split slash q)" if "plain_path q" for q
    using get_full_path_plain[OF root that] d(2) by simp
  have neq: "ls_root s @ py_split slash q \<noteq> ls_root s @ py_split slash path" if "q \<noteq> path" for q
    using that py_split_inject[of slash q path] by auto
  have "\<exists>s''. local_read evict path s' = Inr (contents, s'')"
    using local_read_ok[OF assms(1) inv' full[OF assms(3)]] d(1) by fastforce
  moreover have "\<exists>s''. local_read evict q s' = Inr (v, s'')"
    if "plain_path q" "q \<noteq> path" "dict_get (ls_disk s) (ls_root s @ py_split slash q) = Some v" for q v
    using local_read_ok[OF assms(1) inv' full[OF that(1)], of v] d(1) neq[OF that(2)] that(3) by fastforce
  ultimately show ?thesis using inv' by blast
qed

definition small_store :: local_store where
  "small_store = \<lparr>ls_root = [''r''], ls_cache = \<lparr>c_entries = [([''r'', ''a''], ''old'')], c_memory = 3,
     c_max_memory = 4, c_max_size = 9\<rparr>, ls_disk = [([''r'', ''a''], ''old''), ([''r'', ''b''], ''x'')]\<rparr>"

lemma plain_ab: "plain_path ''a'' \<and> plain_path ''b'' \<and> py_split slash ''a'' = [''a''] \<and> py_split slash ''b'' = [''b'']"
  by code_simp

lemma small_store_inv: "store_inv small_store"
proof -
  have "(\<forall>c \<in> set (ls_root small_store). normal_name c) \<and> distinct (dict_keys (ls_disk small_store))" by code_simp
  moreover have "\<forall>g \<in> set (dict_keys (ls_disk small_store)). \<exists>p. plain_path p \<and> g = ls_root small_store @ py_split slash p"
    using plain_ab by (auto simp: small_store_def intro: exI[of _ "''a''"] exI[of _ "''b''"])
  moreover have "cache_ok (ls_cache small_store)" by (simp add: small_store_def cache_ok_def)
  ultimately show ?thesis by (simp add: store_inv_def small_store_def map_le_def)
qed

lemma local_store_coherent_witness:
  "\<exists>s'. local_write lru_victim ''a'' ''new'' small_store = Inr s' \<and>
     (\<exists>s''. local_read lru_victim ''a'' s' = Inr (''new'', s'')) \<and>
     (\<exists>s''. local_read lru_victim ''b'' s' = Inr (''x'', s''))"
proof -
  obtain s' where w: "local_write lru_victim ''a'' ''new'' small_store = Inr s'"
    using cache_setitem_lemma[OF evict_ok_lru, of "ls_cache small_store" "[''r'', ''a'']" "''new''"] small_store_inv plain_ab
    by (auto simp: local_write_def small_store_def store_inv_def get_full_path_plain is_dir_def is_above_def)
  have fit: "int (length ''new'') \<le> c_max_memory (ls_cache small_store)" by (simp add: small_store_def)
  have "plain_path ''a''" using plain_ab by simp
  from local_store_coherent[OF evict_ok_lru small_store_inv this fit w] plain_ab w show ?thesis
    by (simp add: small_store_def)
qed

text \<open>
  A long write is not seen. If a path is cached and longer contents than the memory bound are
  written to it, the write succeeds and the disk has the new contents, but the cache still has the
  old entry, and reading the path returns the old contents.
\<close>

theorem oversize_write_reads_stale:
  assumes "get_full_path (ls_root s) path = Inr full" "map_of (c_entries (ls_cache s)) full = Some old"
    "int (length contents) > c_max_memory (ls_cache s)" "local_write evict path contents s = Inr s'"
  shows "dict_get (ls_disk s') full = Some contents \<and>
    (\<exists>s''. local_read evict path s' = Inr (old, s''))"
proof -
  note d = local_write_disk[OF assms(4,1)]
  have "ls_cache s' = ls_cache s" using d(3) assms(3) by (simp add: cache_setitem_def)
  then show ?thesis using assms(1,2) d(1,2)
    by (simp add: local_read_def cache_contains_def cache_get_def)
qed

lemma oversize_write_reads_stale_witness:
  "\<exists>s'. local_write lru_victim ''a'' ''longer'' small_store = Inr s' \<and>
     dict_get (ls_disk s') [''r'', ''a''] = Some ''longer'' \<and>
     (\<exists>s''. local_read lru_victim ''a'' s' = Inr (''old'', s''))"
proof -
  have root: "\<forall>c \<in> set (ls_root small_store). normal_name c" using small_store_inv by (simp add: store_inv_def)
  have f: "get_full_path (ls_root small_store) ''a'' = Inr [''r'', ''a'']"
    using get_full_path_plain[OF root, of "''a''"] plain_ab by (simp add: small_store_def)
  obtain s' where w: "local_write lru_victim ''a'' ''longer'' small_store = Inr s'"
    using f by (auto simp: local_write_def small_store_def is_dir_def is_above_def cache_setitem_def)
  have c: "map_of (c_entries (ls_cache small_store)) [''r'', ''a''] = Some ''old''"
    "int (length ''longer'') > c_max_memory (ls_cache small_store)" by (simp_all add: small_store_def)
  from oversize_write_reads_stale[OF f c w] w show ?thesis by blast
qed

section \<open>The interface\<close>

text \<open>
  What the event log relies on: the files of the store as a map from plain relative paths to
  contents, and what each operation does to it. \<open>below D p\<close>: some file of \<open>D\<close> lies under \<open>p\<close>.
\<close>

definition below :: "str set \<Rightarrow> str \<Rightarrow> bool" where
  "below D p \<longleftrightarrow> (\<exists>q \<in> D. py_startswith q (p @ [slash]))"

definition under :: "str set \<Rightarrow> str \<Rightarrow> bool" where
  "under D p \<longleftrightarrow> (\<exists>q \<in> D. py_startswith p (q @ [slash]))"

locale file_store =
  fixes inv :: "'s \<Rightarrow> bool"
    and files :: "'s \<Rightarrow> str \<Rightarrow> str option"
    and fits :: "'s \<Rightarrow> str \<Rightarrow> bool"
    and fs_read :: "str \<Rightarrow> 's \<Rightarrow> py_exc + str \<times> 's"
    and fs_write :: "str \<Rightarrow> str \<Rightarrow> 's \<Rightarrow> py_exc + 's"
    and fs_delete :: "str \<Rightarrow> 's \<Rightarrow> 's"
    and fs_exists :: "str \<Rightarrow> 's \<Rightarrow> py_exc + bool"
    and fs_list :: "str \<Rightarrow> 's \<Rightarrow> py_exc + str list"
  assumes read_law: "inv s \<Longrightarrow> plain_path p \<Longrightarrow> files s p = Some c \<Longrightarrow>
      \<exists>s'. fs_read p s = Inr (c, s') \<and> inv s' \<and> files s' = files s \<and> fits s' = fits s"
    and write_law: "inv s \<Longrightarrow> plain_path p \<Longrightarrow> fits s c \<Longrightarrow> \<not> below (dom (files s)) p \<Longrightarrow>
      \<not> under (dom (files s)) p \<Longrightarrow>
      \<exists>s'. fs_write p c s = Inr s' \<and> inv s' \<and> files s' = (files s)(p \<mapsto> c) \<and> fits s' = fits s"
    and delete_law: "inv s \<Longrightarrow> plain_path p \<Longrightarrow> \<not> below (dom (files s)) p \<Longrightarrow>
      inv (fs_delete p s) \<and> files (fs_delete p s) = (files s)(p := None) \<and> fits (fs_delete p s) = fits s"
    and exists_law: "inv s \<Longrightarrow> plain_path p \<Longrightarrow> \<not> below (dom (files s)) p \<Longrightarrow>
      fs_exists p s = Inr (files s p \<noteq> None)"
    and list_law: "inv s \<Longrightarrow> plain_path d \<Longrightarrow> files s d = None \<Longrightarrow>
      (\<And>nm. d @ [slash] @ nm \<in> dom (files s) \<Longrightarrow> slash \<notin> set nm) \<Longrightarrow>
      \<exists>ps. fs_list d s = Inr ps \<and> distinct ps \<and> set ps = {p \<in> dom (files s). py_startswith p (d @ [slash])}"
    and plain_files: "inv s \<Longrightarrow> files s p = Some c \<Longrightarrow> plain_path p"

section \<open>The local store provides it\<close>

definition local_files :: "local_store \<Rightarrow> str \<Rightarrow> str option" where
  "local_files s p = (if plain_path p then dict_get (ls_disk s) (ls_root s @ py_split slash p) else None)"

definition local_fits :: "local_store \<Rightarrow> str \<Rightarrow> bool" where
  "local_fits s c \<longleftrightarrow> int (length c) \<le> c_max_memory (ls_cache s)"

lemma py_split_append: "py_split c (p @ c # q) = py_split c p @ py_split c q"
proof (induction p)
  case (Cons x p)
  then show ?case by (cases "py_split c p") (auto simp: split: list.splits)
qed simp

lemma py_join_append: "xs \<noteq> [] \<Longrightarrow> ys \<noteq> [] \<Longrightarrow> py_join sep (xs @ ys) = py_join sep xs @ sep @ py_join sep ys"
proof (induction xs)
  case (Cons x xs)
  then show ?case by (cases xs; cases ys) auto
qed simp

lemma split_above:
  "is_above (py_split slash p) (py_split slash q) \<longleftrightarrow> py_startswith q (p @ [slash])"
proof
  assume "is_above (py_split slash p) (py_split slash q)"
  then obtain cs where cs: "py_split slash q = py_split slash p @ cs" "cs \<noteq> []"
    unfolding is_above_def by (metis append_take_drop_id drop_eq_Nil linorder_not_le)
  have "q = py_join [slash] (py_split slash p @ cs)" using py_join_split[of slash q] cs(1) by simp
  also have "\<dots> = p @ [slash] @ py_join [slash] cs"
    using cs(2) by (simp add: py_join_append py_join_split)
  finally show "py_startswith q (p @ [slash])" by (auto simp: py_startswith_iff)
next
  assume "py_startswith q (p @ [slash])"
  then obtain r where "q = p @ slash # r" by (auto simp: py_startswith_iff)
  then show "is_above (py_split slash p) (py_split slash q)"
    by (simp add: is_above_def py_split_append)
qed

lemma is_above_root: "is_above (r @ f) (r @ g) \<longleftrightarrow> is_above f g"
  by (simp add: is_above_def)

lemma local_files_plain: "plain_path p \<Longrightarrow> local_files s p = dict_get (ls_disk s) (ls_root s @ py_split slash p)"
  by (simp add: local_files_def)

lemma disk_above:
  assumes "store_inv s"
  shows "(\<exists>g \<in> set (dict_keys (ls_disk s)). is_above (ls_root s @ py_split slash p) g) \<longleftrightarrow> below (dom (local_files s)) p"
proof
  assume "\<exists>g \<in> set (dict_keys (ls_disk s)). is_above (ls_root s @ py_split slash p) g"
  then obtain g where g: "g \<in> set (dict_keys (ls_disk s))" "is_above (ls_root s @ py_split slash p) g" by blast
  then obtain q where q: "plain_path q" "g = ls_root s @ py_split slash q" using assms by (auto simp: store_inv_def)
  have "dict_get (ls_disk s) g \<noteq> None" using g(1) by (simp add: map_of_eq_None_iff)
  then have "q \<in> dom (local_files s)" using q by (auto simp: local_files_plain)
  moreover have "py_startswith q (p @ [slash])" using g(2) q(2) by (simp add: is_above_root split_above)
  ultimately show "below (dom (local_files s)) p" by (auto simp: below_def)
next
  assume "below (dom (local_files s)) p"
  then obtain q c where q: "local_files s q = Some c" "py_startswith q (p @ [slash])" by (auto simp: below_def)
  then have "plain_path q" "dict_get (ls_disk s) (ls_root s @ py_split slash q) = Some c"
    by (auto simp: local_files_def split: if_splits)
  then have "ls_root s @ py_split slash q \<in> set (dict_keys (ls_disk s))"
    by (metis map_of_eq_None_iff option.distinct(1) set_map)
  moreover have "is_above (ls_root s @ py_split slash p) (ls_root s @ py_split slash q)"
    using q(2) by (simp add: is_above_root split_above)
  ultimately show "\<exists>g \<in> set (dict_keys (ls_disk s)). is_above (ls_root s @ py_split slash p) g" by blast
qed

lemma disk_under:
  assumes "store_inv s" "\<exists>g \<in> set (dict_keys (ls_disk s)). is_above g (ls_root s @ py_split slash p)"
  shows "under (dom (local_files s)) p"
proof -
  obtain g where g: "g \<in> set (dict_keys (ls_disk s))" "is_above g (ls_root s @ py_split slash p)" using assms(2) by blast
  then obtain q where q: "plain_path q" "g = ls_root s @ py_split slash q" using assms by (auto simp: store_inv_def)
  have "dict_get (ls_disk s) g \<noteq> None" using g(1) by (simp add: map_of_eq_None_iff)
  then have "q \<in> dom (local_files s)" using q by (auto simp: local_files_plain)
  moreover have "py_startswith p (q @ [slash])" using g(2) q(2) by (simp add: is_above_root split_above)
  ultimately show ?thesis by (auto simp: under_def)
qed

lemma is_dir_plain:
  assumes "store_inv s"
  shows "is_dir s (ls_root s @ py_split slash p) \<longleftrightarrow> below (dom (local_files s)) p"
  unfolding is_dir_def disk_above[OF assms] by (auto simp: is_above_def)

lemma is_file_plain: "plain_path p \<Longrightarrow> is_file (ls_disk s) (ls_root s @ py_split slash p) \<longleftrightarrow> local_files s p \<noteq> None"
  by (simp add: is_file_def local_files_plain map_of_eq_None_iff)

lemma local_files_write:
  assumes "plain_path p" "ls_disk s' = dict_put (ls_root s @ py_split slash p) c (ls_disk s)" "ls_root s' = ls_root s"
  shows "local_files s' = (local_files s)(p \<mapsto> c)"
  using assms by (auto simp: local_files_def fun_eq_iff dest: py_split_inject)

lemma local_write_law:
  assumes ev: "evict_ok evict" and inv: "store_inv s" and p: "plain_path p" and fit: "local_fits s c"
    and nb: "\<not> below (dom (local_files s)) p" and nu: "\<not> under (dom (local_files s)) p"
  shows "\<exists>s'. local_write evict p c s = Inr s' \<and> store_inv s' \<and>
    local_files s' = (local_files s)(p \<mapsto> c) \<and> local_fits s' = local_fits s"
proof -
  let ?full = "ls_root s @ py_split slash p"
  have root: "\<forall>c \<in> set (ls_root s). normal_name c" and ok: "cache_ok (ls_cache s)"
    using inv by (simp_all add: store_inv_def)
  have full: "get_full_path (ls_root s) p = Inr ?full" by (rule get_full_path_plain[OF root p])
  obtain c' where "cache_setitem evict ?full c (ls_cache s) = Inr c'"
    using cache_setitem_lemma[OF ev ok, of ?full c] by blast
  moreover have "\<not> (\<exists>g \<in> set (dict_keys (ls_disk s)). is_above g ?full)" using disk_under[OF inv, of p] nu by blast
  moreover have "\<not> is_dir s ?full" using is_dir_plain[OF inv] nb by simp
  ultimately obtain s' where w: "local_write evict p c s = Inr s'"
    using full by (auto simp: local_write_def Let_def)
  have "int (length c) \<le> c_max_memory (ls_cache s)" using fit by (simp add: local_fits_def)
  note i = store_inv_write[OF ev inv this p w]
  have "local_files s' = (local_files s)(p \<mapsto> c)"
    by (rule local_files_write[OF p local_write_disk(1,2)[OF w full]])
  then show ?thesis using w i by (auto simp: local_fits_def fun_eq_iff)
qed

lemma local_delete_law:
  assumes inv: "store_inv s" and p: "plain_path p" and nb: "\<not> below (dom (local_files s)) p"
  shows "store_inv (local_delete p s) \<and> local_files (local_delete p s) = (local_files s)(p := None) \<and>
    local_fits (local_delete p s) = local_fits s"
proof -
  let ?full = "ls_root s @ py_split slash p"
  have root: "\<forall>c \<in> set (ls_root s). normal_name c" and ok: "cache_ok (ls_cache s)"
    using inv by (simp_all add: store_inv_def)
  have full: "get_full_path (ls_root s) p = Inr ?full" by (rule get_full_path_plain[OF root p])
  have nd: "\<not> is_dir s ?full" using is_dir_plain[OF inv] nb by simp
  show ?thesis
  proof (cases "local_files s p")
    case None
    then have "\<not> path_exists s ?full" using nd is_file_plain[OF p] by (simp add: path_exists_def)
    then show ?thesis using full inv None by (auto simp: local_delete_def fun_upd_idem)
  next
    case (Some c)
    then have f: "is_file (ls_disk s) ?full" using is_file_plain[OF p] by simp
    have eq: "local_delete p s = s\<lparr>ls_disk := dict_del ?full (ls_disk s), ls_cache := cache_discard ?full (ls_cache s)\<rparr>"
      using f full by (simp add: local_delete_def path_exists_def)
    have "local_files (local_delete p s) = (local_files s)(p := None)"
      unfolding eq using p by (auto simp: local_files_def fun_eq_iff dest: py_split_inject)
    moreover have "store_inv (local_delete p s)"
      unfolding eq using inv cache_discard_ok[OF ok, of ?full]
      by (auto simp: store_inv_def distinct_delete delete_keys distinct_removeAll map_le_def delete_conv')
    moreover have "local_fits (local_delete p s) = local_fits s"
      unfolding eq using cache_discard_ok[OF ok, of ?full] by (simp add: local_fits_def fun_eq_iff)
    ultimately show ?thesis by blast
  qed
qed

lemma plain_path_join:
  assumes "plain_path d" "plain_path (d @ slash # nm)"
  shows "os_path_join d nm = d @ slash # nm"
proof -
  have n: "\<forall>c \<in> set (py_split slash nm). normal_name c"
    using assms(2) by (simp add: plain_path_def py_split_append)
  have e: "\<not> normal_name ''''" by (simp add: normal_name_def)
  have nm: "nm \<noteq> []" using n e by force
  have nm': "\<not> py_startswith nm [slash]"
  proof
    assume "py_startswith nm [slash]"
    then obtain r where "nm = slash # r" by (auto simp: py_startswith_iff)
    then show False using n e by simp
  qed
  have "d \<noteq> []" using assms(1) e by (force simp: plain_path_def)
  moreover have "last d \<noteq> slash"
  proof
    assume "last d = slash"
    then have "d = butlast d @ slash # []" using \<open>d \<noteq> []\<close> by (metis append_butlast_last_id)
    then have "py_split slash d = py_split slash (butlast d) @ [[]]"
      by (metis py_split_append py_split.simps(1))
    then show False using assms(1) by (simp add: plain_path_def normal_name_def)
  qed
  ultimately show ?thesis using nm nm' by (simp add: os_path_join_def)
qed

lemma local_list_law:
  assumes inv: "store_inv s" and d: "plain_path d" and nf: "local_files s d = None"
    and flat: "\<And>nm. d @ [slash] @ nm \<in> dom (local_files s) \<Longrightarrow> slash \<notin> set nm"
  shows "\<exists>ps. local_list d s = Inr ps \<and> distinct ps \<and>
    set ps = {p \<in> dom (local_files s). py_startswith p (d @ [slash])}"
proof -
  let ?full = "ls_root s @ py_split slash d"
  let ?S = "{p \<in> dom (local_files s). py_startswith p (d @ [slash])}"
  have root: "\<forall>c \<in> set (ls_root s). normal_name c" using inv by (simp add: store_inv_def)
  have full: "get_full_path (ls_root s) d = Inr ?full" by (rule get_full_path_plain[OF root d])
  have nfile: "\<not> is_file (ls_disk s) ?full" using is_file_plain[OF d] nf by simp
  show ?thesis
  proof (cases "path_exists s ?full")
    case False
    then have "\<not> below (dom (local_files s)) d" using is_dir_plain[OF inv] by (simp add: path_exists_def)
    then have "?S = {}" by (auto simp: below_def)
    then show ?thesis using False full by (simp add: local_list_def)
  next
    case True
    have names: "nm \<in> set (listdir s ?full) \<longleftrightarrow> d @ slash # nm \<in> dom (local_files s)" for nm
    proof
      assume "nm \<in> set (listdir s ?full)"
      then obtain g where g: "g \<in> set (dict_keys (ls_disk s))" "is_above ?full g" "nm = g ! length ?full"
        by (auto simp: listdir_def)
      then obtain q where q: "plain_path q" "g = ls_root s @ py_split slash q" using inv by (auto simp: store_inv_def)
      have "dict_get (ls_disk s) g \<noteq> None" using g(1) by (simp add: map_of_eq_None_iff)
      then have qd: "q \<in> dom (local_files s)" using q by (auto simp: local_files_plain)
      have "py_startswith q (d @ [slash])" using g(2) q(2) by (simp add: is_above_root split_above)
      then obtain r where r: "q = d @ slash # r" by (auto simp: py_startswith_iff)
      then have "slash \<notin> set r" using flat[of r] qd by simp
      then have "g ! length ?full = r" using q(2) r by (simp add: py_split_append py_split_id nth_append)
      then show "d @ slash # nm \<in> dom (local_files s)" using g(3) r qd by simp
    next
      assume a: "d @ slash # nm \<in> dom (local_files s)"
      then have "slash \<notin> set nm" using flat[of nm] by simp
      then have sp: "py_split slash (d @ slash # nm) = py_split slash d @ [nm]"
        by (simp add: py_split_append py_split_id)
      from a have p: "plain_path (d @ slash # nm)" "dict_get (ls_disk s) (ls_root s @ py_split slash (d @ slash # nm)) \<noteq> None"
        by (auto simp: local_files_def split: if_splits)
      then have "ls_root s @ py_split slash (d @ slash # nm) \<in> set (dict_keys (ls_disk s))"
        by (simp add: map_of_eq_None_iff)
      moreover have "is_above ?full (ls_root s @ py_split slash (d @ slash # nm))"
        by (simp add: sp is_above_def)
      moreover have "(ls_root s @ py_split slash (d @ slash # nm)) ! length ?full = nm"
        by (simp add: sp nth_append)
      ultimately show "nm \<in> set (listdir s ?full)" unfolding listdir_def set_remdups set_map set_filter
        by (metis (mono_tags, lifting) image_eqI mem_Collect_eq set_map)
    qed
    have entry: "rbind (get_full_path (ls_root s) f) (\<lambda>g. Inr (if is_dir s g then f @ [slash] else f)) = Inr f"
      if f: "f \<in> set (map (os_path_join d) (listdir s ?full))" for f
    proof -
      obtain nm where nm: "nm \<in> set (listdir s ?full)" "f = os_path_join d nm" using f by auto
      then have mem: "d @ slash # nm \<in> dom (local_files s)" using names by simp
      then have p: "plain_path (d @ slash # nm)" by (auto simp: local_files_def split: if_splits)
      have f': "f = d @ slash # nm" using nm(2) plain_path_join[OF d p] by simp
      have "\<not> below (dom (local_files s)) f"
      proof
        assume "below (dom (local_files s)) f"
        then obtain r where "d @ slash # nm @ slash # r \<in> dom (local_files s)"
          unfolding below_def f' py_startswith_iff by auto
        then show False using flat[of "nm @ slash # r"] by simp
      qed
      then show ?thesis using get_full_path_plain[OF root p] is_dir_plain[OF inv, of f] f' by simp
    qed
    have "rmap (\<lambda>f. rbind (get_full_path (ls_root s) f) (\<lambda>g. Inr (if is_dir s g then f @ [slash] else f)))
        (map (os_path_join d) (listdir s ?full)) = Inr (map (\<lambda>f. f) (map (os_path_join d) (listdir s ?full)))"
      by (rule rmap_Inr) (rule entry)
    then have ls: "local_list d s = Inr (map (os_path_join d) (listdir s ?full))"
      using True nfile full by (simp only: local_list_def rbind_Inr if_False simp_thms list.map_ident)
    have join: "os_path_join d nm = d @ slash # nm" if "nm \<in> set (listdir s ?full)" for nm
      using that names plain_path_join[OF d] by (auto simp: local_files_def split: if_splits)
    from join have "set (map (os_path_join d) (listdir s ?full)) = (\<lambda>nm. d @ slash # nm) ` set (listdir s ?full)"
      by simp
    also have "(\<lambda>nm. d @ slash # nm) ` set (listdir s ?full) = ?S"
      using names by (auto simp: py_startswith_iff)
    finally have "set (map (os_path_join d) (listdir s ?full)) = ?S" .
    moreover from join have "inj_on (os_path_join d) (set (listdir s ?full))"
      by (simp add: inj_on_def)
    then have "distinct (map (os_path_join d) (listdir s ?full))"
      by (simp add: distinct_map listdir_def)
    ultimately show ?thesis using ls by blast
  qed
qed

definition lru_read :: "str \<Rightarrow> local_store \<Rightarrow> py_exc + str \<times> local_store" where
  "lru_read = local_read lru_victim"

definition lru_write :: "str \<Rightarrow> str \<Rightarrow> local_store \<Rightarrow> py_exc + local_store" where
  "lru_write = local_write lru_victim"

interpretation local_fs: file_store store_inv local_files local_fits lru_read lru_write
  local_delete local_exists local_list
proof
  fix s :: local_store and p c :: str
  assume a: "store_inv s" "plain_path p" "local_files s p = Some c"
  have root: "\<forall>c \<in> set (ls_root s). normal_name c" using a(1) by (simp add: store_inv_def)
  obtain s' where s': "local_read lru_victim p s = Inr (c, s')" "store_inv s'" "same_files s s'"
    using local_read_ok[OF evict_ok_lru a(1) get_full_path_plain[OF root a(2)], of c] a(2,3)
    by (auto simp: local_files_plain)
  moreover have "local_files s' = local_files s" "local_fits s' = local_fits s"
    using s'(3) by (auto simp: same_files_def local_files_def local_fits_def fun_eq_iff)
  ultimately show "\<exists>s'. lru_read p s = Inr (c, s') \<and> store_inv s' \<and> local_files s' = local_files s \<and> local_fits s' = local_fits s"
    by (auto simp: lru_read_def)
next
  fix s :: local_store and p c :: str
  assume "store_inv s" "plain_path p" "local_fits s c" "\<not> below (dom (local_files s)) p" "\<not> under (dom (local_files s)) p"
  then show "\<exists>s'. lru_write p c s = Inr s' \<and> store_inv s' \<and> local_files s' = (local_files s)(p \<mapsto> c) \<and> local_fits s' = local_fits s"
    using local_write_law[OF evict_ok_lru] by (simp add: lru_write_def)
next
  fix s :: local_store and p :: str
  assume a: "store_inv s" "plain_path p" "\<not> below (dom (local_files s)) p"
  then show "store_inv (local_delete p s) \<and> local_files (local_delete p s) = (local_files s)(p := None) \<and> local_fits (local_delete p s) = local_fits s"
    by (rule local_delete_law)
  have root: "\<forall>c \<in> set (ls_root s). normal_name c" using a(1) by (simp add: store_inv_def)
  show "local_exists p s = Inr (local_files s p \<noteq> None)"
    using get_full_path_plain[OF root a(2)] is_dir_plain[OF a(1), of p] is_file_plain[OF a(2), of s] a(3)
    by (simp add: local_exists_def path_exists_def)
next
  fix s :: local_store and d :: str
  assume "store_inv s" "plain_path d" "local_files s d = None"
    "\<And>nm. d @ [slash] @ nm \<in> dom (local_files s) \<Longrightarrow> slash \<notin> set nm"
  then show "\<exists>ps. local_list d s = Inr ps \<and> distinct ps \<and> set ps = {p \<in> dom (local_files s). py_startswith p (d @ [slash])}"
    by (rule local_list_law)
next
  fix s :: local_store and p c :: str
  assume "local_files s p = Some c"
  then show "plain_path p" by (auto simp: local_files_def split: if_splits)
qed

section \<open>The in-memory store\<close>

text \<open>
  \<open>InMemoryFileStore\<close>: the files are the entries of a \<^typ>\<open>str cache\<close>, so they are evicted when a
  bound is reached. \<open>list\<close>, \<open>delete\<close> and \<open>exists\<close> work on the keys as strings; the listing is given
  in the order of the entries.
\<close>

definition mem_write :: "str evict \<Rightarrow> str \<Rightarrow> str \<Rightarrow> str cache \<Rightarrow> py_exc + str cache" where
  "mem_write evict path contents c = cache_setitem evict path contents c"

definition mem_read :: "str \<Rightarrow> str cache \<Rightarrow> py_exc + str \<times> str cache" where
  "mem_read path c = (if \<not> cache_contains path c then Inl (FileNotFoundError path) else cache_get path c)"

definition mem_list_step :: "str \<Rightarrow> str \<Rightarrow> str list \<Rightarrow> py_exc + str list" where
  "mem_list_step path file files =
     (if \<not> py_startswith file path then Inr files
      else let parts0 = py_split slash (drop (length path) file);
               parts = (if hd parts0 = [] then tl parts0 else parts0)
        in case parts of
             [_] \<Rightarrow> Inr (files @ [file])
           | [] \<Rightarrow> Inl IndexError
           | part # _ \<Rightarrow>
               let d0 = os_path_join path part;
                   d = (if last d0 = slash then d0 else d0 @ [slash])
               in Inr (if d \<in> set files then files else files @ [d]))"

fun mem_list_from :: "str \<Rightarrow> str list \<Rightarrow> str list \<Rightarrow> py_exc + str list" where
  "mem_list_from path [] files = Inr files"
| "mem_list_from path (k # ks) files = rbind (mem_list_step path k files) (mem_list_from path ks)"

definition mem_list :: "str \<Rightarrow> str cache \<Rightarrow> py_exc + str list" where
  "mem_list path c = mem_list_from path (map fst (c_entries c)) []"

definition mem_delete :: "str \<Rightarrow> str cache \<Rightarrow> str cache" where
  "mem_delete path c = fold cache_discard (filter (\<lambda>k. py_startswith k path) (map fst (c_entries c))) c"

definition mem_exists :: "str \<Rightarrow> str cache \<Rightarrow> bool" where
  "mem_exists path c \<longleftrightarrow> cache_contains path c \<or> (\<exists>k \<in> set (map fst (c_entries c)). py_startswith k (path @ [slash]))"

lemma fold_discard:
  "cache_ok c \<Longrightarrow> cache_ok (fold cache_discard ks c) \<and>
     map_of (c_entries (fold cache_discard ks c)) = (map_of (c_entries c)) |` (- set ks)"
proof (induction ks arbitrary: c)
  case (Cons k ks)
  have "cache_ok (cache_discard k c)" "map_of (c_entries (cache_discard k c)) = (map_of (c_entries c))(k := None)"
    using cache_discard_ok[OF Cons.prems, of k] by auto
  with Cons.IH[of "cache_discard k c"] show ?case by (auto simp: fun_eq_iff restrict_map_def)
qed (simp add: restrict_map_def)

text \<open>
  What deleting from the in-memory store removes. The bounds of the store survive, and the files
  that remain are exactly those whose path does not begin with the given string: besides the file
  itself and what is under it, also every sibling whose name merely continues the string
  (\<open>conversation1\<close> takes \<open>conversation10\<close> with it), which the local store keeps.
\<close>

theorem mem_delete_prefix:
  assumes "cache_ok c"
  shows "cache_ok (mem_delete path c) \<and>
    (\<forall>k. map_of (c_entries (mem_delete path c)) k =
       (if py_startswith k path then None else map_of (c_entries c) k))"
proof -
  have "k \<in> set (filter (\<lambda>k. py_startswith k path) (map fst (c_entries c))) \<longleftrightarrow>
      py_startswith k path \<and> map_of (c_entries c) k \<noteq> None" for k
    by (auto simp: map_of_eq_None_iff)
  then show ?thesis
    using fold_discard[OF assms, of "filter (\<lambda>k. py_startswith k path) (map fst (c_entries c))"]
    by (auto simp: mem_delete_def restrict_map_def)
qed

lemma mem_delete_prefix_witness:
  "map_of (c_entries (mem_delete ''a1'' \<lparr>c_entries = [(''a1'', ''x''), (''a10'', ''y''), (''b'', ''z'')], c_memory = 3,
     c_max_memory = 9, c_max_size = 9\<rparr>)) ''a10'' = None"
proof -
  have "cache_ok \<lparr>c_entries = [(''a1'', ''x''), (''a10'', ''y''), (''b'', ''z'')], c_memory = 3,
     c_max_memory = 9, c_max_size = 9\<rparr>" by (simp add: cache_ok_def)
  from mem_delete_prefix[OF this, of "''a1''"] show ?thesis by simp
qed

end
