(* ===== verification/Event_Store.thy ===== *)
theory Event_Store
  imports Events File_Store Text_Utils
begin

text \<open>
  \<open>sdk/conversation/event_store.py\<close>: the append-only event log, one file per event, and the tree its
  \<open>parent_id\<close>s form.

  The store is reached through the operations of a \<^term>\<open>file_store\<close>, given as a record. The JSON
  codec of the events (pydantic) is two arguments, \<open>dump\<close> and \<open>load\<close>; that loading gives back what
  was dumped is a hypothesis where it is used. The file lock makes \<open>append\<close> one atomic step; the
  exception of a write guard that refuses is an argument. The in-memory maps of the log survive an
  exception of the code only up to the point of the raise, which no modelled caller observes.
\<close>

section \<open>File names\<close>

definition root_parent_id :: str where
  "root_parent_id = ''__root__''"

definition pad5 :: "nat \<Rightarrow> str" where
  "pad5 i = replicate (5 - length (nat_to_str i)) CHR ''0'' @ nat_to_str i"

definition event_file_name :: "nat \<Rightarrow> str \<Rightarrow> str" where
  "event_file_name idx event_id = ''event-'' @ pad5 idx @ ''-'' @ event_id @ ''.json''"

definition in_dir :: "str \<Rightarrow> str \<Rightarrow> str" where
  "in_dir dir name = dir @ [slash] @ name"

definition marker_name :: "nat \<Rightarrow> str" where
  "marker_name len = ''.eventlog-len-'' @ nat_to_str len @ ''.marker''"

definition is_id_char :: "char \<Rightarrow> bool" where
  "is_id_char c = (let n = of_char c :: nat in
     48 \<le> n \<and> n \<le> 57 \<or> 97 \<le> n \<and> n \<le> 102 \<or> 65 \<le> n \<and> n \<le> 70 \<or> n = 45)"

fun span_str :: "(char \<Rightarrow> bool) \<Rightarrow> str \<Rightarrow> str \<times> str" where
  "span_str P [] = ([], [])"
| "span_str P (c # s) = (if P c then (let (a, b) = span_str P s in (c # a, b)) else ([], c # s))"

text \<open>
  \<open>EVENT_NAME_RE\<close>: five or more digits, then eight or more hexadecimal digits and hyphens; neither
  class contains the character that follows it, so the longest match is the only one. The final
  \<open>$\<close> also matches before a newline at the end.
\<close>

definition parse_event_name :: "str \<Rightarrow> (nat \<times> str) option" where
  "parse_event_name name =
     (if \<not> py_startswith name ''event-'' then None
      else let (ds, r) = span_str is_digit (drop 6 name) in
        if length ds < 5 \<or> \<not> py_startswith r ''-'' then None
        else let (eid, r2) = span_str is_id_char (tl r) in
          if length eid \<ge> 8 \<and> (r2 = ''.json'' \<or> r2 = ''.json'' @ [newline])
          then Some (digits_value ds, eid) else None)"

definition quoted :: "str \<Rightarrow> str" where
  "quoted s = CHR 0x27 # s @ [CHR 0x27]"

definition py_endswith :: "str \<Rightarrow> str \<Rightarrow> bool" where
  "py_endswith s e = py_startswith (rev s) (rev e)"

section \<open>The log\<close>

record 's fs_ops =
  op_read :: "str \<Rightarrow> 's \<Rightarrow> py_exc + str \<times> 's"
  op_write :: "str \<Rightarrow> str \<Rightarrow> 's \<Rightarrow> py_exc + 's"
  op_delete :: "str \<Rightarrow> 's \<Rightarrow> 's"
  op_exists :: "str \<Rightarrow> 's \<Rightarrow> py_exc + bool"
  op_list :: "str \<Rightarrow> 's \<Rightarrow> py_exc + str list"

record event_log =
  el_dir :: str
  el_id_to_idx :: "(str, nat) dict"
  el_idx_to_id :: "(nat, str) dict"
  el_cache :: "(nat, event) dict"
  el_length :: nat

text \<open>Scanning the directory.\<close>

definition note_path :: "(nat, str) dict \<Rightarrow> str \<Rightarrow> (nat, str) dict" where
  "note_path d p = (case parse_event_name (posix_path_name p) of
     None \<Rightarrow> d | Some (idx, evt_id) \<Rightarrow> dict_put idx evt_id d)"

function first_gap :: "(nat, str) dict \<Rightarrow> nat \<Rightarrow> nat" where
  "first_gap d n = (if n \<in> set (dict_keys d) then first_gap d (Suc n) else n)"
  by pat_completeness auto
termination
proof (relation "measure (\<lambda>(d, n). card {k \<in> set (dict_keys d). n \<le> k})")
  fix d :: "(nat, str) dict" and n :: nat
  assume n: "n \<in> set (dict_keys d)"
  have "{k \<in> set (dict_keys d). Suc n \<le> k} \<subset> {k \<in> set (dict_keys d). n \<le> k}"
  proof (rule psubsetI)
    show "{k \<in> set (dict_keys d). Suc n \<le> k} \<subseteq> {k \<in> set (dict_keys d). n \<le> k}"
      by (rule Collect_mono) simp
    have "n \<in> {k \<in> set (dict_keys d). n \<le> k}" using n by simp
    moreover have "n \<notin> {k \<in> set (dict_keys d). Suc n \<le> k}" by simp
    ultimately show "{k \<in> set (dict_keys d). Suc n \<le> k} \<noteq> {k \<in> set (dict_keys d). n \<le> k}" by blast
  qed
  then have "card {k \<in> set (dict_keys d). Suc n \<le> k} < card {k \<in> set (dict_keys d). n \<le> k}"
    by (intro psubset_card_mono) simp_all
  then show "((d, Suc n), (d, n)) \<in> measure (\<lambda>(d, n). card {k \<in> set (dict_keys d). n \<le> k})" by simp
qed simp

declare first_gap.simps [simp del]

definition clear_log :: "event_log \<Rightarrow> event_log" where
  "clear_log log = log\<lparr>el_id_to_idx := [], el_idx_to_id := [], el_cache := []\<rparr>"

definition index_one :: "(nat, str) dict \<Rightarrow> event_log \<Rightarrow> nat \<Rightarrow> event_log" where
  "index_one by_idx log i =
     (case dict_get by_idx i of
        None \<Rightarrow> log
      | Some evt_id \<Rightarrow>
          log\<lparr>el_idx_to_id := dict_put i evt_id (el_idx_to_id log),
              el_id_to_idx := (if dict_get (el_id_to_idx log) evt_id \<noteq> None then el_id_to_idx log
                               else dict_put evt_id i (el_id_to_idx log))\<rparr>)"

definition scan_and_build_index :: "'s fs_ops \<Rightarrow> 's \<Rightarrow> event_log \<Rightarrow> nat \<times> event_log" where
  "scan_and_build_index F s log =
     (case op_list F (el_dir log) s of
        Inl _ \<Rightarrow> (0, clear_log log)
      | Inr paths \<Rightarrow>
          let by_idx = foldl note_path [] paths in
          if by_idx = [] then (0, clear_log log)
          else let n = first_gap by_idx 0
            in (n, foldl (index_one by_idx) (clear_log log) [0..<n]))"

definition open_log :: "'s fs_ops \<Rightarrow> str \<Rightarrow> 's \<Rightarrow> event_log" where
  "open_log F dir s =
     (let (n, log) = scan_and_build_index F s
            \<lparr>el_dir = dir, el_id_to_idx = [], el_idx_to_id = [], el_cache = [], el_length = 0\<rparr>
      in log\<lparr>el_length := n\<rparr>)"

definition count_events_on_disk :: "'s fs_ops \<Rightarrow> 's \<Rightarrow> event_log \<Rightarrow> nat" where
  "count_events_on_disk F s log =
     (case op_list F (el_dir log) s of
        Inl _ \<Rightarrow> 0
      | Inr paths \<Rightarrow> length (filter (\<lambda>p. py_startswith (posix_path_name p) ''event-'' \<and> py_endswith p ''.json'') paths))"

definition restore_mapping :: "event_log \<Rightarrow> nat \<times> str \<Rightarrow> event_log" where
  "restore_mapping log e = (case e of (idx, evt_id) \<Rightarrow>
     let log1 = (if dict_get (el_idx_to_id log) idx = None
                 then log\<lparr>el_idx_to_id := dict_put idx evt_id (el_idx_to_id log)\<rparr> else log)
     in if dict_get (el_id_to_idx log1) evt_id = None
        then log1\<lparr>el_id_to_idx := dict_put evt_id idx (el_id_to_idx log1)\<rparr> else log1)"

definition sync_from_disk :: "'s fs_ops \<Rightarrow> 's \<Rightarrow> nat \<Rightarrow> event_log \<Rightarrow> event_log" where
  "sync_from_disk F s disk_length log =
     (let (scanned, log1) = scan_and_build_index F s log;
          log2 = foldl restore_mapping log1 (el_idx_to_id log)
      in log2\<lparr>el_length := max scanned disk_length\<rparr>)"

text \<open>Lookup.\<close>

definition get_index :: "str \<Rightarrow> event_log \<Rightarrow> py_exc + nat" where
  "get_index event_id log = (case dict_get (el_id_to_idx log) event_id of
     None \<Rightarrow> Inl KeyError | Some i \<Rightarrow> Inr i)"

definition get_id :: "int \<Rightarrow> event_log \<Rightarrow> py_exc + str" where
  "get_id idx log =
     (let i = (if idx < 0 then idx + int (el_length log) else idx) in
      if i < 0 \<or> i \<ge> int (el_length log) then Inl IndexError
      else case dict_get (el_idx_to_id log) (nat i) of None \<Rightarrow> Inl KeyError | Some e \<Rightarrow> Inr e)"

definition log_contains :: "str \<Rightarrow> event_log \<Rightarrow> bool" where
  "log_contains event_id log \<longleftrightarrow> dict_get (el_id_to_idx log) event_id \<noteq> None"

definition effective_parent_id :: "nat \<Rightarrow> event \<Rightarrow> event_log \<Rightarrow> py_exc + str option" where
  "effective_parent_id idx evt log =
     (if ev_parent_id evt = Some root_parent_id then Inr None
      else if ev_parent_id evt \<noteq> None then Inr (ev_parent_id evt)
      else if idx = 0 then Inr None
      else rbind (get_id (int idx - 1) log) (\<lambda>i. Inr (Some i)))"

definition event_path :: "event_log \<Rightarrow> nat \<Rightarrow> str option \<Rightarrow> py_exc + str" where
  "event_path log idx event_id =
     (case event_id of
        Some e \<Rightarrow> if e \<noteq> '''' then Inr (in_dir (el_dir log) (event_file_name idx e))
          else (case dict_get (el_idx_to_id log) idx of
             None \<Rightarrow> Inl KeyError | Some e' \<Rightarrow> Inr (in_dir (el_dir log) (event_file_name idx e')))
      | None \<Rightarrow> (case dict_get (el_idx_to_id log) idx of
             None \<Rightarrow> Inl KeyError | Some e' \<Rightarrow> Inr (in_dir (el_dir log) (event_file_name idx e'))))"

text \<open>The tail of \<open>_get_single_item\<close> once the path is known.\<close>

definition load_event :: "'s fs_ops \<Rightarrow> (str \<Rightarrow> py_exc + event) \<Rightarrow> nat \<Rightarrow> str \<Rightarrow> 's \<Rightarrow> event_log \<Rightarrow>
    py_exc + event \<times> 's \<times> event_log" where
  "load_event F load i path s log =
     rbind (op_read F path s) (\<lambda>(txt, s').
     if txt = '''' then Inl (FileNotFoundError (''Missing event file: '' @ path))
     else rbind (load txt) (\<lambda>evt. Inr (evt, s', log\<lparr>el_cache := dict_put i evt (el_cache log)\<rparr>)))"

definition get_single_item :: "'s fs_ops \<Rightarrow> (str \<Rightarrow> py_exc + event) \<Rightarrow> int \<Rightarrow> 's \<Rightarrow> event_log \<Rightarrow>
    py_exc + event \<times> 's \<times> event_log" where
  "get_single_item F load idx s log =
     (let j = (if idx < 0 then idx + int (el_length log) else idx) in
      if j < 0 \<or> j \<ge> int (el_length log) then Inl IndexError
      else let i = nat j in
        case dict_get (el_cache log) i of
          Some cached \<Rightarrow> Inr (cached, s, log)
        | None \<Rightarrow>
            (case event_path log i None of
               Inr path \<Rightarrow> load_event F load i path s log
             | Inl _ \<Rightarrow>
                 let (n, log1) = scan_and_build_index F s log; log2 = log1\<lparr>el_length := n\<rparr> in
                 if i \<ge> n then Inl IndexError
                 else rbind (event_path log2 i None) (\<lambda>path. load_event F load i path s log2)))"

text \<open>
  The loop of \<open>path_to_root\<close>. The chain is kept in the order of the result, the root first. The
  loop adds an identifier to \<open>seen\<close> in every round and is given a number of rounds; \<open>None\<close> stands
  for more rounds than that.
\<close>

fun path_loop :: "nat \<Rightarrow> 's fs_ops \<Rightarrow> (str \<Rightarrow> py_exc + event) \<Rightarrow> int option \<Rightarrow> str option \<Rightarrow> str list \<Rightarrow>
    event list \<Rightarrow> 's \<Rightarrow> event_log \<Rightarrow> (py_exc + event list \<times> 's \<times> event_log) option" where
  "path_loop fuel F load limit None seen chain s log = Some (Inr (chain, s, log))"
| "path_loop 0 F load limit (Some cur) seen chain s log = None"
| "path_loop (Suc fuel) F load limit (Some cur) seen chain s log =
     (if (case limit of None \<Rightarrow> False | Some l \<Rightarrow> \<not> int (length chain) < l) then Some (Inr (chain, s, log))
      else if cur \<in> set seen then Some (Inl (ValueError (''Cycle in event tree at '' @ cur)))
      else case rbind (get_index cur log) (\<lambda>idx.
                rbind (get_single_item F load (int idx) s log) (\<lambda>(evt, s1, log1).
                rbind (effective_parent_id idx evt log1) (\<lambda>parent. Inr (evt, parent, s1, log1)))) of
          Inl e \<Rightarrow> Some (Inl e)
        | Inr (evt, parent, s1, log1) \<Rightarrow>
            path_loop fuel F load limit parent (cur # seen) (evt # chain) s1 log1)"

definition path_to_root :: "nat \<Rightarrow> 's fs_ops \<Rightarrow> (str \<Rightarrow> py_exc + event) \<Rightarrow> str option \<Rightarrow> int option \<Rightarrow>
    's \<Rightarrow> event_log \<Rightarrow> (py_exc + event list \<times> 's \<times> event_log) option" where
  "path_to_root fuel F load leaf limit s log = path_loop fuel F load limit leaf [] [] s log"

text \<open>Appending.\<close>

definition marker_path :: "event_log \<Rightarrow> nat \<Rightarrow> str" where
  "marker_path log len = in_dir (el_dir log) (marker_name len)"

definition marker_matches_length :: "'s fs_ops \<Rightarrow> 's \<Rightarrow> event_log \<Rightarrow> bool" where
  "marker_matches_length F s log =
     (case op_exists F (marker_path log (el_length log)) s of Inl _ \<Rightarrow> False | Inr b \<Rightarrow> b)"

definition advance_length_marker :: "'s fs_ops \<Rightarrow> nat \<Rightarrow> event_log \<Rightarrow> 's \<Rightarrow> 's" where
  "advance_length_marker F previous log s =
     (let s1 = op_delete F (marker_path log previous) s in
      case op_write F (marker_path log (el_length log)) '''' s1 of Inl _ \<Rightarrow> s1 | Inr s2 \<Rightarrow> s2)"

definition sync_if_needed :: "'s fs_ops \<Rightarrow> 's \<Rightarrow> event_log \<Rightarrow> event_log" where
  "sync_if_needed F s log =
     (if marker_matches_length F s log then log
      else let disk_length = count_events_on_disk F s log in
        if disk_length > el_length log then sync_from_disk F s disk_length log else log)"

definition log_append :: "'s fs_ops \<Rightarrow> (event \<Rightarrow> str) \<Rightarrow> py_exc option \<Rightarrow> event \<Rightarrow> 's \<Rightarrow> event_log \<Rightarrow>
    py_exc + nat \<times> 's \<times> event_log" where
  "log_append F dump guard evt s log0 =
     (let log = sync_if_needed F s log0; evt_id = ev_id evt in
      case dict_get (el_id_to_idx log) evt_id of
        Some existing \<Rightarrow> Inl (ValueError (''Event with ID '' @ quoted evt_id @ '' already exists at index '' @ nat_to_str existing))
      | None \<Rightarrow>
          if ev_parent_id evt \<notin> {None, Some root_parent_id} \<and> \<not> log_contains (the (ev_parent_id evt)) log
          then Inl (ValueError (''Parent event '' @ quoted (the (ev_parent_id evt)) @
                 '' does not exist for event '' @ quoted evt_id))
          else case guard of Some e \<Rightarrow> Inl e
          | None \<Rightarrow>
             let payload = dump evt; idx = el_length log in
             rbind (event_path log idx (Some evt_id)) (\<lambda>target.
             rbind (op_write F target payload s) (\<lambda>s1.
             let log1 = log\<lparr>el_idx_to_id := dict_put idx evt_id (el_idx_to_id log),
                            el_id_to_idx := dict_put evt_id idx (el_id_to_idx log),
                            el_cache := dict_put idx evt (el_cache log),
                            el_length := idx + 1\<rparr>
             in Inr (idx, advance_length_marker F idx log1 s1, log1))))"

section \<open>Names are read back\<close>

definition uuid_like :: "str \<Rightarrow> bool" where
  "uuid_like e \<longleftrightarrow> length e \<ge> 8 \<and> (\<forall>c \<in> set e. is_id_char c)"

lemma digits_value_zeros: "digits_value (replicate k CHR ''0'' @ ds) = digits_value ds"
  by (induction k) (simp_all add: digits_value_def)

lemma digits_value_pad5: "digits_value (pad5 n) = n"
  by (simp add: pad5_def digits_value_zeros digits_value_nat)

lemma set_pad5: "c \<in> set (pad5 n) \<Longrightarrow> is_digit c"
  by (auto simp: pad5_def is_digit_def dest: set_nat_to_str split: if_splits)

lemma length_pad5: "length (pad5 n) \<ge> 5"
  by (simp add: pad5_def)

lemma span_str_append:
  "\<forall>c \<in> set a. P c \<Longrightarrow> b = [] \<or> \<not> P (hd b) \<Longrightarrow> span_str P (a @ b) = (a, b)"
proof (induction a)
  case Nil
  then show ?case by (cases b) auto
qed simp

lemma parse_event_file_name:
  assumes "uuid_like e"
  shows "parse_event_name (event_file_name i e) = Some (i, e)"
proof -
  have nd: "\<not> is_digit CHR ''-''" "\<not> is_id_char CHR ''.''" by code_simp+
  have "span_str is_digit (pad5 i @ ''-'' @ e @ ''.json'') = (pad5 i, ''-'' @ e @ ''.json'')"
    by (rule span_str_append) (use set_pad5 nd in auto)
  moreover have "span_str is_id_char (e @ ''.json'') = (e, ''.json'')"
    using assms nd(2) by (intro span_str_append) (simp_all add: uuid_like_def)
  ultimately show ?thesis using assms length_pad5[of i]
    by (simp add: parse_event_name_def event_file_name_def digits_value_pad5 uuid_like_def)
qed

lemma parse_dot_name: "parse_event_name (CHR ''.'' # nm) = None"
  by (simp add: parse_event_name_def)

lemma id_char_no_slash: "is_id_char c \<Longrightarrow> c \<noteq> slash \<and> c \<noteq> backslash"
  by (auto simp: is_id_char_def slash_def backslash_def)

lemma digit_no_slash: "is_digit c \<Longrightarrow> c \<noteq> slash \<and> c \<noteq> backslash"
  by (auto simp: is_digit_def slash_def backslash_def)

lemma event_file_name_chars:
  assumes "uuid_like e" shows "slash \<notin> set (event_file_name i e)" "backslash \<notin> set (event_file_name i e)"
  using assms id_char_no_slash digit_no_slash[OF set_pad5[of _ i]]
  by (auto simp: event_file_name_def uuid_like_def slash_def backslash_def)

lemma marker_name_chars: "slash \<notin> set (marker_name n)" "backslash \<notin> set (marker_name n)"
  using digit_no_slash[OF set_nat_to_str[of _ n]]
  by (auto simp: marker_name_def slash_def backslash_def)

lemma plain_in_dir:
  assumes "plain_path d" "slash \<notin> set nm" "backslash \<notin> set nm" "nm \<noteq> []" "nm \<noteq> ''.''" "nm \<noteq> ''..''"
  shows "plain_path (in_dir d nm)"
proof -
  have "backslash \<noteq> slash" by (simp add: slash_def backslash_def)
  then show ?thesis using assms
    by (auto simp: plain_path_def in_dir_def py_split_append py_split_id normal_name_def)
qed

lemma plain_event_path: "plain_path d \<Longrightarrow> uuid_like e \<Longrightarrow> plain_path (in_dir d (event_file_name i e))"
  by (rule plain_in_dir) (simp_all add: event_file_name_chars, simp_all add: event_file_name_def)

lemma plain_marker_path: "plain_path d \<Longrightarrow> plain_path (in_dir d (marker_name n))"
  by (rule plain_in_dir) (simp_all add: marker_name_chars, simp_all add: marker_name_def)

lemma posix_path_name_in_dir:
  assumes "plain_path d" "slash \<notin> set nm" "backslash \<notin> set nm" "nm \<noteq> []"
  shows "posix_path_name (in_dir d nm) = nm"
proof -
  have b: "backslash \<notin> set (in_dir d nm)"
    using assms by (auto simp: plain_path_def in_dir_def slash_def backslash_def)
  have "last nm \<noteq> slash" using assms(2,4) by (metis last_in_set)
  then have "dropWhile (\<lambda>c. c = slash) (rev (in_dir d nm)) = rev (in_dir d nm)"
    using assms(4) by (cases nm rule: rev_cases) (auto simp: in_dir_def)
  then have "rev (dropWhile (\<lambda>c. c = slash) (rev (to_posix_path (in_dir d nm)))) = in_dir d nm"
    by (simp only: to_posix_path_plain[OF b] rev_rev_ident)
  moreover have "py_split slash (in_dir d nm) = py_split slash d @ [nm]"
    using assms(2) by (simp add: in_dir_def py_split_append py_split_id)
  moreover have "in_dir d nm \<noteq> []" by (simp add: in_dir_def)
  ultimately show ?thesis by (simp only: posix_path_name_def Let_def if_False last_snoc)
qed

lemma in_dir_inject [simp]: "in_dir d a = in_dir d b \<longleftrightarrow> a = b"
  by (simp add: in_dir_def)

lemma event_file_name_inject:
  "uuid_like e \<Longrightarrow> uuid_like e' \<Longrightarrow> event_file_name i e = event_file_name j e' \<Longrightarrow> i = j \<and> e = e'"
  using parse_event_file_name[of e i] parse_event_file_name[of e' j]
  by (metis option.inject prod.inject)

lemma marker_name_inject: "marker_name i = marker_name j \<Longrightarrow> i = j"
proof -
  assume "marker_name i = marker_name j"
  then have "nat_to_str i = nat_to_str j" by (simp add: marker_name_def)
  then show "i = j" using digits_value_nat[of i] digits_value_nat[of j] by metis
qed

lemma event_not_marker: "event_file_name i e \<noteq> marker_name n"
  by (simp add: event_file_name_def marker_name_def)

section \<open>What a directory and a log mean\<close>

definition event_at :: "str \<Rightarrow> nat \<Rightarrow> event \<Rightarrow> str" where
  "event_at dir i e = in_dir dir (event_file_name i (ev_id e))"

text \<open>
  The files \<open>D\<close> hold the events \<open>evs\<close> under \<open>dir\<close>: one file each, numbered from 0; anything else in
  the directory is a hidden file, and a length marker, if there is one, names the length.
\<close>

definition log_on_disk :: "(str \<Rightarrow> str option) \<Rightarrow> str \<Rightarrow> (event \<Rightarrow> str) \<Rightarrow> event list \<Rightarrow> bool" where
  "log_on_disk D dir dump evs \<longleftrightarrow>
     plain_path dir \<and> D dir = None \<and> \<not> under (dom D) dir \<and>
     distinct (map ev_id evs) \<and> (\<forall>e \<in> set evs. uuid_like (ev_id e)) \<and>
     (\<forall>i < length evs. D (event_at dir i (evs ! i)) = Some (dump (evs ! i))) \<and>
     (\<forall>nm. D (in_dir dir nm) \<noteq> None \<longrightarrow>
        (\<exists>i < length evs. nm = event_file_name i (ev_id (evs ! i))) \<or>
        (slash \<notin> set nm \<and> (\<exists>r. nm = CHR ''.'' # r))) \<and>
     (\<forall>n. D (in_dir dir (marker_name n)) \<noteq> None \<longrightarrow> n = length evs)"

text \<open>
  A log object reflects a prefix of \<open>evs\<close>: its maps are exactly those of its length, and what it
  has cached is right. It is complete when the prefix is everything.
\<close>

definition log_reflects :: "str \<Rightarrow> event list \<Rightarrow> event_log \<Rightarrow> bool" where
  "log_reflects dir evs log \<longleftrightarrow> el_dir log = dir \<and> el_length log \<le> length evs \<and>
     distinct (dict_keys (el_idx_to_id log)) \<and>
     (\<forall>i. dict_get (el_idx_to_id log) i = (if i < el_length log then Some (ev_id (evs ! i)) else None)) \<and>
     (\<forall>e i. dict_get (el_id_to_idx log) e = Some i \<longleftrightarrow> i < el_length log \<and> ev_id (evs ! i) = e) \<and>
     (\<forall>i e. dict_get (el_cache log) i = Some e \<longrightarrow> i < el_length log \<and> e = evs ! i)"

definition log_complete :: "str \<Rightarrow> event list \<Rightarrow> event_log \<Rightarrow> bool" where
  "log_complete dir evs log \<longleftrightarrow> log_reflects dir evs log \<and> el_length log = length evs"

lemma log_reflects_mono: "log_reflects dir evs log \<Longrightarrow> log_reflects dir (evs @ evs2) log"
proof -
  assume a: "log_reflects dir evs log"
  then have "(evs @ evs2) ! i = evs ! i" if "i < el_length log" for i
    using that by (simp add: log_reflects_def nth_append)
  with a show ?thesis unfolding log_reflects_def by auto
qed

section \<open>Scanning recovers the log\<close>

definition event_listing :: "str \<Rightarrow> event list \<Rightarrow> str list \<Rightarrow> bool" where
  "event_listing dir evs ps \<longleftrightarrow> distinct ps \<and> plain_path dir \<and> (\<forall>e \<in> set evs. uuid_like (ev_id e)) \<and>
     (\<forall>i < length evs. event_at dir i (evs ! i) \<in> set ps) \<and>
     (\<forall>p \<in> set ps. (\<exists>i < length evs. p = event_at dir i (evs ! i)) \<or>
        (\<exists>r. p = in_dir dir (CHR ''.'' # r) \<and> slash \<notin> set r \<and> backslash \<notin> set r))"

lemma parse_event_at:
  "plain_path dir \<Longrightarrow> uuid_like (ev_id e) \<Longrightarrow>
     parse_event_name (posix_path_name (event_at dir i e)) = Some (i, ev_id e)"
  unfolding event_at_def
  by (subst posix_path_name_in_dir)
    (simp_all add: event_file_name_chars parse_event_file_name, simp add: event_file_name_def)

lemma parse_hidden:
  "plain_path dir \<Longrightarrow> slash \<notin> set r \<Longrightarrow> backslash \<notin> set r \<Longrightarrow>
     posix_path_name (in_dir dir (CHR ''.'' # r)) = CHR ''.'' # r"
  by (rule posix_path_name_in_dir) (simp_all add: slash_def backslash_def)

text \<open>Noting paths whose entries agree with one function.\<close>

lemma foldl_note_path:
  assumes "\<forall>p \<in> set ps. \<forall>i e. parse_event_name (posix_path_name p) = Some (i, e) \<longrightarrow> f i = e"
  shows "dict_get (foldl note_path d ps) i =
    (if \<exists>p \<in> set ps. \<exists>e. parse_event_name (posix_path_name p) = Some (i, e) then Some (f i) else dict_get d i)"
  using assms
proof (induction ps arbitrary: d)
  case (Cons p ps)
  then show ?case
    by (cases "parse_event_name (posix_path_name p)") (auto simp: note_path_def split: if_splits)
qed simp

lemma listing_by_idx:
  assumes l: "event_listing dir evs ps"
  shows "dict_get (foldl note_path [] ps) i = (if i < length evs then Some (ev_id (evs ! i)) else None)"
proof -
  have dir: "plain_path dir" using l by (simp add: event_listing_def)
  have u: "uuid_like (ev_id (evs ! j))" if "j < length evs" for j
    using l that by (simp add: event_listing_def)
  have parse: "j < length evs \<and> e = ev_id (evs ! j)"
    if p: "p \<in> set ps" "parse_event_name (posix_path_name p) = Some (j, e)" for p j e
  proof -
    consider (ev) k where "k < length evs" "p = event_at dir k (evs ! k)"
      | (hid) r where "p = in_dir dir (CHR ''.'' # r)" "slash \<notin> set r" "backslash \<notin> set r"
      using l p(1) unfolding event_listing_def by blast
    then show ?thesis
    proof cases
      case ev
      then show ?thesis using parse_event_at[OF dir u[OF ev(1)], of k] p(2) by auto
    next
      case hid
      then show ?thesis using parse_hidden[OF dir hid(2,3)] p(2) parse_dot_name by simp
    qed
  qed
  have "(\<exists>p \<in> set ps. \<exists>e. parse_event_name (posix_path_name p) = Some (i, e)) \<longleftrightarrow> i < length evs"
  proof
    assume i: "i < length evs"
    then have "event_at dir i (evs ! i) \<in> set ps" using l by (simp add: event_listing_def)
    then show "\<exists>p \<in> set ps. \<exists>e. parse_event_name (posix_path_name p) = Some (i, e)"
      using parse_event_at[OF dir u[OF i], of i] by blast
  qed (use parse in blast)
  moreover have "\<forall>p \<in> set ps. \<forall>j e. parse_event_name (posix_path_name p) = Some (j, e) \<longrightarrow> ev_id (evs ! j) = e"
    using parse by blast
  note foldl_note_path[OF this, of "[]" i]
  ultimately show ?thesis by simp
qed

lemma listing_count:
  assumes l: "event_listing dir evs ps"
  shows "length (filter (\<lambda>p. py_startswith (posix_path_name p) ''event-'' \<and> py_endswith p ''.json'') ps) = length evs"
    (is "length (filter ?P ps) = _")
proof -
  have dir: "plain_path dir" using l by (simp add: event_listing_def)
  have u: "uuid_like (ev_id (evs ! j))" if "j < length evs" for j
    using l that by (simp add: event_listing_def)
  have name: "posix_path_name (event_at dir i (evs ! i)) = event_file_name i (ev_id (evs ! i))"
    if "i < length evs" for i
    using event_file_name_chars[OF u[OF that], of i] unfolding event_at_def
    by (intro posix_path_name_in_dir[OF dir]) (simp_all add: event_file_name_def)
  have ends: "py_endswith (in_dir dir (event_file_name i e)) ''.json''" for i e
    by (auto simp: py_endswith_def in_dir_def event_file_name_def)
  have "set (filter ?P ps) = (\<lambda>i. event_at dir i (evs ! i)) ` {..<length evs}"
  proof (intro set_eqI iffI)
    fix p assume "p \<in> set (filter ?P ps)"
    then have p: "p \<in> set ps" "py_startswith (posix_path_name p) ''event-''" by simp_all
    from p(1) l consider (ev) k where "k < length evs" "p = event_at dir k (evs ! k)"
      | (hid) r where "p = in_dir dir (CHR ''.'' # r)" "slash \<notin> set r" "backslash \<notin> set r"
      unfolding event_listing_def by blast
    then show "p \<in> (\<lambda>i. event_at dir i (evs ! i)) ` {..<length evs}"
    proof cases
      case hid
      then show ?thesis using p(2) parse_hidden[OF dir hid(2,3)] by simp
    qed auto
  next
    fix p assume "p \<in> (\<lambda>i. event_at dir i (evs ! i)) ` {..<length evs}"
    then obtain i where i: "i < length evs" "p = event_at dir i (evs ! i)" by auto
    have "p \<in> set ps" using l i by (simp add: event_listing_def)
    moreover have "py_startswith (posix_path_name p) ''event-''"
      unfolding i(2) name[OF i(1)] by (simp add: event_file_name_def)
    moreover have "py_endswith p ''.json''" unfolding i(2) event_at_def by (rule ends)
    ultimately show "p \<in> set (filter ?P ps)" by simp
  qed
  moreover have "inj_on (\<lambda>i. event_at dir i (evs ! i)) {..<length evs}"
  proof (rule inj_onI)
    fix i j assume "i \<in> {..<length evs}" "j \<in> {..<length evs}" "event_at dir i (evs ! i) = event_at dir j (evs ! j)"
    then show "i = j" using event_file_name_inject[OF u u, of i j i j] by (simp add: event_at_def)
  qed
  moreover have "distinct (filter ?P ps)" using l by (simp add: event_listing_def)
  then have "length (filter ?P ps) = card (set (filter ?P ps))" by (rule distinct_card[symmetric])
  ultimately show ?thesis by (simp only: card_image card_lessThan)
qed

lemma first_gap_eq:
  "(\<And>i. m \<le> i \<Longrightarrow> i < n \<Longrightarrow> i \<in> set (dict_keys d)) \<Longrightarrow> n \<notin> set (dict_keys d) \<Longrightarrow> m \<le> n \<Longrightarrow> first_gap d m = n"
proof (induction "n - m" arbitrary: m)
  case 0
  then show ?case by (subst first_gap.simps) simp
next
  case (Suc k)
  then have "m \<in> set (dict_keys d)" by simp
  moreover have "first_gap d (Suc m) = n" by (rule Suc.hyps) (use Suc in auto)
  ultimately show ?case by (subst first_gap.simps) simp
qed

lemma index_prefix:
  assumes by_idx: "\<And>i. dict_get by_idx i = (if i < length evs then Some (ev_id (evs ! i)) else None)"
    and d: "distinct (map ev_id evs)" and n: "n \<le> length evs"
  shows "let r = foldl (index_one by_idx) (clear_log log) [0..<n] in el_dir r = el_dir log \<and> el_cache r = [] \<and>
    distinct (dict_keys (el_idx_to_id r)) \<and>
    (\<forall>i. dict_get (el_idx_to_id r) i = (if i < n then Some (ev_id (evs ! i)) else None)) \<and>
    (\<forall>e i. dict_get (el_id_to_idx r) e = Some i \<longleftrightarrow> i < n \<and> ev_id (evs ! i) = e)"
  unfolding Let_def using n
proof (induction n)
  case (Suc n)
  let ?r = "foldl (index_one by_idx) (clear_log log) [0..<n]"
  have ih: "el_dir ?r = el_dir log" "el_cache ?r = []" "distinct (dict_keys (el_idx_to_id ?r))"
    "\<And>i. dict_get (el_idx_to_id ?r) i = (if i < n then Some (ev_id (evs ! i)) else None)"
    "\<And>e i. dict_get (el_id_to_idx ?r) e = Some i \<longleftrightarrow> i < n \<and> ev_id (evs ! i) = e"
    using Suc by auto
  have "dict_get (el_id_to_idx ?r) (ev_id (evs ! n)) = None"
  proof (rule ccontr)
    assume "dict_get (el_id_to_idx ?r) (ev_id (evs ! n)) \<noteq> None"
    then obtain i where "i < n" "ev_id (evs ! i) = ev_id (evs ! n)" using ih(5) by blast
    then show False using nth_eq_iff_index_eq[OF d, of i n] Suc.prems by simp
  qed
  then have "foldl (index_one by_idx) (clear_log log) [0..<Suc n] =
      ?r\<lparr>el_idx_to_id := dict_put n (ev_id (evs ! n)) (el_idx_to_id ?r),
         el_id_to_idx := dict_put (ev_id (evs ! n)) n (el_id_to_idx ?r)\<rparr>"
    using by_idx[of n] Suc.prems by (simp add: index_one_def)
  moreover have "ev_id (evs ! i) \<noteq> ev_id (evs ! n)" if "i < n" for i
    using nth_eq_iff_index_eq[OF d, of i n] Suc.prems that by simp
  ultimately show ?case using ih by (auto simp: less_Suc_eq)
qed (simp add: clear_log_def)

lemma scan_listing:
  assumes l: "event_listing dir evs ps" and d: "distinct (map ev_id evs)"
    and op: "op_list F dir s = Inr ps" and dir: "el_dir log = dir"
  shows "\<exists>log'. scan_and_build_index F s log = (length evs, log') \<and> log_complete dir evs (log'\<lparr>el_length := length evs\<rparr>) \<and>
    el_cache log' = []"
proof -
  let ?b = "foldl note_path [] ps"
  note b = listing_by_idx[OF l]
  have keys: "i \<in> set (dict_keys ?b) \<longleftrightarrow> i < length evs" for i
    using b[of i] by (metis (no_types, lifting) map_of_eq_None_iff option.distinct(1) set_map)
  have gap: "first_gap ?b 0 = length evs" by (rule first_gap_eq) (use keys in auto)
  have "set (dict_keys ?b) = {..<length evs}" using keys by auto
  moreover have "?b = [] \<longleftrightarrow> set (dict_keys ?b) = {}" by simp
  moreover have "{..<length evs} = {} \<longleftrightarrow> evs = []" by auto
  ultimately have ne: "?b = [] \<longleftrightarrow> evs = []" by simp
  let ?r = "foldl (index_one ?b) (clear_log log) [0..<length evs]"
  have "scan_and_build_index F s log = (length evs, ?r)"
    using op dir gap ne by (auto simp: scan_and_build_index_def Let_def)
  moreover have "log_complete dir evs (?r\<lparr>el_length := length evs\<rparr>)" "el_cache ?r = []"
    using index_prefix[of ?b evs "length evs" log] b d dir by (auto simp: log_complete_def log_reflects_def Let_def)
  ultimately show ?thesis by blast
qed

text \<open>Restoring mappings that are all there changes nothing.\<close>

lemma restore_nothing:
  "\<forall>(i, e) \<in> set ms. dict_get (el_idx_to_id log) i \<noteq> None \<and> dict_get (el_id_to_idx log) e \<noteq> None \<Longrightarrow>
     foldl restore_mapping log ms = log"
  by (induction ms) (auto simp: restore_mapping_def Let_def)

lemma flat_names:
  assumes "log_on_disk D dir dump evs" "in_dir dir nm \<in> dom D"
  shows "slash \<notin> set nm"
proof -
  have "D (in_dir dir nm) \<noteq> None" using assms(2) by blast
  then consider (ev) i where "i < length evs" "nm = event_file_name i (ev_id (evs ! i))" | (hid) "slash \<notin> set nm"
    using assms(1) unfolding log_on_disk_def by blast
  then show ?thesis
  proof cases
    case ev
    then show ?thesis using assms(1) event_file_name_chars(1) unfolding log_on_disk_def by (metis nth_mem)
  qed
qed

lemma not_below:
  assumes "log_on_disk D dir dump evs"
  shows "\<not> below (dom D) (in_dir dir nm)"
proof
  assume "below (dom D) (in_dir dir nm)"
  then obtain r where "in_dir dir (nm @ slash # r) \<in> dom D"
    unfolding below_def py_startswith_iff in_dir_def by auto
  from flat_names[OF assms this] show False by simp
qed

lemma not_under:
  assumes "log_on_disk D dir dump evs" "slash \<notin> set nm"
  shows "\<not> under (dom D) (in_dir dir nm)"
proof
  assume "under (dom D) (in_dir dir nm)"
  then obtain q r where q: "q \<in> dom D" "dir @ slash # nm = q @ slash # r"
    unfolding under_def py_startswith_iff in_dir_def by auto
  then consider (eq) "q = dir" | (up) r' where "dir = q @ slash # r'" | (down) r' where "nm = r' @ slash # r"
    by (auto simp: append_eq_append_conv2 append_eq_Cons_conv Cons_eq_append_conv)
  then show False
  proof cases
    case eq
    then show ?thesis using q(1) assms(1) unfolding log_on_disk_def by (simp add: domIff)
  next
    case up
    then have "under (dom D) dir" using q(1) by (auto simp: under_def py_startswith_iff)
    then show ?thesis using assms(1) unfolding log_on_disk_def by blast
  next
    case down
    then show ?thesis using assms(2) by simp
  qed
qed

text \<open>The files after an append: the new event file, the old marker gone, perhaps a new one.\<close>

lemma log_on_disk_append:
  assumes ok: "log_on_disk D dir dump evs" and new: "ev_id evt \<notin> ev_id ` set evs" "uuid_like (ev_id evt)"
  defines "D1 \<equiv> (D(event_at dir (length evs) evt \<mapsto> dump evt))(in_dir dir (marker_name (length evs)) := None)"
  shows "log_on_disk D1 dir dump (evs @ [evt])"
    "log_on_disk (D1(in_dir dir (marker_name (Suc (length evs))) \<mapsto> c)) dir dump (evs @ [evt])"
proof -
  let ?n = "length evs"
  note d = ok[unfolded log_on_disk_def]
  have u: "uuid_like (ev_id ((evs @ [evt]) ! i))" if "i \<le> ?n" for i
    using d new(2) that by (cases "i < ?n") (auto simp: nth_append)
  have at: "D1 (event_at dir i ((evs @ [evt]) ! i)) = Some (dump ((evs @ [evt]) ! i))" if "i \<le> ?n" for i
  proof (cases "i = ?n")
    case True
    then show ?thesis by (simp add: D1_def event_at_def event_not_marker)
  next
    case False
    then have i: "i < ?n" using that by simp
    have "event_file_name i (ev_id (evs ! i)) \<noteq> event_file_name ?n (ev_id evt)"
      using event_file_name_inject[of "ev_id (evs ! i)" "ev_id evt" i ?n] u[of i] new(2) i by (auto simp: nth_append)
    then show ?thesis using d i by (simp add: D1_def event_at_def event_not_marker nth_append)
  qed
  have nms: "(\<exists>i < length (evs @ [evt]). nm = event_file_name i (ev_id ((evs @ [evt]) ! i))) \<or>
        (slash \<notin> set nm \<and> (\<exists>r. nm = CHR ''.'' # r))" if "D1 (in_dir dir nm) \<noteq> None" for nm
  proof (cases "nm = event_file_name ?n (ev_id evt)")
    case True
    then show ?thesis by (intro disjI1 exI[of _ ?n]) simp
  next
    case False
    then have "D (in_dir dir nm) \<noteq> None" using that by (auto simp: D1_def event_at_def split: if_splits)
    then consider (ev) i where "i < ?n" "nm = event_file_name i (ev_id (evs ! i))" | (hid) "slash \<notin> set nm \<and> (\<exists>r. nm = CHR ''.'' # r)"
      using d by blast
    then show ?thesis
    proof cases
      case ev
      then show ?thesis by (intro disjI1 exI[of _ i]) (simp add: nth_append)
    qed blast
  qed
  have mk: "D1 (in_dir dir (marker_name n)) = None" for n
  proof -
    have "n \<noteq> ?n \<longrightarrow> D (in_dir dir (marker_name n)) = None" using d by blast
    then show ?thesis by (cases "n = ?n") (auto simp: D1_def event_at_def dest: event_not_marker[THEN notE, OF sym])
  qed
  have dirs: "D1 dir = None \<and> \<not> under (dom D1) dir"
    "D1 dir = None \<and> \<not> under (dom (D1(in_dir dir (marker_name (Suc ?n)) \<mapsto> c))) dir"
  proof -
    have 1: "\<not> py_startswith dir (in_dir dir nm @ [slash])" "dir \<noteq> in_dir dir nm" for nm
      by (auto simp: py_startswith_iff in_dir_def dest: arg_cong[where f = length])
    have "D dir = None" "\<not> under (dom D) dir" using d by blast+
    then show "D1 dir = None \<and> \<not> under (dom D1) dir"
      "D1 dir = None \<and> \<not> under (dom (D1(in_dir dir (marker_name (Suc ?n)) \<mapsto> c))) dir"
      using 1 by (auto simp: D1_def under_def event_at_def split: if_splits)
  qed
  have ids: "distinct (map ev_id (evs @ [evt])) \<and> (\<forall>e \<in> set (evs @ [evt]). uuid_like (ev_id e))"
    using d new by auto
  show "log_on_disk D1 dir dump (evs @ [evt])"
    unfolding log_on_disk_def
    using d dirs(1) ids at nms mk by (simp add: less_Suc_eq_le)
  show "log_on_disk (D1(in_dir dir (marker_name (Suc ?n)) \<mapsto> c)) dir dump (evs @ [evt])"
    unfolding log_on_disk_def
  proof (intro conjI allI impI)
    fix i assume "i < length (evs @ [evt])"
    then show "(D1(in_dir dir (marker_name (Suc ?n)) \<mapsto> c)) (event_at dir i ((evs @ [evt]) ! i)) = Some (dump ((evs @ [evt]) ! i))"
      using at[of i] by (simp add: event_at_def event_not_marker)
  next
    fix nm assume "(D1(in_dir dir (marker_name (Suc ?n)) \<mapsto> c)) (in_dir dir nm) \<noteq> None"
    then consider "nm = marker_name (Suc ?n)" | "D1 (in_dir dir nm) \<noteq> None" by (auto split: if_splits)
    then show "(\<exists>i < length (evs @ [evt]). nm = event_file_name i (ev_id ((evs @ [evt]) ! i))) \<or>
        (slash \<notin> set nm \<and> (\<exists>r. nm = CHR ''.'' # r))"
      using nms[of nm] marker_name_chars(1)[of "Suc ?n"] by cases (auto simp: marker_name_def)
  next
    fix n assume "(D1(in_dir dir (marker_name (Suc ?n)) \<mapsto> c)) (in_dir dir (marker_name n)) \<noteq> None"
    then show "n = length (evs @ [evt])" using mk[of n] by (auto split: if_splits dest: marker_name_inject)
  next
    have "dir \<noteq> in_dir dir nm" for nm by (auto simp: in_dir_def dest: arg_cong[where f = length])
    then show "(D1(in_dir dir (marker_name (Suc ?n)) \<mapsto> c)) dir = None" using dirs by simp
  qed (use d dirs ids in auto)
qed

section \<open>The log over any file store\<close>

locale event_storage = file_store inv files fits "op_read F" "op_write F" "op_delete F" "op_exists F" "op_list F"
  for inv :: "'s \<Rightarrow> bool" and files :: "'s \<Rightarrow> str \<Rightarrow> str option" and fits :: "'s \<Rightarrow> str \<Rightarrow> bool"
    and F :: "'s fs_ops"
begin

lemma listing:
  assumes inv: "inv s" and d: "log_on_disk (files s) dir dump evs"
  shows "\<exists>ps. op_list F dir s = Inr ps \<and> event_listing dir evs ps"
proof -
  have dir: "plain_path dir" "files s dir = None" "\<forall>e \<in> set evs. uuid_like (ev_id e)"
    "\<forall>i < length evs. files s (event_at dir i (evs ! i)) = Some (dump (evs ! i))"
    using d by (simp_all add: log_on_disk_def)
  have flat: "slash \<notin> set nm" if "dir @ [slash] @ nm \<in> dom (files s)" for nm
    using flat_names[OF d, of nm] that by (simp add: in_dir_def)
  obtain ps where ps: "op_list F dir s = Inr ps" "distinct ps"
    "set ps = {p \<in> dom (files s). py_startswith p (dir @ [slash])}"
    using list_law[OF inv dir(1,2) flat] by blast
  have "(\<exists>i < length evs. p = event_at dir i (evs ! i)) \<or>
        (\<exists>r. p = in_dir dir (CHR ''.'' # r) \<and> slash \<notin> set r \<and> backslash \<notin> set r)" if p: "p \<in> set ps" for p
  proof -
    obtain nm where nm: "p = in_dir dir nm" "files s (in_dir dir nm) \<noteq> None"
      using p ps(3) by (auto simp: py_startswith_iff in_dir_def)
    then consider (ev) i where "i < length evs" "nm = event_file_name i (ev_id (evs ! i))"
      | (hid) r where "slash \<notin> set nm" "nm = CHR ''.'' # r"
      using d unfolding log_on_disk_def by blast
    then show ?thesis
    proof cases
      case hid
      obtain c where "files s (in_dir dir nm) = Some c" using nm(2) by blast
      then have "plain_path (in_dir dir nm)" by (rule plain_files[OF inv])
      then have "backslash \<notin> set nm" by (simp add: plain_path_def in_dir_def)
      then show ?thesis using hid nm(1) by auto
    qed (auto simp: nm(1) event_at_def)
  qed
  moreover have "event_at dir i (evs ! i) \<in> set ps" if "i < length evs" for i
    using dir(4) that ps(3) by (auto simp: event_at_def in_dir_def py_startswith_iff)
  ultimately show ?thesis using ps(1,2) dir by (auto simp: event_listing_def)
qed

lemma scan:
  assumes "inv s" "log_on_disk (files s) dir dump evs" "el_dir log = dir"
  shows "\<exists>log'. scan_and_build_index F s log = (length evs, log') \<and>
    log_complete dir evs (log'\<lparr>el_length := length evs\<rparr>) \<and> el_cache log' = []"
proof -
  obtain ps where "op_list F dir s = Inr ps" "event_listing dir evs ps" using listing[OF assms(1,2)] by blast
  then show ?thesis using scan_listing[of dir evs ps F s log] assms(2,3) by (simp add: log_on_disk_def)
qed

lemma open_complete:
  assumes "inv s" "log_on_disk (files s) dir dump evs"
  shows "log_complete dir evs (open_log F dir s)"
  using scan[OF assms, of "\<lparr>el_dir = dir, el_id_to_idx = [], el_idx_to_id = [], el_cache = [], el_length = 0\<rparr>"]
  by (auto simp: open_log_def)

lemma sync_complete:
  assumes inv: "inv s" and d: "log_on_disk (files s) dir dump evs" and r: "log_reflects dir evs log"
  shows "log_complete dir evs (sync_if_needed F s log)"
proof -
  have dir: "el_dir log = dir" "plain_path dir" using r d by (simp_all add: log_reflects_def log_on_disk_def)
  have m: "marker_matches_length F s log \<longleftrightarrow> files s (marker_path log (el_length log)) \<noteq> None"
    using exists_law[OF inv plain_marker_path[OF dir(2)] not_below[OF d], of "el_length log"] dir(1)
    by (simp add: marker_matches_length_def marker_path_def)
  obtain ps where ps: "op_list F dir s = Inr ps" "event_listing dir evs ps" using listing[OF inv d] by blast
  then have c: "count_events_on_disk F s log = length evs"
    using listing_count[OF ps(2)] dir(1) by (simp add: count_events_on_disk_def)
  consider (match) "marker_matches_length F s log" | (more) "\<not> marker_matches_length F s log" "el_length log < length evs"
    | (same) "\<not> marker_matches_length F s log" "el_length log = length evs"
    using r by (fastforce simp: log_reflects_def)
  then show ?thesis
  proof cases
    case match
    then have "files s (in_dir dir (marker_name (el_length log))) \<noteq> None"
      using m dir(1) by (simp add: marker_path_def)
    then have "el_length log = length evs" using d unfolding log_on_disk_def by blast
    then show ?thesis using match r by (simp add: sync_if_needed_def log_complete_def)
  next
    case same
    then show ?thesis using c r by (simp add: sync_if_needed_def log_complete_def Let_def)
  next
    case more
    obtain log1 where log1: "scan_and_build_index F s log = (length evs, log1)"
      "log_complete dir evs (log1\<lparr>el_length := length evs\<rparr>)"
      using scan[OF inv d dir(1)] by blast
    have "\<forall>(i, e) \<in> set (el_idx_to_id log). dict_get (el_idx_to_id log1) i \<noteq> None \<and> dict_get (el_id_to_idx log1) e \<noteq> None"
    proof (intro ballI, clarify)
      fix i e assume ie: "(i, e) \<in> set (el_idx_to_id log)"
      have "distinct (dict_keys (el_idx_to_id log))" using r by (simp add: log_reflects_def)
      then have "dict_get (el_idx_to_id log) i = Some e" using ie by (rule map_of_is_SomeI)
      moreover have "dict_get (el_idx_to_id log) i = (if i < el_length log then Some (ev_id (evs ! i)) else None)"
        using r by (simp add: log_reflects_def)
      ultimately have "i < el_length log" "e = ev_id (evs ! i)" by (simp_all split: if_splits)
      then have "i < length evs" "ev_id (evs ! i) = e" using more by auto
      then have "dict_get (el_id_to_idx log1) e = Some i" "dict_get (el_idx_to_id log1) i = Some e"
        using log1(2) by (auto simp: log_complete_def log_reflects_def)
      then show "dict_get (el_idx_to_id log1) i \<noteq> None \<and> dict_get (el_id_to_idx log1) e \<noteq> None" by simp
    qed
    then have "sync_from_disk F s (length evs) log = log1\<lparr>el_length := length evs\<rparr>"
      using log1(1) by (simp add: sync_from_disk_def restore_nothing)
    then show ?thesis using more c log1(2) by (simp add: sync_if_needed_def Let_def)
  qed
qed

lemma complete_contains:
  assumes "log_complete dir evs log"
  shows "log_contains e log \<longleftrightarrow> e \<in> ev_id ` set evs"
proof
  assume "log_contains e log"
  then obtain i where "dict_get (el_id_to_idx log) e = Some i" by (auto simp: log_contains_def)
  then have "i < length evs" "ev_id (evs ! i) = e" using assms by (auto simp: log_complete_def log_reflects_def)
  then show "e \<in> ev_id ` set evs" by (metis image_eqI nth_mem)
next
  assume "e \<in> ev_id ` set evs"
  then obtain i where "i < length evs" "ev_id (evs ! i) = e" by (metis (no_types) imageE in_set_conv_nth)
  then have "dict_get (el_id_to_idx log) e = Some i" using assms by (auto simp: log_complete_def log_reflects_def)
  then show "log_contains e log" by (simp add: log_contains_def)
qed

text \<open>An append through a log that may lag behind the disk.\<close>

lemma append_ok_frame:
  assumes inv: "inv s" and d: "log_on_disk (files s) dir dump evs" and r: "log_reflects dir evs log0"
    and fit: "fits s (dump evt)" "fits s ''''" and u: "uuid_like (ev_id evt)"
    and new: "ev_id evt \<notin> ev_id ` set evs"
    and par: "ev_parent_id evt \<in> {None, Some root_parent_id} \<or> the (ev_parent_id evt) \<in> ev_id ` set evs"
  shows "\<exists>s' log'. log_append F dump None evt s log0 = Inr (length evs, s', log') \<and> inv s' \<and>
    log_on_disk (files s') dir dump (evs @ [evt]) \<and> log_complete dir (evs @ [evt]) log' \<and> fits s' = fits s \<and>
    (\<forall>p. \<not> py_startswith p (dir @ [slash]) \<longrightarrow> files s' p = files s p)"
proof -
  define log where "log = sync_if_needed F s log0"
  have lc: "log_complete dir evs log" unfolding log_def by (rule sync_complete[OF inv d r])
  then have lr: "log_reflects dir evs log" "el_length log = length evs"
    by (simp_all add: log_complete_def)
  then have lr3: "el_dir log = dir" by (simp add: log_reflects_def)
  have pd: "plain_path dir" using d by (simp add: log_on_disk_def)
  have n0: "dict_get (el_id_to_idx log) (ev_id evt) = None"
    using complete_contains[OF lc, of "ev_id evt"] new by (simp add: log_contains_def)
  have p0: "\<not> (ev_parent_id evt \<notin> {None, Some root_parent_id} \<and> \<not> log_contains (the (ev_parent_id evt)) log)"
    using par complete_contains[OF lc] by blast
  have "ev_id evt \<noteq> ''''" using u by (auto simp: uuid_like_def)
  then have path: "event_path log (length evs) (Some (ev_id evt)) = Inr (event_at dir (length evs) evt)"
    using lr3 by (simp add: event_path_def event_at_def)
  obtain s1 where s1: "op_write F (event_at dir (length evs) evt) (dump evt) s = Inr s1" "inv s1"
    "files s1 = (files s)(event_at dir (length evs) evt \<mapsto> dump evt)" "fits s1 = fits s"
    using write_law[OF inv plain_event_path[OF pd u] fit(1) not_below[OF d] not_under[OF d event_file_name_chars(1)[OF u]],
        of "length evs"]
    by (auto simp: event_at_def)
  define log1 where "log1 = log\<lparr>el_idx_to_id := dict_put (length evs) (ev_id evt) (el_idx_to_id log),
      el_id_to_idx := dict_put (ev_id evt) (length evs) (el_id_to_idx log),
      el_cache := dict_put (length evs) evt (el_cache log), el_length := length evs + 1\<rparr>"
  have app: "log_append F dump None evt s log0 = Inr (length evs, advance_length_marker F (length evs) log1 s1, log1)"
    using n0 p0 path s1(1) lr(2) unfolding log_append_def Let_def log_def[symmetric] log1_def
    by (simp only: option.case if_False rbind_Inr)
  have newi: "ev_id (evs ! i) \<noteq> ev_id evt" if "i < length evs" for i
    using new that by (metis image_eqI nth_mem)
  have lc1: "log_complete dir (evs @ [evt]) log1"
    unfolding log_complete_def log_reflects_def
  proof (intro conjI allI impI)
    fix e i
    show "dict_get (el_id_to_idx log1) e = Some i \<longleftrightarrow> i < el_length log1 \<and> ev_id ((evs @ [evt]) ! i) = e"
      using lr newi by (auto simp: log1_def log_reflects_def nth_append less_Suc_eq)
  qed (use lr lr3 in \<open>auto simp: log1_def log_reflects_def nth_append less_Suc_eq split: if_splits\<close>)
  define m where "m = in_dir dir (marker_name (length evs))"
  define s2 where "s2 = op_delete F m s1"
  have nb1: "\<not> below (dom (files s1)) (in_dir dir nm)" for nm
  proof -
    have "\<not> below (dom (files s)) (in_dir dir nm)" by (rule not_below[OF d])
    moreover have "\<not> py_startswith (event_at dir (length evs) evt) (in_dir dir nm @ [slash])"
      using event_file_name_chars(1)[OF u, of "length evs"]
      by (auto simp: event_at_def in_dir_def py_startswith_iff)
    ultimately show ?thesis unfolding s1(3) by (auto simp: below_def split: if_splits)
  qed
  have s2: "inv s2" "files s2 = (files s1)(m := None)" "fits s2 = fits s"
    using delete_law[OF s1(2) plain_marker_path[OF pd, of "length evs"] nb1] s1(4) by (simp_all add: s2_def m_def)
  have d2: "log_on_disk (files s2) dir dump (evs @ [evt])"
    using log_on_disk_append(1)[OF d new u] unfolding s2(2) s1(3) m_def .
  obtain s3 where s3: "op_write F (in_dir dir (marker_name (Suc (length evs)))) '''' s2 = Inr s3" "inv s3"
    "files s3 = (files s2)(in_dir dir (marker_name (Suc (length evs))) \<mapsto> '''')" "fits s3 = fits s2"
    using write_law[OF s2(1) plain_marker_path[OF pd] _ not_below[OF d2] not_under[OF d2 marker_name_chars(1)],
        of "''''" "Suc (length evs)"] fit(2) s2(3) by auto
  have "log_on_disk (files s3) dir dump (evs @ [evt])"
    using log_on_disk_append(2)[OF d new u] unfolding s3(3) s2(2) s1(3) m_def .
  moreover have "advance_length_marker F (length evs) log1 s1 = s3"
    using s3(1) lr3 by (simp add: advance_length_marker_def marker_path_def s2_def m_def log1_def)
  moreover have "files s3 p = files s p" if "\<not> py_startswith p (dir @ [slash])" for p
  proof -
    have "p \<noteq> in_dir dir nm" for nm using that by (auto simp: in_dir_def py_startswith_iff)
    then show ?thesis by (simp add: s3(3) s2(2) s1(3) m_def event_at_def)
  qed
  ultimately show ?thesis using app lc1 s3(2,4) s2(3) by auto
qed

lemma append_ok:
  assumes "inv s" "log_on_disk (files s) dir dump evs" "log_reflects dir evs log0"
    "fits s (dump evt)" "fits s ''''" "uuid_like (ev_id evt)" "ev_id evt \<notin> ev_id ` set evs"
    "ev_parent_id evt \<in> {None, Some root_parent_id} \<or> the (ev_parent_id evt) \<in> ev_id ` set evs"
  shows "\<exists>s' log'. log_append F dump None evt s log0 = Inr (length evs, s', log') \<and> inv s' \<and>
    log_on_disk (files s') dir dump (evs @ [evt]) \<and> log_complete dir (evs @ [evt]) log' \<and> fits s' = fits s"
  using append_ok_frame [OF assms] by blast

text \<open>The appends that are refused; they leave the store alone.\<close>

lemma append_refused:
  assumes inv: "inv s" and d: "log_on_disk (files s) dir dump evs" and r: "log_reflects dir evs log0"
    and bad: "ev_id evt \<in> ev_id ` set evs \<or>
      (ev_parent_id evt \<notin> {None, Some root_parent_id} \<and> the (ev_parent_id evt) \<notin> ev_id ` set evs)"
  shows "\<exists>msg. log_append F dump guard evt s log0 = Inl (ValueError msg)"
proof -
  define log where "log = sync_if_needed F s log0"
  have lc: "log_complete dir evs log" unfolding log_def by (rule sync_complete[OF inv d r])
  show ?thesis
  proof (cases "dict_get (el_id_to_idx log) (ev_id evt)")
    case None
    then have "ev_id evt \<notin> ev_id ` set evs" using complete_contains[OF lc, of "ev_id evt"] by (simp add: log_contains_def)
    then have "ev_parent_id evt \<notin> {None, Some root_parent_id} \<and> \<not> log_contains (the (ev_parent_id evt)) log"
      using bad complete_contains[OF lc] by blast
    then show ?thesis using None unfolding log_append_def Let_def log_def[symmetric]
      by (simp only: option.case if_True simp_thms not_False_eq_True) blast
  next
    case (Some i)
    then show ?thesis unfolding log_append_def Let_def log_def[symmetric] by (simp only: option.case) blast
  qed
qed

end

section \<open>The tree of events\<close>

text \<open>
  The parent of the event at index \<open>i\<close> as the specification sees it, the branch that ends there, and
  the condition under which it is a tree: an explicit parent is an earlier event.
\<close>

definition tree_parent :: "event list \<Rightarrow> nat \<Rightarrow> nat option" where
  "tree_parent evs i =
     (case ev_parent_id (evs ! i) of
        Some p \<Rightarrow> if p = root_parent_id then None else find_index_from 0 (\<lambda>e. ev_id e = p) evs
      | None \<Rightarrow> if i = 0 then None else Some (i - 1))"

definition tree_ok :: "event list \<Rightarrow> bool" where
  "tree_ok evs \<longleftrightarrow> (\<forall>i < length evs. \<forall>p. ev_parent_id (evs ! i) = Some p \<and> p \<noteq> root_parent_id \<longrightarrow>
     (\<exists>j < i. ev_id (evs ! j) = p))"

definition is_branch :: "event list \<Rightarrow> nat list \<Rightarrow> nat \<Rightarrow> bool" where
  "is_branch evs is leaf \<longleftrightarrow> is \<noteq> [] \<and> last is = leaf \<and> leaf < length evs \<and> tree_parent evs (hd is) = None \<and>
     (\<forall>k. Suc k < length is \<longrightarrow> tree_parent evs (is ! Suc k) = Some (is ! k) \<and> is ! k < is ! Suc k)"

text \<open>The last \<open>l\<close> elements of a list, and all of it without a limit.\<close>

definition keep_last :: "int option \<Rightarrow> 'a list \<Rightarrow> 'a list" where
  "keep_last limit xs = (case limit of None \<Rightarrow> xs | Some l \<Rightarrow> drop (length xs - nat l) xs)"

lemma tree_parent_less:
  assumes "tree_ok evs" "distinct (map ev_id evs)" "i < length evs" "tree_parent evs i = Some j"
  shows "j < i"
proof (cases "ev_parent_id (evs ! i)")
  case None
  then show ?thesis using assms(4) by (auto simp: tree_parent_def split: if_splits)
next
  case (Some p)
  then have p: "p \<noteq> root_parent_id" "find_index_from 0 (\<lambda>e. ev_id e = p) evs = Some j"
    using assms(4) by (auto simp: tree_parent_def split: if_splits)
  then obtain k where k: "k < i" "ev_id (evs ! k) = p" using assms(1,3) Some by (auto simp: tree_ok_def)
  have "j < length evs" "ev_id (evs ! j) = p" using find_index_from_Some[OF p(2)] by auto
  then have "j = k" using nth_eq_iff_index_eq[OF assms(2), of j k] k assms(3) by simp
  with k show ?thesis by simp
qed

lemma tree_parent_explicit:
  assumes "tree_ok evs" "distinct (map ev_id evs)" "i < length evs" "ev_parent_id (evs ! i) = Some p" "p \<noteq> root_parent_id"
  shows "\<exists>j. tree_parent evs i = Some j \<and> j < i \<and> ev_id (evs ! j) = p"
proof -
  obtain k where k: "k < i" "ev_id (evs ! k) = p" using assms by (auto simp: tree_ok_def)
  have "evs ! k \<in> set evs" using k assms(3) by simp
  then have "find_index_from 0 (\<lambda>e. ev_id e = p) evs \<noteq> None"
    using k(2) by (auto simp: find_index_from_None)
  then obtain j where j: "find_index_from 0 (\<lambda>e. ev_id e = p) evs = Some j" by blast
  then have t: "tree_parent evs i = Some j" using assms(4,5) by (simp add: tree_parent_def)
  moreover have "ev_id (evs ! j) = p" using find_index_from_Some[OF j] by auto
  ultimately show ?thesis using tree_parent_less[OF assms(1-3) t] by blast
qed

lemma tree_ok_append:
  assumes "tree_ok evs"
    "ev_parent_id evt \<in> {None, Some root_parent_id} \<or> the (ev_parent_id evt) \<in> ev_id ` set evs"
  shows "tree_ok (evs @ [evt])"
  unfolding tree_ok_def
proof (intro allI impI)
  fix i p assume i: "i < length (evs @ [evt])" and p: "ev_parent_id ((evs @ [evt]) ! i) = Some p \<and> p \<noteq> root_parent_id"
  show "\<exists>j < i. ev_id ((evs @ [evt]) ! j) = p"
  proof (cases "i < length evs")
    case True
    then obtain j where "j < i" "ev_id (evs ! j) = p" using assms(1) p by (auto simp: tree_ok_def nth_append)
    then show ?thesis using True by (intro exI[of _ j]) (simp add: nth_append)
  next
    case False
    then have "i = length evs" using i by simp
    then have "p \<in> ev_id ` set evs" using assms(2) p by simp
    then obtain j where "j < length evs" "ev_id (evs ! j) = p" by (metis (no_types) imageE in_set_conv_nth)
    then show ?thesis using \<open>i = length evs\<close> by (intro exI[of _ j]) (simp add: nth_append)
  qed
qed

text \<open>The parent the log computes.\<close>

lemma effective_parent_ok:
  assumes r: "log_reflects dir evs log" and i: "i < el_length log" and t: "tree_ok evs" and d: "distinct (map ev_id evs)"
  shows "effective_parent_id i (evs ! i) log = Inr (map_option (\<lambda>j. ev_id (evs ! j)) (tree_parent evs i))"
proof (cases "ev_parent_id (evs ! i)")
  case None
  show ?thesis
  proof (cases "i = 0")
    case False
    then have "dict_get (el_idx_to_id log) (i - 1) = Some (ev_id (evs ! (i - 1)))"
      using r i by (simp add: log_reflects_def)
    moreover have "nat (int i - 1) = i - 1" "\<not> int i - 1 < 0" "int i - 1 < int (el_length log)"
      using False i by linarith+
    ultimately show ?thesis using None False
      by (simp add: effective_parent_id_def tree_parent_def get_id_def)
  qed (use None in \<open>simp add: effective_parent_id_def tree_parent_def\<close>)
next
  case (Some p)
  have "i < length evs" using r i by (simp add: log_reflects_def)
  then show ?thesis using tree_parent_explicit[OF t d _ Some] Some
    by (cases "p = root_parent_id") (auto simp: effective_parent_id_def tree_parent_def)
qed

lemma is_branch_root: "tree_parent evs i = None \<Longrightarrow> i < length evs \<Longrightarrow> is_branch evs [i] i"
  by (simp add: is_branch_def)

lemma is_branch_snoc:
  assumes b: "is_branch evs is j" and p: "tree_parent evs i = Some j" and i: "j < i" "i < length evs"
  shows "is_branch evs (is @ [i]) i"
  unfolding is_branch_def
proof (intro conjI allI impI)
  have ne: "is \<noteq> []" "last is = j" using b by (simp_all add: is_branch_def)
  show "tree_parent evs (hd (is @ [i])) = None" using b ne by (simp add: is_branch_def)
  fix k assume k: "Suc k < length (is @ [i])"
  show "tree_parent evs ((is @ [i]) ! Suc k) = Some ((is @ [i]) ! k)" "(is @ [i]) ! k < (is @ [i]) ! Suc k"
  proof -
    have "tree_parent evs ((is @ [i]) ! Suc k) = Some ((is @ [i]) ! k) \<and> (is @ [i]) ! k < (is @ [i]) ! Suc k"
    proof (cases "Suc k < length is")
      case True
      then show ?thesis using b by (simp add: is_branch_def nth_append)
    next
      case False
      then have "Suc k = length is" using k by simp
      then have "is ! k = j" using ne by (metis diff_Suc_1 last_conv_nth)
      then show ?thesis using p i(1) \<open>Suc k = length is\<close>
        by (metis lessI nth_append nth_append_length)
    qed
    then show "tree_parent evs ((is @ [i]) ! Suc k) = Some ((is @ [i]) ! k)" "(is @ [i]) ! k < (is @ [i]) ! Suc k" by blast+
  qed
qed (use i in simp_all)

text \<open>A branch without its leaf is the branch of the leaf's parent.\<close>

lemma is_branch_pred:
  assumes b: "is_branch evs (zs @ [i]) i"
  shows "zs = [] \<and> tree_parent evs i = None \<or> (\<exists>j. tree_parent evs i = Some j \<and> is_branch evs zs j)"
proof (cases "zs = []")
  case True
  then show ?thesis using b by (simp add: is_branch_def)
next
  case False
  then obtain k where k: "length zs = Suc k" by (cases zs) auto
  then have "last zs = zs ! k" using False by (simp add: last_conv_nth)
  then have p: "tree_parent evs i = Some (last zs)" "last zs < i"
    using b k by (auto simp: is_branch_def nth_append dest: spec[of _ k])
  have "tree_parent evs (zs ! Suc m) = Some (zs ! m) \<and> zs ! m < zs ! Suc m" if "Suc m < length zs" for m
  proof -
    have "Suc m < length (zs @ [i])" using that by simp
    then have "tree_parent evs ((zs @ [i]) ! Suc m) = Some ((zs @ [i]) ! m) \<and> (zs @ [i]) ! m < (zs @ [i]) ! Suc m"
      using b unfolding is_branch_def by blast
    then show ?thesis using that by (simp add: nth_append)
  qed
  then have "is_branch evs zs (last zs)" using b p False by (simp add: is_branch_def)
  then show ?thesis using p by blast
qed

text \<open>A leaf has one branch.\<close>

lemma is_branch_unique: "is_branch evs is i \<Longrightarrow> is_branch evs js i \<Longrightarrow> is = js"
proof (induction "is" arbitrary: js i rule: rev_induct)
  case Nil
  then show ?case by (simp add: is_branch_def)
next
  case (snoc x xs)
  obtain y ys where js: "js = ys @ [y]" using snoc.prems(2) by (cases js rule: rev_cases) (auto simp: is_branch_def)
  have xy: "x = i" "y = i" using snoc.prems js by (simp_all add: is_branch_def)
  from is_branch_pred[of evs xs i] is_branch_pred[of evs ys i] snoc.prems js xy have "xs = ys"
    using snoc.IH[of _ ys] by (auto simp: is_branch_def)
  then show ?case using js xy by simp
qed

text \<open>Indices increase along a branch, and appending an event changes no branch.\<close>

lemma is_branch_sorted: "is_branch evs is i \<Longrightarrow> sorted_wrt (<) is"
  by (simp add: is_branch_def sorted_wrt_iff_nth_Suc_transp transp_def)

lemma is_branch_le:
  assumes "is_branch evs is i" "x \<in> set is" shows "x \<le> i"
proof -
  obtain ys where ys: "is = ys @ [i]" using assms(1) by (cases "is" rule: rev_cases) (auto simp: is_branch_def)
  then show ?thesis using is_branch_sorted[OF assms(1)] assms(2) by (auto simp: sorted_wrt_append)
qed

lemma find_index_from_append: "find_index_from k P xs = Some i \<Longrightarrow> find_index_from k P (xs @ ys) = Some i"
  by (induction xs arbitrary: k) (auto split: if_splits)

lemma tree_parent_append:
  assumes "tree_ok evs" "distinct (map ev_id evs)" "i < length evs"
  shows "tree_parent (evs @ [e]) i = tree_parent evs i"
proof (cases "ev_parent_id (evs ! i)")
  case (Some p)
  show ?thesis
  proof (cases "p = root_parent_id")
    case False
    from tree_parent_explicit[OF assms Some False] obtain j where "find_index_from 0 (\<lambda>e. ev_id e = p) evs = Some j"
      using Some False by (auto simp: tree_parent_def)
    from find_index_from_append[OF this] this show ?thesis
      using Some assms(3) by (simp add: tree_parent_def nth_append)
  qed (use Some assms(3) in \<open>simp add: tree_parent_def nth_append\<close>)
qed (use assms(3) in \<open>simp add: tree_parent_def nth_append\<close>)

lemma is_branch_append:
  assumes "is_branch evs is i" "tree_ok evs" "distinct (map ev_id evs)"
  shows "is_branch (evs @ [e]) is i"
proof -
  have lt: "x < length evs" if "x \<in> set is" for x
    using is_branch_le[OF assms(1) that] assms(1) by (simp add: is_branch_def)
  have "tree_parent (evs @ [e]) x = tree_parent evs x" if "x \<in> set is" for x
    by (rule tree_parent_append[OF assms(2,3) lt[OF that]])
  moreover have "hd is \<in> set is" using assms(1) by (simp add: is_branch_def)
  ultimately show ?thesis using assms(1) by (auto simp: is_branch_def)
qed

lemma keep_last_snoc:
  "keep_last (Some l) (xs @ [x]) = (if l \<le> 0 then [] else keep_last (Some (l - 1)) xs @ [x])"
proof (cases "l \<le> 0")
  case False
  define n where "n = nat (l - 1)"
  have "nat l = Suc n" using False unfolding n_def by linarith
  then show ?thesis using False by (simp add: keep_last_def n_def)
qed (simp add: keep_last_def)

context event_storage
begin

lemma item_ok:
  assumes inv: "inv s" and d: "log_on_disk (files s) dir dump evs" and r: "log_reflects dir evs log"
    and i: "i < el_length log" and c: "load (dump (evs ! i)) = Inr (evs ! i)" "dump (evs ! i) \<noteq> ''''"
  shows "\<exists>s' log'. get_single_item F load (int i) s log = Inr (evs ! i, s', log') \<and> inv s' \<and> files s' = files s \<and>
    log_reflects dir evs log' \<and> el_length log' = el_length log \<and> fits s' = fits s"
proof (cases "dict_get (el_cache log) i")
  case (Some e)
  then have "e = evs ! i" using r unfolding log_reflects_def by blast
  then show ?thesis using Some i inv r by (simp add: get_single_item_def Let_def)
next
  case None
  have le: "i < length evs" and dir: "el_dir log = dir" using r i by (simp_all add: log_reflects_def)
  have "dict_get (el_idx_to_id log) i = Some (ev_id (evs ! i))" using r i by (simp add: log_reflects_def)
  then have path: "event_path log i None = Inr (event_at dir i (evs ! i))"
    using dir by (simp add: event_path_def event_at_def)
  have "plain_path (event_at dir i (evs ! i))"
    using d le plain_event_path unfolding log_on_disk_def event_at_def by simp
  moreover have "files s (event_at dir i (evs ! i)) = Some (dump (evs ! i))"
    using d le unfolding log_on_disk_def by blast
  ultimately obtain s' where s': "op_read F (event_at dir i (evs ! i)) s = Inr (dump (evs ! i), s')" "inv s'"
    "files s' = files s" "fits s' = fits s" using read_law[OF inv] by blast
  define log' where "log' = log\<lparr>el_cache := dict_put i (evs ! i) (el_cache log)\<rparr>"
  have "get_single_item F load (int i) s log = Inr (evs ! i, s', log')"
    using None i path s'(1) c by (simp add: get_single_item_def load_event_def log'_def Let_def)
  moreover have "log_reflects dir evs log'" "el_length log' = el_length log"
    using r i unfolding log_reflects_def log'_def by (simp_all add: split: if_splits)
  ultimately show ?thesis using s' by blast
qed

text \<open>The loop from the event at \<open>i\<close>, with a chain of later events already collected.\<close>

lemma path_loop_ok:
  assumes "inv s" "log_on_disk (files s) dir dump evs" "log_reflects dir evs log" "i < el_length log" "tree_ok evs"
    "\<And>j. j \<le> i \<Longrightarrow> load (dump (evs ! j)) = Inr (evs ! j) \<and> dump (evs ! j) \<noteq> ''''"
    "\<And>j. j \<le> i \<Longrightarrow> ev_id (evs ! j) \<notin> set seen" "i < fuel"
  shows "\<exists>is s' log'. is_branch evs is i \<and>
    path_loop fuel F load limit (Some (ev_id (evs ! i))) seen chain s log =
      Some (Inr (map ((!) evs) (keep_last (map_option (\<lambda>l. l - int (length chain)) limit) is) @ chain, s', log')) \<and>
    inv s' \<and> files s' = files s \<and> log_reflects dir evs log' \<and> el_length log' = el_length log \<and> fits s' = fits s"
  using assms
proof (induction i arbitrary: s log seen chain fuel rule: less_induct)
  case (less i)
  obtain f where f: "fuel = Suc f" using less.prems(8) by (cases fuel) auto
  have le: "i < length evs" using less.prems(3,4) by (simp add: log_reflects_def)
  have dist: "distinct (map ev_id evs)" using less.prems(2) by (simp add: log_on_disk_def)
  have idx: "get_index (ev_id (evs ! i)) log = Inr i"
  proof -
    have "dict_get (el_id_to_idx log) (ev_id (evs ! i)) = Some i" using less.prems(3,4) unfolding log_reflects_def by blast
    then show ?thesis by (simp add: get_index_def)
  qed
  obtain s1 log1 where it: "get_single_item F load (int i) s log = Inr (evs ! i, s1, log1)" "inv s1"
    "files s1 = files s" "log_reflects dir evs log1" "el_length log1 = el_length log" "fits s1 = fits s"
    using item_ok[OF less.prems(1-4), of load] less.prems(6)[OF order_refl] by blast
  have d1: "log_on_disk (files s1) dir dump evs" using less.prems(2) it(3) by simp
  have seen: "ev_id (evs ! i) \<notin> set seen" using less.prems(7)[of i] by simp
  let ?lim = "\<lambda>c. map_option (\<lambda>l. l - int (length c)) limit"
  have branch_here: "\<exists>is. is_branch evs is i" if "\<And>j. tree_parent evs i = Some j \<Longrightarrow> \<exists>is. is_branch evs is j"
    using is_branch_root[OF _ le] is_branch_snoc[OF _ _ tree_parent_less[OF less.prems(5) dist le] le] that
    by (cases "tree_parent evs i") blast+
  have parent: "effective_parent_id i (evs ! i) log1 = Inr (map_option (\<lambda>j. ev_id (evs ! j)) (tree_parent evs i))"
    by (rule effective_parent_ok[OF it(4) _ less.prems(5) dist]) (use it(5) less.prems(4) in simp)
  have step: "path_loop fuel F load limit (Some (ev_id (evs ! i))) seen chain s log =
      (if (case limit of None \<Rightarrow> False | Some l \<Rightarrow> \<not> int (length chain) < l) then Some (Inr (chain, s, log))
       else path_loop f F load limit (map_option (\<lambda>j. ev_id (evs ! j)) (tree_parent evs i))
              (ev_id (evs ! i) # seen) (evs ! i # chain) s1 log1)"
    using f idx it(1) parent seen by simp
  have rec: "\<exists>is s' log'. is_branch evs is j \<and>
      path_loop f F load limit (Some (ev_id (evs ! j))) (ev_id (evs ! i) # seen) (evs ! i # chain) s1 log1 =
      Some (Inr (map ((!) evs) (keep_last (?lim (evs ! i # chain)) is) @ evs ! i # chain, s', log')) \<and>
      inv s' \<and> files s' = files s \<and> log_reflects dir evs log' \<and> el_length log' = el_length log \<and> fits s' = fits s"
    if j: "tree_parent evs i = Some j" for j
  proof -
    have ji: "j < i" by (rule tree_parent_less[OF less.prems(5) dist le j])
    have ids: "ev_id (evs ! k) \<notin> set (ev_id (evs ! i) # seen)" if "k \<le> j" for k
      using less.prems(7)[of k] nth_eq_iff_index_eq[OF dist, of k i] that ji le by simp
    show ?thesis
      unfolding it(3,5,6)[symmetric]
      by (rule less.IH[OF ji it(2) d1 it(4) _ less.prems(5) _ ids]) (use ji it(5) less.prems(4,6,8) f in auto)
  qed
  show ?case
  proof (cases "case limit of None \<Rightarrow> False | Some l \<Rightarrow> \<not> int (length chain) < l")
    case True
    then obtain l where l: "limit = Some l" "l - int (length chain) \<le> 0" by (auto split: option.splits)
    have "keep_last (?lim chain) is = []" for "is" :: "nat list" using l by (simp add: keep_last_def)
    moreover obtain "is" where "is_branch evs is i" using branch_here rec by blast
    ultimately show ?thesis using step True less.prems(1,3) by (intro exI[of _ "is"]) simp
  next
    case False
    note step' = step[unfolded if_not_P[OF False]]
    have keep: "keep_last (?lim chain) (is @ [i]) = keep_last (?lim (evs ! i # chain)) is @ [i]" for "is"
    proof (cases limit)
      case None
      then show ?thesis by (simp add: keep_last_def)
    next
      case (Some l)
      then have "\<not> l - int (length chain) \<le> 0" using False by simp
      then show ?thesis using Some by (simp add: keep_last_snoc algebra_simps)
    qed
    show ?thesis
    proof (cases "tree_parent evs i")
      case None
      have "keep_last (?lim (evs ! i # chain)) [] = ([] :: nat list)" by (simp add: keep_last_def split: option.split)
      then have "keep_last (?lim chain) [i] = [i]" using keep[of "[]"] by simp
      then show ?thesis using step' None is_branch_root[OF None le] it(2-6) by (intro exI[of _ "[i]"]) simp
    next
      case (Some j)
      then obtain "is" s' log' where r: "is_branch evs is j"
        "path_loop f F load limit (Some (ev_id (evs ! j))) (ev_id (evs ! i) # seen) (evs ! i # chain) s1 log1 =
         Some (Inr (map ((!) evs) (keep_last (?lim (evs ! i # chain)) is) @ evs ! i # chain, s', log'))"
        "inv s' \<and> files s' = files s \<and> log_reflects dir evs log' \<and> el_length log' = el_length log \<and> fits s' = fits s"
        using rec by blast
      have "is_branch evs (is @ [i]) i"
        by (rule is_branch_snoc[OF r(1) Some tree_parent_less[OF less.prems(5) dist le Some] le])
      then show ?thesis using step' Some r(2,3) keep[of "is"]
        by (intro exI[of _ "is @ [i]"] exI[of _ s'] exI[of _ log']) simp
    qed
  qed
qed

end

section \<open>The log on the local store\<close>

definition local_ops :: "local_store fs_ops" where
  "local_ops = \<lparr>op_read = lru_read, op_write = lru_write, op_delete = local_delete,
     op_exists = local_exists, op_list = local_list\<rparr>"

interpretation local_log: event_storage store_inv local_files local_fits local_ops
  unfolding event_storage_def local_ops_def fs_ops.simps
  by (rule local_fs.file_store_axioms)

definition codec_ok :: "(event \<Rightarrow> str) \<Rightarrow> (str \<Rightarrow> py_exc + event) \<Rightarrow> event list \<Rightarrow> bool" where
  "codec_ok dump load evs \<longleftrightarrow> (\<forall>e \<in> set evs. load (dump e) = Inr e \<and> dump e \<noteq> '''')"

text \<open>A store and an event for the witnesses; the codec writes the identifier.\<close>

definition empty_store :: local_store where
  "empty_store = \<lparr>ls_root = [''r''], ls_cache = new_cache 100 9, ls_disk = []\<rparr>"

definition sample_event :: event where
  "sample_event = mk_user ''aaaaaaaa''"

definition sample_load :: "str \<Rightarrow> py_exc + event" where
  "sample_load txt = Inr (mk_user txt)"

lemma empty_store_ok:
  "store_inv empty_store" "log_on_disk (local_files empty_store) ''events'' ev_id []"
  "log_reflects ''events'' [] (open_log local_ops ''events'' empty_store)"
proof -
  have "\<forall>c \<in> set (ls_root empty_store). normal_name c" by code_simp
  then show inv: "store_inv empty_store"
    using cache_ok_new[of 100 9] by (simp add: store_inv_def empty_store_def new_cache_def)
  have "local_files empty_store = (\<lambda>_. None)" by (auto simp: local_files_def empty_store_def)
  moreover have "plain_path ''events''" by code_simp
  ultimately show d: "log_on_disk (local_files empty_store) ''events'' ev_id []"
    by (simp add: log_on_disk_def under_def)
  show "log_reflects ''events'' [] (open_log local_ops ''events'' empty_store)"
    using local_log.open_complete[OF inv d] by (simp add: log_complete_def)
qed

lemma sample_event_facts: "ev_id sample_event = ''aaaaaaaa''" "ev_parent_id sample_event = None"
  "uuid_like (ev_id sample_event)" "codec_ok ev_id sample_load [sample_event]"
proof -
  show "uuid_like (ev_id sample_event)" by code_simp
qed (simp_all add: sample_event_def mk_defs sample_load_def codec_ok_def)

text \<open>
  C27: appending is safe with several writers. Let the directory hold the events \<open>evs\<close> and let a log
  object know any prefix of them, as one does while other writers append. Appending an event whose
  identifier is taken, or whose explicit parent is not in the log, raises \<open>ValueError\<close>. Otherwise
  the event gets the next free index of the directory, not of the object; the directory then holds
  \<open>evs\<close> and this event, so that no event was overwritten or skipped, the parents still form a
  tree, this object knows everything, and every other log object still knows its prefix.
\<close>

theorem log_append_safe:
  assumes "store_inv s" "log_on_disk (local_files s) dir dump evs" "log_reflects dir evs log" "tree_ok evs"
    "local_fits s (dump evt)" "uuid_like (ev_id evt)"
  shows "if ev_id evt \<in> ev_id ` set evs \<or>
      (ev_parent_id evt \<notin> {None, Some root_parent_id} \<and> the (ev_parent_id evt) \<notin> ev_id ` set evs)
    then \<exists>msg. log_append local_ops dump None evt s log = Inl (ValueError msg)
    else \<exists>s' log'. log_append local_ops dump None evt s log = Inr (length evs, s', log') \<and> store_inv s' \<and>
      log_on_disk (local_files s') dir dump (evs @ [evt]) \<and> tree_ok (evs @ [evt]) \<and>
      log_complete dir (evs @ [evt]) log' \<and>
      (\<forall>other. log_reflects dir evs other \<longrightarrow> log_reflects dir (evs @ [evt]) other)"
proof (cases "ev_id evt \<in> ev_id ` set evs \<or>
      (ev_parent_id evt \<notin> {None, Some root_parent_id} \<and> the (ev_parent_id evt) \<notin> ev_id ` set evs)")
  case True
  then show ?thesis using local_log.append_refused[OF assms(1-3) True] by simp
next
  case False
  then have par: "ev_parent_id evt \<in> {None, Some root_parent_id} \<or> the (ev_parent_id evt) \<in> ev_id ` set evs" by blast
  have "local_fits s ''''" using assms(1) by (simp add: local_fits_def store_inv_def)
  from local_log.append_ok[OF assms(1-3,5) this assms(6) _ par] False
  obtain s' log' where r: "log_append local_ops dump None evt s log = Inr (length evs, s', log')" "store_inv s'"
    "log_on_disk (local_files s') dir dump (evs @ [evt])" "log_complete dir (evs @ [evt]) log'" by blast
  moreover note tree_ok_append[OF assms(4) par] log_reflects_mono
  ultimately show ?thesis unfolding if_not_P[OF False] by blast
qed

lemma log_append_safe_witness:
  "\<exists>s' log'. log_append local_ops ev_id None sample_event empty_store (open_log local_ops ''events'' empty_store) =
     Inr (0, s', log') \<and> log_on_disk (local_files s') ''events'' ev_id [sample_event]"
proof -
  have fit: "local_fits empty_store (ev_id sample_event)" by code_simp
  have "tree_ok []" by (simp add: tree_ok_def)
  from log_append_safe[OF empty_store_ok this fit sample_event_facts(3)] show ?thesis
    by (auto simp: sample_event_facts)
qed

text \<open>
  C28: reopening recovers the log. A log opened on a directory that holds the events \<open>evs\<close> knows all
  of them and nothing else: every identifier has its index, and reading each index, whatever the
  order the directory is listed in, gives back the event that was appended there.
\<close>

theorem reopen_recovers:
  assumes "store_inv s" "log_on_disk (local_files s) dir dump evs" "codec_ok dump load evs"
  shows "el_length (open_log local_ops dir s) = length evs \<and>
    (\<forall>i < length evs. get_index (ev_id (evs ! i)) (open_log local_ops dir s) = Inr i \<and>
       get_id (int i) (open_log local_ops dir s) = Inr (ev_id (evs ! i)) \<and>
       (\<exists>s' log'. get_single_item local_ops load (int i) s (open_log local_ops dir s) = Inr (evs ! i, s', log'))) \<and>
    (\<forall>e. log_contains e (open_log local_ops dir s) \<longleftrightarrow> e \<in> ev_id ` set evs)"
proof -
  let ?log = "open_log local_ops dir s"
  have c: "log_complete dir evs ?log" by (rule local_log.open_complete[OF assms(1,2)])
  then have r: "log_reflects dir evs ?log" "el_length ?log = length evs" by (simp_all add: log_complete_def)
  have "\<exists>s' log'. get_single_item local_ops load (int i) s ?log = Inr (evs ! i, s', log')" if "i < length evs" for i
  proof -
    have "i < el_length ?log" using that r(2) by simp
    moreover have "load (dump (evs ! i)) = Inr (evs ! i)" "dump (evs ! i) \<noteq> ''''"
      using assms(3) that by (simp_all add: codec_ok_def)
    ultimately show ?thesis using local_log.item_ok[OF assms(1,2) r(1), of i load] by blast
  qed
  moreover have "get_index (ev_id (evs ! i)) ?log = Inr i \<and> get_id (int i) ?log = Inr (ev_id (evs ! i))"
    if "i < length evs" for i
  proof -
    have "dict_get (el_id_to_idx ?log) (ev_id (evs ! i)) = Some i" "dict_get (el_idx_to_id ?log) i = Some (ev_id (evs ! i))"
      using r that by (simp_all add: log_reflects_def)
    then show ?thesis using r(2) that by (simp add: get_index_def get_id_def)
  qed
  ultimately show ?thesis using r(2) local_log.complete_contains[OF c] by blast
qed

text \<open>The store after one append, for the witnesses.\<close>

lemma one_event_store:
  obtains s' log' where "store_inv s'" "log_on_disk (local_files s') ''events'' ev_id [sample_event]"
    "log_complete ''events'' [sample_event] log'"
proof -
  have fit: "local_fits empty_store (ev_id sample_event)" "local_fits empty_store ''''" by code_simp+
  obtain s' log' where "log_append local_ops ev_id None sample_event empty_store (open_log local_ops ''events'' empty_store) =
      Inr (length ([] :: event list), s', log') \<and> store_inv s' \<and>
      log_on_disk (local_files s') ''events'' ev_id ([] @ [sample_event]) \<and> log_complete ''events'' ([] @ [sample_event]) log' \<and>
      local_fits s' = local_fits empty_store"
    using local_log.append_ok[OF empty_store_ok fit sample_event_facts(3)] by (auto simp: sample_event_facts)
  then show ?thesis using that by auto
qed

lemma reopen_recovers_witness:
  "\<exists>s. el_length (open_log local_ops ''events'' s) = 1 \<and>
     get_index ''aaaaaaaa'' (open_log local_ops ''events'' s) = Inr 0"
proof -
  obtain s' log' where s': "store_inv s'" "log_on_disk (local_files s') ''events'' ev_id [sample_event]"
    by (rule one_event_store)
  from reopen_recovers[OF s' sample_event_facts(4)] show ?thesis
    by (intro exI[of _ s']) (simp add: sample_event_facts)
qed

text \<open>
  C29: the path to the root. For a log whose parents form a tree, \<open>path_to_root\<close> from the event at
  index \<open>i\<close> ends after at most \<open>i + 1\<close> rounds, never reports a cycle or a missing ancestor, and
  returns the one branch that leads there: it starts at a root, each event is the parent of the
  next (an explicit one, or the previous index for events without one), indices increase, and the
  last is the leaf. With a limit it returns exactly the last \<open>limit\<close> events of that branch.
\<close>

theorem path_to_root_branch:
  assumes "store_inv s" "log_on_disk (local_files s) dir dump evs" "log_complete dir evs log" "tree_ok evs"
    "codec_ok dump load evs" "i < length evs" "i < fuel"
  shows "\<exists>is. is_branch evs is i \<and> (\<forall>limit. \<exists>s' log'.
    path_to_root fuel local_ops load (Some (ev_id (evs ! i))) limit s log =
      Some (Inr (map ((!) evs) (keep_last limit is), s', log')))"
proof -
  have r: "log_reflects dir evs log" "i < el_length log" using assms(3,6) by (simp_all add: log_complete_def)
  have c: "load (dump (evs ! j)) = Inr (evs ! j) \<and> dump (evs ! j) \<noteq> ''''" if "j \<le> i" for j
    using assms(5,6) that by (simp add: codec_ok_def)
  have run: "\<exists>is s' log'. is_branch evs is i \<and>
      path_loop fuel local_ops load limit (Some (ev_id (evs ! i))) [] [] s log =
        Some (Inr (map ((!) evs) (keep_last (map_option (\<lambda>l. l - int (length ([] :: event list))) limit) is) @ [], s', log')) \<and>
      store_inv s' \<and> local_files s' = local_files s \<and> log_reflects dir evs log' \<and> el_length log' = el_length log \<and>
      local_fits s' = local_fits s" for limit
    by (rule local_log.path_loop_ok[OF assms(1,2) r assms(4) c _ assms(7)]) simp_all
  obtain "is" where "is": "is_branch evs is i" using run[of None] by blast
  have uniq: "is' = is" if "is_branch evs is' i" for is'
    by (rule is_branch_unique[OF that "is"])
  have "map_option (\<lambda>l. l - int (length ([] :: event list))) limit = limit" for limit by (cases limit) simp_all
  then have "\<exists>s' log'. path_to_root fuel local_ops load (Some (ev_id (evs ! i))) limit s log =
      Some (Inr (map ((!) evs) (keep_last limit is), s', log'))" for limit
    using run[of limit] uniq by (auto simp: path_to_root_def)
  then show ?thesis using "is" by blast
qed

lemma path_to_root_branch_witness:
  "\<exists>s log s' log'. path_to_root 1 local_ops sample_load (Some ''aaaaaaaa'') None s log =
     Some (Inr ([sample_event], s', log'))"
proof -
  obtain s log where s: "store_inv s" "log_on_disk (local_files s) ''events'' ev_id [sample_event]"
    "log_complete ''events'' [sample_event] log" by (rule one_event_store)
  have t: "tree_ok [sample_event]" by (simp add: tree_ok_def sample_event_facts)
  obtain "is" where b: "is_branch [sample_event] is 0" and r: "\<forall>limit. \<exists>s' log'.
      path_to_root 1 local_ops sample_load (Some (ev_id ([sample_event] ! 0))) limit s log =
      Some (Inr (map ((!) [sample_event]) (keep_last limit is), s', log'))"
    using path_to_root_branch[OF s t sample_event_facts(4), of 0 1] by auto
  have "is_branch [sample_event] [0] 0" by (rule is_branch_root) (simp_all add: tree_parent_def sample_event_facts)
  then have "is = [0]" using is_branch_unique[OF b] by simp
  moreover have "keep_last None [0 :: nat] = [0]" by (simp add: keep_last_def)
  ultimately have "\<exists>s' log'. path_to_root 1 local_ops sample_load (Some ''aaaaaaaa'') None s log =
      Some (Inr ([sample_event], s', log'))"
    using r[THEN spec, of None] by (simp add: sample_event_facts)
  then show ?thesis by blast
qed

section \<open>The crash window of the length marker\<close>

text \<open>
  A log object that finds the marker of its own length appends without looking at the directory.
  The marker moves only after the event file is written, so a writer that dies in between leaves a
  marker that is one too small, and another object that knows as much appends a second file with the
  index that is already taken, under its own identifier.
\<close>

lemma stale_marker_reuses_index:
  assumes "marker_matches_length F s log" "el_dir log = dir" "ev_id evt \<noteq> ''''"
    "\<not> log_contains (ev_id evt) log" "ev_parent_id evt = None"
    "op_write F (event_at dir (el_length log) evt) (dump evt) s = Inr s1"
  shows "\<exists>s' log'. log_append F dump None evt s log = Inr (el_length log, s', log')"
proof -
  have "sync_if_needed F s log = log" using assms(1) by (simp add: sync_if_needed_def)
  moreover have "event_path log (el_length log) (Some (ev_id evt)) = Inr (event_at dir (el_length log) evt)"
    using assms(2,3) by (simp add: event_path_def event_at_def)
  ultimately show ?thesis using assms(4-6) by (simp add: log_append_def log_contains_def Let_def)
qed

end
