(* ===== verification/Patch_Core.thy ===== *)
theory Patch_Core
  imports File_Store Text_Utils "HOL-Library.List_Lexorder" "HOL-Library.Char_ord"
begin

text \<open>
  \<open>tools/apply_patch/core.py\<close>: parsing a patch text, locating its hunks, computing the new file
  contents and applying them. The callables for file access are arguments with the state they act
  on passed through; \<open>tools/apply_patch/definition.py\<close>, which supplies them, is in the next theory.

  The parser object is a record. Each of its loops consumes at least one line per round, which is
  the termination argument of the loop functions.
\<close>

section \<open>Data\<close>

datatype action_type = ADD | DELETE | UPDATE

record file_change =
  fc_type :: action_type
  old_content :: "str option"
  new_content :: "str option"
  fc_move_path :: "str option"

type_synonym commit = "(str, file_change) dict"

record chunk =
  orig_index :: int
  del_lines :: "str list"
  ins_lines :: "str list"

record patch_action =
  pa_type :: action_type
  pa_new_file :: "str option"
  pa_chunks :: "chunk list"
  pa_move_path :: "str option"

type_synonym patch = "(str, patch_action) dict"

record parser =
  current_files :: "(str, str) dict"
  p_lines :: "str list"
  p_index :: nat
  p_patch :: patch
  p_fuzz :: int

definition join_lines :: "str list \<Rightarrow> str" where
  "join_lines ls = py_join [newline] ls"

definition split_lines :: "str \<Rightarrow> str list" where
  "split_lines s = py_split newline s"

definition squoted :: "str \<Rightarrow> str" where
  "squoted s = CHR 0x27 # s @ [CHR 0x27]"

section \<open>Comparing two states of the files\<close>

definition assemble_one :: "(str, str option) dict \<Rightarrow> (str, str option) dict \<Rightarrow> str \<Rightarrow> commit \<Rightarrow> py_exc + commit" where
  "assemble_one orig dest path changes =
     (let old = (case dict_get orig path of None \<Rightarrow> None | Some c \<Rightarrow> c);
          new = (case dict_get dest path of None \<Rightarrow> None | Some c \<Rightarrow> c) in
      if old = new then Inr changes
      else if old \<noteq> None \<and> new \<noteq> None then
        Inr (dict_put path \<lparr>fc_type = UPDATE, old_content = old, new_content = new, fc_move_path = None\<rparr> changes)
      else if new \<noteq> None \<and> new \<noteq> Some '''' then
        Inr (dict_put path \<lparr>fc_type = ADD, old_content = None, new_content = new, fc_move_path = None\<rparr> changes)
      else if old \<noteq> None \<and> old \<noteq> Some '''' then
        Inr (dict_put path \<lparr>fc_type = DELETE, old_content = old, new_content = None, fc_move_path = None\<rparr> changes)
      else Inl (DiffError (''Unexpected state: path '' @ squoted path @ '' exists in neither orig nor dest'')))"

fun assemble_from :: "(str, str option) dict \<Rightarrow> (str, str option) dict \<Rightarrow> str list \<Rightarrow> commit \<Rightarrow> py_exc + commit" where
  "assemble_from orig dest [] changes = Inr changes"
| "assemble_from orig dest (p # ps) changes =
     rbind (assemble_one orig dest p changes) (assemble_from orig dest ps)"

definition assemble_changes :: "(str, str option) dict \<Rightarrow> (str, str option) dict \<Rightarrow> py_exc + commit" where
  "assemble_changes orig dest =
     assemble_from orig dest (sort (remdups (dict_keys orig @ dict_keys dest))) []"

section \<open>Locating a context\<close>

definition lines_match :: "(str \<Rightarrow> str) \<Rightarrow> str list \<Rightarrow> str list \<Rightarrow> int \<Rightarrow> bool" where
  "lines_match f lines context i \<longleftrightarrow>
     map f (py_slice lines i (i + int (length context))) = map f context"

definition find_context_core :: "str list \<Rightarrow> str list \<Rightarrow> int \<Rightarrow> int \<times> int" where
  "find_context_core lines context start =
     (if context = [] then (start, 0)
      else let range = [start..int (length lines) - 1] in
        case find (lines_match (\<lambda>s. s) lines context) range of Some i \<Rightarrow> (i, 0)
      | None \<Rightarrow> (case find (lines_match py_rstrip lines context) range of Some i \<Rightarrow> (i, 1)
      | None \<Rightarrow> (case find (lines_match py_strip lines context) range of Some i \<Rightarrow> (i, 100)
      | None \<Rightarrow> (-1, 0))))"

definition find_context :: "str list \<Rightarrow> str list \<Rightarrow> int \<Rightarrow> bool \<Rightarrow> int \<times> int" where
  "find_context lines context start eof =
     (if eof then
        let (new_index, fuzz) = find_context_core lines context (int (length lines) - int (length context)) in
        if new_index \<noteq> -1 then (new_index, fuzz)
        else let (new_index2, fuzz2) = find_context_core lines context start in (new_index2, fuzz2 + 10000)
      else find_context_core lines context start)"

section \<open>One section of a hunk\<close>

datatype line_mode = Keep | Add | Delete

definition section_end_prefixes :: "str list" where
  "section_end_prefixes = [''@@'', ''*** End Patch'', ''*** Update File:'', ''*** Delete File:'',
     ''*** Add File:'', ''*** End of File'']"

definition starts_with_any :: "str \<Rightarrow> str list \<Rightarrow> bool" where
  "starts_with_any s ps \<longleftrightarrow> (\<exists>p \<in> set ps. py_startswith s p)"

definition flush_chunk :: "str list \<Rightarrow> str list \<Rightarrow> str list \<Rightarrow> chunk list \<Rightarrow> chunk list" where
  "flush_chunk old dels inss chunks =
     (if inss \<noteq> [] \<or> dels \<noteq> []
      then chunks @ [\<lparr>orig_index = int (length old) - int (length dels), del_lines = dels, ins_lines = inss\<rparr>]
      else chunks)"

record section_state =
  ss_old :: "str list"
  ss_del :: "str list"
  ss_ins :: "str list"
  ss_chunks :: "chunk list"
  ss_mode :: line_mode

definition line_mode_of :: "str \<Rightarrow> line_mode option" where
  "line_mode_of s = (if hd s = CHR ''+'' then Some Add else if hd s = CHR ''-'' then Some Delete
     else if hd s = CHR '' '' then Some Keep else None)"

definition section_line :: "str \<Rightarrow> section_state \<Rightarrow> py_exc + section_state" where
  "section_line s0 st =
     (let s = (if s0 = '''' then '' '' else s0) in
      case line_mode_of s of
        None \<Rightarrow> Inl (DiffError (''Invalid Line: '' @ s))
      | Some m \<Rightarrow>
          let s' = tl s;
              st1 = (if m = Keep \<and> ss_mode st \<noteq> m
                     then st\<lparr>ss_chunks := flush_chunk (ss_old st) (ss_del st) (ss_ins st) (ss_chunks st),
                             ss_del := [], ss_ins := []\<rparr> else st);
              st2 = st1\<lparr>ss_mode := m\<rparr>
          in Inr (case m of
               Delete \<Rightarrow> st2\<lparr>ss_del := ss_del st2 @ [s'], ss_old := ss_old st2 @ [s']\<rparr>
             | Add \<Rightarrow> st2\<lparr>ss_ins := ss_ins st2 @ [s']\<rparr>
             | Keep \<Rightarrow> st2\<lparr>ss_old := ss_old st2 @ [s']\<rparr>))"

text \<open>The loop, over the lines that are left; it returns how many it consumed.\<close>

fun section_loop :: "str list \<Rightarrow> nat \<Rightarrow> section_state \<Rightarrow> py_exc + nat \<times> section_state" where
  "section_loop [] index st = Inr (index, st)"
| "section_loop (s # rest) index st =
     (if starts_with_any s section_end_prefixes then Inr (index, st)
      else if s = ''***'' then Inr (index, st)
      else if py_startswith s ''***'' then Inl (DiffError (''Invalid Line: '' @ s))
      else rbind (section_line s st) (section_loop rest (Suc index)))"

definition empty_section :: section_state where
  "empty_section = \<lparr>ss_old = [], ss_del = [], ss_ins = [], ss_chunks = [], ss_mode = Keep\<rparr>"

definition peek_next_section :: "str list \<Rightarrow> nat \<Rightarrow> py_exc + str list \<times> chunk list \<times> nat \<times> bool" where
  "peek_next_section lines index0 =
     rbind (section_loop (drop index0 lines) index0 empty_section) (\<lambda>(index, st).
     let chunks = flush_chunk (ss_old st) (ss_del st) (ss_ins st) (ss_chunks st) in
     if index < length lines \<and> lines ! index = ''*** End of File''
     then Inr (ss_old st, chunks, Suc index, True)
     else if index = index0 then
       (if index < length lines
        then Inl (DiffError (''Nothing in this section - index='' @ nat_to_str index @ '' '' @ lines ! index))
        else Inl IndexError)
     else Inr (ss_old st, chunks, index, False))"

section \<open>The parser\<close>

definition is_done :: "str list \<Rightarrow> parser \<Rightarrow> bool" where
  "is_done prefixes p \<longleftrightarrow> p_index p \<ge> length (p_lines p) \<or> starts_with_any (p_lines p ! p_index p) prefixes"

definition end_of_patch_error :: "parser \<Rightarrow> py_exc" where
  "end_of_patch_error p = DiffError (''Unexpected end of patch at index '' @ nat_to_str (p_index p))"

definition parser_startswith :: "str list \<Rightarrow> parser \<Rightarrow> py_exc + bool" where
  "parser_startswith prefixes p =
     (if p_index p \<ge> length (p_lines p) then Inl (end_of_patch_error p)
      else Inr (starts_with_any (p_lines p ! p_index p) prefixes))"

definition read_str :: "str \<Rightarrow> parser \<Rightarrow> py_exc + str \<times> parser" where
  "read_str prefix p =
     (if p_index p \<ge> length (p_lines p) then Inl (end_of_patch_error p)
      else let line = p_lines p ! p_index p in
        if py_startswith line prefix
        then Inr (drop (length prefix) line, p\<lparr>p_index := Suc (p_index p)\<rparr>)
        else Inr ('''', p))"

definition file_end_prefixes :: "str list" where
  "file_end_prefixes = [''*** End Patch'', ''*** Update File:'', ''*** Delete File:'', ''*** Add File:'']"

definition update_end_prefixes :: "str list" where
  "update_end_prefixes = file_end_prefixes @ [''*** End of File'']"

text \<open>The search for the line named after \<open>@@\<close>: the new position in the file and the fuzz it costs.\<close>

definition seek_definition :: "str list \<Rightarrow> nat \<Rightarrow> str \<Rightarrow> nat \<times> int" where
  "seek_definition lines index def_str =
     (if py_strip def_str = '''' then (index, 0)
      else
        let exact = (if filter (\<lambda>s. s = def_str) (take index lines) = []
                     then find_index_from index (\<lambda>s. s = def_str) (drop index lines) else None)
        in case exact of
             Some i \<Rightarrow> (Suc i, 0)
           | None \<Rightarrow>
               (if filter (\<lambda>s. py_strip s = py_strip def_str) (take index lines) = []
                then case find_index_from index (\<lambda>s. py_strip s = py_strip def_str) (drop index lines) of
                    Some i \<Rightarrow> (Suc i, 1) | None \<Rightarrow> (index, 0)
                else (index, 0)))"

text \<open>One round of the loop of \<open>parse_update_file\<close>, on the lines of the file and a position in it.\<close>

definition update_section :: "str list \<Rightarrow> parser \<Rightarrow> nat \<Rightarrow> py_exc + parser \<times> chunk list \<times> nat" where
  "update_section lines p index =
     rbind (read_str ''@@ '' p) (\<lambda>(def_str, p1).
     rbind (if def_str \<noteq> '''' then Inr ('''', p1)
            else if p_index p1 \<ge> length (p_lines p1) then Inl IndexError
            else if p_lines p1 ! p_index p1 = ''@@'' then Inr (''@@'', p1\<lparr>p_index := Suc (p_index p1)\<rparr>)
            else Inr ('''', p1)) (\<lambda>(section_str, p2).
     if \<not> (def_str \<noteq> '''' \<or> section_str \<noteq> '''' \<or> index = 0) then
       (if p_index p2 < length (p_lines p2)
        then Inl (DiffError (''Invalid Line:'' @ [newline] @ p_lines p2 ! p_index p2)) else Inl IndexError)
     else let (index1, fuzz1) = seek_definition lines index def_str in
     rbind (peek_next_section (p_lines p2) (p_index p2)) (\<lambda>(context, chunks, end_index, eof).
     let (new_index, fuzz2) = find_context lines context (int index1) eof in
     if new_index = -1 then
       Inl (DiffError ((if eof then ''Invalid EOF Context '' else ''Invalid Context '') @
              nat_to_str index1 @ '':'' @ [newline] @ join_lines context))
     else Inr (p2\<lparr>p_fuzz := p_fuzz p2 + fuzz1 + fuzz2, p_index := end_index\<rparr>,
               map (\<lambda>ch. ch\<lparr>orig_index := orig_index ch + new_index\<rparr>) chunks,
               nat (new_index + int (length context))))))"

lemma section_loop_index:
  "section_loop ls i st = Inr (j, st') \<Longrightarrow> i \<le> j \<and> j \<le> i + length ls"
  by (induction ls i st rule: section_loop.induct) (fastforce simp: rbind_eq_Inr split: if_splits)+

lemma peek_progress:
  "peek_next_section lines i = Inr (old, chunks, j, eof) \<Longrightarrow> i \<le> length lines \<Longrightarrow> i < j \<and> j \<le> length lines"
  by (auto simp: peek_next_section_def rbind_eq_Inr Let_def split: if_splits dest!: section_loop_index)

lemma read_str_ok:
  "read_str prefix p = Inr (s, p') \<Longrightarrow> p_lines p' = p_lines p \<and> p_index p \<le> p_index p' \<and>
     p_index p' \<le> length (p_lines p) \<and> current_files p' = current_files p \<and> p_patch p' = p_patch p \<and>
     (s \<noteq> '''' \<longrightarrow> p_index p < p_index p') \<and> (\<not> p_index p < p_index p' \<longrightarrow> p' = p)"
  by (auto simp: read_str_def Let_def split: if_splits)

lemma update_section_progress:
  assumes "update_section lines p index = Inr (p', chunks, index')"
  shows "p_index p < p_index p' \<and> p_index p' \<le> length (p_lines p) \<and> p_lines p' = p_lines p \<and>
    current_files p' = current_files p \<and> p_patch p' = p_patch p"
proof -
  from assms obtain d p1 where a: "read_str ''@@ '' p = Inr (d, p1)"
    unfolding update_section_def rbind_eq_Inr by auto
  note r = read_str_ok[OF a]
  from assms a obtain sec p2 where b: "(if d \<noteq> '''' then Inr ('''', p1)
            else if p_index p1 \<ge> length (p_lines p1) then Inl IndexError
            else if p_lines p1 ! p_index p1 = ''@@'' then Inr (''@@'', p1\<lparr>p_index := Suc (p_index p1)\<rparr>)
            else Inr ('''', p1)) = Inr (sec, p2)"
    unfolding update_section_def by (auto simp: rbind_eq_Inr)
  have p2: "p_lines p2 = p_lines p" "p_index p \<le> p_index p2" "p_index p2 \<le> length (p_lines p)"
    "current_files p2 = current_files p" "p_patch p2 = p_patch p"
    using b r by (auto split: if_splits)
  obtain i1 f1 where sk: "seek_definition lines index d = (i1, f1)" by (cases "seek_definition lines index d")
  from assms a b sk obtain ctx chunks0 e eof where c: "peek_next_section (p_lines p2) (p_index p2) = Inr (ctx, chunks0, e, eof)"
    and p': "p_index p' = e" "p_lines p' = p_lines p2" "current_files p' = current_files p2" "p_patch p' = p_patch p2"
    unfolding update_section_def
    by (auto simp: rbind_eq_Inr Let_def split: if_splits prod.splits)
  have "p_index p2 < e \<and> e \<le> length (p_lines p2)" by (rule peek_progress[OF c]) (simp add: p2)
  then show ?thesis using p2 p' by simp
qed

function update_loop :: "str list \<Rightarrow> parser \<Rightarrow> chunk list \<Rightarrow> nat \<Rightarrow> py_exc + parser \<times> chunk list" where
  "update_loop lines p chunks index =
     (if is_done update_end_prefixes p then Inr (p, chunks)
      else rbind (update_section lines p index) (\<lambda>(p', chs, index').
        update_loop lines p' (chunks @ chs) index'))"
  by pat_completeness auto
termination
proof (relation "measure (\<lambda>(ls, p, cs, i). length (p_lines p) - p_index p)")
  fix lines p chunks index r p' y chs index'
  assume nd: "\<not> is_done update_end_prefixes p" and r: "update_section lines p index = Inr r"
    and e: "(p', y) = r" "(chs, index') = y"
  then have "update_section lines p index = Inr (p', chs, index')" by simp
  note update_section_progress[OF this]
  moreover have "p_index p < length (p_lines p)" using nd by (simp add: is_done_def)
  ultimately show "((lines, p', chunks @ chs, index'), lines, p, chunks, index) \<in> measure (\<lambda>(ls, p, cs, i). length (p_lines p) - p_index p)"
    by (simp add: diff_less_mono2)
qed simp

declare update_loop.simps [simp del]

definition parse_update_file :: "str \<Rightarrow> parser \<Rightarrow> py_exc + patch_action \<times> parser" where
  "parse_update_file text p =
     rbind (update_loop (split_lines text) p [] 0) (\<lambda>(p', chunks).
     Inr (\<lparr>pa_type = UPDATE, pa_new_file = None, pa_chunks = chunks, pa_move_path = None\<rparr>, p'))"

text \<open>\<open>read_str()\<close> with the empty prefix consumes a line in every round.\<close>

function add_loop :: "parser \<Rightarrow> str list \<Rightarrow> py_exc + str list \<times> parser" where
  "add_loop p lines =
     (if is_done file_end_prefixes p then Inr (lines, p)
      else let s = p_lines p ! p_index p; p' = p\<lparr>p_index := Suc (p_index p)\<rparr> in
        if \<not> py_startswith s ''+'' then Inl (DiffError (''Invalid Add File Line: '' @ s))
        else add_loop p' (lines @ [tl s]))"
  by pat_completeness auto
termination
  by (relation "measure (\<lambda>(p, ls). length (p_lines p) - p_index p)") (auto simp: is_done_def)

declare add_loop.simps [simp del]

definition parse_add_file :: "parser \<Rightarrow> py_exc + patch_action \<times> parser" where
  "parse_add_file p =
     rbind (add_loop p []) (\<lambda>(lines, p').
     Inr (\<lparr>pa_type = ADD, pa_new_file = Some (join_lines lines), pa_chunks = [], pa_move_path = None\<rparr>, p'))"

definition has_action :: "str \<Rightarrow> parser \<Rightarrow> bool" where
  "has_action path p \<longleftrightarrow> dict_get (p_patch p) path \<noteq> None"

definition put_action :: "str \<Rightarrow> patch_action \<Rightarrow> parser \<Rightarrow> parser" where
  "put_action path a p = p\<lparr>p_patch := dict_put path a (p_patch p)\<rparr>"

definition invalid_move :: "str \<Rightarrow> bool" where
  "invalid_move move_to \<longleftrightarrow> move_to \<noteq> '''' \<and> (''..'' \<in> set (py_split slash move_to) \<or> py_startswith move_to [slash])"

definition parse_update :: "str \<Rightarrow> parser \<Rightarrow> py_exc + parser" where
  "parse_update path p =
     (if has_action path p then Inl (DiffError (''Update File Error: Duplicate Path: '' @ path))
      else rbind (read_str ''*** Move to: '' p) (\<lambda>(move_to, p1).
        if invalid_move move_to then
          Inl (DiffError (''Update File Error: Invalid move path '' @ squoted move_to @
                 '': must be a relative path without '' @ squoted ''..'' @ '' components''))
        else case dict_get (current_files p1) path of
          None \<Rightarrow> Inl (DiffError (''Update File Error: Missing File: '' @ path))
        | Some text \<Rightarrow> rbind (parse_update_file text p1) (\<lambda>(a, p2).
            Inr (put_action path (a\<lparr>pa_move_path := Some move_to\<rparr>) p2))))"

definition parse_delete :: "str \<Rightarrow> parser \<Rightarrow> py_exc + parser" where
  "parse_delete path p =
     (if has_action path p then Inl (DiffError (''Delete File Error: Duplicate Path: '' @ path))
      else if dict_get (current_files p) path = None
        then Inl (DiffError (''Delete File Error: Missing File: '' @ path))
      else Inr (put_action path \<lparr>pa_type = DELETE, pa_new_file = None, pa_chunks = [], pa_move_path = None\<rparr> p))"

definition parse_add :: "str \<Rightarrow> parser \<Rightarrow> py_exc + parser" where
  "parse_add path p =
     (if has_action path p then Inl (DiffError (''Add File Error: Duplicate Path: '' @ path))
      else rbind (parse_add_file p) (\<lambda>(a, p1). Inr (put_action path a p1)))"

text \<open>One round of the loop of \<open>parse\<close>.\<close>

definition parse_step :: "parser \<Rightarrow> py_exc + parser" where
  "parse_step p =
     rbind (read_str ''*** Update File: '' p) (\<lambda>(path, p1).
     if path \<noteq> '''' then parse_update path p1
     else rbind (read_str ''*** Delete File: '' p1) (\<lambda>(path2, p2).
     if path2 \<noteq> '''' then parse_delete path2 p2
     else rbind (read_str ''*** Add File: '' p2) (\<lambda>(path3, p3).
     if path3 \<noteq> '''' then parse_add path3 p3
     else if p_index p3 < length (p_lines p3)
       then Inl (DiffError (''Unknown Line: '' @ p_lines p3 ! p_index p3)) else Inl IndexError)))"

text \<open>What every parsing function keeps: the lines and the files; the position never goes back or past the end.\<close>

definition advances :: "parser \<Rightarrow> parser \<Rightarrow> bool" where
  "advances p p' \<longleftrightarrow> p_lines p' = p_lines p \<and> current_files p' = current_files p \<and>
     p_index p \<le> p_index p' \<and> (p_index p \<le> length (p_lines p) \<longrightarrow> p_index p' \<le> length (p_lines p))"

lemma advances_refl [simp]: "advances p p"
  by (simp add: advances_def)

lemma advances_trans: "advances p q \<Longrightarrow> advances q r \<Longrightarrow> advances p r"
  by (auto simp: advances_def)

lemma advances_read: "read_str prefix p = Inr (s, p') \<Longrightarrow> advances p p'"
  using read_str_ok[of prefix p s p'] by (auto simp: advances_def)

lemma advances_put [simp]: "advances p (put_action path a q) \<longleftrightarrow> advances p q"
  by (simp add: advances_def put_action_def)

lemma advances_update_loop: "update_loop lines p chunks index = Inr (p', chunks') \<Longrightarrow> advances p p' \<and> p_patch p' = p_patch p"
proof (induction lines p chunks index rule: update_loop.induct)
  case (1 lines p chunks index)
  show ?case
  proof (cases "is_done update_end_prefixes p")
    case True
    then show ?thesis using "1.prems" by (simp add: update_loop.simps[of lines p])
  next
    case False
    then obtain p1 chs i1 where s: "update_section lines p index = Inr (p1, chs, i1)"
      "update_loop lines p1 (chunks @ chs) i1 = Inr (p', chunks')"
      using "1.prems" by (subst (asm) update_loop.simps) (auto simp: rbind_eq_Inr)
    have "advances p1 p' \<and> p_patch p' = p_patch p1"
      by (rule "1.IH"[OF False s(1) refl refl s(2)])
    moreover have "advances p p1 \<and> p_patch p1 = p_patch p"
      using update_section_progress[OF s(1)] by (simp add: advances_def)
    ultimately show ?thesis using advances_trans by auto
  qed
qed

lemma advances_add_loop: "add_loop p lines = Inr (lines', p') \<Longrightarrow> advances p p' \<and> p_patch p' = p_patch p"
proof (induction p lines rule: add_loop.induct)
  case (1 p lines)
  show ?case
  proof (cases "is_done file_end_prefixes p")
    case True
    then show ?thesis using "1.prems" by (simp add: add_loop.simps[of p])
  next
    case False
    let ?s = "p_lines p ! p_index p"
    let ?p = "p\<lparr>p_index := Suc (p_index p)\<rparr>"
    from False "1.prems" have s: "py_startswith ?s ''+''" "add_loop ?p (lines @ [tl ?s]) = Inr (lines', p')"
      by (auto simp: add_loop.simps[of p] Let_def split: if_splits)
    have "advances ?p p' \<and> p_patch p' = p_patch ?p"
      by (rule "1.IH"[OF False refl refl _ s(2)]) (simp add: s(1))
    moreover have "advances p ?p" using False by (auto simp: advances_def is_done_def)
    ultimately show ?thesis using advances_trans by auto
  qed
qed

lemma advances_parse_update: "parse_update path p = Inr p' \<Longrightarrow> advances p p'"
  by (auto simp: parse_update_def parse_update_file_def rbind_eq_Inr split: if_splits option.splits
      dest!: advances_read advances_update_loop intro: advances_trans)

lemma advances_parse_delete: "parse_delete path p = Inr p' \<Longrightarrow> advances p p'"
  by (auto simp: parse_delete_def split: if_splits)

lemma advances_parse_add: "parse_add path p = Inr p' \<Longrightarrow> advances p p'"
  by (auto simp: parse_add_def parse_add_file_def rbind_eq_Inr split: if_splits dest!: advances_add_loop)

lemma parse_step_progress:
  assumes st: "parse_step p = Inr p'"
  shows "advances p p' \<and> p_index p < p_index p'"
proof -
  from st obtain a p1 where a: "read_str ''*** Update File: '' p = Inr (a, p1)"
    by (auto simp: parse_step_def rbind_eq_Inr)
  show ?thesis
  proof (cases "a = ''''")
    case False
    then have "parse_update a p1 = Inr p'" using st a by (simp add: parse_step_def)
    then have "advances p1 p'" by (rule advances_parse_update)
    moreover have "p_index p < p_index p1" using read_str_ok[OF a] False by simp
    ultimately show ?thesis using read_str_ok[OF a] by (auto simp: advances_def)
  next
    case True
    from st a True obtain b p2 where b: "read_str ''*** Delete File: '' p1 = Inr (b, p2)"
      by (auto simp: parse_step_def rbind_eq_Inr)
    have p2: "advances p p2" using advances_trans[OF advances_read[OF a] advances_read[OF b]] .
    show ?thesis
    proof (cases "b = ''''")
      case False
      then have "parse_delete b p2 = Inr p'" using st a b True by (simp add: parse_step_def)
      then have "advances p2 p'" by (rule advances_parse_delete)
      moreover have "p_index p1 < p_index p2" using read_str_ok[OF b] False by simp
      ultimately show ?thesis using read_str_ok[OF a] read_str_ok[OF b] by (auto simp: advances_def)
    next
      case b0: True
      from st a b True b0 obtain c p3 where c: "read_str ''*** Add File: '' p2 = Inr (c, p3)"
        and r: "(if c \<noteq> '''' then parse_add c p3
          else if p_index p3 < length (p_lines p3)
            then Inl (DiffError (''Unknown Line: '' @ p_lines p3 ! p_index p3)) else Inl IndexError) = Inr p'"
        by (auto simp: parse_step_def rbind_eq_Inr)
      then have c0: "c \<noteq> ''''" "parse_add c p3 = Inr p'" by (auto split: if_splits)
      have "advances p3 p'" by (rule advances_parse_add[OF c0(2)])
      moreover have "p_index p2 < p_index p3" using read_str_ok[OF c] c0(1) by simp
      ultimately show ?thesis using read_str_ok[OF a] read_str_ok[OF b] read_str_ok[OF c]
        by (auto simp: advances_def)
    qed
  qed
qed

function parse_loop :: "parser \<Rightarrow> py_exc + parser" where
  "parse_loop p =
     (if is_done [''*** End Patch''] p then Inr p else rbind (parse_step p) parse_loop)"
  by pat_completeness auto
termination
proof (relation "measure (\<lambda>p. length (p_lines p) - p_index p)")
  fix p p'
  assume "\<not> is_done [''*** End Patch''] p" "parse_step p = Inr p'"
  then show "(p', p) \<in> measure (\<lambda>p. length (p_lines p) - p_index p)"
    using parse_step_progress[of p p'] by (simp add: is_done_def advances_def diff_less_mono2)
qed simp

declare parse_loop.simps [simp del]

definition parse :: "parser \<Rightarrow> py_exc + parser" where
  "parse p =
     rbind (parse_loop p) (\<lambda>p1.
     rbind (parser_startswith [''*** End Patch''] p1) (\<lambda>b.
     if \<not> b then Inl (DiffError ''Missing End Patch'') else Inr (p1\<lparr>p_index := Suc (p_index p1)\<rparr>)))"

definition text_to_patch :: "str \<Rightarrow> (str, str) dict \<Rightarrow> py_exc + patch \<times> int" where
  "text_to_patch text orig =
     (let lines = split_lines (py_strip text) in
      if length lines < 2 \<or> \<not> py_startswith (hd lines) ''*** Begin Patch'' \<or> last lines \<noteq> ''*** End Patch''
      then Inl (DiffError ''Invalid patch text'')
      else rbind (parse \<lparr>current_files = orig, p_lines = lines, p_index = 1, p_patch = [], p_fuzz = 0\<rparr>) (\<lambda>p.
        Inr (p_patch p, p_fuzz p)))"

definition identify_files_needed :: "str \<Rightarrow> str list" where
  "identify_files_needed text =
     remdups (concat (map (\<lambda>line.
       (if py_startswith line ''*** Update File: '' then [drop (length ''*** Update File: '') line] else []) @
       (if py_startswith line ''*** Delete File: '' then [drop (length ''*** Delete File: '') line] else []))
       (split_lines (py_strip text))))"

section \<open>Computing and applying the changes\<close>

definition updated_chunk :: "str \<Rightarrow> str list \<Rightarrow> chunk \<Rightarrow> int \<times> int \<times> str list \<Rightarrow> py_exc + int \<times> int \<times> str list" where
  "updated_chunk path orig_lines ch st = (case st of (orig, dest, dest_lines) \<Rightarrow>
     if orig_index ch > int (length orig_lines) then
       Inl (DiffError (''_get_updated_file: '' @ path @ '': chunk.orig_index '' @ int_to_str (orig_index ch) @
              '' > len(lines) '' @ nat_to_str (length orig_lines)))
     else if orig > orig_index ch then
       Inl (DiffError (''_get_updated_file: '' @ path @ '': orig_index '' @ int_to_str orig @
              '' > chunk.orig_index '' @ int_to_str (orig_index ch)))
     else Inr (orig_index ch + int (length (del_lines ch)),
               dest + (orig_index ch - orig) + int (length (ins_lines ch)),
               dest_lines @ py_slice orig_lines orig (orig_index ch) @ ins_lines ch))"

fun updated_chunks :: "str \<Rightarrow> str list \<Rightarrow> chunk list \<Rightarrow> int \<times> int \<times> str list \<Rightarrow> py_exc + int \<times> int \<times> str list" where
  "updated_chunks path ls [] st = Inr st"
| "updated_chunks path ls (ch # chs) st = rbind (updated_chunk path ls ch st) (updated_chunks path ls chs)"

definition get_updated_file :: "str \<Rightarrow> patch_action \<Rightarrow> str \<Rightarrow> py_exc + str" where
  "get_updated_file text a path =
     (if pa_type a \<noteq> UPDATE then Inl (DiffError (''_get_updated_file: expected UPDATE action for '' @ squoted path))
      else let orig_lines = split_lines text in
      rbind (updated_chunks path orig_lines (pa_chunks a) (0, 0, [])) (\<lambda>(orig, dest, dest_lines0).
      let dest_lines = dest_lines0 @ py_slice orig_lines orig (int (length orig_lines));
          delta = int (length orig_lines) - orig;
          orig' = orig + delta; dest' = dest + delta in
      if orig' \<noteq> int (length orig_lines) then
        Inl (DiffError (''_get_updated_file: '' @ path @ '': did not consume all original lines''))
      else if dest' \<noteq> int (length dest_lines) then
        Inl (DiffError (''_get_updated_file: '' @ path @ '': dest line count mismatch (dest_index='' @
               int_to_str dest' @ '', len='' @ nat_to_str (length dest_lines) @ '')''))
      else Inr (join_lines dest_lines)))"

definition change_of :: "(str, str) dict \<Rightarrow> str \<Rightarrow> patch_action \<Rightarrow> py_exc + file_change" where
  "change_of orig path a =
     (case pa_type a of
        ADD \<Rightarrow> Inr \<lparr>fc_type = ADD, old_content = None, new_content = pa_new_file a, fc_move_path = None\<rparr>
      | DELETE \<Rightarrow> (case dict_get orig path of None \<Rightarrow> Inl KeyError
          | Some text \<Rightarrow> Inr \<lparr>fc_type = DELETE, old_content = Some text, new_content = None, fc_move_path = None\<rparr>)
      | UPDATE \<Rightarrow> (case dict_get orig path of None \<Rightarrow> Inl KeyError
          | Some text \<Rightarrow> rbind (get_updated_file text a path) (\<lambda>new.
              Inr \<lparr>fc_type = UPDATE, old_content = Some text, new_content = Some new, fc_move_path = pa_move_path a\<rparr>)))"

fun patch_to_commit_from :: "(str, str) dict \<Rightarrow> patch \<Rightarrow> commit \<Rightarrow> py_exc + commit" where
  "patch_to_commit_from orig [] changes = Inr changes"
| "patch_to_commit_from orig ((path, a) # rest) changes =
     rbind (change_of orig path a) (\<lambda>c. patch_to_commit_from orig rest (dict_put path c changes))"

definition patch_to_commit :: "patch \<Rightarrow> (str, str) dict \<Rightarrow> py_exc + commit" where
  "patch_to_commit patch orig = patch_to_commit_from orig patch []"

text \<open>
  The callables: \<open>open_fn\<close> reads the state, \<open>write_fn\<close> and \<open>remove_fn\<close> change it or raise and leave
  it. What an exception in the middle of \<open>apply_commit\<close> leaves behind is part of the result.
\<close>

definition run_on :: "'s \<Rightarrow> py_exc + 's \<Rightarrow> 's \<times> py_exc option" where
  "run_on s r = (case r of Inl e \<Rightarrow> (s, Some e) | Inr s' \<Rightarrow> (s', None))"

fun load_files_from :: "(str \<Rightarrow> py_exc + str) \<Rightarrow> str list \<Rightarrow> (str, str) dict \<Rightarrow> py_exc + (str, str) dict" where
  "load_files_from open_fn [] orig = Inr orig"
| "load_files_from open_fn (path # rest) orig =
     (case open_fn path of
        Inl (FileNotFoundError _) \<Rightarrow> Inl (DiffError (''Delete File Error: Missing File: '' @ path))
      | Inl e \<Rightarrow> Inl e
      | Inr text \<Rightarrow> load_files_from open_fn rest (dict_put path text orig))"

definition apply_change :: "(str \<Rightarrow> str \<Rightarrow> 's \<Rightarrow> py_exc + 's) \<Rightarrow> (str \<Rightarrow> 's \<Rightarrow> py_exc + 's) \<Rightarrow>
    str \<Rightarrow> file_change \<Rightarrow> 's \<Rightarrow> 's \<times> py_exc option" where
  "apply_change write_fn remove_fn path ch s =
     (case fc_type ch of
        DELETE \<Rightarrow> run_on s (remove_fn path s)
      | ADD \<Rightarrow> (case new_content ch of
            None \<Rightarrow> (s, Some (DiffError (''apply_commit: ADD change for '' @ squoted path @ '' has no content'')))
          | Some c \<Rightarrow> run_on s (write_fn path c s))
      | UPDATE \<Rightarrow> (case new_content ch of
            None \<Rightarrow> (s, Some (DiffError (''apply_commit: UPDATE change for '' @ squoted path @ '' has no content'')))
          | Some c \<Rightarrow>
              (case fc_move_path ch of
                 None \<Rightarrow> run_on s (write_fn path c s)
               | Some mv \<Rightarrow> if mv = '''' then run_on s (write_fn path c s)
                   else (case write_fn mv c s of
                       Inl e \<Rightarrow> (s, Some e)
                     | Inr s1 \<Rightarrow> run_on s1 (remove_fn path s1)))))"

fun apply_commit :: "(str \<Rightarrow> str \<Rightarrow> 's \<Rightarrow> py_exc + 's) \<Rightarrow> (str \<Rightarrow> 's \<Rightarrow> py_exc + 's) \<Rightarrow> commit \<Rightarrow> 's \<Rightarrow> 's \<times> py_exc option" where
  "apply_commit write_fn remove_fn [] s = (s, None)"
| "apply_commit write_fn remove_fn ((path, ch) # rest) s =
     (case apply_change write_fn remove_fn path ch s of
        (s1, Some e) \<Rightarrow> (s1, Some e)
      | (s1, None) \<Rightarrow> apply_commit write_fn remove_fn rest s1)"

text \<open>Everything before the first file is touched.\<close>

definition prepare_patch :: "str \<Rightarrow> (str \<Rightarrow> py_exc + str) \<Rightarrow> py_exc + commit \<times> int" where
  "prepare_patch text open_fn =
     (if \<not> py_startswith text ''*** Begin Patch''
      then Inl (DiffError (''Invalid patch: must start with '' @ squoted ''*** Begin Patch''))
      else rbind (load_files_from open_fn (identify_files_needed text) []) (\<lambda>orig.
        rbind (text_to_patch text orig) (\<lambda>(patch, fuzz).
        rbind (patch_to_commit patch orig) (\<lambda>commit. Inr (commit, fuzz)))))"

definition process_patch :: "str \<Rightarrow> ('s \<Rightarrow> str \<Rightarrow> py_exc + str) \<Rightarrow> (str \<Rightarrow> str \<Rightarrow> 's \<Rightarrow> py_exc + 's) \<Rightarrow>
    (str \<Rightarrow> 's \<Rightarrow> py_exc + 's) \<Rightarrow> 's \<Rightarrow> 's \<times> (py_exc + str \<times> int \<times> commit)" where
  "process_patch text open_fn write_fn remove_fn s =
     (case prepare_patch text (open_fn s) of
        Inl e \<Rightarrow> (s, Inl e)
      | Inr (commit, fuzz) \<Rightarrow>
          (case apply_commit write_fn remove_fn commit s of
             (s', Some e) \<Rightarrow> (s', Inl e)
           | (s', None) \<Rightarrow> (s', Inr (''Done!'', fuzz, commit))))"

end
