(* ===== verification/Patch_Edit.thy ===== *)
theory Patch_Edit
  imports Patch_Core
begin

text \<open>
  What a parsed patch does to a file. The specification reads a hunk line by line against the lines
  of the file: a blank first character copies the line of the file, a minus sign drops it, a plus
  sign inserts the rest of the hunk line. The parser turns hunks into chunks and
  \<open>_get_updated_file\<close> splices chunks; the two together are shown to be this line by line edit at
  places where the lines of the file agree with the hunk up to surrounding blanks.
\<close>

section \<open>The specification\<close>

definition seg :: "'a list \<Rightarrow> nat \<Rightarrow> nat \<Rightarrow> 'a list" where
  "seg xs a b = take (b - a) (drop a xs)"

fun body_old :: "str list \<Rightarrow> str list" where
  "body_old [] = []"
| "body_old (s # b) = (if py_startswith s ''+'' then body_old b else tl s # body_old b)"

fun edit_body :: "str list \<Rightarrow> str list \<Rightarrow> str list" where
  "edit_body [] ls = []"
| "edit_body (s # b) ls =
     (if py_startswith s ''+'' then tl s # edit_body b ls
      else case ls of [] \<Rightarrow> edit_body b []
        | l # ls' \<Rightarrow> (if py_startswith s ''-'' then edit_body b ls' else l # edit_body b ls'))"

fun splice_hunks :: "str list \<Rightarrow> nat \<Rightarrow> (nat \<times> str list) list \<Rightarrow> str list" where
  "splice_hunks F k [] = drop k F"
| "splice_hunks F k ((i, b) # hs) =
     seg F k i @ edit_body b (seg F i (i + length (body_old b))) @ splice_hunks F (i + length (body_old b)) hs"

fun fits :: "str list \<Rightarrow> nat \<Rightarrow> (nat \<times> str list) list \<Rightarrow> bool" where
  "fits F k [] = (k \<le> length F)"
| "fits F k ((i, b) # hs) =
     (k \<le> i \<and> i + length (body_old b) \<le> length F \<and>
      map py_strip (seg F i (i + length (body_old b))) = map py_strip (body_old b) \<and>
      fits F (i + length (body_old b)) hs)"

section \<open>Segments\<close>

lemma seg_append:
  assumes "a \<le> b" "b \<le> c"
  shows "seg xs a b @ seg xs b c = seg xs a c"
proof -
  have c: "c - a = (b - a) + (c - b)" and b: "(b - a) + a = b" using assms by arith+
  show ?thesis unfolding seg_def c take_add drop_drop b ..
qed

lemma seg_self [simp]: "seg xs a a = []"
  by (simp add: seg_def)

lemma length_seg: "a \<le> b \<Longrightarrow> b \<le> length xs \<Longrightarrow> length (seg xs a b) = b - a"
  by (simp add: seg_def)

lemma seg_drop: "seg xs a (length xs) = drop a xs"
  by (simp add: seg_def)

lemma seg_Suc: "a \<le> b \<Longrightarrow> b < length xs \<Longrightarrow> seg xs a (Suc b) = seg xs a b @ [xs ! b]"
  by (simp add: seg_def Suc_diff_le take_Suc_conv_app_nth)

lemma seg_Cons: "a < b \<Longrightarrow> a < length xs \<Longrightarrow> seg xs a b = xs ! a # seg xs (Suc a) b"
proof -
  assume "a < b" "a < length xs"
  then have "b - a = Suc (b - Suc a)" "drop a xs = xs ! a # drop (Suc a) xs" by (auto simp: Cons_nth_drop_Suc)
  then show ?thesis by (simp add: seg_def)
qed

lemma py_slice_seg: "a \<le> b \<Longrightarrow> b \<le> length xs \<Longrightarrow> py_slice xs (int a) (int b) = seg xs a b"
  by (simp add: seg_def min_def)

section \<open>Chunks\<close>

text \<open>The chunks carry the splice from file line \<open>a\<close> with output \<open>acc\<close> to file line \<open>a'\<close> with \<open>acc'\<close>.\<close>

definition chunks_do :: "str list \<Rightarrow> chunk list \<Rightarrow> nat \<Rightarrow> str list \<Rightarrow> nat \<Rightarrow> str list \<Rightarrow> bool" where
  "chunks_do F chs a acc a' acc' \<longleftrightarrow>
     (\<forall>path d. updated_chunks path F chs (int a, d, acc) =
        Inr (int a', d + (int (length acc') - int (length acc)), acc'))"

definition shift_chunks :: "nat \<Rightarrow> chunk list \<Rightarrow> chunk list" where
  "shift_chunks n chs = map (\<lambda>ch. ch\<lparr>orig_index := orig_index ch + int n\<rparr>) chs"

lemma shift_chunks_simps [simp]:
  "shift_chunks n [] = []" "shift_chunks n (xs @ ys) = shift_chunks n xs @ shift_chunks n ys"
  by (simp_all add: shift_chunks_def)

lemma chunks_do_Nil: "chunks_do F [] a acc a acc"
  by (simp add: chunks_do_def)

lemma updated_chunks_append:
  "updated_chunks path F (xs @ ys) st = rbind (updated_chunks path F xs st) (updated_chunks path F ys)"
proof (induction xs arbitrary: st)
  case (Cons x xs)
  then show ?case by (cases "updated_chunk path F x st") simp_all
qed simp

lemma chunks_do_append:
  "chunks_do F xs a acc b acc' \<Longrightarrow> chunks_do F ys b acc' c acc'' \<Longrightarrow> chunks_do F (xs @ ys) a acc c acc''"
  by (simp add: chunks_do_def updated_chunks_append)

lemma chunks_do_one:
  assumes "a \<le> i" "i \<le> length F"
  shows "chunks_do F [\<lparr>orig_index = int i, del_lines = ds, ins_lines = ins\<rparr>] a acc (i + length ds) (acc @ seg F a i @ ins)"
proof -
  have sl: "py_slice F (int a) (int i) = seg F a i" by (rule py_slice_seg[OF assms])
  have "int (length (seg F a i)) = int i - int a"
    using length_seg[OF assms] assms(1) by simp
  then show ?thesis
    unfolding chunks_do_def updated_chunks.simps updated_chunk_def
    using assms by (simp add: sl del: py_slice_nat)
qed

lemma body_old_append [simp]: "body_old (b @ c) = body_old b @ body_old c"
  by (induction b) auto

lemma edit_body_append:
  "length ls = length (body_old b) \<Longrightarrow> edit_body (b @ c) (ls @ ls') = edit_body b ls @ edit_body c ls'"
proof (induction b arbitrary: ls)
  case (Cons s b)
  from Cons.prems Cons.IH[of ls] Cons.IH[of "tl ls"] show ?case by (cases ls) auto
qed simp

section \<open>One section of a hunk\<close>

text \<open>
  The invariant of \<open>peek_next_section\<close> after the hunk lines \<open>b\<close>, for any place \<open>n\<close> of the file:
  the finished chunks followed by the pending one edit the file from \<open>n\<close> on as \<open>b\<close> says.
\<close>

definition section_inv :: "str list \<Rightarrow> section_state \<Rightarrow> bool" where
  "section_inv b st \<longleftrightarrow> ss_old st = body_old b \<and> length (ss_del st) \<le> length (body_old b) \<and>
     (ss_mode st = Keep \<longrightarrow> ss_del st = [] \<and> ss_ins st = []) \<and>
     (\<forall>F n a acc. a \<le> n \<longrightarrow> n + length (body_old b) \<le> length F \<longrightarrow>
       (\<exists>a' acc'. chunks_do F (shift_chunks n (ss_chunks st)) a acc a' acc' \<and>
          a' \<le> n + length (body_old b) - length (ss_del st) \<and>
          acc' @ seg F a' (n + length (body_old b) - length (ss_del st)) @ ss_ins st =
            acc @ seg F a n @ edit_body b (seg F n (n + length (body_old b)))))"

lemma section_inv_empty: "section_inv [] empty_section"
proof -
  have "\<exists>a' acc'. chunks_do F [] a acc a' acc' \<and> a' \<le> n \<and> acc' @ seg F a' n = acc @ seg F a n"
    if "a \<le> n" for F :: "str list" and n a acc
    using that chunks_do_Nil by blast
  then show ?thesis by (simp add: section_inv_def empty_section_def)
qed

text \<open>Closing the pending chunk.\<close>

lemma section_flush:
  assumes inv: "section_inv b st" and "a \<le> n" "n + length (body_old b) \<le> length F"
  shows "\<exists>a' acc'. chunks_do F (shift_chunks n (flush_chunk (ss_old st) (ss_del st) (ss_ins st) (ss_chunks st))) a acc a' acc' \<and>
     a' \<le> n + length (body_old b) \<and>
     acc' @ seg F a' (n + length (body_old b)) = acc @ seg F a n @ edit_body b (seg F n (n + length (body_old b)))"
proof -
  let ?L = "length (body_old b)" and ?D = "length (ss_del st)"
  from inv have le: "?D \<le> ?L" and old: "ss_old st = body_old b" by (simp_all add: section_inv_def)
  from inv assms(2,3) obtain a' acc' where c: "chunks_do F (shift_chunks n (ss_chunks st)) a acc a' acc'"
    and a': "a' \<le> n + ?L - ?D"
    and eq: "acc' @ seg F a' (n + ?L - ?D) @ ss_ins st = acc @ seg F a n @ edit_body b (seg F n (n + ?L))"
    unfolding section_inv_def by blast
  show ?thesis
  proof (cases "ss_ins st \<noteq> [] \<or> ss_del st \<noteq> []")
    case True
    let ?i = "n + ?L - ?D"
    have i: "int ?L - int ?D + int n = int ?i" using le by simp
    have "?i \<le> length F" using assms(3) by simp
    from chunks_do_one[OF a' this, of "ss_del st" "ss_ins st" acc']
    have one: "chunks_do F [\<lparr>orig_index = int ?i, del_lines = ss_del st, ins_lines = ss_ins st\<rparr>] a' acc'
        (?i + ?D) (acc' @ seg F a' ?i @ ss_ins st)" .
    have fl: "shift_chunks n (flush_chunk (ss_old st) (ss_del st) (ss_ins st) (ss_chunks st)) =
        shift_chunks n (ss_chunks st) @ [\<lparr>orig_index = int ?i, del_lines = ss_del st, ins_lines = ss_ins st\<rparr>]"
      using True i by (simp add: flush_chunk_def old shift_chunks_def)
    have e: "?i + ?D = n + ?L" using le by simp
    have c2: "chunks_do F (shift_chunks n (flush_chunk (ss_old st) (ss_del st) (ss_ins st) (ss_chunks st)))
        a acc (n + ?L) (acc' @ seg F a' ?i @ ss_ins st)"
      unfolding fl using chunks_do_append[OF c one] unfolding e .
    have "(acc' @ seg F a' ?i @ ss_ins st) @ seg F (n + ?L) (n + ?L) = acc @ seg F a n @ edit_body b (seg F n (n + ?L))"
      using eq by simp
    with c2 show ?thesis by blast
  next
    case False
    then show ?thesis using c a' eq by (auto simp: flush_chunk_def)
  qed
qed

lemma py_startswith_char: "py_startswith s [c] \<longleftrightarrow> s \<noteq> [] \<and> hd s = c"
  by (cases s) auto

text \<open>A hunk line as the loop classifies it.\<close>

lemma section_line_cases:
  assumes "section_line s st = Inr st'"
  obtains (Keep) "\<not> py_startswith s ''+''" "\<not> py_startswith s ''-''"
      "ss_old st' = ss_old st @ [tl s]" "ss_del st' = (if ss_mode st = Keep then ss_del st else [])"
      "ss_ins st' = (if ss_mode st = Keep then ss_ins st else [])"
      "ss_chunks st' = (if ss_mode st = Keep then ss_chunks st
         else flush_chunk (ss_old st) (ss_del st) (ss_ins st) (ss_chunks st))" "ss_mode st' = Keep"
    | (Add) "py_startswith s ''+''" "ss_old st' = ss_old st" "ss_del st' = ss_del st"
      "ss_ins st' = ss_ins st @ [tl s]" "ss_chunks st' = ss_chunks st" "ss_mode st' = Add"
    | (Delete) "\<not> py_startswith s ''+''" "py_startswith s ''-''" "ss_old st' = ss_old st @ [tl s]"
      "ss_del st' = ss_del st @ [tl s]" "ss_ins st' = ss_ins st" "ss_chunks st' = ss_chunks st" "ss_mode st' = Delete"
proof -
  let ?s = "if s = '''' then '' '' else s"
  have tl: "tl ?s = tl s" by simp
  from assms obtain m where m: "line_mode_of ?s = Some m"
    by (auto simp: section_line_def Let_def split: option.splits)
  note st' = assms[unfolded section_line_def Let_def m option.case tl]
  show ?thesis
  proof (cases m)
    case Keep
    then have "\<not> py_startswith s ''+''" "\<not> py_startswith s ''-''"
      using m by (auto simp: line_mode_of_def py_startswith_char split: if_splits)
    then show ?thesis using st' Keep that(1) by (auto split: if_splits)
  next
    case Add
    then have "py_startswith s ''+''"
      using m by (auto simp: line_mode_of_def py_startswith_char split: if_splits)
    then show ?thesis using st' Add that(2) by auto
  next
    case Delete
    then have "\<not> py_startswith s ''+''" "py_startswith s ''-''"
      using m by (auto simp: line_mode_of_def py_startswith_char split: if_splits)
    then show ?thesis using st' Delete that(3) by auto
  qed
qed

lemma section_line_inv:
  assumes inv: "section_inv b st" and l: "section_line s st = Inr st'"
  shows "section_inv (b @ [s]) st'"
  using l
proof (cases rule: section_line_cases)
  case Keep
  have old: "ss_old st = body_old b" and k: "ss_mode st = Keep \<Longrightarrow> ss_del st = [] \<and> ss_ins st = []"
    using inv by (simp_all add: section_inv_def)
  have st': "ss_del st' = []" "ss_ins st' = []"
    "ss_chunks st' = flush_chunk (ss_old st) (ss_del st) (ss_ins st) (ss_chunks st)"
    using Keep k by (auto simp: flush_chunk_def)
  let ?L = "length (body_old b)"
  have "\<exists>a' acc'. chunks_do F (shift_chunks n (ss_chunks st')) a acc a' acc' \<and> a' \<le> n + Suc ?L \<and>
      acc' @ seg F a' (n + Suc ?L) = acc @ seg F a n @ edit_body (b @ [s]) (seg F n (n + Suc ?L))"
    if "a \<le> n" "n + Suc ?L \<le> length F" for F n a acc
  proof -
    from that(2) have lt: "n + ?L < length F" by simp
    note fl = section_flush[OF inv that(1) less_imp_le[OF lt]]
    obtain a' acc' where c: "chunks_do F (shift_chunks n (ss_chunks st')) a acc a' acc'" and a': "a' \<le> n + ?L"
      and eq: "acc' @ seg F a' (n + ?L) = acc @ seg F a n @ edit_body b (seg F n (n + ?L))"
      using fl[of acc] unfolding st'(3) by blast
    have "length (seg F n (n + ?L)) = ?L" using lt by (simp add: length_seg)
    then have "edit_body (b @ [s]) (seg F n (Suc (n + ?L))) = edit_body b (seg F n (n + ?L)) @ [F ! (n + ?L)]"
      using lt Keep(1,2) by (simp add: seg_Suc edit_body_append)
    moreover have "acc' @ seg F a' (Suc (n + ?L)) = (acc' @ seg F a' (n + ?L)) @ [F ! (n + ?L)]"
      using a' lt by (simp add: seg_Suc)
    ultimately have "acc' @ seg F a' (n + Suc ?L) = acc @ seg F a n @ edit_body (b @ [s]) (seg F n (n + Suc ?L))"
      using eq by simp
    moreover have "a' \<le> n + Suc ?L" using a' by simp
    ultimately show ?thesis using c by blast
  qed
  then show ?thesis using Keep(1) by (simp add: section_inv_def st' Keep(3,7) old)
next
  case Add
  have "edit_body (b @ [s]) (seg F n (n + length (body_old b))) =
      edit_body b (seg F n (n + length (body_old b))) @ [tl s]" if "n + length (body_old b) \<le> length F" for F n
  proof -
    have "length (seg F n (n + length (body_old b))) = length (body_old b)" using that by (simp add: length_seg)
    from edit_body_append[OF this, of "[s]" "[]"] show ?thesis using Add(1) by simp
  qed
  then show ?thesis using inv Add by (fastforce simp: section_inv_def)
next
  case Delete
  have "edit_body (b @ [s]) (seg F n (Suc (n + length (body_old b)))) =
      edit_body b (seg F n (n + length (body_old b)))" if "Suc (n + length (body_old b)) \<le> length F" for F n
  proof -
    have "length (seg F n (n + length (body_old b))) = length (body_old b)" using that by (simp add: length_seg)
    from edit_body_append[OF this, of "[s]" "[F ! (n + length (body_old b))]"] show ?thesis
      using Delete(1,2) that by (simp add: seg_Suc)
  qed
  then show ?thesis using inv Delete by (fastforce simp: section_inv_def)
qed

lemma section_loop_inv:
  "section_loop ls i st = Inr (j, st') \<Longrightarrow> section_inv b st \<Longrightarrow>
     section_inv (b @ take (j - i) ls) st' \<and> (\<forall>s \<in> set (take (j - i) ls). \<not> starts_with_any s section_end_prefixes)"
proof (induction ls i st arbitrary: b rule: section_loop.induct)
  case (2 s rest i st)
  show ?case
  proof (cases "starts_with_any s section_end_prefixes \<or> s = ''***''")
    case True
    then show ?thesis using "2.prems" by (auto split: if_splits)
  next
    case False
    with "2.prems" obtain st1 where l: "section_line s st = Inr st1" "section_loop rest (Suc i) st1 = Inr (j, st')"
      and n: "\<not> starts_with_any s section_end_prefixes" "s \<noteq> ''***''" "\<not> py_startswith s ''***''"
      by (auto simp: rbind_eq_Inr split: if_splits)
    have "section_inv ((b @ [s]) @ take (j - Suc i) rest) st' \<and>
        (\<forall>s \<in> set (take (j - Suc i) rest). \<not> starts_with_any s section_end_prefixes)"
      by (rule "2.IH"[OF n l section_line_inv[OF "2.prems"(2) l(1)]])
    moreover have "j - i = Suc (j - Suc i)" using section_loop_index[OF l(2)] by arith
    ultimately show ?thesis using n(1) by auto
  qed
qed simp

lemma peek_next_section_edits:
  assumes pk: "peek_next_section ls i = Inr (old, chunks, j, eof)" and i: "i \<le> length ls"
    and ne: "''*** End of File'' \<notin> set ls"
  shows "\<not> eof \<and> old = body_old (seg ls i j) \<and> (\<forall>s \<in> set (seg ls i j). \<not> py_startswith s ''@@'') \<and>
    (\<forall>F n a acc. a \<le> n \<longrightarrow> n + length old \<le> length F \<longrightarrow>
      (\<exists>a' acc'. chunks_do F (shift_chunks n chunks) a acc a' acc' \<and> a' \<le> n + length old \<and>
         acc' @ seg F a' (n + length old) = acc @ seg F a n @ edit_body (seg ls i j) (seg F n (n + length old))))"
proof -
  from pk ne obtain st where l: "section_loop (drop i ls) i empty_section = Inr (j, st)"
    and r: "old = ss_old st" "chunks = flush_chunk (ss_old st) (ss_del st) (ss_ins st) (ss_chunks st)" "\<not> eof"
    by (auto simp: peek_next_section_def rbind_eq_Inr Let_def split: if_splits dest: nth_mem)
  from section_loop_inv[OF l section_inv_empty]
  have inv: "section_inv (seg ls i j) st" and b: "\<forall>s \<in> set (seg ls i j). \<not> starts_with_any s section_end_prefixes"
    by (simp_all add: seg_def)
  have old: "old = body_old (seg ls i j)" using inv r(1) by (simp add: section_inv_def)
  have "\<forall>s \<in> set (seg ls i j). \<not> py_startswith s ''@@''"
    using b by (auto simp: starts_with_any_def section_end_prefixes_def)
  then show ?thesis using r(3) old section_flush[OF inv] unfolding r(2) old by blast
qed

section \<open>Locating a section\<close>

lemma seek_definition_bounds:
  "index \<le> length lines \<Longrightarrow> index \<le> fst (seek_definition lines index d) \<and> fst (seek_definition lines index d) \<le> length lines"
  by (auto simp: seek_definition_def Let_def split: option.splits dest!: find_index_from_Some)

lemma rstrip_Cons: "py_rstrip (c # s) = (if py_isspace c \<and> (\<forall>x \<in> set s. py_isspace x) then [] else c # py_rstrip s)"
  by (auto simp: py_rstrip_def dropWhile_append)

lemma strip_rstrip: "py_strip s = py_lstrip (py_rstrip s)"
proof (induction s)
  case (Cons c s)
  have "py_rstrip s = []" if "\<forall>x \<in> set s. py_isspace x" using that by (simp add: py_rstrip_def)
  then show ?case using Cons by (auto simp: py_strip_def py_lstrip_def rstrip_Cons)
qed (simp add: py_strip_def py_lstrip_def py_rstrip_def)

lemma lines_match_strip:
  "lines_match (\<lambda>s. s) F c i \<Longrightarrow> lines_match py_strip F c i"
  "lines_match py_rstrip F c i \<Longrightarrow> lines_match py_strip F c i"
proof -
  have st: "map py_strip xs = map py_strip ys" if "map py_rstrip xs = map py_rstrip ys" for xs ys
  proof -
    have "map py_strip zs = map py_lstrip (map py_rstrip zs)" for zs
      by (simp add: strip_rstrip)
    then show ?thesis by (simp only: that)
  qed
  show "lines_match py_rstrip F c i \<Longrightarrow> lines_match py_strip F c i"
    unfolding lines_match_def by (rule st)
qed (simp add: lines_match_def)

lemma find_context_core_found:
  assumes "find_context_core F c (int k) = (i, z)" "i \<noteq> -1" "k \<le> length F"
  obtains n where "i = int n" "k \<le> n" "n + length c \<le> length F"
    "map py_strip (seg F n (n + length c)) = map py_strip c"
proof (cases "c = []")
  case True
  with assms that[of k] show ?thesis by (simp add: find_context_core_def)
next
  case False
  with assms(1,2) obtain f where "find (lines_match f F c) [int k..int (length F) - 1] = Some i"
    and f: "f = (\<lambda>s. s) \<or> f = py_rstrip \<or> f = py_strip"
    by (auto simp: find_context_core_def Let_def split: option.splits)
  then have i: "int k \<le> i" "i < int (length F)" and mt: "lines_match f F c i"
    by (auto simp: find_Some_iff)
  have st: "lines_match py_strip F c i" using mt f lines_match_strip by auto
  define n where "n = nat i"
  have n: "i = int n" "k \<le> n" "n < length F" using i by (simp_all add: n_def)
  have len: "length (py_slice F (int n) (int (n + length c))) = length c"
    using st unfolding lines_match_def n(1) by (metis length_map of_nat_add)
  then have le: "n + length c \<le> length F" using n(3) by (simp only: py_slice_nat length_take length_drop)
  have "py_slice F (int n) (int (n + length c)) = seg F n (n + length c)"
    by (rule py_slice_seg) (simp_all add: le)
  with st have "map py_strip (seg F n (n + length c)) = map py_strip c"
    unfolding lines_match_def n(1) by (metis of_nat_add)
  then show ?thesis by (rule that[OF n(1,2) le])
qed

section \<open>All sections of a file\<close>

lemma read_str_consumed:
  "read_str prefix p = Inr (s, p') \<Longrightarrow>
     \<forall>l \<in> set (seg (p_lines p) (p_index p) (p_index p')). py_startswith l prefix"
  by (auto simp: read_str_def Let_def seg_Suc split: if_splits)

lemma py_startswith_refl [simp]: "py_startswith l l"
  by (simp add: py_startswith_iff)

lemma py_startswith_mono: "py_startswith l (a @ b) \<Longrightarrow> py_startswith l a"
  by (auto simp: py_startswith_iff)

lemma update_section_edits:
  assumes us: "update_section F p index = Inr (p', chunks, index')" and i: "index \<le> length F"
    and ne: "''*** End of File'' \<notin> set (p_lines p)"
  obtains n b where "index \<le> n" "index' = n + length (body_old b)" "index' \<le> length F"
    "map py_strip (seg F n index') = map py_strip (body_old b)"
    "filter (\<lambda>s. \<not> py_startswith s ''@@'') (seg (p_lines p) (p_index p) (p_index p')) = b"
    "\<And>a acc. a \<le> index \<Longrightarrow> \<exists>a' acc'. chunks_do F chunks a acc a' acc' \<and> a' \<le> index' \<and>
       acc' @ seg F a' index' = acc @ seg F a n @ edit_body b (seg F n index')"
proof -
  from us obtain d p1 where a: "read_str ''@@ '' p = Inr (d, p1)"
    unfolding update_section_def rbind_eq_Inr by auto
  note r = read_str_ok[OF a]
  from us a obtain sec p2 where b: "(if d \<noteq> '''' then Inr ('''', p1)
            else if p_index p1 \<ge> length (p_lines p1) then Inl IndexError
            else if p_lines p1 ! p_index p1 = ''@@'' then Inr (''@@'', p1\<lparr>p_index := Suc (p_index p1)\<rparr>)
            else Inr ('''', p1)) = Inr (sec, p2)"
    unfolding update_section_def by (auto simp: rbind_eq_Inr)
  have p2: "p_lines p2 = p_lines p" "p_index p1 \<le> p_index p2" "p_index p2 \<le> length (p_lines p)"
    using b r by (auto split: if_splits)
  have h1: "\<forall>l \<in> set (seg (p_lines p) (p_index p) (p_index p1)). py_startswith l ''@@''"
    using read_str_consumed[OF a] py_startswith_mono[of _ "''@@''" "'' ''", unfolded append.simps] by blast
  have h2: "\<forall>l \<in> set (seg (p_lines p) (p_index p1) (p_index p2)). py_startswith l ''@@''"
    using b r by (auto simp: seg_Suc split: if_splits)
  have header: "filter (\<lambda>s. \<not> py_startswith s ''@@'') (seg (p_lines p) (p_index p) (p_index p2)) = []"
    using h1 h2 r p2(2) unfolding seg_append[OF conjunct1[OF conjunct2[OF r]] p2(2), symmetric] by simp
  obtain i1 f1 where sk: "seek_definition F index d = (i1, f1)" by (cases "seek_definition F index d")
  with seek_definition_bounds[OF i] have i1: "index \<le> i1" "i1 \<le> length F" by (metis fst_conv)+
  from us a b sk obtain ctx chs e eof m z where pk: "peek_next_section (p_lines p2) (p_index p2) = Inr (ctx, chs, e, eof)"
    and fc: "find_context F ctx (int i1) eof = (m, z)" "m \<noteq> -1" and e: "p_index p' = e"
    and chunks: "chunks = map (\<lambda>ch. ch\<lparr>orig_index := orig_index ch + m\<rparr>) chs"
    and index': "index' = nat (m + int (length ctx))"
    unfolding update_section_def
    by (auto simp: rbind_eq_Inr Let_def split: if_splits prod.splits)
  let ?b = "seg (p_lines p) (p_index p2) e"
  have le: "p_index p2 < e \<and> e \<le> length (p_lines p2)" using peek_progress[OF pk] p2 by simp
  note pe = peek_next_section_edits[OF pk, unfolded p2(1), OF p2(3) ne]
  from pe have k: "\<not> eof" "ctx = body_old ?b" "\<forall>s \<in> set ?b. \<not> py_startswith s ''@@''"
    and ed: "\<And>F n a acc. a \<le> n \<Longrightarrow> n + length ctx \<le> length F \<Longrightarrow>
      (\<exists>a' acc'. chunks_do F (shift_chunks n chs) a acc a' acc' \<and> a' \<le> n + length ctx \<and>
         acc' @ seg F a' (n + length ctx) = acc @ seg F a n @ edit_body ?b (seg F n (n + length ctx)))"
    by blast+
  from fc k(1) have "find_context_core F ctx (int i1) = (m, z)" by (simp add: find_context_def)
  from find_context_core_found[OF this fc(2) i1(2)] obtain n where
    n: "m = int n" "i1 \<le> n" "n + length ctx \<le> length F" "map py_strip (seg F n (n + length ctx)) = map py_strip ctx" .
  have index'n: "index' = n + length ctx" using index' n(1) by simp
  have le12: "p_index p \<le> p_index p2" using r p2(2) by simp
  have "filter (\<lambda>s. \<not> py_startswith s ''@@'') (seg (p_lines p) (p_index p) e) = ?b"
    using header k(3) unfolding seg_append[OF le12 less_imp_le[OF conjunct1[OF le]], symmetric] by simp
  then show ?thesis
    using that[of n ?b] i1 n ed[of _ n F] e index'n k(2) chunks by (simp add: shift_chunks_def)
qed

lemma update_loop_edits:
  "update_loop F p chunks index = Inr (p', chunks') \<Longrightarrow> index \<le> length F \<Longrightarrow>
     ''*** End of File'' \<notin> set (p_lines p) \<Longrightarrow>
   \<exists>hs new. chunks' = chunks @ new \<and> fits F index hs \<and>
     concat (map snd hs) = filter (\<lambda>s. \<not> py_startswith s ''@@'') (seg (p_lines p) (p_index p) (p_index p')) \<and>
     (\<forall>a acc. a \<le> index \<longrightarrow> (\<exists>a' acc'. chunks_do F new a acc a' acc' \<and> a' \<le> length F \<and>
        acc' @ drop a' F = acc @ seg F a index @ splice_hunks F index hs))"
proof (induction F p chunks index arbitrary: p' chunks' rule: update_loop.induct)
  case (1 F p chunks index)
  show ?case
  proof (cases "is_done update_end_prefixes p")
    case True
    then have e: "p' = p" "chunks' = chunks" using "1.prems"(1) by (simp_all add: update_loop.simps[of F p])
    have "acc @ drop a F = acc @ seg F a index @ drop index F" if "a \<le> index" for a acc
      using seg_append[OF that "1.prems"(2), of F] unfolding seg_drop by simp
    then have "\<forall>a acc. a \<le> index \<longrightarrow> (\<exists>a' acc'. chunks_do F [] a acc a' acc' \<and> a' \<le> length F \<and>
        acc' @ drop a' F = acc @ seg F a index @ splice_hunks F index [])"
      using chunks_do_Nil "1.prems"(2) unfolding splice_hunks.simps by (meson le_trans)
    then show ?thesis using e "1.prems"(2) by (intro exI[of _ "[]"]) simp
  next
    case False
    with "1.prems"(1) obtain p1 chs index' where s: "update_section F p index = Inr (p1, chs, index')"
      and l: "update_loop F p1 (chunks @ chs) index' = Inr (p', chunks')"
      by (auto simp: update_loop.simps[of F p] rbind_eq_Inr)
    from update_section_progress[OF s] have p1: "p_lines p1 = p_lines p" "p_index p \<le> p_index p1" by auto
    have le: "p_index p1 \<le> p_index p'" using advances_update_loop[OF l] by (simp add: advances_def)
    from update_section_edits[OF s "1.prems"(2,3)] obtain n b where
      n: "index \<le> n" "index' = n + length (body_old b)" "index' \<le> length F"
        "map py_strip (seg F n index') = map py_strip (body_old b)"
      and b: "filter (\<lambda>s. \<not> py_startswith s ''@@'') (seg (p_lines p) (p_index p) (p_index p1)) = b"
      and ed: "\<And>a acc. a \<le> index \<Longrightarrow> \<exists>a' acc'. chunks_do F chs a acc a' acc' \<and> a' \<le> index' \<and>
         acc' @ seg F a' index' = acc @ seg F a n @ edit_body b (seg F n index')" by blast
    have "''*** End of File'' \<notin> set (p_lines p1)" using p1(1) "1.prems"(3) by simp
    from "1.IH"[OF False s refl refl l n(3) this] obtain hs new where
      hs: "chunks' = (chunks @ chs) @ new" "fits F index' hs"
        "concat (map snd hs) = filter (\<lambda>s. \<not> py_startswith s ''@@'') (seg (p_lines p) (p_index p1) (p_index p'))"
      and ed2: "\<forall>a acc. a \<le> index' \<longrightarrow> (\<exists>a' acc'. chunks_do F new a acc a' acc' \<and> a' \<le> length F \<and>
        acc' @ drop a' F = acc @ seg F a index' @ splice_hunks F index' hs)" unfolding p1(1) by blast
    have "fits F index ((n, b) # hs)" using n hs(2) by simp
    moreover have "concat (map snd ((n, b) # hs)) =
        filter (\<lambda>s. \<not> py_startswith s ''@@'') (seg (p_lines p) (p_index p) (p_index p'))"
      unfolding seg_append[OF p1(2) le, symmetric] filter_append b[symmetric] hs(3)[symmetric] by simp
    moreover have "\<exists>a' acc'. chunks_do F (chs @ new) a acc a' acc' \<and> a' \<le> length F \<and>
        acc' @ drop a' F = acc @ seg F a index @ splice_hunks F index ((n, b) # hs)" if ai: "a \<le> index" for a acc
    proof -
      from ed[OF ai] obtain a1 acc1 where c1: "chunks_do F chs a acc a1 acc1" "a1 \<le> index'"
        and e1: "acc1 @ seg F a1 index' = acc @ seg F a n @ edit_body b (seg F n index')" by blast
      from ed2 c1(2) obtain a2 acc2 where c2: "chunks_do F new a1 acc1 a2 acc2" "a2 \<le> length F"
        and e2: "acc2 @ drop a2 F = acc1 @ seg F a1 index' @ splice_hunks F index' hs" by blast
      have "acc2 @ drop a2 F = (acc1 @ seg F a1 index') @ splice_hunks F index' hs" using e2 by simp
      also have "\<dots> = acc @ (seg F a index @ seg F index n) @ edit_body b (seg F n index') @ splice_hunks F index' hs"
        unfolding e1 seg_append[OF ai n(1)] by simp
      also have "\<dots> = acc @ seg F a index @ splice_hunks F index ((n, b) # hs)" by (simp add: n(2))
      finally show ?thesis using chunks_do_append[OF c1(1) c2(1)] c2(2) by blast
    qed
    moreover have "chunks' = chunks @ chs @ new" using hs(1) by simp
    ultimately show ?thesis by blast
  qed
qed

text \<open>
  Where a hunk with the marker \<open>*** End of File\<close> goes: to the last lines of the file when they are
  its old lines, whatever \<open>start\<close> is.
\<close>

lemma end_of_file_first:
  assumes "length c \<le> length F" and "drop (length F - length c) F = c"
  shows "find_context F c start True = (int (length F) - int (length c), 0)"
proof (cases "c = []")
  case False
  let ?k = "int (length F) - int (length c)"
  have k: "?k = int (length F - length c)" using assms(1) by simp
  have "py_slice F ?k (?k + int (length c)) = seg F (length F - length c) (length F)"
    using assms(1) py_slice_seg [of "length F - length c" "length F" F] unfolding k by simp
  then have m: "lines_match (\<lambda>s. s) F c ?k" using assms(2) by (simp add: lines_match_def seg_drop)
  have "[?k..int (length F) - 1] = ?k # [?k + 1..int (length F) - 1]" using False by (simp add: upto_rec1)
  then have "find_context_core F c ?k = (?k, 0)" using False m by (simp add: find_context_core_def Let_def)
  then show ?thesis using assms(1) by (simp add: find_context_def)
qed (simp add: find_context_def find_context_core_def)

text \<open>
  The place is not compared with that of the hunk before. In this patch the first hunk replaces the last
  line and the second one, marked, puts a line behind the line that is gone.
\<close>

lemma end_of_file_hunk_overlaps:
  "(case parse_update_file (join_lines [''x'', ''a''])
       \<lparr>current_files = [], p_lines = [''@@'', '' x'', ''-a'', ''+b'', ''@@'', '' a'', ''+c'', ''*** End of File'', ''*** End Patch''],
        p_index = 0, p_patch = [], p_fuzz = 0\<rparr> of
      Inr (a, p') \<Rightarrow> get_updated_file (join_lines [''x'', ''a'']) a ''f''
    | Inl e \<Rightarrow> Inl e) = Inr (join_lines [''x'', ''b'', ''c''])"
  by code_simp

text \<open>
  C37: The update of a file is the line by line edit of the patch, for patches without the line
  \<open>*** End of File\<close>. Whenever the part of such a patch for one file parses, the computed chunks are
  accepted, and the new contents are the old lines with the hunks applied at increasing, disjoint
  places where the old lines agree with the hunk up to surrounding blanks; the hunks are exactly the
  patch lines of that part other than the section headers, in order. With the marker a hunk can be
  put before the end of the hunk in front of it (\<open>end_of_file_hunk_overlaps\<close>).
\<close>

theorem update_is_line_edit:
  assumes "parse_update_file text p = Inr (a, p')" "''*** End of File'' \<notin> set (p_lines p)"
  shows "\<exists>hs. fits (split_lines text) 0 hs \<and>
    concat (map snd hs) = filter (\<lambda>s. \<not> py_startswith s ''@@'') (seg (p_lines p) (p_index p) (p_index p')) \<and>
    get_updated_file text a path = Inr (join_lines (splice_hunks (split_lines text) 0 hs))"
proof -
  let ?F = "split_lines text"
  from assms(1) obtain chs where l: "update_loop ?F p [] 0 = Inr (p', chs)"
    and a: "pa_type a = UPDATE" "pa_chunks a = chs"
    by (auto simp: parse_update_file_def rbind_eq_Inr)
  from update_loop_edits[OF l _ assms(2)] obtain hs where hs: "fits ?F 0 hs"
    "concat (map snd hs) = filter (\<lambda>s. \<not> py_startswith s ''@@'') (seg (p_lines p) (p_index p) (p_index p'))"
    and ed: "\<forall>a acc. a \<le> 0 \<longrightarrow> (\<exists>a' acc'. chunks_do ?F chs a acc a' acc' \<and> a' \<le> length ?F \<and>
        acc' @ drop a' ?F = acc @ seg ?F a 0 @ splice_hunks ?F 0 hs)" by auto
  from ed obtain a' acc' where c: "chunks_do ?F chs 0 [] a' acc'" "a' \<le> length ?F"
    and e: "acc' @ drop a' ?F = splice_hunks ?F 0 hs" by (metis append_Nil le_refl seg_self)
  have u: "updated_chunks path ?F chs (0, 0, []) = Inr (int a', int (length acc'), acc')"
    using c(1) unfolding chunks_do_def by simp
  have sl: "py_slice ?F (int a') (int (length ?F)) = drop a' ?F"
    using c(2) by (simp add: min_def)
  have "get_updated_file text a path = Inr (join_lines (splice_hunks ?F 0 hs))"
    using c(2) by (simp add: get_updated_file_def a u sl e[symmetric] Let_def del: py_slice_nat)
  then show ?thesis using hs by blast
qed

lemma update_is_line_edit_witness:
  "\<exists>hs. fits [''a'', ''b''] 0 hs \<and> concat (map snd hs) = ['' a'', ''-b'', ''+c''] \<and>
     get_updated_file [CHR ''a'', newline, CHR ''b'']
       \<lparr>pa_type = UPDATE, pa_new_file = None,
        pa_chunks = [\<lparr>orig_index = 1, del_lines = [''b''], ins_lines = [''c'']\<rparr>], pa_move_path = None\<rparr> ''f''
     = Inr (join_lines (splice_hunks [''a'', ''b''] 0 hs))"
proof -
  let ?t = "[CHR ''a'', newline, CHR ''b'']"
  let ?ls = "[''@@'', '' a'', ''-b'', ''+c'', ''*** End Patch'']"
  let ?p = "\<lparr>current_files = [], p_lines = ?ls, p_index = 0, p_patch = [], p_fuzz = 0\<rparr>"
  let ?a = "\<lparr>pa_type = UPDATE, pa_new_file = None,
      pa_chunks = [\<lparr>orig_index = 1, del_lines = [''b''], ins_lines = [''c'']\<rparr>], pa_move_path = None\<rparr>"
  have p: "parse_update_file ?t ?p = Inr (?a, ?p\<lparr>p_index := 4\<rparr>)" by code_simp
  have n: "''*** End of File'' \<notin> set (p_lines ?p)" by simp
  have l: "split_lines ?t = [''a'', ''b'']" by code_simp
  have f: "filter (\<lambda>s. \<not> py_startswith s ''@@'') (seg (p_lines ?p) (p_index ?p) (p_index (?p\<lparr>p_index := 4\<rparr>)))
      = ['' a'', ''-b'', ''+c'']" by code_simp
  show ?thesis using update_is_line_edit[OF p n, of "''f''"] unfolding l f .
qed

end
