(* ===== verification/Patch_Tool.thy ===== *)
theory Patch_Tool
  imports Patch_Core
begin

text \<open>
  \<open>tools/apply_patch/definition.py\<close>: the executor of the patch tool, which gives the patch code its
  access to the files of the workspace, and what holds of a whole call: it is confined to the
  workspace, and the only exceptions that leave the patch code are its own \<open>DiffError\<close> and those
  of the file system.

  The files are a map from absolute normalised paths, as in \<^theory_text>\<open>File_Store\<close>; there are no
  symbolic links, so \<open>Path.resolve\<close> is \<^const>\<open>norm_from\<close>. A path that starts with two slashes is
  resolved like one that starts with one: \<open>os.path.realpath\<close>, which \<open>Path.resolve\<close> calls, starts from
  a single one and skips empty components.
\<close>

section \<open>The executor\<close>

type_synonym disk = "(abs_path, str) dict"

definition resolve_path :: "abs_path \<Rightarrow> str \<Rightarrow> py_exc + abs_path" where
  "resolve_path workspace_root p =
     (let pth = (if \<not> py_startswith p [slash] then norm_from [] (workspace_root @ py_split slash p)
                 else norm_from [] (py_split slash p)) in
      if take (length workspace_root) pth \<noteq> workspace_root
      then Inl (DiffError ''Absolute or escaping paths are not allowed'') else Inr pth)"

definition dir_on_disk :: "abs_path \<Rightarrow> disk \<Rightarrow> abs_path \<Rightarrow> bool" where
  "dir_on_disk workspace_root d f \<longleftrightarrow> (\<exists>g \<in> set (dict_keys d). is_above f g) \<or> f = workspace_root \<or> is_above f workspace_root"

definition file_above :: "disk \<Rightarrow> abs_path \<Rightarrow> bool" where
  "file_above d f \<longleftrightarrow> (\<exists>g \<in> set (dict_keys d). is_above g f)"

definition open_file :: "abs_path \<Rightarrow> disk \<Rightarrow> str \<Rightarrow> py_exc + str" where
  "open_file workspace_root d path =
     rbind (resolve_path workspace_root path) (\<lambda>fp.
     case dict_get d fp of
       Some text \<Rightarrow> Inr text
     | None \<Rightarrow> if dir_on_disk workspace_root d fp \<or> file_above d fp then Inl (OSError path)
         else Inl (FileNotFoundError path))"

definition write_file :: "abs_path \<Rightarrow> str \<Rightarrow> str \<Rightarrow> disk \<Rightarrow> py_exc + disk" where
  "write_file workspace_root path content d =
     rbind (resolve_path workspace_root path) (\<lambda>fp.
     if file_above d fp \<or> dir_on_disk workspace_root d fp then Inl (OSError path)
     else Inr (dict_put fp content d))"

definition remove_file :: "abs_path \<Rightarrow> str \<Rightarrow> disk \<Rightarrow> py_exc + disk" where
  "remove_file workspace_root path d =
     rbind (resolve_path workspace_root path) (\<lambda>fp.
     if dict_get d fp \<noteq> None then Inr (dict_del fp d)
     else if dir_on_disk workspace_root d fp \<or> file_above d fp then Inl (OSError path)
     else Inl (FileNotFoundError path))"

record patch_observation =
  po_text :: str
  po_message :: str
  po_fuzz :: int
  po_commit :: "commit option"
  po_is_error :: bool

definition apply_patch_call :: "abs_path \<Rightarrow> str \<Rightarrow> disk \<Rightarrow> disk \<times> (py_exc + patch_observation)" where
  "apply_patch_call workspace_root patch d =
     (case process_patch patch (open_file workspace_root) (write_file workspace_root) (remove_file workspace_root) d of
        (d', Inr (msg, fuzz, commit)) \<Rightarrow>
          (d', Inr \<lparr>po_text = (if msg \<noteq> '''' then msg else ''''), po_message = msg, po_fuzz = fuzz,
                 po_commit = Some commit, po_is_error = False\<rparr>)
      | (d', Inl (DiffError e)) \<Rightarrow>
          (d', Inr \<lparr>po_text = e, po_message = '''', po_fuzz = 0, po_commit = None, po_is_error = True\<rparr>)
      | (d', Inl e) \<Rightarrow> (d', Inl e))"

section \<open>The errors of the parser\<close>

definition diff_only :: "('a \<Rightarrow> bool) \<Rightarrow> py_exc + 'a \<Rightarrow> bool" where
  "diff_only Q r = (case r of Inl e \<Rightarrow> (\<exists>m. e = DiffError m) | Inr x \<Rightarrow> Q x)"

lemma diff_only_simps [simp]: "diff_only Q (Inr x) = Q x" "diff_only Q (Inl (DiffError m))"
  by (simp_all add: diff_only_def)

lemma diff_only_rbind: "diff_only Q r \<Longrightarrow> (\<And>x. r = Inr x \<Longrightarrow> Q x \<Longrightarrow> diff_only R (f x)) \<Longrightarrow> diff_only R (rbind r f)"
  by (cases r) (auto simp: diff_only_def)

lemma diff_only_mono: "diff_only Q r \<Longrightarrow> (\<And>x. r = Inr x \<Longrightarrow> Q x \<Longrightarrow> R x) \<Longrightarrow> diff_only R r"
  by (cases r) (auto simp: diff_only_def)

text \<open>
  A parser in the middle of a patch: there is a line left, the last line is the end of the patch,
  and every file to update or delete is one of the loaded files.
\<close>

definition action_ok :: "(str, str) dict \<Rightarrow> str \<Rightarrow> patch_action \<Rightarrow> bool" where
  "action_ok files path a \<longleftrightarrow> (if pa_type a = ADD then pa_new_file a \<noteq> None else dict_get files path \<noteq> None)"

definition patch_ok :: "(str, str) dict \<Rightarrow> patch \<Rightarrow> bool" where
  "patch_ok files patch \<longleftrightarrow> (\<forall>pa \<in> set patch. action_ok files (fst pa) (snd pa))"

definition mid_patch :: "parser \<Rightarrow> bool" where
  "mid_patch p \<longleftrightarrow> p_index p < length (p_lines p) \<and> last (p_lines p) = ''*** End Patch'' \<and>
     patch_ok (current_files p) (p_patch p)"

lemma mid_patch_next:
  assumes "mid_patch p" "p_lines p ! p_index p \<noteq> ''*** End Patch''"
  shows "Suc (p_index p) < length (p_lines p)"
proof -
  have "p_index p \<noteq> length (p_lines p) - 1"
    using assms by (metis mid_patch_def last_conv_nth length_greater_0_conv less_nat_zero_code neq0_conv)
  then show ?thesis using assms(1) unfolding mid_patch_def by linarith
qed

lemma read_str_mid:
  assumes "mid_patch p" "\<not> py_startswith ''*** End Patch'' prefix"
  shows "diff_only (\<lambda>(s, p'). mid_patch p' \<and> current_files p' = current_files p) (read_str prefix p)"
proof (cases "py_startswith (p_lines p ! p_index p) prefix")
  case True
  then have "p_lines p ! p_index p \<noteq> ''*** End Patch''" using assms(2) by auto
  from mid_patch_next[OF assms(1) this] show ?thesis
    using assms(1) True by (simp add: read_str_def mid_patch_def)
next
  case False
  then show ?thesis using assms(1) by (simp add: read_str_def mid_patch_def)
qed

lemma section_line_diff_only: "diff_only (\<lambda>_. True) (section_line s st)"
  by (simp add: section_line_def Let_def split: option.split)

lemma section_loop_mid:
  "ls \<noteq> [] \<Longrightarrow> last ls = ''*** End Patch'' \<Longrightarrow> diff_only (\<lambda>(j, st'). j < i + length ls) (section_loop ls i st)"
proof (induction ls i st rule: section_loop.induct)
  case (2 s rest i st)
  show ?case
  proof (cases "starts_with_any s section_end_prefixes \<or> s = ''***'' \<or> py_startswith s ''***''")
    case True
    then show ?thesis by auto
  next
    case False
    then have n: "\<not> starts_with_any s section_end_prefixes" "s \<noteq> ''***''" "\<not> py_startswith s ''***''" by simp_all
    have "rest \<noteq> []" using "2.prems"(2) n(3) by (cases rest) auto
    moreover from this have "last rest = ''*** End Patch''" using "2.prems"(2) by simp
    ultimately have "diff_only (\<lambda>(j, st'). j < Suc i + length rest) (section_loop rest (Suc i) st1)"
      if "section_line s st = Inr st1" for st1
      using "2.IH"[OF n that] by simp
    then show ?thesis using n by (auto intro!: diff_only_rbind[OF section_line_diff_only])
  qed
qed simp

lemma peek_mid:
  assumes "i < length ls" "last ls = ''*** End Patch''"
  shows "diff_only (\<lambda>(old, chunks, j, eof). j < length ls) (peek_next_section ls i)"
proof -
  have l: "drop i ls \<noteq> []" "last (drop i ls) = ''*** End Patch''" using assms by simp_all
  have e: "Suc j < length ls" if "j < length ls" "ls ! j = ''*** End of File''" for j
  proof -
    have "ls \<noteq> []" using assms(1) by auto
    from last_conv_nth[OF this] have "j \<noteq> length ls - 1" using assms(2) that(2) by auto
    then show ?thesis using that(1) by linarith
  qed
  show ?thesis
    unfolding peek_next_section_def
    by (rule diff_only_rbind[OF section_loop_mid[OF l, of i]])
      (use assms(1) e in \<open>auto simp: Let_def split: if_splits\<close>)
qed

lemma update_section_mid:
  assumes "mid_patch p"
  shows "diff_only (\<lambda>(p', chs, i'). mid_patch p') (update_section lines p index)"
proof -
  have end1: "\<not> py_startswith ''*** End Patch'' ''@@ ''" by simp
  have header: "diff_only (\<lambda>(sec, p2). mid_patch p2)
      (if d \<noteq> '''' then Inr ('''', p1) else if p_index p1 \<ge> length (p_lines p1) then Inl IndexError
       else if p_lines p1 ! p_index p1 = ''@@'' then Inr (''@@'', p1\<lparr>p_index := Suc (p_index p1)\<rparr>)
       else Inr ('''', p1))" if "mid_patch p1" for d p1
    using that mid_patch_next[OF that] by (auto simp: mid_patch_def)
  have rest: "diff_only (\<lambda>(p', chs, i'). mid_patch p')
      (if \<not> (d \<noteq> '''' \<or> sec \<noteq> '''' \<or> index = 0) then
       (if p_index p2 < length (p_lines p2)
        then Inl (DiffError (''Invalid Line:'' @ [newline] @ p_lines p2 ! p_index p2)) else Inl IndexError)
     else let (index1, fuzz1) = seek_definition lines index d in
     rbind (peek_next_section (p_lines p2) (p_index p2)) (\<lambda>(context, chunks, end_index, eof).
     let (new_index, fuzz2) = find_context lines context (int index1) eof in
     if new_index = -1 then
       Inl (DiffError ((if eof then ''Invalid EOF Context '' else ''Invalid Context '') @
              nat_to_str index1 @ '':'' @ [newline] @ join_lines context))
     else Inr (p2\<lparr>p_fuzz := p_fuzz p2 + fuzz1 + fuzz2, p_index := end_index\<rparr>,
               map (\<lambda>ch. ch\<lparr>orig_index := orig_index ch + new_index\<rparr>) chunks,
               nat (new_index + int (length context)))))" if m: "mid_patch p2" for d sec p2
  proof -
    have l: "p_index p2 < length (p_lines p2)" "last (p_lines p2) = ''*** End Patch''"
      using m by (simp_all add: mid_patch_def)
    show ?thesis
      using m by (auto simp: Let_def mid_patch_def split: prod.split intro!: diff_only_rbind[OF peek_mid[OF l]])
  qed
  show ?thesis
    unfolding update_section_def
    by (rule diff_only_rbind[OF read_str_mid[OF assms end1]], clarify,
        rule diff_only_rbind[OF header], assumption, clarify, rule rest)
qed

lemma update_loop_mid: "mid_patch p \<Longrightarrow> diff_only (\<lambda>(p', chs). mid_patch p') (update_loop lines p chunks index)"
proof (induction lines p chunks index rule: update_loop.induct)
  case (1 lines p chunks index)
  show ?case
  proof (cases "is_done update_end_prefixes p")
    case True
    then show ?thesis using "1.prems" by (simp add: update_loop.simps[of lines p])
  next
    case False
    have "diff_only (\<lambda>(p', chs). mid_patch p')
        (rbind (update_section lines p index) (\<lambda>(p', chs, index'). update_loop lines p' (chunks @ chs) index'))"
      by (rule diff_only_rbind[OF update_section_mid[OF "1.prems"]]) (use "1.IH"[OF False] in auto)
    then show ?thesis using False by (simp add: update_loop.simps[of lines p])
  qed
qed

lemma add_loop_mid: "mid_patch p \<Longrightarrow> diff_only (\<lambda>(ls, p'). mid_patch p') (add_loop p lines)"
proof (induction p lines rule: add_loop.induct)
  case (1 p lines)
  let ?s = "p_lines p ! p_index p"
  let ?p = "p\<lparr>p_index := Suc (p_index p)\<rparr>"
  show ?case
  proof (cases "is_done file_end_prefixes p \<or> \<not> py_startswith ?s ''+''")
    case True
    then show ?thesis using "1.prems" by (auto simp: add_loop.simps[of p] Let_def)
  next
    case False
    then have "?s \<noteq> ''*** End Patch''" by auto
    then have "mid_patch ?p" using mid_patch_next[OF "1.prems"] "1.prems" by (simp add: mid_patch_def)
    then show ?thesis using "1.IH"[OF _ refl refl] False by (simp add: add_loop.simps[of p] Let_def)
  qed
qed

lemma set_dict_put_subset: "set (dict_put k v d) \<subseteq> insert (k, v) (set d)"
  by (induction d) auto

lemma mid_patch_put: "mid_patch p \<Longrightarrow> action_ok (current_files p) path a \<Longrightarrow> mid_patch (put_action path a p)"
  using set_dict_put_subset[of path a "p_patch p"] by (auto simp: mid_patch_def put_action_def patch_ok_def)

lemma parse_update_mid:
  assumes "mid_patch p"
  shows "diff_only mid_patch (parse_update path p)"
proof -
  have e: "\<not> py_startswith ''*** End Patch'' ''*** Move to: ''" by simp
  have upd: "diff_only mid_patch (rbind (parse_update_file contents p1) (\<lambda>(a, p2).
      Inr (put_action path (a\<lparr>pa_move_path := Some mv\<rparr>) p2)))"
    if "mid_patch p1" "dict_get (current_files p1) path = Some contents" for p1 contents mv
  proof -
    have "mid_patch (put_action path \<lparr>pa_type = UPDATE, pa_new_file = None, pa_chunks = chs, pa_move_path = Some mv\<rparr> p2)"
      if "update_loop (split_lines contents) p1 [] 0 = Inr (p2, chs)" "mid_patch p2" for p2 chs
      using that(2) advances_update_loop[OF that(1)] \<open>dict_get (current_files p1) path = Some contents\<close>
      by (intro mid_patch_put) (auto simp: action_ok_def advances_def)
    then show ?thesis using update_loop_mid[OF that(1), of "split_lines contents" "[]" 0]
      by (cases "update_loop (split_lines contents) p1 [] 0") (auto simp: parse_update_file_def diff_only_def)
  qed
  show ?thesis
    unfolding parse_update_def
    by (auto intro!: diff_only_rbind[OF read_str_mid[OF assms e]] upd split: option.splits)
qed

lemma parse_delete_mid: "mid_patch p \<Longrightarrow> diff_only mid_patch (parse_delete path p)"
  by (auto simp: parse_delete_def action_ok_def intro!: mid_patch_put)

lemma parse_add_mid:
  assumes "mid_patch p"
  shows "diff_only mid_patch (parse_add path p)"
  using add_loop_mid[OF assms, of "[]"]
  by (cases "add_loop p []")
    (auto simp: parse_add_def parse_add_file_def diff_only_def action_ok_def intro!: mid_patch_put)

lemma parse_step_mid:
  assumes "mid_patch p"
  shows "diff_only mid_patch (parse_step p)"
proof -
  have e: "\<not> py_startswith ''*** End Patch'' ''*** Update File: ''"
    "\<not> py_startswith ''*** End Patch'' ''*** Delete File: ''"
    "\<not> py_startswith ''*** End Patch'' ''*** Add File: ''" by simp_all
  have 3: "diff_only mid_patch (rbind (read_str ''*** Add File: '' p2) (\<lambda>(path3, p3).
     if path3 \<noteq> '''' then parse_add path3 p3
     else if p_index p3 < length (p_lines p3)
       then Inl (DiffError (''Unknown Line: '' @ p_lines p3 ! p_index p3)) else Inl IndexError))"
    if "mid_patch p2" for p2
    by (rule diff_only_rbind[OF read_str_mid[OF that e(3)]]) (auto simp: parse_add_mid, simp add: mid_patch_def)
  have 2: "diff_only mid_patch (rbind (read_str ''*** Delete File: '' p1) (\<lambda>(path2, p2).
     if path2 \<noteq> '''' then parse_delete path2 p2
     else rbind (read_str ''*** Add File: '' p2) (\<lambda>(path3, p3).
     if path3 \<noteq> '''' then parse_add path3 p3
     else if p_index p3 < length (p_lines p3)
       then Inl (DiffError (''Unknown Line: '' @ p_lines p3 ! p_index p3)) else Inl IndexError)))"
    if "mid_patch p1" for p1
    by (rule diff_only_rbind[OF read_str_mid[OF that e(2)]]) (auto simp: parse_delete_mid intro: 3)
  show ?thesis unfolding parse_step_def
    by (rule diff_only_rbind[OF read_str_mid[OF assms e(1)]]) (auto simp: parse_update_mid intro: 2)
qed

lemma parse_loop_mid: "mid_patch p \<Longrightarrow> diff_only (\<lambda>p'. mid_patch p' \<and> current_files p' = current_files p) (parse_loop p)"
proof (induction p rule: parse_loop.induct)
  case (1 p)
  show ?case
  proof (cases "is_done [''*** End Patch''] p")
    case True
    then show ?thesis using "1.prems" by (simp add: parse_loop.simps[of p])
  next
    case False
    have "diff_only (\<lambda>p'. mid_patch p' \<and> current_files p' = current_files p) (rbind (parse_step p) parse_loop)"
    proof (rule diff_only_rbind[OF parse_step_mid[OF "1.prems"]])
      fix p1
      assume s: "parse_step p = Inr p1" and m: "mid_patch p1"
      from parse_step_progress[OF s] have "current_files p1 = current_files p" by (simp add: advances_def)
      then show "diff_only (\<lambda>p'. mid_patch p' \<and> current_files p' = current_files p) (parse_loop p1)"
        using "1.IH"[OF False s m] by simp
    qed
    then show ?thesis using False by (simp add: parse_loop.simps[of p])
  qed
qed

lemma text_to_patch_diff_only:
  "diff_only (\<lambda>(patch, fuzz). patch_ok orig patch) (text_to_patch text orig)"
proof -
  let ?ls = "split_lines (py_strip text)"
  let ?p = "\<lparr>current_files = orig, p_lines = ?ls, p_index = 1, p_patch = [], p_fuzz = 0\<rparr>"
  show ?thesis
  proof (cases "length ?ls < 2 \<or> \<not> py_startswith (hd ?ls) ''*** Begin Patch'' \<or> last ?ls \<noteq> ''*** End Patch''")
    case True
    then show ?thesis by (simp add: text_to_patch_def Let_def)
  next
    case False
    then have m: "mid_patch ?p" by (simp add: mid_patch_def patch_ok_def)
    have "diff_only (\<lambda>p. patch_ok orig (p_patch p)) (parse ?p)"
      unfolding parse_def
      by (rule diff_only_rbind[OF parse_loop_mid[OF m]])
        (auto simp: parser_startswith_def mid_patch_def)
    then show ?thesis using False unfolding text_to_patch_def Let_def
      by (auto intro!: diff_only_rbind)
  qed
qed

section \<open>From the patch to the disk\<close>

definition change_ok :: "file_change \<Rightarrow> bool" where
  "change_ok ch \<longleftrightarrow> fc_type ch = DELETE \<or> new_content ch \<noteq> None"

definition commit_ok :: "commit \<Rightarrow> bool" where
  "commit_ok changes \<longleftrightarrow> (\<forall>pc \<in> set changes. change_ok (snd pc))"

lemma updated_chunks_diff_only: "diff_only (\<lambda>_. True) (updated_chunks path F chs st)"
proof (induction chs arbitrary: st)
  case (Cons ch chs)
  have "diff_only (\<lambda>_. True) (updated_chunk path F ch st)"
    by (simp add: updated_chunk_def split: prod.split)
  then show ?case using Cons.IH by (auto intro!: diff_only_rbind)
qed simp

lemma get_updated_file_diff_only: "diff_only (\<lambda>_. True) (get_updated_file contents a path)"
  unfolding get_updated_file_def Let_def
  by (auto intro!: diff_only_rbind[OF updated_chunks_diff_only])

lemma change_of_diff_only:
  assumes "action_ok orig path a"
  shows "diff_only change_ok (change_of orig path a)"
proof (cases "pa_type a")
  case UPDATE
  then obtain contents where "dict_get orig path = Some contents"
    using assms by (auto simp: action_ok_def)
  then show ?thesis using UPDATE
    by (auto simp: change_of_def change_ok_def intro!: diff_only_rbind[OF get_updated_file_diff_only])
qed (use assms in \<open>auto simp: change_of_def action_ok_def change_ok_def\<close>)

lemma patch_to_commit_from_diff_only:
  "patch_ok orig patch \<Longrightarrow> commit_ok changes \<Longrightarrow> diff_only commit_ok (patch_to_commit_from orig patch changes)"
proof (induction orig patch changes rule: patch_to_commit_from.induct)
  case (2 orig path a rest changes)
  have a: "action_ok orig path a" "patch_ok orig rest" using "2.prems"(1) by (simp_all add: patch_ok_def)
  have "commit_ok (dict_put path c changes)" if "change_ok c" for c
    using "2.prems"(2) that set_dict_put_subset[of path c changes] by (auto simp: commit_ok_def)
  then show ?case using "2.IH" a(2) by (auto intro!: diff_only_rbind[OF change_of_diff_only[OF a(1)]])
qed simp

text \<open>Errors that only the file system raises.\<close>

definition file_error :: "py_exc \<Rightarrow> bool" where
  "file_error e \<longleftrightarrow> (\<exists>p. e = OSError p \<or> e = FileNotFoundError p)"

lemma resolve_path_diff_only:
  "diff_only (\<lambda>fp. take (length workspace_root) fp = workspace_root) (resolve_path workspace_root p)"
  by (simp add: resolve_path_def Let_def)

definition escape_error :: py_exc where
  "escape_error = DiffError ''Absolute or escaping paths are not allowed''"

lemma resolve_path_Inl: "resolve_path workspace_root p = Inl e \<Longrightarrow> e = escape_error"
  by (simp add: resolve_path_def escape_error_def Let_def split: if_splits)

lemma write_file_errors: "write_file w path c d = Inl e \<Longrightarrow> file_error e \<or> e = escape_error"
  by (auto simp: write_file_def rbind_eq_Inl file_error_def dest: resolve_path_Inl split: if_splits)

lemma remove_file_errors: "remove_file w path d = Inl e \<Longrightarrow> file_error e \<or> e = escape_error"
  by (auto simp: remove_file_def rbind_eq_Inl file_error_def dest: resolve_path_Inl split: if_splits)

lemma open_file_errors: "open_file w d path = Inl e \<Longrightarrow> file_error e \<or> e = escape_error"
  by (auto simp: open_file_def rbind_eq_Inl file_error_def dest: resolve_path_Inl split: if_splits option.splits)

lemma apply_change_errors:
  assumes "change_ok ch" "apply_change (write_file w) (remove_file w) path ch d = (d', Some e)"
  shows "file_error e \<or> e = escape_error"
  using assms write_file_errors[of w] remove_file_errors[of w]
  by (auto simp: apply_change_def change_ok_def run_on_def split: action_type.splits option.splits if_splits sum.splits)

lemma apply_commit_errors:
  "commit_ok changes \<Longrightarrow> apply_commit (write_file w) (remove_file w) changes d = (d', Some e) \<Longrightarrow>
     file_error e \<or> e = escape_error"
proof (induction changes arbitrary: d)
  case (Cons pc rest)
  obtain path ch where pc: "pc = (path, ch)" by (cases pc)
  have ok: "change_ok ch" "commit_ok rest" using Cons.prems(1) by (simp_all add: commit_ok_def pc)
  obtain d1 r where c: "apply_change (write_file w) (remove_file w) path ch d = (d1, r)" by force
  show ?case
  proof (cases r)
    case None
    then show ?thesis using Cons.prems(2) Cons.IH[OF ok(2)] by (simp add: pc c)
  next
    case (Some e1)
    then show ?thesis using Cons.prems(2) apply_change_errors[OF ok(1)] c by (auto simp: pc)
  qed
qed simp

lemma load_files_errors:
  "load_files_from (open_file w d) paths orig = Inl e \<Longrightarrow> file_error e \<or> (\<exists>m. e = DiffError m)"
proof (induction paths arbitrary: orig)
  case (Cons path rest)
  show ?case
  proof (cases "open_file w d path")
    case (Inl e1)
    then show ?thesis using Cons.prems open_file_errors[OF Inl]
      by (cases e1) (auto simp: file_error_def escape_error_def)
  next
    case (Inr c)
    then show ?thesis using Cons by simp
  qed
qed simp

lemma prepare_patch_result:
  "case prepare_patch patch (open_file w d) of
     Inl e \<Rightarrow> file_error e \<or> (\<exists>m. e = DiffError m) | Inr (changes, fuzz) \<Rightarrow> commit_ok changes"
proof -
  have "diff_only (\<lambda>(changes, fuzz). commit_ok changes) (rbind (text_to_patch patch orig) (\<lambda>(p, fuzz).
        rbind (patch_to_commit p orig) (\<lambda>changes. Inr (changes, fuzz))))" for orig
    using patch_to_commit_from_diff_only[of orig _ "[]"]
    by (auto simp: patch_to_commit_def commit_ok_def intro!: diff_only_rbind[OF text_to_patch_diff_only] diff_only_rbind)
  note t = this[unfolded diff_only_def]
  show ?thesis
  proof (cases "load_files_from (open_file w d) (identify_files_needed patch) []")
    case (Inl e)
    then show ?thesis using load_files_errors[OF Inl] by (auto simp: prepare_patch_def)
  next
    case (Inr orig)
    then show ?thesis using t[of orig] by (auto simp: prepare_patch_def split: sum.splits)
  qed
qed

text \<open>What a call does to paths outside the workspace.\<close>

definition same_outside :: "abs_path \<Rightarrow> disk \<Rightarrow> disk \<Rightarrow> bool" where
  "same_outside w d d' \<longleftrightarrow> (\<forall>f. take (length w) f \<noteq> w \<longrightarrow> dict_get d' f = dict_get d f)"

lemma same_outside_refl [simp]: "same_outside w d d"
  by (simp add: same_outside_def)

lemma same_outside_trans: "same_outside w d1 d2 \<Longrightarrow> same_outside w d2 d3 \<Longrightarrow> same_outside w d1 d3"
  by (simp add: same_outside_def)

lemma resolve_path_inside: "resolve_path w p = Inr fp \<Longrightarrow> take (length w) fp = w"
  using resolve_path_diff_only[of w p] by simp

lemma write_file_outside: "write_file w path c d = Inr d' \<Longrightarrow> same_outside w d d'"
  by (auto simp: write_file_def rbind_eq_Inr same_outside_def dest: resolve_path_inside split: if_splits)

lemma remove_file_outside: "remove_file w path d = Inr d' \<Longrightarrow> same_outside w d d'"
  by (auto simp: remove_file_def rbind_eq_Inr same_outside_def dest: resolve_path_inside split: if_splits)

lemma run_on_outside:
  "(\<And>d2. r = Inr d2 \<Longrightarrow> same_outside w d d2) \<Longrightarrow> same_outside w d (fst (run_on d r))"
  by (cases r) (auto simp: run_on_def)

lemma apply_change_outside: "same_outside w d (fst (apply_change (write_file w) (remove_file w) path ch d))"
proof -
  have mv: "same_outside w d (fst (case write_file w mv c d of Inl e \<Rightarrow> (d, Some e)
      | Inr d1 \<Rightarrow> run_on d1 (remove_file w path d1)))" for mv c
  proof (cases "write_file w mv c d")
    case (Inr d1)
    then show ?thesis
      using same_outside_trans[OF write_file_outside[OF Inr] run_on_outside[OF remove_file_outside]] by simp
  qed simp
  show ?thesis
    unfolding apply_change_def
    by (auto intro!: mv run_on_outside split: action_type.split option.split
        dest: write_file_outside remove_file_outside)
qed

lemma apply_commit_outside: "same_outside w d (fst (apply_commit (write_file w) (remove_file w) changes d))"
proof (induction changes arbitrary: d)
  case (Cons pc rest)
  obtain path ch where pc: "pc = (path, ch)" by (cases pc)
  obtain d1 r where c: "apply_change (write_file w) (remove_file w) path ch d = (d1, r)" by force
  have "same_outside w d d1" using apply_change_outside[of w d path ch] c by simp
  then show ?case using same_outside_trans[OF _ Cons.IH[of d1]] by (cases r) (simp_all add: pc c)
qed simp

section \<open>A whole call\<close>

text \<open>
  C38: a call of the patch tool is confined to the workspace. Whatever the patch says, and whether
  the call succeeds, fails or raises half-way, no file outside the workspace root is created,
  changed or removed.
\<close>

theorem patch_call_confined:
  assumes "take (length workspace_root) f \<noteq> workspace_root"
  shows "dict_get (fst (apply_patch_call workspace_root patch d)) f = dict_get d f"
proof -
  let ?pp = "process_patch patch (open_file workspace_root) (write_file workspace_root) (remove_file workspace_root) d"
  have "fst (apply_patch_call workspace_root patch d) = fst ?pp"
    by (auto simp: apply_patch_call_def split: prod.split sum.split py_exc.split)
  moreover have "same_outside workspace_root d (fst ?pp)"
  proof (cases "prepare_patch patch (open_file workspace_root d)")
    case (Inr cf)
    obtain changes fuzz where cf: "cf = (changes, fuzz)" by (cases cf)
    have "fst ?pp = fst (apply_commit (write_file workspace_root) (remove_file workspace_root) changes d)"
      by (simp add: process_patch_def Inr cf split: prod.split option.split)
    then show ?thesis using apply_commit_outside by simp
  qed (simp add: process_patch_def)
  ultimately show ?thesis using assms by (simp add: same_outside_def)
qed

lemma patch_call_confined_witness:
  "dict_get (fst (apply_patch_call [''ws''] ''*** Begin Patch'' [([''etc''], ''x'')])) [''etc''] = Some ''x''"
  using patch_call_confined[of "[''ws'']" "[''etc'']" "''*** Begin Patch''" "[([''etc''], ''x'')]"] by simp

text \<open>
  The errors of a patch call. The parser and the splicing raise nothing but \<open>DiffError\<close> on any
  patch text whatsoever, and a commit never lacks a file or its contents, so the only exceptions
  that leave the executor are those of the file system; and a call that reports an error has left
  the disk as it was, unless a path to write or remove escaped the workspace.
\<close>

theorem patch_call_errors:
  "case apply_patch_call workspace_root patch d of
     (d', Inl e) \<Rightarrow> (\<exists>p. e = OSError p \<or> e = FileNotFoundError p)
   | (d', Inr obs) \<Rightarrow>
       (if po_is_error obs
        then po_commit obs = None \<and> (d' = d \<or> po_text obs = ''Absolute or escaping paths are not allowed'')
        else po_commit obs \<noteq> None \<and> po_text obs = ''Done!'')"
proof -
  let ?w = "workspace_root"
  let ?pp = "process_patch patch (open_file ?w) (write_file ?w) (remove_file ?w) d"
  have "case ?pp of (d', Inl e) \<Rightarrow> file_error e \<or> e = escape_error \<or> (d' = d \<and> (\<exists>m. e = DiffError m))
    | (d', Inr (msg, fuzz, changes)) \<Rightarrow> msg = ''Done!''"
  proof (cases "prepare_patch patch (open_file ?w d)")
    case (Inl e)
    then show ?thesis using prepare_patch_result[of patch ?w d] by (auto simp: process_patch_def)
  next
    case (Inr cf)
    obtain changes fuzz where cf: "cf = (changes, fuzz)" by (cases cf)
    have ok: "commit_ok changes" using prepare_patch_result[of patch ?w d] Inr cf by simp
    obtain d1 r where c: "apply_commit (write_file ?w) (remove_file ?w) changes d = (d1, r)" by force
    show ?thesis
      using apply_commit_errors[OF ok, of ?w d d1] c by (cases r) (auto simp: process_patch_def Inr cf)
  qed
  then show ?thesis
    unfolding apply_patch_call_def
    by (auto simp: file_error_def escape_error_def split: prod.splits sum.splits py_exc.splits)
qed

text \<open>
  An update that moves a file to its own path removes the file. \<open>apply_commit\<close> writes the new
  contents to the target and then removes the source, without comparing the two.
\<close>

theorem move_to_itself_removes:
  assumes "fc_type ch = UPDATE" "new_content ch = Some c" "fc_move_path ch = Some mv" "mv \<noteq> ''''"
    "resolve_path w path = Inr fp" "resolve_path w mv = Inr fp" "dict_get d fp \<noteq> None"
    "\<not> file_above d fp" "\<not> dir_on_disk w d fp"
  shows "\<exists>d'. apply_change (write_file w) (remove_file w) path ch d = (d', None) \<and> dict_get d' fp = None"
  using assms by (simp add: apply_change_def write_file_def remove_file_def run_on_def)

lemma move_to_itself_removes_witness:
  "\<exists>d'. apply_change (write_file [''ws'']) (remove_file [''ws'']) ''a''
      \<lparr>fc_type = UPDATE, old_content = Some ''x'', new_content = Some ''y'', fc_move_path = Some ''./a''\<rparr>
      [([''ws'', ''a''], ''x'')] = (d', None) \<and> dict_get d' [''ws'', ''a''] = None"
proof -
  have "resolve_path [''ws''] ''a'' = Inr [''ws'', ''a'']" "resolve_path [''ws''] ''./a'' = Inr [''ws'', ''a'']"
    "\<not> file_above [([''ws'', ''a''], ''x'')] [''ws'', ''a'']"
    "\<not> dir_on_disk [''ws''] [([''ws'', ''a''], ''x'')] [''ws'', ''a'']" by code_simp+
  then show ?thesis 
    by (intro move_to_itself_removes[where c = "''y''" and mv = "''./a''" and fp = "[''ws'', ''a'']"]) simp_all
qed

text \<open>An absolute path is accepted when it is inside the workspace, whatever the message says.\<close>

lemma absolute_path_accepted: "resolve_path [''ws''] ''/ws/a'' = Inr [''ws'', ''a'']"
  by code_simp

end
