(* ===== verification/Stuck_Detector.thy ===== *)
theory Stuck_Detector
  imports Text_Utils Events
begin

text \<open>
  \<open>sdk/conversation/stuck_detector.py\<close>: the detector of repetitive behaviour and its nudges. The
  argument \<open>window\<close> of the operations is what \<open>state.active_branch(limit=40)\<close> returns, oldest first;
  the record holds the thresholds and the two markers of the nudges already given.

  \<open>json.loads\<close> is an argument: it returns the value of a JSON text, or \<^const>\<open>None\<close> where it raises.
  A character outside the eight-bit range is its UTF-8 encoding.
\<close>

section \<open>State\<close>

record stuck_thresholds =
  th_action_observation :: nat
  th_action_error :: nat
  th_monologue :: nat
  th_alternating_pattern :: nat
  th_no_progress_actions :: nat

definition default_stuck_thresholds :: stuck_thresholds where
  "default_stuck_thresholds = \<lparr>th_action_observation = 4, th_action_error = 3, th_monologue = 3,
     th_alternating_pattern = 6, th_no_progress_actions = 0\<rparr>"

definition max_events_to_scan :: int where
  "max_events_to_scan = 40"

record stuck_detector =
  thresholds :: stuck_thresholds
  last_nudged_error_event_id :: "str option"
  last_nudged_no_progress_action_id :: "str option"

definition new_detector :: "stuck_thresholds option \<Rightarrow> stuck_detector" where
  "new_detector th = \<lparr>thresholds = (case th of None \<Rightarrow> default_stuck_thresholds | Some t \<Rightarrow> t),
     last_nudged_error_event_id = None, last_nudged_no_progress_action_id = None\<rparr>"

section \<open>Comparing events\<close>

fun body_class :: "event_body \<Rightarrow> nat" where
  "body_class (SystemPromptEvent _ _ _) = 0"
| "body_class (MessageEvent _ _) = 1"
| "body_class (ActionEvent _) = 2"
| "body_class (ObservationEvent _ _) = 3"
| "body_class (UserRejectObservation _ _ _) = 4"
| "body_class (AgentErrorEvent _ _) = 5"
| "body_class (CondensationSummaryEvent _) = 6"
| "body_class (Condensation _) = 7"
| "body_class CondensationRequest = 8"
| "body_class (ConversationStateUpdateEvent _ _) = 9"
| "body_class (ConversationErrorEvent _ _) = 10"
| "body_class (OtherEvent _) = 11"

definition stuck_event_eq :: "event \<Rightarrow> event \<Rightarrow> bool" where
  "stuck_event_eq e1 e2 =
     (if body_class (ev_body e1) \<noteq> body_class (ev_body e2) then False
      else case (ev_body e1, ev_body e2) of
        (ActionEvent a1, ActionEvent a2) \<Rightarrow>
          ev_source e1 = ev_source e2 \<and> thought a1 = thought a2 \<and> act_action a1 = act_action a2 \<and>
          act_tool_name a1 = act_tool_name a2
      | (ObservationEvent b1 d1, ObservationEvent b2 d2) \<Rightarrow>
          ev_source e1 = ev_source e2 \<and> observation d1 = observation d2 \<and> obs_tool_name b1 = obs_tool_name b2
      | (AgentErrorEvent _ x1, AgentErrorEvent _ x2) \<Rightarrow> ev_source e1 = ev_source e2 \<and> x1 = x2
      | (MessageEvent m1 _, MessageEvent m2 _) \<Rightarrow> ev_source e1 = ev_source e2 \<and> m1 = m2
      | _ \<Rightarrow> e1 = e2)"

section \<open>Collecting\<close>

fun is_message :: "event_body \<Rightarrow> bool" where
  "is_message (MessageEvent _ _) = True"
| "is_message _ = False"

fun is_agent_error :: "event_body \<Rightarrow> bool" where
  "is_agent_error (AgentErrorEvent _ _) = True"
| "is_agent_error _ = False"

fun is_condensation_summary :: "event_body \<Rightarrow> bool" where
  "is_condensation_summary (CondensationSummaryEvent _) = True"
| "is_condensation_summary _ = False"

definition from_user :: "event \<Rightarrow> bool" where
  "from_user e \<longleftrightarrow> is_message (ev_body e) \<and> ev_source e = Src_User"

text \<open>The generator runs through the indices from the last to the first.\<close>

definition events_since_last_user_message :: "event list \<Rightarrow> event list" where
  "events_since_last_user_message window =
     (case find (\<lambda>i. from_user (window ! i)) (rev [0..<length window]) of
        None \<Rightarrow> window | Some i \<Rightarrow> drop (Suc i) window)"

fun collect_from :: "nat \<Rightarrow> event list \<Rightarrow> event list \<times> event list \<Rightarrow> event list \<times> event list" where
  "collect_from max_needed [] st = st"
| "collect_from max_needed (e # es) (last_actions, last_observations) =
     (let st' = (if is_action e \<and> length last_actions < max_needed then (last_actions @ [e], last_observations)
                 else if is_obs e \<and> length last_observations < max_needed
                 then (last_actions, last_observations @ [e]) else (last_actions, last_observations)) in
      if length (fst st') \<ge> max_needed \<and> length (snd st') \<ge> max_needed then st'
      else collect_from max_needed es st')"

definition collect_actions_and_observations :: "event list \<Rightarrow> nat \<Rightarrow> event list \<times> event list" where
  "collect_actions_and_observations es max_needed = collect_from max_needed (rev es) ([], [])"

section \<open>The stuck patterns\<close>

definition is_stuck_repeating_action_observation :: "stuck_detector \<Rightarrow> event list \<Rightarrow> event list \<Rightarrow> bool" where
  "is_stuck_repeating_action_observation d last_actions last_observations =
     (let threshold = th_action_observation (thresholds d) in
      if length last_actions \<ge> threshold \<and> length last_observations \<ge> threshold
      then list_all (stuck_event_eq (hd last_actions)) (take threshold last_actions) \<and>
           list_all (stuck_event_eq (hd last_observations)) (take threshold last_observations)
      else False)"

fun streak_from :: "event \<Rightarrow> (event \<times> event) list \<Rightarrow> nat" where
  "streak_from reference [] = 0"
| "streak_from reference ((a, obs) # rest) =
     (if \<not> stuck_event_eq reference a then 0
      else if \<not> is_agent_error (ev_body obs) then 0
      else Suc (streak_from reference rest))"

definition action_error_streak :: "event list \<Rightarrow> event list \<Rightarrow> nat" where
  "action_error_streak last_actions last_observations =
     (if last_actions = [] \<or> last_observations = [] then 0
      else streak_from (hd last_actions) (zip last_actions last_observations))"

definition is_stuck_repeating_action_error :: "stuck_detector \<Rightarrow> event list \<Rightarrow> event list \<Rightarrow> bool" where
  "is_stuck_repeating_action_error d last_actions last_observations =
     (action_error_streak last_actions last_observations > th_action_error (thresholds d))"

fun count_monologue :: "event list \<Rightarrow> nat \<Rightarrow> nat" where
  "count_monologue [] n = n"
| "count_monologue (e # es) n =
     (if is_message (ev_body e) then
        (if ev_source e = Src_Agent then count_monologue es (Suc n)
         else if ev_source e = Src_User then n
         else count_monologue es n)
      else if is_condensation_summary (ev_body e) then count_monologue es n
      else n)"

definition is_stuck_monologue :: "stuck_detector \<Rightarrow> event list \<Rightarrow> bool" where
  "is_stuck_monologue d es =
     (let threshold = th_monologue (thresholds d) in
      if length es < threshold then False else count_monologue (rev es) 0 \<ge> threshold)"

definition is_result :: "event \<Rightarrow> bool" where
  "is_result e \<longleftrightarrow> (case ev_body e of ObservationEvent _ _ \<Rightarrow> True | AgentErrorEvent _ _ \<Rightarrow> True | _ \<Rightarrow> False)"

fun collect_alternating :: "nat \<Rightarrow> event list \<Rightarrow> event list \<times> event list \<Rightarrow> event list \<times> event list" where
  "collect_alternating threshold [] st = st"
| "collect_alternating threshold (e # es) (last_actions, last_observations) =
     (let st' = (if is_action e \<and> length last_actions < threshold then (last_actions @ [e], last_observations)
                 else if is_result e \<and> length last_observations < threshold
                 then (last_actions, last_observations @ [e]) else (last_actions, last_observations)) in
      if length (fst st') = threshold \<and> length (snd st') = threshold then st'
      else collect_alternating threshold es st')"

definition alternates :: "nat \<Rightarrow> event list \<Rightarrow> bool" where
  "alternates threshold es \<longleftrightarrow> list_all (\<lambda>i. stuck_event_eq (es ! i) (es ! (i + 2))) [0..<threshold - 2]"

definition is_stuck_alternating :: "stuck_detector \<Rightarrow> event list \<Rightarrow> bool" where
  "is_stuck_alternating d es =
     (let threshold = th_alternating_pattern (thresholds d);
          (last_actions, last_observations) = collect_alternating threshold (rev es) ([], []) in
      if length last_actions = threshold \<and> length last_observations = threshold
      then alternates threshold last_actions \<and> alternates threshold last_observations
      else False)"

definition is_stuck_context_window_error :: "event list \<Rightarrow> bool" where
  "is_stuck_context_window_error es = False"

definition is_stuck :: "stuck_detector \<Rightarrow> event list \<Rightarrow> bool" where
  "is_stuck d window =
     (let es = events_since_last_user_message window; t = thresholds d;
          min_threshold = min (min (th_action_observation t) (th_action_error t)) (th_monologue t) in
      if length es < min_threshold then False
      else let max_needed = max (th_action_observation t) (th_action_error t + 1);
          (last_actions, last_observations) = collect_actions_and_observations es max_needed in
      if is_stuck_repeating_action_observation d last_actions last_observations then True
      else if is_stuck_repeating_action_error d last_actions last_observations then True
      else if is_stuck_monologue d es then True
      else if length es \<ge> th_alternating_pattern t \<and> is_stuck_alternating d es then True
      else if length es \<ge> 10 \<and> is_stuck_context_window_error es then True
      else False)"

section \<open>Nudges\<close>

definition em_dash :: str where "em_dash = [CHR 0xE2, CHR 0x80, CHR 0x94]"
definition ellipsis :: str where "ellipsis = [CHR 0xE2, CHR 0x80, CHR 0xA6]"
definition backquote :: str where "backquote = [CHR 0x60]"

definition action_error_nudge_text :: "str \<Rightarrow> nat \<Rightarrow> str \<Rightarrow> str" where
  "action_error_nudge_text tool threshold err =
     ''You'' @ [CHR 0x27] @ ''ve called '' @ backquote @ tool @ backquote @ '' with the same arguments '' @
     nat_to_str threshold @ '' times in a row and gotten the same error each time: '' @ err @
     ''. Repeating the exact same call again will not work '' @ em_dash @
     '' review the error message and either correct the arguments or try a different approach.''"

definition get_action_error_nudge :: "event list \<Rightarrow> stuck_detector \<Rightarrow> stuck_detector \<times> (py_exc + str option)" where
  "get_action_error_nudge window d =
     (let es = events_since_last_user_message window; threshold = th_action_error (thresholds d);
          (last_actions, last_observations) = collect_actions_and_observations es (threshold + 1) in
      if action_error_streak last_actions last_observations \<noteq> threshold then (d, Inr None)
      else case (last_actions, last_observations) of
        (act # _, err # _) \<Rightarrow>
          (case (ev_body act, ev_body err) of
             (ActionEvent a, AgentErrorEvent _ x) \<Rightarrow>
               (if Some (ev_id err) = last_nudged_error_event_id d then (d, Inr None)
                else (d\<lparr>last_nudged_error_event_id := Some (ev_id err)\<rparr>,
                      Inr (Some (action_error_nudge_text (act_tool_name a) threshold x))))
           | _ \<Rightarrow> (d, Inl (AssertionError ''isinstance'')))
      | _ \<Rightarrow> (d, Inl IndexError))"

text \<open>Values \<open>json.loads\<close> can return, as far as the membership test tells them apart.\<close>

datatype json = JString str | JUnhashable | JScalar | JObject "(str \<times> json) list"

definition progress_commands :: "str set" where
  "progress_commands = {''create'', ''str_replace'', ''insert'', ''undo_edit''}"

definition action_shows_code_progress :: "(str \<Rightarrow> json option) \<Rightarrow> action_data \<Rightarrow> py_exc + bool" where
  "action_shows_code_progress json_loads a =
     (if act_tool_name a = ''finish'' then Inr True
      else if act_tool_name a \<noteq> ''file_editor'' then Inr False
      else let raw_args = tc_arguments (act_tool_call a) in
        if raw_args = '''' then Inr False
        else case json_loads raw_args of
          None \<Rightarrow> Inr False
        | Some (JObject obj) \<Rightarrow>
            (case dict_get obj ''command'' of
               Some (JString c) \<Rightarrow> Inr (c \<in> progress_commands)
             | Some JUnhashable \<Rightarrow> Inl (TypeError ''unhashable type'')
             | Some (JObject _) \<Rightarrow> Inl (TypeError ''unhashable type'')
             | _ \<Rightarrow> Inr False)
        | Some _ \<Rightarrow> Inr False)"

fun any_progress :: "(str \<Rightarrow> json option) \<Rightarrow> event list \<Rightarrow> py_exc + bool" where
  "any_progress json_loads [] = Inr False"
| "any_progress json_loads (e # es) =
     (case as_action e of
        None \<Rightarrow> Inl (AttributeError ''tool_name'')
      | Some a \<Rightarrow> rbind (action_shows_code_progress json_loads a)
          (\<lambda>b. if b then Inr True else any_progress json_loads es))"

definition shown_tool_name :: "event \<Rightarrow> str" where
  "shown_tool_name e = (case as_action e of None \<Rightarrow> ''?'' | Some a \<Rightarrow> if act_tool_name a = '''' then ''?'' else act_tool_name a)"

definition no_progress_nudge_text :: "nat \<Rightarrow> str list \<Rightarrow> str" where
  "no_progress_nudge_text threshold tool_names =
     ''You'' @ [CHR 0x27] @ ''ve taken '' @ nat_to_str threshold @ '' consecutive explore/read actions ('' @
     py_join '', '' (drop (length tool_names - 5) tool_names) @
     (if length tool_names > 5 then '', '' @ ellipsis else '''') @
     '') without editing code or calling '' @ backquote @ ''finish'' @ backquote @
     ''. Stop open-ended exploration: make a minimal code change now, or call '' @ backquote @ ''finish'' @ backquote @
     '' if the task is already verified or blocked.''"

definition get_no_progress_nudge :: "(str \<Rightarrow> json option) \<Rightarrow> event list \<Rightarrow> stuck_detector \<Rightarrow> stuck_detector \<times> (py_exc + str option)" where
  "get_no_progress_nudge json_loads window d =
     (let threshold = th_no_progress_actions (thresholds d) in
      if threshold = 0 then (d, Inr None)
      else let es = events_since_last_user_message window;
        (last_actions, _) = collect_actions_and_observations es threshold in
      if length last_actions < threshold then (d, Inr None)
      else let streak = take threshold last_actions in
        case any_progress json_loads streak of
          Inl e \<Rightarrow> (d, Inl e)
        | Inr True \<Rightarrow> (d\<lparr>last_nudged_no_progress_action_id := None\<rparr>, Inr None)
        | Inr False \<Rightarrow>
            (let newest = hd streak in
             if Some (ev_id newest) = last_nudged_no_progress_action_id d then (d, Inr None)
             else (d\<lparr>last_nudged_no_progress_action_id := Some (ev_id newest)\<rparr>,
                   Inr (Some (no_progress_nudge_text threshold (map shown_tool_name (rev streak)))))))"

text \<open>\<open>_check_stuck_or_nudge\<close> of the local conversation: the message to emit, and whether to stop.\<close>

definition check_stuck_or_nudge :: "(str \<Rightarrow> json option) \<Rightarrow> event list \<Rightarrow> stuck_detector option \<Rightarrow>
    stuck_detector option \<times> (py_exc + str option \<times> bool)" where
  "check_stuck_or_nudge json_loads window dopt =
     (case dopt of
        None \<Rightarrow> (None, Inr (None, False))
      | Some d \<Rightarrow>
          (case get_action_error_nudge window d of
             (d1, Inl e) \<Rightarrow> (Some d1, Inl e)
           | (d1, Inr (Some n)) \<Rightarrow> (Some d1, Inr (Some n, False))
           | (d1, Inr None) \<Rightarrow>
               (case get_no_progress_nudge json_loads window d1 of
                  (d2, Inl e) \<Rightarrow> (Some d2, Inl e)
                | (d2, Inr (Some n)) \<Rightarrow> (Some d2, Inr (Some n, False))
                | (d2, Inr None) \<Rightarrow> (Some d2, Inr (None, is_stuck d2 window)))))"

section \<open>What the loops compute\<close>

text \<open>Both collecting loops are the same function of the test for a result.\<close>

lemma is_action_not_obs: "is_action e \<Longrightarrow> \<not> is_obs e"
  by (auto simp: is_action_def is_obs_def)

lemma is_result_obs: "is_result e \<Longrightarrow> is_obs e"
  by (cases "ev_body e") (auto simp: is_result_def is_obs_def as_obs_def)

lemma collect_from_eq:
  "length A \<le> k \<Longrightarrow> length R \<le> k \<Longrightarrow>
     collect_from k es (A, R) = (A @ take (k - length A) (filter is_action es), R @ take (k - length R) (filter is_obs es))"
proof (induction k es "(A, R)" arbitrary: A R rule: collect_from.induct)
  case (2 k e es A R)
  consider "is_action e \<and> length A < k" | "is_action e \<and> \<not> length A < k" | "\<not> is_action e \<and> is_obs e \<and> length R < k"
    | "\<not> is_action e \<and> is_obs e \<and> \<not> length R < k" | "\<not> is_action e \<and> \<not> is_obs e" by satx
  then show ?case
    using 2 is_action_not_obs[of e] by cases (auto simp: Let_def take_Cons' split: nat.splits)
qed simp

lemma collect_eq:
  "collect_actions_and_observations es k = (take k (filter is_action (rev es)), take k (filter is_obs (rev es)))"
  by (simp add: collect_actions_and_observations_def collect_from_eq)

lemma collect_alternating_eq:
  "length A \<le> k \<Longrightarrow> length R \<le> k \<Longrightarrow>
     collect_alternating k es (A, R) = (A @ take (k - length A) (filter is_action es), R @ take (k - length R) (filter is_result es))"
proof (induction k es "(A, R)" arbitrary: A R rule: collect_alternating.induct)
  case (2 k e es A R)
  have n: "is_action e \<Longrightarrow> \<not> is_result e" using is_action_not_obs is_result_obs by blast
  consider "is_action e \<and> length A < k" | "is_action e \<and> \<not> length A < k" | "\<not> is_action e \<and> is_result e \<and> length R < k"
    | "\<not> is_action e \<and> is_result e \<and> \<not> length R < k" | "\<not> is_action e \<and> \<not> is_result e" by satx
  then show ?case
    using 2 n by cases (auto simp: Let_def take_Cons' split: nat.splits)
qed simp

definition monologue_event :: "event \<Rightarrow> bool" where
  "monologue_event e \<longleftrightarrow> is_message (ev_body e) \<and> ev_source e \<noteq> Src_User \<or> is_condensation_summary (ev_body e)"

definition agent_message :: "event \<Rightarrow> bool" where
  "agent_message e \<longleftrightarrow> is_message (ev_body e) \<and> ev_source e = Src_Agent"

lemma count_monologue_eq:
  "count_monologue es n = n + length (filter agent_message (takeWhile monologue_event es))"
proof (induction es n rule: count_monologue.induct)
  case (2 e es n)
  have "\<not> (is_message (ev_body e) \<and> is_condensation_summary (ev_body e))" by (cases "ev_body e") auto
  with 2 show ?case by (auto simp: monologue_event_def agent_message_def)
qed simp

lemma list_all_take: "n \<le> length xs \<Longrightarrow> list_all P (take n xs) \<longleftrightarrow> (\<forall>i. i < n \<longrightarrow> P (xs ! i))"
  by (auto simp: list_all_length)

text \<open>One repeated call with errors, over the most recent \<open>n\<close> pairs.\<close>

definition error_pairs :: "event list \<Rightarrow> event list \<Rightarrow> nat \<Rightarrow> bool" where
  "error_pairs acts obs n \<longleftrightarrow> n \<le> length acts \<and> n \<le> length obs \<and>
     (\<forall>i. i < n \<longrightarrow> stuck_event_eq (acts ! 0) (acts ! i) \<and> is_agent_error (ev_body (obs ! i)))"

lemma streak_from_ge:
  "n \<le> streak_from r zs \<longleftrightarrow> n \<le> length zs \<and>
     (\<forall>i. i < n \<longrightarrow> stuck_event_eq r (fst (zs ! i)) \<and> is_agent_error (ev_body (snd (zs ! i))))"
proof (induction r zs arbitrary: n rule: streak_from.induct)
  case (2 r a x rest)
  show ?case
  proof (cases n)
    case (Suc m)
    then show ?thesis using "2.IH"[of m] by (auto simp: nth_Cons' less_Suc_eq_0_disj)
  qed simp
qed auto

lemma streak_ge: "n \<le> action_error_streak acts obs \<longleftrightarrow> error_pairs acts obs n"
proof (cases "acts = [] \<or> obs = []")
  case True
  then show ?thesis by (auto simp: action_error_streak_def error_pairs_def)
next
  case False
  then have "hd acts = acts ! 0" by (simp add: hd_conv_nth)
  with False show ?thesis by (auto simp: action_error_streak_def streak_from_ge error_pairs_def)
qed

lemma error_pairs_take: "n \<le> k \<Longrightarrow> error_pairs (take k acts) (take k obs) n \<longleftrightarrow> error_pairs acts obs n"
  by (cases n) (auto simp: error_pairs_def)

section \<open>The verdict\<close>

definition repeated :: "event list \<Rightarrow> nat \<Rightarrow> bool" where
  "repeated es n \<longleftrightarrow> n \<le> length es \<and> (\<forall>i. i < n \<longrightarrow> stuck_event_eq (es ! 0) (es ! i))"

definition alternating :: "event list \<Rightarrow> nat \<Rightarrow> bool" where
  "alternating es n \<longleftrightarrow> n \<le> length es \<and> (\<forall>i. i + 2 < n \<longrightarrow> stuck_event_eq (es ! i) (es ! (i + 2)))"

definition valid_thresholds :: "stuck_thresholds \<Rightarrow> bool" where
  "valid_thresholds t \<longleftrightarrow> 1 \<le> th_action_observation t \<and> 1 \<le> th_action_error t \<and> 1 \<le> th_monologue t \<and>
     1 \<le> th_alternating_pattern t"

lemma repeating_observation_iff:
  assumes "1 \<le> th_action_observation (thresholds d)" "th_action_observation (thresholds d) \<le> k"
  shows "is_stuck_repeating_action_observation d (take k acts) (take k obs) \<longleftrightarrow>
    repeated acts (th_action_observation (thresholds d)) \<and> repeated obs (th_action_observation (thresholds d))"
proof -
  let ?t = "th_action_observation (thresholds d)"
  have one: "?t \<le> length es \<Longrightarrow> list_all (stuck_event_eq (hd (take k es))) (take ?t (take k es)) \<longleftrightarrow> repeated es ?t"
    for es :: "event list"
  proof -
    assume le: "?t \<le> length es"
    then have "es \<noteq> []" using assms(1) by auto
    then have h: "hd (take k es) = es ! 0" using assms by (simp add: hd_conv_nth)
    have "take ?t (take k es) = take ?t es" using assms(2) by (simp add: min_def)
    then show ?thesis using le by (simp add: h list_all_take repeated_def)
  qed
  show ?thesis
  proof (cases "?t \<le> length acts \<and> ?t \<le> length obs")
    case True
    then have "?t \<le> length (take k acts) \<and> ?t \<le> length (take k obs)" using assms(2) by simp
    then show ?thesis using True one[of acts] one[of obs]
      by (simp only: is_stuck_repeating_action_observation_def Let_def if_True simp_thms)
  next
    case False
    then show ?thesis by (auto simp: is_stuck_repeating_action_observation_def repeated_def Let_def)
  qed
qed

lemma alternates_iff: "k \<le> length es \<Longrightarrow> alternates k (take k es) \<longleftrightarrow> alternating es k"
  by (auto simp: alternates_def alternating_def list_all_iff)

lemma stuck_alternating_iff:
  "is_stuck_alternating d es \<longleftrightarrow>
     alternating (filter is_action (rev es)) (th_alternating_pattern (thresholds d)) \<and>
     alternating (filter is_result (rev es)) (th_alternating_pattern (thresholds d))"
proof (cases "th_alternating_pattern (thresholds d) \<le> length (filter is_action (rev es)) \<and>
    th_alternating_pattern (thresholds d) \<le> length (filter is_result (rev es))")
  case True
  then show ?thesis
    by (simp add: is_stuck_alternating_def collect_alternating_eq Let_def alternates_iff)
next
  case False
  then show ?thesis
    by (auto simp: is_stuck_alternating_def collect_alternating_eq Let_def alternating_def)
qed

text \<open>
  C39: the verdict of the detector. With validated thresholds, a conversation is stuck exactly when,
  among the events after the last user message, the most recent calls and their results are all
  equal, or one call failed more often in a row than the error threshold, or the tail consists of
  enough agent messages, or calls and results alternate; the loops that collect and stop early do
  not change that.
\<close>

theorem is_stuck_verdict:
  fixes d :: stuck_detector and window :: "event list"
  defines "es \<equiv> events_since_last_user_message window" and "t \<equiv> thresholds d"
  assumes "valid_thresholds t"
  shows "is_stuck d window \<longleftrightarrow>
    (th_action_observation t \<le> length es \<or> th_action_error t \<le> length es \<or> th_monologue t \<le> length es) \<and>
    (repeated (filter is_action (rev es)) (th_action_observation t) \<and>
       repeated (filter is_obs (rev es)) (th_action_observation t)
     \<or> error_pairs (filter is_action (rev es)) (filter is_obs (rev es)) (Suc (th_action_error t))
     \<or> th_monologue t \<le> length (filter agent_message (takeWhile monologue_event (rev es)))
     \<or> alternating (filter is_action (rev es)) (th_alternating_pattern t) \<and>
       alternating (filter is_result (rev es)) (th_alternating_pattern t))"
proof -
  let ?A = "filter is_action (rev es)" and ?O = "filter is_obs (rev es)" and ?R = "filter is_result (rev es)"
  let ?k = "max (th_action_observation t) (th_action_error t + 1)"
  have o: "is_stuck_repeating_action_observation d (take ?k ?A) (take ?k ?O) \<longleftrightarrow>
      repeated ?A (th_action_observation t) \<and> repeated ?O (th_action_observation t)"
    unfolding t_def by (rule repeating_observation_iff) (use assms(3) in \<open>simp_all add: valid_thresholds_def t_def\<close>)
  have e: "is_stuck_repeating_action_error d (take ?k ?A) (take ?k ?O) \<longleftrightarrow> error_pairs ?A ?O (Suc (th_action_error t))"
    unfolding is_stuck_repeating_action_error_def Suc_le_eq[symmetric] streak_ge t_def[symmetric]
    by (rule error_pairs_take) simp
  have m: "is_stuck_monologue d es \<longleftrightarrow> th_monologue t \<le> length (filter agent_message (takeWhile monologue_event (rev es)))"
  proof -
    have "length (filter agent_message (takeWhile monologue_event (rev es))) \<le> length es"
      by (metis length_filter_le length_takeWhile_le length_rev order_trans)
    then show ?thesis by (auto simp: is_stuck_monologue_def Let_def count_monologue_eq t_def)
  qed
  have a: "alternating ?A (th_alternating_pattern t) \<Longrightarrow> th_alternating_pattern t \<le> length es"
    unfolding alternating_def by (metis length_filter_le length_rev order_trans)
  have min: "length es < min (min (th_action_observation t) (th_action_error t)) (th_monologue t) \<longleftrightarrow>
      \<not> (th_action_observation t \<le> length es \<or> th_action_error t \<le> length es \<or> th_monologue t \<le> length es)"
    by (simp add: not_le)
  show ?thesis
    unfolding is_stuck_def Let_def es_def[symmetric] t_def[symmetric] collect_eq case_prod_conv o e m min
      stuck_alternating_iff is_stuck_context_window_error_def
    using a by (simp only: if_bool_eq_disj) blast
qed

lemma is_stuck_verdict_witness:
  "is_stuck (new_detector None)
     [mk_action ''1'' ''c1'' ''r'' [], mk_error ''2'' ''c1'' ''x'', mk_action ''3'' ''c2'' ''r'' [], mk_error ''4'' ''c2'' ''y'',
      mk_action ''5'' ''c3'' ''r'' [], mk_error ''6'' ''c3'' ''z'', mk_action ''7'' ''c4'' ''r'' [], mk_error ''8'' ''c4'' ''x'']
   \<and> \<not> is_stuck (new_detector None) [mk_action ''1'' ''c1'' ''r'' [], mk_error ''2'' ''c1'' ''x'', mk_user ''u'']"
proof -
  have v: "valid_thresholds (thresholds (new_detector None))"
    by (simp add: valid_thresholds_def new_detector_def default_stuck_thresholds_def)
  let ?W = "[mk_action ''1'' ''c1'' ''r'' [], mk_error ''2'' ''c1'' ''x'', mk_action ''3'' ''c2'' ''r'' [], mk_error ''4'' ''c2'' ''y'',
      mk_action ''5'' ''c3'' ''r'' [], mk_error ''6'' ''c3'' ''z'', mk_action ''7'' ''c4'' ''r'' [], mk_error ''8'' ''c4'' ''x'']"
  have es: "events_since_last_user_message ?W = ?W" by code_simp
  have t: "th_action_error (thresholds (new_detector None)) = 3" by code_simp
  have acts: "filter is_action (rev ?W) = [mk_action ''7'' ''c4'' ''r'' [], mk_action ''5'' ''c3'' ''r'' [],
      mk_action ''3'' ''c2'' ''r'' [], mk_action ''1'' ''c1'' ''r'' []]"
    and obs: "filter is_obs (rev ?W) = [mk_error ''8'' ''c4'' ''x'', mk_error ''6'' ''c3'' ''z'', mk_error ''4'' ''c2'' ''y'', mk_error ''2'' ''c1'' ''x'']"
    by (simp_all add: mk_defs ev_simps)
  have "error_pairs (filter is_action (rev ?W)) (filter is_obs (rev ?W)) (Suc 3)"
    unfolding acts obs
    by (auto simp: error_pairs_def mk_defs stuck_event_eq_def less_Suc_eq numeral_eq_Suc)
  then have "is_stuck (new_detector None) ?W"
    unfolding is_stuck_verdict[OF v] es t by simp
  moreover have "\<not> is_stuck (new_detector None) [mk_action ''1'' ''c1'' ''r'' [], mk_error ''2'' ''c1'' ''x'', mk_user ''u'']"
    by code_simp
  ultimately show ?thesis by blast
qed

section \<open>The nudges\<close>

text \<open>
  A nudge for errors is due when the streak has the length of the threshold; it is given once for
  the same last error.
\<close>

definition error_nudge_due :: "event list \<Rightarrow> nat \<Rightarrow> bool" where
  "error_nudge_due window n \<longleftrightarrow>
     (let es = events_since_last_user_message window; acts = filter is_action (rev es); obs = filter is_obs (rev es) in
      error_pairs acts obs n \<and> \<not> error_pairs acts obs (Suc n))"

lemma streak_take_eq:
  "action_error_streak (take (n + 1) acts) (take (n + 1) obs) = n \<longleftrightarrow> error_pairs acts obs n \<and> \<not> error_pairs acts obs (Suc n)"
proof -
  let ?s = "action_error_streak (take (n + 1) acts) (take (n + 1) obs)"
  have "n \<le> ?s \<longleftrightarrow> error_pairs acts obs n" "Suc n \<le> ?s \<longleftrightarrow> error_pairs acts obs (Suc n)"
    unfolding streak_ge by (rule error_pairs_take; simp)+
  then show ?thesis by linarith
qed

lemma error_nudge_given:
  assumes "1 \<le> th_action_error (thresholds d)" "error_nudge_due window (th_action_error (thresholds d))"
  obtains a err b x where
    "hd (filter is_action (rev (events_since_last_user_message window))) = a"
    "hd (filter is_obs (rev (events_since_last_user_message window))) = err"
    "ev_body err = AgentErrorEvent b x"
    "get_action_error_nudge window d =
      (if Some (ev_id err) = last_nudged_error_event_id d then (d, Inr None)
       else (d\<lparr>last_nudged_error_event_id := Some (ev_id err)\<rparr>,
         Inr (Some (action_error_nudge_text (act_tool_name (the (as_action a))) (th_action_error (thresholds d)) x))))"
proof -
  let ?es = "events_since_last_user_message window" and ?n = "th_action_error (thresholds d)"
  let ?A = "filter is_action (rev ?es)" and ?O = "filter is_obs (rev ?es)"
  from assms(2) have p: "error_pairs ?A ?O ?n" and st: "action_error_streak (take (?n + 1) ?A) (take (?n + 1) ?O) = ?n"
    unfolding error_nudge_due_def Let_def streak_take_eq by blast+
  from p assms(1) obtain a A' err O' where A: "?A = a # A'" and R: "?O = err # O'"
    unfolding error_pairs_def by (metis Suc_le_length_iff One_nat_def order_trans)
  have "is_agent_error (ev_body err)" using p assms(1) unfolding error_pairs_def A R by force
  then obtain b x where x: "ev_body err = AgentErrorEvent b x" by (cases "ev_body err") auto
  have "a \<in> set ?A" unfolding A by simp
  then obtain ad where ad: "ev_body a = ActionEvent ad" by (auto simp: is_action_def as_action_iff)
  then have "as_action a = Some ad" by (simp add: as_action_iff)
  moreover have "get_action_error_nudge window d =
      (if Some (ev_id err) = last_nudged_error_event_id d then (d, Inr None)
       else (d\<lparr>last_nudged_error_event_id := Some (ev_id err)\<rparr>,
         Inr (Some (action_error_nudge_text (act_tool_name ad) ?n x))))"
    unfolding get_action_error_nudge_def Let_def collect_eq case_prod_conv st
    by (simp add: A R ad x)
  ultimately show ?thesis using that[of a err b x] A R x by simp
qed

lemma error_nudge_once:
  assumes "1 \<le> th_action_error (thresholds d)" "error_nudge_due window (th_action_error (thresholds d))"
  shows "let d1 = fst (get_action_error_nudge window d) in get_action_error_nudge window d1 = (d1, Inr None)"
proof -
  obtain a err b x where e: "hd (filter is_obs (rev (events_since_last_user_message window))) = err"
    and g: "get_action_error_nudge window d =
      (if Some (ev_id err) = last_nudged_error_event_id d then (d, Inr None)
       else (d\<lparr>last_nudged_error_event_id := Some (ev_id err)\<rparr>,
         Inr (Some (action_error_nudge_text (act_tool_name (the (as_action a))) (th_action_error (thresholds d)) x))))"
    by (rule error_nudge_given[OF assms])
  let ?d = "d\<lparr>last_nudged_error_event_id := Some (ev_id err)\<rparr>"
  have "1 \<le> th_action_error (thresholds ?d)" "error_nudge_due window (th_action_error (thresholds ?d))" using assms by simp_all
  then obtain a2 b2 x2 where "get_action_error_nudge window ?d =
      (if Some (ev_id err) = last_nudged_error_event_id ?d then (?d, Inr None)
       else (?d\<lparr>last_nudged_error_event_id := Some (ev_id err)\<rparr>,
         Inr (Some (action_error_nudge_text (act_tool_name (the (as_action a2))) (th_action_error (thresholds ?d)) x2))))"
    by (rule error_nudge_given) (simp add: e)
  then show ?thesis using g by (simp add: Let_def)
qed

lemma events_since_snoc:
  assumes "\<not> from_user e"
  shows "events_since_last_user_message (w @ [e]) = events_since_last_user_message w @ [e]"
proof -
  have "find (\<lambda>i. from_user ((w @ [e]) ! i)) (rev [0..<length (w @ [e])]) =
      find (\<lambda>i. from_user ((w @ [e]) ! i)) (rev [0..<length w])" using assms by simp
  also have "\<dots> = find (\<lambda>i. from_user (w ! i)) (rev [0..<length w])"
    by (rule find_cong) (auto simp: nth_append)
  finally have f: "find (\<lambda>i. from_user ((w @ [e]) ! i)) (rev [0..<length (w @ [e])]) =
      find (\<lambda>i. from_user (w ! i)) (rev [0..<length w])" .
  show ?thesis
  proof (cases "find (\<lambda>i. from_user (w ! i)) (rev [0..<length w])")
    case (Some i)
    then have "i < length w" by (auto simp: find_Some_iff rev_nth)
    then show ?thesis unfolding events_since_last_user_message_def f Some by simp
  qed (simp only: events_since_last_user_message_def f option.case)
qed

lemma stuck_event_eq_action:
  assumes "ev_body e1 = ActionEvent a1"
  shows "stuck_event_eq e1 e2 \<longleftrightarrow> (\<exists>a2. ev_body e2 = ActionEvent a2 \<and> ev_source e1 = ev_source e2 \<and>
    thought a1 = thought a2 \<and> act_action a1 = act_action a2 \<and> act_tool_name a1 = act_tool_name a2)"
  using assms by (cases "ev_body e2") (auto simp: stuck_event_eq_def)

lemma error_pairs_tail:
  assumes a: "is_action a" and p: "error_pairs (a # acts) (r # obs) (Suc n)"
  shows "error_pairs acts obs n"
proof -
  obtain ad where ad: "ev_body a = ActionEvent ad" using a by (auto simp: is_action_def as_action_iff)
  have eq: "stuck_event_eq a (acts ! i)" "is_agent_error (ev_body (obs ! i))" if "i < n" for i
    using p that unfolding error_pairs_def by force+
  have "stuck_event_eq (acts ! 0) (acts ! i)" if "i < n" for i
  proof -
    have "0 < n" using that by simp
    from eq(1)[OF this] eq(1)[OF that] show ?thesis by (auto simp: stuck_event_eq_action ad)
  qed
  then show ?thesis using p eq(2) by (simp add: error_pairs_def)
qed

text \<open>
  No stop for repeated errors without a warning. Take a conversation that the next call and its
  result turn into one the detector stops for repeated errors, and that was not such before. Then
  just before that call the nudge is due: the loop's check emits it, or its last error is the one
  the previous nudge was about.
\<close>

theorem error_stop_after_nudge:
  fixes d :: stuck_detector
  defines "n \<equiv> th_action_error (thresholds d)"
  assumes "1 \<le> n" "is_action a" "is_obs r"
    and stop: "case collect_actions_and_observations (events_since_last_user_message (window @ [a, r])) (Suc n) of
      (acts, obs) \<Rightarrow> is_stuck_repeating_action_error d acts obs"
    and before: "case collect_actions_and_observations (events_since_last_user_message window) (Suc n) of
      (acts, obs) \<Rightarrow> \<not> is_stuck_repeating_action_error d acts obs"
  shows "(\<exists>nudge. snd (get_action_error_nudge window d) = Inr (Some nudge)) \<or>
    last_nudged_error_event_id d = Some (ev_id (hd (filter is_obs (rev (events_since_last_user_message window)))))"
proof -
  let ?es = "events_since_last_user_message window"
  let ?A = "filter is_action (rev ?es)" and ?O = "filter is_obs (rev ?es)"
  have fires: "is_stuck_repeating_action_error d (take (Suc n) acts) (take (Suc n) obs) \<longleftrightarrow> error_pairs acts obs (Suc n)"
    for acts obs
    unfolding is_stuck_repeating_action_error_def Suc_le_eq[symmetric] streak_ge n_def[symmetric]
    by (rule error_pairs_take) simp
  have u: "\<not> from_user a" "\<not> from_user r" using assms(3,4)
    by (cases "ev_body a"; cases "ev_body r"; simp add: from_user_def ev_simps)+
  have "events_since_last_user_message ((window @ [a]) @ [r]) = (?es @ [a]) @ [r]"
    unfolding events_since_snoc[OF u(2)] events_since_snoc[OF u(1)] ..
  moreover have "\<not> is_obs a" "\<not> is_action r" using is_action_not_obs assms(3,4) by blast+
  ultimately have "error_pairs (a # ?A) (r # ?O) (Suc n)"
    using stop assms(3,4) by (auto simp: collect_eq fires simp del: take_Suc_Cons)
  then have "error_pairs ?A ?O n" by (rule error_pairs_tail[OF assms(3)])
  moreover have "\<not> error_pairs ?A ?O (Suc n)" using before by (simp add: collect_eq fires)
  ultimately have due: "error_nudge_due window (th_action_error (thresholds d))"
    by (simp add: error_nudge_due_def Let_def n_def)
  from assms(2) have "1 \<le> th_action_error (thresholds d)" by (simp add: n_def)
  then obtain ac err b x where "hd ?O = err" "get_action_error_nudge window d =
      (if Some (ev_id err) = last_nudged_error_event_id d then (d, Inr None)
       else (d\<lparr>last_nudged_error_event_id := Some (ev_id err)\<rparr>,
         Inr (Some (action_error_nudge_text (act_tool_name (the (as_action ac))) (th_action_error (thresholds d)) x))))"
    using error_nudge_given[OF _ due] by blast
  then show ?thesis by (auto split: if_splits)
qed

lemma error_stop_after_nudge_witness:
  "let d = new_detector (Some (default_stuck_thresholds\<lparr>th_action_error := 1\<rparr>));
       w = [mk_action ''1'' ''c1'' ''r'' [], mk_error ''2'' ''c1'' ''x''] in
   (\<exists>nudge. snd (get_action_error_nudge w d) = Inr (Some nudge)) \<or>
    last_nudged_error_event_id d = Some (ev_id (hd (filter is_obs (rev (events_since_last_user_message w)))))"
proof -
  let ?d = "new_detector (Some (default_stuck_thresholds\<lparr>th_action_error := 1\<rparr>))"
  let ?w = "[mk_action ''1'' ''c1'' ''r'' [], mk_error ''2'' ''c1'' ''x'']"
  have "1 \<le> th_action_error (thresholds ?d)" "is_action (mk_action ''3'' ''c2'' ''r'' [])" "is_obs (mk_error ''4'' ''c2'' ''y'')"
    "case collect_actions_and_observations (events_since_last_user_message
        (?w @ [mk_action ''3'' ''c2'' ''r'' [], mk_error ''4'' ''c2'' ''y''])) (Suc (th_action_error (thresholds ?d))) of
      (acts, obs) \<Rightarrow> is_stuck_repeating_action_error ?d acts obs"
    "case collect_actions_and_observations (events_since_last_user_message ?w) (Suc (th_action_error (thresholds ?d))) of
      (acts, obs) \<Rightarrow> \<not> is_stuck_repeating_action_error ?d acts obs" by code_simp+
  from error_stop_after_nudge[OF this] show ?thesis unfolding Let_def .
qed

definition invalid_call :: "str \<Rightarrow> str \<Rightarrow> str \<Rightarrow> event" where
  "invalid_call i tool arguments = \<lparr>ev_id = i, ev_source = Src_Agent, ev_parent_id = None,
     ev_body = ActionEvent \<lparr>thought = [], reasoning_content = None, thinking_blocks = [], reasoning_item = None,
       act_action = None, act_tool_name = tool, act_tool_call_id = i,
       act_tool_call = \<lparr>tc_id = i, tc_name = tool, tc_arguments = arguments\<rparr>, llm_response_id = i\<rparr>\<rparr>"

text \<open>
  The error nudge can be false. For calls that did not validate (no action) neither the
  arguments nor the error texts are compared: three calls of a tool with any arguments and any
  errors lead to the nudge that says the same arguments gave the same error each time.
\<close>

theorem error_nudge_ignores_arguments:
  "snd (get_action_error_nudge
     [invalid_call ''1'' tool args1, mk_error ''2'' ''1'' err1, invalid_call ''3'' tool args2, mk_error ''4'' ''3'' err2,
      invalid_call ''5'' tool args3, mk_error ''6'' ''5'' err3] (new_detector None)) =
   Inr (Some (action_error_nudge_text tool 3 err3))"
proof -
  let ?W = "[invalid_call ''1'' tool args1, mk_error ''2'' ''1'' err1, invalid_call ''3'' tool args2, mk_error ''4'' ''3'' err2,
      invalid_call ''5'' tool args3, mk_error ''6'' ''5'' err3]"
  have u: "\<not> from_user (invalid_call i t x)" "\<not> from_user (mk_error i c x)" for i t c x
    by (simp_all add: from_user_def invalid_call_def mk_error_def)
  have "events_since_last_user_message ([] @ ?W) = ?W"
    by (simp add: events_since_last_user_message_def u upt_rec)
  then have es: "events_since_last_user_message ?W = ?W" by simp
  have o: "is_action (invalid_call i t x)" "\<not> is_obs (invalid_call i t x)"
    "is_obs (mk_error i c x)" "\<not> is_action (mk_error i c x)" for i t c x
    by (simp_all add: invalid_call_def mk_error_def ev_simps)
  have q: "stuck_event_eq (invalid_call i tool x) (invalid_call j tool y)" "is_agent_error (ev_body (mk_error i c x))" for i j c x y
    by (simp_all add: stuck_event_eq_def invalid_call_def mk_error_def)
  have t: "th_action_error (thresholds (new_detector None)) = 3" "last_nudged_error_event_id (new_detector None) = None"
    by (simp_all add: new_detector_def default_stuck_thresholds_def)
  have b: "ev_body (invalid_call i tool x) = ActionEvent (the (as_action (invalid_call i tool x)))"
    "act_tool_name (the (as_action (invalid_call i tool x))) = tool"
    "ev_body (mk_error i c x) = AgentErrorEvent \<lparr>obs_tool_name = ''terminal'', obs_tool_call_id = c\<rparr> x" for i c x
    by (simp_all add: invalid_call_def mk_error_def as_action_def)
  have st: "action_error_streak (take (3 + 1) (filter is_action (rev ?W))) (take (3 + 1) (filter is_obs (rev ?W))) = 3"
    by (simp add: o action_error_streak_def q)
  show ?thesis
    unfolding get_action_error_nudge_def Let_def es t collect_eq case_prod_conv st
    by (simp add: o b)
qed

text \<open>
  A tool call can crash the loop's check. When the newest call of a streak of non-editing steps
  is a \<open>file_editor\<close> call whose \<open>command\<close> is a JSON array or object, which fails validation but stays
  in the event log, testing it for membership in the set of editing commands raises \<open>TypeError\<close>,
  and so does the check of the run loop.
\<close>

theorem unhashable_command_crashes:
  assumes "1 \<le> th_no_progress_actions (thresholds d)"
    "th_no_progress_actions (thresholds d) \<le> length (filter is_action (rev (events_since_last_user_message window)))"
    "hd (filter is_action (rev (events_since_last_user_message window))) = invalid_call i ''file_editor'' args"
    "args \<noteq> ''''" "json_loads args = Some (JObject [(''command'', JUnhashable)])"
  shows "get_no_progress_nudge json_loads window d = (d, Inl (TypeError ''unhashable type''))"
proof -
  let ?A = "filter is_action (rev (events_since_last_user_message window))" and ?n = "th_no_progress_actions (thresholds d)"
  obtain a A' where A: "?A = a # A'" using assms(1,2) by (cases ?A) auto
  then have a: "a = invalid_call i ''file_editor'' args" using assms(3) by simp
  obtain m where m: "?n = Suc m" using assms(1) by (cases ?n) auto
  have "any_progress json_loads (take ?n ?A) = Inl (TypeError ''unhashable type'')"
    using assms(4,5) by (simp add: A m a invalid_call_def as_action_def action_shows_code_progress_def)
  moreover have "\<not> length (take ?n ?A) < ?n" using assms(2) by simp
  ultimately show ?thesis using assms(1)
    by (simp add: get_no_progress_nudge_def Let_def collect_eq m)
qed

lemma unhashable_command_crashes_witness:
  "let d = new_detector (Some (default_stuck_thresholds\<lparr>th_no_progress_actions := 1\<rparr>)) in
   get_no_progress_nudge (\<lambda>_. Some (JObject [(''command'', JUnhashable)]))
     [invalid_call ''1'' ''file_editor'' ''{}'', mk_error ''2'' ''1'' ''x''] d = (d, Inl (TypeError ''unhashable type''))"
proof -
  let ?d = "new_detector (Some (default_stuck_thresholds\<lparr>th_no_progress_actions := 1\<rparr>))"
  let ?w = "[invalid_call ''1'' ''file_editor'' ''{}'', mk_error ''2'' ''1'' ''x'']"
  have h: "1 \<le> th_no_progress_actions (thresholds ?d)"
    "th_no_progress_actions (thresholds ?d) \<le> length (filter is_action (rev (events_since_last_user_message ?w)))"
    "hd (filter is_action (rev (events_since_last_user_message ?w))) = invalid_call ''1'' ''file_editor'' ''{}''"
    by code_simp+
  show ?thesis unfolding Let_def
    by (rule unhashable_command_crashes[OF h]) simp_all
qed

end
