(* ===== verification/Conversation_State.thy ===== *)
theory Conversation_State
  imports Event_Store View
begin

text \<open>
  \<open>sdk/conversation/state.py\<close>: the state of a conversation over its event log. It keeps HEAD (the leaf
  of the active branch), caches the view of that branch, and writes the base state after changes of
  public fields, at most once per \<open>with\<close> block.

  The record holds the file store, the log, the public fields the code branches on (the rest are
  serialised texts by name) and the private attributes. The serialisers are arguments, collected
  in \<open>conv_env\<close> with the file operations and what the write guard does. The lock of the \<open>with\<close> block is
  the one of \<^theory_text>\<open>Fifo_Lock\<close>; the callback for state changes is represented by the names of the
  fields it was called for. Operations that end in an exception return the state they leave, the
  caches of the store and the log excepted. A result \<^const>\<open>None\<close> stands for more rounds of a loop
  than its fuel.
\<close>

section \<open>State\<close>

datatype execution_status = IDLE | RUNNING | PAUSED | WAITING_FOR_CONFIRMATION | FINISHED | ERROR | STUCK | DELETING

definition is_terminal :: "execution_status \<Rightarrow> bool" where
  "is_terminal s \<longleftrightarrow> s \<in> {FINISHED, ERROR, STUCK}"

record base_state =
  exec_status :: execution_status
  blocked_actions :: "(str, str) dict"
  blocked_messages :: "(str, str) dict"
  last_user_message_id :: "str option"
  leaf_event_id :: "str option"
  head_is_empty :: bool
  other_fields :: "(str, str) dict"

record 's conv =
  cs_fs :: 's
  cs_log :: event_log
  cs_base :: base_state
  cs_view :: view
  cs_view_leaf :: "str option"
  cs_autosave :: bool
  cs_callback :: bool
  cs_notified :: "str list"
  cs_save_depth :: int
  cs_dirty :: bool

record 's conv_env =
  ce_ops :: "'s fs_ops"
  ce_dump :: "event \<Rightarrow> str"
  ce_load :: "str \<Rightarrow> py_exc + event"
  ce_dump_base :: "base_state \<Rightarrow> str"
  ce_guard :: "py_exc option"

definition base_state_file :: str where
  "base_state_file = ''base_state.json''"

section \<open>Saving the base state\<close>

definition save_base_state :: "'s conv_env \<Rightarrow> 's conv \<Rightarrow> py_exc + 's conv" where
  "save_base_state env st =
     (case ce_guard env of
        Some e \<Rightarrow> Inl e
      | None \<Rightarrow> rbind (op_write (ce_ops env) base_state_file (ce_dump_base env (cs_base st)) (cs_fs st))
          (\<lambda>s. Inr (st\<lparr>cs_fs := s\<rparr>)))"

text \<open>
  \<open>__setattr__\<close> for the public field \<open>name\<close>, which \<open>upd\<close> assigns. The state-change callback is a function
  of the client; its calls are recorded in \<open>cs_notified\<close>, and \<open>set_attr_published\<close> is the assignment with
  the callback of the agent server.
\<close>

definition set_attr :: "'s conv_env \<Rightarrow> str \<Rightarrow> (base_state \<Rightarrow> base_state) \<Rightarrow> 's conv \<Rightarrow> 's conv \<times> py_exc option" where
  "set_attr env name upd st =
     (let old = cs_base st; st1 = st\<lparr>cs_base := upd old\<rparr> in
      if \<not> cs_autosave st then (st1, None)
      else if upd old = old then (st1, None)
      else
        case (if cs_save_depth st1 > 0 then Inr (st1\<lparr>cs_dirty := True\<rparr>) else save_base_state env st1) of
          Inl e \<Rightarrow> (st1, Some e)
        | Inr st2 \<Rightarrow>
            (if cs_callback st2 \<and> name \<notin> {''leaf_event_id'', ''head_is_empty''}
             then st2\<lparr>cs_notified := cs_notified st2 @ [name]\<rparr> else st2, None))"

definition state_enter :: "'s conv \<Rightarrow> 's conv" where
  "state_enter st = st\<lparr>cs_save_depth := cs_save_depth st + 1\<rparr>"

definition state_exit :: "'s conv_env \<Rightarrow> 's conv \<Rightarrow> 's conv \<times> py_exc option" where
  "state_exit env st =
     (let st1 = st\<lparr>cs_save_depth := cs_save_depth st - 1\<rparr> in
      if cs_save_depth st1 = 0 \<and> cs_dirty st1 then
        (if cs_autosave st1 then
           (case save_base_state env st1 of
              Inl e \<Rightarrow> (st1, Some e)
            | Inr st2 \<Rightarrow> (st2\<lparr>cs_dirty := False\<rparr>, None))
         else (st1\<lparr>cs_dirty := False\<rparr>, None))
      else (st1, None))"

definition block_action :: "'s conv_env \<Rightarrow> str \<Rightarrow> str \<Rightarrow> 's conv \<Rightarrow> 's conv \<times> py_exc option" where
  "block_action env action_id reason =
     set_attr env ''blocked_actions'' (\<lambda>b. b\<lparr>blocked_actions := dict_put action_id reason (blocked_actions b)\<rparr>)"

definition pop_blocked_action :: "'s conv_env \<Rightarrow> str \<Rightarrow> 's conv \<Rightarrow> 's conv \<times> (py_exc + str option)" where
  "pop_blocked_action env action_id st =
     (case dict_get (blocked_actions (cs_base st)) action_id of
        None \<Rightarrow> (st, Inr None)
      | Some reason \<Rightarrow>
          (case set_attr env ''blocked_actions'' (\<lambda>b. b\<lparr>blocked_actions := dict_del action_id (blocked_actions b)\<rparr>) st of
             (st1, Some e) \<Rightarrow> (st1, Inl e)
           | (st1, None) \<Rightarrow> (st1, Inr (Some reason))))"

definition block_message :: "'s conv_env \<Rightarrow> str \<Rightarrow> str \<Rightarrow> 's conv \<Rightarrow> 's conv \<times> py_exc option" where
  "block_message env message_id reason =
     set_attr env ''blocked_messages'' (\<lambda>b. b\<lparr>blocked_messages := dict_put message_id reason (blocked_messages b)\<rparr>)"

definition pop_blocked_message :: "'s conv_env \<Rightarrow> str \<Rightarrow> 's conv \<Rightarrow> 's conv \<times> (py_exc + str option)" where
  "pop_blocked_message env message_id st =
     (case dict_get (blocked_messages (cs_base st)) message_id of
        None \<Rightarrow> (st, Inr None)
      | Some reason \<Rightarrow>
          (case set_attr env ''blocked_messages'' (\<lambda>b. b\<lparr>blocked_messages := dict_del message_id (blocked_messages b)\<rparr>) st of
             (st1, Some e) \<Rightarrow> (st1, Inl e)
           | (st1, None) \<Rightarrow> (st1, Inr (Some reason))))"

section \<open>The active branch\<close>

definition get_item :: "'s conv_env \<Rightarrow> nat \<Rightarrow> 's conv \<Rightarrow> py_exc + event \<times> 's conv" where
  "get_item env i st =
     rbind (get_single_item (ce_ops env) (ce_load env) (int i) (cs_fs st) (cs_log st))
       (\<lambda>(e, s, l). Inr (e, st\<lparr>cs_fs := s, cs_log := l\<rparr>))"

definition is_artifact :: "event \<Rightarrow> bool" where
  "is_artifact e \<longleftrightarrow> (case ev_body e of ConversationStateUpdateEvent _ _ \<Rightarrow> True
     | ConversationErrorEvent _ _ \<Rightarrow> True | _ \<Rightarrow> False)"

fun last_real_event :: "'s conv_env \<Rightarrow> nat \<Rightarrow> 's conv \<Rightarrow> py_exc + str option \<times> 's conv" where
  "last_real_event env 0 st = Inr (None, st)"
| "last_real_event env (Suc i) st =
     rbind (get_item env i st) (\<lambda>(e, st1).
     if \<not> is_artifact e then rbind (get_id (int i) (cs_log st1)) (\<lambda>eid. Inr (Some eid, st1))
     else last_real_event env i st1)"

definition resolve_active_leaf :: "'s conv_env \<Rightarrow> 's conv \<Rightarrow> py_exc + str option \<times> 's conv" where
  "resolve_active_leaf env st =
     (case leaf_event_id (cs_base st) of
        Some l \<Rightarrow> Inr (Some l, st)
      | None \<Rightarrow>
          if head_is_empty (cs_base st) then Inr (None, st)
          else if el_length (cs_log st) = 0 then Inr (None, st)
          else last_real_event env (el_length (cs_log st)) st)"

text \<open>A walk adds a known identifier to the chain per round and stops at the limit.\<close>

definition branch_fuel :: "int option \<Rightarrow> 's conv \<Rightarrow> nat" where
  "branch_fuel limit st = Suc (max (case limit of None \<Rightarrow> 0 | Some l \<Rightarrow> nat l) (length (el_id_to_idx (cs_log st))))"

definition branch_to :: "'s conv_env \<Rightarrow> str option \<Rightarrow> int option \<Rightarrow> 's conv \<Rightarrow> (py_exc + event list \<times> 's conv) option" where
  "branch_to env leaf limit st =
     (case path_to_root (branch_fuel limit st) (ce_ops env) (ce_load env) leaf limit (cs_fs st) (cs_log st) of
        None \<Rightarrow> None
      | Some (Inl e) \<Rightarrow> Some (Inl e)
      | Some (Inr (es, s, l)) \<Rightarrow> Some (Inr (es, st\<lparr>cs_fs := s, cs_log := l\<rparr>)))"

definition active_branch :: "'s conv_env \<Rightarrow> int option \<Rightarrow> 's conv \<Rightarrow> (py_exc + event list \<times> 's conv) option" where
  "active_branch env limit st =
     (case resolve_active_leaf env st of
        Inl e \<Rightarrow> Some (Inl e)
      | Inr (leaf, st1) \<Rightarrow> branch_to env leaf limit st1)"

definition stamp_parent_id :: "'s conv_env \<Rightarrow> event \<Rightarrow> 's conv \<Rightarrow> py_exc + event \<times> 's conv" where
  "stamp_parent_id env e st =
     (if ev_parent_id e \<noteq> None then Inr (e, st)
      else rbind (resolve_active_leaf env st) (\<lambda>(parent, st1).
        let parent' = (if parent = None \<and> el_length (cs_log st1) > 0 then Some root_parent_id else parent)
        in Inr (e\<lparr>ev_parent_id := parent'\<rparr>, st1)))"

definition is_state_update :: "event \<Rightarrow> bool" where
  "is_state_update e \<longleftrightarrow> (case ev_body e of ConversationStateUpdateEvent _ _ \<Rightarrow> True | _ \<Rightarrow> False)"

definition conv_append_event :: "'s conv_env \<Rightarrow> event \<Rightarrow> 's conv \<Rightarrow> 's conv \<times> (py_exc + nat)" where
  "conv_append_event env e0 st =
     (case stamp_parent_id env e0 st of
        Inl x \<Rightarrow> (st, Inl x)
      | Inr (e, st1) \<Rightarrow>
          (case log_append (ce_ops env) (ce_dump env) (ce_guard env) e (cs_fs st1) (cs_log st1) of
             Inl x \<Rightarrow> (st1, Inl x)
           | Inr (n, s, l) \<Rightarrow>
               let st2 = st1\<lparr>cs_fs := s, cs_log := l\<rparr> in
               if is_state_update e then (st2, Inr n)
               else case set_attr env ''leaf_event_id'' (\<lambda>b. b\<lparr>leaf_event_id := Some (ev_id e)\<rparr>) st2 of
                 (st3, Some x) \<Rightarrow> (st3, Inl x)
               | (st3, None) \<Rightarrow>
                   if head_is_empty (cs_base st3) then
                     (case set_attr env ''head_is_empty'' (\<lambda>b. b\<lparr>head_is_empty := False\<rparr>) st3 of
                        (st4, Some x) \<Rightarrow> (st4, Inl x)
                      | (st4, None) \<Rightarrow> (st4, Inr n))
                   else (st3, Inr n)))"

text \<open>
  The agent server registers \<open>_on_event\<close> of the conversation as the state-change callback
  (\<open>event_service.py\<close>): after an assignment of which it is told, the update, \<open>update_event\<close> with a new
  id, is appended to the log. Exceptions of the callback are logged and dropped.
\<close>

definition set_attr_published ::
    "'s conv_env \<Rightarrow> (str \<Rightarrow> base_state \<Rightarrow> event) \<Rightarrow> str \<Rightarrow> (base_state \<Rightarrow> base_state) \<Rightarrow> 's conv \<Rightarrow> 's conv \<times> py_exc option" where
  "set_attr_published env update_event name upd st =
     (case set_attr env name upd st of
        (st1, Some e) \<Rightarrow> (st1, Some e)
      | (st1, None) \<Rightarrow>
          if cs_notified st1 = cs_notified st then (st1, None)
          else (fst (conv_append_event env (update_event name (cs_base st1)) st1), None))"

text \<open>A walk with a limit always ends, whatever the log holds.\<close>

lemma path_loop_limit_ends: "nat l - length chain < fuel \<Longrightarrow> path_loop fuel F load (Some l) cur seen chain s log \<noteq> None"
proof (induction fuel F load "Some l" cur seen chain s log rule: path_loop.induct)
  case (3 fuel F load cur seen chain s log)
  show ?case
  proof (cases "int (length chain) < l \<and> cur \<notin> set seen")
    case True
    then have "nat l - length (e # chain) < fuel" for e using "3.prems" by (simp; linarith)
    then show ?thesis using True "3.hyps" by (auto split: sum.splits)
  qed auto
qed simp_all

lemma active_branch_limit_ends: "active_branch env (Some l) st \<noteq> None"
proof (cases "resolve_active_leaf env st")
  case (Inr p)
  obtain leaf st1 where p: "p = (leaf, st1)" by fastforce
  have "path_to_root (branch_fuel (Some l) st1) (ce_ops env) (ce_load env) leaf (Some l) (cs_fs st1) (cs_log st1) \<noteq> None"
    unfolding path_to_root_def by (rule path_loop_limit_ends) (simp add: branch_fuel_def)
  then show ?thesis using Inr p by (auto simp: active_branch_def branch_to_def split: sum.splits)
qed (simp add: active_branch_def)

section \<open>The cached view\<close>

text \<open>The tail is collected from the new leaf back to the cached one, newest first.\<close>

fun tail_loop :: "nat \<Rightarrow> 's conv_env \<Rightarrow> str option \<Rightarrow> event list \<Rightarrow> 's conv \<Rightarrow>
    (py_exc + str option \<times> event list \<times> 's conv) option" where
  "tail_loop fuel env None tail st = Some (Inr (None, tail, st))"
| "tail_loop 0 env (Some cur) tail st = (if Some cur = cs_view_leaf st then Some (Inr (Some cur, tail, st)) else None)"
| "tail_loop (Suc fuel) env (Some cur) tail st =
     (if Some cur = cs_view_leaf st then Some (Inr (Some cur, tail, st))
      else case rbind (get_index cur (cs_log st)) (\<lambda>idx.
                rbind (get_item env idx st) (\<lambda>(evt, st1).
                rbind (effective_parent_id idx evt (cs_log st1)) (\<lambda>parent. Inr (evt, parent, st1)))) of
          Inl e \<Rightarrow> Some (Inl e)
        | Inr (evt, parent, st1) \<Rightarrow> tail_loop fuel env parent (tail @ [evt]) st1)"

definition rebuild_at :: "'s conv_env \<Rightarrow> str option \<Rightarrow> 's conv \<Rightarrow> (py_exc + view \<times> 's conv) option" where
  "rebuild_at env leaf st =
     (case branch_to env leaf None st of
        None \<Rightarrow> None
      | Some (Inl e) \<Rightarrow> Some (Inl e)
      | Some (Inr (branch, st1)) \<Rightarrow>
          Some (rbind (from_events branch) (\<lambda>v. Inr (v, st1\<lparr>cs_view := v, cs_view_leaf := leaf\<rparr>))))"

definition conv_view :: "'s conv_env \<Rightarrow> 's conv \<Rightarrow> (py_exc + view \<times> 's conv) option" where
  "conv_view env st =
     (case resolve_active_leaf env st of
        Inl e \<Rightarrow> Some (Inl e)
      | Inr (leaf, st1) \<Rightarrow>
          if leaf = cs_view_leaf st1 then Some (Inr (cs_view st1, st1))
          else case tail_loop (Suc (length (el_id_to_idx (cs_log st1)))) env leaf [] st1 of
            None \<Rightarrow> None
          | Some (Inl _) \<Rightarrow> rebuild_at env leaf st1
          | Some (Inr (cur, tail, st2)) \<Rightarrow>
              if cur = cs_view_leaf st2 then
                (case append_events (cs_view st2) (rev tail) of
                   Inr v \<Rightarrow> Some (Inr (v, st2\<lparr>cs_view := v, cs_view_leaf := leaf\<rparr>))
                 | Inl _ \<Rightarrow> rebuild_at env leaf st2)
              else rebuild_at env leaf st2)"

definition rebuild_view :: "'s conv_env \<Rightarrow> 's conv \<Rightarrow> (py_exc + view \<times> 's conv) option" where
  "rebuild_view env st =
     (case resolve_active_leaf env st of
        Inl e \<Rightarrow> Some (Inl e)
      | Inr (leaf, st1) \<Rightarrow> rebuild_at env leaf st1)"

definition enforced_view_snapshot :: "'s conv_env \<Rightarrow> 's conv \<Rightarrow> (py_exc + view \<times> 's conv) option" where
  "enforced_view_snapshot env st =
     (case conv_view env st of
        None \<Rightarrow> None
      | Some (Inl e) \<Rightarrow> Some (Inl e)
      | Some (Inr (v, st1)) \<Rightarrow> Some (rbind (from_events (events v)) (\<lambda>v'. Inr (v', st1))))"

section \<open>Pending actions\<close>

fun observed_action_id :: "event_body \<Rightarrow> str option" where
  "observed_action_id (ObservationEvent _ d) = Some (obs_action_id d)"
| "observed_action_id (UserRejectObservation _ _ action_id) = Some action_id"
| "observed_action_id _ = None"

fun unmatched_from :: "event list \<Rightarrow> str set \<Rightarrow> str set \<Rightarrow> event list \<Rightarrow> event list" where
  "unmatched_from [] action_ids call_ids pending = pending"
| "unmatched_from (e # es) action_ids call_ids pending =
     (case observed_action_id (ev_body e) of
        Some a \<Rightarrow> unmatched_from es (insert a action_ids) call_ids pending
      | None \<Rightarrow>
          (case ev_body e of
             AgentErrorEvent b _ \<Rightarrow> unmatched_from es action_ids (insert (obs_tool_call_id b) call_ids) pending
           | ActionEvent a \<Rightarrow>
               unmatched_from es action_ids call_ids
                 (if act_action a \<noteq> None \<and> ev_id e \<notin> action_ids \<and> act_tool_call_id a \<notin> call_ids
                  then e # pending else pending)
           | _ \<Rightarrow> unmatched_from es action_ids call_ids pending))"

definition get_unmatched_actions :: "event list \<Rightarrow> event list" where
  "get_unmatched_actions es = unmatched_from (rev es) {} {} []"

fun error_call_id :: "event_body \<Rightarrow> str option" where
  "error_call_id (AgentErrorEvent b _) = Some (obs_tool_call_id b)"
| "error_call_id _ = None"

text \<open>An event answers an action by its id or, for an error, by the tool call.\<close>

definition answers :: "event \<Rightarrow> event \<Rightarrow> bool" where
  "answers x e \<longleftrightarrow> observed_action_id (ev_body x) = Some (ev_id e) \<or>
     (\<exists>a. as_action e = Some a \<and> error_call_id (ev_body x) = Some (act_tool_call_id a))"

definition executable_action :: "event \<Rightarrow> bool" where
  "executable_action e \<longleftrightarrow> (\<exists>a. as_action e = Some a \<and> act_action a \<noteq> None)"

lemma unmatched_from_snoc:
  "unmatched_from (xs @ [e]) A C U =
     (let U' = unmatched_from xs A C U;
          A' = A \<union> {i. \<exists>x \<in> set xs. observed_action_id (ev_body x) = Some i};
          C' = C \<union> {i. \<exists>x \<in> set xs. error_call_id (ev_body x) = Some i} in
      case as_action e of
        Some a \<Rightarrow> if act_action a \<noteq> None \<and> ev_id e \<notin> A' \<and> act_tool_call_id a \<notin> C' then e # U' else U'
      | None \<Rightarrow> U')"
proof (induction xs arbitrary: A C U)
  case Nil
  then show ?case by (cases "ev_body e") (auto simp: as_action_def Let_def)
next
  case (Cons x xs)
  have "insert i A \<union> S = A \<union> insert i S" for i :: str and A S by auto
  then show ?case
    by (cases "ev_body x") (auto simp: Cons.IH Let_def split: option.split)
qed

text \<open>
  The pending actions. \<open>get_unmatched_actions\<close> returns, in order, exactly the executable actions
  that no later event of the list answers: an observation or a rejection of that action, or an
  error for its tool call.
\<close>

theorem unmatched_actions_pending:
  "get_unmatched_actions es =
     nths es {i. executable_action (es ! i) \<and> (\<forall>j. \<not> (i < j \<and> j < length es \<and> answers (es ! j) (es ! i)))}"
proof (induction es)
  case (Cons e es)
  let ?I = "{i. executable_action (es ! i) \<and> (\<forall>j. \<not> (i < j \<and> j < length es \<and> answers (es ! j) (es ! i)))}"
  let ?J = "{i. executable_action ((e # es) ! i) \<and> (\<forall>j. \<not> (i < j \<and> j < length (e # es) \<and> answers ((e # es) ! j) ((e # es) ! i)))}"
  have later: "(\<forall>j. \<not> (Suc i < j \<and> j < Suc (length es) \<and> answers ((e # es) ! j) (es ! i))) \<longleftrightarrow>
      (\<forall>j. \<not> (i < j \<and> j < length es \<and> answers (es ! j) (es ! i)))" for i
  proof
    assume h: "\<forall>j. \<not> (Suc i < j \<and> j < Suc (length es) \<and> answers ((e # es) ! j) (es ! i))"
    show "\<forall>j. \<not> (i < j \<and> j < length es \<and> answers (es ! j) (es ! i))"
    proof
      fix j show "\<not> (i < j \<and> j < length es \<and> answers (es ! j) (es ! i))" using h[THEN spec, of "Suc j"] by simp
    qed
  next
    assume h: "\<forall>j. \<not> (i < j \<and> j < length es \<and> answers (es ! j) (es ! i))"
    show "\<forall>j. \<not> (Suc i < j \<and> j < Suc (length es) \<and> answers ((e # es) ! j) (es ! i))"
    proof
      fix j show "\<not> (Suc i < j \<and> j < Suc (length es) \<and> answers ((e # es) ! j) (es ! i))" using h by (cases j) auto
    qed
  qed
  have shift: "{i. Suc i \<in> ?J} = ?I"
    unfolding mem_Collect_eq nth_Cons_Suc length_Cons later ..
  have "(\<forall>j. \<not> (0 < j \<and> j < length (e # es) \<and> answers ((e # es) ! j) ((e # es) ! 0))) \<longleftrightarrow> (\<forall>x \<in> set es. \<not> answers x e)"
  proof
    assume h: "\<forall>j. \<not> (0 < j \<and> j < length (e # es) \<and> answers ((e # es) ! j) ((e # es) ! 0))"
    show "\<forall>x \<in> set es. \<not> answers x e"
    proof
      fix x assume "x \<in> set es"
      then obtain j where "j < length es" "es ! j = x" by (auto simp: in_set_conv_nth)
      then show "\<not> answers x e" using h[THEN spec, of "Suc j"] by simp
    qed
  next
    assume h: "\<forall>x \<in> set es. \<not> answers x e"
    show "\<forall>j. \<not> (0 < j \<and> j < length (e # es) \<and> answers ((e # es) ! j) ((e # es) ! 0))"
    proof
      fix j show "\<not> (0 < j \<and> j < length (e # es) \<and> answers ((e # es) ! j) ((e # es) ! 0))"
        using h by (cases j) simp_all
    qed
  qed
  then have here: "0 \<in> ?J \<longleftrightarrow> executable_action e \<and> (\<forall>x \<in> set es. \<not> answers x e)"
    unfolding mem_Collect_eq nth_Cons_0 by (simp only:)
  have "get_unmatched_actions (e # es) = (if executable_action e \<and> (\<forall>x \<in> set es. \<not> answers x e) then [e] else []) @ get_unmatched_actions es"
    by (auto simp: get_unmatched_actions_def unmatched_from_snoc Let_def executable_action_def answers_def split: option.split)
  then show ?case unfolding nths_Cons shift here Cons.IH by simp
qed (simp add: get_unmatched_actions_def)

section \<open>The base state on disk\<close>

text \<open>
  The state can be saved and, unless changes are pending in a block, the file is the current one.
\<close>

definition base_saved :: "local_store conv_env \<Rightarrow> local_store conv \<Rightarrow> bool" where
  "base_saved env st \<longleftrightarrow> ce_ops env = local_ops \<and> ce_guard env = None \<and> store_inv (cs_fs st) \<and>
     \<not> below (dom (local_files (cs_fs st))) base_state_file \<and> \<not> under (dom (local_files (cs_fs st))) base_state_file \<and>
     cs_autosave st \<and> 0 \<le> cs_save_depth st \<and>
     (if cs_dirty st then 0 < cs_save_depth st
      else local_files (cs_fs st) base_state_file = Some (ce_dump_base env (cs_base st)))"

lemma plain_base_file: "plain_path base_state_file"
  by code_simp

lemma base_file_self: "\<not> py_startswith base_state_file (base_state_file @ [slash])"
  by (auto simp: py_startswith_iff dest: arg_cong[where f = length])

lemma save_base_state_ok:
  assumes "ce_ops env = local_ops" "ce_guard env = None" "store_inv (cs_fs st)"
    "\<not> below (dom (local_files (cs_fs st))) base_state_file" "\<not> under (dom (local_files (cs_fs st))) base_state_file"
    "local_fits (cs_fs st) (ce_dump_base env (cs_base st))"
  obtains s where "save_base_state env st = Inr (st\<lparr>cs_fs := s\<rparr>)" "store_inv s"
    "local_files s = (local_files (cs_fs st))(base_state_file \<mapsto> ce_dump_base env (cs_base st))" "local_fits s = local_fits (cs_fs st)"
    "\<not> below (dom (local_files s)) base_state_file" "\<not> under (dom (local_files s)) base_state_file"
proof -
  from local_fs.write_law[OF assms(3) plain_base_file assms(6,4,5)] obtain s where
    s: "lru_write base_state_file (ce_dump_base env (cs_base st)) (cs_fs st) = Inr s" "store_inv s"
      "local_files s = (local_files (cs_fs st))(base_state_file \<mapsto> ce_dump_base env (cs_base st))" "local_fits s = local_fits (cs_fs st)"
    by blast
  have "save_base_state env st = Inr (st\<lparr>cs_fs := s\<rparr>)"
    using assms(1,2) s(1) by (simp add: save_base_state_def local_ops_def)
  moreover have "\<not> below (dom (local_files s)) base_state_file" "\<not> under (dom (local_files s)) base_state_file"
    using assms(4,5) base_file_self unfolding s(3) below_def under_def by auto
  ultimately show ?thesis using that s by blast
qed

lemma set_attr_in_block:
  assumes "cs_autosave st" "0 < cs_save_depth st"
  shows "set_attr env name upd st = (if upd (cs_base st) = cs_base st then st else
     st\<lparr>cs_base := upd (cs_base st), cs_dirty := True,
        cs_notified := cs_notified st @ (if cs_callback st \<and> name \<notin> {''leaf_event_id'', ''head_is_empty''} then [name] else [])\<rparr>, None)"
  using assms by (simp add: set_attr_def Let_def)

lemma set_attr_in_block_fields:
  assumes "cs_autosave st" "0 < cs_save_depth st"
  obtains st' where "set_attr env name upd st = (st', None)" "cs_fs st' = cs_fs st" "cs_log st' = cs_log st"
    "cs_base st' = upd (cs_base st)" "cs_autosave st'" "0 < cs_save_depth st'"
proof (cases "upd (cs_base st) = cs_base st")
  case True
  then show ?thesis using that[of st] assms by (simp add: set_attr_in_block)
next
  case False
  then show ?thesis using that[of "fst (set_attr env name upd st)"] assms by (simp add: set_attr_in_block)
qed

lemma base_saved_set_attr:
  assumes "base_saved env st" "0 < cs_save_depth st"
  shows "snd (set_attr env name upd st) = None \<and> base_saved env (fst (set_attr env name upd st)) \<and>
    cs_base (fst (set_attr env name upd st)) = upd (cs_base st) \<and>
    cs_save_depth (fst (set_attr env name upd st)) = cs_save_depth st \<and>
    cs_fs (fst (set_attr env name upd st)) = cs_fs st"
  using assms by (simp add: base_saved_def set_attr_in_block)

text \<open>A \<open>with\<close> block that makes a list of assignments.\<close>

fun assign_all :: "'s conv_env \<Rightarrow> (str \<times> (base_state \<Rightarrow> base_state)) list \<Rightarrow> 's conv \<Rightarrow> 's conv \<times> py_exc option" where
  "assign_all env [] st = (st, None)"
| "assign_all env ((name, upd) # us) st =
     (case set_attr env name upd st of
        (st1, Some e) \<Rightarrow> (st1, Some e)
      | (st1, None) \<Rightarrow> assign_all env us st1)"

definition with_state :: "'s conv_env \<Rightarrow> (str \<times> (base_state \<Rightarrow> base_state)) list \<Rightarrow> 's conv \<Rightarrow> 's conv \<times> py_exc option" where
  "with_state env us st =
     (case assign_all env us (state_enter st) of
        (st1, r) \<Rightarrow> (case state_exit env st1 of (st2, Some e) \<Rightarrow> (st2, Some e) | (st2, None) \<Rightarrow> (st2, r)))"

lemma base_saved_assign_all:
  "base_saved env st \<Longrightarrow> 0 < cs_save_depth st \<Longrightarrow>
     snd (assign_all env us st) = None \<and> base_saved env (fst (assign_all env us st)) \<and>
     cs_base (fst (assign_all env us st)) = foldl (\<lambda>b (name, upd). upd b) (cs_base st) us \<and>
     cs_save_depth (fst (assign_all env us st)) = cs_save_depth st \<and>
     cs_fs (fst (assign_all env us st)) = cs_fs st"
proof (induction env us st rule: assign_all.induct)
  case (2 env name upd us st)
  obtain st1 r where a: "set_attr env name upd st = (st1, r)" by force
  note s = base_saved_set_attr[OF "2.prems", of name upd, unfolded a fst_conv snd_conv]
  then have "r = None" by blast
  then show ?case using "2.IH"[OF a[symmetric, unfolded \<open>r = None\<close>] refl] s a "2.prems"(2) by (simp add: \<open>r = None\<close>)
qed simp

lemma base_saved_exit:
  assumes "base_saved env st" "0 < cs_save_depth st" "local_fits (cs_fs st) (ce_dump_base env (cs_base st))"
  shows "snd (state_exit env st) = None \<and> base_saved env (fst (state_exit env st)) \<and>
    cs_base (fst (state_exit env st)) = cs_base st \<and> cs_save_depth (fst (state_exit env st)) = cs_save_depth st - 1 \<and>
    (\<forall>p. p \<noteq> base_state_file \<longrightarrow> local_files (cs_fs (fst (state_exit env st))) p = local_files (cs_fs st) p)"
proof (cases "cs_save_depth st - 1 = 0 \<and> cs_dirty st")
  case True
  note b = assms(1)[unfolded base_saved_def]
  let ?st = "st\<lparr>cs_save_depth := cs_save_depth st - 1\<rparr>"
  obtain s where s: "save_base_state env ?st = Inr (?st\<lparr>cs_fs := s\<rparr>)" "store_inv s"
    "local_files s = (local_files (cs_fs ?st))(base_state_file \<mapsto> ce_dump_base env (cs_base ?st))" "local_fits s = local_fits (cs_fs ?st)"
    "\<not> below (dom (local_files s)) base_state_file" "\<not> under (dom (local_files s)) base_state_file"
    by (rule save_base_state_ok[of env ?st]) (use b assms(3) in simp_all)
  then show ?thesis using b True by (simp add: state_exit_def base_saved_def)
next
  case False
  then show ?thesis using assms by (auto simp: state_exit_def base_saved_def)
qed

text \<open>
  C32: a block saves once and loses nothing. When no state-change callback is registered, a \<open>with\<close>
  block on the state that makes any assignments writes nothing to the file store before its exit,
  raises nothing, leaves every other file as it is, and after the outermost block \<open>base_state.json\<close>
  holds the state with all the assignments. (What the callback of the agent server writes at an
  assignment is \<open>published_update\<close>.)
\<close>

theorem block_saves_once:
  assumes "base_saved env st" "\<not> cs_callback st" "local_fits (cs_fs st) (ce_dump_base env (foldl (\<lambda>b (name, upd). upd b) (cs_base st) us))"
  shows "case with_state env us st of (st', r) \<Rightarrow>
    r = None \<and> base_saved env st' \<and> cs_fs (fst (assign_all env us (state_enter st))) = cs_fs st \<and>
    cs_base st' = foldl (\<lambda>b (name, upd). upd b) (cs_base st) us \<and> cs_save_depth st' = cs_save_depth st \<and>
    (\<forall>p. p \<noteq> base_state_file \<longrightarrow> local_files (cs_fs st') p = local_files (cs_fs st) p) \<and>
    (cs_save_depth st = 0 \<longrightarrow> local_files (cs_fs st') base_state_file = Some (ce_dump_base env (cs_base st')))"
proof -
  have e: "base_saved env (state_enter st)" "0 < cs_save_depth (state_enter st)"
    using assms(1) by (auto simp: base_saved_def state_enter_def)
  obtain st1 r where a: "assign_all env us (state_enter st) = (st1, r)" by force
  note a1 = base_saved_assign_all[OF e, of us, unfolded a fst_conv snd_conv]
  have d1: "0 < cs_save_depth st1" using a1 e(2) by simp
  obtain st2 r2 where x: "state_exit env st1 = (st2, r2)" by force
  have fit: "local_fits (cs_fs st1) (ce_dump_base env (cs_base st1))" using assms(3) a1 by (simp add: state_enter_def)
  note x1 = base_saved_exit[OF conjunct1[OF conjunct2[OF a1]] d1 fit, unfolded x fst_conv snd_conv]
  have w: "with_state env us st = (st2, None)" using a x a1 x1 by (simp add: with_state_def)
  have en: "cs_fs (state_enter st) = cs_fs st" "cs_base (state_enter st) = cs_base st"
    "cs_save_depth (state_enter st) = cs_save_depth st + 1" by (simp_all add: state_enter_def)
  have "local_files (cs_fs st2) base_state_file = Some (ce_dump_base env (cs_base st2))" if "cs_save_depth st = 0"
    using x1 a1 that en by (simp add: base_saved_def split: if_splits)
  then show ?thesis unfolding w using a1 x1 a e(2) en by auto
qed

section \<open>The branch a state is on\<close>

definition conv_inv :: "local_store conv_env \<Rightarrow> str \<Rightarrow> event list \<Rightarrow> local_store conv \<Rightarrow> bool" where
  "conv_inv env dir evs st \<longleftrightarrow> ce_ops env = local_ops \<and> store_inv (cs_fs st) \<and>
     log_on_disk (local_files (cs_fs st)) dir (ce_dump env) evs \<and> log_complete dir evs (cs_log st) \<and>
     tree_ok evs \<and> codec_ok (ce_dump env) (ce_load env) evs"

definition only_caches :: "local_store conv \<Rightarrow> local_store conv \<Rightarrow> bool" where
  "only_caches st st' \<longleftrightarrow> st' = st\<lparr>cs_fs := cs_fs st', cs_log := cs_log st'\<rparr> \<and>
     local_files (cs_fs st') = local_files (cs_fs st) \<and> local_fits (cs_fs st') = local_fits (cs_fs st)"

text \<open>HEAD as the specification sees it, and the branch that ends at an event.\<close>

definition head_of :: "event list \<Rightarrow> base_state \<Rightarrow> str option" where
  "head_of evs b =
     (case leaf_event_id b of
        Some l \<Rightarrow> Some l
      | None \<Rightarrow> if head_is_empty b then None
          else (case rev (filter (\<lambda>e. \<not> is_artifact e) evs) of [] \<Rightarrow> None | e # _ \<Rightarrow> Some (ev_id e)))"

definition branch_of :: "event list \<Rightarrow> str option \<Rightarrow> event list \<Rightarrow> bool" where
  "branch_of evs leaf es \<longleftrightarrow> (case leaf of
      None \<Rightarrow> es = []
    | Some l \<Rightarrow> \<exists>is i. i < length evs \<and> ev_id (evs ! i) = l \<and> is_branch evs is i \<and> es = map ((!) evs) is)"

definition head_ok :: "event list \<Rightarrow> base_state \<Rightarrow> bool" where
  "head_ok evs b \<longleftrightarrow> (case leaf_event_id b of None \<Rightarrow> True | Some l \<Rightarrow> l \<in> ev_id ` set evs)"

lemma only_caches_refl [simp]: "only_caches st st"
  by (simp add: only_caches_def)

lemma only_caches_trans: "only_caches st st1 \<Longrightarrow> only_caches st1 st2 \<Longrightarrow> only_caches st st2"
proof -
  assume a: "only_caches st st1" "only_caches st1 st2"
  have "st2 = st1\<lparr>cs_fs := cs_fs st2, cs_log := cs_log st2\<rparr>" "st1 = st\<lparr>cs_fs := cs_fs st1, cs_log := cs_log st1\<rparr>"
    using a unfolding only_caches_def by blast+
  then have "st2 = st\<lparr>cs_fs := cs_fs st2, cs_log := cs_log st2\<rparr>"
    by (metis (no_types, lifting) conv.surjective conv.update_convs(1,2))
  then show ?thesis using a by (simp add: only_caches_def)
qed

lemma only_caches_fields:
  assumes "only_caches st st'"
  shows "cs_base st' = cs_base st" "cs_view st' = cs_view st" "cs_view_leaf st' = cs_view_leaf st"
    "cs_save_depth st' = cs_save_depth st" "cs_autosave st' = cs_autosave st" "cs_dirty st' = cs_dirty st"
    "local_files (cs_fs st') = local_files (cs_fs st)" "local_fits (cs_fs st') = local_fits (cs_fs st)"
proof -
  have e: "st' = st\<lparr>cs_fs := cs_fs st', cs_log := cs_log st'\<rparr>" using assms unfolding only_caches_def by blast
  show "cs_base st' = cs_base st" by (subst e) simp
  show "cs_view st' = cs_view st" by (subst e) simp
  show "cs_view_leaf st' = cs_view_leaf st" by (subst e) simp
  show "cs_save_depth st' = cs_save_depth st" by (subst e) simp
  show "cs_autosave st' = cs_autosave st" by (subst e) simp
  show "cs_dirty st' = cs_dirty st" by (subst e) simp
  show "local_files (cs_fs st') = local_files (cs_fs st)" "local_fits (cs_fs st') = local_fits (cs_fs st)"
    using assms by (simp_all add: only_caches_def)
qed

lemma only_caches_put: "local_files s = local_files (cs_fs st) \<Longrightarrow> local_fits s = local_fits (cs_fs st) \<Longrightarrow> only_caches st (st\<lparr>cs_fs := s, cs_log := l\<rparr>)"
  by (simp add: only_caches_def)

lemma conv_inv_put:
  assumes "conv_inv env dir evs st" "store_inv s" "local_files s = local_files (cs_fs st)"
    "log_reflects dir evs l" "el_length l = el_length (cs_log st)"
  shows "conv_inv env dir evs (st\<lparr>cs_fs := s, cs_log := l\<rparr>)"
  using assms by (simp add: conv_inv_def log_complete_def)

lemma get_item_ok:
  assumes inv: "conv_inv env dir evs st" and i: "i < length evs"
  obtains st' where "get_item env i st = Inr (evs ! i, st')" "conv_inv env dir evs st'" "only_caches st st'"
proof -
  note c = inv[unfolded conv_inv_def log_complete_def]
  have l: "ce_load env (ce_dump env (evs ! i)) = Inr (evs ! i)" "ce_dump env (evs ! i) \<noteq> ''''"
    using c i by (simp_all add: codec_ok_def)
  have il: "i < el_length (cs_log st)" using c i by simp
  have "store_inv (cs_fs st)" "log_on_disk (local_files (cs_fs st)) dir (ce_dump env) evs" "log_reflects dir evs (cs_log st)"
    using c by simp_all
  from local_log.item_ok[OF this il, of "ce_load env", OF l] obtain s l' where
    r: "get_single_item local_ops (ce_load env) (int i) (cs_fs st) (cs_log st) = Inr (evs ! i, s, l')" "store_inv s"
      "local_files s = local_files (cs_fs st)" "log_reflects dir evs l'" "el_length l' = el_length (cs_log st)" "local_fits s = local_fits (cs_fs st)" by blast
  have "get_item env i st = Inr (evs ! i, st\<lparr>cs_fs := s, cs_log := l'\<rparr>)"
    using r(1) c by (simp add: get_item_def)
  then show ?thesis using that conv_inv_put[OF inv r(2-5)] only_caches_put[OF r(3,6)] by blast
qed

lemma last_real_event_ok:
  assumes "conv_inv env dir evs st" "n \<le> length evs"
  shows "\<exists>st'. last_real_event env n st =
      Inr (case rev (filter (\<lambda>e. \<not> is_artifact e) (take n evs)) of [] \<Rightarrow> None | e # _ \<Rightarrow> Some (ev_id e), st') \<and>
    conv_inv env dir evs st' \<and> only_caches st st'"
  using assms
proof (induction n arbitrary: st)
  case (Suc n)
  then have n: "n < length evs" by simp
  obtain st1 where g: "get_item env n st = Inr (evs ! n, st1)" and st1: "conv_inv env dir evs st1" "only_caches st st1"
    by (rule get_item_ok[OF Suc.prems(1) n])
  have tk: "take (Suc n) evs = take n evs @ [evs ! n]" using n by (rule take_Suc_conv_app_nth)
  show ?case
  proof (cases "is_artifact (evs ! n)")
    case True
    then show ?thesis using Suc.IH[OF st1(1)] n g only_caches_trans[OF st1(2)] by (auto simp: tk)
  next
    case False
    have "el_length (cs_log st1) = length evs" "dict_get (el_idx_to_id (cs_log st1)) n = Some (ev_id (evs ! n))"
      using st1(1) n by (simp_all add: conv_inv_def log_complete_def log_reflects_def)
    then have "get_id (int n) (cs_log st1) = Inr (ev_id (evs ! n))" using n by (simp add: get_id_def)
    then show ?thesis using False g st1 by (simp add: tk)
  qed
qed simp

lemma resolve_ok:
  assumes "conv_inv env dir evs st"
  obtains st' where "resolve_active_leaf env st = Inr (head_of evs (cs_base st), st')" "conv_inv env dir evs st'" "only_caches st st'"
proof -
  have len: "el_length (cs_log st) = length evs" using assms by (simp add: conv_inv_def log_complete_def)
  have "\<exists>st'. resolve_active_leaf env st = Inr (head_of evs (cs_base st), st') \<and> conv_inv env dir evs st' \<and> only_caches st st'"
    using assms last_real_event_ok[OF assms order_refl]
    by (auto simp: resolve_active_leaf_def head_of_def len split: option.split)
  then show ?thesis using that by blast
qed

lemma head_of_ok: "head_ok evs b \<Longrightarrow> head_of evs b = Some l \<Longrightarrow> l \<in> ev_id ` set evs"
proof (cases "leaf_event_id b")
  case None
  assume "head_of evs b = Some l"
  with None obtain e es where "rev (filter (\<lambda>e. \<not> is_artifact e) evs) = e # es" "l = ev_id e"
    by (auto simp: head_of_def split: if_splits list.splits)
  moreover from this(1) have "e \<in> set (filter (\<lambda>e. \<not> is_artifact e) evs)" by (metis list.set_intros(1) set_rev)
  then have "e \<in> set evs" by simp
  ultimately show ?thesis by blast
qed (simp add: head_ok_def head_of_def)

text \<open>The index has an entry for every event, so its size is enough fuel.\<close>

lemma conv_fuel:
  assumes "conv_inv env dir evs st"
  shows "length evs \<le> length (el_id_to_idx (cs_log st))"
proof -
  note c = assms[unfolded conv_inv_def log_complete_def]
  have "set (map ev_id evs) \<subseteq> set (dict_keys (el_id_to_idx (cs_log st)))"
  proof
    fix x assume "x \<in> set (map ev_id evs)"
    then obtain j where "j < length evs" "ev_id (evs ! j) = x" by (auto simp: in_set_conv_nth)
    then have "dict_get (el_id_to_idx (cs_log st)) x = Some j" using c by (simp add: log_reflects_def)
    then show "x \<in> set (dict_keys (el_id_to_idx (cs_log st)))" by (force dest: map_of_SomeD)
  qed
  then have "card (set (map ev_id evs)) \<le> card (set (dict_keys (el_id_to_idx (cs_log st))))" by (rule card_mono[rotated]) simp
  also have "\<dots> \<le> length (el_id_to_idx (cs_log st))" by (metis card_length length_map)
  finally show ?thesis using distinct_card[of "map ev_id evs"] c by (simp add: log_on_disk_def)
qed

lemma branch_to_ok:
  assumes inv: "conv_inv env dir evs st" and leaf: "\<And>l. leaf = Some l \<Longrightarrow> l \<in> ev_id ` set evs"
  obtains es where "branch_of evs leaf es"
    "\<And>limit. \<exists>st'. branch_to env leaf limit st = Some (Inr (if leaf = None then [] else keep_last limit es, st')) \<and>
       conv_inv env dir evs st' \<and> only_caches st st'"
proof (cases leaf)
  case None
  have "branch_to env leaf limit st = Some (Inr ([], st))" for limit
    using None by (simp add: branch_to_def path_to_root_def)
  then show ?thesis using that[of "[]"] inv None by (simp add: branch_of_def)
next
  case (Some l)
  note c = inv[unfolded conv_inv_def log_complete_def]
  obtain i where i: "i < length evs" "ev_id (evs ! i) = l" using leaf[OF Some] by (auto simp: in_set_conv_nth)
  have il: "i < el_length (cs_log st)" using i c by simp
  have codec: "ce_load env (ce_dump env (evs ! j)) = Inr (evs ! j) \<and> ce_dump env (evs ! j) \<noteq> ''''" if "j \<le> i" for j
    using c i that by (simp add: codec_ok_def)
  have fuel: "i < branch_fuel limit st" for limit using conv_fuel[OF inv] i(1) by (simp add: branch_fuel_def)
  have run: "\<exists>is s' log'. is_branch evs is i \<and>
      path_loop (branch_fuel limit st) local_ops (ce_load env) limit (Some (ev_id (evs ! i))) [] [] (cs_fs st) (cs_log st) =
        Some (Inr (map ((!) evs) (keep_last (map_option (\<lambda>l. l - int (length ([] :: event list))) limit) is) @ [], s', log')) \<and>
      store_inv s' \<and> local_files s' = local_files (cs_fs st) \<and> log_reflects dir evs log' \<and> el_length log' = el_length (cs_log st) \<and>
      local_fits s' = local_fits (cs_fs st)" for limit
    by (rule local_log.path_loop_ok[OF _ _ _ il _ codec _ fuel]) (use c in simp_all)
  obtain "is" where "is": "is_branch evs is i" using run[of None] by blast
  have lim: "map_option (\<lambda>l. l - int (length ([] :: event list))) limit = limit" for limit by (cases limit) simp_all
  have "\<exists>st'. branch_to env leaf limit st = Some (Inr (if leaf = None then [] else keep_last limit (map ((!) evs) is), st')) \<and>
       conv_inv env dir evs st' \<and> only_caches st st'" for limit
  proof -
    from run[of limit] obtain is' s' log' where b: "is_branch evs is' i"
      and p: "path_loop (branch_fuel limit st) local_ops (ce_load env) limit (Some (ev_id (evs ! i))) [] [] (cs_fs st) (cs_log st) =
        Some (Inr (map ((!) evs) (keep_last limit is'), s', log'))"
      and s: "store_inv s'" "local_files s' = local_files (cs_fs st)" "log_reflects dir evs log'" "el_length log' = el_length (cs_log st)"
        and fit: "local_fits s' = local_fits (cs_fs st)"
      unfolding lim append_Nil2 by blast
    have "is' = is" by (rule is_branch_unique[OF b "is"])
    moreover have "map ((!) evs) (keep_last limit is) = keep_last limit (map ((!) evs) is)"
      by (simp add: keep_last_def drop_map split: option.split)
    ultimately have "branch_to env leaf limit st = Some (Inr (keep_last limit (map ((!) evs) is), st\<lparr>cs_fs := s', cs_log := log'\<rparr>))"
      using p c Some i(2) by (simp add: branch_to_def path_to_root_def)
    then show ?thesis using Some conv_inv_put[OF inv s] only_caches_put[OF s(2) fit] by auto
  qed
  moreover have "branch_of evs leaf (map ((!) evs) is)" using "is" i Some by (auto simp: branch_of_def)
  ultimately show ?thesis using that by blast
qed

section \<open>Appending to the active branch\<close>

text \<open>The parent an unstamped event gets.\<close>

definition stamped_parent :: "event list \<Rightarrow> base_state \<Rightarrow> str option" where
  "stamped_parent evs b = (case head_of evs b of Some l \<Rightarrow> Some l
     | None \<Rightarrow> if evs = [] then None else Some root_parent_id)"

definition stamped :: "event list \<Rightarrow> base_state \<Rightarrow> event \<Rightarrow> event" where
  "stamped evs b e = e\<lparr>ev_parent_id := stamped_parent evs b\<rparr>"

lemma stamp_ok:
  assumes "conv_inv env dir evs st" "ev_parent_id e = None"
  obtains st' where "stamp_parent_id env e st = Inr (stamped evs (cs_base st) e, st')"
    "conv_inv env dir evs st'" "only_caches st st'"
proof -
  obtain st' where r: "resolve_active_leaf env st = Inr (head_of evs (cs_base st), st')" "conv_inv env dir evs st'" "only_caches st st'"
    by (rule resolve_ok[OF assms(1)])
  have "el_length (cs_log st') = length evs" using r(2) by (simp add: conv_inv_def log_complete_def)
  then have "stamp_parent_id env e st = Inr (stamped evs (cs_base st) e, st')"
    using r(1) assms(2) by (auto simp: stamp_parent_id_def stamped_def stamped_parent_def Let_def split: option.split)
  then show ?thesis using that r by blast
qed

lemma root_not_uuid: "\<not> uuid_like root_parent_id"
  by code_simp

lemma branch_of_append:
  assumes inv: "conv_inv env dir evs st" and ok: "head_ok evs b" and new: "uuid_like (ev_id e)" "ev_id e \<notin> ev_id ` set evs"
    and br: "branch_of evs (head_of evs b) es"
  shows "branch_of (evs @ [stamped evs b e]) (Some (ev_id e)) (es @ [stamped evs b e])"
    "branch_of (evs @ [stamped evs b e]) (head_of evs b) es"
proof -
  let ?e = "stamped evs b e" let ?n = "length evs"
  note c = inv[unfolded conv_inv_def]
  have d: "distinct (map ev_id evs)" and t: "tree_ok evs" and u: "\<forall>x \<in> set evs. uuid_like (ev_id x)"
    using c by (simp_all add: log_on_disk_def)
  have at: "(evs @ [?e]) ! ?n = ?e" "ev_id ?e = ev_id e" by (simp_all add: stamped_def)
  show old: "branch_of (evs @ [?e]) (head_of evs b) es"
  proof (cases "head_of evs b")
    case (Some l)
    then obtain "is" i where i: "i < ?n" "ev_id (evs ! i) = l" "is_branch evs is i" "es = map ((!) evs) is"
      using br by (auto simp: branch_of_def)
    have "x < ?n" if "x \<in> set is" for x using is_branch_le[OF i(3) that] i(1) by simp
    then have "map ((!) (evs @ [?e])) is = map ((!) evs) is" by (simp add: nth_append)
    then show ?thesis using i is_branch_append[OF i(3) t d] Some
      by (auto simp: branch_of_def nth_append intro!: exI[of _ "is"] exI[of _ i])
  qed (use br in \<open>simp add: branch_of_def\<close>)
  show "branch_of (evs @ [?e]) (Some (ev_id e)) (es @ [?e])"
  proof (cases "head_of evs b")
    case None
    then have es: "es = []" using br by (simp add: branch_of_def)
    have "tree_parent (evs @ [?e]) ?n = None" using None by (auto simp: tree_parent_def at stamped_def stamped_parent_def)
    then have "is_branch (evs @ [?e]) [?n] ?n" by (rule is_branch_root) simp
    then show ?thesis unfolding branch_of_def es option.case
      by (intro exI[of _ "[?n]"] exI[of _ ?n]) (simp add: at)
  next
    case (Some l)
    then obtain "is" i where i: "i < ?n" "ev_id (evs ! i) = l" "is_branch evs is i" "es = map ((!) evs) is"
      using br by (auto simp: branch_of_def)
    have l: "l \<in> ev_id ` set evs" by (rule head_of_ok[OF ok Some])
    then have "l \<noteq> root_parent_id" using u root_not_uuid by auto
    moreover have "ev_parent_id ?e = Some l" using Some by (simp add: stamped_def stamped_parent_def)
    ultimately have p: "tree_parent (evs @ [?e]) ?n = find_index_from 0 (\<lambda>x. ev_id x = l) (evs @ [?e])"
      by (simp add: tree_parent_def at)
    have "find_index_from 0 (\<lambda>x. ev_id x = l) evs \<noteq> None" using l by (auto simp: find_index_from_None)
    then obtain j where j: "find_index_from 0 (\<lambda>x. ev_id x = l) evs = Some j" by blast
    from find_index_from_Some[OF j] have "j < ?n" "ev_id (evs ! j) = l" by auto
    then have "j = i" using nth_eq_iff_index_eq[OF d, of j i] i by simp
    then have tp: "tree_parent (evs @ [?e]) ?n = Some i" using p find_index_from_append[OF j] by simp
    have "is_branch (evs @ [?e]) (is @ [?n]) ?n"
      by (rule is_branch_snoc[OF is_branch_append[OF i(3) t d] tp]) (use i in simp_all)
    moreover have "x < ?n" if "x \<in> set is" for x using is_branch_le[OF i(3) that] i(1) by simp
    then have "map ((!) (evs @ [?e])) (is @ [?n]) = es @ [?e]" using i(4) by (simp add: nth_append)
    ultimately show ?thesis unfolding branch_of_def option.case
      by (intro exI[of _ "is @ [?n]"] exI[of _ ?n]) (simp add: at)
  qed
qed

text \<open>The store accepts the event as it is stamped and the codec reads it back.\<close>

definition appendable :: "local_store conv_env \<Rightarrow> local_store conv \<Rightarrow> event list \<Rightarrow> event \<Rightarrow> bool" where
  "appendable env st evs e \<longleftrightarrow> ev_parent_id e = None \<and> uuid_like (ev_id e) \<and> ev_id e \<notin> ev_id ` set evs \<and>
     local_fits (cs_fs st) (ce_dump env (stamped evs (cs_base st) e)) \<and>
     codec_ok (ce_dump env) (ce_load env) [stamped evs (cs_base st) e]"

lemma log_append_stamped:
  assumes inv: "conv_inv env dir evs st" and ok: "head_ok evs (cs_base st)" and app: "appendable env st evs e" and g: "ce_guard env = None"
  obtains st1 s l where "stamp_parent_id env e st = Inr (stamped evs (cs_base st) e, st1)" "only_caches st st1"
    "log_append (ce_ops env) (ce_dump env) (ce_guard env) (stamped evs (cs_base st) e) (cs_fs st1) (cs_log st1) = Inr (length evs, s, l)"
    "\<And>st'. cs_fs st' = s \<Longrightarrow> cs_log st' = l \<Longrightarrow> conv_inv env dir (evs @ [stamped evs (cs_base st) e]) st'"
proof -
  let ?e = "stamped evs (cs_base st) e"
  have par: "ev_parent_id e = None" using app by (simp add: appendable_def)
  obtain st1 where st1: "stamp_parent_id env e st = Inr (?e, st1)" "conv_inv env dir evs st1" "only_caches st st1"
    by (rule stamp_ok[OF inv par])
  note c = st1(2)[unfolded conv_inv_def log_complete_def]
  have fit: "local_fits (cs_fs st1) (ce_dump env ?e)" "local_fits (cs_fs st1) ''''"
  proof -
    show "local_fits (cs_fs st1) (ce_dump env ?e)" using app only_caches_fields(8)[OF st1(3)]
      by (simp add: appendable_def)
    show "local_fits (cs_fs st1) ''''" using c by (simp add: local_fits_def store_inv_def)
  qed
  have u: "uuid_like (ev_id ?e)" "ev_id ?e \<notin> ev_id ` set evs" using app by (simp_all add: appendable_def stamped_def)
  have p: "ev_parent_id ?e \<in> {None, Some root_parent_id} \<or> the (ev_parent_id ?e) \<in> ev_id ` set evs"
    using head_of_ok[OF ok] by (auto simp: stamped_def stamped_parent_def split: option.split)
  from c have "store_inv (cs_fs st1)" "log_on_disk (local_files (cs_fs st1)) dir (ce_dump env) evs" "log_reflects dir evs (cs_log st1)"
    by simp_all
  from local_log.append_ok[OF this fit u p] obtain s l where a: "log_append local_ops (ce_dump env) None ?e (cs_fs st1) (cs_log st1) = Inr (length evs, s, l)"
    "store_inv s" "log_on_disk (local_files s) dir (ce_dump env) (evs @ [?e])" "log_complete dir (evs @ [?e]) l" by blast
  have "codec_ok (ce_dump env) (ce_load env) (evs @ [?e])"
    using c app by (auto simp: codec_ok_def appendable_def)
  then have "conv_inv env dir (evs @ [?e]) st'" if "cs_fs st' = s" "cs_log st' = l" for st'
    using that a c tree_ok_append[OF _ p] by (simp add: conv_inv_def)
  then show ?thesis using that[OF st1(1,3)] a(1) c g by simp
qed

text \<open>
  C30: appending extends the active branch. Inside a \<open>with\<close> block, \<open>append_event\<close> with a new event
  stores it under the next index with the current HEAD as its parent (a new root when HEAD is
  empty), and the active branch becomes the old one followed by the event, which is the new HEAD;
  a state update event is stored as well but leaves HEAD and the active branch alone.
\<close>

theorem append_extends_branch:
  assumes "conv_inv env dir evs st" "head_ok evs (cs_base st)" "appendable env st evs e" "ce_guard env = None"
    "cs_autosave st" "0 < cs_save_depth st" "branch_of evs (head_of evs (cs_base st)) es"
  defines "evs' \<equiv> evs @ [stamped evs (cs_base st) e]"
  shows "\<exists>st'. conv_append_event env e st = (st', Inr (length evs)) \<and> conv_inv env dir evs' st' \<and>
    head_ok evs' (cs_base st') \<and>
    (if is_state_update e
     then head_of evs' (cs_base st') = head_of evs (cs_base st) \<and> branch_of evs' (head_of evs' (cs_base st')) es
     else head_of evs' (cs_base st') = Some (ev_id e) \<and>
       branch_of evs' (head_of evs' (cs_base st')) (es @ [stamped evs (cs_base st) e]))"
proof -
  let ?e = "stamped evs (cs_base st) e"
  obtain st1 s l where st1: "stamp_parent_id env e st = Inr (?e, st1)" "only_caches st st1"
    and a: "log_append (ce_ops env) (ce_dump env) (ce_guard env) ?e (cs_fs st1) (cs_log st1) = Inr (length evs, s, l)"
    and inv0: "\<And>st'. cs_fs st' = s \<Longrightarrow> cs_log st' = l \<Longrightarrow> conv_inv env dir (evs @ [?e]) st'"
    by (rule log_append_stamped[OF assms(1-4)]) (rule that)
  note inv' = inv0[folded evs'_def]
  note f = only_caches_fields[OF st1(2)]
  have up: "is_state_update ?e = is_state_update e" "ev_id ?e = ev_id e" "is_artifact ?e = is_artifact e"
    by (simp_all add: stamped_def is_state_update_def is_artifact_def)
  have new: "uuid_like (ev_id e)" "ev_id e \<notin> ev_id ` set evs" using assms(3) by (simp_all add: appendable_def)
  note br = branch_of_append[OF assms(1,2) new assms(7)]
  let ?st2 = "st1\<lparr>cs_fs := s, cs_log := l\<rparr>"
  show ?thesis
  proof (cases "is_state_update e")
    case True
    then have "is_artifact ?e" using up(3) by (auto simp: is_state_update_def is_artifact_def split: event_body.splits)
    then have "filter (\<lambda>e. \<not> is_artifact e) evs' = filter (\<lambda>e. \<not> is_artifact e) evs" by (simp add: evs'_def)
    then have h: "head_of evs' (cs_base st) = head_of evs (cs_base st)" by (simp only: head_of_def)
    have "conv_append_event env e st = (?st2, Inr (length evs))"
      using st1(1) a True up(1) by (simp add: conv_append_event_def Let_def)
    moreover have "head_ok evs' (cs_base ?st2)" using assms(2) f(1) by (auto simp: head_ok_def evs'_def split: option.splits)
    ultimately show ?thesis using True inv'[of ?st2] f(1) h br(2) by (simp add: evs'_def)
  next
    case False
    have blk: "cs_autosave ?st2" "0 < cs_save_depth ?st2" using f assms(5,6) by simp_all
    obtain st3 where s3: "set_attr env ''leaf_event_id'' (\<lambda>b. b\<lparr>leaf_event_id := Some (ev_id ?e)\<rparr>) ?st2 = (st3, None)"
      "cs_fs st3 = cs_fs ?st2" "cs_log st3 = cs_log ?st2" "cs_base st3 = (cs_base ?st2)\<lparr>leaf_event_id := Some (ev_id ?e)\<rparr>"
      "cs_autosave st3" "0 < cs_save_depth st3"
      by (rule set_attr_in_block_fields[OF blk])
    have s3': "cs_fs st3 = s" "cs_log st3 = l" "leaf_event_id (cs_base st3) = Some (ev_id e)"
      using s3 up(2) by simp_all
    obtain st4 where s4: "conv_append_event env e st = (st4, Inr (length evs))" "cs_fs st4 = s" "cs_log st4 = l"
      "leaf_event_id (cs_base st4) = Some (ev_id e)"
    proof (cases "head_is_empty (cs_base st3)")
      case True
      obtain st4 where s5: "set_attr env ''head_is_empty'' (\<lambda>b. b\<lparr>head_is_empty := False\<rparr>) st3 = (st4, None)"
        "cs_fs st4 = cs_fs st3" "cs_log st4 = cs_log st3" "cs_base st4 = (cs_base st3)\<lparr>head_is_empty := False\<rparr>"
        "cs_autosave st4" "0 < cs_save_depth st4"
        by (rule set_attr_in_block_fields[OF s3(5,6)])
      have "conv_append_event env e st = (st4, Inr (length evs))"
        unfolding conv_append_event_def Let_def
        by (simp only: st1(1) a sum.case prod.case option.case up(1) False if_False s3(1) True if_True s5(1))
      then show ?thesis using that[of st4] s5(2-4) s3' by simp
    next
      case he: False
      have "conv_append_event env e st = (st3, Inr (length evs))"
        unfolding conv_append_event_def Let_def
        by (simp only: st1(1) a sum.case prod.case option.case up(1) False if_False s3(1) he)
      then show ?thesis using that[of st3] s3' by simp
    qed
    have h: "head_of evs' (cs_base st4) = Some (ev_id e)" "head_ok evs' (cs_base st4)"
      using s4(4) up(2) by (simp_all add: head_of_def head_ok_def evs'_def)
    then show ?thesis using False s4(1) inv'[OF s4(2,3)] br(1) by (simp add: evs'_def)
  qed
qed

text \<open>
  With the callback of the agent server an assignment in a block changes the field, and one event is
  added to the log, the update; the base state waits for the exit, and HEAD and the active branch
  stay, so that the update of one field is no assignment of another.
\<close>

lemma head_of_state_update:
  assumes "is_state_update e"
  shows "head_of (evs @ [e]) b = head_of evs b" "head_ok evs b \<Longrightarrow> head_ok (evs @ [e]) b"
proof -
  have "is_artifact e" using assms by (auto simp: is_state_update_def is_artifact_def split: event_body.splits)
  then have "filter (\<lambda>e. \<not> is_artifact e) (evs @ [e]) = filter (\<lambda>e. \<not> is_artifact e) evs" by simp
  then show "head_of (evs @ [e]) b = head_of evs b" by (simp only: head_of_def)
qed (auto simp: head_ok_def split: option.splits)

lemma published_update:
  assumes "conv_inv env dir evs st" "head_ok evs (upd (cs_base st))" "cs_autosave st" "0 < cs_save_depth st" "ce_guard env = None"
    and "cs_callback st" "name \<notin> {''leaf_event_id'', ''head_is_empty''}" "upd (cs_base st) \<noteq> cs_base st"
    and "e = update_event name (upd (cs_base st))" "is_state_update e"
    and "appendable env (st\<lparr>cs_base := upd (cs_base st)\<rparr>) evs e"
  defines "evs' \<equiv> evs @ [stamped evs (upd (cs_base st)) e]"
  shows "\<exists>st'. set_attr_published env update_event name upd st = (st', None) \<and> conv_inv env dir evs' st' \<and>
    cs_base st' = upd (cs_base st) \<and> cs_dirty st' \<and> head_of evs' (cs_base st') = head_of evs (upd (cs_base st))"
proof -
  let ?st1 = "st\<lparr>cs_base := upd (cs_base st), cs_dirty := True, cs_notified := cs_notified st @ [name]\<rparr>"
  let ?e = "stamped evs (cs_base ?st1) e"
  have a: "set_attr env name upd st = (?st1, None)" using assms(6,7,8) by (simp add: set_attr_in_block[OF assms(3,4)])
  have inv: "conv_inv env dir evs ?st1" "appendable env ?st1 evs e" "head_ok evs (cs_base ?st1)"
    using assms(1,2,11) by (simp_all add: conv_inv_def appendable_def)
  obtain st2 s l where st2: "stamp_parent_id env e ?st1 = Inr (?e, st2)" "only_caches ?st1 st2"
    and l: "log_append (ce_ops env) (ce_dump env) (ce_guard env) ?e (cs_fs st2) (cs_log st2) = Inr (length evs, s, l)"
    and inv': "\<And>st'. cs_fs st' = s \<Longrightarrow> cs_log st' = l \<Longrightarrow> conv_inv env dir (evs @ [?e]) st'"
    by (rule log_append_stamped[OF inv(1,3,2) assms(5)]) (rule that)
  have up: "is_state_update ?e" using assms(10) by (simp add: stamped_def is_state_update_def)
  then have "conv_append_event env e ?st1 = (st2\<lparr>cs_fs := s, cs_log := l\<rparr>, Inr (length evs))"
    using st2(1) l by (simp add: conv_append_event_def Let_def)
  then have "set_attr_published env update_event name upd st = (st2\<lparr>cs_fs := s, cs_log := l\<rparr>, None)"
    using a assms(9) by (simp add: set_attr_published_def)
  moreover have "cs_base st2 = upd (cs_base st)" "cs_dirty st2"
  proof -
    have "st2 = ?st1\<lparr>cs_fs := cs_fs st2, cs_log := cs_log st2\<rparr>" using st2(2) unfolding only_caches_def by blast
    from arg_cong [OF this, of cs_base] arg_cong [OF this, of cs_dirty]
    show "cs_base st2 = upd (cs_base st)" "cs_dirty st2" by simp_all
  qed
  ultimately show ?thesis using inv'[of "st2\<lparr>cs_fs := s, cs_log := l\<rparr>"] head_of_state_update(1)[OF up]
    by (simp add: evs'_def)
qed

section \<open>Witnesses\<close>

text \<open>A new conversation, inside a block, on an empty store; texts are identifiers.\<close>

definition sample_env :: "local_store conv_env" where
  "sample_env = \<lparr>ce_ops = local_ops, ce_dump = ev_id, ce_load = sample_load, ce_dump_base = (\<lambda>b. ''b''), ce_guard = None\<rparr>"

definition sample_base :: base_state where
  "sample_base = \<lparr>exec_status = IDLE, blocked_actions = [], blocked_messages = [], last_user_message_id = None,
     leaf_event_id = None, head_is_empty = False, other_fields = []\<rparr>"

definition sample_conv :: "local_store conv" where
  "sample_conv = \<lparr>cs_fs = empty_store, cs_log = open_log local_ops ''events'' empty_store, cs_base = sample_base,
     cs_view = empty_view, cs_view_leaf = None, cs_autosave = True, cs_callback = True, cs_notified = [],
     cs_save_depth = 1, cs_dirty = True\<rparr>"

lemma sample_conv_inv: "conv_inv sample_env ''events'' [] sample_conv"
  using empty_store_ok local_log.open_complete[OF empty_store_ok(1,2)]
  by (simp add: conv_inv_def sample_env_def sample_conv_def tree_ok_def codec_ok_def)

lemma sample_stamped: "stamped [] sample_base sample_event = sample_event"
  by (simp add: stamped_def stamped_parent_def head_of_def sample_base_def sample_event_def mk_defs)

lemma sample_appendable: "appendable sample_env sample_conv [] sample_event"
proof -
  have "local_fits empty_store (ev_id sample_event)" by code_simp
  then show ?thesis using sample_event_facts sample_stamped
    by (simp add: appendable_def sample_env_def sample_conv_def)
qed

lemma append_extends_branch_witness:
  "\<exists>st'. conv_append_event sample_env sample_event sample_conv = (st', Inr 0) \<and>
    branch_of [sample_event] (Some ''aaaaaaaa'') [sample_event]"
proof -
  have h: "head_ok [] (cs_base sample_conv)" "ce_guard sample_env = None" "cs_autosave sample_conv" "0 < cs_save_depth sample_conv"
    "branch_of [] (head_of [] (cs_base sample_conv)) []" "cs_base sample_conv = sample_base"
    by (simp_all add: head_ok_def sample_conv_def sample_env_def sample_base_def branch_of_def head_of_def)
  have "\<not> is_state_update sample_event" by (simp add: is_state_update_def sample_event_def mk_defs)
  then show ?thesis
    using append_extends_branch[OF sample_conv_inv h(1) sample_appendable h(2-5)]
    by (auto simp: h(6) sample_stamped sample_event_facts)
qed

lemma block_saves_once_witness:
  "case with_state sample_env [(''execution_status'', \<lambda>b. b\<lparr>exec_status := RUNNING\<rparr>)]
      (sample_conv\<lparr>cs_callback := False, cs_save_depth := 1\<rparr>) of
     (st', r) \<Rightarrow> r = None \<and> exec_status (cs_base st') = RUNNING"
proof -
  let ?st = "sample_conv\<lparr>cs_callback := False, cs_save_depth := 1\<rparr>"
  have f: "local_files empty_store = (\<lambda>_. None)" by (auto simp: local_files_def empty_store_def)
  have a: "base_saved sample_env ?st"
    using empty_store_ok(1) by (simp add: base_saved_def sample_env_def sample_conv_def f below_def under_def)
  have b: "local_fits (cs_fs ?st) (ce_dump_base sample_env
      (foldl (\<lambda>b (name, upd). upd b) (cs_base ?st) [(''execution_status'', \<lambda>b. b\<lparr>exec_status := RUNNING\<rparr>)]))"
    by (simp add: sample_env_def sample_conv_def local_fits_def empty_store_def new_cache_def)
  have c: "\<not> cs_callback ?st" by simp
  show ?thesis using block_saves_once[OF a c b] by (auto simp: sample_env_def split: prod.splits)
qed

text \<open>An error event becomes HEAD although the look-up of a legacy leaf skips such events as no nodes of the tree.\<close>

lemma error_event_moves_head:
  assumes "cs_autosave st" "0 < cs_save_depth st" "\<not> head_is_empty (cs_base st)"
    "stamp_parent_id env e st = Inr (e1, st)" "ev_body e1 = ConversationErrorEvent code detail"
    "log_append (ce_ops env) (ce_dump env) (ce_guard env) e1 (cs_fs st) (cs_log st) = Inr (n, s, l)"
  shows "is_artifact e1 \<and> leaf_event_id (cs_base (fst (conv_append_event env e st))) = Some (ev_id e1)"
  using assms by (simp add: conv_append_event_def is_state_update_def is_artifact_def set_attr_in_block Let_def)
    (metis base_state.select_convs(5) base_state.surjective base_state.update_convs(5))

end
