(* ===== verification/Conversation_View.thy ===== *)
theory Conversation_View
  imports Conversation_State
begin

text \<open>
  The cached view of \<open>ConversationState\<close>: reading it after appends replays only the new tail of the
  active branch, and after HEAD moved elsewhere rebuilds it. Both give a view that was once built
  from a prefix of the active branch and extended by the rest.
\<close>

section \<open>Collecting the tail\<close>

text \<open>The events of a branch that come after the cached leaf, latest first, and where the walk stops.\<close>

definition new_tail :: "event list \<Rightarrow> str option \<Rightarrow> nat list \<Rightarrow> nat list" where
  "new_tail evs cached is = takeWhile (\<lambda>j. Some (ev_id (evs ! j)) \<noteq> cached) (rev is)"

definition stops_at :: "event list \<Rightarrow> str option \<Rightarrow> nat list \<Rightarrow> str option" where
  "stops_at evs cached is = (if \<exists>j \<in> set is. Some (ev_id (evs ! j)) = cached then cached else None)"

lemma new_tail_snoc:
  "new_tail evs cached (xs @ [i]) = (if Some (ev_id (evs ! i)) = cached then [] else i # new_tail evs cached xs)"
  by (simp add: new_tail_def)

lemma stops_at_snoc:
  "stops_at evs cached (xs @ [i]) = (if Some (ev_id (evs ! i)) = cached then cached else stops_at evs cached xs)"
  by (auto simp: stops_at_def)

lemma tail_loop_ok:
  "conv_inv env dir evs st \<Longrightarrow> is_branch evs is i \<Longrightarrow> i < fuel \<Longrightarrow>
   \<exists>st'. tail_loop fuel env (Some (ev_id (evs ! i))) tail st =
      Some (Inr (stops_at evs (cs_view_leaf st) is, tail @ map ((!) evs) (new_tail evs (cs_view_leaf st) is), st')) \<and>
    conv_inv env dir evs st' \<and> only_caches st st'"
proof (induction "is" arbitrary: i fuel tail st rule: rev_induct)
  case Nil
  then show ?case by (simp add: is_branch_def)
next
  case (snoc x xs)
  have x: "x = i" and i: "i < length evs" using snoc.prems(2) by (simp_all add: is_branch_def)
  obtain f where f: "fuel = Suc f" using snoc.prems(3) by (cases fuel) auto
  show ?case
  proof (cases "Some (ev_id (evs ! i)) = cs_view_leaf st")
    case True
    have "tail_loop fuel env (Some (ev_id (evs ! i))) tail st = Some (Inr (Some (ev_id (evs ! i)), tail, st))"
      unfolding f tail_loop.simps if_P[OF True] ..
    then have "tail_loop fuel env (Some (ev_id (evs ! i))) tail st = Some (Inr (cs_view_leaf st, tail, st))"
      unfolding True .
    then show ?thesis using snoc.prems(1) True by (simp only: x new_tail_snoc stops_at_snoc if_True list.map append_Nil2) simp
  next
    case False
    note c = snoc.prems(1)[unfolded conv_inv_def log_complete_def]
    have d: "distinct (map ev_id evs)" and t: "tree_ok evs" using c by (simp_all add: log_on_disk_def)
    obtain st1 where g: "get_item env i st = Inr (evs ! i, st1)" "conv_inv env dir evs st1" "only_caches st st1"
      by (rule get_item_ok[OF snoc.prems(1) i])
    have "dict_get (el_id_to_idx (cs_log st)) (ev_id (evs ! i)) = Some i" using c i unfolding log_reflects_def by auto
    then have idx: "get_index (ev_id (evs ! i)) (cs_log st) = Inr i" by (simp add: get_index_def)
    have p: "effective_parent_id i (evs ! i) (cs_log st1) = Inr (map_option (\<lambda>j. ev_id (evs ! j)) (tree_parent evs i))"
      by (rule effective_parent_ok[where dir = dir, OF _ _ t d]) (use g(2) i in \<open>simp_all add: conv_inv_def log_complete_def\<close>)
    have step: "tail_loop fuel env (Some (ev_id (evs ! i))) tail st =
        tail_loop f env (map_option (\<lambda>j. ev_id (evs ! j)) (tree_parent evs i)) (tail @ [evs ! i]) st1"
      using False idx g(1) p by (simp add: f)
    have leaf: "cs_view_leaf st1 = cs_view_leaf st" by (rule only_caches_fields[OF g(3)])
    have b: "is_branch evs (xs @ [i]) i" using snoc.prems(2) unfolding x .
    show ?thesis
    proof (cases "tree_parent evs i")
      case None
      then have root: "xs = []" "tree_parent evs i = None" using is_branch_pred[OF b] by simp_all
      have "new_tail evs (cs_view_leaf st) [] = []" "stops_at evs (cs_view_leaf st) [] = None"
        by (simp_all add: new_tail_def stops_at_def)
      then show ?thesis using step False g(2,3) root
        by (simp add: x new_tail_snoc[of _ _ "[]", simplified] stops_at_snoc[of _ _ "[]", simplified])
    next
      case (Some j)
      then have up: "tree_parent evs i = Some j" "is_branch evs xs j" using is_branch_pred[OF b] by simp_all
      have "j < f" using tree_parent_less[OF t d i up(1)] snoc.prems(3) f by simp
      from snoc.IH[OF g(2) up(2) this, of "tail @ [evs ! i]"] obtain st2 where
        "tail_loop f env (Some (ev_id (evs ! j))) (tail @ [evs ! i]) st1 =
          Some (Inr (stops_at evs (cs_view_leaf st1) xs, (tail @ [evs ! i]) @ map ((!) evs) (new_tail evs (cs_view_leaf st1) xs), st2))"
        "conv_inv env dir evs st2" "only_caches st1 st2" by blast
      then show ?thesis using step up(1) False only_caches_trans[OF g(3)]
        by (simp add: x leaf new_tail_snoc stops_at_snoc)
    qed
  qed
qed

text \<open>The tail against the cached branch.\<close>

lemma is_branch_take:
  assumes "is_branch evs is i" "c \<in> set is"
  obtains is0 rest where "is = is0 @ rest" "is_branch evs is0 c"
  using assms
proof (induction "is" arbitrary: i thesis rule: rev_induct)
  case (snoc x xs)
  have x: "x = i" using snoc.prems(2) by (simp add: is_branch_def)
  show ?case
  proof (cases "c = i")
    case True
    then show ?thesis using snoc.prems(1)[of "xs @ [x]" "[]"] snoc.prems(2) by simp
  next
    case False
    then have c: "c \<in> set xs" using snoc.prems(3) x by simp
    then have "xs \<noteq> []" by auto
    then obtain j where j: "is_branch evs xs j" using is_branch_pred[of evs xs i] snoc.prems(2) x by blast
    from snoc.IH[OF _ j c] obtain is0 rest where "xs = is0 @ rest" "is_branch evs is0 c" by blast
    then show ?thesis using snoc.prems(1)[of is0 "rest @ [x]"] by simp
  qed
qed simp

lemma new_tail_split:
  assumes "is_branch evs (is0 @ rest) i" "is_branch evs is0 c" "distinct (map ev_id evs)"
  shows "new_tail evs (Some (ev_id (evs ! c))) (is0 @ rest) = rev rest" "stops_at evs (Some (ev_id (evs ! c))) (is0 @ rest) = Some (ev_id (evs ! c))"
proof -
  have c: "c \<in> set is0" "c < length evs" using assms(2) by (auto simp: is_branch_def)
  have len: "x < length evs" if "x \<in> set (is0 @ rest)" for x
    using is_branch_le[OF assms(1) that] assms(1) by (simp add: is_branch_def)
  have "sorted_wrt (<) (is0 @ rest)" by (rule is_branch_sorted[OF assms(1)])
  then have gt: "\<forall>x \<in> set rest. c < x" using c(1) by (simp add: sorted_wrt_append)
  have ne: "Some (ev_id (evs ! x)) \<noteq> Some (ev_id (evs ! c))" if "x \<in> set (rev rest)" for x
    using gt that len[of x] nth_eq_iff_index_eq[OF assms(3), of x c] c(2) by auto
  obtain ys where ys: "rev is0 = c # ys" using assms(2) by (cases is0 rule: rev_cases) (auto simp: is_branch_def)
  show "new_tail evs (Some (ev_id (evs ! c))) (is0 @ rest) = rev rest"
    unfolding new_tail_def rev_append by (subst takeWhile_append2) (use ne ys in auto)
  show "stops_at evs (Some (ev_id (evs ! c))) (is0 @ rest) = Some (ev_id (evs ! c))"
    using c(1) by (auto simp: stops_at_def)
qed

section \<open>The view of the active branch\<close>

text \<open>A view that was built from a prefix of \<open>es\<close> and extended by the rest.\<close>

definition view_from :: "event list \<Rightarrow> view \<Rightarrow> bool" where
  "view_from es v \<longleftrightarrow> (\<exists>k v0. from_events (take k es) = Inr v0 \<and> append_events v0 (drop k es) = Inr v)"

definition view_inv :: "event list \<Rightarrow> local_store conv \<Rightarrow> bool" where
  "view_inv evs st \<longleftrightarrow> (\<forall>l. cs_view_leaf st = Some l \<longrightarrow> l \<in> ev_id ` set evs) \<and>
     (\<exists>es0. branch_of evs (cs_view_leaf st) es0 \<and> view_from es0 (cs_view st))"

lemma view_from_extend: "view_from es v \<Longrightarrow> append_events v ts = Inr v' \<Longrightarrow> view_from (es @ ts) v'"
proof -
  assume "view_from es v" and a: "append_events v ts = Inr v'"
  then obtain k v0 where k: "from_events (take k es) = Inr v0" "append_events v0 (drop k es) = Inr v"
    by (auto simp: view_from_def)
  let ?k = "min k (length es)"
  have "take ?k (es @ ts) = take k es" "drop ?k (es @ ts) = drop k es @ ts" by (simp_all add: min_def)
  then show ?thesis using k a unfolding view_from_def by (intro exI[of _ ?k] exI[of _ v0]) (simp add: append_events_append)
qed

lemma view_from_rebuilt: "from_events es = Inr v \<Longrightarrow> view_from es v"
  unfolding view_from_def by (intro exI[of _ "length es"] exI[of _ v]) simp

lemma from_events_Inr: "\<exists>v. from_events es = Inr v"
  using append_events_Inr[of empty_view es] by (auto simp: from_events_def)

lemma branch_of_unique: "branch_of evs l es \<Longrightarrow> branch_of evs l es' \<Longrightarrow> distinct (map ev_id evs) \<Longrightarrow> es = es'"
proof (cases l)
  case (Some a)
  assume b: "branch_of evs l es" "branch_of evs l es'" and d: "distinct (map ev_id evs)"
  then obtain "is" i is' i' where
    "i < length evs" "ev_id (evs ! i) = a" "is_branch evs is i" "es = map ((!) evs) is"
    "i' < length evs" "ev_id (evs ! i') = a" "is_branch evs is' i'" "es' = map ((!) evs) is'"
    using Some by (auto simp: branch_of_def)
  moreover from this have "i = i'" using nth_eq_iff_index_eq[OF d, of i i'] by simp
  ultimately show ?thesis using is_branch_unique by blast
qed (simp add: branch_of_def)

lemma rebuild_at_ok:
  assumes inv: "conv_inv env dir evs st" and leaf: "\<And>l. leaf = Some l \<Longrightarrow> l \<in> ev_id ` set evs" and br: "branch_of evs leaf es"
  shows "\<exists>v st'. rebuild_at env leaf st = Some (Inr (v, st')) \<and> from_events es = Inr v \<and> conv_inv env dir evs st' \<and>
    cs_view st' = v \<and> cs_view_leaf st' = leaf \<and> cs_base st' = cs_base st"
proof -
  have d: "distinct (map ev_id evs)" using inv by (simp add: conv_inv_def log_on_disk_def)
  obtain es1 where e: "branch_of evs leaf es1" "\<And>limit. \<exists>st'. branch_to env leaf limit st =
      Some (Inr (if leaf = None then [] else keep_last limit es1, st')) \<and> conv_inv env dir evs st' \<and> only_caches st st'"
    by (rule branch_to_ok[OF inv, of leaf]) (erule leaf, rule that)
  have "es1 = es" by (rule branch_of_unique[OF e(1) br d])
  moreover have "leaf = None \<Longrightarrow> es = []" using br by (simp add: branch_of_def)
  ultimately have "(if leaf = None then [] else keep_last None es1) = es" by (simp add: keep_last_def)
  with e(2)[of None] obtain st1 where st1: "branch_to env leaf None st = Some (Inr (es, st1))" "conv_inv env dir evs st1" "only_caches st st1"
    by auto
  obtain v where "from_events es = Inr v" using from_events_Inr by blast
  then show ?thesis using st1 only_caches_fields(1)[OF st1(3)] by (simp add: rebuild_at_def conv_inv_def)
qed

text \<open>What a read of the view gives, and the situation after its first step has resolved the leaf.\<close>

definition view_read :: "local_store conv_env \<Rightarrow> str \<Rightarrow> event list \<Rightarrow> local_store conv \<Rightarrow> event list \<Rightarrow> event list \<Rightarrow> bool" where
  "view_read env dir evs st es0 es \<longleftrightarrow> (\<exists>v st'. conv_view env st = Some (Inr (v, st')) \<and> conv_inv env dir evs st' \<and>
    view_inv evs st' \<and> cs_base st' = cs_base st \<and> cs_view st' = v \<and> cs_view_leaf st' = head_of evs (cs_base st) \<and>
    view_from es v \<and> (\<forall>ts. es = es0 @ ts \<longrightarrow> append_events (cs_view st) ts = Inr v) \<and>
    ((\<forall>ts. es \<noteq> es0 @ ts) \<longrightarrow> from_events es = Inr v))"

definition view_reading ::
    "local_store conv_env \<Rightarrow> str \<Rightarrow> event list \<Rightarrow> local_store conv \<Rightarrow> local_store conv \<Rightarrow> event list \<Rightarrow> event list \<Rightarrow> bool" where
  "view_reading env dir evs st st1 es0 es \<longleftrightarrow>
    head_ok evs (cs_base st) \<and> branch_of evs (head_of evs (cs_base st)) es \<and>
    branch_of evs (cs_view_leaf st) es0 \<and> view_from es0 (cs_view st) \<and>
    resolve_active_leaf env st = Inr (head_of evs (cs_base st), st1) \<and>
    conv_inv env dir evs st1 \<and> only_caches st st1"

lemma view_readingD:
  assumes "view_reading env dir evs st st1 es0 es"
  shows "head_ok evs (cs_base st)" "branch_of evs (head_of evs (cs_base st)) es" "branch_of evs (cs_view_leaf st) es0"
    "view_from es0 (cs_view st)" "resolve_active_leaf env st = Inr (head_of evs (cs_base st), st1)"
    "conv_inv env dir evs st1" "only_caches st st1" "distinct (map ev_id evs)"
  using assms by (simp_all add: view_reading_def conv_inv_def log_on_disk_def)

lemma view_inv_at_head:
  assumes "view_reading env dir evs st st1 es0 es" "cs_view_leaf st' = head_of evs (cs_base st)" "view_from es (cs_view st')"
  shows "view_inv evs st'"
  using view_readingD(2)[OF assms(1)] head_of_ok[OF view_readingD(1)[OF assms(1)]] assms(2,3) by (auto simp: view_inv_def)

lemma view_read_current:
  assumes rd: "view_reading env dir evs st st1 es0 es" and same: "head_of evs (cs_base st) = cs_view_leaf st"
  shows "view_read env dir evs st es0 es"
proof -
  note r = view_readingD[OF rd] and f = only_caches_fields[OF view_readingD(7)[OF rd]]
  have "es = es0" using branch_of_unique[OF r(2) _ r(8)] r(3) same by simp
  moreover have "conv_view env st = Some (Inr (cs_view st, st1))" using r(5) same f by (simp add: conv_view_def)
  ultimately show ?thesis unfolding view_read_def
    using r(4,6) f same view_inv_at_head[OF rd, of st1] by (intro exI[of _ "cs_view st"] exI[of _ st1]) simp
qed

lemma view_read_rebuilt:
  assumes rd: "view_reading env dir evs st st1 es0 es"
    and v: "conv_view env st = rebuild_at env (head_of evs (cs_base st)) st2"
    and st2: "conv_inv env dir evs st2" "cs_base st2 = cs_base st" and np: "\<forall>ts. es \<noteq> es0 @ ts"
  shows "view_read env dir evs st es0 es"
proof -
  note r = view_readingD[OF rd]
  obtain w st3 where w: "rebuild_at env (head_of evs (cs_base st)) st2 = Some (Inr (w, st3))" "from_events es = Inr w"
    "conv_inv env dir evs st3" "cs_view st3 = w" "cs_view_leaf st3 = head_of evs (cs_base st)" "cs_base st3 = cs_base st2"
    using rebuild_at_ok[OF st2(1) head_of_ok[OF r(1)] r(2)] by blast
  then show ?thesis unfolding view_read_def
    using v st2(2) np view_inv_at_head[OF rd, of st3] view_from_rebuilt by (intro exI[of _ w] exI[of _ st3]) auto
qed

abbreviation tail_fuel :: "'s conv \<Rightarrow> nat" where
  "tail_fuel st \<equiv> Suc (length (el_id_to_idx (cs_log st)))"

lemma view_read_extended:
  assumes rd: "view_reading env dir evs st st1 es0 es" and ne: "head_of evs (cs_base st) \<noteq> cs_view_leaf st"
    and tl: "tail_loop (tail_fuel st1) env (head_of evs (cs_base st)) [] st1 = Some (Inr (cs_view_leaf st, rev ts, st2))"
    and st2: "conv_inv env dir evs st2" "only_caches st1 st2" and e: "es = es0 @ ts"
  shows "view_read env dir evs st es0 es"
proof -
  let ?h = "head_of evs (cs_base st)"
  note r = view_readingD[OF rd] and f1 = only_caches_fields[OF view_readingD(7)[OF rd]] and f2 = only_caches_fields[OF st2(2)]
  obtain v where v: "append_events (cs_view st) ts = Inr v" using append_events_Inr by blast
  let ?st' = "st2\<lparr>cs_view := v, cs_view_leaf := ?h\<rparr>"
  have "conv_view env st = Some (Inr (v, ?st'))" using r(5) ne f1 f2 tl v by (simp add: conv_view_def)
  moreover have "view_from es v" unfolding e by (rule view_from_extend[OF r(4) v])
  ultimately show ?thesis unfolding view_read_def
    using st2(1) f1 f2 v e view_inv_at_head[OF rd, of ?st'] by (intro exI[of _ v] exI[of _ ?st']) (simp add: conv_inv_def)
qed

text \<open>A branch that does not pass through the cached leaf does not extend the cached branch.\<close>

lemma off_branch:
  assumes b: "is_branch evs is i" "i < length evs" and m: "is_branch evs is0 m" "m < length evs"
    and d: "distinct (map ev_id evs)" and notin: "m \<notin> set is"
  shows "stops_at evs (Some (ev_id (evs ! m))) is = None" "map ((!) evs) is \<noteq> map ((!) evs) is0 @ ts"
proof -
  have ne: "j = m" if "j \<in> set is" "ev_id (evs ! j) = ev_id (evs ! m)" for j
    using is_branch_le[OF b(1) that(1)] b(2) m(2) nth_eq_iff_index_eq[OF d, of j m] that(2) by auto
  then show "stops_at evs (Some (ev_id (evs ! m))) is = None" using notin by (auto simp: stops_at_def)
  show "map ((!) evs) is \<noteq> map ((!) evs) is0 @ ts"
  proof
    assume e: "map ((!) evs) is = map ((!) evs) is0 @ ts"
    have "evs ! m \<in> set (map ((!) evs) is0)" using m(1) by (auto simp: is_branch_def)
    then have "evs ! m \<in> set (map ((!) evs) is)" unfolding e by simp
    then obtain j where "j \<in> set is" "evs ! j = evs ! m" by auto
    then show False using ne[of j] notin by simp
  qed
qed

lemma view_read_moved:
  assumes rd: "view_reading env dir evs st st1 es0 es" and ne: "head_of evs (cs_base st) \<noteq> cs_view_leaf st"
    and h: "head_of evs (cs_base st) = Some (ev_id (evs ! i))" "i < length evs"
    and b: "is_branch evs is i" "es = map ((!) evs) is"
  shows "view_read env dir evs st es0 es"
proof -
  let ?c = "cs_view_leaf st"
  note r = view_readingD[OF rd] and f1 = only_caches_fields[OF view_readingD(7)[OF rd]]
  have "i < tail_fuel st1" using conv_fuel[OF r(6)] h(2) by simp
  from tail_loop_ok[OF r(6) b(1) this, of "[]"] obtain st2 where
    tl: "tail_loop (tail_fuel st1) env (head_of evs (cs_base st)) [] st1 =
      Some (Inr (stops_at evs ?c is, map ((!) evs) (new_tail evs ?c is), st2))"
    and st2: "conv_inv env dir evs st2" "only_caches st1 st2" using h(1) f1(3) by auto
  note f2 = only_caches_fields[OF st2(2)]
  show ?thesis
  proof (cases "?c")
    case None
    then have "stops_at evs ?c is = None" "new_tail evs ?c is = rev is" by (simp_all add: stops_at_def new_tail_def)
    then show ?thesis using view_read_extended[OF rd ne _ st2, of es] tl r(3) None b(2) by (simp add: rev_map branch_of_def)
  next
    case c: (Some a)
    then obtain is0 m where m: "m < length evs" "ev_id (evs ! m) = a" "is_branch evs is0 m" "es0 = map ((!) evs) is0"
      using r(3) by (auto simp: branch_of_def)
    show ?thesis
    proof (cases "m \<in> set is")
      case True
      then obtain is1 rest where "is = is1 @ rest" "is_branch evs is1 m" by (rule is_branch_take[OF b(1)])
      then have e: "is = is0 @ rest" using is_branch_unique[OF _ m(3)] by blast
      then have "new_tail evs ?c is = rev rest" "stops_at evs ?c is = ?c"
        using new_tail_split[OF _ m(3) r(8), of rest i] b(1) m(2) c by simp_all
      then show ?thesis
        using view_read_extended[OF rd ne _ st2, of "map ((!) evs) rest"] tl m(4) b(2) e by (simp add: rev_map)
    next
      case False
      note off = off_branch[OF b(1) h(2) m(3,1) r(8) False]
      have "conv_view env st = rebuild_at env (head_of evs (cs_base st)) st2"
        using r(5) ne f1 f2 tl c off(1) m(2) by (simp add: conv_view_def)
      then show ?thesis using view_read_rebuilt[OF rd _ st2(1)] f1 f2 off(2) m(4) b(2) by simp
    qed
  qed
qed

lemma view_read_ok:
  assumes rd: "view_reading env dir evs st st1 es0 es"
  shows "view_read env dir evs st es0 es"
proof (cases "head_of evs (cs_base st) = cs_view_leaf st")
  case False
  note r = view_readingD[OF rd] and f1 = only_caches_fields[OF view_readingD(7)[OF rd]]
  show ?thesis
  proof (cases "head_of evs (cs_base st)")
    case None
    then have tl: "tail_loop (tail_fuel st1) env (head_of evs (cs_base st)) [] st1 = Some (Inr (None, [], st1))" by simp
    obtain l where l: "cs_view_leaf st = Some l" using False None by (cases "cs_view_leaf st") auto
    then have v: "conv_view env st = rebuild_at env (head_of evs (cs_base st)) st1"
      using r(5) False f1 tl by (simp add: conv_view_def None)
    have "es0 \<noteq> []" "es = []" using r(2,3) l None by (auto simp: branch_of_def is_branch_def)
    then show ?thesis using view_read_rebuilt[OF rd v r(6) f1(1)] by simp
  next
    case (Some l)
    then show ?thesis using r(2) view_read_moved[OF rd False] by (auto simp: branch_of_def)
  qed
qed (rule view_read_current[OF rd])

text \<open>
  C31: the cached view is the view of the active branch. Reading the view ends, and the result is
  that of replaying the active branch over a view built from a prefix of it: where the cached leaf
  lies on the active branch only the events after it are appended to the cached view, and after a
  move of HEAD off that branch the view is rebuilt from the whole branch. The cache then stands for
  the active branch, so the next read continues from it.
\<close>

theorem view_follows_branch:
  assumes "conv_inv env dir evs st" "head_ok evs (cs_base st)" "view_inv evs st"
    "branch_of evs (head_of evs (cs_base st)) es" "branch_of evs (cs_view_leaf st) es0"
  shows "\<exists>v st'. conv_view env st = Some (Inr (v, st')) \<and> conv_inv env dir evs st' \<and> view_inv evs st' \<and>
    cs_base st' = cs_base st \<and> cs_view st' = v \<and> cs_view_leaf st' = head_of evs (cs_base st) \<and> view_from es v \<and>
    (\<forall>ts. es = es0 @ ts \<longrightarrow> append_events (cs_view st) ts = Inr v) \<and>
    ((\<forall>ts. es \<noteq> es0 @ ts) \<longrightarrow> from_events es = Inr v)"
proof -
  have "distinct (map ev_id evs)" using assms(1) by (simp add: conv_inv_def log_on_disk_def)
  then have "view_from es0 (cs_view st)" using assms(3,5) branch_of_unique by (auto simp: view_inv_def)
  moreover obtain st1 where "resolve_active_leaf env st = Inr (head_of evs (cs_base st), st1)"
    "conv_inv env dir evs st1" "only_caches st st1" by (rule resolve_ok[OF assms(1)])
  ultimately have "view_reading env dir evs st st1 es0 es" using assms unfolding view_reading_def by blast
  from view_read_ok[OF this] show ?thesis unfolding view_read_def .
qed

text \<open>One event has been appended and the cache is still that of the empty conversation.\<close>

lemma view_follows_branch_witness:
  "\<exists>st v st'. conv_view sample_env st = Some (Inr (v, st')) \<and> append_events empty_view [sample_event] = Inr v \<and>
     cs_view_leaf st' = Some ''aaaaaaaa''"
proof -
  obtain s log where s: "store_inv s" "log_on_disk (local_files s) ''events'' ev_id [sample_event]"
    "log_complete ''events'' [sample_event] log" by (rule one_event_store)
  let ?st = "sample_conv\<lparr>cs_fs := s, cs_log := log, cs_base := sample_base\<lparr>leaf_event_id := Some ''aaaaaaaa''\<rparr>\<rparr>"
  have inv: "conv_inv sample_env ''events'' [sample_event] ?st"
    using s sample_event_facts by (simp add: conv_inv_def sample_env_def tree_ok_def)
  have b: "is_branch [sample_event] [0] 0" by (rule is_branch_root) (simp_all add: tree_parent_def sample_event_facts)
  have h: "head_ok [sample_event] (cs_base ?st)" "head_of [sample_event] (cs_base ?st) = Some ''aaaaaaaa''"
    by (simp_all add: head_ok_def head_of_def sample_event_facts)
  have br: "branch_of [sample_event] (head_of [sample_event] (cs_base ?st)) [sample_event]"
    unfolding h(2) branch_of_def option.case
    by (intro exI[of _ "[0]"] exI[of _ 0]) (use b in \<open>simp add: sample_event_facts\<close>)
  have br0: "branch_of [sample_event] (cs_view_leaf ?st) []" by (simp add: branch_of_def sample_conv_def)
  have "from_events [] = Inr empty_view" by code_simp
  then have "view_from [] (cs_view ?st)" by (simp add: view_from_def sample_conv_def)
  then have vi: "view_inv [sample_event] ?st" using br0 by (auto simp: view_inv_def sample_conv_def)
  from view_follows_branch[OF inv h(1) vi br br0] obtain v st' where
    "conv_view sample_env ?st = Some (Inr (v, st'))" "cs_view_leaf st' = head_of [sample_event] (cs_base ?st)"
    "\<forall>ts. [sample_event] = [] @ ts \<longrightarrow> append_events (cs_view ?st) ts = Inr v" by blast
  then show ?thesis using h(2) by (auto simp: sample_conv_def)
qed

text \<open>
  The walk back to the cached leaf has no guard against cycles, unlike \<open>path_to_root\<close>: on an event
  that is its own parent it needs more rounds than any number.
\<close>

lemma tail_walk_loops:
  assumes "get_index a (cs_log st) = Inr i" "i < el_length (cs_log st)" "dict_get (el_cache (cs_log st)) i = Some e"
    "ev_parent_id e = Some a" "a \<noteq> root_parent_id" "cs_view_leaf st \<noteq> Some a"
  shows "tail_loop fuel env (Some a) tail st = None"
proof (induction fuel arbitrary: tail)
  case (Suc fuel)
  have "get_item env i st = Inr (e, st)" using assms(2,3) by (simp add: get_item_def get_single_item_def Let_def)
  moreover have "effective_parent_id i e (cs_log st) = Inr (Some a)" using assms(4,5) by (simp add: effective_parent_id_def)
  ultimately show ?case using assms(1,6) Suc.IH by auto
qed (use assms(6) in auto)

end
