(* ===== verification/Conversation_Branches.thy ===== *)
theory Conversation_Branches
  imports Conversation_View
begin

text \<open>
  Moving HEAD within a conversation and copying a conversation: \<open>navigate_to\<close> and \<open>fork\<close> of
  \<open>conversation/impl/local_conversation.py\<close>.

  Of a fork the state is modelled; the new conversation with its agent and its empty log, which the
  constructor makes, is an argument. Fields of the base state without a part of their own here
  are serialised texts (\<open>other_fields\<close>); \<open>add_title\<close> is the dictionary update of the tags on them.
\<close>

section \<open>Navigation\<close>

definition leave_state :: "'s conv_env \<Rightarrow> 's conv \<times> (py_exc + 'a) \<Rightarrow> 's conv \<times> (py_exc + 'a)" where
  "leave_state env = (\<lambda>(st, r). case state_exit env st of (st1, Some e) \<Rightarrow> (st1, Inl e) | (st1, None) \<Rightarrow> (st1, r))"

definition set_head :: "str option \<Rightarrow> (str \<times> (base_state \<Rightarrow> base_state)) list" where
  "set_head event_id = [(''leaf_event_id'', \<lambda>b. b\<lparr>leaf_event_id := event_id\<rparr>),
     (''head_is_empty'', \<lambda>b. b\<lparr>head_is_empty := (event_id = None)\<rparr>)]"

definition navigate_to :: "'s conv_env \<Rightarrow> str option \<Rightarrow> 's conv \<Rightarrow> ('s conv \<times> (py_exc + unit)) option" where
  "navigate_to env event_id st =
     (let st0 = state_enter st in
      if event_id \<noteq> None \<and> \<not> log_contains (the event_id) (cs_log st0)
      then Some (leave_state env (st0, Inl (ValueError (''Unknown event_id: '' @ the event_id))))
      else case assign_all env (set_head event_id) st0 of
        (st1, Some e) \<Rightarrow> Some (leave_state env (st1, Inl e))
      | (st1, None) \<Rightarrow>
          (case rebuild_view env st1 of
             None \<Rightarrow> None
           | Some (Inl e) \<Rightarrow> Some (leave_state env (st1, Inl e))
           | Some (Inr (v, st2)) \<Rightarrow> Some (leave_state env (st2, Inr ()))))"

section \<open>Forks\<close>

text \<open>\<open>_copy_event_for_fork\<close> is the codec of the log; the copy is appended as it is, without a stamp.\<close>

definition copy_event_for_fork :: "'s conv_env \<Rightarrow> event \<Rightarrow> py_exc + event" where
  "copy_event_for_fork env e = ce_load env (ce_dump env e)"

fun copy_events :: "'s conv_env \<Rightarrow> event list \<Rightarrow> 's conv \<Rightarrow> 's conv \<times> py_exc option" where
  "copy_events env [] f = (f, None)"
| "copy_events env (e # es) f =
     (case rbind (copy_event_for_fork env e)
             (\<lambda>e'. log_append (ce_ops env) (ce_dump env) (ce_guard env) e' (cs_fs f) (cs_log f)) of
        Inl x \<Rightarrow> (f, Some x)
      | Inr (n, s, l) \<Rightarrow> copy_events env es (f\<lparr>cs_fs := s, cs_log := l\<rparr>))"

fun read_items :: "'s conv_env \<Rightarrow> nat list \<Rightarrow> 's conv \<Rightarrow> py_exc + event list \<times> 's conv" where
  "read_items env [] st = Inr ([], st)"
| "read_items env (i # is) st =
     rbind (get_item env i st) (\<lambda>(e, st1). rbind (read_items env is st1) (\<lambda>(es, st2). Inr (e # es, st2)))"

text \<open>The events a fork copies and the HEAD it gets.\<close>

definition fork_source :: "'s conv_env \<Rightarrow> str option \<Rightarrow> 's conv
    \<Rightarrow> (py_exc + (event list \<times> str option \<times> bool) \<times> 's conv) option" where
  "fork_source env from_event_id st =
     (case from_event_id of
        Some e \<Rightarrow>
          map_option (\<lambda>r. rbind r (\<lambda>(es, st1). Inr ((es, Some e, False), st1))) (branch_to env (Some e) None st)
      | None \<Rightarrow>
          Some (rbind (read_items env [0..<el_length (cs_log st)] st)
            (\<lambda>(es, st1). Inr ((es, leaf_event_id (cs_base st1), head_is_empty (cs_base st1)), st1))))"

definition copy_field :: "base_state \<Rightarrow> str \<Rightarrow> str \<times> (base_state \<Rightarrow> base_state)" where
  "copy_field src name = (name, \<lambda>b. b\<lparr>other_fields :=
     (case dict_get (other_fields src) name of None \<Rightarrow> dict_del name (other_fields b)
      | Some v \<Rightarrow> dict_put name v (other_fields b))\<rparr>)"

definition set_title :: "(str option \<Rightarrow> str \<Rightarrow> str) \<Rightarrow> str option \<Rightarrow> (str \<times> (base_state \<Rightarrow> base_state)) list" where
  "set_title add_title title =
     (case title of None \<Rightarrow> []
      | Some t \<Rightarrow> [(''tags'', \<lambda>b. b\<lparr>other_fields :=
          dict_put ''tags'' (add_title (dict_get (other_fields b) ''tags'') t) (other_fields b)\<rparr>)])"

definition fork_head :: "str option \<Rightarrow> bool \<Rightarrow> (str \<times> (base_state \<Rightarrow> base_state)) list" where
  "fork_head leaf no_head = [(''leaf_event_id'', \<lambda>b. b\<lparr>leaf_event_id := leaf\<rparr>),
     (''head_is_empty'', \<lambda>b. b\<lparr>head_is_empty := no_head\<rparr>)]"

definition fork_updates :: "base_state \<Rightarrow> (str option \<Rightarrow> str \<Rightarrow> str) \<Rightarrow> str option \<Rightarrow> bool \<Rightarrow> (str \<times> (base_state \<Rightarrow> base_state)) list" where
  "fork_updates src add_title title reset_metrics =
     map (copy_field src) [''activated_knowledge_skills'', ''activated_path_rules'', ''agent_state'']
     @ set_title add_title title
     @ (if reset_metrics then [] else [copy_field src ''stats''])"

text \<open>Filling the new conversation \<open>f\<close>.\<close>

definition fill_fork :: "'s conv_env \<Rightarrow> event list \<Rightarrow> str option \<Rightarrow> bool \<Rightarrow> (str \<times> (base_state \<Rightarrow> base_state)) list
    \<Rightarrow> 's conv \<Rightarrow> ('s conv \<times> (py_exc + unit)) option" where
  "fill_fork env es leaf no_head updates f =
     (case copy_events env es f of
        (f1, Some x) \<Rightarrow> Some (f1, Inl x)
      | (f1, None) \<Rightarrow>
          (case assign_all env (fork_head leaf no_head) f1 of
             (f2, Some x) \<Rightarrow> Some (f2, Inl x)
           | (f2, None) \<Rightarrow>
               (case rebuild_view env f2 of
                  None \<Rightarrow> None
                | Some (Inl x) \<Rightarrow> Some (f2, Inl x)
                | Some (Inr (v, f3)) \<Rightarrow>
                    (case assign_all env updates f3 of
                       (f4, Some x) \<Rightarrow> Some (f4, Inl x)
                     | (f4, None) \<Rightarrow> Some (f4, Inr ())))))"

definition fork_conv :: "'s conv_env \<Rightarrow> 's conv_env \<Rightarrow> (str option \<Rightarrow> str \<Rightarrow> str) \<Rightarrow> str option \<Rightarrow> bool \<Rightarrow> str option
    \<Rightarrow> 's conv \<Rightarrow> 's conv \<Rightarrow> ('s conv \<times> (py_exc + 's conv)) option" where
  "fork_conv env fork_env add_title title reset_metrics from_event_id f st =
     (let st0 = state_enter st in
      if from_event_id \<noteq> None \<and> \<not> log_contains (the from_event_id) (cs_log st0)
      then Some (leave_state env (st0, Inl (ValueError (''Unknown from_event_id: '' @ the from_event_id))))
      else case fork_source env from_event_id st0 of
        None \<Rightarrow> None
      | Some (Inl x) \<Rightarrow> Some (leave_state env (st0, Inl x))
      | Some (Inr ((es, leaf, no_head), st1)) \<Rightarrow>
          (case fill_fork fork_env es leaf no_head (fork_updates (cs_base st1) add_title title reset_metrics) f of
             None \<Rightarrow> None
           | Some (f1, Inl x) \<Rightarrow> Some (leave_state env (st1, Inl x))
           | Some (f1, Inr _) \<Rightarrow> Some (leave_state env (st1, Inr f1))))"

section \<open>Writing the base state leaves the log alone\<close>

definition events_dir :: "str \<Rightarrow> bool" where
  "events_dir dir \<longleftrightarrow> dir \<noteq> base_state_file \<and> \<not> py_startswith dir (base_state_file @ [slash])"

lemma in_dir_not_base: "in_dir dir nm \<noteq> base_state_file"
proof
  assume "in_dir dir nm = base_state_file"
  then have "slash \<in> set base_state_file" by (metis in_dir_def in_set_conv_decomp append_Cons append_Nil)
  then show False by (simp add: base_state_file_def slash_def)
qed

lemma log_on_disk_base:
  assumes "log_on_disk D dir dump evs" and "\<forall>p. p \<noteq> base_state_file \<longrightarrow> D' p = D p" and "events_dir dir"
  shows "log_on_disk D' dir dump evs"
proof -
  have "D' dir = D dir" "D' (in_dir dir nm) = D (in_dir dir nm)" for nm
    using assms(2,3) in_dir_not_base by (auto simp: events_dir_def)
  moreover have "\<not> under (dom D') dir"
  proof
    assume "under (dom D') dir"
    then obtain q where q: "q \<in> dom D'" "py_startswith dir (q @ [slash])" by (auto simp: under_def)
    then have "q \<in> dom D" using assms(2,3) by (metis domIff events_dir_def)
    then show False using assms(1) q(2) by (auto simp: log_on_disk_def under_def)
  qed
  ultimately show ?thesis using assms(1) unfolding log_on_disk_def event_at_def by simp
qed

lemma conv_inv_base:
  assumes "conv_inv env dir evs st" and "events_dir dir" and "cs_log st' = cs_log st" and "store_inv (cs_fs st')"
    and "\<forall>p. p \<noteq> base_state_file \<longrightarrow> local_files (cs_fs st') p = local_files (cs_fs st) p"
  shows "conv_inv env dir evs st'"
  using assms log_on_disk_base unfolding conv_inv_def by metis


section \<open>Assignments keep the conversation\<close>

text \<open>What assigning fields of the base state keeps, inside and outside of a block.\<close>

definition saved_conv :: "local_store conv_env \<Rightarrow> str \<Rightarrow> event list \<Rightarrow> local_store conv \<Rightarrow> bool" where
  "saved_conv env dir evs st \<longleftrightarrow> conv_inv env dir evs st \<and> base_saved env st \<and> events_dir dir"

definition base_fits :: "local_store conv_env \<Rightarrow> local_store conv \<Rightarrow> base_state \<Rightarrow> bool" where
  "base_fits env st b \<longleftrightarrow> local_fits (cs_fs st) (ce_dump_base env b)"

definition base_change :: "local_store conv \<Rightarrow> local_store conv \<Rightarrow> bool" where
  "base_change st st' \<longleftrightarrow> cs_log st' = cs_log st \<and> cs_view st' = cs_view st \<and> cs_view_leaf st' = cs_view_leaf st
     \<and> cs_save_depth st' = cs_save_depth st \<and> local_fits (cs_fs st') = local_fits (cs_fs st)"

lemma base_change_refl [simp]: "base_change st st"
  by (simp add: base_change_def)

lemma base_change_trans: "base_change a b \<Longrightarrow> base_change b c \<Longrightarrow> base_change a c"
  by (simp add: base_change_def)

lemma set_attr_saved:
  assumes "saved_conv env dir evs st" and "base_fits env st (upd (cs_base st))"
  shows "\<exists>st'. set_attr env name upd st = (st', None) \<and> saved_conv env dir evs st' \<and> base_change st st'
     \<and> cs_base st' = upd (cs_base st)"
proof -
  note b = assms(1)[unfolded saved_conv_def base_saved_def]
  show ?thesis
  proof (cases "upd (cs_base st) = cs_base st")
    case True
    then show ?thesis using b assms(1) by (intro exI [of _ st]) (simp add: set_attr_def Let_def)
  next
    case changed: False
    show ?thesis
    proof (cases "0 < cs_save_depth st")
      case True
      let ?st = "st\<lparr>cs_base := upd (cs_base st), cs_dirty := True, cs_notified := cs_notified st
          @ (if cs_callback st \<and> name \<notin> {''leaf_event_id'', ''head_is_empty''} then [name] else [])\<rparr>"
      have "set_attr env name upd st = (?st, None)" using b True changed by (simp add: set_attr_in_block)
      moreover have "saved_conv env dir evs ?st"
        using b True by (auto simp: saved_conv_def base_saved_def conv_inv_def)
      ultimately show ?thesis by (intro exI [of _ ?st]) (simp add: base_change_def)
    next
      case False
      then have d: "cs_save_depth st = 0" "\<not> cs_dirty st" using b by (auto split: if_splits)
      let ?st1 = "st\<lparr>cs_base := upd (cs_base st)\<rparr>"
      obtain s where s: "save_base_state env ?st1 = Inr (?st1\<lparr>cs_fs := s\<rparr>)" "store_inv s"
        "local_files s = (local_files (cs_fs ?st1))(base_state_file \<mapsto> ce_dump_base env (cs_base ?st1))"
        "local_fits s = local_fits (cs_fs ?st1)"
        "\<not> below (dom (local_files s)) base_state_file" "\<not> under (dom (local_files s)) base_state_file"
        by (rule save_base_state_ok [of env ?st1]) (use b assms(2) in \<open>simp_all add: base_fits_def\<close>)
      let ?st2 = "?st1\<lparr>cs_fs := s, cs_notified := cs_notified st
          @ (if cs_callback st \<and> name \<notin> {''leaf_event_id'', ''head_is_empty''} then [name] else [])\<rparr>"
      have "set_attr env name upd st = (?st2, None)"
        using b d changed s(1) by (simp add: set_attr_def Let_def)
      moreover have "conv_inv env dir evs ?st2"
        by (rule conv_inv_base [of env dir evs st]) (use b s in simp_all)
      moreover have "base_saved env ?st2" using b d s by (simp add: base_saved_def)
      ultimately show ?thesis using b s(4) by (intro exI [of _ ?st2]) (simp add: base_change_def saved_conv_def)
    qed
  qed
qed

fun bases_of :: "base_state \<Rightarrow> (str \<times> (base_state \<Rightarrow> base_state)) list \<Rightarrow> base_state list" where
  "bases_of b [] = []"
| "bases_of b ((name, upd) # us) = upd b # bases_of (upd b) us"

lemma assign_all_saved:
  assumes "saved_conv env dir evs st" and "\<forall>b\<in>set (bases_of (cs_base st) us). base_fits env st b"
  shows "\<exists>st'. assign_all env us st = (st', None) \<and> saved_conv env dir evs st' \<and> base_change st st'
     \<and> cs_base st' = foldl (\<lambda>b (name, upd). upd b) (cs_base st) us"
  using assms
proof (induction us arbitrary: st)
  case (Cons u us)
  obtain name upd where u: "u = (name, upd)" by (cases u)
  obtain st1 where st1: "set_attr env name upd st = (st1, None)" "saved_conv env dir evs st1" "base_change st st1"
    "cs_base st1 = upd (cs_base st)"
    using set_attr_saved [OF Cons.prems(1)] Cons.prems(2) u by fastforce
  have "\<forall>b\<in>set (bases_of (cs_base st1) us). base_fits env st1 b"
    using Cons.prems(2) st1(3,4) u by (simp add: base_fits_def base_change_def)
  from Cons.IH [OF st1(2) this] show ?case using st1 u base_change_trans by fastforce
qed (auto intro: exI)

lemma state_enter_saved:
  "saved_conv env dir evs st \<Longrightarrow> saved_conv env dir evs (state_enter st)"
  by (auto simp: saved_conv_def base_saved_def conv_inv_def state_enter_def)

lemma state_exit_saved:
  assumes "saved_conv env dir evs st" and "0 < cs_save_depth st" and "base_fits env st (cs_base st)"
  shows "\<exists>st'. state_exit env st = (st', None) \<and> saved_conv env dir evs st' \<and> cs_base st' = cs_base st
     \<and> cs_log st' = cs_log st \<and> cs_view st' = cs_view st \<and> cs_view_leaf st' = cs_view_leaf st"
proof -
  obtain st' r where x: "state_exit env st = (st', r)" by fastforce
  have e: "r = None \<and> base_saved env st' \<and> cs_base st' = cs_base st \<and> cs_save_depth st' = cs_save_depth st - 1
      \<and> (\<forall>p. p \<noteq> base_state_file \<longrightarrow> local_files (cs_fs st') p = local_files (cs_fs st) p)"
    using base_saved_exit [of env st] assms x by (simp add: saved_conv_def base_fits_def)
  have "cs_log st' = cs_log st \<and> cs_view st' = cs_view st \<and> cs_view_leaf st' = cs_view_leaf st"
    using x by (auto simp: state_exit_def Let_def save_base_state_def rbind_def split: if_splits sum.splits option.splits)
  moreover have "conv_inv env dir evs st'"
    by (rule conv_inv_base [of env dir evs st]) (use assms e calculation in \<open>simp_all add: saved_conv_def base_saved_def\<close>)
  ultimately show ?thesis using x e assms(1) by (simp add: saved_conv_def)
qed

text \<open>The view rebuilt for a leaf, as a change of the caches and the cached view only.\<close>

lemma rebuild_saved:
  assumes "saved_conv env dir evs st" and "head_ok evs (cs_base st)" and "branch_of evs (head_of evs (cs_base st)) es"
  shows "\<exists>v st'. rebuild_view env st = Some (Inr (v, st')) \<and> from_events es = Inr v \<and> saved_conv env dir evs st'
     \<and> cs_view st' = v \<and> cs_view_leaf st' = head_of evs (cs_base st) \<and> cs_base st' = cs_base st
     \<and> cs_save_depth st' = cs_save_depth st \<and> local_fits (cs_fs st') = local_fits (cs_fs st)"
proof -
  have inv: "conv_inv env dir evs st" using assms(1) by (simp add: saved_conv_def)
  let ?l = "head_of evs (cs_base st)"
  obtain st1 where st1: "resolve_active_leaf env st = Inr (?l, st1)" "conv_inv env dir evs st1" "only_caches st st1"
    by (rule resolve_ok [OF inv])
  have d: "distinct (map ev_id evs)" using inv by (simp add: conv_inv_def log_on_disk_def)
  obtain es1 where e: "branch_of evs ?l es1" "\<And>limit. \<exists>st'. branch_to env ?l limit st1 =
      Some (Inr (if ?l = None then [] else keep_last limit es1, st')) \<and> conv_inv env dir evs st' \<and> only_caches st1 st'"
    by (rule branch_to_ok [OF st1(2), of ?l]) (erule head_of_ok [OF assms(2)], rule that)
  have "es1 = es" by (rule branch_of_unique [OF e(1) assms(3) d])
  moreover have "?l = None \<Longrightarrow> es = []" using assms(3) by (simp add: branch_of_def)
  ultimately have "(if ?l = None then [] else keep_last None es1) = es" by (simp add: keep_last_def)
  with e(2) [of None] obtain st2 where st2: "branch_to env ?l None st1 = Some (Inr (es, st2))" "conv_inv env dir evs st2" "only_caches st1 st2"
    by auto
  have oc: "only_caches st st2" by (rule only_caches_trans [OF st1(3) st2(3)])
  note f = only_caches_fields [OF oc]
  obtain v where v: "from_events es = Inr v" using from_events_Inr by blast
  have "base_saved env st2"
    using assms(1) oc st2(2) unfolding saved_conv_def base_saved_def only_caches_def conv_inv_def
    by (metis (no_types, lifting) conv.select_convs conv.surjective conv.update_convs(1,2))
  then have "saved_conv env dir evs (st2\<lparr>cs_view := v, cs_view_leaf := ?l\<rparr>)"
    using st2(2) assms(1) by (auto simp: saved_conv_def base_saved_def conv_inv_def)
  moreover have "rebuild_view env st = Some (Inr (v, st2\<lparr>cs_view := v, cs_view_leaf := ?l\<rparr>))"
    using st1(1) st2(1) v by (simp add: rebuild_view_def rebuild_at_def)
  ultimately show ?thesis using v f by (intro exI [of _ v] exI [of _ "st2\<lparr>cs_view := v, cs_view_leaf := ?l\<rparr>"]) simp
qed

section \<open>Moving HEAD\<close>

text \<open>Inside of a block an assignment touches the fields only; a block that saves nothing ends as it began.\<close>

lemma assign_block_saved:
  assumes "saved_conv env dir evs st" and "0 < cs_save_depth st"
  shows "\<exists>st'. assign_all env us st = (st', None) \<and> saved_conv env dir evs st' \<and> base_change st st'
     \<and> cs_base st' = foldl (\<lambda>b (name, upd). upd b) (cs_base st) us"
  using assms
proof (induction us arbitrary: st)
  case (Cons u us)
  obtain name upd where u: "u = (name, upd)" by (cases u)
  note b = Cons.prems(1)[unfolded saved_conv_def base_saved_def]
  have a: "snd (set_attr env name upd st) = None" and c: "cs_base (fst (set_attr env name upd st)) = upd (cs_base st)"
    and ch: "base_change st (fst (set_attr env name upd st))"
    and s: "saved_conv env dir evs (fst (set_attr env name upd st))"
    using b Cons.prems(2) by (auto simp: set_attr_in_block base_change_def saved_conv_def base_saved_def conv_inv_def)
  obtain st1 r where st1: "set_attr env name upd st = (st1, r)" by (cases "set_attr env name upd st")
  then have st1': "r = None" "cs_base st1 = upd (cs_base st)" "base_change st st1" "saved_conv env dir evs st1"
    using a c ch s by simp_all
  have "0 < cs_save_depth st1" using st1'(3) Cons.prems(2) by (simp add: base_change_def)
  from Cons.IH [OF st1'(4) this] obtain st' where "assign_all env us st1 = (st', None)" "saved_conv env dir evs st'"
    "base_change st1 st'" "cs_base st' = foldl (\<lambda>b (name, upd). upd b) (upd (cs_base st)) us"
    by (auto simp: st1'(2))
  then show ?case using st1 st1'(1) u base_change_trans [OF st1'(3)] by (intro exI [of _ st']) simp
qed (auto intro: exI)

lemma exit_after_reads:
  assumes "saved_conv env dir evs st" and "conv_inv env dir evs st1" and "only_caches (state_enter st) st1"
  shows "\<exists>st'. state_exit env st1 = (st', None) \<and> saved_conv env dir evs st' \<and> only_caches st st'"
proof -
  note oc = only_caches_fields [OF assms(3)]
  have d: "cs_save_depth st1 - 1 = cs_save_depth st" "cs_dirty st1 = cs_dirty st"
    using oc(4,6) by (simp_all add: state_enter_def)
  note b = assms(1)[unfolded saved_conv_def base_saved_def]
  let ?st' = "st1\<lparr>cs_save_depth := cs_save_depth st\<rparr>"
  have "state_exit env st1 = (?st', None)"
    using b d by (auto simp: state_exit_def Let_def split: if_splits)
  moreover have e: "st1 = (state_enter st)\<lparr>cs_fs := cs_fs st1, cs_log := cs_log st1\<rparr>"
    using assms(3) by (simp add: only_caches_def)
  have "only_caches st ?st'"
    unfolding only_caches_def using oc(7,8) by (subst e) (simp add: state_enter_def)
  moreover have "conv_inv env dir evs ?st'" using assms(2) by (simp add: conv_inv_def)
  moreover have "base_saved env ?st'"
    using b oc d calculation(3) by (simp add: base_saved_def state_enter_def conv_inv_def)
  ultimately show ?thesis using assms(1) by (auto simp: saved_conv_def)
qed

lemma knows_events:
  assumes "conv_inv env dir evs st"
  shows "log_contains x (cs_log st) \<longleftrightarrow> x \<in> ev_id ` set evs"
  using assms local_log.complete_contains by (auto simp: conv_inv_def)


text \<open>
  C25: Navigating moves HEAD and nothing else. To a known event, or to the empty tree, it always
  succeeds: HEAD is that event, the view is rebuilt from its branch, the log is the same, and what is
  appended next without a parent of its own becomes a child of that event, or a second root. An unknown
  event is refused and the state is as it was.
\<close>

theorem navigate_moves_head:
  assumes "saved_conv env dir evs st" and "branch_of evs target es"
    and "base_fits env st ((cs_base st)\<lparr>leaf_event_id := target, head_is_empty := (target = None)\<rparr>)"
  shows "(\<exists>st'. navigate_to env target st = Some (st', Inr ()) \<and> saved_conv env dir evs st'
       \<and> cs_base st' = (cs_base st)\<lparr>leaf_event_id := target, head_is_empty := (target = None)\<rparr>
       \<and> head_of evs (cs_base st') = target \<and> from_events es = Inr (cs_view st') \<and> cs_view_leaf st' = target
       \<and> (\<forall>e. ev_parent_id e \<noteq> None \<or> stamp_parent_id env e st'
            = Inr (e\<lparr>ev_parent_id := if target = None \<and> evs \<noteq> [] then Some root_parent_id else target\<rparr>, st')))
     \<and> (\<forall>x. x \<in> ev_id ` set evs \<or> navigate_to env (Some x) st = Some (st, Inl (ValueError (''Unknown event_id: '' @ x))))"
proof (intro conjI allI)
  have inv: "conv_inv env dir evs st" using assms(1) by (simp add: saved_conv_def)
  let ?b = "(cs_base st)\<lparr>leaf_event_id := target, head_is_empty := (target = None)\<rparr>"
  have known: "target = None \<or> the target \<in> ev_id ` set evs"
    using assms(2) by (cases target) (auto simp: branch_of_def)
  note enter = state_enter_saved [OF assms(1)]
  have d0: "0 < cs_save_depth (state_enter st)" "cs_log (state_enter st) = cs_log st" "cs_base (state_enter st) = cs_base st"
    using assms(1) by (auto simp: state_enter_def saved_conv_def base_saved_def)
  obtain st1 where st1: "assign_all env (set_head target) (state_enter st) = (st1, None)" "saved_conv env dir evs st1"
    "base_change (state_enter st) st1" "cs_base st1 = ?b"
    using assign_block_saved [OF enter d0(1), of "set_head target"] d0(3) by (auto simp: set_head_def)
  have h: "head_ok evs (cs_base st1)" "head_of evs (cs_base st1) = target"
    using known st1(4) by (auto simp: head_ok_def head_of_def split: option.splits)
  obtain v st2 where st2: "rebuild_view env st1 = Some (Inr (v, st2))" "from_events es = Inr v" "saved_conv env dir evs st2"
    "cs_view st2 = v" "cs_view_leaf st2 = target" "cs_base st2 = ?b" "cs_save_depth st2 = cs_save_depth st1"
    "local_fits (cs_fs st2) = local_fits (cs_fs st1)"
    using rebuild_saved [OF st1(2) h(1), of es] assms(2) st1(4) unfolding h(2) by auto
  have fit: "base_fits env st2 (cs_base st2)" and d2: "0 < cs_save_depth st2"
    using assms(3) st1(3) st2(6-8) d0(1) by (simp_all add: base_fits_def base_change_def state_enter_def)
  obtain st3 where st3: "state_exit env st2 = (st3, None)" "saved_conv env dir evs st3" "cs_base st3 = ?b"
    "cs_view st3 = v" "cs_view_leaf st3 = target"
    using state_exit_saved [OF st2(3) d2 fit] st2(4-6) by auto
  have "\<not> (target \<noteq> None \<and> \<not> log_contains (the target) (cs_log (state_enter st)))"
    using known knows_events [OF inv] d0(2) by auto
  then have "navigate_to env target st = Some (st3, Inr ())"
    using st1(1) st2(1) st3(1) by (simp only: navigate_to_def Let_def if_False) (simp add: leave_state_def)
  moreover have "head_of evs (cs_base st3) = target" using h(2) st1(4) st3(3) by simp
  moreover have "ev_parent_id e \<noteq> None \<or> stamp_parent_id env e st3
      = Inr (e\<lparr>ev_parent_id := if target = None \<and> evs \<noteq> [] then Some root_parent_id else target\<rparr>, st3)" for e
  proof -
    have "el_length (cs_log st3) = length evs" using st3(2) by (simp add: saved_conv_def conv_inv_def log_complete_def)
    then show ?thesis using st3(3) by (auto simp: stamp_parent_id_def resolve_active_leaf_def split: option.splits)
  qed
  ultimately show "\<exists>st'. navigate_to env target st = Some (st', Inr ()) \<and> saved_conv env dir evs st'
       \<and> cs_base st' = ?b \<and> head_of evs (cs_base st') = target \<and> from_events es = Inr (cs_view st') \<and> cs_view_leaf st' = target
       \<and> (\<forall>e. ev_parent_id e \<noteq> None \<or> stamp_parent_id env e st'
            = Inr (e\<lparr>ev_parent_id := if target = None \<and> evs \<noteq> [] then Some root_parent_id else target\<rparr>, st'))"
    using st2(2) st3 by (intro exI [of _ st3]) simp
  have "state_exit env (state_enter st) = (st, None)"
    using assms(1) by (auto simp: state_exit_def state_enter_def Let_def saved_conv_def base_saved_def split: if_splits)
  then show "x \<in> ev_id ` set evs \<or> navigate_to env (Some x) st = Some (st, Inl (ValueError (''Unknown event_id: '' @ x)))" for x
    using knows_events [OF inv, of x] d0(2) by (auto simp: navigate_to_def leave_state_def)
qed


section \<open>The history of a fork\<close>

lemma base_file_outside: "\<not> py_startswith base_state_file (q @ [slash])"
proof
  assume "py_startswith base_state_file (q @ [slash])"
  then obtain t where "base_state_file = q @ slash # t" by (auto simp: py_startswith_iff)
  then have "slash \<in> set base_state_file" by (metis in_set_conv_decomp)
  then show False by (simp add: base_state_file_def slash_def)
qed

lemma events_dir_outside:
  assumes "events_dir dir" and "py_startswith p (dir @ [slash])"
  shows "\<not> py_startswith p (base_state_file @ [slash])"
proof
  assume "py_startswith p (base_state_file @ [slash])"
  then obtain x y where e: "p = dir @ slash # x" "p = base_state_file @ slash # y"
    using assms(2) unfolding py_startswith_iff by auto
  then consider (eq) "dir = base_state_file" | (longer) u where "dir = base_state_file @ u" "u \<noteq> []" "u @ slash # x = slash # y"
    | (shorter) u where "base_state_file = dir @ u" "u \<noteq> []" "slash # x = u @ slash # y"
    unfolding e(1) append_eq_append_conv2 by (metis append_Nil append_Nil2)
  then show False
  proof cases
    case longer
    then obtain u' where "u = slash # u'" by (cases u) auto
    then show False using longer(1) assms(1) by (auto simp: events_dir_def py_startswith_iff)
  next
    case shorter
    then obtain u' where "u = slash # u'" by (cases u) auto
    then have "slash \<in> set base_state_file" using shorter(1) by (metis in_set_conv_decomp append_Cons)
    then show False by (simp add: base_state_file_def slash_def)
  qed (use assms(1) in \<open>simp add: events_dir_def\<close>)
qed

text \<open>Copying one event, and all of them.\<close>

definition copies_fit :: "local_store conv_env \<Rightarrow> local_store conv \<Rightarrow> event list \<Rightarrow> bool" where
  "copies_fit env f es \<longleftrightarrow> local_fits (cs_fs f) '''' \<and> (\<forall>e\<in>set es. local_fits (cs_fs f) (ce_dump env e))"

definition log_history :: "local_store conv_env \<Rightarrow> event list \<Rightarrow> bool" where
  "log_history env evs \<longleftrightarrow> tree_ok evs \<and> codec_ok (ce_dump env) (ce_load env) evs \<and> distinct (map ev_id evs)
     \<and> (\<forall>e\<in>set evs. uuid_like (ev_id e))"

lemma log_history_prefix: "log_history env (evs @ es) \<Longrightarrow> log_history env evs"
proof -
  assume a: "log_history env (evs @ es)"
  have "\<exists>j<i. ev_id (evs ! j) = p" if i: "i < length evs" and p: "ev_parent_id (evs ! i) = Some p" "p \<noteq> root_parent_id" for i p
  proof -
    have "i < length (evs @ es)" "ev_parent_id ((evs @ es) ! i) = Some p" using i p by (simp_all add: nth_append)
    then obtain j where "j < i" "ev_id ((evs @ es) ! j) = p" using a p(2) unfolding log_history_def tree_ok_def by blast
    then show ?thesis using i by (intro exI [of _ j]) (simp add: nth_append)
  qed
  then show ?thesis using a by (auto simp: log_history_def tree_ok_def codec_ok_def)
qed

lemma copied_parent:
  assumes "log_history env (evs @ [e])"
  shows "ev_parent_id e \<in> {None, Some root_parent_id} \<or> the (ev_parent_id e) \<in> ev_id ` set evs"
proof (cases "ev_parent_id e")
  case (Some p)
  have "\<exists>j<length evs. ev_id ((evs @ [e]) ! j) = p" if "p \<noteq> root_parent_id"
    using assms that Some unfolding log_history_def tree_ok_def by (metis length_append_singleton lessI nth_append_length)
  then have "p = root_parent_id \<or> p \<in> ev_id ` set evs" by (metis image_eqI nth_append nth_mem)
  then show ?thesis using Some by auto
qed simp

lemma copy_event_ok:
  assumes "saved_conv env dir evs f" and "log_history env (evs @ [e])" and "copies_fit env f [e]"
  shows "\<exists>n s l. rbind (copy_event_for_fork env e) (\<lambda>e'. log_append (ce_ops env) (ce_dump env) (ce_guard env) e' (cs_fs f) (cs_log f))
       = Inr (n, s, l) \<and> saved_conv env dir (evs @ [e]) (f\<lparr>cs_fs := s, cs_log := l\<rparr>) \<and> local_fits s = local_fits (cs_fs f)"
proof -
  note b = assms(1)[unfolded saved_conv_def base_saved_def conv_inv_def log_complete_def]
  note h = assms(2)[unfolded log_history_def]
  have "copy_event_for_fork env e = Inr e" using h by (simp add: copy_event_for_fork_def codec_ok_def)
  moreover obtain s l where s: "log_append local_ops (ce_dump env) None e (cs_fs f) (cs_log f) = Inr (length evs, s, l)"
    "store_inv s" "log_on_disk (local_files s) dir (ce_dump env) (evs @ [e])" "log_complete dir (evs @ [e]) l"
    "local_fits s = local_fits (cs_fs f)"
    "\<And>p. \<not> py_startswith p (dir @ [slash]) \<Longrightarrow> local_files s p = local_files (cs_fs f) p"
    using local_log.append_ok_frame [of "cs_fs f" dir "ce_dump env" evs "cs_log f" e] b h assms(3) copied_parent [OF assms(2)]
    by (auto simp: copies_fit_def)
  moreover have "\<not> below (dom (local_files s)) base_state_file" "\<not> under (dom (local_files s)) base_state_file"
  proof -
    show "\<not> under (dom (local_files s)) base_state_file" using base_file_outside by (simp add: under_def)
    show "\<not> below (dom (local_files s)) base_state_file"
    proof
      assume "below (dom (local_files s)) base_state_file"
      then obtain q where q: "q \<in> dom (local_files s)" "py_startswith q (base_state_file @ [slash])" by (auto simp: below_def)
      then have "\<not> py_startswith q (dir @ [slash])" using events_dir_outside b by blast
      then have "q \<in> dom (local_files (cs_fs f))" using s(6) q(1) by (simp add: domIff)
      then show False using b q(2) by (auto simp: below_def)
    qed
  qed
  moreover have "local_files s base_state_file = local_files (cs_fs f) base_state_file" by (rule s(6)) (rule base_file_outside)
  ultimately show ?thesis using b h by (simp add: saved_conv_def base_saved_def conv_inv_def split: if_splits)
qed

lemma copy_events_ok:
  "saved_conv env dir evs f \<Longrightarrow> log_history env (evs @ es) \<Longrightarrow> copies_fit env f es \<Longrightarrow>
   \<exists>s l. copy_events env es f = (f\<lparr>cs_fs := s, cs_log := l\<rparr>, None) \<and> saved_conv env dir (evs @ es) (f\<lparr>cs_fs := s, cs_log := l\<rparr>)
     \<and> local_fits s = local_fits (cs_fs f)"
proof (induction es arbitrary: evs f)
  case Nil
  then show ?case by (intro exI [of _ "cs_fs f"] exI [of _ "cs_log f"]) simp
next
  case (Cons e es)
  have h: "log_history env (evs @ [e])" using log_history_prefix [of env "evs @ [e]" es] Cons.prems(2) by simp
  obtain n s l where s: "rbind (copy_event_for_fork env e) (\<lambda>e'. log_append (ce_ops env) (ce_dump env) (ce_guard env) e' (cs_fs f) (cs_log f))
       = Inr (n, s, l)" "saved_conv env dir (evs @ [e]) (f\<lparr>cs_fs := s, cs_log := l\<rparr>)" "local_fits s = local_fits (cs_fs f)"
    using copy_event_ok [OF Cons.prems(1) h] Cons.prems(3) by (auto simp: copies_fit_def)
  have "copies_fit env (f\<lparr>cs_fs := s, cs_log := l\<rparr>) es" using Cons.prems(3) s(3) by (simp add: copies_fit_def)
  from Cons.IH [OF s(2) _ this] Cons.prems(2) obtain s' l' where
    "copy_events env es (f\<lparr>cs_fs := s, cs_log := l\<rparr>) = (f\<lparr>cs_fs := s', cs_log := l'\<rparr>, None)"
    "saved_conv env dir (evs @ e # es) (f\<lparr>cs_fs := s', cs_log := l'\<rparr>)" "local_fits s' = local_fits s" by auto
  then show ?case using s(1,3) by (intro exI [of _ s'] exI [of _ l']) simp
qed


text \<open>A branch copied on its own is a chain, with the same parents.\<close>

lemma branch_distinct:
  assumes "is_branch evs is i" and "distinct (map ev_id evs)"
  shows "distinct (map ev_id (map ((!) evs) is))" and "set is \<subseteq> {..<length evs}"
proof -
  show len: "set is \<subseteq> {..<length evs}"
    using is_branch_le [OF assms(1)] assms(1) by (fastforce simp: is_branch_def)
  have "distinct is" using is_branch_sorted [OF assms(1)] strict_sorted_iff by blast
  moreover have "inj_on (\<lambda>x. ev_id (evs ! x)) (set is)"
    using len nth_eq_iff_index_eq [OF assms(2)] by (intro inj_onI) (metis length_map lessThan_iff nth_map subsetD)
  ultimately show "distinct (map ev_id (map ((!) evs) is))" by (simp add: distinct_map comp_def)
qed

lemma branch_parents:
  assumes "is_branch evs is i" and "tree_ok evs" and "distinct (map ev_id evs)" and "k < length is"
  shows "tree_parent (map ((!) evs) is) k = (if k = 0 then None else Some (k - 1))"
    and "\<And>p. ev_parent_id (evs ! (is ! k)) = Some p \<Longrightarrow> p \<noteq> root_parent_id \<Longrightarrow> 0 < k \<and> p = ev_id (evs ! (is ! (k - 1)))"
proof -
  let ?es = "map ((!) evs) is"
  note d = branch_distinct(1) [OF assms(1,3)]
  have ik: "is ! k < length evs" using branch_distinct(2) [OF assms(1,3)] nth_mem [OF assms(4)] by auto
  have up: "tree_parent evs (is ! k) = (if k = 0 then None else Some (is ! (k - 1)))"
    using assms(1,4) by (cases k) (auto simp: is_branch_def hd_conv_nth)
  show ex: "0 < k \<and> p = ev_id (evs ! (is ! (k - 1)))"
    if p: "ev_parent_id (evs ! (is ! k)) = Some p" "p \<noteq> root_parent_id" for p
    using tree_parent_explicit [OF assms(2,3) ik p] up by (auto split: if_splits)
  show "tree_parent ?es k = (if k = 0 then None else Some (k - 1))"
  proof (cases "ev_parent_id (evs ! (is ! k))")
    case None
    then show ?thesis using assms(4) by (simp add: tree_parent_def)
  next
    case (Some p)
    show ?thesis
    proof (cases "p = root_parent_id")
      case True
      then have "k = 0" using up Some by (auto simp: tree_parent_def split: if_splits)
      then show ?thesis using True Some assms(4) by (simp add: tree_parent_def)
    next
      case False
      note e = ex [OF Some False]
      then have k: "k - 1 < length ?es" "ev_id (?es ! (k - 1)) = p" using assms(4) by simp_all
      then have "find_index_from 0 (\<lambda>e. ev_id e = p) ?es \<noteq> None" by (auto simp: find_index_from_None)
      then obtain j where j: "find_index_from 0 (\<lambda>e. ev_id e = p) ?es = Some j" by blast
      then have "j < length ?es" "ev_id (?es ! j) = p" using find_index_from_Some [OF j] by auto
      then have "j = k - 1" using nth_eq_iff_index_eq [OF d, of j "k - 1"] k by simp
      then show ?thesis using j e Some False assms(4) by (simp add: tree_parent_def)
    qed
  qed
qed

lemma branch_history:
  assumes "log_history env evs" and "branch_of evs (Some l) es"
  shows "log_history env es" and "branch_of es (Some l) es"
proof -
  obtain "is" i where b: "i < length evs" "ev_id (evs ! i) = l" "is_branch evs is i" "es = map ((!) evs) is"
    using assms(2) by (auto simp: branch_of_def)
  have t: "tree_ok evs" "distinct (map ev_id evs)" using assms(1) by (simp_all add: log_history_def)
  note bp = branch_parents [OF b(3) t]
  have sub: "set es \<subseteq> set evs" using branch_distinct(2) [OF b(3) t(2)] b(4) by auto
  have ne: "is \<noteq> []" "last is = i" using b(3) by (simp_all add: is_branch_def)
  have "tree_ok es"
    unfolding tree_ok_def
  proof (intro allI impI)
    fix k p assume k: "k < length es" and p: "ev_parent_id (es ! k) = Some p \<and> p \<noteq> root_parent_id"
    then have "0 < k \<and> p = ev_id (evs ! (is ! (k - 1)))" using bp(2) [of k p] b(4) by simp
    then show "\<exists>j<k. ev_id (es ! j) = p" using k b(4) by (intro exI [of _ "k - 1"]) simp
  qed
  moreover have "distinct (map ev_id es)" using branch_distinct(1) [OF b(3) t(2)] b(4) by simp
  ultimately show "log_history env es" using assms(1) sub by (auto simp: log_history_def codec_ok_def)
  let ?n = "length es - 1"
  have n: "?n < length es" "es \<noteq> []" using ne b(4) by simp_all
  have "is_branch es [0..<length es] ?n"
    unfolding is_branch_def using n bp(1) b(4) by (auto simp: last_conv_nth)
  moreover have "ev_id (es ! ?n) = l" using n ne b(2,4) by (simp add: last_conv_nth)
  moreover have "es = map ((!) es) [0..<length es]" by (simp add: map_nth)
  ultimately show "branch_of es (Some l) es" using n(1) unfolding branch_of_def by auto
qed


section \<open>Forking\<close>

lemma read_items_ok:
  "conv_inv env dir evs st \<Longrightarrow> set is \<subseteq> {..<length evs} \<Longrightarrow>
   \<exists>st'. read_items env is st = Inr (map ((!) evs) is, st') \<and> conv_inv env dir evs st' \<and> only_caches st st'"
proof (induction "is" arbitrary: st)
  case Nil
  then show ?case by (intro exI [of _ st]) simp
next
  case (Cons i "is")
  obtain st1 where st1: "get_item env i st = Inr (evs ! i, st1)" "conv_inv env dir evs st1" "only_caches st st1"
    by (rule get_item_ok [OF Cons.prems(1), of i]) (use Cons.prems(2) in auto)
  obtain st2 where "read_items env is st1 = Inr (map ((!) evs) is, st2)" "conv_inv env dir evs st2" "only_caches st1 st2"
    using Cons.IH [OF st1(2)] Cons.prems(2) by auto
  then show ?case using st1 only_caches_trans [OF st1(3)] by (intro exI [of _ st2]) simp
qed

lemma bases_of_append: "bases_of b (us @ vs) = bases_of b us @ bases_of (foldl (\<lambda>b (name, upd). upd b) b us) vs"
  by (induction b us rule: bases_of.induct) auto

lemma bases_change:
  "base_change st st' \<Longrightarrow> \<forall>b\<in>B. base_fits env st b \<Longrightarrow> \<forall>b\<in>B. base_fits env st' b"
  by (simp add: base_fits_def base_change_def)

text \<open>What the updates of a fork do to its base state: they copy serialised fields and touch nothing else.\<close>

definition fork_fields_of :: "bool \<Rightarrow> base_state \<Rightarrow> base_state \<Rightarrow> bool" where
  "fork_fields_of reset_metrics src b \<longleftrightarrow>
     (\<forall>name\<in>{''activated_knowledge_skills'', ''activated_path_rules'', ''agent_state''}
         \<union> (if reset_metrics then {} else {''stats''}).
       dict_get (other_fields b) name = dict_get (other_fields src) name)"

lemma copy_field_get:
  "dict_get (other_fields (snd (copy_field src n) b)) m =
     (if m = n then dict_get (other_fields src) n else dict_get (other_fields b) m)"
  by (simp add: copy_field_def split: option.splits)

lemma set_title_get:
  "u \<in> set (set_title add_title title) \<Longrightarrow> m \<noteq> ''tags'' \<Longrightarrow> dict_get (other_fields (snd u b)) m = dict_get (other_fields b) m"
  by (auto simp: set_title_def split: option.splits)

definition on_fields :: "str \<times> (base_state \<Rightarrow> base_state) \<Rightarrow> bool" where
  "on_fields u \<longleftrightarrow> (\<forall>b. snd u b = b\<lparr>other_fields := other_fields (snd u b)\<rparr>)"

abbreviation updated :: "base_state \<Rightarrow> (str \<times> (base_state \<Rightarrow> base_state)) list \<Rightarrow> base_state" where
  "updated b us \<equiv> foldl (\<lambda>b (name, upd). upd b) b us"

lemma updated_simps: "updated b (u # us) = updated (snd u b) us"
  by (cases u) simp

lemma on_fields_updated:
  "\<forall>u\<in>set us. on_fields u \<Longrightarrow> updated b us = b\<lparr>other_fields := other_fields (updated b us)\<rparr>"
proof (induction us arbitrary: b)
  case (Cons u us)
  obtain X where x: "snd u b = b\<lparr>other_fields := X\<rparr>" using Cons.prems unfolding on_fields_def by (meson list.set_intros(1))
  obtain Y where y: "updated (snd u b) us = (snd u b)\<lparr>other_fields := Y\<rparr>" using Cons by (meson list.set_intros(2))
  have "updated (snd u b) us = b\<lparr>other_fields := Y\<rparr>" unfolding y by (simp add: x)
  then show ?case unfolding updated_simps by simp
qed simp

lemma fork_updates_result:
  shows "fork_fields_of reset_metrics src (updated b (fork_updates src add_title title reset_metrics))"
    and "updated b (fork_updates src add_title title reset_metrics)
      = b\<lparr>other_fields := other_fields (updated b (fork_updates src add_title title reset_metrics))\<rparr>"
proof -
  have title: "updated c (set_title add_title title) = (case title of None \<Rightarrow> c | Some t \<Rightarrow> snd (hd (set_title add_title title)) c)" for c
    by (simp add: set_title_def split: option.splits)
  have tags: "dict_get (other_fields (updated c (set_title add_title title))) m = dict_get (other_fields c) m" if "m \<noteq> ''tags''" for c m
    unfolding title using that by (auto simp: set_title_def split: option.splits)
  show "fork_fields_of reset_metrics src (updated b (fork_updates src add_title title reset_metrics))"
    by (cases reset_metrics)
      (simp_all add: fork_fields_of_def fork_updates_def updated_simps copy_field_get tags del: foldl_Cons)
  show "updated b (fork_updates src add_title title reset_metrics)
      = b\<lparr>other_fields := other_fields (updated b (fork_updates src add_title title reset_metrics))\<rparr>"
    by (rule on_fields_updated)
      (auto simp: fork_updates_def on_fields_def copy_field_def set_title_def split: option.splits if_splits)
qed

lemma fill_fork_ok:
  assumes "saved_conv env dir [] f" and "log_history env es" and "copies_fit env f es"
    and "\<forall>b\<in>set (bases_of (cs_base f) (fork_head leaf no_head @ us)). base_fits env f b"
    and "head_ok es ((cs_base f)\<lparr>leaf_event_id := leaf, head_is_empty := no_head\<rparr>)"
    and "head_of es ((cs_base f)\<lparr>leaf_event_id := leaf, head_is_empty := no_head\<rparr>) = target" and "branch_of es target br"
  shows "\<exists>f'. fill_fork env es leaf no_head us f = Some (f', Inr ()) \<and> saved_conv env dir es f'
     \<and> cs_base f' = foldl (\<lambda>b (name, upd). upd b) ((cs_base f)\<lparr>leaf_event_id := leaf, head_is_empty := no_head\<rparr>) us
     \<and> from_events br = Inr (cs_view f') \<and> cs_view_leaf f' = target"
proof -
  let ?b = "(cs_base f)\<lparr>leaf_event_id := leaf, head_is_empty := no_head\<rparr>"
  obtain s l where f1: "copy_events env es f = (f\<lparr>cs_fs := s, cs_log := l\<rparr>, None)"
    "saved_conv env dir es (f\<lparr>cs_fs := s, cs_log := l\<rparr>)" "local_fits s = local_fits (cs_fs f)"
    using copy_events_ok [of env dir "[]" f es] assms(1-3) by auto
  have fits: "\<forall>b\<in>set (bases_of (cs_base f) (fork_head leaf no_head)). base_fits env (f\<lparr>cs_fs := s, cs_log := l\<rparr>) b"
    "\<forall>b\<in>set (bases_of ?b us). base_fits env (f\<lparr>cs_fs := s, cs_log := l\<rparr>) b"
    using assms(4) f1(3) by (simp_all add: bases_of_append base_fits_def fork_head_def)
  obtain f2 where f2: "assign_all env (fork_head leaf no_head) (f\<lparr>cs_fs := s, cs_log := l\<rparr>) = (f2, None)" "saved_conv env dir es f2"
    "base_change (f\<lparr>cs_fs := s, cs_log := l\<rparr>) f2" "cs_base f2 = ?b"
    using assign_all_saved [OF f1(2), of "fork_head leaf no_head"] fits(1) by (auto simp: fork_head_def)
  obtain v f3 where f3: "rebuild_view env f2 = Some (Inr (v, f3))" "from_events br = Inr v" "saved_conv env dir es f3"
    "cs_view f3 = v" "cs_view_leaf f3 = target" "cs_base f3 = ?b" "local_fits (cs_fs f3) = local_fits (cs_fs f2)"
    using rebuild_saved [OF f2(2), of br] assms(5-7) unfolding f2(4) by auto
  have "\<forall>b\<in>set (bases_of (cs_base f3) us). base_fits env f3 b"
    using fits(2) f2(3) f3(6,7) by (simp add: base_fits_def base_change_def)
  from assign_all_saved [OF f3(3) this] obtain f4 where "assign_all env us f3 = (f4, None)" "saved_conv env dir es f4"
    "base_change f3 f4" "cs_base f4 = foldl (\<lambda>b (name, upd). upd b) ?b us" unfolding f3(6) by blast
  then show ?thesis using f1(1) f2(1) f3 by (intro exI [of _ f4]) (simp add: fill_fork_def base_change_def)
qed

lemma head_of_cong:
  "leaf_event_id b = leaf_event_id b' \<Longrightarrow> head_is_empty b = head_is_empty b' \<Longrightarrow> head_of evs b = head_of evs b'"
  by (simp add: head_of_def)

text \<open>What the source of a fork gives, read in a block of the source.\<close>

lemma fork_source_ok:
  assumes "conv_inv env dir evs st" and "branch_of evs target es"
    and "target = (case from_id of None \<Rightarrow> head_of evs (cs_base st) | Some e \<Rightarrow> Some e)"
  shows "\<exists>st1. fork_source env from_id st = Some (Inr (((case from_id of None \<Rightarrow> evs | Some _ \<Rightarrow> es),
       (case from_id of None \<Rightarrow> leaf_event_id (cs_base st) | Some e \<Rightarrow> Some e),
       (case from_id of None \<Rightarrow> head_is_empty (cs_base st) | Some _ \<Rightarrow> False)), st1))
     \<and> conv_inv env dir evs st1 \<and> only_caches st st1"
proof (cases from_id)
  case None
  have sub: "set [0..<length evs] \<subseteq> {..<length evs}" by auto
  have "el_length (cs_log st) = length evs" using assms(1) by (simp add: conv_inv_def log_complete_def)
  then obtain st1 where st1: "read_items env [0..<el_length (cs_log st)] st = Inr (evs, st1)" "conv_inv env dir evs st1" "only_caches st st1"
    using read_items_ok [OF assms(1) sub] by (auto simp: map_nth)
  have "cs_base st1 = cs_base st" using only_caches_fields [OF st1(3)] by simp
  then show ?thesis using st1 None by (simp add: fork_source_def)
next
  case (Some e)
  have d: "distinct (map ev_id evs)" using assms(1) by (simp add: conv_inv_def log_on_disk_def)
  have e: "e \<in> ev_id ` set evs" using assms(2,3) Some by (auto simp: branch_of_def)
  obtain es1 where b: "branch_of evs (Some e) es1" "\<And>limit. \<exists>st'. branch_to env (Some e) limit st =
      Some (Inr (if Some e = None then [] else keep_last limit es1, st')) \<and> conv_inv env dir evs st' \<and> only_caches st st'"
    by (rule branch_to_ok [OF assms(1), of "Some e"]) (use e in simp, rule that)
  have "es1 = es" using branch_of_unique [OF b(1) _ d] assms(2,3) Some by simp
  with b(2) [of None] show ?thesis using Some by (auto simp: fork_source_def keep_last_def)
qed

text \<open>
  C26: A fork has the history of its source, and the source keeps its own. A fork at a known event copies
  the branch that ends there and has that event as HEAD; a fork without one copies the whole log and has
  the HEAD of the source. Either way its active branch is the source's branch at that place, event by
  event, its view is the one of that branch, activated skills, path rules and the state of the agent
  are copied and no other part of its state is touched, and the source is as it was, its caches
  excepted. A fork at an unknown event is refused and changes nothing. The store takes the copies, and
  the new conversation, empty and with the codec of the source, can be saved.
\<close>

theorem fork_keeps_history:
  assumes "saved_conv env dir evs st" and "head_ok evs (cs_base st)"
    and "saved_conv fork_env fork_dir [] f" and "ce_dump fork_env = ce_dump env" "ce_load fork_env = ce_load env"
    and "target = (case from_id of None \<Rightarrow> head_of evs (cs_base st) | Some e \<Rightarrow> Some e)" and "branch_of evs target es"
    and "copied = (case from_id of None \<Rightarrow> evs | Some _ \<Rightarrow> es)" and "copies_fit fork_env f copied"
    and "leaf = (case from_id of None \<Rightarrow> leaf_event_id (cs_base st) | Some e \<Rightarrow> Some e)"
    and "no_head = (case from_id of None \<Rightarrow> head_is_empty (cs_base st) | Some _ \<Rightarrow> False)"
    and "\<forall>b\<in>set (bases_of (cs_base f) (fork_head leaf no_head
        @ fork_updates (cs_base st) add_title title reset_metrics)). base_fits fork_env f b"
  shows "(\<exists>st' f'. fork_conv env fork_env add_title title reset_metrics from_id f st = Some (st', Inr f')
       \<and> saved_conv env dir evs st' \<and> only_caches st st' \<and> saved_conv fork_env fork_dir copied f'
       \<and> head_of copied (cs_base f') = target \<and> branch_of copied target es
       \<and> from_events es = Inr (cs_view f') \<and> cs_view_leaf f' = target
       \<and> fork_fields_of reset_metrics (cs_base st) (cs_base f') \<and> exec_status (cs_base f') = exec_status (cs_base f))
     \<and> (\<forall>x. x \<in> ev_id ` set evs
          \<or> fork_conv env fork_env add_title title reset_metrics (Some x) f st
              = Some (st, Inl (ValueError (''Unknown from_event_id: '' @ x))))"
proof (intro conjI allI)
  have inv: "conv_inv env dir evs st" using assms(1) by (simp add: saved_conv_def)
  have d0: "cs_log (state_enter st) = cs_log st" "cs_base (state_enter st) = cs_base st" by (simp_all add: state_enter_def)
  have inv0: "conv_inv env dir evs (state_enter st)" using inv by (simp add: conv_inv_def state_enter_def)
  let ?b = "(cs_base f)\<lparr>leaf_event_id := leaf, head_is_empty := no_head\<rparr>"
  let ?us = "fork_updates (cs_base st) add_title title reset_metrics"
  obtain st1 where st1: "fork_source env from_id (state_enter st) = Some (Inr ((copied, leaf, no_head), st1))"
    "conv_inv env dir evs st1" "only_caches (state_enter st) st1"
    using fork_source_ok [OF inv0 assms(7), of from_id, unfolded d0(2), OF assms(6), folded assms(8,10,11)] by blast
  have base1: "cs_base st1 = cs_base st" using only_caches_fields [OF st1(3)] d0(2) by simp
  obtain st2 where st2: "state_exit env st1 = (st2, None)" "saved_conv env dir evs st2" "only_caches st st2"
    using exit_after_reads [OF assms(1) st1(2,3)] by blast
  have hist: "log_history env evs" using inv by (simp add: log_history_def conv_inv_def log_on_disk_def)
  have head: "branch_of copied target es" "log_history fork_env copied" "head_ok copied ?b" "head_of copied ?b = target"
  proof -
    have h: "log_history fork_env xs = log_history env xs" for xs
      using assms(4,5) by (simp add: log_history_def)
    show "branch_of copied target es" "log_history fork_env copied"
      using branch_history [OF hist] hist assms(6-8) h by (auto split: option.splits)
    then show "head_ok copied ?b" "head_of copied ?b = target"
      using assms(2,6,8,10,11) by (auto simp: head_ok_def head_of_def branch_of_def split: option.splits)
  qed
  obtain f' where f': "fill_fork fork_env copied leaf no_head ?us f = Some (f', Inr ())" "saved_conv fork_env fork_dir copied f'"
    "cs_base f' = updated ?b ?us" "from_events es = Inr (cs_view f')" "cs_view_leaf f' = target"
    using fill_fork_ok [OF assms(3) head(2) assms(9,12) head(3,4,1)] by blast
  note res = fork_updates_result [where reset_metrics = reset_metrics and src = "cs_base st" and b = ?b and add_title = add_title and title = title, folded f'(3)]
  have "head_of copied (cs_base f') = head_of copied ?b" by (subst res(2)) (rule head_of_cong; simp)
  then have "head_of copied (cs_base f') = target" using head(4) by simp
  moreover have "exec_status (cs_base f') = exec_status (cs_base f)" by (subst res(2)) simp
  moreover have "from_id \<noteq> None \<Longrightarrow> log_contains (the from_id) (cs_log (state_enter st))"
    using knows_events [OF inv] d0(1) assms(6,7) by (auto simp: branch_of_def)
  then have "fork_conv env fork_env add_title title reset_metrics from_id f st = Some (st2, Inr f')"
    using st1(1) st2(1) f'(1) base1 by (auto simp: fork_conv_def leave_state_def Let_def)
  ultimately show "\<exists>st' f'. fork_conv env fork_env add_title title reset_metrics from_id f st = Some (st', Inr f')
       \<and> saved_conv env dir evs st' \<and> only_caches st st' \<and> saved_conv fork_env fork_dir copied f'
       \<and> head_of copied (cs_base f') = target \<and> branch_of copied target es
       \<and> from_events es = Inr (cs_view f') \<and> cs_view_leaf f' = target
       \<and> fork_fields_of reset_metrics (cs_base st) (cs_base f') \<and> exec_status (cs_base f') = exec_status (cs_base f)"
    using st2(2,3) f'(2,4,5) head(1) res(1) by blast
  have "state_exit env (state_enter st) = (st, None)"
    using assms(1) by (auto simp: state_exit_def state_enter_def Let_def saved_conv_def base_saved_def split: if_splits)
  then show "x \<in> ev_id ` set evs
      \<or> fork_conv env fork_env add_title title reset_metrics (Some x) f st
          = Some (st, Inl (ValueError (''Unknown from_event_id: '' @ x)))" for x
    using knows_events [OF inv, of x] d0(1) by (auto simp: fork_conv_def leave_state_def)
qed

section \<open>Witnesses\<close>

lemma sample_saved: "saved_conv sample_env ''events'' [] sample_conv"
proof -
  have f: "local_files empty_store = (\<lambda>_. None)" by (auto simp: local_files_def empty_store_def)
  have "events_dir ''events''" by code_simp
  then show ?thesis
    using sample_conv_inv empty_store_ok(1)
    by (simp add: saved_conv_def base_saved_def sample_env_def sample_conv_def f below_def under_def)
qed

lemma sample_fits: "local_fits (cs_fs sample_conv) []" "local_fits (cs_fs sample_conv) ''b''"
    "local_fits (cs_fs sample_conv) ''aaaaaaaa''"
  unfolding sample_conv_def conv.simps by code_simp+

lemma sample_history: "log_history sample_env [sample_event]" "copies_fit sample_env sample_conv [sample_event]"
  "branch_of [sample_event] (Some ''aaaaaaaa'') [sample_event]"
proof -
  have env: "ce_dump sample_env = ev_id" "ce_load sample_env = sample_load" by (simp_all add: sample_env_def)
  show "log_history sample_env [sample_event]"
    using sample_event_facts by (simp add: log_history_def env tree_ok_def)
  show "copies_fit sample_env sample_conv [sample_event]"
    using sample_fits sample_event_facts by (simp add: copies_fit_def env)
  have "is_branch [sample_event] [0] 0" using sample_event_facts by (simp add: is_branch_def tree_parent_def)
  then show "branch_of [sample_event] (Some ''aaaaaaaa'') [sample_event]"
    using sample_event_facts by (auto simp: branch_of_def intro!: exI [of _ "[0]"])
qed

lemma sample_one_event:
  obtains st where "saved_conv sample_env ''events'' [sample_event] st" "local_fits (cs_fs st) = local_fits (cs_fs sample_conv)"
    "cs_base st = sample_base"
proof -
  obtain s l where "saved_conv sample_env ''events'' [sample_event] (sample_conv\<lparr>cs_fs := s, cs_log := l\<rparr>)"
    "local_fits s = local_fits (cs_fs sample_conv)"
    using copy_events_ok [OF sample_saved, of "[sample_event]"] sample_history(1,2) by auto
  then show ?thesis using that by (simp add: sample_conv_def)
qed

theorem navigate_moves_head_witness:
  "\<exists>st st'. navigate_to sample_env (Some ''aaaaaaaa'') st = Some (st', Inr ())
     \<and> leaf_event_id (cs_base st) = None \<and> leaf_event_id (cs_base st') = Some ''aaaaaaaa''"
proof -
  obtain st where st: "saved_conv sample_env ''events'' [sample_event] st" "local_fits (cs_fs st) = local_fits (cs_fs sample_conv)"
    "cs_base st = sample_base" by (rule sample_one_event)
  have fit: "base_fits sample_env st b" for b using sample_fits(2) st(2) by (simp add: base_fits_def sample_env_def)
  from navigate_moves_head [OF st(1) sample_history(3) fit] show ?thesis
    using st(3) by (elim conjE exE) (intro exI conjI, assumption, simp_all add: sample_base_def)
qed

theorem fork_keeps_history_witness:
  "\<exists>st st' f'. fork_conv sample_env sample_env (\<lambda>_ t. t) None True (Some ''aaaaaaaa'') sample_conv st = Some (st', Inr f')
     \<and> saved_conv sample_env ''events'' [sample_event] f' \<and> cs_view_leaf f' = Some ''aaaaaaaa''"
proof -
  obtain st where st: "saved_conv sample_env ''events'' [sample_event] st" "local_fits (cs_fs st) = local_fits (cs_fs sample_conv)"
    "cs_base st = sample_base" by (rule sample_one_event)
  have fit: "base_fits sample_env sample_conv b" for b using sample_fits(2) by (simp add: base_fits_def sample_env_def)
  have ok: "head_ok [sample_event] (cs_base st)" by (simp add: st(3) head_ok_def sample_base_def)
  have "(\<exists>st' f'. fork_conv sample_env sample_env (\<lambda>_ t. t) None True (Some ''aaaaaaaa'') sample_conv st = Some (st', Inr f')
       \<and> saved_conv sample_env ''events'' [sample_event] f' \<and> cs_view_leaf f' = Some ''aaaaaaaa'')"
    using fork_keeps_history [OF st(1) ok sample_saved refl refl _ sample_history(3) _ sample_history(2) _ _ ballI [OF fit],
        where from_id = "Some ''aaaaaaaa''" and leaf = "Some ''aaaaaaaa''" and no_head = False
          and add_title = "\<lambda>_ t. t" and title = None and reset_metrics = True]
    by (simp only: option.case) blast
  then show ?thesis by blast
qed

end
