(* ===== verification/Hooks.thy ===== *)
theory Hooks
  imports Complex_Main Text_Utils
begin

text \<open>
  \<open>sdk/hooks\<close>: which hooks run for an event (\<open>config.py\<close>), what one hook answers (\<open>executor.py\<close>) and
  what the answers of several hooks decide (\<open>manager.py\<close>).

  The processes, the LLM completions and the sub-conversations that hooks start are outside of the
  code: \<open>hook_runtime\<close> holds what they produce, acting on a world of its own, with the JSON parser and
  the regular expressions of the standard library.
\<close>

section \<open>Configuration\<close>

datatype hook_event_type = PRE_TOOL_USE | POST_TOOL_USE | USER_PROMPT_SUBMIT | SESSION_START | SESSION_END | STOP

datatype hook_type = COMMAND | PROMPT | AGENT

datatype hook_decision = ALLOW | DENY

record hook_definition =
  hd_type :: hook_type
  hd_name :: "str option"
  hd_command :: str
  hd_prompt :: "str option"
  hd_system_prompt :: "str option"
  hd_timeout :: int
  hd_async :: bool

definition single_quoted :: "str \<Rightarrow> str" where
  "single_quoted s = CHR 0x27 # s @ [CHR 0x27]"

definition text_given :: "str option \<Rightarrow> bool" where
  "text_given t \<longleftrightarrow> t \<noteq> None \<and> t \<noteq> Some ''''"

definition validate_type_fields :: "hook_definition \<Rightarrow> py_exc + hook_definition" where
  "validate_type_fields h =
     (if hd_type h = COMMAND \<and> hd_command h = '''' then
        Inl (ValueError (single_quoted ''command'' @ '' is required when type is '' @ single_quoted ''command''))
      else if hd_type h = PROMPT \<and> \<not> text_given (hd_prompt h) then
        Inl (ValueError (single_quoted ''prompt'' @ '' is required when type is '' @ single_quoted ''prompt''))
      else if hd_type h = PROMPT \<and> hd_command h \<noteq> '''' then
        Inl (ValueError (single_quoted ''command'' @ '' must not be set when type is '' @ single_quoted ''prompt''))
      else if hd_type h = PROMPT \<and> hd_async h then
        Inl (ValueError (single_quoted ''async'' @ '' is not supported for prompt hooks''))
      else if hd_type h = AGENT \<and> hd_command h \<noteq> '''' then
        Inl (ValueError (single_quoted ''command'' @ '' must not be set when type is '' @ single_quoted ''agent'' @
          ''; use '' @ single_quoted ''system_prompt'' @ '' instead''))
      else if hd_type h = AGENT \<and> hd_async h then
        Inl (ValueError (single_quoted ''async'' @ '' is not supported for agent hooks''))
      else Inr h)"

definition hook_type_value :: "hook_type \<Rightarrow> str" where
  "hook_type_value t = (case t of COMMAND \<Rightarrow> ''command'' | PROMPT \<Rightarrow> ''prompt'' | AGENT \<Rightarrow> ''agent'')"

definition display_command :: "hook_definition \<Rightarrow> str" where
  "display_command h =
     (let prefix = hook_type_value (hd_type h) @ ''-hook'' in
      if hd_command h \<noteq> '''' then hd_command h
      else case hd_name h of
        Some n \<Rightarrow> prefix @ '':'' @ n
      | None \<Rightarrow>
          if hd_type h = PROMPT \<and> text_given (hd_prompt h) then prefix @ '':'' @ take 20 (the (hd_prompt h))
          else if hd_type h = AGENT \<and> text_given (hd_system_prompt h) then prefix @ '':'' @ take 20 (the (hd_system_prompt h))
          else prefix @ '':'' @ hook_type_value (hd_type h))"

record hook_matcher =
  hm_matcher :: str
  hm_hooks :: "hook_definition list"

definition regex_metacharacters :: "char set" where
  "regex_metacharacters = set (''|.*+?[]()^$'' @ [CHR 0x5C])"

text \<open>\<open>fullmatch pattern text\<close> is \<open>re.fullmatch\<close>, \<^const>\<open>None\<close> for a pattern with \<open>re.error\<close>.\<close>

definition hook_matches :: "(str \<Rightarrow> str \<Rightarrow> bool option) \<Rightarrow> hook_matcher \<Rightarrow> str option \<Rightarrow> bool" where
  "hook_matches fullmatch hm tool_name =
     (let m = hm_matcher hm in
      if m = ''*'' \<or> m = '''' then True
      else case tool_name of
        None \<Rightarrow> False
      | Some t \<Rightarrow>
          if py_startswith m ''/'' \<and> last m = CHR ''/'' \<and> length m > 2 then
            (case fullmatch (tl (butlast m)) t of Some b \<Rightarrow> b | None \<Rightarrow> False)
          else if \<exists>c \<in> set m. c \<in> regex_metacharacters then
            (case fullmatch m t of Some b \<Rightarrow> b | None \<Rightarrow> m = t)
          else m = t)"

record hook_config =
  hc_pre_tool_use :: "hook_matcher list"
  hc_post_tool_use :: "hook_matcher list"
  hc_user_prompt_submit :: "hook_matcher list"
  hc_session_start :: "hook_matcher list"
  hc_session_end :: "hook_matcher list"
  hc_stop :: "hook_matcher list"

fun get_matchers_for_event :: "hook_config \<Rightarrow> hook_event_type \<Rightarrow> hook_matcher list" where
  "get_matchers_for_event hc PRE_TOOL_USE = hc_pre_tool_use hc"
| "get_matchers_for_event hc POST_TOOL_USE = hc_post_tool_use hc"
| "get_matchers_for_event hc USER_PROMPT_SUBMIT = hc_user_prompt_submit hc"
| "get_matchers_for_event hc SESSION_START = hc_session_start hc"
| "get_matchers_for_event hc SESSION_END = hc_session_end hc"
| "get_matchers_for_event hc STOP = hc_stop hc"

definition config_is_empty :: "hook_config \<Rightarrow> bool" where
  "config_is_empty hc \<longleftrightarrow> hc_pre_tool_use hc = [] \<and> hc_post_tool_use hc = [] \<and> hc_user_prompt_submit hc = [] \<and>
     hc_session_start hc = [] \<and> hc_session_end hc = [] \<and> hc_stop hc = []"

definition get_hooks_for_event ::
    "(str \<Rightarrow> str \<Rightarrow> bool option) \<Rightarrow> hook_config \<Rightarrow> hook_event_type \<Rightarrow> str option \<Rightarrow> hook_definition list" where
  "get_hooks_for_event fullmatch hc t tool_name =
     concat (map hm_hooks (filter (\<lambda>hm. hook_matches fullmatch hm tool_name) (get_matchers_for_event hc t)))"

definition has_hooks_for_event :: "hook_config \<Rightarrow> hook_event_type \<Rightarrow> bool" where
  "has_hooks_for_event hc t \<longleftrightarrow> length (get_matchers_for_event hc t) > 0"

definition merge_configs :: "hook_config list \<Rightarrow> hook_config option" where
  "merge_configs hcs =
     (if hcs = [] then None
      else let merged = \<lparr>hc_pre_tool_use = concat (map hc_pre_tool_use hcs),
          hc_post_tool_use = concat (map hc_post_tool_use hcs), hc_user_prompt_submit = concat (map hc_user_prompt_submit hcs),
          hc_session_start = concat (map hc_session_start hcs), hc_session_end = concat (map hc_session_end hcs),
          hc_stop = concat (map hc_stop hcs)\<rparr>
        in if config_is_empty merged then None else Some merged)"

section \<open>One hook\<close>

record hook_event =
  he_event_type :: hook_event_type
  he_tool_name :: "str option"
  he_tool_input :: "str option"
  he_tool_response :: "str option"
  he_message :: "str option"
  he_metadata :: "(str, str) dict"

record hook_result =
  hr_success :: bool
  hr_blocked :: bool
  hr_exit_code :: int
  hr_stdout :: str
  hr_stderr :: str
  hr_decision :: "hook_decision option"
  hr_reason :: "str option"
  hr_additional_context :: "str option"
  hr_error :: "str option"
  hr_async_started :: bool

definition new_result :: hook_result where
  "new_result = \<lparr>hr_success = True, hr_blocked = False, hr_exit_code = 0, hr_stdout = '''', hr_stderr = '''',
     hr_decision = None, hr_reason = None, hr_additional_context = None, hr_error = None, hr_async_started = False\<rparr>"

definition should_continue :: "hook_result \<Rightarrow> bool" where
  "should_continue r = (if hr_blocked r then False else if hr_decision r = Some DENY then False else True)"

definition failed_result :: "str \<Rightarrow> hook_result" where
  "failed_result msg = new_result\<lparr>hr_success := False, hr_exit_code := -1, hr_error := Some msg\<rparr>"

definition fall_open :: "str \<Rightarrow> str option \<Rightarrow> hook_result" where
  "fall_open reason err = new_result\<lparr>hr_success := False, hr_decision := Some ALLOW, hr_reason := Some reason,
     hr_error := Some (if text_given err then the err else reason)\<rparr>"

text \<open>JSON values, and the outcomes of what a hook starts.\<close>

datatype jvalue = JNull | JBool bool | JNumber rat | JStr str | JList "jvalue list" | JDict "(str \<times> jvalue) list"

fun truthy :: "jvalue \<Rightarrow> bool" where
  "truthy JNull = False"
| "truthy (JBool b) = b"
| "truthy (JNumber q) = (q \<noteq> 0)"
| "truthy (JStr s) = (s \<noteq> '''')"
| "truthy (JList vs) = (vs \<noteq> [])"
| "truthy (JDict kvs) = (kvs \<noteq> [])"

datatype process_outcome = Completed int str str | Timeout_Expired | Not_Found str | Run_Failed str

datatype agent_outcome = No_LLM | Response str | Response_Failed str

record 'w hook_runtime =
  rt_run :: "hook_definition \<Rightarrow> hook_event \<Rightarrow> 'w \<Rightarrow> process_outcome \<times> 'w"
  rt_start_async :: "hook_definition \<Rightarrow> hook_event \<Rightarrow> 'w \<Rightarrow> str option \<times> 'w"
  rt_evaluate :: "hook_definition \<Rightarrow> hook_event \<Rightarrow> 'w \<Rightarrow> agent_outcome \<times> 'w"
  rt_loads :: "str \<Rightarrow> jvalue option"
  rt_raw_decode :: "str \<Rightarrow> jvalue option"
  rt_str :: "jvalue \<Rightarrow> str"
  rt_fullmatch :: "str \<Rightarrow> str \<Rightarrow> bool option"

text \<open>
  The fields a command hook prints as JSON. Only a string has a \<open>lower\<close> method; the message of the
  exception for another decision is that of Python.
\<close>

definition output_decision :: "(str \<times> jvalue) list \<Rightarrow> hook_result \<Rightarrow> py_exc + hook_result" where
  "output_decision out r =
     (case map_of out ''decision'' of
        None \<Rightarrow> Inr r
      | Some (JStr s) \<Rightarrow>
          if py_lower s = ''allow'' then Inr (r\<lparr>hr_decision := Some ALLOW\<rparr>)
          else if py_lower s = ''deny'' then Inr (r\<lparr>hr_decision := Some DENY, hr_blocked := True\<rparr>)
          else Inr r
      | Some _ \<Rightarrow> Inl (AttributeError ''object has no attribute lower''))"

definition output_fields :: "(jvalue \<Rightarrow> str) \<Rightarrow> (str \<times> jvalue) list \<Rightarrow> hook_result \<Rightarrow> hook_result" where
  "output_fields py_str out r =
     (let r1 = (case map_of out ''reason'' of None \<Rightarrow> r | Some v \<Rightarrow> r\<lparr>hr_reason := Some (py_str v)\<rparr>);
          r2 = (case map_of out ''additionalContext'' of None \<Rightarrow> r1 | Some v \<Rightarrow> r1\<lparr>hr_additional_context := Some (py_str v)\<rparr>)
      in case map_of out ''continue'' of None \<Rightarrow> r2 | Some v \<Rightarrow> if truthy v then r2 else r2\<lparr>hr_blocked := True\<rparr>)"

definition command_result :: "'w hook_runtime \<Rightarrow> hook_definition \<Rightarrow> process_outcome \<Rightarrow> hook_result" where
  "command_result rt h out =
     (case out of
        Completed code stdout stderr \<Rightarrow>
          (let r = new_result\<lparr>hr_success := (code = 0), hr_blocked := (code = 2), hr_exit_code := code,
             hr_stdout := stdout, hr_stderr := stderr\<rparr> in
           if py_strip stdout = '''' then r
           else case rt_loads rt stdout of
             Some (JDict kvs) \<Rightarrow>
               (case output_decision kvs r of
                  Inr r1 \<Rightarrow> output_fields (rt_str rt) kvs r1
                | Inl _ \<Rightarrow> failed_result ''Hook execution failed: object has no attribute lower'')
           | _ \<Rightarrow> r)
      | Timeout_Expired \<Rightarrow> failed_result (''Hook timed out after '' @ int_to_str (hd_timeout h) @ '' seconds'')
      | Not_Found e \<Rightarrow> failed_result (''Hook command not found: '' @ e)
      | Run_Failed e \<Rightarrow> failed_result (''Hook execution failed: '' @ e))"

text \<open>The verdict of a prompt or agent hook: the first JSON object anywhere in its text.\<close>

fun extract_first_json_object :: "(str \<Rightarrow> jvalue option) \<Rightarrow> str \<Rightarrow> (str \<times> jvalue) list option" where
  "extract_first_json_object raw_decode [] = None"
| "extract_first_json_object raw_decode (c # cs) =
     (if c = CHR ''{'' then
        (case raw_decode (c # cs) of
           Some (JDict kvs) \<Rightarrow> Some kvs
         | _ \<Rightarrow> extract_first_json_object raw_decode cs)
      else extract_first_json_object raw_decode cs)"

definition hook_label :: "hook_type \<Rightarrow> str" where
  "hook_label t = (case t of COMMAND \<Rightarrow> ''Command hook'' | PROMPT \<Rightarrow> ''Prompt hook'' | AGENT \<Rightarrow> ''Agent hook'')"

definition long_dash :: str where
  "long_dash = [CHR 0xE2, CHR 0x80, CHR 0x94]"

definition default_allow :: str where
  "default_allow = '' '' @ long_dash @ '' defaulting to allow''"

definition parse_decision :: "'w hook_runtime \<Rightarrow> str \<Rightarrow> hook_type \<Rightarrow> hook_result" where
  "parse_decision rt raw t =
     (if raw = '''' then fall_open (hook_label t @ '' produced no final response'' @ default_allow) None
      else case extract_first_json_object (rt_raw_decode rt) raw of
        None \<Rightarrow> fall_open (hook_label t @ '' returned no parseable JSON'' @ default_allow) None
      | Some kvs \<Rightarrow>
          (let decision = py_lower (case map_of kvs ''decision'' of None \<Rightarrow> '''' | Some v \<Rightarrow> rt_str rt v);
               reason = (case map_of kvs ''reason'' of None \<Rightarrow> '''' | Some v \<Rightarrow> rt_str rt v) in
           if decision = ''deny'' then new_result\<lparr>hr_blocked := True, hr_decision := Some DENY, hr_reason := Some reason\<rparr>
           else if decision = ''allow'' then new_result\<lparr>hr_decision := Some ALLOW, hr_reason := Some reason\<rparr>
           else fall_open (hook_label t @ '' returned an invalid decision'' @ default_allow) None))"

definition evaluated_result :: "'w hook_runtime \<Rightarrow> hook_type \<Rightarrow> agent_outcome \<Rightarrow> hook_result" where
  "evaluated_result rt t out =
     (case out of
        No_LLM \<Rightarrow> fall_open (if t = AGENT then ''No LLM configured for agent hook'' else ''No LLM configured for prompt hook'') None
      | Response_Failed e \<Rightarrow> fall_open (hook_label t @ '' execution failed'' @ default_allow) (Some e)
      | Response raw \<Rightarrow> parse_decision rt raw t)"

definition execute_hook :: "'w hook_runtime \<Rightarrow> hook_definition \<Rightarrow> hook_event \<Rightarrow> 'w \<Rightarrow> hook_result \<times> 'w" where
  "execute_hook rt h ev w =
     (if hd_type h = AGENT \<or> hd_type h = PROMPT then
        (case rt_evaluate rt h ev w of (out, w') \<Rightarrow> (evaluated_result rt (hd_type h) out, w'))
      else if hd_command h = '''' then
        (failed_result (single_quoted ''command'' @ '' is required when type is '' @ single_quoted ''command''), w)
      else if hd_async h then
        (case rt_start_async rt h ev w of
           (None, w') \<Rightarrow> (new_result\<lparr>hr_async_started := True\<rparr>, w')
         | (Some e, w') \<Rightarrow> (failed_result (''Failed to start async hook: '' @ e), w'))
      else case rt_run rt h ev w of (out, w') \<Rightarrow> (command_result rt h out, w'))"

fun execute_all :: "'w hook_runtime \<Rightarrow> hook_definition list \<Rightarrow> hook_event \<Rightarrow> bool \<Rightarrow> 'w \<Rightarrow> hook_result list \<times> 'w" where
  "execute_all rt [] ev stop_on_block w = ([], w)"
| "execute_all rt (h # hs) ev stop_on_block w =
     (case execute_hook rt h ev w of (r, w1) \<Rightarrow>
        if stop_on_block \<and> hr_blocked r then ([r], w1)
        else case execute_all rt hs ev stop_on_block w1 of (rs, w2) \<Rightarrow> (r # rs, w2))"

section \<open>The hooks of an event\<close>

record 'w hook_manager =
  mg_config :: hook_config
  mg_runtime :: "'w hook_runtime"

definition has_hooks :: "'w hook_manager \<Rightarrow> hook_event_type \<Rightarrow> bool" where
  "has_hooks mg t = has_hooks_for_event (mg_config mg) t"

definition hooks_for :: "'w hook_manager \<Rightarrow> hook_event_type \<Rightarrow> str option \<Rightarrow> hook_definition list" where
  "hooks_for mg = get_hooks_for_event (rt_fullmatch (mg_runtime mg)) (mg_config mg)"

definition create_event :: "hook_event_type \<Rightarrow> hook_event" where
  "create_event t = \<lparr>he_event_type = t, he_tool_name = None, he_tool_input = None, he_tool_response = None,
     he_message = None, he_metadata = []\<rparr>"

definition run_pre_tool_use :: "'w hook_manager \<Rightarrow> str \<Rightarrow> str \<Rightarrow> 'w \<Rightarrow> (bool \<times> hook_result list) \<times> 'w" where
  "run_pre_tool_use mg tool_name tool_input w =
     (let hooks = hooks_for mg PRE_TOOL_USE (Some tool_name) in
      if hooks = [] then ((True, []), w)
      else let ev = (create_event PRE_TOOL_USE)\<lparr>he_tool_name := Some tool_name, he_tool_input := Some tool_input\<rparr> in
        case execute_all (mg_runtime mg) hooks ev True w of (rs, w') \<Rightarrow> ((list_all should_continue rs, rs), w'))"

definition run_post_tool_use :: "'w hook_manager \<Rightarrow> str \<Rightarrow> str \<Rightarrow> str \<Rightarrow> 'w \<Rightarrow> hook_result list \<times> 'w" where
  "run_post_tool_use mg tool_name tool_input tool_response w =
     (let hooks = hooks_for mg POST_TOOL_USE (Some tool_name) in
      if hooks = [] then ([], w)
      else execute_all (mg_runtime mg) hooks
        ((create_event POST_TOOL_USE)\<lparr>he_tool_name := Some tool_name, he_tool_input := Some tool_input,
          he_tool_response := Some tool_response\<rparr>) False w)"

text \<open>\<open>r.field for r in results if r.field\<close>: the texts that are given and not empty.\<close>

definition given_texts :: "(hook_result \<Rightarrow> str option) \<Rightarrow> hook_result list \<Rightarrow> str list" where
  "given_texts f rs = map (\<lambda>r. the (f r)) (filter (\<lambda>r. text_given (f r)) rs)"

definition run_user_prompt_submit ::
    "'w hook_manager \<Rightarrow> str \<Rightarrow> 'w \<Rightarrow> (bool \<times> str option \<times> hook_result list) \<times> 'w" where
  "run_user_prompt_submit mg message w =
     (let hooks = hooks_for mg USER_PROMPT_SUBMIT None in
      if hooks = [] then ((True, None, []), w)
      else case execute_all (mg_runtime mg) hooks ((create_event USER_PROMPT_SUBMIT)\<lparr>he_message := Some message\<rparr>) True w of
        (rs, w') \<Rightarrow>
          (let parts = given_texts hr_additional_context rs in
           ((list_all should_continue rs, if parts = [] then None else Some (py_join [newline] parts), rs), w')))"

definition run_session_hooks :: "'w hook_manager \<Rightarrow> hook_event_type \<Rightarrow> 'w \<Rightarrow> hook_result list \<times> 'w" where
  "run_session_hooks mg t w =
     (let hooks = hooks_for mg t None in
      if hooks = [] then ([], w) else execute_all (mg_runtime mg) hooks (create_event t) False w)"

definition run_stop :: "'w hook_manager \<Rightarrow> str option \<Rightarrow> 'w \<Rightarrow> (bool \<times> hook_result list) \<times> 'w" where
  "run_stop mg reason w =
     (let hooks = hooks_for mg STOP None in
      if hooks = [] then ((True, []), w)
      else let ev = (create_event STOP)\<lparr>he_metadata := (if text_given reason then [(''reason'', the reason)] else [])\<rparr> in
        case execute_all (mg_runtime mg) hooks ev True w of (rs, w') \<Rightarrow> ((list_all should_continue rs, rs), w'))"

fun get_blocking_reason :: "hook_result list \<Rightarrow> str option" where
  "get_blocking_reason [] = None"
| "get_blocking_reason (r # rs) =
     (if hr_blocked r then
        (if text_given (hr_reason r) then hr_reason r
         else if hr_stderr r \<noteq> '''' then Some (py_strip (hr_stderr r))
         else Some ''Blocked by hook'')
      else get_blocking_reason rs)"

section \<open>Decisions\<close>

text \<open>A hook that denies also blocks, so what stops the sequence of hooks is what denies.\<close>

lemma fall_open_fields [simp]: "hr_blocked (fall_open m e) = False" "hr_decision (fall_open m e) = Some ALLOW"
  by (simp_all add: fall_open_def new_result_def)

lemma failed_result_fields [simp]: "hr_blocked (failed_result m) = False" "hr_decision (failed_result m) = None"
  by (simp_all add: failed_result_def new_result_def)

lemma new_result_fields [simp]: "hr_blocked new_result = False" "hr_decision new_result = None"
  by (simp_all add: new_result_def)

lemma output_fields_keeps [simp]:
  "hr_decision (output_fields f out r) = hr_decision r" "hr_blocked r \<Longrightarrow> hr_blocked (output_fields f out r)"
  by (auto simp: output_fields_def Let_def split: option.splits)

lemma output_decision_ok: "output_decision out r = Inr r' \<Longrightarrow> hr_decision r = None \<Longrightarrow> hr_decision r' = Some DENY \<Longrightarrow> hr_blocked r'"
  by (auto simp: output_decision_def split: option.splits jvalue.splits if_splits)

lemma command_result_deny: "hr_decision (command_result rt h out) = Some DENY \<Longrightarrow> hr_blocked (command_result rt h out)"
  by (cases out) (auto simp: command_result_def Let_def dest: output_decision_ok
      split: if_splits option.splits jvalue.splits sum.splits)

lemma evaluated_result_deny: "hr_decision (evaluated_result rt t out) = Some DENY \<Longrightarrow> hr_blocked (evaluated_result rt t out)"
  by (cases out) (auto simp: evaluated_result_def parse_decision_def Let_def split: if_splits option.splits)

lemma execute_hook_deny: "execute_hook rt h ev w = (r, w') \<Longrightarrow> hr_decision r = Some DENY \<Longrightarrow> hr_blocked r"
  by (auto simp: execute_hook_def dest: command_result_deny evaluated_result_deny split: if_splits prod.splits option.splits)

lemma execute_hook_continue: "execute_hook rt h ev w = (r, w') \<Longrightarrow> should_continue r \<longleftrightarrow> \<not> hr_blocked r"
  using execute_hook_deny[of rt h ev w r w'] by (auto simp: should_continue_def)

text \<open>With \<open>stop_on_block\<close>, the hooks ran in order up to the first that blocks.\<close>

lemma execute_all_results:
  "execute_all rt hs ev stop w = (rs, w') \<Longrightarrow>
     (\<forall>r \<in> set rs. should_continue r \<longleftrightarrow> \<not> hr_blocked r) \<and> length rs \<le> length hs \<and>
     (\<not> stop \<longrightarrow> length rs = length hs) \<and>
     (stop \<longrightarrow> (\<forall>r \<in> set (butlast rs). \<not> hr_blocked r) \<and> ((\<forall>r \<in> set rs. \<not> hr_blocked r) \<longrightarrow> length rs = length hs))"
proof (induction hs arbitrary: w rs w')
  case (Cons h hs)
  obtain r w1 where r: "execute_hook rt h ev w = (r, w1)" by fastforce
  obtain rs1 w2 where rs1: "execute_all rt hs ev stop w1 = (rs1, w2)" by fastforce
  note c = execute_hook_continue[OF r]
  show ?case
  proof (cases "stop \<and> hr_blocked r")
    case True
    then show ?thesis using Cons.prems r c by auto
  next
    case False
    then have "rs = r # rs1" using Cons.prems r rs1 by auto
    then show ?thesis using Cons.IH[OF rs1] False c by auto
  qed
qed simp

lemma blocking_reason_None_iff: "get_blocking_reason rs = None \<longleftrightarrow> (\<forall>r \<in> set rs. \<not> hr_blocked r)"
  by (induction rs) (auto simp: text_given_def)

lemma list_all_continue:
  assumes "execute_all rt hs ev stop w = (rs, w')"
  shows "list_all should_continue rs \<longleftrightarrow> get_blocking_reason rs = None"
  unfolding blocking_reason_None_iff list_all_iff using execute_all_results[OF assms] by blast

lemma run_pre_tool_use_reason: "run_pre_tool_use mg t i w = ((ok, rs), w') \<Longrightarrow> ok \<longleftrightarrow> get_blocking_reason rs = None"
  by (auto simp: run_pre_tool_use_def Let_def list_all_continue split: if_splits prod.splits)

lemma run_stop_reason: "run_stop mg reason w = ((ok, rs), w') \<Longrightarrow> ok \<longleftrightarrow> get_blocking_reason rs = None"
  by (auto simp: run_stop_def Let_def list_all_continue split: if_splits prod.splits)

lemma run_user_prompt_submit_reason:
  "run_user_prompt_submit mg m w = ((ok, ctx, rs), w') \<Longrightarrow> ok \<longleftrightarrow> get_blocking_reason rs = None"
  by (auto simp: run_user_prompt_submit_def Let_def list_all_continue split: if_splits prod.splits)

text \<open>
  What a command hook decides. A command that ran to its end blocks when it exits with 2, prints a
  JSON object with the decision deny, or one with a falsy \<open>continue\<close>; any other exit code blocks
  nothing. One case leaves the contract of the exit code: an object whose \<open>decision\<close> is not a string
  raises while it is read, and the operation goes on even after exit code 2.
\<close>

theorem command_hook_verdict:
  assumes "hd_type h = COMMAND" "hd_command h \<noteq> ''''" "\<not> hd_async h" "rt_run rt h ev w = (Completed code out err, w')"
  shows "\<exists>r. execute_hook rt h ev w = (r, w') \<and> should_continue r = (\<not> hr_blocked r) \<and>
    (hr_blocked r \<longleftrightarrow>
      (case (if py_strip out = '''' then None else rt_loads rt out) of
         Some (JDict kvs) \<Rightarrow>
           (case map_of kvs ''decision'' of
              None \<Rightarrow> code = 2 \<or> (\<exists>v. map_of kvs ''continue'' = Some v \<and> \<not> truthy v)
            | Some (JStr s) \<Rightarrow> code = 2 \<or> py_lower s = ''deny'' \<or> (\<exists>v. map_of kvs ''continue'' = Some v \<and> \<not> truthy v)
            | _ \<Rightarrow> False)
       | _ \<Rightarrow> code = 2))"
proof -
  have e: "execute_hook rt h ev w = (command_result rt h (Completed code out err), w')"
    using assms by (simp add: execute_hook_def)
  have c: "should_continue (command_result rt h (Completed code out err)) = (\<not> hr_blocked (command_result rt h (Completed code out err)))"
    by (rule execute_hook_continue[OF e])
  show ?thesis
    by (intro exI[of _ "command_result rt h (Completed code out err)"] conjI e c)
      (auto simp: command_result_def output_decision_def output_fields_def Let_def
        split: option.splits jvalue.splits if_splits)
qed

definition silent_runtime :: "process_outcome \<Rightarrow> (str \<times> jvalue) list \<Rightarrow> unit hook_runtime" where
  "silent_runtime out kvs = \<lparr>rt_run = (\<lambda>h ev w. (out, w)), rt_start_async = (\<lambda>h ev w. (None, w)),
     rt_evaluate = (\<lambda>h ev w. (No_LLM, w)), rt_loads = (\<lambda>s. Some (JDict kvs)), rt_raw_decode = (\<lambda>s. None),
     rt_str = (\<lambda>v. ''None''), rt_fullmatch = (\<lambda>p t. Some (p = t))\<rparr>"

definition policy_hook :: hook_definition where
  "policy_hook = \<lparr>hd_type = COMMAND, hd_name = None, hd_command = ''check.sh'', hd_prompt = None, hd_system_prompt = None,
     hd_timeout = 60, hd_async = False\<rparr>"

text \<open>Exit code 2 with nothing to read blocks; with a decision that is null it does not.\<close>

lemma command_hook_verdict_witness:
  "hr_blocked (fst (execute_hook (silent_runtime (Completed 2 '''' ''no'') []) policy_hook (create_event STOP) ())) \<and>
   \<not> hr_blocked (fst (execute_hook (silent_runtime (Completed 2 ''{}'' ''no'') [(''decision'', JNull)]) policy_hook (create_event STOP) ()))"
proof -
  have h: "hd_type policy_hook = COMMAND" "hd_command policy_hook \<noteq> ''''" "\<not> hd_async policy_hook"
    by (simp_all add: policy_hook_def)
  have s: "py_strip [] = []" "py_strip ''{}'' \<noteq> []" by code_simp+
  show ?thesis
    using command_hook_verdict[OF h, of "silent_runtime (Completed 2 '''' ''no'') []" "create_event STOP" "()" 2 "[]" "''no''" "()"]
      command_hook_verdict[OF h, of "silent_runtime (Completed 2 ''{}'' ''no'') [(''decision'', JNull)]" "create_event STOP" "()" 2 "''{}''" "''no''" "()"]
      s by (auto simp: silent_runtime_def)
qed

end
