(* ===== verification/Effects.thy ===== *)
theory Effects
  imports Prelude
begin

text \<open>
  Computations of the code that read and change a state, may raise an exception and may run a loop
  longer than its fuel: functions from the state to \<^const>\<open>None\<close> (more rounds than the fuel) or the
  state they leave with an exception or a value. The state an exception leaves is kept, as Python
  keeps what was assigned before a \<open>raise\<close>.
\<close>

section \<open>Computations\<close>

type_synonym ('c, 'a) eff = "'c \<Rightarrow> ('c \<times> (py_exc + 'a)) option"

named_theorems eff_simps \<open>unfolding of composed computations\<close>

definition eret :: "'a \<Rightarrow> ('c, 'a) eff" where
  "eret a c = Some (c, Inr a)"

definition eraise :: "py_exc \<Rightarrow> ('c, 'a) eff" where
  "eraise x c = Some (c, Inl x)"

definition ebind :: "('c, 'a) eff \<Rightarrow> ('a \<Rightarrow> ('c, 'b) eff) \<Rightarrow> ('c, 'b) eff" where
  "ebind m f c = (case m c of None \<Rightarrow> None | Some (c', Inl x) \<Rightarrow> Some (c', Inl x) | Some (c', Inr a) \<Rightarrow> f a c')"

definition eseq :: "('c, 'a) eff \<Rightarrow> ('c, 'b) eff \<Rightarrow> ('c, 'b) eff" where
  "eseq m n = ebind m (\<lambda>_. n)"

definition eget :: "('c \<Rightarrow> 'a) \<Rightarrow> ('c, 'a) eff" where
  "eget f c = Some (c, Inr (f c))"

definition emodify :: "('c \<Rightarrow> 'c) \<Rightarrow> ('c, unit) eff" where
  "emodify f c = Some (f c, Inr ())"

text \<open>\<open>try: m except Exception as x: h(x)\<close>, and the \<open>finally\<close> of a block: \<open>n\<close> runs in both cases, and an
  exception of its own replaces that of the body.\<close>

definition ecatch :: "('c, 'a) eff \<Rightarrow> (py_exc \<Rightarrow> ('c, 'a) eff) \<Rightarrow> ('c, 'a) eff" where
  "ecatch m h c = (case m c of Some (c', Inl x) \<Rightarrow> h x c' | r \<Rightarrow> r)"

definition efinally :: "('c, 'a) eff \<Rightarrow> ('c, unit) eff \<Rightarrow> ('c, 'a) eff" where
  "efinally m n c =
     (case m c of
        None \<Rightarrow> None
      | Some (c', r) \<Rightarrow> (case n c' of None \<Rightarrow> None | Some (c2, Inl x) \<Rightarrow> Some (c2, Inl x) | Some (c2, Inr _) \<Rightarrow> Some (c2, r)))"

fun efor :: "'a list \<Rightarrow> ('a \<Rightarrow> ('c, unit) eff) \<Rightarrow> ('c, unit) eff" where
  "efor [] f = eret ()"
| "efor (a # as) f = eseq (f a) (efor as f)"

text \<open>A \<open>for\<close> loop that collects a value per round.\<close>

fun emap :: "('a \<Rightarrow> ('c, 'b) eff) \<Rightarrow> 'a list \<Rightarrow> ('c, 'b list) eff" where
  "emap f [] = eret []"
| "emap f (a # as) = ebind (f a) (\<lambda>b. ebind (emap f as) (\<lambda>bs. eret (b # bs)))"

text \<open>Computations on a part of the state, and those of earlier theories in their own shapes.\<close>

definition on_part :: "('c \<Rightarrow> 'p) \<Rightarrow> ('p \<Rightarrow> 'c \<Rightarrow> 'c) \<Rightarrow> ('p, 'a) eff \<Rightarrow> ('c, 'a) eff" where
  "on_part sel upd m c = (case m (sel c) of None \<Rightarrow> None | Some (p, r) \<Rightarrow> Some (upd p c, r))"

definition lift_unit :: "('c \<Rightarrow> 'c \<times> py_exc option) \<Rightarrow> ('c, unit) eff" where
  "lift_unit f c = (case f c of (c', None) \<Rightarrow> Some (c', Inr ()) | (c', Some x) \<Rightarrow> Some (c', Inl x))"

definition lift_pair :: "('c \<Rightarrow> 'c \<times> (py_exc + 'a)) \<Rightarrow> ('c, 'a) eff" where
  "lift_pair f c = Some (f c)"

definition lift_sum :: "('c \<Rightarrow> py_exc + 'a \<times> 'c) \<Rightarrow> ('c, 'a) eff" where
  "lift_sum f c = (case f c of Inl x \<Rightarrow> Some (c, Inl x) | Inr (a, c') \<Rightarrow> Some (c', Inr a))"

definition lift_fuel :: "('c \<Rightarrow> (py_exc + 'a \<times> 'c) option) \<Rightarrow> ('c, 'a) eff" where
  "lift_fuel f c = (case f c of None \<Rightarrow> None | Some (Inl x) \<Rightarrow> Some (c, Inl x) | Some (Inr (a, c')) \<Rightarrow> Some (c', Inr a))"

lemmas eff_defs = eret_def eraise_def eget_def emodify_def on_part_def lift_unit_def lift_pair_def lift_sum_def lift_fuel_def

lemma ebind_simps [eff_simps]:
  "m c = None \<Longrightarrow> ebind m f c = None"
  "m c = Some (c', Inl x) \<Longrightarrow> ebind m f c = Some (c', Inl x)"
  "m c = Some (c', Inr a) \<Longrightarrow> ebind m f c = f a c'"
  by (simp_all add: ebind_def)

lemma eseq_simps [eff_simps]:
  "m c = None \<Longrightarrow> eseq m n c = None"
  "m c = Some (c', Inl x) \<Longrightarrow> eseq m n c = Some (c', Inl x)"
  "m c = Some (c', Inr a) \<Longrightarrow> eseq m n c = n c'"
  by (simp_all add: eseq_def eff_simps)

lemma eseq_unchanged:
  assumes "eseq m n c = Some (c', Inr a)"
  obtains c1 b where "m c = Some (c1, Inr b)" "n c1 = Some (c', Inr a)"
  using assms by (auto simp: eseq_def ebind_def split: option.splits sum.splits)

lemma ebind_Inr:
  assumes "ebind m f c = Some (c', Inr a)"
  obtains c1 b where "m c = Some (c1, Inr b)" "f b c1 = Some (c', Inr a)"
  using assms by (auto simp: ebind_def split: option.splits sum.splits)

lemma eret_bind [simp]: "ebind (eret a) f = f a"
  by (rule ext) (simp add: ebind_def eret_def)

lemma bind_eret [simp]: "ebind m eret = m"
  by (rule ext) (simp add: ebind_def eret_def split: option.splits sum.splits)

lemma ebind_assoc: "ebind (ebind m f) g = ebind m (\<lambda>a. ebind (f a) g)"
  by (rule ext) (simp add: ebind_def split: option.splits sum.splits)

lemma emap_append: "emap f (xs @ ys) = ebind (emap f xs) (\<lambda>as. ebind (emap f ys) (\<lambda>bs. eret (as @ bs)))"
  by (induction xs) (simp_all add: ebind_assoc)

section \<open>What a computation ends in\<close>

text \<open>\<open>ends_in Q m c\<close>: run on \<open>c\<close>, the computation ends, in a state and a result with \<open>Q\<close>.\<close>

definition ends_in :: "('c \<Rightarrow> py_exc + 'a \<Rightarrow> bool) \<Rightarrow> ('c, 'a) eff \<Rightarrow> 'c \<Rightarrow> bool" where
  "ends_in Q m c \<longleftrightarrow> (\<exists>c' r. m c = Some (c', r) \<and> Q c' r)"

lemma ends_inI: "m c = Some (c', r) \<Longrightarrow> Q c' r \<Longrightarrow> ends_in Q m c"
  by (auto simp: ends_in_def)

lemma ends_in_mono: "ends_in Q m c \<Longrightarrow> (\<And>c' r. Q c' r \<Longrightarrow> Q' c' r) \<Longrightarrow> ends_in Q' m c"
  by (auto simp: ends_in_def)

lemma ends_in_ret [intro!]: "Q c (Inr a) \<Longrightarrow> ends_in Q (eret a) c"
  by (simp add: ends_in_def eret_def)

lemma ends_in_raise [intro!]: "Q c (Inl x) \<Longrightarrow> ends_in Q (eraise x) c"
  by (simp add: ends_in_def eraise_def)

lemma ends_in_bind:
  assumes "ends_in R m c" "\<And>c' x. R c' (Inl x) \<Longrightarrow> Q c' (Inl x)" "\<And>c' a. R c' (Inr a) \<Longrightarrow> ends_in Q (f a) c'"
  shows "ends_in Q (ebind m f) c"
proof -
  obtain c' r where r: "m c = Some (c', r)" "R c' r" using assms(1) by (auto simp: ends_in_def)
  show ?thesis
  proof (cases r)
    case (Inl x)
    then show ?thesis using r assms(2) by (auto simp: ends_in_def ebind_def)
  next
    case (Inr a)
    then show ?thesis using r assms(3)[of c' a] by (auto simp: ends_in_def ebind_def)
  qed
qed

lemma ends_in_seq:
  assumes "ends_in R m c" "\<And>c' x. R c' (Inl x) \<Longrightarrow> Q c' (Inl x)" "\<And>c' a. R c' (Inr a) \<Longrightarrow> ends_in Q n c'"
  shows "ends_in Q (eseq m n) c"
  unfolding eseq_def by (rule ends_in_bind[of R]) (use assms in auto)

lemma ends_in_catch:
  assumes "ends_in R m c" "\<And>c' x. R c' (Inl x) \<Longrightarrow> ends_in Q (h x) c'" "\<And>c' a. R c' (Inr a) \<Longrightarrow> Q c' (Inr a)"
  shows "ends_in Q (ecatch m h) c"
proof -
  obtain c' r where r: "m c = Some (c', r)" "R c' r" using assms(1) by (auto simp: ends_in_def)
  show ?thesis
  proof (cases r)
    case (Inl x)
    then show ?thesis using r assms(2)[of c' x] by (auto simp: ends_in_def ecatch_def)
  next
    case (Inr a)
    then show ?thesis using r assms(3) by (auto simp: ends_in_def ecatch_def)
  qed
qed

lemma ends_in_finally:
  assumes "ends_in R m c"
    "\<And>c' r. R c' r \<Longrightarrow> ends_in (\<lambda>c2 u. case u of Inl x \<Rightarrow> Q c2 (Inl x) | Inr _ \<Rightarrow> Q c2 r) n c'"
  shows "ends_in Q (efinally m n) c"
proof -
  obtain c' r where r: "m c = Some (c', r)" "R c' r" using assms(1) by (auto simp: ends_in_def)
  from assms(2)[OF r(2)] obtain c2 u where u: "n c' = Some (c2, u)" "case u of Inl x \<Rightarrow> Q c2 (Inl x) | Inr _ \<Rightarrow> Q c2 r"
    by (auto simp: ends_in_def)
  then show ?thesis using r(1) by (cases u) (auto simp: ends_in_def efinally_def)
qed

text \<open>A computation that ends from every state of an invariant and keeps it.\<close>

definition ends_keeping :: "('c \<Rightarrow> bool) \<Rightarrow> ('c, 'a) eff \<Rightarrow> bool" where
  "ends_keeping I m \<longleftrightarrow> (\<forall>c. I c \<longrightarrow> ends_in (\<lambda>c' _. I c') m c)"

lemma ends_keepingD: "ends_keeping I m \<Longrightarrow> I c \<Longrightarrow> ends_in (\<lambda>c' _. I c') m c"
  by (simp add: ends_keeping_def)

section \<open>What every computation of a kind leaves alone\<close>

text \<open>\<open>keeps R m\<close>: whenever \<open>m\<close> ends, the states before and after are related.\<close>

definition keeps :: "('c \<Rightarrow> 'c \<Rightarrow> bool) \<Rightarrow> ('c, 'a) eff \<Rightarrow> bool" where
  "keeps R m \<longleftrightarrow> (\<forall>c c' r. m c = Some (c', r) \<longrightarrow> R c c')"

lemma keepsD: "keeps R m \<Longrightarrow> m c = Some (c', r) \<Longrightarrow> R c c'"
  by (auto simp: keeps_def)

lemma keeps_bind:
  assumes "transp R" "keeps R m" "\<And>a. keeps R (f a)"
  shows "keeps R (ebind m f)"
  unfolding keeps_def
proof (intro allI impI)
  fix c c' r
  assume e: "ebind m f c = Some (c', r)"
  then obtain c1 r1 where m: "m c = Some (c1, r1)" by (cases "m c") (auto simp: ebind_def)
  then have 1: "R c c1" by (rule keepsD[OF assms(2)])
  show "R c c'"
  proof (cases r1)
    case (Inl x)
    then show ?thesis using e m 1 by (simp add: ebind_def)
  next
    case (Inr a)
    then have "f a c1 = Some (c', r)" using e m by (simp add: ebind_def)
    then show ?thesis using transpD[OF assms(1) 1 keepsD[OF assms(3)]] by blast
  qed
qed

lemma keeps_ret: "reflp R \<Longrightarrow> keeps R (eret a)" "reflp R \<Longrightarrow> keeps R (eraise x)" "reflp R \<Longrightarrow> keeps R (eget f)"
  by (auto simp: keeps_def eff_defs dest: reflpD)

lemma keeps_seq: "transp R \<Longrightarrow> keeps R m \<Longrightarrow> keeps R n \<Longrightarrow> keeps R (eseq m n)"
  unfolding eseq_def by (rule keeps_bind)

lemma keeps_for: "reflp R \<Longrightarrow> transp R \<Longrightarrow> (\<And>a. a \<in> set as \<Longrightarrow> keeps R (f a)) \<Longrightarrow> keeps R (efor as f)"
  by (induction as) (auto intro: keeps_ret keeps_seq)

lemma keeps_map: "reflp R \<Longrightarrow> transp R \<Longrightarrow> (\<And>a. a \<in> set as \<Longrightarrow> keeps R (f a)) \<Longrightarrow> keeps R (emap f as)"
  by (induction as) (auto intro!: keeps_ret keeps_bind)

text \<open>Computations that end from every state, and the collections for the rules of both kinds.\<close>

definition returns :: "('c, 'a) eff \<Rightarrow> bool" where
  "returns m \<longleftrightarrow> (\<forall>c. m c \<noteq> None)"

named_theorems returns_intros \<open>computations that end\<close>
named_theorems keeps_intros \<open>computations that respect a relation\<close>

lemma returnsE: "returns m \<Longrightarrow> (\<And>c' r. m c = Some (c', r) \<Longrightarrow> P) \<Longrightarrow> P"
  by (fastforce simp: returns_def)

lemma returns_ends: "returns m \<Longrightarrow> keeps R m \<Longrightarrow> ends_in (\<lambda>c' _. R c c') m c"
  by (auto simp: ends_in_def elim!: returnsE[of m c] dest: keepsD)

lemma returns_bind [returns_intros]: "returns m \<Longrightarrow> (\<And>a. returns (f a)) \<Longrightarrow> returns (ebind m f)"
  by (auto simp: returns_def ebind_def split: option.splits sum.splits)

lemma returns_basic [returns_intros]:
  "returns (eret a)" "returns (eraise x)" "returns (eget g)" "returns (emodify h)" "returns (lift_unit u)" "returns (lift_pair p)" "returns (lift_sum q)"
  by (auto simp: returns_def eff_defs split: prod.splits option.splits sum.splits)

lemma returns_part [returns_intros]: "returns m \<Longrightarrow> returns (on_part sel upd m)"
  by (auto simp: returns_def on_part_def split: option.splits)

lemma returns_seq [returns_intros]: "returns m \<Longrightarrow> returns n \<Longrightarrow> returns (eseq m n)"
  unfolding eseq_def by (intro returns_intros)

lemma returns_catch [returns_intros]: "returns m \<Longrightarrow> (\<And>x. returns (h x)) \<Longrightarrow> returns (ecatch m h)"
  unfolding returns_def ecatch_def by (fastforce split: option.splits sum.splits)

lemma returns_finally [returns_intros]:
  assumes "returns m" "returns n"
  shows "returns (efinally m n)"
  unfolding returns_def
proof
  fix c
  obtain c1 r where "m c = Some (c1, r)" by (rule returnsE[OF assms(1)])
  moreover obtain c2 u where "n c1 = Some (c2, u)" by (rule returnsE[OF assms(2)])
  ultimately show "efinally m n c \<noteq> None" by (cases u) (simp_all add: efinally_def)
qed

lemma returns_for [returns_intros]: "(\<And>a. returns (f a)) \<Longrightarrow> returns (efor as f)"
  by (induction as) (auto intro: returns_intros)

lemma returns_map [returns_intros]: "(\<And>a. returns (f a)) \<Longrightarrow> returns (emap f as)"
  by (induction as) (auto intro!: returns_intros)

lemma keeps_catch:
  assumes "transp R" "keeps R m" "\<And>x. keeps R (h x)"
  shows "keeps R (ecatch m h)"
  unfolding keeps_def
proof (intro allI impI)
  fix c c' r
  assume e: "ecatch m h c = Some (c', r)"
  then obtain c1 r1 where m: "m c = Some (c1, r1)" by (cases "m c") (auto simp: ecatch_def)
  then have 1: "R c c1" by (rule keepsD[OF assms(2)])
  show "R c c'"
  proof (cases r1)
    case (Inl x)
    then have "h x c1 = Some (c', r)" using e m by (simp add: ecatch_def)
    then show ?thesis using transpD[OF assms(1) 1 keepsD[OF assms(3)]] by blast
  qed (use e m 1 in \<open>simp add: ecatch_def\<close>)
qed

lemma keeps_finally:
  assumes "transp R" "keeps R m" "keeps R n"
  shows "keeps R (efinally m n)"
  unfolding keeps_def
proof (intro allI impI)
  fix c c' r
  assume e: "efinally m n c = Some (c', r)"
  then obtain c1 r1 where m: "m c = Some (c1, r1)" by (cases "m c") (auto simp: efinally_def)
  then obtain c2 r2 where n: "n c1 = Some (c2, r2)" using e by (cases "n c1") (auto simp: efinally_def)
  have "c' = c2" using e m n by (cases r2) (auto simp: efinally_def)
  then show "R c c'" using transpD[OF assms(1) keepsD[OF assms(2) m] keepsD[OF assms(3) n]] by simp
qed

text \<open>The relation that a reading \<open>f\<close> of the state is unchanged is the one used most.\<close>

definition unchanged :: "('c \<Rightarrow> 'x) \<Rightarrow> 'c \<Rightarrow> 'c \<Rightarrow> bool" where
  "unchanged f c c' \<longleftrightarrow> f c' = f c"

lemma unchanged_rel [simp]: "reflp (unchanged f)" "transp (unchanged f)"
  by (auto simp: unchanged_def intro: reflpI transpI)

lemmas unchanged_intros [keeps_intros] =
  keeps_ret[OF unchanged_rel(1)] keeps_bind[OF unchanged_rel(2)] keeps_seq[OF unchanged_rel(2)]
  keeps_for[OF unchanged_rel] keeps_map[OF unchanged_rel] keeps_catch[OF unchanged_rel(2)] keeps_finally[OF unchanged_rel(2)]

lemma unchangedD: "keeps (unchanged f) m \<Longrightarrow> m c = Some (c', r) \<Longrightarrow> f c' = f c"
  by (auto simp: unchanged_def dest: keepsD)

end
