(* ===== verification/Local_Conversation.thy ===== *)
theory Local_Conversation
  imports Conversation_State Stuck_Detector Hooks Effects
begin

text \<open>
  \<open>sdk/conversation/impl/local_conversation.py\<close>, the operations around the run loop, and the event
  callback with its hooks (\<open>sdk/hooks/conversation_hooks.py\<close>): every event goes through the parent
  stamp, the path rules and the hooks before it is appended to the state and shown to the callers.

  The record \<open>lconv\<close> holds the conversation state and the attributes of the conversation that these
  operations change. The world holds what is outside of it: files that tools change, the LLM, what the
  callbacks of the callers do. Fresh event ids are drawn from a supply.
\<close>

section \<open>State\<close>

record ('s, 'w) lconv =
  lc_state :: "'s conv"
  lc_world :: 'w
  lc_ids :: nat
  lc_detector :: "stuck_detector option"
  lc_finish_nudge_emitted :: bool

record hook_log =
  hl_event_type :: hook_event_type
  hl_command :: str
  hl_result :: hook_result
  hl_tool_name :: "str option"
  hl_action_id :: "str option"
  hl_message_id :: "str option"
  hl_input :: "(str, str) dict"

record ('s, 'w) lenv =
  le_conv :: "'s conv_env"
  le_new_id :: "nat \<Rightarrow> str"
  le_hooks :: "'w hook_manager option"
  le_dump_hook_log :: "hook_log \<Rightarrow> str"
  le_path_rules :: "str \<Rightarrow> 'w \<Rightarrow> str option \<times> 'w"
  le_visualize :: "event \<Rightarrow> ('w, unit) eff"
  le_callbacks :: "event \<Rightarrow> ('w, unit) eff"
  le_ready :: "(('s, 'w) lconv, unit) eff"
  le_message_suffix :: "message \<Rightarrow> 'w \<Rightarrow> str option \<times> 'w"
  le_exc_name :: "py_exc \<Rightarrow> str"
  le_exc_text :: "py_exc \<Rightarrow> str"

definition on_state :: "('s conv, 'a) eff \<Rightarrow> (('s, 'w) lconv, 'a) eff" where
  "on_state = on_part lc_state (\<lambda>st c. c\<lparr>lc_state := st\<rparr>)"

definition on_world :: "('w, 'a) eff \<Rightarrow> (('s, 'w) lconv, 'a) eff" where
  "on_world = on_part lc_world (\<lambda>w c. c\<lparr>lc_world := w\<rparr>)"

definition from_world :: "('w \<Rightarrow> 'a \<times> 'w) \<Rightarrow> (('s, 'w) lconv, 'a) eff" where
  "from_world f = on_world (\<lambda>w. case f w of (a, w') \<Rightarrow> Some (w', Inr a))"

definition status_of :: "('s, 'w) lconv \<Rightarrow> execution_status" where
  "status_of c = exec_status (cs_base (lc_state c))"

definition set_status :: "('s, 'w) lenv \<Rightarrow> execution_status \<Rightarrow> (('s, 'w) lconv, unit) eff" where
  "set_status env s = on_state (lift_unit (set_attr (le_conv env) ''execution_status'' (\<lambda>b. b\<lparr>exec_status := s\<rparr>)))"

text \<open>\<open>with self._state:\<close>, whose exit runs whether or not the body raised.\<close>

definition with_block :: "('s, 'w) lenv \<Rightarrow> (('s, 'w) lconv, 'a) eff \<Rightarrow> (('s, 'w) lconv, 'a) eff" where
  "with_block env m =
     eseq (on_state (emodify state_enter)) (efinally m (on_state (lift_unit (state_exit (le_conv env)))))"

definition new_event :: "('s, 'w) lenv \<Rightarrow> source_type \<Rightarrow> event_body \<Rightarrow> (('s, 'w) lconv, event) eff" where
  "new_event env src body c =
     Some (c\<lparr>lc_ids := lc_ids c + 1\<rparr>,
       Inr \<lparr>ev_id = le_new_id env (lc_ids c), ev_source = src, ev_parent_id = None, ev_body = body\<rparr>)"

definition branch_now :: "('s, 'w) lenv \<Rightarrow> int option \<Rightarrow> (('s, 'w) lconv, event list) eff" where
  "branch_now env limit = on_state (lift_fuel (active_branch (le_conv env) limit))"

section \<open>The callback chain\<close>

definition default_callback :: "('s, 'w) lenv \<Rightarrow> event \<Rightarrow> (('s, 'w) lconv, unit) eff" where
  "default_callback env e =
     eseq (on_state (lift_pair (conv_append_event (le_conv env) e)))
       (if is_message (ev_body e) \<and> ev_source e = Src_User then
          on_state (lift_unit (set_attr (le_conv env) ''last_user_message_id'' (\<lambda>b. b\<lparr>last_user_message_id := Some (ev_id e)\<rparr>)))
        else eret ())"

definition base_callback :: "('s, 'w) lenv \<Rightarrow> event \<Rightarrow> (('s, 'w) lconv, unit) eff" where
  "base_callback env e =
     eseq (on_world (le_visualize env e)) (eseq (default_callback env e) (on_world (le_callbacks env e)))"

definition max_hook_log_chars :: nat where
  "max_hook_log_chars = 50000"

definition truncation_suffix :: str where
  "truncation_suffix = newline # ''<TRUNCATED>''"

definition truncate_hook_log :: "str option \<Rightarrow> str option" where
  "truncate_hook_log v =
     (case v of
        None \<Rightarrow> None
      | Some s \<Rightarrow>
          if length s \<le> max_hook_log_chars then Some s
          else if max_hook_log_chars \<le> length truncation_suffix then Some (take max_hook_log_chars s)
          else Some (take (max_hook_log_chars - length truncation_suffix) s @ truncation_suffix))"

definition logged_result :: "hook_result \<Rightarrow> hook_result" where
  "logged_result r = r\<lparr>hr_stdout := the (truncate_hook_log (Some (hr_stdout r))),
     hr_stderr := the (truncate_hook_log (Some (hr_stderr r))), hr_reason := truncate_hook_log (hr_reason r),
     hr_additional_context := truncate_hook_log (hr_additional_context r), hr_error := truncate_hook_log (hr_error r)\<rparr>"

definition emit_hook_execution_event :: "('s, 'w) lenv \<Rightarrow> hook_log \<Rightarrow> (('s, 'w) lconv, unit) eff" where
  "emit_hook_execution_event env l =
     ebind (new_event env Src_Hook (OtherEvent (le_dump_hook_log env (l\<lparr>hl_result := logged_result (hl_result l)\<rparr>))))
       (base_callback env)"

text \<open>\<open>for hook, result in zip(hooks, results, strict=False)\<close>, each with its own command and result.\<close>

definition emit_hook_events ::
    "('s, 'w) lenv \<Rightarrow> hook_definition list \<Rightarrow> hook_result list \<Rightarrow> hook_log \<Rightarrow> (('s, 'w) lconv, unit) eff" where
  "emit_hook_events env hooks results l =
     efor (zip hooks results) (\<lambda>(h, r). emit_hook_execution_event env (l\<lparr>hl_command := display_command h, hl_result := r\<rparr>))"

definition empty_log :: "hook_event_type \<Rightarrow> hook_log" where
  "empty_log t = \<lparr>hl_event_type = t, hl_command = '''', hl_result = new_result, hl_tool_name = None, hl_action_id = None,
     hl_message_id = None, hl_input = []\<rparr>"

definition reason_or_default :: "str option \<Rightarrow> str" where
  "reason_or_default reason = (if text_given reason then the reason else ''Blocked by hook'')"

definition handle_pre_tool_use :: "('s, 'w) lenv \<Rightarrow> 'w hook_manager \<Rightarrow> event \<Rightarrow> action_data \<Rightarrow> (('s, 'w) lconv, unit) eff" where
  "handle_pre_tool_use env mg e a =
     (if \<not> has_hooks mg PRE_TOOL_USE then eret ()
      else let tool_input = (case act_action a of None \<Rightarrow> ''{}'' | Some t \<Rightarrow> t) in
        ebind (from_world (run_pre_tool_use mg (act_tool_name a) tool_input)) (\<lambda>(go_on, results).
        eseq (emit_hook_events env (hooks_for mg PRE_TOOL_USE (Some (act_tool_name a))) results
            ((empty_log PRE_TOOL_USE)\<lparr>hl_tool_name := Some (act_tool_name a), hl_action_id := Some (ev_id e),
              hl_input := [(''tool_name'', act_tool_name a), (''tool_input'', tool_input)]\<rparr>))
          (if go_on then eret ()
           else on_state (lift_unit (block_action (le_conv env) (ev_id e) (reason_or_default (get_blocking_reason results)))))))"

text \<open>The action an observation answers, looked up in the whole log; a \<open>KeyError\<close> means there is none.\<close>

definition action_of_observation :: "('s, 'w) lenv \<Rightarrow> str \<Rightarrow> (('s, 'w) lconv, (event \<times> action_data) option) eff" where
  "action_of_observation env action_id =
     ecatch
       (ebind (eget (\<lambda>c. get_index action_id (cs_log (lc_state c)))) (\<lambda>r.
          case r of
            Inl x \<Rightarrow> eraise x
          | Inr idx \<Rightarrow> ebind (on_state (lift_sum (get_item (le_conv env) idx)))
              (\<lambda>e. eret (case ev_body e of ActionEvent a \<Rightarrow> Some (e, a) | _ \<Rightarrow> None))))
       (\<lambda>x. if x = KeyError then eret None else eraise x)"

definition handle_post_tool_use ::
    "('s, 'w) lenv \<Rightarrow> 'w hook_manager \<Rightarrow> observation_base \<Rightarrow> observation_data \<Rightarrow> (('s, 'w) lconv, unit) eff" where
  "handle_post_tool_use env mg b d =
     (if \<not> has_hooks mg POST_TOOL_USE then eret ()
      else ebind (action_of_observation env (obs_action_id d)) (\<lambda>found.
        case found of
          None \<Rightarrow> eret ()
        | Some (e, a) \<Rightarrow>
            let tool_input = (case act_action a of None \<Rightarrow> ''{}'' | Some t \<Rightarrow> t) in
            ebind (from_world (run_post_tool_use mg (obs_tool_name b) tool_input (observation d))) (\<lambda>results.
              emit_hook_events env (hooks_for mg POST_TOOL_USE (Some (obs_tool_name b))) results
                ((empty_log POST_TOOL_USE)\<lparr>hl_tool_name := Some (obs_tool_name b), hl_action_id := Some (ev_id e),
                  hl_input := [(''tool_name'', obs_tool_name b), (''tool_input'', tool_input), (''tool_response'', observation d)]\<rparr>))))"

definition message_text :: "content list \<Rightarrow> str" where
  "message_text cs = concat (map (\<lambda>c. case c of TextContent t \<Rightarrow> t | ImageContent _ \<Rightarrow> '''') cs)"

definition handle_user_prompt_submit ::
    "('s, 'w) lenv \<Rightarrow> 'w hook_manager \<Rightarrow> event \<Rightarrow> message \<Rightarrow> str list \<Rightarrow> (('s, 'w) lconv, event) eff" where
  "handle_user_prompt_submit env mg e msg ext =
     (if \<not> has_hooks mg USER_PROMPT_SUBMIT then eret e
      else let text = message_text (msg_content msg) in
        ebind (from_world (run_user_prompt_submit mg text)) (\<lambda>(go_on, additional_context, results).
        eseq (emit_hook_events env (hooks_for mg USER_PROMPT_SUBMIT None) results
            ((empty_log USER_PROMPT_SUBMIT)\<lparr>hl_message_id := Some (ev_id e), hl_input := [(''message'', text)]\<rparr>))
        (eseq (if go_on then eret ()
               else on_state (lift_unit (block_message (le_conv env) (ev_id e) (reason_or_default (get_blocking_reason results)))))
          (if text_given additional_context
           then new_event env (ev_source e) (MessageEvent msg (ext @ [the additional_context]))
           else eret e))))"

definition hooked_callback :: "('s, 'w) lenv \<Rightarrow> 'w hook_manager \<Rightarrow> event \<Rightarrow> (('s, 'w) lconv, unit) eff" where
  "hooked_callback env mg e =
     eseq (case ev_body e of
             ActionEvent a \<Rightarrow> if act_action a \<noteq> None then handle_pre_tool_use env mg e a else eret ()
           | _ \<Rightarrow> eret ())
    (eseq (case ev_body e of
             ObservationEvent b d \<Rightarrow> handle_post_tool_use env mg b d
           | _ \<Rightarrow> eret ())
    (ebind (case ev_body e of
             MessageEvent msg ext \<Rightarrow> if ev_source e = Src_User then handle_user_prompt_submit env mg e msg ext else eret e
           | _ \<Rightarrow> eret e)
      (base_callback env)))"

text \<open>The rules for the file a tool touched, which the arguments look up by the id of the action.\<close>

definition maybe_inject_path_rules :: "('s, 'w) lenv \<Rightarrow> event \<Rightarrow> (('s, 'w) lconv, event) eff" where
  "maybe_inject_path_rules env e =
     (case ev_body e of
        ObservationEvent b d \<Rightarrow>
          ebind (from_world (le_path_rules env (obs_action_id d))) (\<lambda>rules.
            eret (case rules of None \<Rightarrow> e
              | Some t \<Rightarrow> e\<lparr>ev_body := ObservationEvent b (d\<lparr>obs_extended_content := obs_extended_content d @ [t]\<rparr>)\<rparr>))
      | _ \<Rightarrow> eret e)"

definition on_event :: "('s, 'w) lenv \<Rightarrow> event \<Rightarrow> (('s, 'w) lconv, unit) eff" where
  "on_event env e =
     ebind (on_state (lift_sum (stamp_parent_id (le_conv env) e))) (\<lambda>e1.
     ebind (maybe_inject_path_rules env e1) (\<lambda>e2.
       case le_hooks env of None \<Rightarrow> base_callback env e2 | Some mg \<Rightarrow> hooked_callback env mg e2))"

definition emit :: "('s, 'w) lenv \<Rightarrow> source_type \<Rightarrow> event_body \<Rightarrow> (('s, 'w) lconv, unit) eff" where
  "emit env src body = ebind (new_event env src body) (on_event env)"

definition user_text :: "str \<Rightarrow> message" where
  "user_text t = plain_message Role_User [TextContent t]"


section \<open>Operations between runs\<close>

definition send_message :: "('s, 'w) lenv \<Rightarrow> message \<Rightarrow> (('s, 'w) lconv, unit) eff" where
  "send_message env msg =
     eseq (le_ready env)
    (if msg_role msg \<noteq> Role_User then eraise (AssertionError ''Only user messages are allowed to be sent to the agent.'')
     else with_block env
      (eseq (ebind (eget status_of) (\<lambda>s. if s = FINISHED \<or> s = STUCK then set_status env IDLE else eret ()))
      (ebind (from_world (le_message_suffix env msg)) (\<lambda>suffix.
         emit env Src_User (MessageEvent msg (case suffix of None \<Rightarrow> [] | Some t \<Rightarrow> [t]))))))"

definition reject_one :: "('s, 'w) lenv \<Rightarrow> str \<Rightarrow> event \<Rightarrow> (('s, 'w) lconv, unit) eff" where
  "reject_one env reason e =
     (case ev_body e of
        ActionEvent a \<Rightarrow> emit env Src_Environment (UserRejectObservation
          \<lparr>obs_tool_name = act_tool_name a, obs_tool_call_id = act_tool_call_id a\<rparr> reason (ev_id e))
      | _ \<Rightarrow> eret ())"

definition reject_pending_actions :: "('s, 'w) lenv \<Rightarrow> str \<Rightarrow> (('s, 'w) lconv, unit) eff" where
  "reject_pending_actions env reason =
     ebind (branch_now env None) (\<lambda>es. let pending = get_unmatched_actions es in
       with_block env
         (eseq (ebind (eget status_of) (\<lambda>s. if s = WAITING_FOR_CONFIRMATION then set_status env IDLE else eret ()))
           (if pending = [] then eret () else efor pending (reject_one env reason))))"

definition interrupted_text :: str where
  "interrupted_text = ''Tool call interrupted before completion. The conversation was paused.''"

definition error_one :: "('s, 'w) lenv \<Rightarrow> event \<Rightarrow> (('s, 'w) lconv, unit) eff" where
  "error_one env e =
     (case ev_body e of
        ActionEvent a \<Rightarrow> emit env Src_Agent (AgentErrorEvent
          \<lparr>obs_tool_name = act_tool_name a, obs_tool_call_id = act_tool_call_id a\<rparr> interrupted_text)
      | _ \<Rightarrow> eret ())"

definition emit_orphaned_action_errors :: "('s, 'w) lenv \<Rightarrow> (('s, 'w) lconv, unit) eff" where
  "emit_orphaned_action_errors env =
     ebind (branch_now env None) (\<lambda>es. efor (get_unmatched_actions es) (error_one env))"

definition pause :: "('s, 'w) lenv \<Rightarrow> (('s, 'w) lconv, unit) eff" where
  "pause env =
     ebind (eget status_of) (\<lambda>s. if s = PAUSED then eret ()
       else with_block env
         (ebind (eget status_of) (\<lambda>s'. if s' = IDLE \<or> s' = RUNNING
            then eseq (set_status env PAUSED) (emit env Src_User (OtherEvent ''PauseEvent'')) else eret ())))"

text \<open>\<open>HookEventProcessor.run_stop\<close>: whether the agent may stop, and what to tell it if not.\<close>

definition processor_run_stop :: "('s, 'w) lenv \<Rightarrow> 'w hook_manager \<Rightarrow> str option \<Rightarrow> (('s, 'w) lconv, bool \<times> str option) eff" where
  "processor_run_stop env mg reason =
     (if \<not> has_hooks mg STOP then eret (True, None)
      else ebind (from_world (run_stop mg reason)) (\<lambda>(should_stop, results).
        eseq (emit_hook_events env (hooks_for mg STOP None) results
            ((empty_log STOP)\<lparr>hl_input := (if text_given reason then [(''reason'', the reason)] else [])\<rparr>))
          (eret (should_stop,
            if should_stop then None
            else let parts = given_texts hr_additional_context results; reason_text = get_blocking_reason results in
              if parts \<noteq> [] then Some (py_join [newline] parts)
              else if text_given reason_text then reason_text else None))))"

section \<open>What the operations leave alone\<close>

text \<open>The parts of the base state that only explicit assignments change.\<close>

definition core_of :: "base_state \<Rightarrow> execution_status \<times> (str, str) dict \<times> (str, str) dict \<times> str option" where
  "core_of b = (exec_status b, blocked_actions b, blocked_messages b, last_user_message_id b)"

abbreviation core :: "('s, 'w) lconv \<Rightarrow> execution_status \<times> (str, str) dict \<times> (str, str) dict \<times> str option" where
  "core c \<equiv> core_of (cs_base (lc_state c))"

lemma status_core: "status_of c = fst (core c)"
  by (simp add: status_of_def core_of_def)

lemma save_base_state_base: "save_base_state env st = Inr st' \<Longrightarrow> cs_base st' = cs_base st"
  by (auto simp: save_base_state_def rbind_def split: option.splits sum.splits)

lemma set_attr_base: "set_attr env name upd st = (st', r) \<Longrightarrow> cs_base st' = upd (cs_base st)"
  by (auto simp: set_attr_def Let_def save_base_state_base split: if_splits sum.splits)

lemma state_exit_base: "state_exit env st = (st', r) \<Longrightarrow> cs_base st' = cs_base st"
  by (auto simp: state_exit_def Let_def save_base_state_base split: if_splits sum.splits)

lemma get_item_base: "get_item env i st = Inr (e, st') \<Longrightarrow> cs_base st' = cs_base st"
  by (auto simp: get_item_def rbind_def split: sum.splits prod.splits)

lemma last_real_event_base: "last_real_event env n st = Inr (l, st') \<Longrightarrow> cs_base st' = cs_base st"
proof (induction n arbitrary: st)
  case (Suc n)
  show ?case
  proof (cases "get_item env n st")
    case (Inr p)
    obtain e st1 where p: "p = (e, st1)" by fastforce
    have "cs_base st1 = cs_base st" using get_item_base[of env n st] Inr p by simp
    then show ?thesis using Suc.prems Suc.IH[of st1] Inr p by (cases "get_id (int n) (cs_log st1)") (auto split: if_splits)
  qed (use Suc.prems in auto)
qed simp

lemma resolve_active_leaf_base: "resolve_active_leaf env st = Inr (l, st') \<Longrightarrow> cs_base st' = cs_base st"
  by (auto simp: resolve_active_leaf_def last_real_event_base split: option.splits if_splits)

lemma active_branch_base: "active_branch env limit st = Some (Inr (es, st')) \<Longrightarrow> cs_base st' = cs_base st"
  by (auto simp: active_branch_def branch_to_def dest!: resolve_active_leaf_base split: sum.splits option.splits prod.splits)

lemma stamp_parent_id_base: "stamp_parent_id env e st = Inr (e', st') \<Longrightarrow> cs_base st' = cs_base st"
  by (auto simp: stamp_parent_id_def rbind_def Let_def dest!: resolve_active_leaf_base split: if_splits sum.splits)

lemma conv_append_event_core: "conv_append_event env e st = (st', r) \<Longrightarrow> core_of (cs_base st') = core_of (cs_base st)"
  by (auto simp: conv_append_event_def Let_def core_of_def dest!: set_attr_base stamp_parent_id_base
      split: sum.splits prod.splits option.splits if_splits)

text \<open>Computations on a part of the state leave readings of other parts alone.\<close>

lemma on_state_core [keeps_intros]:
  "(\<And>st st' r. m st = Some (st', r) \<Longrightarrow> core_of (cs_base st') = core_of (cs_base st)) \<Longrightarrow> keeps (unchanged core) (on_state m)"
  by (auto simp: keeps_def unchanged_def on_state_def on_part_def split: option.splits)

lemma on_world_core [keeps_intros]: "keeps (unchanged core) (on_world m)" "keeps (unchanged core) (from_world f)"
  by (auto simp: keeps_def unchanged_def from_world_def on_world_def on_part_def split: option.splits prod.splits)

lemma new_event_core [keeps_intros]: "keeps (unchanged core) (new_event env src body)"
  by (auto simp: keeps_def unchanged_def new_event_def)

lemma state_exit_core [keeps_intros]: "keeps (unchanged core) (on_state (lift_unit (state_exit env)))"
  by (rule on_state_core) (auto simp: lift_unit_def dest!: state_exit_base split: prod.splits option.splits)

lemma state_enter_core [keeps_intros]: "keeps (unchanged core) (on_state (emodify state_enter))"
  by (rule on_state_core) (auto simp: emodify_def state_enter_def)

lemma branch_now_core [keeps_intros]: "keeps (unchanged core) (branch_now env limit)"
  unfolding branch_now_def
  by (rule on_state_core) (auto simp: lift_fuel_def active_branch_base split: option.splits sum.splits)

lemma get_item_core [keeps_intros]: "keeps (unchanged core) (on_state (lift_sum (get_item env i)))"
  by (rule on_state_core) (auto simp: lift_sum_def get_item_base split: sum.splits)

lemma stamp_core [keeps_intros]: "keeps (unchanged core) (on_state (lift_sum (stamp_parent_id env e)))"
  by (rule on_state_core) (auto simp: lift_sum_def stamp_parent_id_base split: sum.splits)

lemma append_core [keeps_intros]: "keeps (unchanged core) (on_state (lift_pair (conv_append_event env e)))"
  by (rule on_state_core) (auto simp: lift_pair_def conv_append_event_core)

text \<open>What each assignment does to the core.\<close>

lemma set_status_status: "set_status env s c = Some (c', r) \<Longrightarrow> status_of c' = s"
  by (auto simp: set_status_def on_state_def on_part_def lift_unit_def status_of_def dest!: set_attr_base
      split: prod.splits option.splits)

lemma with_block_core:
  assumes "with_block env m c = Some (c', r)"
  obtains c1 c2 r2 where "m c1 = Some (c2, r2)" "core c1 = core c" "core c' = core c2" "\<And>a. r = Inr a \<Longrightarrow> r2 = Inr a"
proof -
  let ?enter = "on_state (emodify state_enter) :: (('a, 'b) lconv, unit) eff"
  let ?exit = "on_state (lift_unit (state_exit (le_conv env))) :: (('a, 'b) lconv, unit) eff"
  obtain c1 where c1: "?enter c = Some (c1, Inr ())" by (simp add: on_state_def on_part_def emodify_def)
  have "core c1 = core c" using unchangedD[OF state_enter_core c1] .
  moreover have e: "efinally m ?exit c1 = Some (c', r)" using assms c1 by (simp add: with_block_def eff_simps)
  then obtain c2 r2 where m: "m c1 = Some (c2, r2)" by (cases "m c1") (auto simp: efinally_def)
  then obtain c3 r3 where x: "?exit c2 = Some (c3, r3)" using e by (cases "?exit c2") (auto simp: efinally_def)
  have "core c3 = core c2" using unchangedD[OF state_exit_core x] .
  moreover have "c' = c3" "\<And>a. r = Inr a \<Longrightarrow> r2 = Inr a" using e m x by (cases r3; auto simp: efinally_def)+
  ultimately show ?thesis using that m by blast
qed

text \<open>No event changes the status: only assignments do.\<close>

lemma status_of_core [keeps_intros]: "keeps (unchanged core) m \<Longrightarrow> keeps (unchanged status_of) m"
  by (auto simp: keeps_def unchanged_def status_core)

lemma assign_other_status [keeps_intros]:
  "(\<And>b. exec_status (upd b) = exec_status b) \<Longrightarrow> keeps (unchanged status_of) (on_state (lift_unit (set_attr env name upd)))"
  by (auto simp: keeps_def unchanged_def status_of_def on_state_def on_part_def lift_unit_def dest!: set_attr_base
      split: prod.splits option.splits)

lemmas parts_status = status_of_core[OF on_world_core(1)] status_of_core[OF on_world_core(2)] status_of_core[OF new_event_core]
  status_of_core[OF get_item_core] status_of_core[OF stamp_core] status_of_core[OF append_core] status_of_core[OF branch_now_core]

lemma default_callback_status: "keeps (unchanged status_of) (default_callback env e)"
  unfolding default_callback_def by (auto intro!: unchanged_intros assign_other_status intro: parts_status)

lemma base_callback_status: "keeps (unchanged status_of) (base_callback env e)"
  unfolding base_callback_def
  by (intro unchanged_intros default_callback_status) (rule parts_status)+

lemma emit_hook_events_status: "keeps (unchanged status_of) (emit_hook_events env hs rs l)"
  unfolding emit_hook_events_def emit_hook_execution_event_def
  by (auto intro!: unchanged_intros base_callback_status intro: parts_status)

lemmas status_intros = unchanged_intros assign_other_status emit_hook_events_status base_callback_status

lemma handle_pre_tool_use_status: "keeps (unchanged status_of) (handle_pre_tool_use env mg e a)"
  unfolding handle_pre_tool_use_def block_action_def Let_def
  by (auto intro!: status_intros intro: parts_status split: prod.split)

lemma action_of_observation_status: "keeps (unchanged status_of) (action_of_observation env i)"
  unfolding action_of_observation_def
  by (auto intro!: unchanged_intros intro: parts_status split: sum.split)

lemma handle_post_tool_use_status: "keeps (unchanged status_of) (handle_post_tool_use env mg b d)"
  unfolding handle_post_tool_use_def Let_def
  by (auto intro!: status_intros action_of_observation_status intro: parts_status split: option.split)

lemma handle_user_prompt_submit_status: "keeps (unchanged status_of) (handle_user_prompt_submit env mg e msg ext)"
  unfolding handle_user_prompt_submit_def block_message_def Let_def
  by (auto intro!: status_intros intro: parts_status split: prod.split)

lemma hooked_callback_status: "keeps (unchanged status_of) (hooked_callback env mg e)"
  unfolding hooked_callback_def
  by (intro unchanged_intros base_callback_status; cases "ev_body e")
    (auto intro!: unchanged_intros intro: handle_pre_tool_use_status handle_post_tool_use_status handle_user_prompt_submit_status)

lemma maybe_inject_path_rules_status: "keeps (unchanged status_of) (maybe_inject_path_rules env e)"
  unfolding maybe_inject_path_rules_def
  by (cases "ev_body e") (auto intro!: unchanged_intros intro: parts_status)

lemma on_event_status: "keeps (unchanged status_of) (on_event env e)"
  unfolding on_event_def
  by (auto intro!: unchanged_intros maybe_inject_path_rules_status hooked_callback_status base_callback_status
      intro: parts_status split: option.split)

lemma emit_status: "keeps (unchanged status_of) (emit env src body)"
  unfolding emit_def by (intro unchanged_intros on_event_status) (rule parts_status)

lemma processor_run_stop_status: "keeps (unchanged status_of) (processor_run_stop env mg reason)"
  unfolding processor_run_stop_def
  by (auto intro!: status_intros intro: parts_status split: prod.split)

section \<open>Termination of the callbacks\<close>

text \<open>The callbacks of the callers return.\<close>

definition callbacks_return :: "('s, 'w) lenv \<Rightarrow> bool" where
  "callbacks_return env \<longleftrightarrow> (\<forall>e. returns (le_visualize env e) \<and> returns (le_callbacks env e))"

lemma returns_state [returns_intros]: "returns m \<Longrightarrow> returns (on_state m)" "returns w \<Longrightarrow> returns (on_world w)" "returns (from_world f)"
  unfolding on_state_def on_world_def from_world_def
  by (intro returns_intros; assumption)+ (rule returns_part, simp add: returns_def split: prod.splits)

lemma returns_new_event [returns_intros]: "returns (new_event env src body)" "returns (set_status env s)"
  by (simp_all add: returns_def new_event_def set_status_def on_state_def on_part_def lift_unit_def split: prod.splits option.splits)

lemma returns_with_block [returns_intros]: "returns m \<Longrightarrow> returns (with_block env m)"
  unfolding with_block_def by (intro returns_intros)

lemma returns_base_callback: "callbacks_return env \<Longrightarrow> returns (base_callback env e)"
  unfolding base_callback_def default_callback_def callbacks_return_def by (auto intro!: returns_intros)

lemma returns_emit_hook_events: "callbacks_return env \<Longrightarrow> returns (emit_hook_events env hs rs l)"
  unfolding emit_hook_events_def emit_hook_execution_event_def
  by (auto intro!: returns_intros intro: returns_base_callback)

lemma returns_hooked_callback: "callbacks_return env \<Longrightarrow> returns (hooked_callback env mg e)"
  unfolding hooked_callback_def handle_pre_tool_use_def handle_post_tool_use_def handle_user_prompt_submit_def
    action_of_observation_def Let_def
  by (intro returns_intros; cases "ev_body e")
    (auto intro!: returns_intros intro: returns_base_callback returns_emit_hook_events split: prod.split option.split sum.split)

lemma returns_inject [returns_intros]: "returns (maybe_inject_path_rules env e)"
  unfolding maybe_inject_path_rules_def by (cases "ev_body e") (auto intro!: returns_intros)

lemma returns_on_event: "callbacks_return env \<Longrightarrow> returns (on_event env e)"
  unfolding on_event_def
  by (auto intro!: returns_intros intro: returns_base_callback returns_hooked_callback split: option.split)

lemma returns_emit [returns_intros]: "callbacks_return env \<Longrightarrow> returns (emit env src body)"
  unfolding emit_def by (intro returns_intros returns_on_event)

lemma returns_processor_run_stop: "callbacks_return env \<Longrightarrow> returns (processor_run_stop env mg reason)"
  unfolding processor_run_stop_def by (auto intro!: returns_intros intro: returns_emit_hook_events split: prod.split)

lemma returns_branch_now: "returns (branch_now env (Some l))"
  using active_branch_limit_ends[of "le_conv env" l]
  by (auto simp: returns_def branch_now_def on_state_def on_part_def lift_fuel_def split: option.splits sum.splits)

end
