(* ===== verification/Run_Loop.thy ===== *)
theory Run_Loop
  imports Local_Conversation
begin

text \<open>
  \<open>LocalConversation.run\<close>: the loop that checks for a pause, for stop hooks and for stuck patterns, takes
  a step of the agent, and stops at a confirmation, at the budget or at the iteration limit.

  The step of the agent is an argument. Every round holds the state lock; between two rounds other
  threads may have sent messages, paused or rejected: what they did before round \<open>k + 1\<close> is
  \<open>re_others k\<close>. The loop is given a number of rounds.
\<close>

section \<open>The loop\<close>

record ('s, 'w) run_env =
  re_conv :: "('s, 'w) lenv"
  re_step :: "(('s, 'w) lconv, unit) eff"
  re_json_loads :: "str \<Rightarrow> json option"
  re_max_iterations :: int
  re_max_budget :: "rat option"
  re_spent :: "'w \<Rightarrow> rat"
  re_budget_text :: "rat \<Rightarrow> rat \<Rightarrow> str"
  re_has_finish :: "'w \<Rightarrow> bool"
  re_others :: "nat \<Rightarrow> ('s, 'w) lconv \<Rightarrow> ('s, 'w) lconv"

definition environment_message :: "('s, 'w) lenv \<Rightarrow> str \<Rightarrow> (('s, 'w) lconv, unit) eff" where
  "environment_message env t = emit env Src_Environment (MessageEvent (user_text t) [])"

definition stuck_verdict :: "('s, 'w) run_env \<Rightarrow> event list \<Rightarrow> (('s, 'w) lconv, bool) eff" where
  "stuck_verdict re window c =
     (case check_stuck_or_nudge (re_json_loads re) window (lc_detector c) of
        (d, Inl x) \<Rightarrow> eraise x (c\<lparr>lc_detector := d\<rparr>)
      | (d, Inr (Some nudge, _)) \<Rightarrow> eseq (environment_message (re_conv re) nudge) (eret False) (c\<lparr>lc_detector := d\<rparr>)
      | (d, Inr (None, True)) \<Rightarrow> eseq (set_status (re_conv re) STUCK) (eret True) (c\<lparr>lc_detector := d\<rparr>)
      | (d, Inr (None, False)) \<Rightarrow> eret False (c\<lparr>lc_detector := d\<rparr>))"

definition check_stuck :: "('s, 'w) run_env \<Rightarrow> (('s, 'w) lconv, bool) eff" where
  "check_stuck re c =
     (if lc_detector c = None then eret False c
      else ebind (branch_now (re_conv re) (Some max_events_to_scan)) (stuck_verdict re) c)"

definition finish_nudge_text :: "int \<Rightarrow> int \<Rightarrow> str" where
  "finish_nudge_text remaining max_iters =
     ''[Iteration budget] '' @ int_to_str remaining @ '' iteration(s) remaining (limit '' @ int_to_str max_iters @
     ''). If the task is already verified or clearly blocked, call `finish` now instead of further exploration.''"

definition maybe_emit_finish_nudge :: "('s, 'w) run_env \<Rightarrow> int \<Rightarrow> (('s, 'w) lconv, unit) eff" where
  "maybe_emit_finish_nudge re iteration c =
     (let max_iters = re_max_iterations re; remaining = max_iters - iteration; threshold = max 3 (max_iters div 10) in
      if lc_finish_nudge_emitted c then eret () c
      else if status_of c = FINISHED then eret () c
      else if max_iters \<le> 0 then eret () c
      else if remaining \<le> 0 \<or> remaining > threshold then eret () c
      else if \<not> re_has_finish re (lc_world c) then eret () c
      else eseq (environment_message (re_conv re) (finish_nudge_text remaining max_iters))
        (emodify (\<lambda>c. c\<lparr>lc_finish_nudge_emitted := True\<rparr>)) c)"

definition budget_exceeded_detail :: "('s, 'w) run_env \<Rightarrow> ('s, 'w) lconv \<Rightarrow> str option" where
  "budget_exceeded_detail re c =
     (case re_max_budget re of
        None \<Rightarrow> None
      | Some budget \<Rightarrow> let spent = re_spent re (lc_world c) in if spent < budget then None else Some (re_budget_text re budget spent))"

definition emit_run_limit_error :: "('s, 'w) lenv \<Rightarrow> str \<Rightarrow> str \<Rightarrow> (('s, 'w) lconv, unit) eff" where
  "emit_run_limit_error env code detail =
     eseq (set_status env ERROR) (emit env Src_Environment (ConversationErrorEvent code detail))"

definition iteration_limit_text :: "int \<Rightarrow> str" where
  "iteration_limit_text max_iters = ''Agent reached maximum iterations limit ('' @ int_to_str max_iters @ '').''"

datatype signal = Continue int | Break

definition stop_feedback_prefix :: str where
  "stop_feedback_prefix = ''[Stop hook feedback]''"

text \<open>What a finished agent does: stop, unless the stop hooks deny it.\<close>

definition on_finished :: "('s, 'w) run_env \<Rightarrow> int \<Rightarrow> (('s, 'w) lconv, signal) eff" where
  "on_finished re iteration =
     (let env = re_conv re in
      case le_hooks env of
        None \<Rightarrow> eret Break
      | Some mg \<Rightarrow> ebind (processor_run_stop env mg (Some ''agent_finished'')) (\<lambda>(should_stop, feedback).
          if should_stop then eret Break
          else eseq (if text_given feedback then environment_message env (stop_feedback_prefix @ '' '' @ the feedback) else eret ())
            (eseq (set_status env RUNNING) (eret (Continue iteration)))))"

definition after_step :: "('s, 'w) run_env \<Rightarrow> int \<Rightarrow> (('s, 'w) lconv, signal) eff" where
  "after_step re iteration c =
     (if status_of c = WAITING_FOR_CONFIRMATION then eret Break c
      else case (budget_exceeded_detail re c, status_of c \<noteq> FINISHED) of
        (Some detail, True) \<Rightarrow> eseq (emit_run_limit_error (re_conv re) ''MaxBudgetReached'' detail) (eret Break) c
      | _ \<Rightarrow>
          if iteration \<ge> re_max_iterations re then
            (if status_of c = FINISHED then eret Break c
             else eseq (emit_run_limit_error (re_conv re) ''MaxIterationsReached'' (iteration_limit_text (re_max_iterations re)))
               (eret Break) c)
          else eret (Continue iteration) c)"

definition take_step :: "('s, 'w) run_env \<Rightarrow> int \<Rightarrow> (('s, 'w) lconv, signal) eff" where
  "take_step re iteration =
     eseq (ebind (eget status_of) (\<lambda>s. if s = WAITING_FOR_CONFIRMATION then set_status (re_conv re) RUNNING else eret ()))
    (eseq (maybe_emit_finish_nudge re iteration)
    (eseq (re_step re) (after_step re (iteration + 1))))"

definition round_body :: "('s, 'w) run_env \<Rightarrow> int \<Rightarrow> (('s, 'w) lconv, signal) eff" where
  "round_body re iteration c =
     (if status_of c = PAUSED \<or> status_of c = STUCK then eret Break c
      else if status_of c = FINISHED then on_finished re iteration c
      else ebind (check_stuck re) (\<lambda>stuck. if stuck then eret (Continue iteration) else take_step re iteration) c)"

fun run_loop :: "nat \<Rightarrow> ('s, 'w) run_env \<Rightarrow> nat \<Rightarrow> int \<Rightarrow> (('s, 'w) lconv, unit) eff" where
  "run_loop 0 re k iteration = (\<lambda>c. None)"
| "run_loop (Suc fuel) re k iteration =
     ebind (with_block (re_conv re) (round_body re iteration)) (\<lambda>sig.
       case sig of Break \<Rightarrow> eret () | Continue i \<Rightarrow> eseq (emodify (re_others re k)) (run_loop fuel re (Suc k) i))"

section \<open>Errors of a run\<close>

fun latest_conversation_error :: "('s, 'w) lenv \<Rightarrow> nat \<Rightarrow> nat \<Rightarrow> (('s, 'w) lconv, event option) eff" where
  "latest_conversation_error env since 0 = eret None"
| "latest_conversation_error env since (Suc i) =
     (if i < since then eret None
      else ebind (on_state (lift_sum (get_item (le_conv env) i))) (\<lambda>e.
        case ev_body e of
          ConversationErrorEvent _ _ \<Rightarrow> eret (Some e)
        | _ \<Rightarrow> latest_conversation_error env since i))"

definition event_count :: "('s, 'w) lconv \<Rightarrow> nat" where
  "event_count c = el_length (cs_log (lc_state c))"

definition latest_error_now :: "('s, 'w) lenv \<Rightarrow> nat \<Rightarrow> (('s, 'w) lconv, event option) eff" where
  "latest_error_now env since c = latest_conversation_error env since (event_count c) c"

definition agent_already_surfaced_error :: "('s, 'w) lenv \<Rightarrow> nat \<Rightarrow> (('s, 'w) lconv, bool) eff" where
  "agent_already_surfaced_error env since =
     ebind (latest_error_now env since) (\<lambda>latest. eret (case latest of None \<Rightarrow> False | Some e \<Rightarrow> ev_source e = Src_Agent))"

definition run_failed :: "('s, 'w) lenv \<Rightarrow> nat \<Rightarrow> py_exc \<Rightarrow> (('s, 'w) lconv, unit) eff" where
  "run_failed env since x =
     eseq (with_block env
        (eseq (set_status env ERROR)
          (ebind (agent_already_surfaced_error env since) (\<lambda>surfaced.
             if surfaced then eret ()
             else emit env Src_Environment (ConversationErrorEvent (le_exc_name env x) (le_exc_text env x))))))
    (ebind (latest_error_now env since) (\<lambda>_. eraise (ConversationRunError x)))"

definition start_run :: "('s, 'w) lenv \<Rightarrow> (('s, 'w) lconv, unit) eff" where
  "start_run env =
     eseq (le_ready env)
    (eseq (emodify (\<lambda>c. c\<lparr>lc_finish_nudge_emitted := False\<rparr>))
    (with_block env (ebind (eget status_of) (\<lambda>s.
       if s \<in> {IDLE, PAUSED, ERROR, STUCK} then set_status env RUNNING else eret ()))))"

definition run :: "nat \<Rightarrow> ('s, 'w) run_env \<Rightarrow> (('s, 'w) lconv, unit) eff" where
  "run fuel re =
     eseq (start_run (re_conv re)) (\<lambda>c. ecatch (run_loop fuel re 0 0) (run_failed (re_conv re) (event_count c)) c)"

section \<open>What a round does\<close>

lemma environment_message_status: "keeps (unchanged status_of) (environment_message env t)"
  unfolding environment_message_def by (rule emit_status)

lemma returns_environment_message [returns_intros]: "callbacks_return env \<Longrightarrow> returns (environment_message env t)"
  unfolding environment_message_def by (rule returns_emit)

lemma stuck_verdict_status: "stuck_verdict re window c = Some (c', Inr b) \<Longrightarrow> status_of c' = (if b then STUCK else status_of c)"
proof -
  have put: "status_of (x\<lparr>lc_detector := d\<rparr>) = status_of x" for x :: "('a, 'b) lconv" and d by (simp add: status_of_def)
  assume "stuck_verdict re window c = Some (c', Inr b)"
  then show ?thesis
    by (auto simp: put stuck_verdict_def eret_def eraise_def elim!: eseq_unchanged
        dest!: unchangedD[OF environment_message_status] set_status_status
        split: prod.splits sum.splits option.splits bool.splits)
qed

lemma check_stuck_status: "check_stuck re c = Some (c', Inr b) \<Longrightarrow> status_of c' = (if b then STUCK else status_of c)"
  by (auto simp: check_stuck_def eret_def elim!: ebind_Inr dest!: unchangedD[OF parts_status(7)] stuck_verdict_status split: if_splits)

lemma returns_stuck_verdict: "callbacks_return (re_conv re) \<Longrightarrow> returns (stuck_verdict re window)"
proof -
  assume cb: "callbacks_return (re_conv re)"
  have "returns (eseq (environment_message (re_conv re) t) (eret False))" "returns (eseq (set_status (re_conv re) STUCK) (eret True))" for t
    using cb by (auto intro!: returns_intros)
  then show ?thesis
    by (auto simp: returns_def stuck_verdict_def eret_def eraise_def split: prod.splits sum.splits option.splits bool.splits)
qed

lemma returns_check_stuck: "callbacks_return (re_conv re) \<Longrightarrow> returns (check_stuck re)"
proof -
  assume "callbacks_return (re_conv re)"
  then have "returns (ebind (branch_now (re_conv re) (Some max_events_to_scan)) (stuck_verdict re))"
    by (intro returns_bind returns_branch_now returns_stuck_verdict)
  then show ?thesis by (simp add: returns_def check_stuck_def eret_def)
qed

lemma finish_nudge_status: "keeps (unchanged status_of) (maybe_emit_finish_nudge re i)"
proof -
  have "keeps (unchanged status_of) (eseq (environment_message (re_conv re) t) (emodify (\<lambda>c. c\<lparr>lc_finish_nudge_emitted := True\<rparr>)))" for t
    by (intro unchanged_intros environment_message_status) (simp add: keeps_def unchanged_def emodify_def status_of_def)
  then show ?thesis by (auto simp: keeps_def maybe_emit_finish_nudge_def Let_def eret_def unchanged_def split: if_splits)
qed

lemma returns_finish_nudge: "callbacks_return (re_conv re) \<Longrightarrow> returns (maybe_emit_finish_nudge re i)"
proof -
  assume cb: "callbacks_return (re_conv re)"
  have "returns (eseq (environment_message (re_conv re) t) (emodify (\<lambda>c. c\<lparr>lc_finish_nudge_emitted := True\<rparr>)))" for t
    using cb by (auto intro!: returns_intros)
  then show ?thesis by (auto simp: returns_def maybe_emit_finish_nudge_def Let_def eret_def)
qed

lemma run_limit_error_status: "emit_run_limit_error env code d c = Some (c', Inr u) \<Longrightarrow> status_of c' = ERROR"
  unfolding emit_run_limit_error_def
  by (auto elim!: eseq_unchanged dest!: set_status_status unchangedD[OF emit_status])

lemma returns_run_limit_error [returns_intros]: "callbacks_return env \<Longrightarrow> returns (emit_run_limit_error env code d)"
  unfolding emit_run_limit_error_def by (intro returns_intros)

lemma after_step_cases:
  assumes "after_step re j c = Some (c', Inr sig)"
  shows "case sig of Continue i \<Rightarrow> i = j \<and> j < re_max_iterations re \<and> c' = c | Break \<Rightarrow> status_of c' \<in> {WAITING_FOR_CONFIRMATION, FINISHED, ERROR}"
  using assms
  by (auto simp: after_step_def eret_def elim!: eseq_unchanged dest!: run_limit_error_status
      split: if_splits option.splits bool.splits)

lemma returns_after_step: "callbacks_return (re_conv re) \<Longrightarrow> returns (after_step re j)"
proof -
  assume cb: "callbacks_return (re_conv re)"
  have "returns (eseq (emit_run_limit_error (re_conv re) a b) (eret Break))" for a b using cb by (auto intro!: returns_intros)
  then show ?thesis by (auto simp: returns_def after_step_def eret_def split: option.split bool.split)
qed

lemma on_finished_cases:
  assumes "on_finished re i c = Some (c', Inr sig)"
  shows "case sig of Continue j \<Rightarrow> j = i \<and> status_of c' = RUNNING | Break \<Rightarrow> status_of c' = status_of c"
  using assms
  by (auto simp: on_finished_def eret_def Let_def elim!: eseq_unchanged ebind_Inr
      dest!: set_status_status unchangedD[OF processor_run_stop_status] split: option.splits prod.splits if_splits)

lemma returns_on_finished: "callbacks_return (re_conv re) \<Longrightarrow> returns (on_finished re i)"
  unfolding on_finished_def Let_def
  by (auto intro!: returns_intros intro: returns_processor_run_stop split: option.split prod.split)

lemma returns_take_step: "callbacks_return (re_conv re) \<Longrightarrow> returns (re_step re) \<Longrightarrow> returns (take_step re i)"
  unfolding take_step_def by (auto intro!: returns_intros intro: returns_finish_nudge returns_after_step)

lemma returns_round_body: "callbacks_return (re_conv re) \<Longrightarrow> returns (re_step re) \<Longrightarrow> returns (round_body re i)"
proof -
  assume h: "callbacks_return (re_conv re)" "returns (re_step re)"
  have "returns (ebind (check_stuck re) (\<lambda>stuck. if stuck then eret (Continue i) else take_step re i))"
    by (auto intro!: returns_intros intro: returns_check_stuck[OF h(1)] returns_take_step[OF h])
  then show ?thesis using returns_on_finished[OF h(1)] by (simp add: returns_def round_body_def eret_def)
qed

text \<open>
  The work a loop has left: a step costs an iteration; a denied stop turns a finished agent into a
  running one and a stuck one stops in the next round.
\<close>

definition round_work :: "('s, 'w) run_env \<Rightarrow> int \<Rightarrow> ('s, 'w) lconv \<Rightarrow> nat" where
  "round_work re i c = 3 * nat (re_max_iterations re - i) +
     (if status_of c = PAUSED \<or> status_of c = STUCK then 0 else if status_of c = FINISHED then 2 else 1)"

definition stopped :: "execution_status set" where
  "stopped = {PAUSED, STUCK, FINISHED, WAITING_FOR_CONFIRMATION, ERROR}"

lemma take_step_cases:
  assumes "take_step re i c = Some (c', Inr sig)"
  shows "case sig of Continue j \<Rightarrow> j = i + 1 \<and> j < re_max_iterations re | Break \<Rightarrow> status_of c' \<in> stopped"
proof -
  obtain c1 where "after_step re (i + 1) c1 = Some (c', Inr sig)"
    using assms by (auto simp: take_step_def elim!: eseq_unchanged)
  from after_step_cases[OF this] show ?thesis by (auto simp: stopped_def split: signal.splits)
qed

lemma round_body_cases:
  assumes "round_body re i c = Some (c', Inr sig)"
  shows "case sig of Continue j \<Rightarrow> i \<le> j \<and> round_work re j c' < round_work re i c | Break \<Rightarrow> status_of c' \<in> stopped"
proof -
  consider "status_of c = PAUSED \<or> status_of c = STUCK" | "status_of c = FINISHED"
    | "status_of c \<notin> {PAUSED, STUCK, FINISHED}" by blast
  then show ?thesis
  proof cases
    case 1
    then show ?thesis using assms by (auto simp: round_body_def eret_def stopped_def)
  next
    case 2
    then have "on_finished re i c = Some (c', Inr sig)" using assms by (simp add: round_body_def)
    from on_finished_cases[OF this] show ?thesis using 2 by (auto simp: round_work_def stopped_def split: signal.splits)
  next
    case 3
    then have "ebind (check_stuck re) (\<lambda>stuck. if stuck then eret (Continue i) else take_step re i) c = Some (c', Inr sig)"
      using assms by (simp add: round_body_def)
    then obtain c1 stuck where c1: "check_stuck re c = Some (c1, Inr stuck)"
      "(if stuck then eret (Continue i) else take_step re i) c1 = Some (c', Inr sig)" by (rule ebind_Inr)
    show ?thesis
    proof (cases stuck)
      case True
      then have "sig = Continue i" "status_of c' = STUCK" using c1 check_stuck_status[OF c1(1)] by (auto simp: eret_def)
      then show ?thesis using 3 by (auto simp: round_work_def)
    next
      case False
      then have "take_step re i c1 = Some (c', Inr sig)" using c1 by simp
      from take_step_cases[OF this] show ?thesis using 3 by (auto simp: round_work_def split: signal.splits)
    qed
  qed
qed

lemma round_cases:
  assumes "with_block (re_conv re) (round_body re i) c = Some (c', Inr sig)"
  shows "case sig of Continue j \<Rightarrow> i \<le> j \<and> round_work re j c' < round_work re i c | Break \<Rightarrow> status_of c' \<in> stopped"
proof (rule with_block_core[OF assms])
  fix c1 c2 r2
  assume b: "round_body re i c1 = Some (c2, r2)" "core c1 = core c" "core c' = core c2" "\<And>a. Inr sig = Inr a \<Longrightarrow> r2 = Inr a"
  have s: "status_of c1 = status_of c" "status_of c' = status_of c2" using b(2,3) by (simp_all add: status_core)
  have "round_body re i c1 = Some (c2, Inr sig)" using b(1) b(4)[OF refl] by simp
  from round_body_cases[OF this] show ?thesis by (simp only: round_work_def s)
qed

section \<open>The loop ends\<close>

text \<open>From round \<open>n\<close> on, no other thread interferes.\<close>

definition quiet_from :: "('s, 'w) run_env \<Rightarrow> nat \<Rightarrow> bool" where
  "quiet_from re n \<longleftrightarrow> (\<forall>k \<ge> n. \<forall>c. re_others re k c = c)"

lemma run_loop_ends:
  assumes "callbacks_return (re_conv re)" "returns (re_step re)" "quiet_from re n"
  shows "0 \<le> i \<Longrightarrow> (if k < n then n - k + 3 * nat (re_max_iterations re) + 2 else round_work re i c) < fuel \<Longrightarrow>
    \<exists>c' r. run_loop fuel re k i c = Some (c', r) \<and> (\<forall>u. r = Inr u \<longrightarrow> status_of c' \<in> stopped)"
proof (induction fuel arbitrary: k i c)
  case (Suc fuel)
  obtain c1 r1 where r: "with_block (re_conv re) (round_body re i) c = Some (c1, r1)"
    by (rule returnsE[OF returns_with_block[OF returns_round_body[OF assms(1,2)]]])
  show ?case
  proof (cases r1)
    case (Inl x)
    then show ?thesis using r by (simp add: ebind_def)
  next
    case (Inr sig)
    note rc = round_cases[OF r[unfolded Inr]]
    show ?thesis
    proof (cases sig)
      case Break
      then show ?thesis using r Inr rc by (simp add: ebind_def eret_def)
    next
      case (Continue j)
      have j: "i \<le> j" "round_work re j c1 < round_work re i c" using rc Continue by simp_all
      let ?c = "re_others re k c1"
      have "(if Suc k < n then n - Suc k + 3 * nat (re_max_iterations re) + 2 else round_work re j ?c) < fuel"
      proof (cases "k < n")
        case True
        have "round_work re j ?c \<le> 3 * nat (re_max_iterations re) + 2" using j(1) Suc.prems(1) by (auto simp: round_work_def)
        then show ?thesis using Suc.prems(2) True by auto
      next
        case False
        then have "?c = c1" using assms(3) by (simp add: quiet_from_def)
        then show ?thesis using Suc.prems(2) False j(2) by simp
      qed
      then have "\<exists>c' r. run_loop fuel re (Suc k) j ?c = Some (c', r) \<and> (\<forall>u. r = Inr u \<longrightarrow> status_of c' \<in> stopped)"
        using Suc.IH[of j "Suc k" ?c] j(1) Suc.prems(1) by simp
      then show ?thesis using r Inr Continue by (simp add: ebind_def eseq_def emodify_def)
    qed
  qed
qed simp

lemma returns_latest_error [returns_intros]: "returns (latest_conversation_error env since n)"
  by (induction n) (auto intro!: returns_intros split: event_body.split)

lemma latest_error_status: "keeps (unchanged status_of) (latest_conversation_error env since n)"
  by (induction n) (auto intro!: unchanged_intros intro: parts_status split: event_body.split)

lemma returns_latest_now [returns_intros]: "returns (latest_error_now env since)"
  unfolding returns_def latest_error_now_def using returns_latest_error[unfolded returns_def] by blast

lemma latest_now_status: "keeps (unchanged status_of) (latest_error_now env since)"
  unfolding keeps_def latest_error_now_def using latest_error_status[unfolded keeps_def] by blast

lemma returns_run_failed: "callbacks_return env \<Longrightarrow> returns (run_failed env since x)"
  unfolding run_failed_def agent_already_surfaced_error_def by (auto intro!: returns_intros)

text \<open>Every way out of the error handler leaves the status \<open>ERROR\<close> and raises.\<close>

lemma run_failed_body_status:
  assumes "eseq (set_status env ERROR) (ebind (agent_already_surfaced_error env since) (\<lambda>surfaced.
     if surfaced then eret () else emit env Src_Environment (ConversationErrorEvent n t))) c = Some (c', r)"
  shows "status_of c' = ERROR"
proof -
  obtain c1 r1 where s: "set_status env ERROR c = Some (c1, r1)" by (rule returnsE[OF returns_new_event(2)])
  have e: "status_of c1 = ERROR" by (rule set_status_status[OF s])
  have k: "keeps (unchanged status_of) (ebind (agent_already_surfaced_error env since) (\<lambda>surfaced.
     if surfaced then eret () else emit env Src_Environment (ConversationErrorEvent n t)))"
    unfolding agent_already_surfaced_error_def by (auto intro!: unchanged_intros latest_now_status emit_status)
  show ?thesis
  proof (cases r1)
    case (Inl x)
    then show ?thesis using assms s e by (simp add: eseq_def ebind_def)
  next
    case (Inr u)
    then have "ebind (agent_already_surfaced_error env since) (\<lambda>surfaced.
       if surfaced then eret () else emit env Src_Environment (ConversationErrorEvent n t)) c1 = Some (c', r)"
      using assms s by (simp add: eseq_def ebind_simps(3))
    from unchangedD[OF k this] show ?thesis using e by simp
  qed
qed

lemma run_failed_status:
  assumes "run_failed env since x c = Some (c', r)"
  shows "status_of c' = ERROR \<and> (\<exists>y. r = Inl y)"
proof -
  let ?body = "eseq (set_status env ERROR) (ebind (agent_already_surfaced_error env since) (\<lambda>surfaced.
     if surfaced then eret () else emit env Src_Environment (ConversationErrorEvent (le_exc_name env x) (le_exc_text env x))))"
  let ?rest = "ebind (latest_error_now env since) (\<lambda>_. eraise (ConversationRunError x)) :: (('a, 'b) lconv, unit) eff"
  have rest: "keeps (unchanged status_of) ?rest" by (auto intro!: unchanged_intros latest_now_status)
  obtain c1 r1 where b: "with_block env ?body c = Some (c1, r1)" using assms by (cases "with_block env ?body c") (auto simp: run_failed_def eseq_def ebind_def)
  have e: "status_of c1 = ERROR"
  proof (rule with_block_core[OF b])
    fix c2 c3 r3 assume h: "?body c2 = Some (c3, r3)" "core c1 = core c3"
    from run_failed_body_status[OF h(1)] show ?thesis using h(2) by (simp add: status_core)
  qed
  show ?thesis
  proof (cases r1)
    case (Inl y)
    then have "c' = c1" "r = Inl y" using assms b by (simp_all add: run_failed_def eseq_def ebind_simps(2))
    then show ?thesis using e by simp
  next
    case (Inr u)
    then have f: "?rest c1 = Some (c', r)" using assms b by (simp add: run_failed_def eseq_def ebind_simps(3))
    then have "\<exists>y. r = Inl y" by (auto simp: ebind_def eraise_def split: option.splits sum.splits)
    then show ?thesis using unchangedD[OF rest f] e by simp
  qed
qed

text \<open>
  C1: a run ends, and the conversation is then stopped. When the step of the agent, the callbacks and the
  initialisation return and other threads interfere in at most \<open>n\<close> rounds, a number of rounds linear in
  the iteration limit is enough, whatever the hooks decide, the detector finds and the files hold. A
  run that got past its start leaves the conversation paused, stuck, finished, waiting for
  confirmation or failed, never idle or running; if it raises, the status is \<open>ERROR\<close>.
\<close>

theorem run_ends_stopped:
  assumes "callbacks_return (re_conv re)" "returns (le_ready (re_conv re))" "returns (re_step re)" "quiet_from re n"
    "n + 3 * nat (re_max_iterations re) + 2 < fuel"
  shows "\<exists>c' r c1 r1. run fuel re c = Some (c', r) \<and> start_run (re_conv re) c = Some (c1, r1) \<and>
    (case r1 of
       Inl x \<Rightarrow> c' = c1 \<and> r = Inl x
     | Inr _ \<Rightarrow> status_of c' \<in> {PAUSED, STUCK, FINISHED, WAITING_FOR_CONFIRMATION, ERROR} \<and> (\<forall>x. r = Inl x \<longrightarrow> status_of c' = ERROR))"
proof -
  have "returns (start_run (re_conv re))" unfolding start_run_def using assms(2) by (auto intro!: returns_intros)
  then obtain c1 r1 where s: "start_run (re_conv re) c = Some (c1, r1)" by (rule returnsE)
  show ?thesis
  proof (cases r1)
    case (Inl x)
    then show ?thesis using s by (simp add: run_def eseq_def ebind_simps(2))
  next
    case (Inr u)
    have "round_work re 0 c1 \<le> 3 * nat (re_max_iterations re) + 2" by (simp add: round_work_def)
    then have "(if 0 < n then n - 0 + 3 * nat (re_max_iterations re) + 2 else round_work re 0 c1) < fuel" using assms(5) by auto
    from run_loop_ends[OF assms(1,3,4) _ this] obtain c2 r2 where l: "run_loop fuel re 0 0 c1 = Some (c2, r2)"
      "\<forall>u. r2 = Inr u \<longrightarrow> status_of c2 \<in> stopped" by auto
    have e: "run fuel re c = ecatch (run_loop fuel re 0 0) (run_failed (re_conv re) (event_count c1)) c1"
      using s Inr by (simp add: run_def eseq_def ebind_simps(3))
    show ?thesis
    proof (cases r2)
      case l2: (Inl x)
      obtain c3 r3 where f: "run_failed (re_conv re) (event_count c1) x c2 = Some (c3, r3)"
        by (rule returnsE[OF returns_run_failed[OF assms(1)]])
      then have "run fuel re c = Some (c3, r3)" using e l(1) l2 by (simp add: ecatch_def)
      then show ?thesis using s Inr run_failed_status[OF f] by auto
    next
      case (Inr u2)
      then have "run fuel re c = Some (c2, Inr u2)" using e l(1) by (simp add: ecatch_def)
      then show ?thesis using s \<open>r1 = Inr u\<close> l(2) Inr by (auto simp: stopped_def)
    qed
  qed
qed

text \<open>An agent that finishes at once, with no hooks, on the sample conversation.\<close>

definition plain_lenv :: "(local_store, unit) lenv" where
  "plain_lenv = \<lparr>le_conv = sample_env, le_new_id = (\<lambda>n. nat_to_str n), le_hooks = None, le_dump_hook_log = (\<lambda>l. ''log''),
     le_path_rules = (\<lambda>i w. (None, w)), le_visualize = (\<lambda>e. eret ()), le_callbacks = (\<lambda>e. eret ()), le_ready = eret (),
     le_message_suffix = (\<lambda>m w. (None, w)), le_exc_name = (\<lambda>x. ''Exception''), le_exc_text = (\<lambda>x. ''failed'')\<rparr>"

definition plain_run_env :: "(local_store, unit) run_env" where
  "plain_run_env = \<lparr>re_conv = plain_lenv, re_step = set_status plain_lenv FINISHED, re_json_loads = (\<lambda>s. None),
     re_max_iterations = 5, re_max_budget = None, re_spent = (\<lambda>w. 0), re_budget_text = (\<lambda>b s. ''budget''),
     re_has_finish = (\<lambda>w. True), re_others = (\<lambda>k c. c)\<rparr>"

definition plain_lconv :: "(local_store, unit) lconv" where
  "plain_lconv = \<lparr>lc_state = sample_conv, lc_world = (), lc_ids = 0, lc_detector = None, lc_finish_nudge_emitted = False\<rparr>"

lemma plain_returns: "callbacks_return (re_conv plain_run_env)" "returns (le_ready (re_conv plain_run_env))"
  "returns (re_step plain_run_env)" "quiet_from plain_run_env 0"
  by (auto simp: callbacks_return_def plain_run_env_def plain_lenv_def quiet_from_def intro!: returns_intros)

lemma run_ends_stopped_witness:
  "\<exists>c' r c1 r1. run 18 plain_run_env plain_lconv = Some (c', r) \<and> start_run plain_lenv plain_lconv = Some (c1, r1) \<and>
    (case r1 of
       Inl x \<Rightarrow> c' = c1 \<and> r = Inl x
     | Inr _ \<Rightarrow> status_of c' \<in> {PAUSED, STUCK, FINISHED, WAITING_FOR_CONFIRMATION, ERROR} \<and> (\<forall>x. r = Inl x \<longrightarrow> status_of c' = ERROR))"
  using run_ends_stopped[OF plain_returns, of 18 plain_lconv] by (simp add: plain_run_env_def)

section \<open>Stop hooks\<close>

lemma run_stop_silent: "\<not> has_hooks mg STOP \<Longrightarrow> run_stop mg reason w = ((True, []), w)"
  by (simp add: has_hooks_def has_hooks_for_event_def run_stop_def hooks_for_def get_hooks_for_event_def)

text \<open>
  An agent whose stop hooks deny every stop does not end a run as finished, with one exception: the
  round in which it finishes on the last iteration ends the run without asking the hooks.
\<close>

theorem denied_stop_goes_on:
  assumes "le_hooks (re_conv re) = Some mg" "\<And>w. \<not> fst (fst (run_stop mg (Some ''agent_finished'') w))"
    "round_body re i c = Some (c', Inr Break)" "status_of c' = FINISHED"
  shows "re_max_iterations re \<le> i + 1"
proof -
  have h: "has_hooks mg STOP" using assms(2) run_stop_silent[of mg] by fastforce
  have denied: "fst v = False" if "processor_run_stop (re_conv re) mg (Some ''agent_finished'') x = Some (x', Inr v)" for x x' v
    using that h assms(2)
    by (auto simp: processor_run_stop_def Let_def eret_def from_world_def on_world_def on_part_def elim!: ebind_Inr eseq_unchanged
        split: prod.splits)
      (metis fst_conv)+
  have "status_of c \<notin> {PAUSED, STUCK}" using assms(3,4) by (auto simp: round_body_def eret_def)
  moreover have "status_of c \<noteq> FINISHED"
  proof
    assume "status_of c = FINISHED"
    then have "on_finished re i c = Some (c', Inr Break)" using assms(3) by (simp add: round_body_def)
    then show False using assms(1) denied
      by (fastforce simp: on_finished_def eret_def Let_def elim!: ebind_Inr eseq_unchanged split: prod.splits if_splits)
  qed
  ultimately have "ebind (check_stuck re) (\<lambda>stuck. if stuck then eret (Continue i) else take_step re i) c = Some (c', Inr Break)"
    using assms(3) by (simp add: round_body_def)
  then obtain c1 where "take_step re i c1 = Some (c', Inr Break)"
    by (auto simp: eret_def elim!: ebind_Inr split: if_splits)
  then obtain c2 where "after_step re (i + 1) c2 = Some (c', Inr Break)"
    by (auto simp: take_step_def elim!: eseq_unchanged)
  then show ?thesis using assms(4)
    by (auto simp: after_step_def eret_def elim!: eseq_unchanged dest!: run_limit_error_status
        split: if_splits option.splits bool.splits)
qed

text \<open>A stop hook that exits with 2, and an agent that finishes on its only iteration.\<close>

definition denying_manager :: "unit hook_manager" where
  "denying_manager = \<lparr>mg_config = \<lparr>hc_pre_tool_use = [], hc_post_tool_use = [], hc_user_prompt_submit = [], hc_session_start = [],
     hc_session_end = [], hc_stop = [\<lparr>hm_matcher = ''*'', hm_hooks = [policy_hook]\<rparr>]\<rparr>,
     mg_runtime = silent_runtime (Completed 2 '''' ''no'') []\<rparr>"

definition last_iteration_env :: "(local_store, unit) run_env" where
  "last_iteration_env = plain_run_env\<lparr>re_conv := plain_lenv\<lparr>le_hooks := Some denying_manager\<rparr>, re_max_iterations := 1, re_has_finish := (\<lambda>w. False)\<rparr>"

lemma denying_manager_denies: "\<not> fst (fst (run_stop denying_manager (Some ''agent_finished'') w))"
proof -
  have w: "w = ()" by simp
  show ?thesis unfolding w by code_simp
qed

lemma denied_stop_goes_on_witness:
  "\<exists>c'. round_body last_iteration_env 0 plain_lconv = Some (c', Inr Break) \<and> status_of c' = FINISHED \<and>
     re_max_iterations last_iteration_env \<le> 0 + 1"
proof -
  let ?c = "plain_lconv\<lparr>lc_state := fst (set_attr sample_env ''execution_status'' (\<lambda>b. b\<lparr>exec_status := FINISHED\<rparr>) sample_conv)\<rparr>"
  have r: "round_body last_iteration_env 0 plain_lconv = Some (?c, Inr Break)" "status_of ?c = FINISHED"
    by (simp_all add: round_body_def check_stuck_def take_step_def maybe_emit_finish_nudge_def after_step_def budget_exceeded_detail_def
        last_iteration_env_def plain_run_env_def plain_lenv_def plain_lconv_def sample_conv_def sample_base_def sample_env_def
        status_of_def set_status_def set_attr_def on_state_def on_part_def lift_unit_def eseq_def ebind_def eret_def eget_def)
  have h: "le_hooks (re_conv last_iteration_env) = Some denying_manager"
    by (simp add: last_iteration_env_def plain_run_env_def)
  show ?thesis using r denied_stop_goes_on[OF h denying_manager_denies r] by blast
qed

end
