(* ===== verification/Sample_Conversation.thy ===== *)
theory Sample_Conversation
  imports Local_Conversation
begin

text \<open>
  A conversation over a store that forgets, with callbacks that do nothing, on which the witnesses of the
  agent and the hooks run: every event with a new id is appended.
\<close>

definition null_ops :: "unit fs_ops" where
  "null_ops = \<lparr>op_read = (\<lambda>p s. Inr ('''', s)), op_write = (\<lambda>p t s. Inr s), op_delete = (\<lambda>p s. s), op_exists = (\<lambda>p s. Inr True),
     op_list = (\<lambda>p s. Inr [])\<rparr>"

definition null_env :: "unit conv_env" where
  "null_env = \<lparr>ce_ops = null_ops, ce_dump = ev_id, ce_load = (\<lambda>s. Inl KeyError), ce_dump_base = (\<lambda>b. ''b''), ce_guard = None\<rparr>"

definition null_conv :: "unit conv" where
  "null_conv = \<lparr>cs_fs = (), cs_log = \<lparr>el_dir = ''events'', el_id_to_idx = [], el_idx_to_id = [], el_cache = [], el_length = 0\<rparr>,
     cs_base = sample_base, cs_view = empty_view, cs_view_leaf = None, cs_autosave = False, cs_callback = False, cs_notified = [],
     cs_save_depth = 1, cs_dirty = False\<rparr>"

lemma set_attr_plain: "\<not> cs_autosave st \<Longrightarrow> set_attr env n upd st = (st\<lparr>cs_base := upd (cs_base st)\<rparr>, None)"
  by (simp add: set_attr_def Let_def)

definition null_good :: "unit conv \<Rightarrow> bool" where
  "null_good st \<longleftrightarrow> \<not> cs_autosave st \<and> \<not> head_is_empty (cs_base st) \<and>
     (case leaf_event_id (cs_base st) of None \<Rightarrow> el_length (cs_log st) = 0 | Some l \<Rightarrow> dict_get (el_id_to_idx (cs_log st)) l \<noteq> None)"

definition parent_known :: "unit conv \<Rightarrow> event \<Rightarrow> bool" where
  "parent_known st e \<longleftrightarrow> (\<forall>l. ev_parent_id e = Some l \<longrightarrow> dict_get (el_id_to_idx (cs_log st)) l \<noteq> None)"

lemma null_resolve: "null_good st \<Longrightarrow> resolve_active_leaf null_env st = Inr (leaf_event_id (cs_base st), st)"
  by (auto simp: resolve_active_leaf_def null_good_def split: option.splits)

lemma null_stamp:
  assumes "null_good st" "parent_known st e"
  obtains p where "stamp_parent_id null_env e st = Inr (e\<lparr>ev_parent_id := p\<rparr>, st)" "parent_known st (e\<lparr>ev_parent_id := p\<rparr>)"
proof (cases "ev_parent_id e")
  case None
  then have "stamp_parent_id null_env e st = Inr (e\<lparr>ev_parent_id := leaf_event_id (cs_base st)\<rparr>, st)"
    using assms(1) null_resolve[OF assms(1)] by (auto simp: stamp_parent_id_def null_good_def split: option.splits)
  moreover have "parent_known st (e\<lparr>ev_parent_id := leaf_event_id (cs_base st)\<rparr>)"
    using assms(1) by (auto simp: parent_known_def null_good_def split: option.splits)
  ultimately show ?thesis using that by blast
next
  case (Some l)
  then have "e\<lparr>ev_parent_id := Some l\<rparr> = e" by (cases e) simp
  then show ?thesis using that[of "Some l"] assms(2) Some by (simp add: stamp_parent_id_def parent_known_def)
qed

lemma null_append:
  assumes "null_good st" "dict_get (el_id_to_idx (cs_log st)) (ev_id e) = None" "ev_id e \<noteq> ''''" "\<not> is_state_update e"
    "parent_known st e"
  shows "\<exists>st' n. conv_append_event null_env e st = (st', Inr n) \<and> null_good st' \<and>
    el_id_to_idx (cs_log st') = dict_put (ev_id e) n (el_id_to_idx (cs_log st))"
proof -
  obtain p where p: "stamp_parent_id null_env e st = Inr (e\<lparr>ev_parent_id := p\<rparr>, st)" "parent_known st (e\<lparr>ev_parent_id := p\<rparr>)"
    by (rule null_stamp[OF assms(1,5)])
  let ?e1 = "e\<lparr>ev_parent_id := p\<rparr>"
  have sync: "sync_if_needed null_ops s l = l" for s l by (simp add: sync_if_needed_def marker_matches_length_def null_ops_def)
  let ?l = "cs_log st"
  let ?l1 = "?l\<lparr>el_idx_to_id := dict_put (el_length ?l) (ev_id e) (el_idx_to_id ?l),
       el_id_to_idx := dict_put (ev_id e) (el_length ?l) (el_id_to_idx ?l), el_cache := dict_put (el_length ?l) ?e1 (el_cache ?l),
       el_length := el_length ?l + 1\<rparr>"
  have par: "p \<in> {None, Some root_parent_id} \<or> log_contains (the p) ?l"
    using p(2) by (cases p) (auto simp: log_contains_def parent_known_def)
  have path: "\<exists>t. event_path ?l n (Some (ev_id e)) = Inr t" for n using assms(3) by (simp add: event_path_def)
  have la: "log_append null_ops (ce_dump null_env) None ?e1 () ?l = Inr (el_length ?l, (), ?l1)"
    using path[of "el_length ?l"] assms(2) par unfolding log_append_def sync Let_def
    by (auto simp: null_ops_def advance_length_marker_def)
  have env: "ce_ops null_env = null_ops" "ce_guard null_env = None" by (simp_all add: null_env_def)
  have upd: "\<not> is_state_update ?e1" using assms(4) by (simp add: is_state_update_def)
  have "conv_append_event null_env e st = (st\<lparr>cs_log := ?l1, cs_base := (cs_base st)\<lparr>leaf_event_id := Some (ev_id e)\<rparr>\<rparr>, Inr (el_length ?l))"
    using assms(1) p(1) upd by (simp add: conv_append_event_def env la Let_def set_attr_plain null_good_def)
  then show ?thesis using assms(1) by (intro exI conjI) (assumption, auto simp: null_good_def update_conv)
qed

section \<open>The callback chain on it\<close>

definition sample_lenv :: "unit hook_manager option \<Rightarrow> (unit, unit) lenv" where
  "sample_lenv hooks = \<lparr>le_conv = null_env, le_new_id = (\<lambda>n. replicate (Suc n) CHR ''x''), le_hooks = hooks, le_dump_hook_log = (\<lambda>l. ''log''),
     le_path_rules = (\<lambda>i w. (None, w)), le_visualize = (\<lambda>e. eret ()), le_callbacks = (\<lambda>e. eret ()), le_ready = eret (),
     le_message_suffix = (\<lambda>m w. (None, w)), le_exc_name = (\<lambda>x. ''Exception''), le_exc_text = (\<lambda>x. ''failed'')\<rparr>"

definition sample_lconv :: "(unit, unit) lconv" where
  "sample_lconv = \<lparr>lc_state = null_conv, lc_world = (), lc_ids = 0, lc_detector = None, lc_finish_nudge_emitted = False\<rparr>"

abbreviation known_ids :: "(unit, unit) lconv \<Rightarrow> str set" where
  "known_ids c \<equiv> {i. dict_get (el_id_to_idx (cs_log (lc_state c))) i \<noteq> None}"

lemma sample_good: "null_good (lc_state sample_lconv)" "known_ids sample_lconv = {}" "lc_ids sample_lconv = 0"
  by (simp_all add: sample_lconv_def null_conv_def null_good_def sample_base_def)

lemma sample_base_callback:
  assumes "null_good (lc_state c)" "ev_id e \<notin> known_ids c" "ev_id e \<noteq> ''''" "\<not> is_state_update e" "parent_known (lc_state c) e"
  obtains c' where "base_callback (sample_lenv h) e c = Some (c', Inr ())" "null_good (lc_state c')"
    "known_ids c' = insert (ev_id e) (known_ids c)" "lc_ids c' = lc_ids c"
proof -
  obtain st' n where a: "conv_append_event null_env e (lc_state c) = (st', Inr n)" "null_good st'"
    "el_id_to_idx (cs_log st') = dict_put (ev_id e) n (el_id_to_idx (cs_log (lc_state c)))"
    using null_append[OF assms(1) _ assms(3,4,5)] assms(2) by auto
  let ?st = "if is_message (ev_body e) \<and> ev_source e = Src_User then st'\<lparr>cs_base := (cs_base st')\<lparr>last_user_message_id := Some (ev_id e)\<rparr>\<rparr> else st'"
  have "base_callback (sample_lenv h) e c = Some (c\<lparr>lc_state := ?st\<rparr>, Inr ())"
    using a(1,2) by (simp add: base_callback_def default_callback_def sample_lenv_def on_world_def on_state_def on_part_def
        lift_pair_def lift_unit_def eret_def eseq_def ebind_def set_attr_plain null_good_def)
  moreover have "null_good ?st" using a(2) by (auto simp: null_good_def split: option.splits)
  moreover have "{i. dict_get (el_id_to_idx (cs_log ?st)) i \<noteq> None} = insert (ev_id e) (known_ids c)"
    using a(3) by (auto simp: update_conv)
  ultimately show ?thesis using that[of "c\<lparr>lc_state := ?st\<rparr>"] by simp
qed

lemma sample_emit_hook_event:
  assumes "null_good (lc_state c)" "le_new_id (sample_lenv h) (lc_ids c) \<notin> known_ids c"
  obtains c' where "emit_hook_execution_event (sample_lenv h) l c = Some (c', Inr ())" "null_good (lc_state c')"
    "known_ids c' = insert (le_new_id (sample_lenv h) (lc_ids c)) (known_ids c)" "lc_ids c' = lc_ids c + 1"
proof -
  let ?e = "\<lparr>ev_id = le_new_id (sample_lenv h) (lc_ids c), ev_source = Src_Hook, ev_parent_id = None,
    ev_body = OtherEvent (le_dump_hook_log (sample_lenv h) (l\<lparr>hl_result := logged_result (hl_result l)\<rparr>))\<rparr>"
  have e: "ev_id ?e \<noteq> ''''" "\<not> is_state_update ?e" "parent_known st ?e" for st
    by (simp_all add: sample_lenv_def is_state_update_def parent_known_def)
  obtain c' where "base_callback (sample_lenv h) ?e (c\<lparr>lc_ids := lc_ids c + 1\<rparr>) = Some (c', Inr ())" "null_good (lc_state c')"
    "known_ids c' = insert (ev_id ?e) (known_ids c)" "lc_ids c' = lc_ids c + 1"
    by (rule sample_base_callback[of "c\<lparr>lc_ids := lc_ids c + 1\<rparr>" ?e h]) (use assms e in simp_all)
  then show ?thesis using that[of c'] by (simp add: emit_hook_execution_event_def new_event_def ebind_def)
qed

end
