(* ===== verification/Hook_Blocks.thy ===== *)
theory Hook_Blocks
  imports Sample_Conversation
begin

text \<open>
  What the callback with hooks leaves in the conversation state: a denied tool call is recorded under the
  id of its action event, a denied user message under the id the message had before the hooks.
\<close>

section \<open>The core after a callback\<close>

definition is_user_message :: "event \<Rightarrow> bool" where
  "is_user_message e \<longleftrightarrow> is_message (ev_body e) \<and> ev_source e = Src_User"

lemma base_callback_core:
  assumes "base_callback env e c = Some (c', Inr u)"
  shows "core c' = (let (s, ba, bm, l) = core c in (s, ba, bm, if is_user_message e then Some (ev_id e) else l))"
proof -
  from assms obtain c1 c2 v1 v2 where 1: "on_world (le_visualize env e) c = Some (c1, Inr v1)" and
    2: "default_callback env e c1 = Some (c2, Inr v2)" and 3: "on_world (le_callbacks env e) c2 = Some (c', Inr u)"
    by (auto simp: base_callback_def eseq_def ebind_def split: option.splits sum.splits)
  from 2 obtain c3 v3 where 4: "on_state (lift_pair (conv_append_event (le_conv env) e)) c1 = Some (c3, Inr v3)"
    and 5: "(if is_user_message e then on_state (lift_unit (set_attr (le_conv env) ''last_user_message_id''
        (\<lambda>b. b\<lparr>last_user_message_id := Some (ev_id e)\<rparr>))) else eret ()) c3 = Some (c2, Inr v2)"
    by (auto simp: default_callback_def eseq_def ebind_def is_user_message_def split: option.splits sum.splits)
  have a: "core c3 = core c" using unchangedD[OF append_core 4] unchangedD[OF on_world_core(1) 1] by simp
  have b: "core c' = core c2" by (rule unchangedD[OF on_world_core(1) 3])
  show ?thesis
  proof (cases "is_user_message e")
    case False
    then show ?thesis using 5 a b by (simp add: eret_def split: prod.splits)
  next
    case True
    then have "cs_base (lc_state c2) = (cs_base (lc_state c3))\<lparr>last_user_message_id := Some (ev_id e)\<rparr>"
      using 5 by (auto simp: on_state_def on_part_def lift_unit_def dest!: set_attr_base split: prod.splits option.splits)
    then show ?thesis using True a b by (auto simp: core_of_def split: prod.splits)
  qed
qed

lemma emit_hook_event_core:
  assumes "emit_hook_execution_event env l c = Some (c', Inr u)"
  shows "core c' = core c"
proof -
  let ?body = "OtherEvent (le_dump_hook_log env (l\<lparr>hl_result := logged_result (hl_result l)\<rparr>))"
  from assms obtain c1 e where 1: "new_event env Src_Hook ?body c = Some (c1, Inr e)" and 2: "base_callback env e c1 = Some (c', Inr u)"
    by (auto simp: emit_hook_execution_event_def ebind_def split: option.splits sum.splits)
  have "\<not> is_user_message e" using 1 by (auto simp: new_event_def is_user_message_def)
  then show ?thesis using base_callback_core[OF 2] unchangedD[OF new_event_core 1] by (simp split: prod.splits)
qed

lemma emit_hook_events_core: "emit_hook_events env hs rs l c = Some (c', Inr u) \<Longrightarrow> core c' = core c"
  unfolding emit_hook_events_def
proof (induction "zip hs rs" arbitrary: hs rs c)
  case Nil
  then show ?case by (metis (no_types, lifting) efor.simps(1) eret_def option.inject prod.inject)
next
  case (Cons hr rest)
  obtain h hs1 r rs1 where z: "hs = h # hs1" "rs = r # rs1" "hr = (h, r)" "rest = zip hs1 rs1"
    using Cons.hyps(2) by (cases hs; cases rs) auto
  from Cons.prems obtain c1 v where
    1: "emit_hook_execution_event env (l\<lparr>hl_command := display_command h, hl_result := r\<rparr>) c = Some (c1, Inr v)" and
    2: "efor (zip hs1 rs1) (\<lambda>(h, r). emit_hook_execution_event env (l\<lparr>hl_command := display_command h, hl_result := r\<rparr>)) c1 = Some (c', Inr u)"
    unfolding z by (auto simp: eseq_def ebind_def split: option.splits sum.splits)
  show ?case using Cons.hyps(1)[OF z(4) 2] emit_hook_event_core[OF 1] by simp
qed

text \<open>What comes before the hooks changes neither the core nor the world.\<close>

lemma stamp_parent_id_same:
  assumes "stamp_parent_id env e st = Inr (e1, st1)"
  shows "ev_id e1 = ev_id e \<and> ev_body e1 = ev_body e \<and> ev_source e1 = ev_source e"
  using assms by (auto simp: stamp_parent_id_def rbind_def Let_def split: if_splits sum.splits prod.splits)

lemma on_event_hooked:
  assumes "on_event env e c = Some (c', Inr u)" "le_hooks env = Some mg" "\<And>b d. ev_body e \<noteq> ObservationEvent b d"
  obtains c1 e1 where "hooked_callback env mg e1 c1 = Some (c', Inr u)" "core c1 = core c" "lc_world c1 = lc_world c"
    "ev_id e1 = ev_id e" "ev_body e1 = ev_body e" "ev_source e1 = ev_source e"
proof -
  from assms(1,2) obtain c1 e1 c2 e2 where 1: "on_state (lift_sum (stamp_parent_id (le_conv env) e)) c = Some (c1, Inr e1)"
    and 2: "maybe_inject_path_rules env e1 c1 = Some (c2, Inr e2)" and 3: "hooked_callback env mg e2 c2 = Some (c', Inr u)"
    by (auto simp: on_event_def ebind_def split: option.splits sum.splits)
  have s: "ev_id e1 = ev_id e \<and> ev_body e1 = ev_body e \<and> ev_source e1 = ev_source e"
    using 1 by (auto simp: on_state_def on_part_def lift_sum_def dest: stamp_parent_id_same split: option.splits sum.splits)
  then have "c2 = c1 \<and> e2 = e1" using 2 assms(3)
    by (cases "ev_body e") (auto simp: maybe_inject_path_rules_def eret_def)
  moreover have "lc_world c1 = lc_world c" using 1 by (auto simp: on_state_def on_part_def split: option.splits)
  ultimately show ?thesis using that[of e1 c1] 3 s unchangedD[OF stamp_core 1] by simp
qed

section \<open>A denied tool call\<close>

lemma from_world_run: "from_world f c = Some (c', r) \<Longrightarrow> c' = c\<lparr>lc_world := snd (f (lc_world c))\<rparr> \<and> r = Inr (fst (f (lc_world c)))"
  by (auto simp: from_world_def on_world_def on_part_def split: prod.splits)

lemma run_pre_denied_hooks: "run_pre_tool_use mg t i w = ((False, rs), w') \<Longrightarrow> has_hooks mg PRE_TOOL_USE"
  by (cases "has_hooks mg PRE_TOOL_USE")
    (auto simp: run_pre_tool_use_def has_hooks_def has_hooks_for_event_def hooks_for_def get_hooks_for_event_def)

lemma denied_action_blocked:
  assumes "le_hooks env = Some mg" "ev_body e = ActionEvent a" "act_action a = Some input"
    "run_pre_tool_use mg (act_tool_name a) input (lc_world c) = ((False, rs), w')" "on_event env e c = Some (c', Inr u)"
  shows "dict_get (blocked_actions (cs_base (lc_state c'))) (ev_id e) = Some (reason_or_default (get_blocking_reason rs))"
proof -
  let ?reason = "reason_or_default (get_blocking_reason rs)"
  obtain c1 e1 where h: "hooked_callback env mg e1 c1 = Some (c', Inr u)" "core c1 = core c" "lc_world c1 = lc_world c"
    "ev_id e1 = ev_id e" "ev_body e1 = ActionEvent a"
    by (rule on_event_hooked[OF assms(5,1)]) (use assms(2) in auto)
  then obtain c2 v where p: "handle_pre_tool_use env mg e1 a c1 = Some (c2, Inr v)" and b: "base_callback env e1 c2 = Some (c', Inr u)"
    using assms(3) by (auto simp: hooked_callback_def eseq_def ebind_def eret_def split: option.splits sum.splits)
  from p obtain c3 c4 v3 v4 where 3: "from_world (run_pre_tool_use mg (act_tool_name a) input) c1 = Some (c3, Inr v3)"
    and 4: "on_state (lift_unit (block_action (le_conv env) (ev_id e1) ?reason)) c4 = Some (c2, Inr v4)"
    using run_pre_denied_hooks[OF assms(4)] assms(3,4) h(3)
    by (auto simp: handle_pre_tool_use_def Let_def eseq_def ebind_def split: option.splits sum.splits prod.splits dest!: from_world_run)
  have "dict_get (blocked_actions (cs_base (lc_state c2))) (ev_id e) = Some ?reason"
    using 4 h(4) by (auto simp: block_action_def on_state_def on_part_def lift_unit_def update_conv dest!: set_attr_base split: prod.splits option.splits)
  moreover have "blocked_actions (cs_base (lc_state c')) = blocked_actions (cs_base (lc_state c2))"
    using base_callback_core[OF b] by (auto simp: core_of_def Let_def)
  ultimately show ?thesis by simp
qed

section \<open>A denied message\<close>

lemma run_prompt_denied_hooks: "run_user_prompt_submit mg t w = ((False, ctx, rs), w') \<Longrightarrow> has_hooks mg USER_PROMPT_SUBMIT"
  by (cases "has_hooks mg USER_PROMPT_SUBMIT")
    (auto simp: run_user_prompt_submit_def has_hooks_def has_hooks_for_event_def hooks_for_def get_hooks_for_event_def)

text \<open>
  A user message that the UserPromptSubmit hooks deny is recorded as blocked with their reason, and it
  is the last user message the next step of the agent looks up, if the hooks gave no additional context.
  If they gave some, the message is stored under a new id while the block stays with the old one: the
  step finds no block and the denied message is processed.
\<close>

theorem denied_message_block:
  assumes "le_hooks env = Some mg" "ev_body e = MessageEvent msg ext" "ev_source e = Src_User"
    "run_user_prompt_submit mg (message_text (msg_content msg)) (lc_world c) = ((False, ctx, rs), w')"
    "\<forall>k. le_new_id env k \<noteq> ev_id e \<and> dict_get (blocked_messages (cs_base (lc_state c))) (le_new_id env k) = None"
    "on_event env e c = Some (c', Inr u)"
  shows "dict_get (blocked_messages (cs_base (lc_state c'))) (ev_id e) = Some (reason_or_default (get_blocking_reason rs)) \<and>
    (\<exists>l. last_user_message_id (cs_base (lc_state c')) = Some l \<and> (l = ev_id e \<longleftrightarrow> \<not> text_given ctx) \<and>
      (dict_get (blocked_messages (cs_base (lc_state c'))) l = None \<longleftrightarrow> text_given ctx))"
proof -
  let ?reason = "reason_or_default (get_blocking_reason rs)" and ?blocks = "\<lambda>c. blocked_messages (cs_base (lc_state c))"
  obtain c1 e1 where h: "hooked_callback env mg e1 c1 = Some (c', Inr u)" "core c1 = core c" "lc_world c1 = lc_world c"
    "ev_id e1 = ev_id e" "ev_body e1 = MessageEvent msg ext" "ev_source e1 = Src_User"
    by (rule on_event_hooked[OF assms(6,1)]) (use assms(2,3) in auto)
  then obtain c2 e2 where p: "handle_user_prompt_submit env mg e1 msg ext c1 = Some (c2, Inr e2)" and b: "base_callback env e2 c2 = Some (c', Inr u)"
    by (auto simp: hooked_callback_def eseq_def ebind_def eret_def split: option.splits sum.splits)
  from p obtain c3 v3 c4 v4 c5 v5 where
    3: "from_world (run_user_prompt_submit mg (message_text (msg_content msg))) c1 = Some (c3, Inr v3)"
    and 4: "emit_hook_events env (hooks_for mg USER_PROMPT_SUBMIT None) rs ((empty_log USER_PROMPT_SUBMIT)\<lparr>hl_message_id := Some (ev_id e1),
        hl_input := [(''message'', message_text (msg_content msg))]\<rparr>) c3 = Some (c4, Inr v4)"
    and 5: "on_state (lift_unit (block_message (le_conv env) (ev_id e1) ?reason)) c4 = Some (c5, Inr v5)"
    and 6: "(if text_given ctx then new_event env (ev_source e1) (MessageEvent msg (ext @ [the ctx])) else eret e1) c5 = Some (c2, Inr e2)"
    using run_prompt_denied_hooks[OF assms(4)] assms(4) h(3)
    by (auto simp: handle_user_prompt_submit_def Let_def eseq_def ebind_def split: option.splits sum.splits prod.splits dest!: from_world_run)
  have "core c4 = core c" using emit_hook_events_core[OF 4] unchangedD[OF on_world_core(2) 3] h(2) by simp
  then have "?blocks c5 = dict_put (ev_id e) ?reason (?blocks c)"
    using 5 h(4) by (auto simp: block_message_def on_state_def on_part_def lift_unit_def core_of_def dest!: set_attr_base split: prod.splits option.splits)
  moreover have "core c2 = core c5" using 6 by (auto simp: eret_def new_event_def split: if_splits)
  moreover have "is_user_message e2" "ev_id e2 = (if text_given ctx then le_new_id env (lc_ids c5) else ev_id e)"
    using 6 h(4,5,6) by (auto simp: eret_def new_event_def is_user_message_def split: if_splits)
  ultimately have "?blocks c' = dict_put (ev_id e) ?reason (?blocks c)"
    "last_user_message_id (cs_base (lc_state c')) = Some (if text_given ctx then le_new_id env (lc_ids c5) else ev_id e)"
    using base_callback_core[OF b] by (auto simp: core_of_def Let_def)
  then show ?thesis using assms(5) by (auto simp: update_conv)
qed

text \<open>A hook that exits with 2 and adds a context: the message \<open>m\<close> ends up stored under another id.\<close>

definition prompt_manager :: "unit hook_manager" where
  "prompt_manager = \<lparr>mg_config = \<lparr>hc_pre_tool_use = [], hc_post_tool_use = [],
     hc_user_prompt_submit = [\<lparr>hm_matcher = ''*'', hm_hooks = [policy_hook]\<rparr>], hc_session_start = [], hc_session_end = [], hc_stop = []\<rparr>,
     mg_runtime = (silent_runtime (Completed 2 ''{}'' '''') [(''additionalContext'', JNull)])\<rparr>"

lemma prompt_manager_facts:
  "run_user_prompt_submit prompt_manager ''m'' () = ((False, Some ''None'',
     [command_result (mg_runtime prompt_manager) policy_hook (Completed 2 ''{}'' '''')]), ())"
  "hooks_for prompt_manager USER_PROMPT_SUBMIT None = [policy_hook]" "has_hooks prompt_manager USER_PROMPT_SUBMIT"
  "get_blocking_reason [command_result (mg_runtime prompt_manager) policy_hook (Completed 2 ''{}'' '''')] = Some ''Blocked by hook''"
  by code_simp+

lemma prompt_manager_runs: "\<exists>c'. on_event (sample_lenv (Some prompt_manager)) (mk_user ''m'') sample_lconv = Some (c', Inr ())"
proof -
  let ?env = "sample_lenv (Some prompt_manager)" and ?r = "command_result (mg_runtime prompt_manager) policy_hook (Completed 2 ''{}'' '''')"
  have env: "le_conv ?env = null_env" "le_hooks ?env = Some prompt_manager" "le_new_id ?env n = replicate (Suc n) CHR ''x''" for n
    by (simp_all add: sample_lenv_def)
  have e: "ev_body (mk_user ''m'') = MessageEvent (plain_message Role_User [TextContent ''m'']) []" "ev_source (mk_user ''m'') = Src_User"
    "message_text (msg_content (plain_message Role_User [TextContent ''m''])) = ''m''"
    by (simp_all add: mk_user_def message_text_def plain_message_def)
  have "parent_known null_conv (mk_user ''m'')" by (simp add: parent_known_def mk_user_def)
  then obtain p where st: "stamp_parent_id null_env (mk_user ''m'') null_conv = Inr ((mk_user ''m'')\<lparr>ev_parent_id := p\<rparr>, null_conv)"
    by (rule null_stamp[OF sample_good(1)[unfolded sample_lconv_def lconv.simps]])
  let ?log = "(empty_log USER_PROMPT_SUBMIT)\<lparr>hl_message_id := Some (ev_id (mk_user ''m'')), hl_input := [(''message'', ''m'')],
      hl_command := display_command policy_hook, hl_result := ?r\<rparr>"
  obtain c1 where c1: "emit_hook_execution_event ?env ?log sample_lconv = Some (c1, Inr ())" "null_good (lc_state c1)"
    "known_ids c1 = {''x''}" "lc_ids c1 = 1"
    by (rule sample_emit_hook_event[of sample_lconv "Some prompt_manager" ?log]) (use sample_good env in auto)
  let ?c2 = "c1\<lparr>lc_state := (lc_state c1)\<lparr>cs_base := (cs_base (lc_state c1))\<lparr>blocked_messages :=
      dict_put ''m'' (reason_or_default (Some ''Blocked by hook'')) (blocked_messages (cs_base (lc_state c1)))\<rparr>\<rparr>\<rparr>"
  have c2: "null_good (lc_state ?c2)" "known_ids ?c2 = {''x''}" using c1(2,3) by (auto simp: null_good_def split: option.splits)
  let ?e2 = "\<lparr>ev_id = ''xx'', ev_source = Src_User, ev_parent_id = None,
    ev_body = MessageEvent (plain_message Role_User [TextContent ''m'']) [''None'']\<rparr>"
  obtain c3 where c3: "base_callback ?env ?e2 (?c2\<lparr>lc_ids := 2\<rparr>) = Some (c3, Inr ())"
    by (rule sample_base_callback[of "?c2\<lparr>lc_ids := 2\<rparr>" ?e2 "Some prompt_manager"])
      (use c2 in \<open>auto simp: is_state_update_def parent_known_def\<close>)
  have w: "from_world (run_user_prompt_submit prompt_manager ''m'') sample_lconv =
      Some (sample_lconv, Inr (False, Some ''None'', [?r]))"
    using prompt_manager_facts(1) by (simp add: from_world_def on_world_def on_part_def sample_lconv_def)
  have b: "on_state (lift_unit (block_message null_env ''m'' (reason_or_default (Some ''Blocked by hook'')))) c1 = Some (?c2, Inr ())"
    using c1(2) by (simp add: block_message_def set_attr_plain null_good_def on_state_def on_part_def lift_unit_def)
  have em: "emit_hook_events ?env [policy_hook] [?r] ((empty_log USER_PROMPT_SUBMIT)\<lparr>hl_message_id := Some ''m'',
      hl_input := [(''message'', ''m'')]\<rparr>) sample_lconv = Some (c1, Inr ())"
    using c1(1) by (simp add: emit_hook_events_def eseq_def ebind_def eret_def mk_user_def)
  have ids: "ev_id ((mk_user ''m'')\<lparr>ev_parent_id := p\<rparr>) = ''m''" "ev_source ((mk_user ''m'')\<lparr>ev_parent_id := p\<rparr>) = Src_User"
    by (simp_all add: mk_user_def)
  have nx: "new_event ?env Src_User (MessageEvent (plain_message Role_User [TextContent ''m'']) [''None'']) ?c2 = Some (?c2\<lparr>lc_ids := 2\<rparr>, Inr ?e2)"
    using c1(4) by (simp add: new_event_def env)
  have h: "handle_user_prompt_submit ?env prompt_manager ((mk_user ''m'')\<lparr>ev_parent_id := p\<rparr>) (plain_message Role_User [TextContent ''m'']) []
      sample_lconv = Some (?c2\<lparr>lc_ids := 2\<rparr>, Inr ?e2)"
    unfolding handle_user_prompt_submit_def Let_def e(3) env ids
    using em b w nx prompt_manager_facts by (simp add: ebind_def eseq_def eret_def text_given_def)
  have "on_event ?env (mk_user ''m'') sample_lconv = Some (c3, Inr ())"
    using st h c3 e
    by (simp add: on_event_def maybe_inject_path_rules_def hooked_callback_def on_state_def on_part_def lift_sum_def env
        ebind_def eseq_def eret_def sample_lconv_def)
  then show ?thesis by blast
qed

lemma denied_message_block_witness:
  "\<exists>c' l. on_event (sample_lenv (Some prompt_manager)) (mk_user ''m'') sample_lconv = Some (c', Inr ()) \<and>
     dict_get (blocked_messages (cs_base (lc_state c'))) ''m'' = Some ''Blocked by hook'' \<and>
     last_user_message_id (cs_base (lc_state c')) = Some l \<and> l \<noteq> ''m'' \<and>
     dict_get (blocked_messages (cs_base (lc_state c'))) l = None"
proof -
  obtain c' where r: "on_event (sample_lenv (Some prompt_manager)) (mk_user ''m'') sample_lconv = Some (c', Inr ())"
    using prompt_manager_runs by blast
  have h: "le_hooks (sample_lenv (Some prompt_manager)) = Some prompt_manager" by (simp add: sample_lenv_def)
  have e: "ev_body (mk_user ''m'') = MessageEvent (plain_message Role_User [TextContent ''m'']) []" "ev_source (mk_user ''m'') = Src_User"
    by (simp_all add: mk_user_def)
  have d: "run_user_prompt_submit prompt_manager (message_text (msg_content (plain_message Role_User [TextContent ''m'']))) (lc_world sample_lconv)
      = ((False, Some ''None'', [command_result (mg_runtime prompt_manager) policy_hook (Completed 2 ''{}'' '''')]), ())"
    using prompt_manager_facts(1) by (simp add: message_text_def plain_message_def)
  have f: "\<forall>k. le_new_id (sample_lenv (Some prompt_manager)) k \<noteq> ev_id (mk_user ''m'') \<and>
      dict_get (blocked_messages (cs_base (lc_state sample_lconv))) (le_new_id (sample_lenv (Some prompt_manager)) k) = None"
    by (simp add: sample_lenv_def mk_user_def sample_lconv_def null_conv_def sample_base_def)
  have t: "reason_or_default (Some ''Blocked by hook'') = ''Blocked by hook''" "text_given (Some ''None'')" "ev_id (mk_user ''m'') = ''m''"
    by (simp_all add: reason_or_default_def text_given_def mk_user_def)
  from denied_message_block[OF h e d f r, unfolded prompt_manager_facts t(1,3)] r t(2) show ?thesis by auto
qed

end
