(* ===== verification/Tool_Arguments.thy ===== *)
theory Tool_Arguments
  imports Hooks
begin

text \<open>
  \<open>sdk/agent/utils.py\<close> and the argument handling of \<open>Agent._get_action_event\<close>: what the agent makes of the name
  and the arguments of a tool call before it builds an action. Names are resolved through the leading
  identifier, the aliases and the terminal fallback; arguments are cleaned, repaired against the types the
  tool expects, and stripped of the fields that belong to the agent.

  JSON texts are parsed and printed by arguments of the model (\<open>json.loads\<close>, with and without
  \<open>strict=False\<close>, \<open>json.dumps\<close>, \<open>str\<close> of a parsed value).
\<close>

type_synonym jdict = "(str, jvalue) dict"

record json_runtime =
  js_loads :: "str \<Rightarrow> jvalue option"
  js_loads_lax :: "str \<Rightarrow> jvalue option"
  js_dumps :: "jvalue \<Rightarrow> str"
  js_str :: "jvalue \<Rightarrow> str"
  js_error :: "str \<Rightarrow> str"

section \<open>Control characters\<close>

definition hex_digit :: "nat \<Rightarrow> char" where
  "hex_digit n = (''0123456789abcdef'' ! n)"

definition escape_control_char :: "char \<Rightarrow> str" where
  "escape_control_char c =
     (let n = of_char c :: nat in
      if n = 8 then [CHR 0x5C, CHR ''b''] else if n = 9 then [CHR 0x5C, CHR ''t''] else if n = 10 then [CHR 0x5C, CHR ''n'']
      else if n = 12 then [CHR 0x5C, CHR ''f''] else if n = 13 then [CHR 0x5C, CHR ''r'']
      else [CHR 0x5C, CHR ''u'', CHR ''0'', CHR ''0'', hex_digit (n div 16), hex_digit (n mod 16)])"

definition is_control :: "char \<Rightarrow> bool" where
  "is_control c = (of_char c < (32 :: nat))"

definition sanitize_json_control_chars :: "str \<Rightarrow> str" where
  "sanitize_json_control_chars raw = concat (map (\<lambda>c. if is_control c then escape_control_char c else [c]) raw)"

text \<open>Line breaks between the tokens of a text are escaped like those within its strings: the result is no JSON.\<close>

lemma sanitize_breaks_layout:
  "sanitize_json_control_chars (CHR ''{'' # newline # s) = CHR ''{'' # CHR 0x5C # CHR ''n'' # sanitize_json_control_chars s"
  by (simp add: sanitize_json_control_chars_def is_control_def escape_control_char_def newline_def Let_def)

section \<open>Argument keys\<close>

fun contains :: "'a list \<Rightarrow> 'a list \<Rightarrow> bool" where
  "contains p [] = (p = [])"
| "contains p (c # cs) = (py_startswith (c # cs) p \<or> contains p cs)"

text \<open>The pattern allows blanks after the slash, but a key with a blank matches its first alternative.\<close>

definition is_malformed_argument_key :: "str \<Rightarrow> bool" where
  "is_malformed_argument_key key =
     (key = '''' \<or> (\<exists>c \<in> set key. py_isspace c) \<or>
      (let k = map lower_char key in
       contains ''<parameter'' k \<or> contains ''</parameter'' k \<or> contains ''<function'' k \<or> contains ''</function'' k))"

definition security_risk_typos :: "str list" where
  "security_risk_typos = [''security_rort'', ''securtiy_risk'', ''security_riks'']"

text \<open>The typos are a set; the first one its iteration finds is renamed. \<open>typos\<close> is the order of the iteration.\<close>

fun fix_typo :: "str list \<Rightarrow> jdict \<Rightarrow> jdict" where
  "fix_typo [] d = d"
| "fix_typo (t # ts) d =
     (case dict_get d t of None \<Rightarrow> fix_typo ts d | Some v \<Rightarrow> dict_put ''security_risk'' v (dict_del t d))"

definition normalize_arguments :: "str list \<Rightarrow> jdict \<Rightarrow> jdict" where
  "normalize_arguments typos arguments =
     filter (\<lambda>(k, v). v \<noteq> JNull \<and> \<not> is_malformed_argument_key k) (fix_typo typos arguments)"

definition parse_tool_call_arguments :: "json_runtime \<Rightarrow> str list \<Rightarrow> str \<Rightarrow> py_exc + jdict" where
  "parse_tool_call_arguments js typos raw =
     rbind (case js_loads js raw of
        Some v \<Rightarrow> Inr v
      | None \<Rightarrow> let sanitized = sanitize_json_control_chars raw in
          (case js_loads js sanitized of None \<Rightarrow> Inl (ValueError (js_error js sanitized)) | Some v \<Rightarrow> Inr v))
       (\<lambda>parsed. Inr (normalize_arguments typos (case parsed of JDict d \<Rightarrow> d | _ \<Rightarrow> [])))"

section \<open>Repairing values\<close>

text \<open>The types a field may have; \<open>K_other\<close> stands for any type the repairs do not look for.\<close>

datatype json_kind = K_list | K_dict | K_str | K_int | K_float | K_bool | K_other

fun jstrings :: "jvalue list \<Rightarrow> str list option" where
  "jstrings [] = Some []"
| "jstrings (JStr s # vs) = map_option (Cons s) (jstrings vs)"
| "jstrings (v # vs) = None"

definition is_chunked_str_field :: "jvalue \<Rightarrow> json_kind list \<Rightarrow> bool" where
  "is_chunked_str_field v kinds =
     (case v of
        JList vs \<Rightarrow> K_str \<in> set kinds \<and> K_list \<notin> set kinds \<and> K_dict \<notin> set kinds \<and> jstrings vs \<noteq> None
      | _ \<Rightarrow> False)"

fun is_collection :: "jvalue \<Rightarrow> bool" where
  "is_collection (JList vs) = True"
| "is_collection (JDict d) = True"
| "is_collection v = False"

text \<open>\<open>value[: value.rfind(c) + 1]\<close>, or \<^const>\<open>None\<close> where \<open>c\<close> does not occur.\<close>

definition up_to_last :: "char \<Rightarrow> str \<Rightarrow> str option" where
  "up_to_last c s = (if c \<in> set s then Some (rev (dropWhile (\<lambda>x. x \<noteq> c) (rev s))) else None)"

fun decode_truncated :: "json_runtime \<Rightarrow> char list \<Rightarrow> str \<Rightarrow> jvalue option" where
  "decode_truncated js [] s = None"
| "decode_truncated js (c # cs) s =
     (case up_to_last c s of
        None \<Rightarrow> decode_truncated js cs s
      | Some t \<Rightarrow>
          (case js_loads_lax js t of
             Some v \<Rightarrow> if is_collection v then Some v else decode_truncated js cs s
           | None \<Rightarrow> decode_truncated js cs s))"

definition fix_field :: "json_runtime \<Rightarrow> str \<times> json_kind list \<Rightarrow> jdict \<Rightarrow> jdict" where
  "fix_field js = (\<lambda>(key, kinds) d.
     case dict_get d key of
       None \<Rightarrow> d
     | Some v \<Rightarrow>
         if is_chunked_str_field v kinds then
           (case v of JList vs \<Rightarrow> dict_put key (JStr (concat (the (jstrings vs)))) d | _ \<Rightarrow> d)
         else (case v of
           JStr s \<Rightarrow>
             if K_list \<in> set kinds \<or> K_dict \<in> set kinds then
               (case js_loads_lax js s of
                  Some p \<Rightarrow> if is_collection p then dict_put key p d else d
                | None \<Rightarrow> (case decode_truncated js [CHR 0x7D, CHR 0x5D] s of None \<Rightarrow> d | Some p \<Rightarrow> dict_put key p d))
             else d
         | _ \<Rightarrow> d))"

definition fix_malformed_tool_arguments :: "json_runtime \<Rightarrow> str list \<Rightarrow> (str \<times> json_kind list) list \<Rightarrow> jdict \<Rightarrow> jdict" where
  "fix_malformed_tool_arguments js typos fs arguments = fold (fix_field js) fs (normalize_arguments typos arguments)"

text \<open>
  The types a JSON schema expects, for tools with a response schema. References may be circular, on which
  the code recurses for ever: the search is given a number of levels.
\<close>

definition jget :: "jvalue \<Rightarrow> str \<Rightarrow> jvalue option" where
  "jget v k = (case v of JDict d \<Rightarrow> dict_get d k | _ \<Rightarrow> None)"

definition kind_of_type :: "jvalue \<Rightarrow> json_kind list" where
  "kind_of_type v =
     (case v of
        JStr t \<Rightarrow> if t = ''array'' then [K_list] else if t = ''boolean'' then [K_bool] else if t = ''integer'' then [K_int]
          else if t = ''number'' then [K_float] else if t = ''object'' then [K_dict] else if t = ''string'' then [K_str] else []
      | _ \<Rightarrow> [])"

definition ref_prefix :: str where
  "ref_prefix = ''#/$defs/''"

definition after_last_slash :: "str \<Rightarrow> str" where
  "after_last_slash s = rev (takeWhile (\<lambda>c. c \<noteq> CHR ''/'') (rev s))"

definition ref_target :: "jvalue \<Rightarrow> jvalue \<Rightarrow> jvalue option" where
  "ref_target schema defs =
     (case jget schema ''$ref'' of
        Some (JStr ref) \<Rightarrow>
          if py_startswith ref ref_prefix then
            (case jget defs (after_last_slash ref) of Some (JDict d) \<Rightarrow> Some (JDict d) | _ \<Rightarrow> None)
          else None
      | _ \<Rightarrow> None)"

fun option_concat :: "'a list option list \<Rightarrow> 'a list option" where
  "option_concat [] = Some []"
| "option_concat (x # xs) = (case x of None \<Rightarrow> None | Some a \<Rightarrow> map_option ((@) a) (option_concat xs))"

definition dict_options :: "jvalue option \<Rightarrow> jvalue list" where
  "dict_options v = (case v of Some (JList vs) \<Rightarrow> filter (\<lambda>x. case x of JDict _ \<Rightarrow> True | _ \<Rightarrow> False) vs | _ \<Rightarrow> [])"

fun json_schema_expected_types :: "nat \<Rightarrow> jvalue \<Rightarrow> jvalue \<Rightarrow> json_kind list option" where
  "json_schema_expected_types 0 schema defs = None"
| "json_schema_expected_types (Suc fuel) schema defs =
     (case ref_target schema defs of
        Some target \<Rightarrow> json_schema_expected_types fuel target defs
      | None \<Rightarrow>
          map_option (\<lambda>ks. ks @ (case jget schema ''type'' of
              Some (JStr t) \<Rightarrow> kind_of_type (JStr t)
            | Some (JList ts) \<Rightarrow> concat (map kind_of_type ts)
            | _ \<Rightarrow> []))
            (option_concat (map (\<lambda>s. json_schema_expected_types fuel s defs)
              (dict_options (jget schema ''anyOf'') @ dict_options (jget schema ''oneOf'')))))"

section \<open>Shell commands\<close>

text \<open>\<open>shlex.quote\<close> and \<open>shlex.join\<close>.\<close>

definition shell_safe :: "char \<Rightarrow> bool" where
  "shell_safe c =
     (let n = of_char c :: nat in
      48 \<le> n \<and> n \<le> 57 \<or> 65 \<le> n \<and> n \<le> 90 \<or> 97 \<le> n \<and> n \<le> 122 \<or> c \<in> set ''_@%+=:,./-'')"

definition single_quote :: char where
  "single_quote = CHR 0x27"

definition double_quote :: char where
  "double_quote = CHR 0x22"

definition quoted_char :: "char \<Rightarrow> str" where
  "quoted_char c = (if c = single_quote then [single_quote, double_quote, single_quote, double_quote, single_quote] else [c])"

definition shlex_quote :: "str \<Rightarrow> str" where
  "shlex_quote s =
     (if s = '''' then [single_quote, single_quote]
      else if list_all shell_safe s then s
      else single_quote # concat (map quoted_char s) @ [single_quote])"

definition shlex_join :: "str list \<Rightarrow> str" where
  "shlex_join parts = py_join '' '' (map shlex_quote parts)"

text \<open>
  The platform: which programs are on the path, whether it is Windows and how its command lines are
  built, and the quoted script of the fallback that searches with Python.
\<close>

record shell_env =
  se_which :: "str \<Rightarrow> bool"
  se_windows :: bool
  se_list2cmdline :: "str list \<Rightarrow> str"
  se_script :: str

definition join_shell_command :: "shell_env \<Rightarrow> str list \<Rightarrow> str" where
  "join_shell_command se parts = (if se_windows se then se_list2cmdline se parts else shlex_join parts)"

definition text_arg :: "jdict \<Rightarrow> str \<Rightarrow> str option" where
  "text_arg d k = (case dict_get d k of Some (JStr s) \<Rightarrow> if py_strip s \<noteq> '''' then Some s else None | _ \<Rightarrow> None)"

definition opt_list :: "'a option \<Rightarrow> ('a \<Rightarrow> 'b list) \<Rightarrow> 'b list" where
  "opt_list x f = (case x of None \<Rightarrow> [] | Some a \<Rightarrow> f a)"

definition build_ripgrep_command :: "str \<Rightarrow> str \<Rightarrow> str option \<Rightarrow> str list" where
  "build_ripgrep_command pattern path incl =
     [''rg'', ''-n'', ''-i'', pattern, path, ''--sortr=modified''] @ opt_list incl (\<lambda>i. [''-g'', i])"

definition build_system_grep_command :: "str \<Rightarrow> str \<Rightarrow> str option \<Rightarrow> str list" where
  "build_system_grep_command pattern path incl =
     [''grep'', ''-R'', ''-I'', ''-n'', ''-i'', pattern, path] @ opt_list incl (\<lambda>i. [''--include='' @ i])"

definition build_python_grep_command :: "shell_env \<Rightarrow> str \<Rightarrow> str \<Rightarrow> str option \<Rightarrow> str list" where
  "build_python_grep_command se pattern path incl =
     [''python'', ''-c'', ''exec('' @ se_script se @ '')'', pattern, path] @ opt_list incl (\<lambda>i. [i])"

definition grep_command_parts :: "shell_env \<Rightarrow> str \<Rightarrow> str \<Rightarrow> str option \<Rightarrow> str list" where
  "grep_command_parts se pattern path incl =
     (if se_which se ''rg'' then build_ripgrep_command pattern path incl
      else if se_which se ''grep'' then build_system_grep_command pattern path incl
      else build_python_grep_command se pattern path incl)"

definition build_grep_terminal_command :: "shell_env \<Rightarrow> jdict \<Rightarrow> str option" where
  "build_grep_terminal_command se arguments =
     (case text_arg arguments ''pattern'' of
        None \<Rightarrow> None
      | Some pattern \<Rightarrow>
          let search_path = (case text_arg arguments ''path'' of Some p \<Rightarrow> p | None \<Rightarrow> ''.'') in
          Some (join_shell_command se (grep_command_parts se pattern search_path (text_arg arguments ''include''))))"

section \<open>Tool names\<close>

definition tool_name_aliases :: "(str, str) dict" where
  "tool_name_aliases = [(''bash'', ''terminal''), (''command'', ''terminal''), (''execute'', ''terminal''),
     (''execute_bash'', ''terminal''), (''git'', ''terminal''), (''reset'', ''terminal''),
     (''str_replace'', ''file_editor''), (''str_replace_editor'', ''file_editor'')]"

definition ident_start :: "char \<Rightarrow> bool" where
  "ident_start c = (let n = of_char c :: nat in 65 \<le> n \<and> n \<le> 90 \<or> 97 \<le> n \<and> n \<le> 122 \<or> c = CHR ''_'')"

definition ident_char :: "char \<Rightarrow> bool" where
  "ident_char c = (ident_start c \<or> (let n = of_char c :: nat in 48 \<le> n \<and> n \<le> 57))"

definition extract_tool_name_base :: "str \<Rightarrow> str" where
  "extract_tool_name_base name = (if name \<noteq> [] \<and> ident_start (hd name) then takeWhile ident_char name else name)"

definition command_prefix_aliases :: "str set" where
  "command_prefix_aliases = {''git'', ''reset''}"

definition shell_fallback_commands :: "str set" where
  "shell_fallback_commands = {''find'', ''git'', ''ls'', ''pwd''}"

definition rewrite_as_terminal_command :: "shell_env \<Rightarrow> str \<Rightarrow> jdict \<Rightarrow> str option" where
  "rewrite_as_terminal_command se tool_name arguments =
     (if tool_name = ''grep'' then build_grep_terminal_command se arguments
      else if arguments \<noteq> [] \<or> tool_name \<notin> shell_fallback_commands then None
      else Some tool_name)"

definition infer_file_editor_command :: "jdict \<Rightarrow> str option" where
  "infer_file_editor_command d =
     (if ''command'' \<in> set (dict_keys d) then None
      else if ''old_str'' \<in> set (dict_keys d) then Some ''str_replace''
      else if ''insert_line'' \<in> set (dict_keys d) then Some ''insert''
      else if ''file_text'' \<in> set (dict_keys d) then Some ''create''
      else if ''path'' \<in> set (dict_keys d) then Some ''view''
      else None)"

definition has_file_editor_hint :: "jdict \<Rightarrow> bool" where
  "has_file_editor_hint d =
     list_ex (\<lambda>k. k \<in> set (dict_keys d)) [''old_str'', ''new_str'', ''insert_line'', ''file_text'', ''path'', ''view_range'']"

definition meta_arguments :: "jdict \<Rightarrow> jdict" where
  "meta_arguments d = filter (\<lambda>(k, v). k \<in> {''security_risk'', ''summary''}) d"

text \<open>\<open>str(command).split(maxsplit=1)[:1]\<close>\<close>

definition first_word :: "str \<Rightarrow> str list" where
  "first_word s = (let w = takeWhile (\<lambda>c. \<not> py_isspace c) (py_lstrip s) in if w = [] then [] else [w])"

definition prefixed_command :: "json_runtime \<Rightarrow> str \<Rightarrow> jvalue option \<Rightarrow> jvalue" where
  "prefixed_command js base original =
     (case original of
        None \<Rightarrow> JStr base
      | Some v \<Rightarrow>
          if \<not> truthy v then JStr base
          else if first_word (js_str js v) = [base] then v
          else JStr (base @ '' '' @ js_str js v))"

definition resolve_tool_name :: "json_runtime \<Rightarrow> shell_env \<Rightarrow> str \<Rightarrow> jdict \<Rightarrow> str list \<Rightarrow> str \<times> jdict" where
  "resolve_tool_name js se tool_name arguments available =
     (if tool_name \<in> set available then (tool_name, arguments)
      else let base = extract_tool_name_base tool_name; alias_target = dict_get tool_name_aliases base in
        if base \<noteq> tool_name \<and> base \<in> set available then (base, arguments)
        else if alias_target \<noteq> None \<and> the alias_target \<in> set available then
          (the alias_target,
            if the alias_target = ''terminal'' \<and> base \<in> command_prefix_aliases
            then dict_put ''command'' (prefixed_command js base (dict_get arguments ''command'')) (meta_arguments arguments)
            else arguments)
        else if ''terminal'' \<in> set available then
          (case rewrite_as_terminal_command se tool_name arguments of
             None \<Rightarrow> (tool_name, arguments)
           | Some command \<Rightarrow> (''terminal'', dict_put ''command'' (JStr command) (meta_arguments arguments)))
        else (tool_name, arguments))"

definition cannot_infer_text :: "json_runtime \<Rightarrow> str \<Rightarrow> jdict \<Rightarrow> str" where
  "cannot_infer_text js name d = ''Cannot infer 'command' for tool '' @ [single_quote] @ name @ [single_quote] @ '' from empty arguments '' @
     js_str js (JDict d) @ ''. Expected one of: str_replace, insert, create, view with appropriate arguments (e.g., old_str for str_replace, path for view).''"

definition normalize_tool_call :: "json_runtime \<Rightarrow> shell_env \<Rightarrow> str \<Rightarrow> jdict \<Rightarrow> str list \<Rightarrow> py_exc + str \<times> jdict" where
  "normalize_tool_call js se tool_name arguments available =
     (let (name, args) = resolve_tool_name js se tool_name arguments available in
      if name = ''file_editor'' then
        (case infer_file_editor_command args of
           Some command \<Rightarrow> Inr (name, (''command'', JStr command) # args)
         | None \<Rightarrow>
             if args = [] \<or> (''command'' \<notin> set (dict_keys args) \<and> \<not> has_file_editor_hint args)
             then Inl (ValueError (cannot_infer_text js name args))
             else Inr (name, args))
      else Inr (name, args))"

section \<open>The fields of the agent\<close>

datatype security_risk = UNKNOWN | LOW | MEDIUM | HIGH

definition parse_security_risk :: "jvalue \<Rightarrow> security_risk option" where
  "parse_security_risk v =
     (case v of
        JStr s \<Rightarrow> if s = ''UNKNOWN'' then Some UNKNOWN else if s = ''LOW'' then Some LOW
          else if s = ''MEDIUM'' then Some MEDIUM else if s = ''HIGH'' then Some HIGH else None
      | _ \<Rightarrow> None)"

definition extract_security_risk :: "json_runtime \<Rightarrow> jdict \<Rightarrow> bool \<Rightarrow> bool \<Rightarrow> jdict \<times> (py_exc + security_risk)" where
  "extract_security_risk js arguments read_only_tool has_analyzer =
     (let raw = dict_get arguments ''security_risk''; rest = dict_del ''security_risk'' arguments in
      (rest,
        if read_only_tool then Inr UNKNOWN
        else if \<not> has_analyzer then Inr UNKNOWN
        else (case raw of
           None \<Rightarrow> Inr UNKNOWN
         | Some v \<Rightarrow>
             if v = JNull then Inr UNKNOWN
             else (case parse_security_risk v of
                Some r \<Rightarrow> Inr r
              | None \<Rightarrow> Inl (ValueError (js_str js v @ '' is not a valid SecurityRisk''))))))"

text \<open>What the agent reads of a tool: the fields of its schema, the two names it adds to them, whether the tool only
  reads, and whether its actions are the finish or think actions of the agent itself.\<close>

record tool_schema =
  ts_fields :: "(str \<times> json_kind list) list"
  ts_response_fields :: "(str \<times> json_kind list) list option"
  ts_has_summary :: bool
  ts_has_description :: bool
  ts_read_only :: bool
  ts_control :: bool

definition default_summary :: "json_runtime \<Rightarrow> str \<Rightarrow> jdict \<Rightarrow> str" where
  "default_summary js tool_name arguments = tool_name @ '': '' @ js_dumps js (JDict arguments)"

definition stripped_arg :: "jdict \<Rightarrow> str \<Rightarrow> str option" where
  "stripped_arg d k = map_option py_strip (text_arg d k)"

definition extract_summary :: "json_runtime \<Rightarrow> str \<Rightarrow> tool_schema \<Rightarrow> jdict \<Rightarrow> jdict \<times> str" where
  "extract_summary js name ts arguments =
     (if ts_has_summary ts then
        (arguments, case stripped_arg arguments ''summary'' of Some s \<Rightarrow> s | None \<Rightarrow> default_summary js name arguments)
      else let rest1 = dict_del ''summary'' arguments; rest = (if ts_has_description ts then rest1 else dict_del ''description'' rest1) in
        (rest,
          case stripped_arg arguments ''summary'' of
            Some s \<Rightarrow> s
          | None \<Rightarrow>
              (case (if ts_has_description ts then None else stripped_arg rest1 ''description'') of
                 Some s \<Rightarrow> s
               | None \<Rightarrow> default_summary js name rest)))"

section \<open>What a shell reads\<close>

text \<open>
  A reference reading of a command line by a POSIX shell: words are separated by blanks, single quotes keep
  every character, double quotes keep those a shell does not expand, and outside of quotes only
  characters without a meaning to the shell are read; anything else is \<^const>\<open>None\<close>.
\<close>

datatype sh_mode = Between | In_Word | In_Single | In_Double

fun sh_lex :: "sh_mode \<Rightarrow> str \<Rightarrow> str \<Rightarrow> str list option" where
  "sh_lex Between cur [] = Some []"
| "sh_lex In_Word cur [] = Some [cur]"
| "sh_lex In_Single cur [] = None"
| "sh_lex In_Double cur [] = None"
| "sh_lex Between cur (c # s) =
     (if c = CHR '' '' then sh_lex Between [] s
      else if c = single_quote then sh_lex In_Single [] s
      else if c = double_quote then sh_lex In_Double [] s
      else if shell_safe c then sh_lex In_Word [c] s else None)"
| "sh_lex In_Word cur (c # s) =
     (if c = CHR '' '' then map_option (Cons cur) (sh_lex Between [] s)
      else if c = single_quote then sh_lex In_Single cur s
      else if c = double_quote then sh_lex In_Double cur s
      else if shell_safe c then sh_lex In_Word (cur @ [c]) s else None)"
| "sh_lex In_Single cur (c # s) = (if c = single_quote then sh_lex In_Word cur s else sh_lex In_Single (cur @ [c]) s)"
| "sh_lex In_Double cur (c # s) =
     (if c = double_quote then sh_lex In_Word cur s
      else if c \<in> {CHR ''$'', CHR 0x60, CHR 0x5C} then None
      else sh_lex In_Double (cur @ [c]) s)"

definition shell_words :: "str \<Rightarrow> str list option" where
  "shell_words s = sh_lex Between [] s"

lemma quotes_special: "\<not> shell_safe (CHR '' '')" "\<not> shell_safe single_quote" "\<not> shell_safe double_quote"
  "single_quote \<noteq> double_quote" "single_quote \<noteq> CHR '' ''" "double_quote \<noteq> CHR '' ''" "single_quote \<notin> {CHR ''$'', CHR 0x60, CHR 0x5C}"
  by code_simp+

lemma lex_single: "sh_lex In_Single cur (concat (map quoted_char s) @ single_quote # rest) = sh_lex In_Word (cur @ s) rest"
proof (induction s arbitrary: cur)
  case (Cons c s)
  then show ?case using quotes_special by (cases "c = single_quote") (simp_all add: quoted_char_def)
qed simp

lemma lex_safe: "list_all shell_safe s \<Longrightarrow> sh_lex In_Word cur (s @ rest) = sh_lex In_Word (cur @ s) rest"
  using quotes_special by (induction s arbitrary: cur) auto

lemma lex_quoted: "sh_lex Between cur (shlex_quote s @ rest) = sh_lex In_Word s rest"
proof -
  consider "s = []" | "s \<noteq> []" "list_all shell_safe s" | "s \<noteq> []" "\<not> list_all shell_safe s" by blast
  then show ?thesis
  proof cases
    case 1
    then show ?thesis using quotes_special by (simp add: shlex_quote_def)
  next
    case 2
    then obtain c t where s: "s = c # t" by (cases s) auto
    have "c \<noteq> CHR '' ''" "c \<noteq> single_quote" "c \<noteq> double_quote" using 2(2) quotes_special by (auto simp: s)
    then show ?thesis using 2 lex_safe[of t "[c]" rest] by (simp add: shlex_quote_def s)
  next
    case 3
    then show ?thesis using quotes_special lex_single[of "[]" s rest] by (simp add: shlex_quote_def)
  qed
qed

lemma shell_words_join: "shell_words (shlex_join parts) = Some parts"
proof -
  have "sh_lex Between cur (py_join '' '' (map shlex_quote parts)) = Some parts" for cur
  proof (induction parts arbitrary: cur rule: induct_list012)
    case (2 p)
    then show ?case using lex_quoted[of cur p "[]"] by simp
  next
    case (3 p q parts)
    then show ?case using lex_quoted[of cur p "'' '' @ py_join '' '' (map shlex_quote (q # parts))"] by simp
  qed simp
  then show ?thesis by (simp add: shell_words_def shlex_join_def)
qed

text \<open>
  The terminal command a structured \<open>grep\<close> call is rewritten to. Whatever the pattern, the path and the
  file filter are, quotes, blanks and shell operators included, a POSIX shell reads the command as exactly
  the intended words, the pattern as one word. (The pattern is not protected from the program itself: no
  \<open>--\<close> or \<open>-e\<close> precedes it, so a pattern that begins with a dash is read by \<open>rg\<close> or \<open>grep\<close> as an option.)
\<close>

theorem grep_command_words:
  assumes "\<not> se_windows se" "build_grep_terminal_command se arguments = Some command"
  shows "\<exists>pattern path incl before after. shell_words command = Some (before @ [pattern, path] @ after) \<and>
    dict_get arguments ''pattern'' = Some (JStr pattern) \<and>
    (dict_get arguments ''path'' = Some (JStr path) \<or> path = ''.'') \<and>
    before \<in> {[''rg'', ''-n'', ''-i''], [''grep'', ''-R'', ''-I'', ''-n'', ''-i''], [''python'', ''-c'', ''exec('' @ se_script se @ '')'']} \<and>
    length after \<le> 3"
proof -
  from assms(2) obtain pattern where p: "text_arg arguments ''pattern'' = Some pattern"
    by (auto simp: build_grep_terminal_command_def split: option.splits)
  let ?path = "case text_arg arguments ''path'' of Some p \<Rightarrow> p | None \<Rightarrow> ''.''" and ?incl = "text_arg arguments ''include''"
  have w: "shell_words command = Some (grep_command_parts se pattern ?path ?incl)"
    using assms p by (auto simp: build_grep_terminal_command_def Let_def join_shell_command_def shell_words_join)
  have path: "dict_get arguments ''path'' = Some (JStr ?path) \<or> ?path = ''.''"
    and pat: "dict_get arguments ''pattern'' = Some (JStr pattern)"
    using p by (auto simp: text_arg_def split: option.splits jvalue.splits if_splits)
  have "\<exists>before after. grep_command_parts se pattern ?path ?incl = before @ [pattern, ?path] @ after \<and>
      before \<in> {[''rg'', ''-n'', ''-i''], [''grep'', ''-R'', ''-I'', ''-n'', ''-i''], [''python'', ''-c'', ''exec('' @ se_script se @ '')'']} \<and>
      length after \<le> 3"
  proof -
    consider "se_which se ''rg''" | "\<not> se_which se ''rg''" "se_which se ''grep''" | "\<not> se_which se ''rg''" "\<not> se_which se ''grep''" by blast
    then show ?thesis
    proof cases
      case 1
      then show ?thesis
        by (intro exI[of _ "[''rg'', ''-n'', ''-i'']"] exI[of _ "''--sortr=modified'' # opt_list ?incl (\<lambda>i. [''-g'', i])"])
          (simp add: grep_command_parts_def build_ripgrep_command_def opt_list_def split: option.split)
    next
      case 2
      then show ?thesis
        by (intro exI[of _ "[''grep'', ''-R'', ''-I'', ''-n'', ''-i'']"] exI[of _ "opt_list ?incl (\<lambda>i. [''--include='' @ i])"])
          (simp add: grep_command_parts_def build_system_grep_command_def opt_list_def split: option.split)
    next
      case 3
      then show ?thesis
        by (intro exI[of _ "[''python'', ''-c'', ''exec('' @ se_script se @ '')'']"] exI[of _ "opt_list ?incl (\<lambda>i. [i])"])
          (simp add: grep_command_parts_def build_python_grep_command_def opt_list_def split: option.split)
    qed
  qed
  then show ?thesis using w path pat by metis
qed

definition ripgrep_env :: shell_env where
  "ripgrep_env = \<lparr>se_which = (\<lambda>p. p = ''rg''), se_windows = False, se_list2cmdline = concat, se_script = ''s''\<rparr>"

definition dash_call :: jdict where
  "dash_call = [(''pattern'', JStr ''--pre=sh -c'')]"

lemma grep_command_words_witness:
  "\<exists>command after. build_grep_terminal_command ripgrep_env dash_call = Some command \<and>
     shell_words command = Some ([''rg'', ''-n'', ''-i'', ''--pre=sh -c'', ''.''] @ after)"
proof -
  obtain command where c: "build_grep_terminal_command ripgrep_env dash_call = Some command"
    "shell_words command = Some [''rg'', ''-n'', ''-i'', ''--pre=sh -c'', ''.'', ''--sortr=modified'']"
    by (simp add: build_grep_terminal_command_def dash_call_def text_arg_def py_strip_def py_rstrip_def py_lstrip_def py_isspace_def
        join_shell_command_def ripgrep_env_def grep_command_parts_def build_ripgrep_command_def opt_list_def shell_words_join)
  have "\<not> se_windows ripgrep_env" by (simp add: ripgrep_env_def)
  from grep_command_words[OF this c(1)] show ?thesis using c by auto
qed

section \<open>Which tool a call reaches\<close>

lemma first_word_base: "base \<in> command_prefix_aliases \<Longrightarrow> first_word base = [base]"
  "base \<in> command_prefix_aliases \<Longrightarrow> first_word (base @ CHR '' '' # x) = [base]"
  by (auto simp: command_prefix_aliases_def first_word_def py_lstrip_def py_isspace_def Let_def)

text \<open>
  A call of \<open>git\<close> or \<open>reset\<close>, also one whose name carries a fragment of markup, that the agent has no tool for
  goes to the terminal with a command whose first word is that program, whether or not the command the
  model gave already named it. Of the other arguments only the risk and the summary are kept.
\<close>

theorem prefixed_call_runs_program:
  assumes "tool_name \<notin> set available" "''terminal'' \<in> set available" "extract_tool_name_base tool_name \<in> command_prefix_aliases"
    "extract_tool_name_base tool_name \<notin> set available" "\<forall>s. js_str js (JStr s) = s"
  shows "\<exists>args v. normalize_tool_call js se tool_name arguments available = Inr (''terminal'', args) \<and>
    dict_get args ''command'' = Some v \<and> first_word (js_str js v) = [extract_tool_name_base tool_name] \<and>
    set (dict_keys args) \<subseteq> {''command'', ''security_risk'', ''summary''}"
proof -
  let ?base = "extract_tool_name_base tool_name" and ?orig = "dict_get arguments ''command''"
  have a: "dict_get tool_name_aliases ?base = Some ''terminal''" using assms(3)
    by (auto simp: command_prefix_aliases_def tool_name_aliases_def)
  let ?args = "dict_put ''command'' (prefixed_command js ?base ?orig) (meta_arguments arguments)"
  have "resolve_tool_name js se tool_name arguments available = (''terminal'', ?args)"
    using assms(1-4) a by (simp add: resolve_tool_name_def Let_def)
  then have "normalize_tool_call js se tool_name arguments available = Inr (''terminal'', ?args)"
    by (simp add: normalize_tool_call_def)
  moreover have "first_word (js_str js (prefixed_command js ?base ?orig)) = [?base]"
    using assms(5) first_word_base[OF assms(3)] by (simp add: prefixed_command_def split: option.split)
  moreover have "set (dict_keys ?args) \<subseteq> {''command'', ''security_risk'', ''summary''}"
    unfolding dict_keys_put by (auto simp: meta_arguments_def)
  ultimately show ?thesis by (intro exI[of _ ?args]) simp
qed

definition text_json :: json_runtime where
  "text_json = \<lparr>js_loads = (\<lambda>s. None), js_loads_lax = (\<lambda>s. None), js_dumps = (\<lambda>v. case v of JStr s \<Rightarrow> s | _ \<Rightarrow> ''?''),
     js_str = (\<lambda>v. case v of JStr s \<Rightarrow> s | _ \<Rightarrow> ''?''), js_error = (\<lambda>s. ''invalid'')\<rparr>"

lemma prefixed_call_runs_program_witness:
  "\<exists>args v. normalize_tool_call text_json ripgrep_env ''git </parameter'' [(''command'', JStr ''rm -rf .'')] [''terminal''] = Inr (''terminal'', args) \<and>
     dict_get args ''command'' = Some v \<and> first_word (js_str text_json v) = [''git'']"
proof -
  have "extract_tool_name_base ''git </parameter'' = ''git''" "''git'' \<in> command_prefix_aliases"
    by (code_simp, simp add: command_prefix_aliases_def)
  moreover have "\<forall>s. js_str text_json (JStr s) = s" by (simp add: text_json_def)
  ultimately show ?thesis
    using prefixed_call_runs_program[of "''git </parameter''" "[''terminal'']" text_json ripgrep_env "[(''command'', JStr ''rm -rf .'')]"] by auto
qed

end
