(* ===== verification/Tool_Execution.thy ===== *)
theory Tool_Execution
  imports Hook_Blocks Tool_Arguments
begin

text \<open>
  Running the tool calls of one response: \<open>_ActionBatch\<close> and \<open>_execute_action_event\<close> of
  \<open>sdk/agent/agent.py\<close>, \<open>ParallelToolExecutor\<close> of \<open>sdk/agent/parallel_executor.py\<close> and the iterative
  refinement of \<open>sdk/agent/critic_mixin.py\<close>.

  A tool is what the agent sees of it: its name and schema, how it builds an action from arguments, the
  resources it declares for an action, and the call, which may change the whole conversation. One call of a tool is one step; with several workers the
  calls of a batch run in some order, which the record of the execution gives. What entering
  \<open>ResourceLockManager.lock\<close> does for this thread (grant, or time out because of others) is an argument
  too; the lock manager itself is the theory \<open>Resource_Locks\<close>.
\<close>

section \<open>Tools and one call\<close>

record declared_resources =
  dr_declared :: bool
  dr_keys :: "str list"

datatype tool_value = Observation str "content list" | Other_Value

record ('s, 'w) tool_definition =
  td_name :: str
  td_schema :: tool_schema
  td_action_from_arguments :: "jdict \<Rightarrow> py_exc + str"
  td_resources :: "str \<Rightarrow> py_exc + declared_resources"
  td_call :: "str option \<Rightarrow> (('s, 'w) lconv, tool_value) eff"

record ('s, 'w) execution =
  tx_tools :: "(str, ('s, 'w) tool_definition) dict"
  tx_max_workers :: nat
  tx_cancelled :: "('s, 'w) lconv \<Rightarrow> bool"
  tx_lock :: "str list \<Rightarrow> (('s, 'w) lconv, unit) eff"
  tx_unlock :: "str list \<Rightarrow> (('s, 'w) lconv, unit) eff"
  tx_order :: "nat \<Rightarrow> nat list"

type_synonym action_event = "event \<times> action_data"

definition finish_tool :: str where
  "finish_tool = ''finish''"

definition tool_error :: "('s, 'w) lenv \<Rightarrow> str \<Rightarrow> str \<Rightarrow> str \<Rightarrow> (('s, 'w) lconv, event list) eff" where
  "tool_error env err name call_id =
     ebind (new_event env Src_Agent (AgentErrorEvent \<lparr>obs_tool_name = name, obs_tool_call_id = call_id\<rparr> err)) (\<lambda>e. eret [e])"

definition error_executing :: "str \<Rightarrow> str \<Rightarrow> str" where
  "error_executing name t = ''Error executing tool '' @ [CHR 0x27] @ name @ [CHR 0x27] @ '': '' @ t"

text \<open>The body of a \<open>try\<close> whose only handler is \<open>except ValueError\<close>: the message, or the value.\<close>

definition try_value_error :: "('c, 'a) eff \<Rightarrow> ('c, str + 'a) eff" where
  "try_value_error m = ecatch (ebind m (\<lambda>a. eret (Inr a))) (\<lambda>x. case x of ValueError t \<Rightarrow> eret (Inl t) | _ \<Rightarrow> eraise x)"

definition call_tool :: "('s, 'w) tool_definition \<Rightarrow> str option \<Rightarrow> (('s, 'w) lconv, str \<times> content list) eff" where
  "call_tool tool action =
     ebind (td_call tool action) (\<lambda>v. case v of
       Observation t cs \<Rightarrow> eret (t, cs)
     | Other_Value \<Rightarrow> eraise (AssertionError (''Tool '' @ td_name tool @ '' executor must return an Observation'')))"

definition execute_action_event :: "('s, 'w) lenv \<Rightarrow> ('s, 'w) execution \<Rightarrow> action_event \<Rightarrow> (('s, 'w) lconv, event list) eff" where
  "execute_action_event env tx ae =
     (let (e, a) = ae in
      case dict_get (tx_tools tx) (act_tool_name a) of
        None \<Rightarrow> eraise (RuntimeError (''Tool '' @ act_tool_name a @ '' not found. This should not happen as it was checked earlier.''))
      | Some tool \<Rightarrow>
          ebind (try_value_error (call_tool tool (act_action a))) (\<lambda>r. case r of
            Inl t \<Rightarrow> tool_error env (error_executing (td_name tool) t) (td_name tool) (tc_id (act_tool_call a))
          | Inr (t, cs) \<Rightarrow>
              ebind (new_event env Src_Environment
                (ObservationEvent \<lparr>obs_tool_name = td_name tool, obs_tool_call_id = tc_id (act_tool_call a)\<rparr>
                  \<lparr>observation = t, obs_llm_content = cs, obs_extended_content = [], obs_action_id = ev_id e\<rparr>)) (\<lambda>x. eret [x])))"

section \<open>The executor\<close>

definition extract_declared_resources :: "action_data \<Rightarrow> ('s, 'w) tool_definition \<Rightarrow> py_exc + declared_resources option" where
  "extract_declared_resources a tool =
     (case act_action a of None \<Rightarrow> Inr None | Some t \<Rightarrow> rbind (td_resources tool t) (\<lambda>r. Inr (Some r)))"

definition resolve_lock_keys :: "declared_resources option \<Rightarrow> ('s, 'w) tool_definition \<Rightarrow> str list" where
  "resolve_lock_keys resources tool =
     (case resources of
        None \<Rightarrow> [''tool:'' @ td_name tool]
      | Some r \<Rightarrow> if \<not> dr_declared r then [''tool:'' @ td_name tool] else dr_keys r)"

definition lift_result :: "py_exc + 'a \<Rightarrow> ('c, 'a) eff" where
  "lift_result r = (case r of Inl x \<Rightarrow> eraise x | Inr a \<Rightarrow> eret a)"

definition run_locked :: "('s, 'w) execution \<Rightarrow> str list \<Rightarrow> (('s, 'w) lconv, 'a) eff \<Rightarrow> (('s, 'w) lconv, 'a) eff" where
  "run_locked tx keys m = eseq (tx_lock tx keys) (efinally m (tx_unlock tx keys))"

definition cancelled_text :: str where
  "cancelled_text = ''Tool call cancelled by interrupt.''"

definition run_safe :: "('s, 'w) lenv \<Rightarrow> ('s, 'w) execution \<Rightarrow> action_event \<Rightarrow> (('s, 'w) lconv, event list) eff" where
  "run_safe env tx ae c =
     (let a = snd ae; runner = execute_action_event env tx ae in
      if tx_cancelled tx c then tool_error env cancelled_text (act_tool_name a) (act_tool_call_id a) c
      else ecatch
        (case dict_get (tx_tools tx) (act_tool_name a) of
           None \<Rightarrow> runner
         | Some tool \<Rightarrow> ebind (lift_result (extract_declared_resources a tool)) (\<lambda>resources.
             let lock_keys = resolve_lock_keys resources tool in
             if lock_keys = [] then runner else run_locked tx lock_keys runner))
        (\<lambda>x. tool_error env (error_executing (act_tool_name a) (le_exc_text env x)) (act_tool_name a) (act_tool_call_id a)) c)"

definition in_order :: "nat list \<Rightarrow> 'a list \<Rightarrow> 'a list" where
  "in_order order rs = map (\<lambda>i. the (map_of (zip order rs) i)) [0..<length order]"

definition execute_batch :: "('s, 'w) lenv \<Rightarrow> ('s, 'w) execution \<Rightarrow> action_event list \<Rightarrow> (('s, 'w) lconv, event list list) eff" where
  "execute_batch env tx aes =
     (if aes = [] then eret []
      else if length aes = 1 \<or> tx_max_workers tx = 1 then emap (run_safe env tx) aes
      else let order = tx_order tx (length aes) in
        ebind (emap (\<lambda>i. run_safe env tx (aes ! i)) order) (\<lambda>rs. eret (in_order order rs)))"

section \<open>A batch\<close>

record action_batch =
  ab_action_events :: "action_event list"
  ab_has_finish :: bool
  ab_blocked_reasons :: "(str, str) dict"
  ab_results_by_id :: "(str, event list) dict"

definition truncate_at_finish :: "action_event list \<Rightarrow> action_event list \<times> bool" where
  "truncate_at_finish aes =
     (case find_index_from 0 (\<lambda>ae. act_tool_name (snd ae) = finish_tool) aes of
        None \<Rightarrow> (aes, False)
      | Some i \<Rightarrow> (take (i + 1) aes, True))"

fun partition_blocked :: "('s, 'w) lenv \<Rightarrow> action_event list \<Rightarrow> (str, str) dict \<Rightarrow> action_event list \<Rightarrow>
    (('s, 'w) lconv, (str, str) dict \<times> action_event list) eff" where
  "partition_blocked env [] reasons executable = eret (reasons, executable)"
| "partition_blocked env (ae # aes) reasons executable =
     ebind (on_state (lift_pair (pop_blocked_action (le_conv env) (ev_id (fst ae))))) (\<lambda>reason.
       case reason of
         Some r \<Rightarrow> partition_blocked env aes (dict_put (ev_id (fst ae)) r reasons) executable
       | None \<Rightarrow> partition_blocked env aes reasons (executable @ [ae]))"

definition dict_of :: "('k \<times> 'v) list \<Rightarrow> ('k, 'v) dict" where
  "dict_of kvs = foldl (\<lambda>d (k, v). dict_put k v d) [] kvs"

definition prepare :: "('s, 'w) lenv \<Rightarrow> ('s, 'w) execution \<Rightarrow> action_event list \<Rightarrow> (('s, 'w) lconv, action_batch) eff" where
  "prepare env tx aes0 =
     (let (aes, has_finish) = truncate_at_finish aes0 in
      ebind (partition_blocked env aes [] []) (\<lambda>(reasons, executable).
      ebind (execute_batch env tx executable) (\<lambda>results.
        eret \<lparr>ab_action_events = aes, ab_has_finish = has_finish, ab_blocked_reasons = reasons,
          ab_results_by_id = dict_of (zip (map (ev_id \<circ> fst) executable) results)\<rparr>)))"

definition emit_one :: "('s, 'w) lenv \<Rightarrow> action_batch \<Rightarrow> action_event \<Rightarrow> (('s, 'w) lconv, unit) eff" where
  "emit_one env b ae =
     (let (e, a) = ae in
      case dict_get (ab_blocked_reasons b) (ev_id e) of
        Some reason \<Rightarrow> emit env Src_Environment (UserRejectObservation
          \<lparr>obs_tool_name = act_tool_name a, obs_tool_call_id = act_tool_call_id a\<rparr> reason (ev_id e))
      | None \<Rightarrow>
          (case dict_get (ab_results_by_id b) (ev_id e) of
             None \<Rightarrow> eraise KeyError
           | Some es \<Rightarrow> efor es (on_event env)))"

definition emit_batch :: "('s, 'w) lenv \<Rightarrow> action_batch \<Rightarrow> (('s, 'w) lconv, unit) eff" where
  "emit_batch env b = efor (ab_action_events b) (emit_one env b)"

section \<open>Iterative refinement and the end of a batch\<close>

text \<open>
  The critic as the batch sees it: the limit and threshold of its refinement (\<^const>\<open>None\<close> when there is
  none), the score it gave an action event, and the prompt it asks to go on with. The counter of
  refinements is an entry of the serialised agent state.
\<close>

record critic =
  cr_max_iterations :: "int option"
  cr_success_threshold :: rat
  cr_score :: "event \<Rightarrow> rat option"
  cr_followup :: "rat \<Rightarrow> int \<Rightarrow> str"
  cr_read_iteration :: "str option \<Rightarrow> int"
  cr_write_iteration :: "str option \<Rightarrow> int \<Rightarrow> str"

definition agent_state_of :: "('s, 'w) lconv \<Rightarrow> str option" where
  "agent_state_of c = dict_get (other_fields (cs_base (lc_state c))) ''agent_state''"

definition should_refine :: "critic \<Rightarrow> rat \<Rightarrow> bool" where
  "should_refine cr score = (cr_max_iterations cr \<noteq> None \<and> score < cr_success_threshold cr)"

definition put_agent_state :: "('s, 'w) lenv \<Rightarrow> str \<Rightarrow> (('s, 'w) lconv, unit) eff" where
  "put_agent_state env v = on_state (lift_unit (set_attr (le_conv env) ''agent_state''
     (\<lambda>b. b\<lparr>other_fields := dict_put ''agent_state'' v (other_fields b)\<rparr>)))"

definition check_iterative_refinement :: "('s, 'w) lenv \<Rightarrow> critic option \<Rightarrow> event \<Rightarrow> (('s, 'w) lconv, bool \<times> str option) eff" where
  "check_iterative_refinement env cr0 e c =
     (case cr0 of
        None \<Rightarrow> eret (False, None) c
      | Some cr \<Rightarrow>
          (case cr_max_iterations cr of
             None \<Rightarrow> eret (False, None) c
           | Some max_iterations \<Rightarrow>
               let iteration = cr_read_iteration cr (agent_state_of c) in
               if iteration \<ge> max_iterations then eret (False, None) c
               else (case cr_score cr e of
                  None \<Rightarrow> eret (False, None) c
                | Some score \<Rightarrow>
                    if \<not> should_refine cr score then eret (False, None) c
                    else eseq (put_agent_state env (cr_write_iteration cr (agent_state_of c) (iteration + 1)))
                      (eret (True, Some (cr_followup cr score (iteration + 1)))) c)))"

definition finalize_batch :: "('s, 'w) lenv \<Rightarrow> critic option \<Rightarrow> action_batch \<Rightarrow> (('s, 'w) lconv, unit) eff" where
  "finalize_batch env cr b =
     (if \<not> ab_has_finish b \<or> dict_get (ab_blocked_reasons b) (ev_id (fst (last (ab_action_events b)))) \<noteq> None then eret ()
      else ebind (check_iterative_refinement env cr (fst (last (ab_action_events b)))) (\<lambda>(should_continue, followup).
        if should_continue \<and> text_given followup then emit env Src_User (MessageEvent (user_text (the followup)) [])
        else set_status env FINISHED))"

definition execute_actions ::
    "('s, 'w) lenv \<Rightarrow> ('s, 'w) execution \<Rightarrow> critic option \<Rightarrow> action_event list \<Rightarrow> (('s, 'w) lconv, unit) eff" where
  "execute_actions env tx cr aes =
     ebind (prepare env tx aes) (\<lambda>b. eseq (emit_batch env b) (finalize_batch env cr b))"

section \<open>One call, one outcome\<close>

abbreviation blocks :: "('s, 'w) lconv \<Rightarrow> str \<Rightarrow> str option" where
  "blocks c \<equiv> dict_get (blocked_actions (cs_base (lc_state c)))"

abbreviation ae_id :: "action_event \<Rightarrow> str" where
  "ae_id ae \<equiv> ev_id (fst ae)"

text \<open>What the agent builds: the body of the event, and one id for the tool call.\<close>

definition action_event_ok :: "action_event \<Rightarrow> bool" where
  "action_event_ok ae \<longleftrightarrow> ev_body (fst ae) = ActionEvent (snd ae) \<and> tc_id (act_tool_call (snd ae)) = act_tool_call_id (snd ae)"

lemma tool_error_run: "tool_error env err name i c = Some (c', r) \<Longrightarrow>
    \<exists>x. r = Inr [x] \<and> ev_body x = AgentErrorEvent \<lparr>obs_tool_name = name, obs_tool_call_id = i\<rparr> err"
  by (auto simp: tool_error_def new_event_def ebind_def eret_def)

lemma execute_action_event_one:
  assumes "execute_action_event env tx ae c = Some (c', Inr es)" "action_event_ok ae"
  shows "\<exists>x. es = [x] \<and> answers x (fst ae)"
proof -
  obtain e a where ae: "ae = (e, a)" by fastforce
  have act: "as_action e = Some a" "tc_id (act_tool_call a) = act_tool_call_id a"
    using assms(2) by (simp_all add: ae action_event_ok_def as_action_def)
  from assms(1) obtain tool where tool: "dict_get (tx_tools tx) (act_tool_name a) = Some tool"
    by (auto simp: execute_action_event_def ae eraise_def split: option.splits)
  let ?error = "\<lambda>t. tool_error env (error_executing (td_name tool) t) (td_name tool) (tc_id (act_tool_call a))"
  let ?observed = "\<lambda>(t, cs). ebind (new_event env Src_Environment
      (ObservationEvent \<lparr>obs_tool_name = td_name tool, obs_tool_call_id = tc_id (act_tool_call a)\<rparr>
        \<lparr>observation = t, obs_llm_content = cs, obs_extended_content = [], obs_action_id = ev_id e\<rparr>)) (\<lambda>x. eret [x])"
  have "ebind (try_value_error (call_tool tool (act_action a))) (case_sum ?error ?observed) c = Some (c', Inr es)"
    using assms(1) tool by (simp add: execute_action_event_def ae)
  then obtain c1 r where r: "case_sum ?error ?observed r c1 = Some (c', Inr es)" by (rule ebind_Inr)
  show ?thesis
  proof (cases r)
    case (Inl t)
    then have "?error t c1 = Some (c', Inr es)" using r by simp
    from tool_error_run[OF this] show ?thesis using act by (auto simp: answers_def ae)
  next
    case (Inr v)
    then have "?observed v c1 = Some (c', Inr es)" using r by simp
    then show ?thesis by (auto simp: answers_def ae new_event_def ebind_def eret_def split: prod.splits)
  qed
qed

lemma run_locked_Inr:
  assumes "run_locked tx ks m c = Some (c', Inr a)"
  shows "\<exists>c1 c2. m c1 = Some (c2, Inr a)"
proof -
  obtain c1 where "efinally m (tx_unlock tx ks) c1 = Some (c', Inr a)"
    using assms unfolding run_locked_def by (rule eseq_unchanged)
  then show ?thesis by (fastforce simp: efinally_def split: option.splits sum.splits)
qed

lemma run_safe_one:
  assumes "run_safe env tx ae c = Some (c', r)" "action_event_ok ae"
  shows "\<exists>x. r = Inr [x] \<and> answers x (fst ae)"
proof -
  let ?a = "snd ae" and ?runner = "execute_action_event env tx ae"
  have err: "\<exists>x. r = Inr [x] \<and> answers x (fst ae)" if "tool_error env t (act_tool_name ?a) (act_tool_call_id ?a) c1 = Some (c', r)" for t c1
    using tool_error_run[OF that] assms(2) by (auto simp: answers_def action_event_ok_def as_action_def)
  show ?thesis
  proof (cases "tx_cancelled tx c")
    case True
    then show ?thesis using assms(1) err by (simp add: run_safe_def Let_def)
  next
    case False
    let ?m = "case dict_get (tx_tools tx) (act_tool_name ?a) of
        None \<Rightarrow> ?runner
      | Some tool \<Rightarrow> ebind (lift_result (extract_declared_resources ?a tool)) (\<lambda>resources.
          let lock_keys = resolve_lock_keys resources tool in if lock_keys = [] then ?runner else run_locked tx lock_keys ?runner)"
    let ?h = "\<lambda>x. tool_error env (error_executing (act_tool_name ?a) (le_exc_text env x)) (act_tool_name ?a) (act_tool_call_id ?a)"
    have m: "\<exists>c1 c2. ?runner c1 = Some (c2, Inr v)" if "?m c0 = Some (c1, Inr v)" for c0 c1 v
      using that by (fastforce simp: Let_def elim!: ebind_Inr dest!: run_locked_Inr split: option.splits if_splits)
    have e: "ecatch ?m ?h c = Some (c', r)" using assms(1)[unfolded run_safe_def Let_def] False unfolding Let_def by (simp only: if_False)
    show ?thesis
    proof (cases "?m c")
      case (Some cr)
      obtain c1 r1 where cr: "cr = (c1, r1)" by fastforce
      show ?thesis
      proof (cases r1)
        case (Inl x)
        then have "?h x c1 = Some (c', r)" using e Some cr by (simp add: ecatch_def)
        then show ?thesis by (rule err)
      next
        case (Inr v)
        then have r: "r = Inr v" using e Some cr by (simp add: ecatch_def)
        obtain c2 c3 where "?runner c2 = Some (c3, Inr v)" using m Some cr Inr by blast
        then show ?thesis using execute_action_event_one assms(2) r by blast
      qed
    qed (use e in \<open>simp add: ecatch_def\<close>)
  qed
qed

lemma run_safe_no_raise: "run_safe env tx ae c = Some (c', Inl x) \<Longrightarrow> action_event_ok ae \<Longrightarrow> False"
  by (drule run_safe_one) auto

lemma emap_results:
  assumes "emap f xs c = Some (c', Inr ys)" "\<And>x c1 c2 y. x \<in> set xs \<Longrightarrow> f x c1 = Some (c2, Inr y) \<Longrightarrow> Q x y"
  shows "list_all2 Q xs ys"
  using assms
proof (induction xs arbitrary: c c' ys)
  case (Cons x xs)
  from Cons.prems(1) obtain c1 y where y: "f x c = Some (c1, Inr y)" "ebind (emap f xs) (\<lambda>bs. eret (y # bs)) c1 = Some (c', Inr ys)"
    by (auto elim: ebind_Inr)
  from y(2) obtain c2 zs where z: "emap f xs c1 = Some (c2, Inr zs)" "ys = y # zs" by (auto simp: eret_def elim!: ebind_Inr)
  then show ?case using Cons.IH[OF z(1)] Cons.prems(2) y(1) by auto
qed (simp add: eret_def)

definition is_order :: "nat list \<Rightarrow> nat \<Rightarrow> bool" where
  "is_order order n \<longleftrightarrow> distinct order \<and> set order = {0..<n}"

lemma is_order_length: "is_order order n \<Longrightarrow> length order = n"
  using distinct_card[of order] by (simp add: is_order_def)

lemma in_order_all:
  assumes "is_order order (length xs)" "list_all2 (\<lambda>i y. Q (xs ! i) y) order rs"
  shows "list_all2 Q xs (in_order order rs)"
proof -
  have l: "length order = length rs" "length order = length xs" using assms by (auto dest: list_all2_lengthD is_order_length)
  have "Q (xs ! i) (the (map_of (zip order rs) i))" if "i < length xs" for i
  proof -
    have "i \<in> set order" using that assms(1) by (simp add: is_order_def)
    then obtain k where k: "k < length order" "order ! k = i" unfolding in_set_conv_nth by blast
    have "map_of (zip order rs) i = Some (rs ! k)"
      using k l(1) assms(1) by (intro map_of_is_SomeI) (auto simp: is_order_def set_zip)
    then show ?thesis using assms(2) k by (auto simp: list_all2_conv_all_nth)
  qed
  then show ?thesis using l(2) by (simp add: list_all2_conv_all_nth in_order_def)
qed

lemma execute_batch_outcomes:
  assumes "execute_batch env tx aes c = Some (c', Inr rs)" "\<forall>ae \<in> set aes. action_event_ok ae"
    "\<forall>n. is_order (tx_order tx n) n"
  shows "list_all2 (\<lambda>ae es. \<exists>x. es = [x] \<and> answers x (fst ae)) aes rs"
proof -
  let ?Q = "\<lambda>ae es. \<exists>x. es = [x] \<and> answers x (fst ae)"
  have one: "?Q ae es" if "ae \<in> set aes" "run_safe env tx ae c1 = Some (c2, Inr es)" for ae c1 c2 es
    using run_safe_one[OF that(2)] that(1) assms(2) by auto
  consider "aes = []" | "aes \<noteq> []" "length aes = 1 \<or> tx_max_workers tx = 1" | "aes \<noteq> []" "\<not> (length aes = 1 \<or> tx_max_workers tx = 1)" by blast
  then show ?thesis
  proof cases
    case 2
    then have "emap (run_safe env tx) aes c = Some (c', Inr rs)" using assms(1) by (simp add: execute_batch_def)
    then show ?thesis by (rule emap_results) (rule one)
  next
    case 3
    let ?order = "tx_order tx (length aes)"
    obtain c1 rs1 where b: "emap (\<lambda>i. run_safe env tx (aes ! i)) ?order c = Some (c1, Inr rs1)" "rs = in_order ?order rs1"
      using assms(1) 3 by (auto simp: execute_batch_def Let_def eret_def elim!: ebind_Inr split: if_splits)
    have o: "is_order ?order (length aes)" using assms(3) by blast
    have "list_all2 (\<lambda>i y. ?Q (aes ! i) y) ?order rs1"
      by (rule emap_results[OF b(1)]) (use o one in \<open>auto simp: is_order_def\<close>)
    then show ?thesis unfolding b(2) by (rule in_order_all[OF o])
  qed (use assms(1) in \<open>simp add: execute_batch_def eret_def\<close>)
qed

section \<open>Blocked calls\<close>

lemma pop_blocked_run:
  assumes "on_state (lift_pair (pop_blocked_action (le_conv env) i)) c = Some (c', Inr reason)"
  shows "reason = blocks c i" "blocks c' = (blocks c)(i := None)"
proof -
  have e: "pop_blocked_action (le_conv env) i (lc_state c) = (lc_state c', Inr reason)"
    using assms by (auto simp: on_state_def on_part_def lift_pair_def split: prod.splits)
  show "reason = blocks c i" "blocks c' = (blocks c)(i := None)"
    using e by (auto simp: pop_blocked_action_def fun_eq_iff dest!: set_attr_base split: option.splits prod.splits)
qed

lemma partition_blocked_step:
  assumes "partition_blocked env (ae # aes) reasons executable c = Some (c', Inr p)"
  obtains c1 where "blocks c1 = (blocks c)(ae_id ae := None)"
    "partition_blocked env aes (case blocks c (ae_id ae) of Some r \<Rightarrow> dict_put (ae_id ae) r reasons | None \<Rightarrow> reasons)
      (case blocks c (ae_id ae) of Some r \<Rightarrow> executable | None \<Rightarrow> executable @ [ae]) c1 = Some (c', Inr p)"
proof -
  from assms obtain c1 reason where h: "on_state (lift_pair (pop_blocked_action (le_conv env) (ae_id ae))) c = Some (c1, Inr reason)"
    and k: "(case reason of Some r \<Rightarrow> partition_blocked env aes (dict_put (ae_id ae) r reasons) executable
      | None \<Rightarrow> partition_blocked env aes reasons (executable @ [ae])) c1 = Some (c', Inr p)"
    unfolding partition_blocked.simps by (rule ebind_Inr)
  from pop_blocked_run[OF h] show ?thesis using k by (intro that[of c1]) (auto split: option.splits)
qed

lemma partition_blocked_run:
  assumes "partition_blocked env aes reasons executable c = Some (c', Inr (reasons', executable'))" "distinct (map ae_id aes)"
  shows "executable' = executable @ filter (\<lambda>ae. blocks c (ae_id ae) = None) aes \<and>
    (\<forall>i. dict_get reasons' i = (if i \<in> ae_id ` set aes \<and> blocks c i \<noteq> None then blocks c i else dict_get reasons i) \<and>
      blocks c' i = (if i \<in> ae_id ` set aes then None else blocks c i))"
  using assms
proof (induction aes arbitrary: reasons executable c)
  case (Cons ae aes)
  from Cons.prems(1) obtain c1 where b: "blocks c1 = (blocks c)(ae_id ae := None)" and p: "partition_blocked env aes
      (case blocks c (ae_id ae) of Some r \<Rightarrow> dict_put (ae_id ae) r reasons | None \<Rightarrow> reasons)
      (case blocks c (ae_id ae) of Some r \<Rightarrow> executable | None \<Rightarrow> executable @ [ae]) c1 = Some (c', Inr (reasons', executable'))"
    by (rule partition_blocked_step)
  have d: "distinct (map ae_id aes)" "ae_id ae \<notin> ae_id ` set aes" using Cons.prems(2) by simp_all
  note IH = Cons.IH[OF p d(1)]
  have ne: "ae_id x \<noteq> ae_id ae" if "x \<in> set aes" for x using imageI[OF that, of ae_id] d(2) by metis
  have "filter (\<lambda>x. blocks c1 (ae_id x) = None) aes = filter (\<lambda>x. blocks c (ae_id x) = None) aes"
    by (intro filter_cong) (simp_all add: b ne)
  then have "executable' = executable @ filter (\<lambda>x. blocks c (ae_id x) = None) (ae # aes)"
    using IH by (simp split: option.splits)
  then show ?case using IH d(2) by (auto simp: b split: option.splits)
qed (simp add: eret_def)

lemma truncate_set: "set (fst (truncate_at_finish aes)) \<subseteq> set aes" "distinct (map f aes) \<Longrightarrow> distinct (map f (fst (truncate_at_finish aes)))"
  by (auto simp: truncate_at_finish_def take_map[symmetric] split: option.splits dest: in_set_takeD)

lemma dict_of_get: "distinct (map fst kvs) \<Longrightarrow> dict_get (dict_of kvs) = map_of kvs"
proof -
  have "dict_get (foldl (\<lambda>d (k, v). dict_put k v d) d kvs) = dict_get d ++ map_of (rev kvs)" for d
  proof (induction kvs arbitrary: d)
    case (Cons kv kvs)
    then show ?case by (cases kv) (simp add: map_of_append map_add_upd_left map_add_def fun_eq_iff split: option.split)
  qed simp
  from this[of "[]"] have "dict_get (dict_of kvs) = map_of (rev kvs)" by (simp add: dict_of_def)
  moreover assume "distinct (map fst kvs)"
  then have "map_of (rev kvs) = map_of kvs" by (intro map_of_inject_set[THEN iffD2]) (simp_all add: rev_map[symmetric])
  ultimately show ?thesis by simp
qed

lemma prepare_parts:
  assumes "prepare env tx aes c = Some (c', Inr b)" "distinct (map ae_id aes)"
  obtains c1 results where "partition_blocked env (fst (truncate_at_finish aes)) [] [] c =
      Some (c1, Inr (ab_blocked_reasons b, filter (\<lambda>ae. blocks c (ae_id ae) = None) (fst (truncate_at_finish aes))))"
    "execute_batch env tx (filter (\<lambda>ae. blocks c (ae_id ae) = None) (fst (truncate_at_finish aes))) c1 = Some (c', Inr results)"
    "ab_action_events b = fst (truncate_at_finish aes)" "ab_has_finish b = snd (truncate_at_finish aes)"
    "ab_results_by_id b = dict_of (zip (map ae_id (filter (\<lambda>ae. blocks c (ae_id ae) = None) (fst (truncate_at_finish aes)))) results)"
proof -
  obtain ts f where t: "truncate_at_finish aes = (ts, f)" by fastforce
  have d: "distinct (map ae_id ts)" using truncate_set(2)[OF assms(2)] t by simp
  from assms(1) obtain c1 reasons executable where p: "partition_blocked env ts [] [] c = Some (c1, Inr (reasons, executable))"
    and q: "ebind (execute_batch env tx executable) (\<lambda>results. eret \<lparr>ab_action_events = ts, ab_has_finish = f,
        ab_blocked_reasons = reasons, ab_results_by_id = dict_of (zip (map (ev_id \<circ> fst) executable) results)\<rparr>) c1 = Some (c', Inr b)"
    unfolding prepare_def t by (auto elim: ebind_Inr)
  from q obtain results where r: "execute_batch env tx executable c1 = Some (c', Inr results)"
    and b: "b = \<lparr>ab_action_events = ts, ab_has_finish = f, ab_blocked_reasons = reasons,
        ab_results_by_id = dict_of (zip (map (ev_id \<circ> fst) executable) results)\<rparr>"
    by (auto simp: eret_def elim!: ebind_Inr)
  have x: "executable = filter (\<lambda>ae. blocks c (ae_id ae) = None) ts" using partition_blocked_run[OF p d] by simp
  show ?thesis by (rule that[of c1 results]) (use p r b x t in \<open>simp_all add: comp_def\<close>)
qed

section \<open>What a prepared batch holds\<close>

lemma prepared_batch:
  assumes "prepare env tx aes c = Some (c', Inr b)" "\<forall>ae \<in> set aes. action_event_ok ae" "distinct (map ae_id aes)"
    "\<forall>n. is_order (tx_order tx n) n"
  shows "(ab_action_events b, ab_has_finish b) = truncate_at_finish aes \<and>
    (\<forall>ae \<in> set (ab_action_events b). case blocks c (ae_id ae) of
       Some reason \<Rightarrow> dict_get (ab_blocked_reasons b) (ae_id ae) = Some reason
     | None \<Rightarrow> dict_get (ab_blocked_reasons b) (ae_id ae) = None \<and>
         (\<exists>x. dict_get (ab_results_by_id b) (ae_id ae) = Some [x] \<and> answers x (fst ae))) \<and>
    dom (dict_get (ab_results_by_id b)) \<union> dom (dict_get (ab_blocked_reasons b)) = ae_id ` set (ab_action_events b)"
proof -
  let ?ts = "fst (truncate_at_finish aes)" and ?free = "\<lambda>ae. blocks c (ae_id ae) = None"
  obtain c1 results where p: "partition_blocked env ?ts [] [] c = Some (c1, Inr (ab_blocked_reasons b, filter ?free ?ts))"
    and x: "execute_batch env tx (filter ?free ?ts) c1 = Some (c', Inr results)"
    and b: "ab_action_events b = ?ts" "ab_has_finish b = snd (truncate_at_finish aes)"
      "ab_results_by_id b = dict_of (zip (map ae_id (filter ?free ?ts)) results)"
    by (rule prepare_parts[OF assms(1,3)])
  have d: "distinct (map ae_id ?ts)" by (rule truncate_set(2)[OF assms(3)])
  have reasons: "dict_get (ab_blocked_reasons b) i = (if i \<in> ae_id ` set ?ts then blocks c i else None)" for i
    using partition_blocked_run[OF p d] by auto
  have o: "list_all2 (\<lambda>ae es. \<exists>x. es = [x] \<and> answers x (fst ae)) (filter ?free ?ts) results"
    by (rule execute_batch_outcomes[OF x _ assms(4)]) (use truncate_set(1)[of aes] assms(2) in auto)
  then have l: "length results = length (filter ?free ?ts)" by (simp add: list_all2_lengthD)
  have df: "distinct (map ae_id (filter ?free ?ts))" using d by (simp add: distinct_map_filter)
  have res: "dict_get (ab_results_by_id b) = map_of (zip (map ae_id (filter ?free ?ts)) results)"
    unfolding b(3) by (rule dict_of_get) (use df l in simp)
  have one: "\<exists>x. dict_get (ab_results_by_id b) (ae_id ae) = Some [x] \<and> answers x (fst ae)" if "ae \<in> set ?ts" "?free ae" for ae
  proof -
    have "ae \<in> set (filter ?free ?ts)" using that by simp
    then obtain k where k: "k < length (filter ?free ?ts)" "filter ?free ?ts ! k = ae" unfolding in_set_conv_nth by blast
    have "(ae_id ae, results ! k) \<in> set (zip (map ae_id (filter ?free ?ts)) results)" using k l by (force simp: set_zip)
    then have "dict_get (ab_results_by_id b) (ae_id ae) = Some (results ! k)" unfolding res using df l by (intro map_of_is_SomeI) auto
    then show ?thesis using o k by (auto simp: list_all2_conv_all_nth)
  qed
  have "dom (dict_get (ab_results_by_id b)) = ae_id ` set (filter ?free ?ts)" using l by (simp add: res dom_map_of_zip)
  then have dm: "dom (dict_get (ab_results_by_id b)) \<union> dom (dict_get (ab_blocked_reasons b)) = ae_id ` set ?ts"
    by (auto simp: dom_def reasons)
  have "case blocks c (ae_id ae) of
       Some reason \<Rightarrow> dict_get (ab_blocked_reasons b) (ae_id ae) = Some reason
     | None \<Rightarrow> dict_get (ab_blocked_reasons b) (ae_id ae) = None \<and>
         (\<exists>x. dict_get (ab_results_by_id b) (ae_id ae) = Some [x] \<and> answers x (fst ae))" if "ae \<in> set ?ts" for ae
    using one[OF that] that reasons[of "ae_id ae"] by (cases "blocks c (ae_id ae)") simp_all
  then show ?thesis using dm b by simp
qed

text \<open>
  C4: one outcome per tool call, under its own call. After \<open>prepare\<close>, whatever the tools do (return,
  raise, time out on a lock, be cancelled, return something that is no observation) and in whatever order
  several workers run them, every call up to the first call of the finish tool has exactly one outcome: the
  reason of the hook that blocked it, or one event that answers this very call; later calls have none.
\<close>

theorem one_outcome_per_call:
  assumes "prepare env tx aes c = Some (c', Inr b)" "\<forall>ae \<in> set aes. action_event_ok ae" "distinct (map ae_id aes)"
    "\<forall>n. is_order (tx_order tx n) n"
  shows "(ab_action_events b, ab_has_finish b) = truncate_at_finish aes \<and>
    (\<forall>ae \<in> set (ab_action_events b). case blocks c (ae_id ae) of
       Some reason \<Rightarrow> dict_get (ab_blocked_reasons b) (ae_id ae) = Some reason
     | None \<Rightarrow> dict_get (ab_blocked_reasons b) (ae_id ae) = None \<and>
         (\<exists>x. dict_get (ab_results_by_id b) (ae_id ae) = Some [x] \<and> answers x (fst ae))) \<and>
    dom (dict_get (ab_results_by_id b)) \<union> dom (dict_get (ab_blocked_reasons b)) = ae_id ` set (ab_action_events b)"
  by (rule prepared_batch[OF assms])

text \<open>
  Three calls on the sample conversation, run last first by two workers: a tool that answers, the finish tool, which the agent
  does not have, and a call after it.
\<close>

definition sample_call :: "str \<Rightarrow> str \<Rightarrow> action_event" where
  "sample_call i name = (let a = \<lparr>thought = [], reasoning_content = None, thinking_blocks = [], reasoning_item = None, act_action = Some ''{}'',
     act_tool_name = name, act_tool_call_id = i, act_tool_call = \<lparr>tc_id = i, tc_name = name, tc_arguments = ''{}''\<rparr>, llm_response_id = ''r''\<rparr> in
     (\<lparr>ev_id = i, ev_source = Src_Agent, ev_parent_id = None, ev_body = ActionEvent a\<rparr>, a))"

definition plain_schema :: tool_schema where
  "plain_schema = \<lparr>ts_fields = [], ts_response_fields = None, ts_has_summary = False, ts_has_description = False,
     ts_read_only = False, ts_control = False\<rparr>"

definition echo_tool :: "(unit, unit) tool_definition" where
  "echo_tool = \<lparr>td_name = ''echo'', td_schema = plain_schema, td_action_from_arguments = (\<lambda>d. Inr ''{}''),
     td_resources = (\<lambda>t. Inr \<lparr>dr_declared = True, dr_keys = []\<rparr>), td_call = (\<lambda>a. eret (Observation ''ok'' []))\<rparr>"

definition sample_tx :: "(unit, unit) execution" where
  "sample_tx = \<lparr>tx_tools = [(''echo'', echo_tool)], tx_max_workers = 2, tx_cancelled = (\<lambda>c. False), tx_lock = (\<lambda>ks. eret ()),
     tx_unlock = (\<lambda>ks. eret ()), tx_order = (\<lambda>n. rev [0..<n])\<rparr>"

definition sample_calls :: "action_event list" where
  "sample_calls = [sample_call ''a'' ''echo'', sample_call ''b'' ''finish'', sample_call ''c'' ''echo'']"

lemma sample_calls_ok: "\<forall>ae \<in> set sample_calls. action_event_ok ae" "distinct (map ae_id sample_calls)"
  "is_order (tx_order sample_tx n) n"
  by (auto simp: sample_calls_def sample_call_def action_event_ok_def is_order_def sample_tx_def Let_def)

lemma sample_prepare: "\<exists>c' b. prepare (sample_lenv None) sample_tx sample_calls sample_lconv = Some (c', Inr b)"
  by (simp add: prepare_def truncate_at_finish_def sample_calls_def sample_call_def finish_tool_def sample_lconv_def null_conv_def sample_base_def
      on_state_def on_part_def lift_pair_def pop_blocked_action_def ebind_def eret_def execute_batch_def sample_tx_def in_order_def
      run_safe_def execute_action_event_def echo_tool_def try_value_error_def call_tool_def ecatch_def new_event_def eraise_def
      extract_declared_resources_def resolve_lock_keys_def lift_result_def tool_error_def Let_def sample_lenv_def)

lemma one_outcome_per_call_witness:
  "\<exists>c' b. prepare (sample_lenv None) sample_tx sample_calls sample_lconv = Some (c', Inr b) \<and>
     map ae_id (ab_action_events b) = [''a'', ''b''] \<and> ab_has_finish b \<and>
     (\<exists>x. dict_get (ab_results_by_id b) ''b'' = Some [x]) \<and> dict_get (ab_results_by_id b) ''c'' = None"
proof -
  obtain c' b where p: "prepare (sample_lenv None) sample_tx sample_calls sample_lconv = Some (c', Inr b)" using sample_prepare by blast
  have t: "truncate_at_finish sample_calls = ([sample_call ''a'' ''echo'', sample_call ''b'' ''finish''], True)" by code_simp
  have n: "blocks sample_lconv i = None" for i by (simp add: sample_lconv_def null_conv_def sample_base_def)
  have i: "ae_id (sample_call i name) = i" for i name by (simp add: sample_call_def Let_def)
  from one_outcome_per_call[OF p sample_calls_ok(1,2)] sample_calls_ok(3) t
  have "ab_action_events b = [sample_call ''a'' ''echo'', sample_call ''b'' ''finish'']" "ab_has_finish b"
    "\<exists>x. dict_get (ab_results_by_id b) ''b'' = Some [x]"
    and d: "dom (dict_get (ab_results_by_id b)) \<union> dom (dict_get (ab_blocked_reasons b)) = {''a'', ''b''}"
    by (auto simp: n i)
  note r = this
  have "''c'' \<notin> dom (dict_get (ab_results_by_id b))"
  proof
    assume "''c'' \<in> dom (dict_get (ab_results_by_id b))"
    then have "''c'' \<in> {''a'', ''b''}" unfolding d[symmetric] by (rule UnI1)
    then show False by simp
  qed
  then show ?thesis using p r by (auto simp: i)
qed

end
