(* ===== verification/Agent_Step.thy ===== *)
theory Agent_Step
  imports Tool_Execution Condenser
begin

text \<open>
  One step of the agent: \<open>Agent._step\<close> of \<open>sdk/agent/agent.py\<close> with the building of actions, the
  confirmation gate (\<open>sdk/security/confirmation_policy.py\<close>, \<open>risk.py\<close>, \<open>analyzer.py\<close>) and the dispatch of the
  response (\<open>sdk/agent/response_dispatch.py\<close>).

  The request to the LLM, the condenser's and the analyzer's answers and the masking of secrets are arguments;
  they read and change the world. Left out: the streaming slot (which only chooses the ids of events), the
  critic's evaluation when an event is built, token accounting and logging.
\<close>

section \<open>Risks and policies\<close>

definition risk_order :: "security_risk \<Rightarrow> nat" where
  "risk_order r = (case r of UNKNOWN \<Rightarrow> 0 | LOW \<Rightarrow> 1 | MEDIUM \<Rightarrow> 2 | HIGH \<Rightarrow> 3)"

definition is_riskier :: "security_risk \<Rightarrow> security_risk \<Rightarrow> bool \<Rightarrow> py_exc + bool" where
  "is_riskier r other reflexive =
     (if r = UNKNOWN \<or> other = UNKNOWN then Inl (ValueError ''Cannot compare unknown risk levels.'')
      else Inr (risk_order r > risk_order other \<or> (reflexive \<and> r = other)))"

datatype confirmation_policy = AlwaysConfirm | NeverConfirm | ConfirmRisky (threshold: security_risk) (confirm_unknown: bool)

definition validate_threshold :: "confirmation_policy \<Rightarrow> bool" where
  "validate_threshold p = (case p of ConfirmRisky t _ \<Rightarrow> t \<noteq> UNKNOWN | _ \<Rightarrow> True)"

definition should_confirm :: "confirmation_policy \<Rightarrow> security_risk \<Rightarrow> py_exc + bool" where
  "should_confirm p r =
     (case p of
        AlwaysConfirm \<Rightarrow> Inr True
      | NeverConfirm \<Rightarrow> Inr False
      | ConfirmRisky t u \<Rightarrow> if r = UNKNOWN then Inr u else is_riskier r t True)"

fun any_confirm :: "confirmation_policy \<Rightarrow> security_risk list \<Rightarrow> py_exc + bool" where
  "any_confirm p [] = Inr False"
| "any_confirm p (r # rs) = rbind (should_confirm p r) (\<lambda>b. if b then Inr True else any_confirm p rs)"

section \<open>The agent\<close>

record llm_response =
  lr_message :: message
  lr_id :: str
  lr_token_ids :: "str option"

record ('s, 'w) agent =
  ag_env :: "('s, 'w) lenv"
  ag_tx :: "('s, 'w) execution"
  ag_js :: json_runtime
  ag_shell :: shell_env
  ag_typos :: "str list"
  ag_repr_list :: "str list \<Rightarrow> str"
  ag_critic :: "critic option"
  ag_analyzer :: "(action_event \<Rightarrow> 'w \<Rightarrow> (py_exc + security_risk) \<times> 'w) option"
  ag_policy :: confirmation_policy
  ag_condenser :: "(view \<Rightarrow> 'w \<Rightarrow> (py_exc + cond_result) \<times> 'w) option"
  ag_handles_requests :: bool
  ag_generate :: "message list \<Rightarrow> 'w \<Rightarrow> (py_exc + llm_response) \<times> 'w"
  ag_return_token_ids :: bool
  ag_is_router :: bool
  ag_vision_active :: bool
  ag_model :: str
  ag_mask :: "str \<Rightarrow> 'w \<Rightarrow> str"

definition ask_world :: "('w \<Rightarrow> (py_exc + 'a) \<times> 'w) \<Rightarrow> (('s, 'w) lconv, 'a) eff" where
  "ask_world f = on_world (\<lambda>w. case f w of (r, w') \<Rightarrow> Some (w', r))"

section \<open>From a tool call to an action\<close>

datatype ('a, 'b) resolution = Tool_Unknown str | Call_Failed py_exc "jdict option" | Resolved str tool_call 'a 'b

text \<open>
  The body of the \<open>try\<close> of \<open>_get_action_event\<close>: the action, with the risk and the summary of its event; or the
  exception with the arguments as far as they were parsed.
\<close>

definition build_action ::
    "('s, 'w) agent \<Rightarrow> ('s, 'w) tool_definition \<Rightarrow> str \<Rightarrow> tool_call \<Rightarrow> jdict \<Rightarrow> (str, security_risk \<times> str) resolution" where
  "build_action ag tool name tc args1 =
     (let js = ag_js ag; schema = td_schema tool;
        args2 = fix_malformed_tool_arguments js (ag_typos ag) (ts_fields schema) args1;
        args3 = (case ts_response_fields schema of None \<Rightarrow> args2
          | Some fs \<Rightarrow> fix_malformed_tool_arguments js (ag_typos ag) fs args2);
        call = tc\<lparr>tc_name := name, tc_arguments := js_dumps js (JDict args3)\<rparr>;
        (args4, risk) = extract_security_risk js args3 (ts_read_only schema) (ag_analyzer ag \<noteq> None)
      in (case risk of
            Inl x \<Rightarrow> Call_Failed x (Some args4)
          | Inr r \<Rightarrow>
              let (args5, summary) = extract_summary js (td_name tool) schema args4 in
              (case td_action_from_arguments tool args5 of
                 Inl x \<Rightarrow> Call_Failed x (Some args5)
               | Inr action \<Rightarrow> Resolved (td_name tool) call action (r, summary))))"

definition resolve_call :: "('s, 'w) agent \<Rightarrow> tool_call \<Rightarrow> (str, security_risk \<times> str) resolution" where
  "resolve_call ag tc =
     (let js = ag_js ag; tools = tx_tools (ag_tx ag) in
      case parse_tool_call_arguments js (ag_typos ag) (tc_arguments tc) of
        Inl x \<Rightarrow> Call_Failed x None
      | Inr args0 \<Rightarrow>
          (case normalize_tool_call js (ag_shell ag) (tc_name tc) args0 (dict_keys tools) of
             Inl x \<Rightarrow> Call_Failed x (Some args0)
           | Inr (name, args1) \<Rightarrow>
               (case dict_get tools name of
                  None \<Rightarrow> Tool_Unknown name
                | Some tool \<Rightarrow> build_action ag tool name tc args1)))"

definition quoted_name :: "str \<Rightarrow> str" where
  "quoted_name n = single_quote # n @ [single_quote]"

text \<open>\<open>re.search\<close> for the name between quotes after \<open>for tool\<close>.\<close>

definition for_tool_prefix :: str where
  "for_tool_prefix = ''for tool '' @ [single_quote]"

fun match_for_tool :: "str \<Rightarrow> str option" where
  "match_for_tool [] = None"
| "match_for_tool (c # cs) =
     (let rest = drop (length for_tool_prefix) (c # cs); name = takeWhile (\<lambda>x. x \<noteq> single_quote) rest in
      if py_startswith (c # cs) for_tool_prefix \<and> name \<noteq> [] \<and> length name < length rest then Some name
      else match_for_tool cs)"

definition display_name :: "str \<Rightarrow> str \<Rightarrow> str" where
  "display_name requested err =
     (if contains ''Cannot infer'' err then (case match_for_tool err of Some n \<Rightarrow> n | None \<Rightarrow> requested) else requested)"

definition validation_error :: "('s, 'w) agent \<Rightarrow> str \<Rightarrow> str \<Rightarrow> jdict option \<Rightarrow> str" where
  "validation_error ag name err arguments =
     ''Error validating tool '' @ quoted_name name @ '': '' @ err @ ''. '' @
     (case arguments of Some d \<Rightarrow> ''Parameters provided: '' @ ag_repr_list ag (dict_keys d) | None \<Rightarrow> ''Arguments: unparseable JSON'')"

definition unknown_tool_error :: "('s, 'w) agent \<Rightarrow> str \<Rightarrow> str" where
  "unknown_tool_error ag name =
     ''Tool '' @ quoted_name name @ '' not found. Available: '' @ ag_repr_list ag (dict_keys (tx_tools (ag_tx ag)))"

text \<open>What the first action of a response carries of the message; the others carry nothing of it.\<close>

record carried =
  ca_thought :: "str list"
  ca_reasoning :: "str option"
  ca_thinking :: "str list"
  ca_item :: "str option"

definition text_parts :: "content list \<Rightarrow> str list" where
  "text_parts cs = concat (map (\<lambda>c. case c of TextContent t \<Rightarrow> [t] | ImageContent _ \<Rightarrow> []) cs)"

definition carried_of :: "message \<Rightarrow> nat \<Rightarrow> carried" where
  "carried_of msg i =
     (if i = 0 then \<lparr>ca_thought = text_parts (msg_content msg), ca_reasoning = msg_reasoning_content msg,
        ca_thinking = msg_thinking_blocks msg, ca_item = msg_reasoning_item msg\<rparr>
      else \<lparr>ca_thought = [], ca_reasoning = None, ca_thinking = [], ca_item = None\<rparr>)"

definition action_body :: "carried \<Rightarrow> str option \<Rightarrow> str \<Rightarrow> tool_call \<Rightarrow> str \<Rightarrow> action_data" where
  "action_body ca action name tc response_id =
     \<lparr>thought = ca_thought ca, reasoning_content = ca_reasoning ca, thinking_blocks = ca_thinking ca, reasoning_item = ca_item ca,
      act_action = action, act_tool_name = name, act_tool_call_id = tc_id tc, act_tool_call = tc, llm_response_id = response_id\<rparr>"

definition malformed_arguments :: "('s, 'w) agent \<Rightarrow> str \<Rightarrow> str" where
  "malformed_arguments ag err =
     js_dumps (ag_js ag) (JDict [(''_openhands_malformed_tool_call'', JBool True), (''error'', JStr err)])"

definition emit_tool_error :: "('s, 'w) agent \<Rightarrow> str \<Rightarrow> str \<Rightarrow> tool_call \<Rightarrow> carried \<Rightarrow> str \<Rightarrow> (('s, 'w) lconv, unit) eff" where
  "emit_tool_error ag err name tc0 ca response_id =
     (let tc = (if js_loads (ag_js ag) (tc_arguments tc0) = None then tc0\<lparr>tc_arguments := malformed_arguments ag err\<rparr> else tc0) in
      eseq (emit (ag_env ag) Src_Agent (ActionEvent (action_body ca None (tc_name tc) tc response_id)))
        (emit (ag_env ag) Src_Agent (AgentErrorEvent \<lparr>obs_tool_name = name, obs_tool_call_id = tc_id tc\<rparr> err)))"

definition get_action_event :: "('s, 'w) agent \<Rightarrow> tool_call \<Rightarrow> carried \<Rightarrow> str \<Rightarrow> (('s, 'w) lconv, action_event option) eff" where
  "get_action_event ag tc ca response_id =
     (case resolve_call ag tc of
        Tool_Unknown name \<Rightarrow> eseq (emit_tool_error ag (unknown_tool_error ag name) name tc ca response_id) (eret None)
      | Call_Failed (ValueError err) arguments \<Rightarrow>
          (let name = display_name (tc_name tc) err in
           eseq (emit_tool_error ag (validation_error ag name err arguments) name tc ca response_id) (eret None))
      | Call_Failed x arguments \<Rightarrow> eraise x
      | Resolved name call action _ \<Rightarrow>
          (let a = action_body ca (Some action) name call response_id in
           ebind (new_event (ag_env ag) Src_Agent (ActionEvent a)) (\<lambda>e.
           eseq (on_event (ag_env ag) e) (eret (Some (e, a))))))"

section \<open>The confirmation gate\<close>

definition is_control_action :: "('s, 'w) agent \<Rightarrow> action_event \<Rightarrow> bool" where
  "is_control_action ag ae =
     (case dict_get (tx_tools (ag_tx ag)) (act_tool_name (snd ae)) of None \<Rightarrow> False | Some tool \<Rightarrow> ts_control (td_schema tool))"

text \<open>\<open>analyze_pending_actions\<close>: an analyzer that fails counts as high risk.\<close>

definition assess_one :: "(action_event \<Rightarrow> 'w \<Rightarrow> (py_exc + security_risk) \<times> 'w) \<Rightarrow> action_event \<Rightarrow> (('s, 'w) lconv, security_risk) eff" where
  "assess_one analyzer ae = ecatch (ask_world (analyzer ae)) (\<lambda>_. eret HIGH)"

definition analyze_pending_actions ::
    "(action_event \<Rightarrow> 'w \<Rightarrow> (py_exc + security_risk) \<times> 'w) \<Rightarrow> action_event list \<Rightarrow> (('s, 'w) lconv, security_risk list) eff" where
  "analyze_pending_actions analyzer aes = emap (assess_one analyzer) aes"

definition requires_user_confirmation :: "('s, 'w) agent \<Rightarrow> action_event list \<Rightarrow> (('s, 'w) lconv, bool) eff" where
  "requires_user_confirmation ag aes =
     (if length aes = 1 \<and> is_control_action ag (hd aes) then eret False
      else if aes = [] then eret False
      else ebind (case ag_analyzer ag of
                    Some analyzer \<Rightarrow> analyze_pending_actions analyzer aes
                  | None \<Rightarrow> eret (replicate (length aes) UNKNOWN)) (\<lambda>risks.
        ebind (lift_result (any_confirm (ag_policy ag) risks)) (\<lambda>confirm.
          if confirm then eseq (set_status (ag_env ag) WAITING_FOR_CONFIRMATION) (eret True) else eret False)))"

section \<open>Dispatch of a response\<close>

datatype response_type = TOOL_CALLS | CONTENT | REASONING_ONLY | EMPTY

definition visible_text :: "content \<Rightarrow> bool" where
  "visible_text c = (case c of TextContent t \<Rightarrow> py_strip t \<noteq> '''' | ImageContent _ \<Rightarrow> False)"

definition calls_of :: "message \<Rightarrow> tool_call list" where
  "calls_of msg = (case msg_tool_calls msg of None \<Rightarrow> [] | Some tcs \<Rightarrow> tcs)"

definition classify_response :: "message \<Rightarrow> response_type" where
  "classify_response msg =
     (if calls_of msg \<noteq> [] then TOOL_CALLS
      else if list_ex visible_text (msg_content msg) then CONTENT
      else if msg_reasoning_item msg \<noteq> None \<or> msg_reasoning_content msg \<noteq> None \<or> msg_thinking_blocks msg \<noteq> [] then REASONING_ONLY
      else EMPTY)"

definition maybe_emit_vllm_tokens :: "('s, 'w) agent \<Rightarrow> llm_response \<Rightarrow> (('s, 'w) lconv, unit) eff" where
  "maybe_emit_vllm_tokens ag r =
     (if \<not> ag_return_token_ids ag then eret ()
      else case lr_token_ids r of None \<Rightarrow> eraise KeyError | Some t \<Rightarrow> emit (ag_env ag) Src_Agent (OtherEvent t))"

definition collect_action_events :: "('s, 'w) agent \<Rightarrow> llm_response \<Rightarrow> (('s, 'w) lconv, action_event list) eff" where
  "collect_action_events ag r =
     ebind (emap (\<lambda>(i, tc). get_action_event ag tc (carried_of (lr_message r) i) (lr_id r)) (enumerate 0 (calls_of (lr_message r))))
       (\<lambda>os. eret (concat (map (\<lambda>x. case x of None \<Rightarrow> [] | Some ae \<Rightarrow> [ae]) os)))"

definition run_actions :: "('s, 'w) agent \<Rightarrow> action_event list \<Rightarrow> (('s, 'w) lconv, unit) eff" where
  "run_actions ag aes = execute_actions (ag_env ag) (ag_tx ag) (ag_critic ag) aes"

definition handle_tool_calls :: "('s, 'w) agent \<Rightarrow> llm_response \<Rightarrow> (('s, 'w) lconv, unit) eff" where
  "handle_tool_calls ag r =
     ebind (collect_action_events ag r) (\<lambda>aes.
     ebind (requires_user_confirmation ag aes) (\<lambda>confirm.
       if confirm then eret ()
       else eseq (if aes = [] then eret () else run_actions ag aes) (maybe_emit_vllm_tokens ag r)))"

definition mask_secrets :: "('s, 'w) agent \<Rightarrow> message \<Rightarrow> 'w \<Rightarrow> message" where
  "mask_secrets ag msg w =
     msg\<lparr>msg_content := map (\<lambda>c. case c of TextContent t \<Rightarrow> TextContent (ag_mask ag t w) | ImageContent us \<Rightarrow> ImageContent us) (msg_content msg),
         msg_reasoning_content := (case msg_reasoning_content msg of
            Some t \<Rightarrow> if t \<noteq> '''' then Some (ag_mask ag t w) else Some t | None \<Rightarrow> None)\<rparr>"

definition emit_message_event :: "('s, 'w) agent \<Rightarrow> llm_response \<Rightarrow> (('s, 'w) lconv, unit) eff" where
  "emit_message_event ag r =
     ebind (eget (\<lambda>c. mask_secrets ag (lr_message r) (lc_world c))) (\<lambda>msg. emit (ag_env ag) Src_Agent (MessageEvent msg []))"

definition handle_content_response :: "('s, 'w) agent \<Rightarrow> llm_response \<Rightarrow> (('s, 'w) lconv, unit) eff" where
  "handle_content_response ag r =
     eseq (emit_message_event ag r) (eseq (maybe_emit_vllm_tokens ag r) (set_status (ag_env ag) FINISHED))"

definition corrective_text :: str where
  "corrective_text = ''Your last response did not include a function call or a message. Please use a tool to proceed with the task.''"

definition handle_no_content_response :: "('s, 'w) agent \<Rightarrow> llm_response \<Rightarrow> (('s, 'w) lconv, unit) eff" where
  "handle_no_content_response ag r =
     eseq (emit_message_event ag r) (eseq (maybe_emit_vllm_tokens ag r)
       (emit (ag_env ag) Src_Environment (MessageEvent (user_text corrective_text) [])))"

definition dispatch_response :: "('s, 'w) agent \<Rightarrow> llm_response \<Rightarrow> (('s, 'w) lconv, unit) eff" where
  "dispatch_response ag r =
     (case classify_response (lr_message r) of
        TOOL_CALLS \<Rightarrow> handle_tool_calls ag r
      | CONTENT \<Rightarrow> handle_content_response ag r
      | _ \<Rightarrow> handle_no_content_response ag r)"

section \<open>Images\<close>

definition has_image :: "message \<Rightarrow> bool" where
  "has_image msg = list_ex (\<lambda>c. case c of ImageContent _ \<Rightarrow> True | _ \<Rightarrow> False) (msg_content msg)"

definition latest_user_message_contains_image :: "message list \<Rightarrow> bool" where
  "latest_user_message_contains_image ms =
     (case find (\<lambda>m. msg_role m = Role_User) (rev ms) of None \<Rightarrow> False | Some m \<Rightarrow> has_image m)"

definition image_reference :: "nat \<Rightarrow> content" where
  "image_reference i = TextContent (''[Image '' @ nat_to_str i @
     '' is attached to the latest user message. Use the inspect_image_with_vision tool with image_index='' @ nat_to_str i @ '' to inspect it.]'')"

fun reference_images :: "nat \<Rightarrow> content list \<Rightarrow> content list" where
  "reference_images k [] = []"
| "reference_images k (TextContent t # cs) = TextContent t # reference_images k cs"
| "reference_images k (ImageContent us # cs) = map image_reference [k..<k + length us] @ reference_images (k + length us) cs"

fun rewrite_latest :: "message list \<Rightarrow> message list" where
  "rewrite_latest [] = []"
| "rewrite_latest (m # ms) =
     (if msg_role m = Role_User \<and> has_image m then m\<lparr>msg_content := reference_images 0 (msg_content m)\<rparr> # ms
      else m # rewrite_latest ms)"

definition replace_latest_user_images_with_references :: "message list \<Rightarrow> message list" where
  "replace_latest_user_images_with_references ms = rev (rewrite_latest (rev ms))"

definition should_handle_non_multimodal_image_input :: "('s, 'w) agent \<Rightarrow> message list \<Rightarrow> bool" where
  "should_handle_non_multimodal_image_input ag ms =
     (\<not> ag_is_router ag \<and> latest_user_message_contains_image ms \<and> \<not> ag_vision_active ag)"

definition non_multimodal_image_message :: "str \<Rightarrow> message" where
  "non_multimodal_image_message model = plain_message Role_Assistant [TextContent
     (''I received your image, but the currently selected model ('' @ model @
      '') does not support image understanding. Please switch to a multimodal model to analyze the image.'')]"

definition vision_tool :: str where
  "vision_tool = ''inspect_image_with_vision''"

section \<open>The step\<close>

definition current_view :: "('s, 'w) lenv \<Rightarrow> (('s, 'w) lconv, view) eff" where
  "current_view env = on_state (lift_fuel (conv_view (le_conv env)))"

text \<open>\<open>prepare_llm_messages\<close>: the messages of the view, or the condensation to process first.\<close>

definition prepare_llm_messages :: "('s, 'w) agent \<Rightarrow> (('s, 'w) lconv, message list + condensation_data) eff" where
  "prepare_llm_messages ag =
     ebind (current_view (ag_env ag)) (\<lambda>v.
     ebind (case ag_condenser ag of None \<Rightarrow> eret (Result_View v) | Some condense \<Rightarrow> ask_world (condense v)) (\<lambda>r.
       case r of
         Result_Condensation d \<Rightarrow> eret (Inr d)
       | Result_View v' \<Rightarrow> ebind (lift_result (events_to_messages (events v'))) (\<lambda>ms. eret (Inl ms))))"

definition policy_violation_text :: str where
  "policy_violation_text = ''Your previous response was blocked by the model's content filter. Please continue, rephrasing to avoid the flagged content.''"

definition can_condense :: "('s, 'w) agent \<Rightarrow> bool" where
  "can_condense ag \<longleftrightarrow> ag_condenser ag \<noteq> None \<and> ag_handles_requests ag"

definition llm_failed :: "('s, 'w) agent \<Rightarrow> py_exc \<Rightarrow> (('s, 'w) lconv, unit) eff" where
  "llm_failed ag x =
     (let env = ag_env ag; request = emit env Src_Environment CondensationRequest in
      case x of
        FunctionCallValidationError t \<Rightarrow> emit env Src_User (MessageEvent (user_text t) [])
      | LLMContentPolicyViolationError t \<Rightarrow> emit env Src_User (MessageEvent (user_text policy_violation_text) [])
      | LLMMalformedConversationHistoryError t \<Rightarrow>
          if can_condense ag then eseq (ebind (on_state (lift_fuel (rebuild_view (le_conv env)))) (\<lambda>_. eret ())) request else eraise x
      | LLMContextWindowExceedError t \<Rightarrow> if can_condense ag then request else eraise x
      | _ \<Rightarrow> eraise x)"

definition ask_llm :: "('s, 'w) agent \<Rightarrow> message list \<Rightarrow> (('s, 'w) lconv, unit) eff" where
  "ask_llm ag ms =
     ebind (from_world (ag_generate ag ms)) (\<lambda>r. case r of Inl x \<Rightarrow> llm_failed ag x | Inr response \<Rightarrow> dispatch_response ag response)"

definition sample_llm :: "('s, 'w) agent \<Rightarrow> (('s, 'w) lconv, unit) eff" where
  "sample_llm ag =
     ebind (prepare_llm_messages ag) (\<lambda>r.
       case r of
         Inr d \<Rightarrow> emit (ag_env ag) Src_Environment (Condensation d)
       | Inl ms \<Rightarrow>
           if should_handle_non_multimodal_image_input ag ms then
             (if vision_tool \<in> set (dict_keys (tx_tools (ag_tx ag)))
              then ask_llm ag (replace_latest_user_images_with_references ms)
              else eseq (emit (ag_env ag) Src_Agent (MessageEvent (non_multimodal_image_message (ag_model ag)) []))
                (set_status (ag_env ag) FINISHED))
           else ask_llm ag ms)"

definition action_events :: "event list \<Rightarrow> action_event list" where
  "action_events es = List.map_filter (\<lambda>e. map_option (Pair e) (as_action e)) es"

definition pop_last_message_block :: "('s, 'w) lenv \<Rightarrow> (('s, 'w) lconv, str option) eff" where
  "pop_last_message_block env =
     ebind (eget (\<lambda>c. last_user_message_id (cs_base (lc_state c)))) (\<lambda>l. case l of
       None \<Rightarrow> eret None
     | Some i \<Rightarrow> on_state (lift_pair (pop_blocked_message (le_conv env) i)))"

definition agent_step :: "('s, 'w) agent \<Rightarrow> (('s, 'w) lconv, unit) eff" where
  "agent_step ag =
     ebind (branch_now (ag_env ag) None) (\<lambda>es.
       let pending = get_unmatched_actions es in
       if pending \<noteq> [] then run_actions ag (action_events pending)
       else ebind (pop_last_message_block (ag_env ag)) (\<lambda>reason.
         case reason of
           Some r \<Rightarrow> set_status (ag_env ag) FINISHED
         | None \<Rightarrow> sample_llm ag))"

end
