(* ===== verification/Agent_Safety.thy ===== *)
theory Agent_Safety
  imports Agent_Step
begin

text \<open>
  What the gates in front of the tools guarantee. That a tool is not called is stated as independence: the
  agent with the calls of some tools replaced by any others behaves the same.
\<close>

section \<open>Agents that differ in the calls of their tools\<close>

definition replace_calls ::
    "(str \<Rightarrow> (str option \<Rightarrow> (('s, 'w) lconv, tool_value) eff) \<Rightarrow> str option \<Rightarrow> (('s, 'w) lconv, tool_value) eff) \<Rightarrow> ('s, 'w) agent \<Rightarrow> ('s, 'w) agent" where
  "replace_calls f ag = ag\<lparr>ag_tx := (ag_tx ag)\<lparr>tx_tools :=
     map (\<lambda>(n, t). (n, t\<lparr>td_call := f n (td_call t)\<rparr>)) (tx_tools (ag_tx ag))\<rparr>\<rparr>"

lemma replaced_fields [simp]:
  "ag_env (replace_calls f ag) = ag_env ag" "ag_js (replace_calls f ag) = ag_js ag" "ag_shell (replace_calls f ag) = ag_shell ag"
  "ag_typos (replace_calls f ag) = ag_typos ag" "ag_repr_list (replace_calls f ag) = ag_repr_list ag" "ag_critic (replace_calls f ag) = ag_critic ag"
  "ag_analyzer (replace_calls f ag) = ag_analyzer ag" "ag_policy (replace_calls f ag) = ag_policy ag"
  "ag_return_token_ids (replace_calls f ag) = ag_return_token_ids ag"
  "tx_max_workers (ag_tx (replace_calls f ag)) = tx_max_workers (ag_tx ag)" "tx_order (ag_tx (replace_calls f ag)) = tx_order (ag_tx ag)"
  "tx_cancelled (ag_tx (replace_calls f ag)) = tx_cancelled (ag_tx ag)" "tx_lock (ag_tx (replace_calls f ag)) = tx_lock (ag_tx ag)"
  "tx_unlock (ag_tx (replace_calls f ag)) = tx_unlock (ag_tx ag)"
  "dict_keys (tx_tools (ag_tx (replace_calls f ag))) = dict_keys (tx_tools (ag_tx ag))"
  by (simp_all add: replace_calls_def comp_def case_prod_beta)

lemma replaced_tool: "dict_get (tx_tools (ag_tx (replace_calls f ag))) n =
    map_option (\<lambda>t. t\<lparr>td_call := f n (td_call t)\<rparr>) (dict_get (tx_tools (ag_tx ag)) n)"
proof -
  have "map_of (map (\<lambda>(n, t). (n, t\<lparr>td_call := f n (td_call t)\<rparr>)) kvs) n = map_option (\<lambda>t. t\<lparr>td_call := f n (td_call t)\<rparr>) (map_of kvs n)" for kvs
    by (induction kvs) auto
  then show ?thesis by (simp add: replace_calls_def)
qed

lemma replaced_build: "build_action (replace_calls f ag) (t\<lparr>td_call := g\<rparr>) = build_action ag t"
proof -
  have t: "td_schema (t\<lparr>td_call := g\<rparr>) = td_schema t" "td_name (t\<lparr>td_call := g\<rparr>) = td_name t"
    "td_action_from_arguments (t\<lparr>td_call := g\<rparr>) = td_action_from_arguments t" by simp_all
  show ?thesis by (intro ext) (simp only: build_action_def replaced_fields t)
qed

lemma replaced_resolve [simp]: "resolve_call (replace_calls f ag) tc = resolve_call ag tc"
proof -
  have lookup: "(case dict_get (tx_tools (ag_tx (replace_calls f ag))) name of None \<Rightarrow> Tool_Unknown name
        | Some tool \<Rightarrow> build_action (replace_calls f ag) tool name tc args1) =
      (case dict_get (tx_tools (ag_tx ag)) name of None \<Rightarrow> Tool_Unknown name | Some tool \<Rightarrow> build_action ag tool name tc args1)" for name args1
    by (cases "dict_get (tx_tools (ag_tx ag)) name") (simp_all add: replaced_tool replaced_build)
  show ?thesis by (simp only: resolve_call_def Let_def replaced_fields lookup)
qed

lemma replaced_errors [simp]:
  "malformed_arguments (replace_calls f ag) = malformed_arguments ag" "unknown_tool_error (replace_calls f ag) = unknown_tool_error ag"
  "validation_error (replace_calls f ag) = validation_error ag" "emit_tool_error (replace_calls f ag) = emit_tool_error ag"
proof -
  show m: "malformed_arguments (replace_calls f ag) = malformed_arguments ag" by (rule ext) (simp add: malformed_arguments_def)
  show "unknown_tool_error (replace_calls f ag) = unknown_tool_error ag" by (rule ext) (simp add: unknown_tool_error_def)
  show "validation_error (replace_calls f ag) = validation_error ag" by (intro ext) (simp only: validation_error_def replaced_fields cong: option.case_cong)
  show "emit_tool_error (replace_calls f ag) = emit_tool_error ag" by (intro ext) (simp add: emit_tool_error_def m)
qed

lemma replaced_get_action_event [simp]: "get_action_event (replace_calls f ag) = get_action_event ag"
  by (intro ext) (simp only: get_action_event_def replaced_errors replaced_resolve replaced_fields)

lemma replaced_collect [simp]: "collect_action_events (replace_calls f ag) r = collect_action_events ag r"
  by (simp add: collect_action_events_def)

lemma replaced_control [simp]: "is_control_action (replace_calls f ag) ae = is_control_action ag ae"
  by (simp add: is_control_action_def replaced_tool split: option.split)

lemma replaced_confirmation [simp]: "requires_user_confirmation (replace_calls f ag) aes = requires_user_confirmation ag aes"
  by (simp only: requires_user_confirmation_def replaced_fields replaced_control)

lemma replaced_tokens [simp]: "maybe_emit_vllm_tokens (replace_calls f ag) r = maybe_emit_vllm_tokens ag r"
  by (simp only: maybe_emit_vllm_tokens_def replaced_fields)

text \<open>A call whose tool is not replaced runs the same, and so does a batch whose replaced calls are all blocked.\<close>

lemma replaced_run_safe:
  assumes "\<And>t. dict_get (tx_tools (ag_tx ag)) (act_tool_name (snd ae)) = Some t \<Longrightarrow> f (act_tool_name (snd ae)) (td_call t) = td_call t"
  shows "run_safe env (ag_tx (replace_calls f ag)) ae = run_safe env (ag_tx ag) ae"
proof -
  have t: "dict_get (tx_tools (ag_tx (replace_calls f ag))) (act_tool_name (snd ae)) = dict_get (tx_tools (ag_tx ag)) (act_tool_name (snd ae))"
    using assms by (cases "dict_get (tx_tools (ag_tx ag)) (act_tool_name (snd ae))") (simp_all add: replaced_tool)
  have x: "execute_action_event env (ag_tx (replace_calls f ag)) ae = execute_action_event env (ag_tx ag) ae"
    using t by (cases ae) (simp only: execute_action_event_def Let_def prod.case snd_conv)
  show ?thesis by (rule ext) (simp only: run_safe_def Let_def t x run_locked_def replaced_fields)
qed

lemma emap_cong: "(\<And>x. x \<in> set xs \<Longrightarrow> f x = g x) \<Longrightarrow> emap f xs = emap g xs"
  by (induction xs) simp_all

lemma execute_batch_cong:
  assumes "\<And>ae. ae \<in> set aes \<Longrightarrow> run_safe env tx' ae = run_safe env tx ae" "tx_max_workers tx' = tx_max_workers tx"
    "tx_order tx' = tx_order tx" "\<forall>n. is_order (tx_order tx n) n"
  shows "execute_batch env tx' aes = execute_batch env tx aes"
proof -
  have "emap (run_safe env tx') aes = emap (run_safe env tx) aes" by (rule emap_cong) (rule assms(1))
  moreover have "emap (\<lambda>i. run_safe env tx' (aes ! i)) (tx_order tx (length aes)) = emap (\<lambda>i. run_safe env tx (aes ! i)) (tx_order tx (length aes))"
    by (rule emap_cong) (use assms(1,4) in \<open>auto simp: is_order_def\<close>)
  ultimately show ?thesis by (simp add: execute_batch_def assms(2,3))
qed

lemma prepare_cong:
  assumes "\<And>ae. ae \<in> set aes \<Longrightarrow> blocks c (ae_id ae) = None \<Longrightarrow> run_safe env tx' ae = run_safe env tx ae"
    "tx_max_workers tx' = tx_max_workers tx" "tx_order tx' = tx_order tx" "\<forall>n. is_order (tx_order tx n) n" "distinct (map ae_id aes)"
  shows "prepare env tx' aes c = prepare env tx aes c"
proof -
  obtain ts b where t: "truncate_at_finish aes = (ts, b)" by fastforce
  have d: "distinct (map ae_id ts)" using truncate_set(2)[OF assms(5)] t by simp
  have "execute_batch env tx' (snd p) = execute_batch env tx (snd p)" if p: "partition_blocked env ts [] [] c = Some (c1, Inr p)" for c1 p
  proof -
    have "snd p = filter (\<lambda>ae. blocks c (ae_id ae) = None) ts"
      using partition_blocked_run[of env ts "[]" "[]" c c1 "fst p" "snd p"] p d by simp
    moreover have "set ts \<subseteq> set aes" using truncate_set(1)[of aes] t by simp
    ultimately show ?thesis by (intro execute_batch_cong[OF _ assms(2-4)] assms(1)) auto
  qed
  then show ?thesis
    unfolding prepare_def t by (auto simp: ebind_def split: option.split sum.split)
qed

section \<open>The confirmation gate\<close>

text \<open>The risks an action can be given: unknown without an analyzer, and high when the analyzer fails.\<close>

definition possible_risk :: "('s, 'w) agent \<Rightarrow> security_risk \<Rightarrow> bool" where
  "possible_risk ag r \<longleftrightarrow>
     (case ag_analyzer ag of
        None \<Rightarrow> r = UNKNOWN
      | Some analyzer \<Rightarrow> (\<exists>ae w. fst (analyzer ae w) = Inr r \<or> (\<exists>x. fst (analyzer ae w) = Inl x) \<and> r = HIGH))"

lemma assess_one_possible:
  assumes "ag_analyzer ag = Some analyzer" "assess_one analyzer ae c = Some (c', r)"
  shows "\<exists>v. r = Inr v \<and> possible_risk ag v"
proof -
  obtain q w' where a: "analyzer ae (lc_world c) = (q, w')" by fastforce
  show ?thesis
  proof (cases q)
    case (Inl x)
    have "fst (analyzer ae (lc_world c)) = Inl x" using a Inl by simp
    then have "possible_risk ag HIGH" unfolding possible_risk_def assms(1) option.case by blast
    then show ?thesis using assms(2) a Inl by (auto simp: assess_one_def ask_world_def on_world_def on_part_def ecatch_def eret_def)
  next
    case (Inr v)
    have "fst (analyzer ae (lc_world c)) = Inr v" using a Inr by simp
    then have "possible_risk ag v" unfolding possible_risk_def assms(1) option.case by blast
    then show ?thesis using assms(2) a Inr by (auto simp: assess_one_def ask_world_def on_world_def on_part_def ecatch_def eret_def)
  qed
qed

lemma confirmation_asked:
  assumes "\<forall>r. possible_risk ag r \<longrightarrow> should_confirm (ag_policy ag) r = Inr True"
    "requires_user_confirmation ag aes c = Some (c', Inr b)" "aes \<noteq> []" "\<not> (length aes = 1 \<and> is_control_action ag (hd aes))"
  shows "b"
proof -
  let ?risks = "case ag_analyzer ag of Some analyzer \<Rightarrow> analyze_pending_actions analyzer aes | None \<Rightarrow> eret (replicate (length aes) UNKNOWN)"
  obtain c1 risks where r: "?risks c = Some (c1, Inr risks)" and k: "ebind (lift_result (any_confirm (ag_policy ag) risks)) (\<lambda>confirm.
      if confirm then eseq (set_status (ag_env ag) WAITING_FOR_CONFIRMATION) (eret True) else eret False) c1 = Some (c', Inr b)"
    using assms(2-4) by (auto simp: requires_user_confirmation_def elim: ebind_Inr split: if_splits)
  have "list_all2 (\<lambda>ae v. possible_risk ag v) aes risks"
  proof (cases "ag_analyzer ag")
    case None
    then show ?thesis using r by (auto simp: eret_def list_all2_conv_all_nth possible_risk_def)
  next
    case (Some analyzer)
    have "emap (assess_one analyzer) aes c = Some (c1, Inr risks)" using r Some by (simp add: analyze_pending_actions_def)
    then show ?thesis by (rule emap_results) (use assess_one_possible[OF Some] in fastforce)
  qed
  then obtain v vs where "risks = v # vs" "possible_risk ag v" using assms(3) by (cases aes) (auto simp: list_all2_Cons1)
  then have "any_confirm (ag_policy ag) risks = Inr True" using assms(1) by simp
  then show ?thesis using k by (auto simp: lift_result_def eret_def elim: eseq_unchanged)
qed

text \<open>
  C3: the confirmation gate. Under a policy that asks for every risk the agent can assess (always confirm, or
  risky actions with an analyzer that rates every action high or fails), the step that receives tool calls
  executes no tool but the agent's own finish and think: it behaves the same whatever the other tools do.
\<close>

theorem confirmation_gate:
  assumes "\<forall>r. possible_risk ag r \<longrightarrow> should_confirm (ag_policy ag) r = Inr True"
    "\<forall>n t. dict_get (tx_tools (ag_tx ag)) n = Some t \<and> ts_control (td_schema t) \<longrightarrow> f n (td_call t) = td_call t"
    "\<forall>n. is_order (tx_order (ag_tx ag) n) n"
  shows "handle_tool_calls (replace_calls f ag) r c = handle_tool_calls ag r c"
proof -
  have run: "run_actions (replace_calls f ag) [ae] = run_actions ag [ae]" if "is_control_action ag ae" for ae
  proof -
    have "run_safe (ag_env ag) (ag_tx (replace_calls f ag)) ae = run_safe (ag_env ag) (ag_tx ag) ae"
      using that assms(2) by (intro replaced_run_safe) (auto simp: is_control_action_def)
    then have "prepare (ag_env ag) (ag_tx (replace_calls f ag)) [ae] c = prepare (ag_env ag) (ag_tx ag) [ae] c" for c
      by (intro prepare_cong) (use assms(3) in auto)
    then have "prepare (ag_env ag) (ag_tx (replace_calls f ag)) [ae] = prepare (ag_env ag) (ag_tx ag) [ae]" by (rule ext)
    then show ?thesis by (simp add: run_actions_def execute_actions_def)
  qed
  have same: "ebind (requires_user_confirmation ag aes) (\<lambda>confirm. if confirm then eret ()
      else eseq (if aes = [] then eret () else run_actions (replace_calls f ag) aes) (maybe_emit_vllm_tokens ag r)) c1 =
    ebind (requires_user_confirmation ag aes) (\<lambda>confirm. if confirm then eret ()
      else eseq (if aes = [] then eret () else run_actions ag aes) (maybe_emit_vllm_tokens ag r)) c1" for aes c1
  proof (cases "aes = [] \<or> length aes = 1 \<and> is_control_action ag (hd aes)")
    case True
    then have "aes \<noteq> [] \<Longrightarrow> run_actions (replace_calls f ag) aes = run_actions ag aes" using run by (cases aes) auto
    then have e: "(if aes = [] then eret () else run_actions (replace_calls f ag) aes) = (if aes = [] then eret () else run_actions ag aes)" by simp
    show ?thesis by (simp only: e)
  next
    case False
    then have "b" if "requires_user_confirmation ag aes c1 = Some (c2, Inr b)" for c2 b using confirmation_asked[OF assms(1) that] by blast
    then show ?thesis by (auto simp: ebind_def split: option.split sum.split)
  qed
  show ?thesis
    unfolding handle_tool_calls_def replaced_collect replaced_confirmation replaced_tokens
    by (rule fun_cong, rule arg_cong[of _ _ "ebind _"], intro ext) (rule same)
qed

section \<open>A sample agent\<close>

text \<open>An agent with one tool, on the sample conversation, and a response that calls the tool twice.\<close>

definition sample_agent :: "unit hook_manager option \<Rightarrow> confirmation_policy \<Rightarrow> (unit, unit) agent" where
  "sample_agent hooks policy = \<lparr>ag_env = sample_lenv hooks, ag_tx = sample_tx, ag_js = text_json\<lparr>js_loads := (\<lambda>s. Some (JDict []))\<rparr>,
     ag_shell = ripgrep_env, ag_typos = security_risk_typos, ag_repr_list = concat, ag_critic = None, ag_analyzer = None, ag_policy = policy,
     ag_condenser = None, ag_handles_requests = False, ag_generate = (\<lambda>ms w. (Inl (LLMError ''none''), w)), ag_return_token_ids = False,
     ag_is_router = False, ag_vision_active = True, ag_model = ''m'', ag_mask = (\<lambda>t w. t)\<rparr>"

definition echo_twice :: llm_response where
  "echo_twice = \<lparr>lr_message = (plain_message Role_Assistant [])\<lparr>msg_tool_calls := Some
     [\<lparr>tc_id = ''1'', tc_name = ''echo'', tc_arguments = ''{}''\<rparr>, \<lparr>tc_id = ''2'', tc_name = ''echo'', tc_arguments = ''{}''\<rparr>]\<rparr>,
     lr_id = ''r'', lr_token_ids = None\<rparr>"

definition break_echo :: "str \<Rightarrow> (str option \<Rightarrow> ((unit, unit) lconv, tool_value) eff) \<Rightarrow> str option \<Rightarrow> ((unit, unit) lconv, tool_value) eff" where
  "break_echo n = (if n = ''echo'' then (\<lambda>call a. eraise (RuntimeError ''called'')) else id)"

lemma sample_agent_order: "is_order (tx_order (ag_tx (sample_agent h p)) n) n"
  by (simp add: sample_agent_def sample_calls_ok(3))

lemma confirmation_gate_witness:
  "handle_tool_calls (replace_calls break_echo (sample_agent None (ConfirmRisky HIGH True))) echo_twice sample_lconv =
   handle_tool_calls (sample_agent None (ConfirmRisky HIGH True)) echo_twice sample_lconv"
proof (rule confirmation_gate)
  show "\<forall>r. possible_risk (sample_agent None (ConfirmRisky HIGH True)) r \<longrightarrow>
      should_confirm (ag_policy (sample_agent None (ConfirmRisky HIGH True))) r = Inr True"
    by (simp add: possible_risk_def sample_agent_def should_confirm_def)
  show "\<forall>n t. dict_get (tx_tools (ag_tx (sample_agent None (ConfirmRisky HIGH True)))) n = Some t \<and> ts_control (td_schema t) \<longrightarrow>
      break_echo n (td_call t) = td_call t"
    by (auto simp: sample_agent_def sample_tx_def echo_tool_def plain_schema_def)
qed (simp add: sample_agent_order)

section \<open>Events never unblock a call\<close>

definition kept :: "('s, 'w) lconv \<Rightarrow> ('s, 'w) lconv \<Rightarrow> bool" where
  "kept c c' \<longleftrightarrow> (\<forall>k. blocks c k \<noteq> None \<longrightarrow> blocks c' k \<noteq> None) \<and> lc_ids c \<le> lc_ids c'"

lemma kept_rel [simp]: "reflp kept" "transp kept"
  by (auto simp: kept_def intro!: reflpI transpI)

lemmas kept_intros = keeps_ret[OF kept_rel(1)] keeps_bind[OF kept_rel(2)] keeps_seq[OF kept_rel(2)] keeps_for[OF kept_rel]
  keeps_catch[OF kept_rel(2)] keeps_map[OF kept_rel]

lemma kept_on_state:
  assumes "\<And>st st' r k. m st = Some (st', r) \<Longrightarrow> dict_get (blocked_actions (cs_base st)) k \<noteq> None \<Longrightarrow> dict_get (blocked_actions (cs_base st')) k \<noteq> None"
  shows "keeps kept (on_state m)"
  unfolding keeps_def
proof (intro allI impI)
  fix c c' r
  assume "on_state m c = Some (c', r)"
  then obtain st' where m: "m (lc_state c) = Some (st', r)" "c' = c\<lparr>lc_state := st'\<rparr>"
    by (auto simp: on_state_def on_part_def split: option.splits)
  show "kept c c'" unfolding kept_def m(2) using assms[OF m(1)] by simp
qed

lemma kept_core: "(\<And>st st' r. m st = Some (st', r) \<Longrightarrow> core_of (cs_base st') = core_of (cs_base st)) \<Longrightarrow> keeps kept (on_state m)"
  by (rule kept_on_state) (simp add: core_of_def)

lemma kept_world: "keeps kept (on_world m)" "keeps kept (from_world g)" "keeps kept (new_event env src body)"
  by (auto simp: keeps_def kept_def on_world_def from_world_def on_part_def new_event_def split: option.splits prod.splits)

lemma kept_parts:
  "keeps kept (on_state (lift_sum (stamp_parent_id env e)))" "keeps kept (on_state (lift_pair (conv_append_event env e)))"
  "keeps kept (on_state (lift_sum (get_item env i)))"
  by (rule kept_core, auto simp: lift_sum_def lift_pair_def stamp_parent_id_base conv_append_event_core get_item_base split: sum.splits)+

lemma kept_set_attr:
  "(\<And>b k. dict_get (blocked_actions b) k \<noteq> None \<Longrightarrow> dict_get (blocked_actions (upd b)) k \<noteq> None) \<Longrightarrow>
    keeps kept (on_state (lift_unit (set_attr env n upd)))"
  by (rule kept_on_state) (auto simp: lift_unit_def dest!: set_attr_base split: prod.splits option.splits)

lemma kept_base_callback: "keeps kept (base_callback env e)"
  unfolding base_callback_def default_callback_def
  by (auto intro!: kept_intros kept_set_attr intro: kept_world kept_parts)

lemma kept_hook_events: "keeps kept (emit_hook_events env hs rs l)"
  unfolding emit_hook_events_def emit_hook_execution_event_def
  by (auto intro!: kept_intros kept_base_callback intro: kept_world)

lemma kept_hooked: "keeps kept (hooked_callback env mg e)"
proof -
  have pre: "keeps kept (handle_pre_tool_use env mg e a)" for a
    unfolding handle_pre_tool_use_def Let_def block_action_def
    by (auto intro!: kept_intros kept_set_attr kept_hook_events intro: kept_world split: prod.split)
  have post: "keeps kept (handle_post_tool_use env mg b d)" for b d
    unfolding handle_post_tool_use_def action_of_observation_def Let_def
    by (auto intro!: kept_intros kept_hook_events intro: kept_world kept_parts split: option.split sum.split)
  have prompt: "keeps kept (handle_user_prompt_submit env mg e msg ext)" for msg ext
    unfolding handle_user_prompt_submit_def Let_def block_message_def
    by (auto intro!: kept_intros kept_set_attr kept_hook_events intro: kept_world split: prod.split)
  show ?thesis unfolding hooked_callback_def
    by (intro kept_intros kept_base_callback; cases "ev_body e") (auto intro!: kept_intros intro: pre post prompt)
qed

lemma kept_on_event: "keeps kept (on_event env e)"
  unfolding on_event_def
proof (intro kept_intros kept_parts)
  show "keeps kept (maybe_inject_path_rules env a)" for a
    unfolding maybe_inject_path_rules_def by (cases "ev_body a") (auto intro!: kept_intros intro: kept_world)
qed (auto intro: kept_base_callback kept_hooked split: option.split)

lemma kept_emit: "keeps kept (emit env src body)"
  unfolding emit_def by (intro kept_intros kept_on_event kept_world)

section \<open>Denied calls\<close>

text \<open>What collecting the actions of a response establishes: fresh, distinct ids, and a block for every call of a denied tool.\<close>

definition fresh_calls :: "('s, 'w) lenv \<Rightarrow> str \<Rightarrow> nat \<Rightarrow> ('s, 'w) lconv \<Rightarrow> action_event list \<Rightarrow> bool" where
  "fresh_calls env n k c aes \<longleftrightarrow>
     distinct (map ae_id aes) \<and> (\<forall>ae \<in> set aes. \<exists>i. k \<le> i \<and> i < lc_ids c \<and> ae_id ae = le_new_id env i) \<and>
     (\<forall>ae \<in> set aes. act_tool_name (snd ae) = n \<longrightarrow> blocks c (ae_id ae) \<noteq> None)"

definition always_denied :: "'w hook_manager \<Rightarrow> str \<Rightarrow> bool" where
  "always_denied mg n \<longleftrightarrow> (\<forall>input w. \<not> fst (fst (run_pre_tool_use mg n input w)))"

lemma get_action_event_fresh:
  assumes "get_action_event ag tc ca rid c = Some (c', Inr out)" "le_hooks (ag_env ag) = Some mg" "always_denied mg n"
  shows "kept c c' \<and> fresh_calls (ag_env ag) n (lc_ids c) c' (case out of None \<Rightarrow> [] | Some ae \<Rightarrow> [ae])"
proof (cases "resolve_call ag tc")
  case (Tool_Unknown x)
  have "keeps kept (get_action_event ag tc ca rid)"
    unfolding get_action_event_def Tool_Unknown emit_tool_error_def Let_def resolution.case by (intro kept_intros kept_emit)
  from keepsD[OF this assms(1)] show ?thesis using assms(1) Tool_Unknown
    by (auto simp: get_action_event_def fresh_calls_def eret_def elim!: eseq_unchanged)
next
  case (Call_Failed x args)
  have "keeps kept (get_action_event ag tc ca rid)"
    unfolding get_action_event_def Call_Failed emit_tool_error_def Let_def resolution.case
    by (cases x) (auto intro!: kept_intros kept_emit)
  moreover have "out = None" using assms(1) Call_Failed
    by (cases x) (auto simp: get_action_event_def eret_def eraise_def Let_def elim!: eseq_unchanged)
  ultimately show ?thesis using keepsD[of kept "get_action_event ag tc ca rid", OF _ assms(1)] by (simp add: fresh_calls_def)
next
  case (Resolved name call action x)
  let ?env = "ag_env ag" and ?a = "action_body ca (Some action) name call rid"
  let ?e = "\<lparr>ev_id = le_new_id ?env (lc_ids c), ev_source = Src_Agent, ev_parent_id = None, ev_body = ActionEvent ?a\<rparr>"
  from assms(1) Resolved have "eseq (on_event ?env ?e) (eret (Some (?e, ?a))) (c\<lparr>lc_ids := lc_ids c + 1\<rparr>) = Some (c', Inr out)"
    by (simp add: get_action_event_def Let_def new_event_def ebind_def)
  then obtain u where e: "on_event ?env ?e (c\<lparr>lc_ids := lc_ids c + 1\<rparr>) = Some (c', Inr u)" and o: "out = Some (?e, ?a)"
    by (auto simp: eret_def elim!: eseq_unchanged)
  have k: "kept (c\<lparr>lc_ids := lc_ids c + 1\<rparr>) c'" by (rule keepsD[OF kept_on_event e])
  have b: "blocks c' (ev_id ?e) \<noteq> None" if "name = n"
  proof -
    obtain rs w' where "run_pre_tool_use mg (act_tool_name ?a) action (lc_world (c\<lparr>lc_ids := lc_ids c + 1\<rparr>)) = ((False, rs), w')"
    proof -
      obtain g rs w' where g: "run_pre_tool_use mg name action (lc_world c) = ((g, rs), w')" by (metis prod.collapse)
      moreover have "\<not> fst (fst (run_pre_tool_use mg name action (lc_world c)))" using assms(3) \<open>name = n\<close> by (simp add: always_denied_def)
      ultimately show ?thesis using that by (simp add: action_body_def)
    qed
    from denied_action_blocked[OF assms(2) _ _ this e] show ?thesis by (simp add: action_body_def)
  qed
  show ?thesis using k b unfolding o by (auto simp: kept_def fresh_calls_def action_body_def)
qed

definition outcomes :: "'a option list \<Rightarrow> 'a list" where
  "outcomes os = concat (map (\<lambda>x. case x of None \<Rightarrow> [] | Some a \<Rightarrow> [a]) os)"

lemma fresh_calls_mono:
  assumes "fresh_calls env n k c aes" "kept c c'" "k' \<le> k"
  shows "fresh_calls env n k' c' aes"
  using assms unfolding fresh_calls_def kept_def by (meson le_trans less_le_trans)

lemma fresh_calls_append:
  assumes "inj (le_new_id env)" "fresh_calls env n k c as" "fresh_calls env n (lc_ids c) c' bs" "kept c c'" "k \<le> lc_ids c"
  shows "fresh_calls env n k c' (as @ bs)"
proof -
  have "ae_id ` set as \<inter> ae_id ` set bs = {}"
  proof -
    { fix a b assume "a \<in> set as" "b \<in> set bs" "ae_id a = ae_id b"
      then obtain i j where "i < lc_ids c" "lc_ids c \<le> j" "le_new_id env i = le_new_id env j"
        using assms(2,3) unfolding fresh_calls_def by metis
      then have False using injD[OF assms(1)] by fastforce }
    then show ?thesis by blast
  qed
  moreover have "fresh_calls env n k c' as" by (rule fresh_calls_mono[OF assms(2,4) le_refl])
  moreover have "fresh_calls env n k c' bs" by (rule fresh_calls_mono[OF assms(3) reflpD[OF kept_rel(1)] assms(5)])
  ultimately show ?thesis unfolding fresh_calls_def map_append distinct_append set_append set_map ball_Un by simp
qed

lemma collect_fresh:
  assumes "inj (le_new_id (ag_env ag))" "le_hooks (ag_env ag) = Some mg" "always_denied mg n"
    "collect_action_events ag r c = Some (c', Inr aes)"
  shows "fresh_calls (ag_env ag) n (lc_ids c) c' aes"
proof -
  let ?get = "\<lambda>(i, tc). get_action_event ag tc (carried_of (lr_message r) i) (lr_id r)"
  have all: "kept c c' \<and> fresh_calls (ag_env ag) n (lc_ids c) c' (outcomes os)" if "emap ?get xs c = Some (c', Inr os)" for xs c c' os
    using that
  proof (induction xs arbitrary: c os)
    case Nil
    then show ?case by (simp add: eret_def outcomes_def fresh_calls_def kept_def)
  next
    case (Cons x xs)
    obtain i tc where x: "x = (i, tc)" by fastforce
    from Cons.prems obtain c1 o1 where 1: "get_action_event ag tc (carried_of (lr_message r) i) (lr_id r) c = Some (c1, Inr o1)"
      and k: "ebind (emap ?get xs) (\<lambda>bs. eret (o1 # bs)) c1 = Some (c', Inr os)"
      unfolding x by (auto elim: ebind_Inr)
    from k obtain os1 where 2: "emap ?get xs c1 = Some (c', Inr os1)" "os = o1 # os1" by (auto simp: eret_def elim!: ebind_Inr)
    note a = get_action_event_fresh[OF 1 assms(2,3)] and b = Cons.IH[OF 2(1)]
    have "lc_ids c \<le> lc_ids c1" using a by (simp add: kept_def)
    from fresh_calls_append[OF assms(1) conjunct2[OF a] conjunct2[OF b] conjunct1[OF b] this]
    have "fresh_calls (ag_env ag) n (lc_ids c) c' (outcomes os)" by (simp add: 2(2) outcomes_def)
    moreover have "kept c c'" using transpD[OF kept_rel(2) conjunct1[OF a] conjunct1[OF b]] .
    ultimately show ?case by simp
  qed
  from assms(4) obtain os where "emap ?get (enumerate 0 (calls_of (lr_message r))) c = Some (c', Inr os)" "aes = outcomes os"
    by (auto simp: collect_action_events_def eret_def outcomes_def elim!: ebind_Inr)
  then show ?thesis using all by blast
qed

lemma kept_small: "keeps kept (lift_result q)" "keeps kept (set_status env s)" "keeps kept (analyze_pending_actions an aes)"
proof -
  show "keeps kept (lift_result q)" by (cases q) (auto simp: lift_result_def intro: kept_intros)
  show "keeps kept (set_status env s)" unfolding set_status_def by (rule kept_set_attr) simp
  show "keeps kept (analyze_pending_actions an aes)"
    unfolding analyze_pending_actions_def assess_one_def ask_world_def by (intro kept_intros kept_world)
qed

lemma confirmation_kept: "keeps kept (requires_user_confirmation ag aes)"
  unfolding requires_user_confirmation_def by (auto intro!: kept_intros intro: kept_small split: option.split)

text \<open>
  C2: a denied tool is never executed. If the PreToolUse hooks deny every call of a tool, the step that
  receives tool calls behaves the same whatever that tool does, with any other calls around it, with or
  without confirmation, and however many workers run the batch.
\<close>

theorem denied_tool_never_called:
  assumes "le_hooks (ag_env ag) = Some mg" "\<forall>input w. \<not> fst (fst (run_pre_tool_use mg n input w))" "inj (le_new_id (ag_env ag))"
    "\<forall>k. is_order (tx_order (ag_tx ag) k) k" "\<forall>m. m \<noteq> n \<longrightarrow> f m = id"
  shows "handle_tool_calls (replace_calls f ag) r c = handle_tool_calls ag r c"
proof -
  have same: "ebind (requires_user_confirmation ag aes) (\<lambda>confirm. if confirm then eret ()
      else eseq (if aes = [] then eret () else run_actions (replace_calls f ag) aes) (maybe_emit_vllm_tokens ag r)) c1 =
    ebind (requires_user_confirmation ag aes) (\<lambda>confirm. if confirm then eret ()
      else eseq (if aes = [] then eret () else run_actions ag aes) (maybe_emit_vllm_tokens ag r)) c1"
    if aes: "collect_action_events ag r c = Some (c1, Inr aes)" for aes c1
  proof -
    have fr: "fresh_calls (ag_env ag) n (lc_ids c) c1 aes"
      by (rule collect_fresh[OF assms(3,1) _ aes]) (use assms(2) in \<open>simp add: always_denied_def\<close>)
    have "run_actions (replace_calls f ag) aes c2 = run_actions ag aes c2" if "requires_user_confirmation ag aes c1 = Some (c2, q)" for c2 q
    proof -
      have f2: "fresh_calls (ag_env ag) n (lc_ids c) c2 aes"
        by (rule fresh_calls_mono[OF fr keepsD[OF confirmation_kept that] le_refl])
      have "run_safe (ag_env ag) (ag_tx (replace_calls f ag)) ae = run_safe (ag_env ag) (ag_tx ag) ae"
        if "ae \<in> set aes" "blocks c2 (ae_id ae) = None" for ae
        by (rule replaced_run_safe) (use that f2 assms(5) in \<open>auto simp: fresh_calls_def\<close>)
      then have "prepare (ag_env ag) (ag_tx (replace_calls f ag)) aes c2 = prepare (ag_env ag) (ag_tx ag) aes c2"
        by (intro prepare_cong) (use assms(4) f2 in \<open>simp_all add: fresh_calls_def\<close>)
      then show ?thesis by (simp add: run_actions_def execute_actions_def ebind_def)
    qed
    then show ?thesis by (auto simp: ebind_def eseq_def split: option.split sum.split)
  qed
  show ?thesis
    unfolding handle_tool_calls_def replaced_collect replaced_confirmation replaced_tokens
    by (subst (1 2) ebind_def) (auto simp: same split: option.split sum.split)
qed

text \<open>A PreToolUse hook that always exits with 2.\<close>

definition pre_tool_manager :: "unit hook_manager" where
  "pre_tool_manager = \<lparr>mg_config = \<lparr>hc_pre_tool_use = [\<lparr>hm_matcher = ''*'', hm_hooks = [policy_hook]\<rparr>], hc_post_tool_use = [],
     hc_user_prompt_submit = [], hc_session_start = [], hc_session_end = [], hc_stop = []\<rparr>,
     mg_runtime = silent_runtime (Completed 2 '''' ''no'') []\<rparr>"

lemma pre_tool_manager_denies: "\<not> fst (fst (run_pre_tool_use pre_tool_manager ''echo'' input w))"
proof -
  have h: "hooks_for pre_tool_manager PRE_TOOL_USE (Some ''echo'') = [policy_hook]" by code_simp
  have d: "execute_all (mg_runtime pre_tool_manager) [policy_hook] ev True () =
      ([command_result (mg_runtime pre_tool_manager) policy_hook (Completed 2 '''' ''no'')], ())" for ev
    by (simp add: pre_tool_manager_def silent_runtime_def policy_hook_def execute_hook_def)
  have c: "\<not> should_continue (command_result (mg_runtime pre_tool_manager) policy_hook (Completed 2 '''' ''no''))" by code_simp
  show ?thesis using c by (simp add: run_pre_tool_use_def h d Let_def del: execute_all.simps)
qed

lemma denied_tool_never_called_witness:
  "handle_tool_calls (replace_calls break_echo (sample_agent (Some pre_tool_manager) NeverConfirm)) echo_twice sample_lconv =
   handle_tool_calls (sample_agent (Some pre_tool_manager) NeverConfirm) echo_twice sample_lconv"
proof (rule denied_tool_never_called)
  show "le_hooks (ag_env (sample_agent (Some pre_tool_manager) NeverConfirm)) = Some pre_tool_manager"
    by (simp add: sample_agent_def sample_lenv_def)
  show "\<forall>input w. \<not> fst (fst (run_pre_tool_use pre_tool_manager ''echo'' input w))" by (simp add: pre_tool_manager_denies)
  show "inj (le_new_id (ag_env (sample_agent (Some pre_tool_manager) NeverConfirm)))"
    by (auto simp: inj_def sample_agent_def sample_lenv_def replicate_eq_replicate)
  show "\<forall>m. m \<noteq> ''echo'' \<longrightarrow> break_echo m = id" by (simp add: break_echo_def)
qed (simp add: sample_agent_order)

end
