(* ===== verification/Pending_Calls.thy ===== *)
theory Pending_Calls
  imports Agent_Safety
begin

text \<open>
  What a batch leaves pending: the calls after a finish call, which stay on the branch without an outcome,
  and the calls whose rejection was not appended after their block was consumed.
\<close>

section \<open>Pending actions and later events\<close>

lemma get_unmatched_Cons:
  "get_unmatched_actions (e # es) =
     (if executable_action e \<and> (\<forall>x \<in> set es. \<not> answers x e) then [e] else []) @ get_unmatched_actions es"
  by (auto simp: get_unmatched_actions_def unmatched_from_snoc Let_def executable_action_def answers_def split: option.split)

lemma get_unmatched_append:
  "get_unmatched_actions (xs @ ys) = filter (\<lambda>e. \<forall>y \<in> set ys. \<not> answers y e) (get_unmatched_actions xs) @ get_unmatched_actions ys"
  by (induction xs) (auto simp: get_unmatched_Cons, simp add: get_unmatched_actions_def)

lemma get_unmatched_outcomes: "\<forall>x \<in> set ys. as_action x = None \<Longrightarrow> get_unmatched_actions ys = []"
  by (induction ys) (auto simp: get_unmatched_Cons executable_action_def, simp add: get_unmatched_actions_def)

lemma get_unmatched_actions_all:
  "\<forall>e \<in> set es. executable_action e \<Longrightarrow> get_unmatched_actions es = es"
proof (induction es)
  case (Cons e es)
  have "\<not> answers x e" if "x \<in> set es" for x
    using Cons.prems that by (cases "ev_body x") (auto simp: answers_def executable_action_def as_action_def)
  then show ?case using Cons by (simp add: get_unmatched_Cons)
qed (simp add: get_unmatched_actions_def)

text \<open>What an event answers, by action or by tool call.\<close>

definition answer_key :: "event \<Rightarrow> str option \<times> str option" where
  "answer_key x = (observed_action_id (ev_body x), error_call_id (ev_body x))"

definition outcome_keys :: "action_batch \<Rightarrow> action_event \<Rightarrow> (str option \<times> str option) list" where
  "outcome_keys b ae =
     (case dict_get (ab_blocked_reasons b) (ae_id ae) of
        Some reason \<Rightarrow> [(Some (ae_id ae), None)]
      | None \<Rightarrow> map answer_key (the (dict_get (ab_results_by_id b) (ae_id ae))))"

lemma answers_key: "action_event_ok ae \<Longrightarrow>
    answers x (fst ae) \<longleftrightarrow> answer_key x = (Some (ae_id ae), None) \<or> answer_key x = (None, Some (act_tool_call_id (snd ae)))"
  by (cases "ev_body x") (auto simp: answers_def answer_key_def action_event_ok_def as_action_def)

lemma outcome_keys_one:
  assumes "prepare env tx aes c0 = Some (c1, Inr b)" "\<forall>ae \<in> set aes. action_event_ok ae" "distinct (map ae_id aes)"
    "\<forall>n. is_order (tx_order tx n) n" "ae \<in> set (ab_action_events b)" "ae \<in> set aes"
  obtains k where "outcome_keys b ae = [k]" "k = (Some (ae_id ae), None) \<or> k = (None, Some (act_tool_call_id (snd ae)))"
proof -
  note pb = bspec[OF conjunct1[OF conjunct2[OF prepared_batch[OF assms(1-4)]]] assms(5)]
  have ok: "action_event_ok ae" using assms(2,6) by blast
  show ?thesis
  proof (cases "blocks c0 (ae_id ae)")
    case None
    then obtain x where "dict_get (ab_blocked_reasons b) (ae_id ae) = None" "dict_get (ab_results_by_id b) (ae_id ae) = Some [x]"
      "answers x (fst ae)" using pb by auto
    then show ?thesis using that[of "answer_key x"] answers_key[OF ok] by (simp add: outcome_keys_def)
  next
    case (Some r)
    then have "dict_get (ab_blocked_reasons b) (ae_id ae) = Some r" using pb by simp
    then show ?thesis using that[of "(Some (ae_id ae), None)"] by (simp add: outcome_keys_def)
  qed
qed

lemma list_all2_member: "list_all2 P xs ys \<Longrightarrow> y \<in> set ys \<Longrightarrow> \<exists>x \<in> set xs. P x y"
  by (induction xs ys rule: list_all2_induct) auto

text \<open>The action event as the log holds it: the callback gave it its parent.\<close>

definition logged_as :: "action_event \<Rightarrow> action_event \<Rightarrow> bool" where
  "logged_as ae ae' \<longleftrightarrow> (\<exists>p. ae' = ((fst ae)\<lparr>ev_parent_id := p\<rparr>, snd ae))"

lemma logged_same:
  "logged_as ae ae' \<Longrightarrow> answers x (fst ae') = answers x (fst ae)" "logged_as ae ae' \<Longrightarrow> action_event_ok ae' = action_event_ok ae"
  "logged_as ae ae' \<Longrightarrow> snd ae' = snd ae"
  by (auto simp: logged_as_def answers_def as_action_def action_event_ok_def)

text \<open>
  Calls after a finish call are not dropped. They get no outcome, as their answers to the model are
  discarded, but their action events are on the branch already: once the outcomes of the batch are appended,
  exactly they are pending, and the next step of the agent executes them before it looks at anything else.
\<close>

theorem discarded_calls_run_next:
  assumes "prepare (ag_env ag) (ag_tx ag) aes c0 = Some (c1, Inr b)" "\<forall>ae \<in> set aes. action_event_ok ae \<and> act_action (snd ae) \<noteq> None"
    "distinct (map ae_id aes)" "distinct (map (act_tool_call_id \<circ> snd) aes)" "\<forall>n. is_order (tx_order (ag_tx ag) n) n"
    "\<forall>x \<in> set outs. as_action x = None" "map answer_key outs = concat (map (outcome_keys b) (ab_action_events b))"
    "get_unmatched_actions earlier = []" "branch_now (ag_env ag) None c = Some (c2, Inr (earlier @ map fst logged @ outs))"
    "list_all2 logged_as aes logged" "length (ab_action_events b) < length aes"
  shows "agent_step ag c = run_actions ag (drop (length (ab_action_events b)) logged) c2"
proof -
  let ?done = "ab_action_events b"
  have ok: "\<forall>ae \<in> set aes. action_event_ok ae" using assms(2) by auto
  have "fst (truncate_at_finish aes) = ?done" using conjunct1[OF prepared_batch[OF assms(1) ok assms(3,5)]] by (metis fst_conv)
  moreover have "\<exists>rest. aes = fst (truncate_at_finish aes) @ rest"
    by (cases "find_index_from 0 (\<lambda>ae. act_tool_name (snd ae) = finish_tool) aes")
      (auto simp: truncate_at_finish_def intro: append_take_drop_id[symmetric])
  ultimately obtain discarded where aes: "aes = ?done @ discarded" by auto
  then have sub: "set ?done \<subseteq> set aes" by (metis Un_upper1 set_append)
  note one = outcome_keys_one[OF assms(1) ok assms(3,5)]
  have "ae \<in> set ?done" if x: "x \<in> set outs" and ae: "ae \<in> set aes" and a: "answers x (fst ae)" for x ae
  proof -
    have "answer_key x \<in> set (map answer_key outs)" using x by simp
    then obtain d where d: "d \<in> set ?done" "answer_key x \<in> set (outcome_keys b d)" using assms(7) by auto
    have da: "d \<in> set aes" using d(1) sub by blast
    obtain k where "outcome_keys b d = [k]" "k = (Some (ae_id d), None) \<or> k = (None, Some (act_tool_call_id (snd d)))"
      by (rule one[OF d(1) da])
    then have "answer_key x = (Some (ae_id d), None) \<or> answer_key x = (None, Some (act_tool_call_id (snd d)))" using d(2) by simp
    moreover have "answer_key x = (Some (ae_id ae), None) \<or> answer_key x = (None, Some (act_tool_call_id (snd ae)))"
      using a answers_key[of ae x] ok ae by blast
    ultimately have "ae_id ae = ae_id d \<or> (act_tool_call_id \<circ> snd) ae = (act_tool_call_id \<circ> snd) d" by auto
    then have "ae = d"
    proof
      assume "ae_id ae = ae_id d"
      then show ?thesis using assms(3) ae da by (meson distinct_map inj_onD)
    next
      assume "(act_tool_call_id \<circ> snd) ae = (act_tool_call_id \<circ> snd) d"
      then show ?thesis using assms(4) ae da by (meson distinct_map inj_onD)
    qed
    then show ?thesis using d(1) by simp
  qed
  moreover have "\<exists>x \<in> set outs. answers x (fst ae)" if d: "ae \<in> set ?done" for ae
  proof -
    have ae: "ae \<in> set aes" using d sub by blast
    obtain k where k: "outcome_keys b ae = [k]" "k = (Some (ae_id ae), None) \<or> k = (None, Some (act_tool_call_id (snd ae)))"
      by (rule one[OF d ae])
    have "k \<in> set (concat (map (outcome_keys b) ?done))" using k(1) d by force
    then obtain x where x: "x \<in> set outs" "k = answer_key x" unfolding assms(7)[symmetric] by auto
    then show ?thesis using k(2) answers_key[of ae x] ok ae by blast
  qed
  moreover have nd: "ae \<notin> set ?done" if "ae \<in> set discarded" for ae
  proof -
    have "distinct (?done @ discarded)" using assms(3) aes by (metis distinct_map)
    then show ?thesis using that by auto
  qed
  ultimately have u: "(\<forall>y \<in> set outs. \<not> answers y (fst ae)) \<longleftrightarrow> ae \<in> set discarded" if "ae \<in> set aes" for ae
    using that aes by (metis UnE set_append)
  obtain done' discarded' where l: "logged = done' @ discarded'" "list_all2 logged_as ?done done'" "list_all2 logged_as discarded discarded'"
    using assms(10) aes by (metis list_all2_append1)
  have "filter (\<lambda>e. \<forall>y \<in> set outs. \<not> answers y e) (map fst done') = []"
  proof -
    have "\<exists>y \<in> set outs. answers y (fst ae')" if m: "ae' \<in> set done'" for ae'
    proof -
      obtain ae where a: "ae \<in> set ?done" "logged_as ae ae'" using list_all2_member[OF l(2) m] by blast
      then have "ae \<notin> set discarded" using nd by blast
      then show ?thesis using u[of ae] a sub logged_same(1)[OF a(2)] by blast
    qed
    then show ?thesis by (auto simp: filter_empty_conv)
  qed
  moreover have "filter (\<lambda>e. \<forall>y \<in> set outs. \<not> answers y e) (map fst discarded') = map fst discarded'"
  proof -
    have "\<not> answers y (fst ae')" if m: "ae' \<in> set discarded'" "y \<in> set outs" for ae' y
    proof -
      obtain ae where a: "ae \<in> set discarded" "logged_as ae ae'" using list_all2_member[OF l(3) m(1)] by blast
      then have "ae \<in> set aes" using aes by (metis UnI2 set_append)
      then show ?thesis using u[of ae] a(1) m(2) logged_same(1)[OF a(2)] by blast
    qed
    then show ?thesis by (auto intro!: filter_True)
  qed
  ultimately have f: "filter (\<lambda>e. \<forall>y \<in> set outs. \<not> answers y e) (map fst logged) = map fst discarded'" by (simp add: l(1))
  have lok: "action_event_ok ae' \<and> act_action (snd ae') \<noteq> None" if m: "ae' \<in> set logged" for ae'
  proof -
    obtain ae where "ae \<in> set aes" "logged_as ae ae'" using list_all2_member[OF assms(10) m] by blast
    then show ?thesis using assms(2) logged_same(2,3) by metis
  qed
  have "get_unmatched_actions (map fst logged) = map fst logged"
    by (rule get_unmatched_actions_all) (use lok in \<open>auto simp: executable_action_def action_event_ok_def as_action_def\<close>)
  then have "get_unmatched_actions (earlier @ map fst logged @ outs) = map fst discarded'"
    using f get_unmatched_outcomes[OF assms(6)] by (simp add: get_unmatched_append assms(8))
  moreover have "action_events (map fst discarded') = discarded'"
  proof -
    have "\<forall>ae \<in> set discarded'. action_event_ok ae" using lok l(1) by auto
    then show ?thesis by (induction discarded') (auto simp: action_events_def map_filter_simps action_event_ok_def as_action_def)
  qed
  moreover have "drop (length ?done) logged = discarded'" "discarded' \<noteq> []"
    using l assms(10,11) by (auto simp: list_all2_lengthD[OF l(2)] dest: list_all2_lengthD)
  ultimately show ?thesis using assms(9) by (simp add: agent_step_def ebind_def Let_def)
qed

section \<open>Blocks and outcomes\<close>

definition blocked :: "('s, 'w) lconv \<Rightarrow> (str, str) dict" where
  "blocked c = blocked_actions (cs_base (lc_state c))"

lemma ebindE:
  assumes "ebind m f c = Some (c', r)"
  obtains x where "m c = Some (c', Inl x)" "r = Inl x" | c1 a where "m c = Some (c1, Inr a)" "f a c1 = Some (c', r)"
  using assms by (auto simp: ebind_def split: option.splits sum.splits)

lemma core_blocked: "keeps (unchanged core) m \<Longrightarrow> keeps (unchanged blocked) m"
  by (auto simp: keeps_def unchanged_def blocked_def core_of_def)

lemma assign_other_blocked:
  "(\<And>b. blocked_actions (upd b) = blocked_actions b) \<Longrightarrow> keeps (unchanged blocked) (on_state (lift_unit (set_attr env name upd)))"
  by (auto simp: keeps_def unchanged_def blocked_def on_state_def on_part_def lift_unit_def dest!: set_attr_base
      split: prod.splits option.splits)

lemmas parts_blocked = core_blocked[OF on_world_core(1)] core_blocked[OF on_world_core(2)] core_blocked[OF new_event_core]
  core_blocked[OF get_item_core] core_blocked[OF stamp_core] core_blocked[OF append_core]

lemma base_callback_blocked: "keeps (unchanged blocked) (base_callback env e)"
  unfolding base_callback_def default_callback_def by (auto intro!: unchanged_intros assign_other_blocked intro: parts_blocked)

lemma hook_events_blocked: "keeps (unchanged blocked) (emit_hook_events env hs rs l)"
  unfolding emit_hook_events_def emit_hook_execution_event_def
  by (auto intro!: unchanged_intros base_callback_blocked intro: parts_blocked)

lemma hooked_callback_blocked: "as_action e = None \<Longrightarrow> keeps (unchanged blocked) (hooked_callback env mg e)"
proof -
  have post: "keeps (unchanged blocked) (handle_post_tool_use env mg b d)" for b d
    unfolding handle_post_tool_use_def action_of_observation_def Let_def
    by (auto intro!: unchanged_intros hook_events_blocked intro: parts_blocked split: option.split sum.split)
  have prompt: "keeps (unchanged blocked) (handle_user_prompt_submit env mg e msg ext)" for msg ext
    unfolding handle_user_prompt_submit_def Let_def block_message_def
    by (auto intro!: unchanged_intros assign_other_blocked hook_events_blocked intro: parts_blocked split: prod.split)
  assume "as_action e = None"
  then show ?thesis unfolding hooked_callback_def
    by (intro unchanged_intros base_callback_blocked; cases "ev_body e")
      (auto intro!: unchanged_intros intro: post prompt simp: as_action_def)
qed

text \<open>The outcomes of a batch do not touch the blocks of other calls.\<close>

lemma on_event_blocked:
  assumes "on_event env e c = Some (c', r)" "as_action e = None"
  shows "blocked c' = blocked c"
proof -
  have last: "blocked c' = blocked c2" if "maybe_inject_path_rules env e1 c1 = Some (c2, Inr e2)" "as_action e1 = None"
    "(case le_hooks env of None \<Rightarrow> base_callback env e2 | Some mg \<Rightarrow> hooked_callback env mg e2) c2 = Some (c', r)" for e1 c1 c2 e2
  proof -
    have "as_action e2 = None" using that(1,2)
      by (cases "ev_body e1") (auto simp: maybe_inject_path_rules_def eret_def as_action_def elim!: ebind_Inr split: option.splits)
    then show ?thesis using that(3) unchangedD[OF base_callback_blocked] unchangedD[OF hooked_callback_blocked]
      by (cases "le_hooks env") auto
  qed
  have inject: "keeps (unchanged blocked) (maybe_inject_path_rules env e1)" for e1
    unfolding maybe_inject_path_rules_def by (cases "ev_body e1") (auto intro!: unchanged_intros intro: parts_blocked)
  show ?thesis
  proof (rule ebindE[OF assms(1)[unfolded on_event_def]])
    fix x assume "on_state (lift_sum (stamp_parent_id (le_conv env) e)) c = Some (c', Inl x)"
    then show ?thesis by (rule unchangedD[OF core_blocked[OF stamp_core]])
  next
    fix c1 e1
    assume 1: "on_state (lift_sum (stamp_parent_id (le_conv env) e)) c = Some (c1, Inr e1)"
      and 2: "ebind (maybe_inject_path_rules env e1)
        (\<lambda>e2. case le_hooks env of None \<Rightarrow> base_callback env e2 | Some mg \<Rightarrow> hooked_callback env mg e2) c1 = Some (c', r)"
    have b1: "blocked c1 = blocked c" by (rule unchangedD[OF core_blocked[OF stamp_core] 1])
    have e1: "as_action e1 = None" using 1 assms(2)
      by (auto simp: on_state_def on_part_def lift_sum_def as_action_def dest: stamp_parent_id_same split: option.splits sum.splits)
    show ?thesis
    proof (rule ebindE[OF 2])
      fix x assume "maybe_inject_path_rules env e1 c1 = Some (c', Inl x)"
      from unchangedD[OF inject this] b1 show ?thesis by simp
    next
      fix c2 e2 assume i: "maybe_inject_path_rules env e1 c1 = Some (c2, Inr e2)"
        and h: "(case le_hooks env of None \<Rightarrow> base_callback env e2 | Some mg \<Rightarrow> hooked_callback env mg e2) c2 = Some (c', r)"
      from last[OF i e1 h] unchangedD[OF inject i] b1 show ?thesis by simp
    qed
  qed
qed

lemma outcome_not_action: "answers x e \<Longrightarrow> as_action x = None"
  by (cases "ev_body x") (auto simp: answers_def as_action_def)

lemma emit_one_blocked:
  assumes "emit_one env b ae c = Some (c', r)"
    "dict_get (ab_blocked_reasons b) (ae_id ae) \<noteq> None \<or> (\<exists>x. dict_get (ab_results_by_id b) (ae_id ae) = Some [x] \<and> as_action x = None)"
  shows "blocked c' = blocked c"
proof (cases "dict_get (ab_blocked_reasons b) (ae_id ae)")
  case (Some reason)
  let ?body = "UserRejectObservation \<lparr>obs_tool_name = act_tool_name (snd ae), obs_tool_call_id = act_tool_call_id (snd ae)\<rparr> reason (ae_id ae)"
  have "emit env Src_Environment ?body c = Some (c', r)" using assms(1) Some by (simp add: emit_one_def split: prod.splits)
  then show ?thesis unfolding emit_def
    by (rule ebindE) (auto simp: new_event_def blocked_def as_action_def dest!: on_event_blocked)
next
  case None
  then obtain x where x: "dict_get (ab_results_by_id b) (ae_id ae) = Some [x]" "as_action x = None" using assms(2) by auto
  then have "eseq (on_event env x) (eret ()) c = Some (c', r)" using assms(1) None by (simp add: emit_one_def split: prod.splits)
  then have "on_event env x c = Some (c', r)" by (simp add: eseq_def)
  then show ?thesis using x(2) by (rule on_event_blocked)
qed

text \<open>
  A block can be consumed without its rejection. Preparing a batch removes the blocks of its calls before
  anything of the batch is appended. When appending the outcome of an earlier call then raises (a full disk,
  a visualizer, a callback), the rejection of a blocked call behind it is never appended, its action stays
  pending, and the batch that takes it up again, as the next step does, finds no block and executes the call.
\<close>

theorem rejection_lost:
  assumes "prepare env tx aes c = Some (c1, Inr b)" "\<forall>ae \<in> set aes. action_event_ok ae" "distinct (map ae_id aes)"
    "\<forall>n. is_order (tx_order tx n) n" "\<forall>a. keeps (unchanged blocked) (run_safe env tx a)"
    "ab_action_events b = first # rest" "ae \<in> set rest" "blocks c (ae_id ae) \<noteq> None"
    "emit_one env b first c1 = Some (c2, Inl x)" "prepare env tx [ae] c2 = Some (c3, Inr b2)"
  shows "emit_batch env b c1 = Some (c2, Inl x) \<and> dict_get (ab_blocked_reasons b2) (ae_id ae) = None \<and>
    (\<exists>y. dict_get (ab_results_by_id b2) (ae_id ae) = Some [y] \<and> answers y (fst ae))"
proof -
  note pb = prepared_batch[OF assms(1-4)]
  have ts: "fst (truncate_at_finish aes) = first # rest" using pb assms(6) by (metis fst_conv)
  obtain cp results where p: "partition_blocked env (fst (truncate_at_finish aes)) [] [] c =
      Some (cp, Inr (ab_blocked_reasons b, filter (\<lambda>ae. blocks c (ae_id ae) = None) (fst (truncate_at_finish aes))))"
    and x: "execute_batch env tx (filter (\<lambda>ae. blocks c (ae_id ae) = None) (fst (truncate_at_finish aes))) cp = Some (c1, Inr results)"
    by (rule prepare_parts[OF assms(1,3)])
  have "blocks cp (ae_id ae) = None"
    using partition_blocked_run[OF p truncate_set(2)[OF assms(3)]] assms(7) ts by simp
  moreover have k: "keeps (unchanged blocked) (execute_batch env tx xs)" for xs
    unfolding execute_batch_def Let_def by (auto intro!: unchanged_intros simp del: split_paired_All intro: assms(5)[rule_format])
  moreover have "blocked c1 = blocked cp" by (rule unchangedD[OF k x])
  moreover have "blocked c2 = blocked c1"
  proof (rule emit_one_blocked[OF assms(9)])
    have "first \<in> set (ab_action_events b)" using assms(6) by simp
    then show "dict_get (ab_blocked_reasons b) (ae_id first) \<noteq> None \<or>
        (\<exists>x. dict_get (ab_results_by_id b) (ae_id first) = Some [x] \<and> as_action x = None)"
      using bspec[OF conjunct1[OF conjunct2[OF pb]], of first] outcome_not_action by (cases "blocks c (ae_id first)") auto
  qed
  ultimately have n: "blocks c2 (ae_id ae) = None" by (simp add: blocked_def)
  have ok: "\<forall>a \<in> set [ae]. action_event_ok a" using assms(2,7) ts truncate_set(1)[of aes] by auto
  have d: "distinct (map ae_id [ae])" by simp
  note pb2 = prepared_batch[OF assms(10) ok d assms(4)]
  have "ab_action_events b2 = [ae]" using pb2 by (auto simp: truncate_at_finish_def split: if_splits)
  then show ?thesis using pb2 n assms(6,9) by (auto simp: emit_batch_def eseq_def ebind_def)
qed

section \<open>Samples\<close>

text \<open>The sample batch in full: the outcomes of the calls \<open>a\<close> and \<open>b\<close>; the call \<open>c\<close> behind the finish call has none.\<close>

definition outcome_a :: event where
  "outcome_a = \<lparr>ev_id = ''xx'', ev_source = Src_Environment, ev_parent_id = None,
     ev_body = ObservationEvent \<lparr>obs_tool_name = ''echo'', obs_tool_call_id = ''a''\<rparr>
       \<lparr>observation = ''ok'', obs_llm_content = [], obs_extended_content = [], obs_action_id = ''a''\<rparr>\<rparr>"

definition outcome_b :: event where
  "outcome_b = \<lparr>ev_id = ''x'', ev_source = Src_Agent, ev_parent_id = None,
     ev_body = AgentErrorEvent \<lparr>obs_tool_name = ''finish'', obs_tool_call_id = ''b''\<rparr> ''Error executing tool 'finish': failed''\<rparr>"

definition sample_batch :: action_batch where
  "sample_batch = \<lparr>ab_action_events = [sample_call ''a'' ''echo'', sample_call ''b'' ''finish''], ab_has_finish = True,
     ab_blocked_reasons = [], ab_results_by_id = [(''a'', [outcome_a]), (''b'', [outcome_b])]\<rparr>"

lemma sample_batch_prepared: "\<exists>c'. prepare (sample_lenv None) sample_tx sample_calls sample_lconv = Some (c', Inr sample_batch)"
proof -
  have "map_option snd (prepare (sample_lenv None) sample_tx sample_calls sample_lconv) = Some (Inr sample_batch)" by code_simp
  then show ?thesis by (cases "prepare (sample_lenv None) sample_tx sample_calls sample_lconv") auto
qed

text \<open>A conversation whose log, kept in memory, is the three actions and the two outcomes.\<close>

definition logged_calls :: "action_event list" where
  "logged_calls = map2 (\<lambda>ae p. ((fst ae)\<lparr>ev_parent_id := p\<rparr>, snd ae)) sample_calls [None, Some ''a'', Some ''b'']"

definition logged_outcomes :: "event list" where
  "logged_outcomes = [outcome_a\<lparr>ev_parent_id := Some ''c''\<rparr>, outcome_b\<lparr>ev_parent_id := Some ''xx''\<rparr>]"

definition batch_log :: "event list" where
  "batch_log = map fst logged_calls @ logged_outcomes"

definition batch_lconv :: "(unit, unit) lconv" where
  "batch_lconv = sample_lconv\<lparr>lc_state := null_conv\<lparr>cs_log := \<lparr>el_dir = ''events'', el_id_to_idx = zip (map ev_id batch_log) [0..<5],
     el_idx_to_id = zip [0..<5] (map ev_id batch_log), el_cache = zip [0..<5] batch_log, el_length = 5\<rparr>,
     cs_base := sample_base\<lparr>leaf_event_id := Some ''x''\<rparr>\<rparr>\<rparr>"

lemma batch_branch: "map_option snd (branch_now (sample_lenv None) None batch_lconv) = Some (Inr batch_log)"
  by code_simp

lemma discarded_calls_run_next_witness:
  "\<exists>c2. agent_step (sample_agent None NeverConfirm) batch_lconv =
    run_actions (sample_agent None NeverConfirm) [((fst (sample_call ''c'' ''echo''))\<lparr>ev_parent_id := Some ''b''\<rparr>, snd (sample_call ''c'' ''echo''))] c2"
proof -
  obtain c1 where p: "prepare (sample_lenv None) sample_tx sample_calls sample_lconv = Some (c1, Inr sample_batch)"
    using sample_batch_prepared by blast
  obtain c2 where b: "branch_now (sample_lenv None) None batch_lconv = Some (c2, Inr batch_log)"
    using batch_branch by (cases "branch_now (sample_lenv None) None batch_lconv") auto
  have ag: "ag_env (sample_agent None NeverConfirm) = sample_lenv None" "ag_tx (sample_agent None NeverConfirm) = sample_tx"
    by (simp_all add: sample_agent_def)
  have k: "map answer_key logged_outcomes = concat (map (outcome_keys sample_batch) (ab_action_events sample_batch))"
    "\<forall>x \<in> set logged_outcomes. as_action x = None" "distinct (map (act_tool_call_id \<circ> snd) sample_calls)"
    "get_unmatched_actions [] = []" "drop (length (ab_action_events sample_batch)) logged_calls =
       [((fst (sample_call ''c'' ''echo''))\<lparr>ev_parent_id := Some ''b''\<rparr>, snd (sample_call ''c'' ''echo''))]"
    "length (ab_action_events sample_batch) < length sample_calls"
    by (code_simp, simp add: logged_outcomes_def outcome_a_def outcome_b_def as_action_def, code_simp, code_simp, code_simp, code_simp)
  have l: "list_all2 logged_as sample_calls logged_calls"
    by (auto simp: sample_calls_def logged_calls_def logged_as_def)
  have a: "\<forall>ae \<in> set sample_calls. action_event_ok ae \<and> act_action (snd ae) \<noteq> None"
    using sample_calls_ok(1) by (auto simp: sample_calls_def sample_call_def Let_def)
  have b2: "branch_now (sample_lenv None) None batch_lconv = Some (c2, Inr ([] @ map fst logged_calls @ logged_outcomes))"
    using b by (simp add: batch_log_def)
  have o: "\<forall>n. is_order (tx_order sample_tx n) n" using sample_calls_ok(3) by blast
  from discarded_calls_run_next[of "sample_agent None NeverConfirm", unfolded ag, OF p a sample_calls_ok(2) k(3) o k(2,1,4) b2 l k(6)]
  show ?thesis unfolding k(5) by blast
qed

text \<open>A visualizer that fails on observations, and a hook's block on the second call.\<close>

definition failing_lenv :: "(unit, unit) lenv" where
  "failing_lenv = (sample_lenv None)\<lparr>le_visualize := (\<lambda>e. if is_obs e then eraise (OSError ''closed'') else eret ())\<rparr>"

definition two_calls :: "action_event list" where
  "two_calls = [sample_call ''a'' ''echo'', sample_call ''b'' ''echo'']"

definition blocked_lconv :: "(unit, unit) lconv" where
  "blocked_lconv = sample_lconv\<lparr>lc_state := null_conv\<lparr>cs_base := sample_base\<lparr>blocked_actions := [(''b'', ''no'')]\<rparr>\<rparr>\<rparr>"

lemma two_calls_ok: "\<forall>ae \<in> set two_calls. action_event_ok ae" "distinct (map ae_id two_calls)"
  by (auto simp: two_calls_def sample_call_def action_event_ok_def Let_def)

lemma sample_tx_fields: "dict_get (tx_tools sample_tx) n = (if n = ''echo'' then Some echo_tool else None)"
  "tx_lock sample_tx ks = eret ()" "tx_unlock sample_tx ks = eret ()" "\<not> tx_cancelled sample_tx c"
  by (simp_all add: sample_tx_def)

lemma sample_run_blocked: "keeps (unchanged blocked) (run_safe failing_lenv sample_tx a)"
proof -
  have t: "keeps (unchanged blocked) (tool_error failing_lenv t n i)" for t n i
    unfolding tool_error_def by (intro unchanged_intros core_blocked[OF new_event_core])
  have x: "keeps (unchanged blocked) (execute_action_event failing_lenv sample_tx a)"
    by (cases a) (auto simp: execute_action_event_def try_value_error_def call_tool_def Let_def sample_tx_fields echo_tool_def
        intro!: unchanged_intros t core_blocked[OF new_event_core] split: option.split sum.split tool_value.split py_exc.split)
  have "keeps (unchanged blocked) (ecatch
      (case dict_get (tx_tools sample_tx) (act_tool_name (snd a)) of
         None \<Rightarrow> execute_action_event failing_lenv sample_tx a
       | Some tool \<Rightarrow> ebind (lift_result (extract_declared_resources (snd a) tool)) (\<lambda>resources.
           let lock_keys = resolve_lock_keys resources tool in
           if lock_keys = [] then execute_action_event failing_lenv sample_tx a
           else run_locked sample_tx lock_keys (execute_action_event failing_lenv sample_tx a)))
      (\<lambda>x. tool_error failing_lenv (error_executing (act_tool_name (snd a)) (le_exc_text failing_lenv x)) (act_tool_name (snd a)) (act_tool_call_id (snd a))))"
    by (auto intro!: unchanged_intros x t simp: run_locked_def lift_result_def sample_tx_fields Let_def split: option.split sum.split)
  then show ?thesis by (simp only: run_safe_def keeps_def Let_def if_False sample_tx_fields)
qed

lemma ran:
  "(case m of Some (c, Inr a) \<Rightarrow> P c a | _ \<Rightarrow> False) \<Longrightarrow> \<exists>c a. m = Some (c, Inr a) \<and> P c a"
  "(case m of Some (c, Inl x) \<Rightarrow> Q c x | _ \<Rightarrow> False) \<Longrightarrow> \<exists>c x. m = Some (c, Inl x) \<and> Q c x"
  by (cases m, simp, cases "snd (the m)", auto)+

lemma two_calls_run:
  "case prepare failing_lenv sample_tx two_calls blocked_lconv of
     Some (c1, Inr b) \<Rightarrow> ab_action_events b = two_calls \<and>
       (case emit_one failing_lenv b (sample_call ''a'' ''echo'') c1 of
          Some (c2, Inl x) \<Rightarrow> x = OSError ''closed'' \<and>
            (case prepare failing_lenv sample_tx [sample_call ''b'' ''echo''] c2 of Some (c3, Inr b2) \<Rightarrow> True | _ \<Rightarrow> False)
        | _ \<Rightarrow> False)
   | _ \<Rightarrow> False"
  by code_simp

lemma rejection_lost_witness:
  "\<exists>c1 b c2 c3 b2. prepare failing_lenv sample_tx two_calls blocked_lconv = Some (c1, Inr b) \<and>
     emit_batch failing_lenv b c1 = Some (c2, Inl (OSError ''closed'')) \<and>
     prepare failing_lenv sample_tx [sample_call ''b'' ''echo''] c2 = Some (c3, Inr b2) \<and>
     dict_get (ab_blocked_reasons b2) ''b'' = None"
proof -
  obtain c1 b c2 c3 b2 where p: "prepare failing_lenv sample_tx two_calls blocked_lconv = Some (c1, Inr b)" "ab_action_events b = two_calls"
    and e: "emit_one failing_lenv b (sample_call ''a'' ''echo'') c1 = Some (c2, Inl (OSError ''closed''))"
    and q: "prepare failing_lenv sample_tx [sample_call ''b'' ''echo''] c2 = Some (c3, Inr b2)"
  proof -
    obtain c1 b where 1: "prepare failing_lenv sample_tx two_calls blocked_lconv = Some (c1, Inr b)" "ab_action_events b = two_calls"
      and k: "case emit_one failing_lenv b (sample_call ''a'' ''echo'') c1 of
          Some (c2, Inl x) \<Rightarrow> x = OSError ''closed'' \<and>
            (case prepare failing_lenv sample_tx [sample_call ''b'' ''echo''] c2 of Some (c3, Inr b2) \<Rightarrow> True | _ \<Rightarrow> False)
        | _ \<Rightarrow> False" using ran(1)[OF two_calls_run] by blast
    obtain c2 where 2: "emit_one failing_lenv b (sample_call ''a'' ''echo'') c1 = Some (c2, Inl (OSError ''closed''))"
      and l: "case prepare failing_lenv sample_tx [sample_call ''b'' ''echo''] c2 of Some (c3, Inr b2) \<Rightarrow> True | _ \<Rightarrow> False"
      using ran(2)[OF k] by blast
    show ?thesis using that[OF 1 2] ran(1)[OF l] by blast
  qed
  have s: "ab_action_events b = sample_call ''a'' ''echo'' # [sample_call ''b'' ''echo'']" "ae_id (sample_call ''b'' ''echo'') = ''b''"
    "blocks blocked_lconv ''b'' \<noteq> None"
    by (simp_all add: p(2) two_calls_def sample_call_def Let_def blocked_lconv_def)
  have "\<forall>n. is_order (tx_order sample_tx n) n" using sample_calls_ok(3) by blast
  from rejection_lost[OF p(1) two_calls_ok this _ s(1) _ _ e q] s(2,3) sample_run_blocked p q show ?thesis by auto
qed

end
