(* ===== verification/Conversation_Lease.thy ===== *)
theory Conversation_Lease
  imports Prelude Complex_Main "HOL-Library.Log_Nat"
begin

text \<open>
  \<open>agent_server/conversation_lease.py\<close>: one file per conversation names the instance that owns it, a
  generation and a time of expiry. Every operation holds the file lock from its first read to its last write,
  so an operation is one step; between two operations time passes and processes end.

  The file is absent, unreadable, or holds a JSON value; writing replaces it at once.
\<close>

section \<open>The lease file\<close>

text \<open>
  A Python float: finite, infinite or not a number, all of which \<open>json.loads\<close> accepts. Finite floats
  are rationals; the sum of the clock and the time to live is not rounded.
\<close>

datatype py_float = Finite rat | Infinity | Minus_Infinity | NaN

fun exceeds :: "py_float \<Rightarrow> rat \<Rightarrow> bool" where
  "exceeds (Finite q) t \<longleftrightarrow> t < q"
| "exceeds Infinity t \<longleftrightarrow> True"
| "exceeds Minus_Infinity t \<longleftrightarrow> False"
| "exceeds NaN t \<longleftrightarrow> False"

text \<open>\<open>float(i)\<close>: the nearest float with 53 digits, the even one of two; too large a number overflows.\<close>

definition int_to_float :: "int \<Rightarrow> py_float option" where
  "int_to_float i =
     (let a = nat \<bar>i\<bar>; s = floorlog 2 a - 53; q = a div 2 ^ s; r = a mod 2 ^ s;
          v = (if 2 * r > 2 ^ s \<or> 2 * r = 2 ^ s \<and> odd q then q + 1 else q) * 2 ^ s
      in if v \<ge> 2 ^ 1024 then None else Some (Finite (of_int (sgn i * int v))))"

datatype lease_json = LNull | LBool bool | LInt int | LFloat py_float | LStr str | LOther

datatype lease_file = Absent | Unreadable | Not_Object | Content "(str, lease_json) dict"

record lease_payload =
  lp_owner :: str
  lp_generation :: int
  lp_expires_at :: py_float
  lp_host :: "str option"
  lp_pid :: "int option"

text \<open>\<open>isinstance(v, int)\<close> holds of booleans too, which count as 0 and 1.\<close>

fun as_int :: "lease_json \<Rightarrow> int option" where
  "as_int (LInt i) = Some i"
| "as_int (LBool b) = Some (if b then 1 else 0)"
| "as_int v = None"

fun as_float :: "lease_json \<Rightarrow> py_float option" where
  "as_float (LFloat x) = Some x"
| "as_float v = Option.bind (as_int v) int_to_float"

fun as_text :: "lease_json \<Rightarrow> str option" where
  "as_text (LStr s) = Some s"
| "as_text v = None"

definition field :: "(lease_json \<Rightarrow> 'a option) \<Rightarrow> (str, lease_json) dict \<Rightarrow> str \<Rightarrow> 'a option" where
  "field f d k = Option.bind (dict_get d k) f"

definition read_payload :: "lease_file \<Rightarrow> lease_payload option" where
  "read_payload f =
     (case f of
        Content d \<Rightarrow>
          (case (field as_text d ''owner_instance_id'', field as_int d ''generation'', field as_float d ''expires_at'') of
             (Some owner, Some generation, Some expires_at) \<Rightarrow>
               Some \<lparr>lp_owner = owner, lp_generation = generation, lp_expires_at = expires_at,
                 lp_host = (case field as_text d ''owner_host'' of Some h \<Rightarrow> if h \<noteq> '''' then Some h else None | None \<Rightarrow> None),
                 lp_pid = field as_int d ''owner_pid''\<rparr>
           | _ \<Rightarrow> None)
      | _ \<Rightarrow> None)"

text \<open>Whole numbers of up to 53 digits are floats.\<close>

lemma float_of_small: "\<bar>i\<bar> < 2 ^ 53 \<Longrightarrow> int_to_float i = Some (Finite (of_int i))"
proof -
  assume i: "\<bar>i\<bar> < 2 ^ 53"
  then have a: "nat \<bar>i\<bar> < 2 ^ 53" by (simp add: nat_less_iff)
  then have "floorlog 2 (nat \<bar>i\<bar>) \<le> 53" by (rule floorlog_leI) simp_all
  moreover have "nat \<bar>i\<bar> < 2 ^ 1024" using a by (rule less_le_trans) simp
  moreover have "sgn i * \<bar>i\<bar> = i" by (simp add: sgn_mult_abs)
  ultimately show ?thesis by (simp add: int_to_float_def Let_def)
qed

section \<open>Operations\<close>

record lease =
  le_owner :: str
  le_ttl :: rat
  le_host :: str
  le_pid :: int

text \<open>What an operation sees of the machine: the time, and which processes of this host run.\<close>

record machine =
  mc_now :: rat
  mc_alive :: "int \<Rightarrow> bool"

definition is_pid_alive :: "machine \<Rightarrow> int \<Rightarrow> bool" where
  "is_pid_alive mc pid = (if pid \<le> 0 then False else mc_alive mc pid)"

definition owner_is_dead :: "machine \<Rightarrow> lease \<Rightarrow> lease_payload \<Rightarrow> bool" where
  "owner_is_dead mc l p =
     (case (lp_host p, lp_pid p) of
        (Some host, Some pid) \<Rightarrow>
          if host \<noteq> le_host l then False else if pid = le_pid l then False else \<not> is_pid_alive mc pid
      | _ \<Rightarrow> False)"

definition payload_file :: "lease \<Rightarrow> int \<Rightarrow> rat \<Rightarrow> lease_file" where
  "payload_file l generation expires_at = Content
     [(''owner_instance_id'', LStr (le_owner l)), (''generation'', LInt generation), (''expires_at'', LFloat (Finite expires_at)),
      (''owner_host'', LStr (le_host l)), (''owner_pid'', LInt (le_pid l))]"

record lease_claim =
  lc_generation :: int
  lc_takeover :: bool

definition claim :: "machine \<Rightarrow> lease \<Rightarrow> lease_file \<Rightarrow> lease_file \<times> (py_exc + lease_claim)" where
  "claim mc l f =
     (case read_payload f of
        None \<Rightarrow> (payload_file l 1 (mc_now mc + le_ttl l), Inr \<lparr>lc_generation = 1, lc_takeover = False\<rparr>)
      | Some p \<Rightarrow>
          let same_owner = (lp_owner p = le_owner l) in
          if \<not> same_owner \<and> exceeds (lp_expires_at p) (mc_now mc) \<and> \<not> owner_is_dead mc l p
          then (f, Inl (ConversationLeaseHeldError (lp_owner p)))
          else let generation = (if same_owner then lp_generation p else lp_generation p + 1) in
            (payload_file l generation (mc_now mc + le_ttl l), Inr \<lparr>lc_generation = generation, lc_takeover = \<not> same_owner\<rparr>))"

definition assert_owner :: "lease \<Rightarrow> int \<Rightarrow> lease_file \<Rightarrow> py_exc + unit" where
  "assert_owner l generation f =
     (case read_payload f of
        None \<Rightarrow> Inl ConversationOwnershipLostError
      | Some p \<Rightarrow> if lp_owner p \<noteq> le_owner l \<or> lp_generation p \<noteq> generation then Inl ConversationOwnershipLostError else Inr ())"

definition renew :: "machine \<Rightarrow> lease \<Rightarrow> int \<Rightarrow> lease_file \<Rightarrow> lease_file \<times> (py_exc + unit)" where
  "renew mc l generation f =
     (case assert_owner l generation f of
        Inl x \<Rightarrow> (f, Inl x)
      | Inr _ \<Rightarrow> (payload_file l generation (mc_now mc + le_ttl l), Inr ()))"

text \<open>The body of a guarded write runs on what the lease protects, under the lock.\<close>

definition guarded_write :: "lease \<Rightarrow> int \<Rightarrow> ('d \<Rightarrow> 'd) \<Rightarrow> lease_file \<Rightarrow> 'd \<Rightarrow> 'd \<times> (py_exc + unit)" where
  "guarded_write l generation body f d =
     (case assert_owner l generation f of Inl x \<Rightarrow> (d, Inl x) | Inr _ \<Rightarrow> (body d, Inr ()))"

definition release :: "lease \<Rightarrow> int \<Rightarrow> lease_file \<Rightarrow> lease_file" where
  "release l generation f =
     (case read_payload f of
        None \<Rightarrow> f
      | Some p \<Rightarrow> if lp_owner p \<noteq> le_owner l \<or> lp_generation p \<noteq> generation then f else Absent)"

section \<open>Histories\<close>

text \<open>Any instances operate on the file in turn, each at its own moment and with its own view of the processes.\<close>

datatype lease_op = Claim lease | Renew lease int | Release lease int

fun run_op :: "machine \<times> lease_op \<Rightarrow> lease_file \<Rightarrow> lease_file" where
  "run_op (mc, Claim l) f = fst (claim mc l f)"
| "run_op (mc, Renew l g) f = fst (renew mc l g f)"
| "run_op (mc, Release l g) f = release l g f"

definition run_ops :: "(machine \<times> lease_op) list \<Rightarrow> lease_file \<Rightarrow> lease_file" where
  "run_ops ops f = fold run_op ops f"

fun releases :: "machine \<times> lease_op \<Rightarrow> bool" where
  "releases (mc, Release l g) = True"
| "releases op = False"

lemma read_written [simp]: "read_payload (payload_file l g t) =
    Some \<lparr>lp_owner = le_owner l, lp_generation = g, lp_expires_at = Finite t,
      lp_host = (if le_host l \<noteq> '''' then Some (le_host l) else None), lp_pid = Some (le_pid l)\<rparr>"
  by (simp add: read_payload_def payload_file_def field_def)

text \<open>Without a release the generation never falls, and it rises with every change of the owner.\<close>

definition after :: "lease_payload \<Rightarrow> lease_payload \<Rightarrow> bool" where
  "after p q \<longleftrightarrow> lp_generation p < lp_generation q \<or> (lp_generation p = lp_generation q \<and> lp_owner p = lp_owner q)"

lemma after_trans: "after p q \<Longrightarrow> after q r \<Longrightarrow> after p r"
  by (auto simp: after_def)

lemma run_op_after:
  assumes "read_payload f = Some p" "\<not> releases op"
  shows "\<exists>q. read_payload (run_op op f) = Some q \<and> after p q"
proof -
  obtain mc a where op: "op = (mc, a)" by fastforce
  show ?thesis
    using assms by (cases a) (auto simp: op claim_def renew_def assert_owner_def Let_def after_def)
qed

lemma run_ops_after:
  assumes "read_payload f = Some p" "\<forall>op \<in> set ops. \<not> releases op"
  shows "\<exists>q. read_payload (run_ops ops f) = Some q \<and> after p q"
  using assms
proof (induction ops arbitrary: f p)
  case Nil
  then show ?case by (simp add: run_ops_def after_def)
next
  case (Cons op ops)
  obtain q where q: "read_payload (run_op op f) = Some q" "after p q" using run_op_after[OF Cons.prems(1), of op] Cons.prems(2) by (meson list.set_intros(1))
  then obtain r where "read_payload (run_ops ops (run_op op f)) = Some r" "after q r" using Cons.IH[of "run_op op f" q] Cons.prems(2) by (meson list.set_intros(2))
  then show ?case using after_trans[OF q(2)] by (auto simp: run_ops_def)
qed

text \<open>
  C20: a stale owner is fenced off. Once another instance has taken a lease over, whatever claims and
  renewals follow, by any instances and at any times, every renewal and every guarded write with the
  generation of the old owner raises \<open>ConversationOwnershipLostError\<close> and changes nothing, as long as
  nobody releases the lease.
\<close>

theorem takeover_fences:
  assumes "read_payload f = Some p" "le_owner l' \<noteq> lp_owner p" "claim mc l' f = (f', Inr cl)"
    "\<forall>op \<in> set ops. \<not> releases op"
  shows "guarded_write l (lp_generation p) body (run_ops ops f') d = (d, Inl ConversationOwnershipLostError) \<and>
    renew mc' l (lp_generation p) (run_ops ops f') = (run_ops ops f', Inl ConversationOwnershipLostError)"
proof -
  obtain q where "read_payload f' = Some q" "lp_generation q = lp_generation p + 1"
    using assms(1-3) by (auto simp: claim_def Let_def split: if_splits)
  then obtain r where "read_payload (run_ops ops f') = Some r" "lp_generation p < lp_generation r"
    using run_ops_after[OF _ assms(4)] by (fastforce simp: after_def)
  then show ?thesis by (simp add: guarded_write_def renew_def assert_owner_def)
qed

definition lease_a :: lease where
  "lease_a = \<lparr>le_owner = ''a'', le_ttl = 45, le_host = ''h'', le_pid = 10\<rparr>"

definition lease_b :: lease where
  "lease_b = \<lparr>le_owner = ''b'', le_ttl = 45, le_host = ''h'', le_pid = 11\<rparr>"

definition at_time :: "rat \<Rightarrow> machine" where
  "at_time t = \<lparr>mc_now = t, mc_alive = (\<lambda>p. True)\<rparr>"

lemma takeover_fences_witness:
  "guarded_write lease_a 1 (Cons (0 :: nat)) (fst (claim (at_time 50) lease_b (fst (claim (at_time 0) lease_a Absent)))) [] =
     ([], Inl ConversationOwnershipLostError)"
proof -
  let ?f = "fst (claim (at_time 0) lease_a Absent)"
  have p: "read_payload ?f = Some \<lparr>lp_owner = ''a'', lp_generation = 1, lp_expires_at = Finite 45, lp_host = Some ''h'', lp_pid = Some 10\<rparr>"
    by (simp add: claim_def read_payload_def lease_a_def at_time_def payload_file_def field_def)
  have c: "claim (at_time 50) lease_b ?f = (payload_file lease_b 2 95, Inr \<lparr>lc_generation = 2, lc_takeover = True\<rparr>)"
    unfolding claim_def[of "at_time 50"] p by (simp add: lease_b_def at_time_def)
  have b: "le_owner lease_b \<noteq> ''a''" by (simp add: lease_b_def)
  from takeover_fences[OF p _ c, of "[]" lease_a "Cons (0 :: nat)" "[]"] b c show ?thesis by (simp add: run_ops_def)
qed

text \<open>
  A claim respects a live owner. It is refused, with the file unchanged, exactly if another instance
  holds a readable lease that has not expired and whose process is not known to be dead; otherwise it
  succeeds, and the claimant's guarded writes with the generation it got go through.
\<close>

theorem claim_verdict:
  "case claim mc l f of
     (f', Inl x) \<Rightarrow> f' = f \<and> (\<exists>p. read_payload f = Some p \<and> lp_owner p \<noteq> le_owner l \<and> exceeds (lp_expires_at p) (mc_now mc) \<and>
       (\<forall>pid. lp_host p = Some (le_host l) \<and> lp_pid p = Some pid \<and> pid \<noteq> le_pid l \<longrightarrow> 0 < pid \<and> mc_alive mc pid))
   | (f', Inr cl) \<Rightarrow> guarded_write l (lc_generation cl) body f' d = (body d, Inr ()) \<and>
       (\<forall>p. read_payload f = Some p \<and> lp_owner p \<noteq> le_owner l \<longrightarrow> \<not> exceeds (lp_expires_at p) (mc_now mc) \<or>
         (\<exists>pid. lp_host p = Some (le_host l) \<and> lp_pid p = Some pid \<and> pid \<noteq> le_pid l \<and> (pid \<le> 0 \<or> \<not> mc_alive mc pid)))"
proof (cases "read_payload f")
  case None
  then show ?thesis by (simp add: claim_def guarded_write_def assert_owner_def)
next
  case (Some p)
  show ?thesis
  proof (cases "lp_owner p \<noteq> le_owner l \<and> exceeds (lp_expires_at p) (mc_now mc) \<and> \<not> owner_is_dead mc l p")
    case True
    then show ?thesis using Some
      by (auto simp: claim_def owner_is_dead_def is_pid_alive_def split: if_splits)
  next
    case False
    then show ?thesis using Some
      by (auto simp: claim_def guarded_write_def assert_owner_def Let_def owner_is_dead_def is_pid_alive_def
          split: if_splits option.splits)
  qed
qed

lemma claim_verdict_witness:
  "\<exists>f' x p. claim (at_time 10) lease_b (payload_file lease_a 1 45) = (f', Inl x) \<and> f' = payload_file lease_a 1 45 \<and>
     read_payload (payload_file lease_a 1 45) = Some p \<and> exceeds (lp_expires_at p) (mc_now (at_time 10))"
proof -
  have c: "claim (at_time 10) lease_b (payload_file lease_a 1 45) = (payload_file lease_a 1 45, Inl (ConversationLeaseHeldError ''a''))"
    unfolding claim_def read_written by (simp add: lease_a_def lease_b_def at_time_def owner_is_dead_def is_pid_alive_def)
  from claim_verdict[where mc = "at_time 10" and l = lease_b and f = "payload_file lease_a 1 45" and body = id and d = "()"] show ?thesis unfolding c prod.case sum.case by blast
qed

text \<open>
  A release lets the generation start again. The instance \<open>a\<close> claims a conversation and gets generation
  1; the instance \<open>b\<close> takes it over with generation 2 and releases it; \<open>a\<close> claims it again and gets generation 1
  again. A writer of \<open>a\<close> left over from before the takeover then passes the guard, although the conversation
  had another owner since.
\<close>

theorem release_resets_generation:
  "(let f1 = fst (claim (at_time 0) lease_a Absent); f2 = fst (claim (at_time 50) lease_b f1);
        f3 = release lease_b 2 f2; (f4, r) = claim (at_time 60) lease_a f3 in
    assert_owner lease_a 1 f2 = Inl ConversationOwnershipLostError \<and> r = Inr \<lparr>lc_generation = 1, lc_takeover = False\<rparr> \<and>
    guarded_write lease_a 1 (Cons (0 :: nat)) f4 [] = ([0], Inr ()))"
  by (simp add: claim_def lease_a_def lease_b_def at_time_def release_def assert_owner_def guarded_write_def Let_def
      read_payload_def payload_file_def field_def)

end
