(* ===== verification/File_History.thy ===== *)
theory File_History
  imports Text_Utils
begin

text \<open>
  The undo history of the file editor: \<open>FileCache\<close> (\<open>tools/file_editor/utils/file_cache.py\<close>), one JSON file
  per key in a directory, and \<open>FileHistoryManager\<close> (\<open>utils/history.py\<close>), a bounded stack of old texts per file
  on top of it.

  Arguments of the model: \<open>digest\<close> is \<open>sha256(key).hexdigest()\<close>, the name of the file of a key, and \<open>dumped\<close>
  the size of the JSON text of a key and its value. Clock readings are integers. The directory is listed in the
  order in which its files were created.
\<close>

section \<open>File cache\<close>

record 'v cache_file =
  cf_key :: str
  cf_data :: 'v
  cf_size :: nat
  cf_mtime :: int

record 'v file_cache =
  fc_directory :: "(str, 'v cache_file) dict"
  fc_size_limit :: "int option"
  fc_current_size :: int

definition directory_size :: "(str, 'v cache_file) dict \<Rightarrow> int" where
  "directory_size d = sum_list (map (\<lambda>(_, f). int (cf_size f)) d)"

definition open_file_cache :: "(str, 'v cache_file) dict \<Rightarrow> int option \<Rightarrow> 'v file_cache" where
  "open_file_cache d limit = \<lparr>fc_directory = d, fc_size_limit = limit, fc_current_size = directory_size d\<rparr>"

text \<open>\<open>min(files, key=os.path.getmtime)\<close>: the first file with the least time.\<close>

fun oldest_file :: "(str, 'v cache_file) dict \<Rightarrow> (str \<times> 'v cache_file) option" where
  "oldest_file [] = None"
| "oldest_file (nf # d) =
     (case oldest_file d of
        None \<Rightarrow> Some nf
      | Some ng \<Rightarrow> if cf_mtime (snd ng) < cf_mtime (snd nf) then Some ng else Some nf)"

definition evict_oldest :: "str \<Rightarrow> 'v file_cache \<Rightarrow> py_exc + 'v file_cache" where
  "evict_oldest exclude c =
     (case oldest_file (filter (\<lambda>(n, f). n \<noteq> exclude) (fc_directory c)) of
        None \<Rightarrow> Inl (ValueError ''min() iterable argument is empty'')
      | Some (n, f) \<Rightarrow>
          Inr (c\<lparr>fc_current_size := fc_current_size c - int (cf_size f), fc_directory := dict_del n (fc_directory c)\<rparr>))"

lemma oldest_file_mem: "oldest_file d = Some nf \<Longrightarrow> nf \<in> set d"
  by (induction d arbitrary: nf) (auto split: option.splits if_splits)

lemma oldest_file_None: "oldest_file d = None \<longleftrightarrow> d = []"
  by (cases d) (auto split: option.splits)

lemma length_dict_del_less: "n \<in> fst ` set d \<Longrightarrow> length (dict_del n d) < length d"
  unfolding AList.delete_eq by (auto intro: length_filter_less)

lemma evict_oldest_less: "evict_oldest exclude c = Inr c' \<Longrightarrow> length (fc_directory c') < length (fc_directory c)"
  by (auto simp: evict_oldest_def split: option.splits dest!: oldest_file_mem intro!: length_dict_del_less)
    (metis fst_conv image_eqI)

text \<open>The loop that makes room for \<open>extra\<close> more bytes.\<close>

function make_room :: "int \<Rightarrow> int \<Rightarrow> str \<Rightarrow> 'v file_cache \<Rightarrow> py_exc + 'v file_cache" where
  "make_room extra limit exclude c =
     (if fc_current_size c + extra > limit \<and> length (fc_directory c) > 1
      then rbind (evict_oldest exclude c) (make_room extra limit exclude) else Inr c)"
  by pat_completeness auto
termination
  by (relation "measure (\<lambda>(_, _, _, c). length (fc_directory c))") (auto dest: evict_oldest_less)

declare make_room.simps [simp del]

text \<open>The eviction at the start of \<open>set\<close>, for a file \<open>path\<close> that will have \<open>content_size\<close> bytes.\<close>

definition make_way :: "str \<Rightarrow> int \<Rightarrow> 'v file_cache \<Rightarrow> py_exc + 'v file_cache" where
  "make_way path content_size c =
     (case fc_size_limit c of
        None \<Rightarrow> Inr c
      | Some limit \<Rightarrow>
          (case dict_get (fc_directory c) path of
             Some f \<Rightarrow> if content_size - int (cf_size f) > 0 then make_room (content_size - int (cf_size f)) limit path c else Inr c
           | None \<Rightarrow> make_room content_size limit path c))"

definition fcache_set :: "(str \<Rightarrow> str) \<Rightarrow> (str \<Rightarrow> 'v \<Rightarrow> nat) \<Rightarrow> int \<Rightarrow> str \<Rightarrow> 'v \<Rightarrow> 'v file_cache \<Rightarrow> py_exc + 'v file_cache" where
  "fcache_set digest dumped now key v c =
     (let path = digest key; content_size = int (dumped key v) in
      rbind (make_way path content_size c)
        (\<lambda>c1. let old = (case dict_get (fc_directory c1) path of Some f \<Rightarrow> int (cf_size f) | None \<Rightarrow> 0) in
          Inr (c1\<lparr>fc_directory := dict_put path \<lparr>cf_key = key, cf_data = v, cf_size = dumped key v, cf_mtime = now\<rparr> (fc_directory c1),
                 fc_current_size := fc_current_size c1 - old + content_size\<rparr>)))"

definition fcache_get :: "(str \<Rightarrow> str) \<Rightarrow> int \<Rightarrow> str \<Rightarrow> 'v file_cache \<Rightarrow> 'v option \<times> 'v file_cache" where
  "fcache_get digest now key c =
     (case dict_get (fc_directory c) (digest key) of
        None \<Rightarrow> (None, c)
      | Some f \<Rightarrow> (Some (cf_data f), c\<lparr>fc_directory := dict_put (digest key) (f\<lparr>cf_mtime := now\<rparr>) (fc_directory c)\<rparr>))"

definition fcache_delete :: "(str \<Rightarrow> str) \<Rightarrow> str \<Rightarrow> 'v file_cache \<Rightarrow> 'v file_cache" where
  "fcache_delete digest key c =
     (case dict_get (fc_directory c) (digest key) of
        None \<Rightarrow> c
      | Some f \<Rightarrow> c\<lparr>fc_current_size := fc_current_size c - int (cf_size f), fc_directory := dict_del (digest key) (fc_directory c)\<rparr>)"

definition fcache_wipe :: "'v file_cache \<Rightarrow> 'v file_cache" where
  "fcache_wipe c = c\<lparr>fc_directory := [], fc_current_size := 0\<rparr>"

definition fcache_contains :: "(str \<Rightarrow> str) \<Rightarrow> str \<Rightarrow> 'v file_cache \<Rightarrow> bool" where
  "fcache_contains digest key c \<longleftrightarrow> dict_get (fc_directory c) (digest key) \<noteq> None"

definition fcache_len :: "'v file_cache \<Rightarrow> nat" where
  "fcache_len c = length (fc_directory c)"

definition fcache_iter :: "'v file_cache \<Rightarrow> str list" where
  "fcache_iter c = map (cf_key \<circ> snd) (fc_directory c)"

section \<open>The size of the cache\<close>

definition size_ok :: "'v file_cache \<Rightarrow> bool" where
  "size_ok c \<longleftrightarrow> distinct (dict_keys (fc_directory c)) \<and> fc_current_size c = directory_size (fc_directory c)"

lemma directory_size_simps [simp]:
  "directory_size [] = 0" "directory_size (nf # d) = int (cf_size (snd nf)) + directory_size d"
  by (simp_all add: directory_size_def split: prod.splits)

lemma directory_size_del:
  "distinct (dict_keys d) \<Longrightarrow> dict_get d n = Some f \<Longrightarrow> directory_size (dict_del n d) = directory_size d - int (cf_size f)"
proof (induction d)
  case (Cons nf d)
  then show ?case
  proof (cases "fst nf = n")
    case True
    then have "dict_del n d = d" using Cons.prems(1) by (simp add: delete_idem)
    then show ?thesis using True Cons.prems by simp
  qed (auto simp: image_iff)
qed simp

lemma directory_size_put:
  "distinct (dict_keys d) \<Longrightarrow>
   directory_size (dict_put n f d) = directory_size d - (case dict_get d n of Some g \<Rightarrow> int (cf_size g) | None \<Rightarrow> 0) + int (cf_size f)"
proof (induction d)
  case (Cons ng d)
  then show ?case by (cases ng) (auto simp: image_iff split: option.splits)
qed simp

lemma dict_del_length: "distinct (dict_keys d) \<Longrightarrow> n \<in> set (dict_keys d) \<Longrightarrow> length (dict_del n d) = length d - 1"
proof (induction d)
  case (Cons nf d)
  then show ?case
  proof (cases "fst nf = n")
    case True
    then have "dict_del n d = d" using Cons.prems(1) by (simp add: delete_idem)
    then show ?thesis using True by simp
  next
    case False
    then have "n \<in> set (dict_keys d)" using Cons.prems(2) by auto
    then have "0 < length d" by (cases d) auto
    then show ?thesis using False Cons by simp
  qed
qed simp

lemma other_file:
  assumes "distinct (dict_keys d)" "1 < length d"
  shows "filter (\<lambda>(n, f). n \<noteq> exclude) d \<noteq> []"
proof -
  obtain a b d' where d: "d = a # b # d'" using assms(2) by (cases d; cases "tl d") auto
  then show ?thesis using assms(1) by (cases a; cases b) auto
qed

lemma evict_oldest_ok:
  assumes "size_ok c" "1 < length (fc_directory c)"
  obtains n where "evict_oldest exclude c = Inr (c\<lparr>fc_current_size := directory_size (dict_del n (fc_directory c)),
      fc_directory := dict_del n (fc_directory c)\<rparr>)" "n \<noteq> exclude" "n \<in> set (dict_keys (fc_directory c))"
proof -
  let ?d = "filter (\<lambda>(n, f). n \<noteq> exclude) (fc_directory c)"
  obtain n f where o: "oldest_file ?d = Some (n, f)"
    using other_file[OF _ assms(2), of exclude] assms(1) oldest_file_None[of ?d] unfolding size_ok_def by fastforce
  then have m: "(n, f) \<in> set (fc_directory c)" "n \<noteq> exclude" by (auto dest: oldest_file_mem)
  then have "dict_get (fc_directory c) n = Some f" using assms(1) by (simp add: size_ok_def)
  then have "directory_size (dict_del n (fc_directory c)) = fc_current_size c - int (cf_size f)"
    using assms(1) by (simp add: size_ok_def directory_size_del)
  moreover have "n \<in> set (dict_keys (fc_directory c))" using m(1) by force
  ultimately show ?thesis using m o by (intro that[of n]) (simp_all add: evict_oldest_def)
qed

lemma make_room_ok:
  assumes "size_ok c"
  shows "\<exists>c'. make_room extra limit exclude c = Inr c' \<and> size_ok c' \<and> fc_size_limit c' = fc_size_limit c \<and>
    dict_get (fc_directory c') exclude = dict_get (fc_directory c) exclude \<and>
    (fc_current_size c' + extra \<le> limit \<or> length (fc_directory c') \<le> 1)"
  using assms
proof (induction extra limit exclude c rule: make_room.induct)
  case (1 extra limit exclude c)
  show ?case
  proof (cases "fc_current_size c + extra > limit \<and> length (fc_directory c) > 1")
    case True
    then obtain n where e: "evict_oldest exclude c = Inr (c\<lparr>fc_current_size := directory_size (dict_del n (fc_directory c)),
        fc_directory := dict_del n (fc_directory c)\<rparr>)" "n \<noteq> exclude"
      using evict_oldest_ok[OF 1(2)] by metis
    show ?thesis using 1(1)[OF True e(1)] 1(2) e True by (subst make_room.simps) (simp add: size_ok_def)
  next
    case False
    then show ?thesis using 1(2) by (subst make_room.simps) auto
  qed
qed

abbreviation old_size :: "str \<Rightarrow> 'v file_cache \<Rightarrow> int" where
  "old_size path c \<equiv> (case dict_get (fc_directory c) path of Some f \<Rightarrow> int (cf_size f) | None \<Rightarrow> 0)"

lemma make_way_ok:
  assumes "size_ok c"
  shows "\<exists>c'. make_way path n c = Inr c' \<and> size_ok c' \<and> fc_size_limit c' = fc_size_limit c \<and>
    dict_get (fc_directory c') path = dict_get (fc_directory c) path \<and>
    (\<forall>limit. fc_size_limit c = Some limit \<longrightarrow>
       fc_current_size c' - old_size path c + n \<le> limit \<or> length (fc_directory c') \<le> 1 \<or>
       (c' = c \<and> dict_get (fc_directory c) path \<noteq> None \<and> n \<le> old_size path c))"
proof (cases "fc_size_limit c")
  case (Some limit)
  show ?thesis
  proof (cases "dict_get (fc_directory c) path")
    case None
    then show ?thesis using Some make_room_ok[OF assms, of n limit path] by (auto simp: make_way_def)
  next
    case f: (Some f)
    show ?thesis
    proof (cases "n - int (cf_size f) > 0")
      case True
      then show ?thesis using Some f make_room_ok[OF assms, of "n - int (cf_size f)" limit path]
        by (fastforce simp: make_way_def)
    next
      case False
      then show ?thesis using Some f assms by (auto simp: make_way_def)
    qed
  qed
qed (use assms in \<open>simp add: make_way_def\<close>)

lemma length_dict_put_le: "length (dict_put k v d) \<le> Suc (length d)"
  by (induction d) auto

text \<open>
  What the limit promises: the size stays within it or the size \<open>start\<close> the cache had before, or there
  are at most two files.
\<close>

definition within_limit :: "int \<Rightarrow> 'v file_cache \<Rightarrow> bool" where
  "within_limit start c \<longleftrightarrow>
     (\<forall>limit. fc_size_limit c = Some limit \<longrightarrow>
        fc_current_size c \<le> max limit start \<or> length (fc_directory c) \<le> 2)"

lemma dict_put_same_length: "dict_get d k \<noteq> None \<Longrightarrow> length (dict_put k v d) = length d"
  by (induction d) auto

lemma fcache_set_ok:
  assumes "size_ok c"
  shows "\<exists>c'. fcache_set digest dumped now key v c = Inr c' \<and> size_ok c' \<and> fc_size_limit c' = fc_size_limit c \<and>
    dict_get (fc_directory c') (digest key) = Some \<lparr>cf_key = key, cf_data = v, cf_size = dumped key v, cf_mtime = now\<rparr> \<and>
    (within_limit start c \<longrightarrow> within_limit start c')"
proof -
  obtain c1 where c1: "make_way (digest key) (int (dumped key v)) c = Inr c1" "size_ok c1" "fc_size_limit c1 = fc_size_limit c"
      "dict_get (fc_directory c1) (digest key) = dict_get (fc_directory c) (digest key)"
    and l: "\<And>limit. fc_size_limit c = Some limit \<Longrightarrow>
      fc_current_size c1 - old_size (digest key) c + int (dumped key v) \<le> limit \<or> length (fc_directory c1) \<le> 1 \<or>
      (c1 = c \<and> dict_get (fc_directory c) (digest key) \<noteq> None \<and> int (dumped key v) \<le> old_size (digest key) c)"
    using make_way_ok[OF assms] by blast
  let ?f = "\<lparr>cf_key = key, cf_data = v, cf_size = dumped key v, cf_mtime = now\<rparr>"
  let ?c = "c1\<lparr>fc_directory := dict_put (digest key) ?f (fc_directory c1),
      fc_current_size := fc_current_size c1 - old_size (digest key) c1 + int (dumped key v)\<rparr>"
  have 1: "fcache_set digest dumped now key v c = Inr ?c" using c1(1) by (simp add: fcache_set_def Let_def)
  have 2: "size_ok ?c" using c1(2) by (simp add: size_ok_def directory_size_put)
  have 3: "within_limit start ?c" if "within_limit start c"
    unfolding within_limit_def
  proof (intro allI impI)
    fix limit
    assume "fc_size_limit ?c = Some limit"
    then have lim: "fc_size_limit c = Some limit" using c1(3) by simp
    have "length (dict_put (digest key) ?f (fc_directory c1)) \<le> Suc (length (fc_directory c1))"
      by (rule length_dict_put_le)
    then show "fc_current_size ?c \<le> max limit start \<or> length (fc_directory ?c) \<le> 2"
      using l[OF lim] that[unfolded within_limit_def, rule_format, OF lim] c1(4)
      by (auto simp: dict_put_same_length)
  qed
  show ?thesis unfolding 1 using 2 3 c1(3) by auto
qed

lemma fcache_get_ok:
  assumes "size_ok c"
  shows "size_ok (snd (fcache_get digest now key c)) \<and> fc_size_limit (snd (fcache_get digest now key c)) = fc_size_limit c \<and>
    (within_limit start c \<longrightarrow> within_limit start (snd (fcache_get digest now key c)))"
  using assms by (auto simp: fcache_get_def size_ok_def within_limit_def directory_size_put dict_put_same_length split: option.splits)

lemma fcache_delete_ok:
  assumes "size_ok c"
  shows "size_ok (fcache_delete digest key c) \<and> fc_size_limit (fcache_delete digest key c) = fc_size_limit c \<and>
    (within_limit start c \<longrightarrow> within_limit start (fcache_delete digest key c))"
proof (cases "dict_get (fc_directory c) (digest key)")
  case (Some f)
  then show ?thesis using Some assms length_delete_le[of "digest key" "fc_directory c"]
    by (fastforce simp: fcache_delete_def size_ok_def within_limit_def directory_size_del)
qed (use assms in \<open>simp add: fcache_delete_def\<close>)

text \<open>Calls on a cache, with the clock at each.\<close>

datatype 'v cache_call = Set_Call str 'v int | Get_Call str int | Delete_Call str | Wipe_Call

fun cache_step :: "(str \<Rightarrow> str) \<Rightarrow> (str \<Rightarrow> 'v \<Rightarrow> nat) \<Rightarrow> 'v cache_call \<Rightarrow> 'v file_cache \<Rightarrow> py_exc + 'v file_cache" where
  "cache_step digest dumped (Set_Call key v now) c = fcache_set digest dumped now key v c"
| "cache_step digest dumped (Get_Call key now) c = Inr (snd (fcache_get digest now key c))"
| "cache_step digest dumped (Delete_Call key) c = Inr (fcache_delete digest key c)"
| "cache_step digest dumped Wipe_Call c = Inr (fcache_wipe c)"

fun cache_calls :: "(str \<Rightarrow> str) \<Rightarrow> (str \<Rightarrow> 'v \<Rightarrow> nat) \<Rightarrow> 'v cache_call list \<Rightarrow> 'v file_cache \<Rightarrow> py_exc + 'v file_cache" where
  "cache_calls digest dumped [] c = Inr c"
| "cache_calls digest dumped (x # xs) c = rbind (cache_step digest dumped x c) (cache_calls digest dumped xs)"

lemma cache_step_ok:
  assumes "size_ok c"
  shows "\<exists>c'. cache_step digest dumped x c = Inr c' \<and> size_ok c' \<and> fc_size_limit c' = fc_size_limit c \<and>
    (within_limit start c \<longrightarrow> within_limit start c')"
proof (cases x)
  case (Set_Call key v now)
  then show ?thesis using fcache_set_ok[OF assms, of digest dumped now key v] by auto
next
  case Wipe_Call
  then show ?thesis by (auto simp: fcache_wipe_def size_ok_def within_limit_def)
qed (use fcache_get_ok[OF assms] fcache_delete_ok[OF assms] in auto)

text \<open>
  C40: the accounting of the file cache is exact and its size is bounded. For any directory of files the
  cache is opened over and any sequence of calls, no call raises and the current size is the sum of the
  sizes of the files. As soon as more than two files are left, the size is at most the limit if the
  cache was opened within its limit or with at most two files, and in any case at most the greater of the
  limit and the size it was opened with: a call that evicts nothing makes no cache larger that is over
  its limit.
\<close>

theorem file_cache_bounded:
  assumes "distinct (dict_keys d)"
  shows "\<exists>c. cache_calls digest dumped calls (open_file_cache d (Some limit)) = Inr c \<and>
    fc_current_size c = directory_size (fc_directory c) \<and>
    (2 < fcache_len c \<longrightarrow> fc_current_size c \<le> max limit (directory_size d) \<and>
       (directory_size d \<le> limit \<or> length d \<le> 2 \<longrightarrow> fc_current_size c \<le> limit))"
proof -
  have "\<exists>c'. cache_calls digest dumped calls c = Inr c' \<and> size_ok c' \<and> fc_size_limit c' = fc_size_limit c \<and>
      (within_limit start c \<longrightarrow> within_limit start c')"
    if "size_ok c" for c start
    using that
  proof (induction calls arbitrary: c)
    case (Cons x xs)
    then obtain c1 where "cache_step digest dumped x c = Inr c1" "size_ok c1" "fc_size_limit c1 = fc_size_limit c"
      "within_limit start c \<longrightarrow> within_limit start c1"
      using cache_step_ok by blast
    then show ?case using Cons.IH [of c1] by auto
  qed simp
  from this[of "open_file_cache d (Some limit)" limit] this[of "open_file_cache d (Some limit)" "directory_size d"]
  show ?thesis using assms by (auto simp: open_file_cache_def size_ok_def within_limit_def fcache_len_def)
qed

text \<open>A cache opened over its limit with more than two files stays over it until a call evicts.\<close>

lemma opened_over_limit:
  "let d = map (\<lambda>n. (n, \<lparr>cf_key = n, cf_data = 60, cf_size = 60, cf_mtime = 0\<rparr>)) [''a'', ''b'', ''c''] in
   cache_calls id (\<lambda>_ n. n) [Get_Call ''a'' 0] (open_file_cache d (Some 100)) =
     Inr \<lparr>fc_directory = d, fc_size_limit = Some 100, fc_current_size = 180\<rparr>"
  by (simp add: open_file_cache_def fcache_get_def Let_def)

text \<open>Two files together may exceed the limit although the older one could go.\<close>

lemma limit_exceeded_by_two:
  "cache_calls id (\<lambda>_ n. n) [Set_Call ''a'' 60 0, Set_Call ''b'' 60 1] (open_file_cache [] (Some 100)) =
     Inr \<lparr>fc_directory = [(''a'', \<lparr>cf_key = ''a'', cf_data = 60, cf_size = 60, cf_mtime = 0\<rparr>),
            (''b'', \<lparr>cf_key = ''b'', cf_data = 60, cf_size = 60, cf_mtime = 1\<rparr>)], fc_size_limit = Some 100, fc_current_size = 120\<rparr>"
  by (simp add: open_file_cache_def fcache_set_def make_way_def make_room.simps Let_def)

lemma file_cache_bounded_witness:
  "\<exists>c. cache_calls id (\<lambda>_ n. n) [Set_Call ''a'' 60 0, Set_Call ''b'' 60 1, Set_Call ''c'' 30 2, Set_Call ''d'' 10 3]
       (open_file_cache [] (Some 100)) = Inr c \<and>
     fcache_len c = 3 \<and> fc_current_size c = directory_size (fc_directory c) \<and> fc_current_size c \<le> 100"
proof -
  have d: "distinct (dict_keys ([] :: (str, nat cache_file) dict))" by simp
  obtain c where c: "cache_calls id (\<lambda>_ n. n) [Set_Call ''a'' 60 0, Set_Call ''b'' 60 1, Set_Call ''c'' 30 2, Set_Call ''d'' 10 3]
       (open_file_cache [] (Some 100)) = Inr c" "fc_current_size c = directory_size (fc_directory c)"
     "2 < fcache_len c \<longrightarrow> fc_current_size c \<le> 100"
    using file_cache_bounded [OF d, of id "\<lambda>_ n. n"
      "[Set_Call ''a'' 60 0, Set_Call ''b'' 60 1, Set_Call ''c'' 30 2, Set_Call ''d'' 10 3]" 100] by auto
  moreover have "fcache_len c = 3" using c(1)
    by (auto simp: open_file_cache_def fcache_set_def make_way_def make_room.simps evict_oldest_def fcache_len_def Let_def)
  ultimately show ?thesis by auto
qed

section \<open>History of a file\<close>

text \<open>
  What the manager stores: an old text, or the metadata of a file, the counters of its entries and the next
  counter. \<open>history_store\<close> is the cache as the manager uses it.
\<close>

datatype history_value = Old_Text str | Metadata "nat list" nat

record 'c history_store =
  hs_get :: "str \<Rightarrow> 'c \<Rightarrow> history_value option \<times> 'c"
  hs_set :: "str \<Rightarrow> history_value \<Rightarrow> 'c \<Rightarrow> py_exc + 'c"
  hs_delete :: "str \<Rightarrow> 'c \<Rightarrow> 'c"

definition get_metadata_key :: "str \<Rightarrow> str" where
  "get_metadata_key path = path @ ''.metadata''"

definition get_history_key :: "str \<Rightarrow> nat \<Rightarrow> str" where
  "get_history_key path counter = path @ ''.'' @ nat_to_str counter"

text \<open>Reading the metadata; subscripting a text that lies there instead raises.\<close>

definition get_metadata :: "'c history_store \<Rightarrow> str \<Rightarrow> 'c \<Rightarrow> py_exc + (nat list \<times> nat) \<times> 'c" where
  "get_metadata H path c =
     (case hs_get H (get_metadata_key path) c of
        (None, c') \<Rightarrow> Inr (([], 0), c')
      | (Some (Metadata entries counter), c') \<Rightarrow> Inr ((entries, counter), c')
      | (Some (Old_Text t), c') \<Rightarrow> Inl (TypeError ''string indices must be integers''))"

fun trim_entries :: "'c history_store \<Rightarrow> int \<Rightarrow> str \<Rightarrow> nat list \<Rightarrow> 'c \<Rightarrow> py_exc + nat list \<times> 'c" where
  "trim_entries H max_history path [] c = (if 0 > max_history then Inl IndexError else Inr ([], c))"
| "trim_entries H max_history path (old # entries) c =
     (if int (length (old # entries)) > max_history
      then trim_entries H max_history path entries (hs_delete H (get_history_key path old) c)
      else Inr (old # entries, c))"

definition add_history :: "'c history_store \<Rightarrow> int \<Rightarrow> str \<Rightarrow> str \<Rightarrow> 'c \<Rightarrow> py_exc + 'c" where
  "add_history H max_history path content c =
     rbind (get_metadata H path c) (\<lambda>((entries, counter), c1).
     rbind (hs_set H (get_history_key path counter) (Old_Text content) c1) (\<lambda>c2.
     rbind (trim_entries H max_history path (entries @ [counter]) c2) (\<lambda>(entries', c3).
     hs_set H (get_metadata_key path) (Metadata entries' (counter + 1)) c3)))"

definition pop_last_history :: "'c history_store \<Rightarrow> str \<Rightarrow> 'c \<Rightarrow> py_exc + history_value option \<times> 'c" where
  "pop_last_history H path c =
     rbind (get_metadata H path c) (\<lambda>((entries, counter), c1).
     if entries = [] then Inr (None, c1)
     else let history_key = get_history_key path (last entries);
              (content, c2) = hs_get H history_key c1;
              c3 = (if content = None then c2 else hs_delete H history_key c2)
          in rbind (hs_set H (get_metadata_key path) (Metadata (butlast entries) counter) c3) (\<lambda>c4. Inr (content, c4)))"

definition clear_history :: "'c history_store \<Rightarrow> str \<Rightarrow> 'c \<Rightarrow> py_exc + 'c" where
  "clear_history H path c =
     rbind (get_metadata H path c) (\<lambda>((entries, counter), c1).
     hs_set H (get_metadata_key path) (Metadata [] 0)
       (fold (\<lambda>i. hs_delete H (get_history_key path i)) entries c1))"

fun collect_history :: "'c history_store \<Rightarrow> str \<Rightarrow> nat list \<Rightarrow> 'c \<Rightarrow> history_value list \<times> 'c" where
  "collect_history H path [] c = ([], c)"
| "collect_history H path (i # entries) c =
     (let (content, c1) = hs_get H (get_history_key path i) c; (hist, c2) = collect_history H path entries c1
      in (case content of None \<Rightarrow> hist | Some v \<Rightarrow> v # hist, c2))"

definition get_all_history :: "'c history_store \<Rightarrow> str \<Rightarrow> 'c \<Rightarrow> py_exc + history_value list \<times> 'c" where
  "get_all_history H path c = rbind (get_metadata H path c) (\<lambda>((entries, counter), c1). Inr (collect_history H path entries c1))"

text \<open>The manager's own cache: a \<open>FileCache\<close> without a limit.\<close>

definition file_history_store :: "(str \<Rightarrow> str) \<Rightarrow> (str \<Rightarrow> history_value \<Rightarrow> nat) \<Rightarrow> int \<Rightarrow> history_value file_cache history_store" where
  "file_history_store digest dumped now =
     \<lparr>hs_get = fcache_get digest now, hs_set = fcache_set digest dumped now, hs_delete = fcache_delete digest\<rparr>"

section \<open>The history is a bounded stack\<close>

lemma last_separator:
  assumes "x @ c # a = y @ c # b" "c \<notin> set a" "c \<notin> set b"
  shows "x = y \<and> a = b"
proof -
  have t: "takeWhile (\<lambda>d. d \<noteq> c) (rev a @ c # rev x) = rev a" if "c \<notin> set a" for a x
    using that by (subst takeWhile_append2) auto
  have e: "rev a @ c # rev x = rev b @ c # rev y" using arg_cong[OF assms(1), of rev] by simp
  then have "rev a = rev b" using t[OF assms(2), of x] t[OF assms(3), of y] by simp
  then show ?thesis using e by simp
qed

lemma no_dot_in_number: "CHR ''.'' \<notin> set (nat_to_str n)"
  using set_nat_to_str[of "CHR ''.''" n] by (auto simp: is_digit_def)

lemma history_key_inject [simp]: "get_history_key p m = get_history_key q n \<longleftrightarrow> p = q \<and> m = n"
  using last_separator[of p "CHR ''.''" "nat_to_str m" q "nat_to_str n"]
  by (auto simp: get_history_key_def no_dot_in_number)

lemma metadata_key_inject [simp]: "get_metadata_key p = get_metadata_key q \<longleftrightarrow> p = q"
  by (simp add: get_metadata_key_def)

lemma metadata_key_neq [simp]: "get_metadata_key p \<noteq> get_history_key q n" "get_history_key q n \<noteq> get_metadata_key p"
proof -
  have "CHR ''m'' \<notin> set (nat_to_str n)" using set_nat_to_str[of "CHR ''m''" n] by (auto simp: is_digit_def)
  then have "''metadata'' \<noteq> nat_to_str n" by (metis list.set_intros(1))
  then show "get_metadata_key p \<noteq> get_history_key q n"
    using last_separator[of p "CHR ''.''" "''metadata''" q "nat_to_str n"]
    by (auto simp: get_metadata_key_def get_history_key_def no_dot_in_number)
  then show "get_history_key q n \<noteq> get_metadata_key p" by (rule not_sym)
qed

text \<open>What the stored values say about the history of a path, and what they have to satisfy.\<close>

definition entries_of :: "(str \<Rightarrow> history_value option) \<Rightarrow> str \<Rightarrow> nat list" where
  "entries_of look p = (case look (get_metadata_key p) of Some (Metadata entries counter) \<Rightarrow> entries | _ \<Rightarrow> [])"

definition counter_of :: "(str \<Rightarrow> history_value option) \<Rightarrow> str \<Rightarrow> nat" where
  "counter_of look p = (case look (get_metadata_key p) of Some (Metadata entries counter) \<Rightarrow> counter | _ \<Rightarrow> 0)"

definition text_at :: "(str \<Rightarrow> history_value option) \<Rightarrow> str \<Rightarrow> nat \<Rightarrow> str" where
  "text_at look p i = (case look (get_history_key p i) of Some (Old_Text t) \<Rightarrow> t | _ \<Rightarrow> [])"

definition stack_of :: "(str \<Rightarrow> history_value option) \<Rightarrow> str \<Rightarrow> str list" where
  "stack_of look p = map (text_at look p) (entries_of look p)"

definition path_history_ok :: "int \<Rightarrow> (str \<Rightarrow> history_value option) \<Rightarrow> str \<Rightarrow> bool" where
  "path_history_ok max_history look p \<longleftrightarrow>
     (case look (get_metadata_key p) of Some (Old_Text t) \<Rightarrow> False | _ \<Rightarrow> True) \<and>
     distinct (entries_of look p) \<and> int (length (entries_of look p)) \<le> max_history \<and>
     (\<forall>i \<in> set (entries_of look p). i < counter_of look p \<and> (\<exists>t. look (get_history_key p i) = Some (Old_Text t)))"

definition history_keys :: "str set \<Rightarrow> nat \<Rightarrow> str set" where
  "history_keys P n = get_metadata_key ` P \<union> {get_history_key p i |p i. p \<in> P \<and> i < n}"

text \<open>The last \<open>n\<close> of a list.\<close>

definition keep_newest :: "nat \<Rightarrow> 'a list \<Rightarrow> 'a list" where
  "keep_newest n xs = drop (length xs - n) xs"


lemma keep_newest_simps [simp]:
  "keep_newest n [] = []"
  "keep_newest n (x # xs) = (if length xs < n then x # xs else keep_newest n xs)"
  by (auto simp: keep_newest_def Suc_diff_le)

lemma keep_newest_map: "keep_newest n (map f xs) = map f (keep_newest n xs)"
  by (simp add: keep_newest_def drop_map)

lemma set_keep_newest: "set (keep_newest n xs) \<subseteq> set xs"
  by (auto simp: keep_newest_def dest: in_set_dropD)

lemma dropped_not_kept: "distinct xs \<Longrightarrow> x \<in> set (keep_newest n xs) \<Longrightarrow> x \<notin> set (take (length xs - n) xs)"
  using set_take_disj_set_drop_if_distinct[of xs "length xs - n" "length xs - n"] by (auto simp: keep_newest_def)

lemma length_keep_newest: "length (keep_newest n xs) = min n (length xs)"
  by (simp add: keep_newest_def)

text \<open>The history of a path depends on its own keys only.\<close>

lemma history_cong:
  assumes "look' (get_metadata_key p) = look (get_metadata_key p)"
    "\<forall>i \<in> set (entries_of look p). look' (get_history_key p i) = look (get_history_key p i)"
  shows "entries_of look' p = entries_of look p" "counter_of look' p = counter_of look p" "stack_of look' p = stack_of look p"
    "path_history_ok m look' p = path_history_ok m look p"
proof -
  show 1: "entries_of look' p = entries_of look p" "counter_of look' p = counter_of look p"
    using assms(1) by (simp_all add: entries_of_def counter_of_def)
  show "stack_of look' p = stack_of look p"
    using assms(2) by (simp add: stack_of_def 1 text_at_def)
  show "path_history_ok m look' p = path_history_ok m look p"
    using assms by (simp add: path_history_ok_def 1)
qed

text \<open>
  What the manager relies on: a map from keys to values, for the keys \<open>K\<close> it uses. \<open>look\<close> reads the map off
  the state.
\<close>

locale history_backing =
  fixes H :: "'c history_store" and look :: "'c \<Rightarrow> str \<Rightarrow> history_value option" and K :: "str set" and good :: "'c \<Rightarrow> bool"
  assumes get_law: "good c \<Longrightarrow> k \<in> K \<Longrightarrow>
      \<exists>c'. hs_get H k c = (look c k, c') \<and> good c' \<and> (\<forall>k' \<in> K. look c' k' = look c k')"
    and set_law: "good c \<Longrightarrow> k \<in> K \<Longrightarrow>
      \<exists>c'. hs_set H k v c = Inr c' \<and> good c' \<and> (\<forall>k' \<in> K. look c' k' = (if k' = k then Some v else look c k'))"
    and delete_law: "good c \<Longrightarrow> k \<in> K \<Longrightarrow>
      good (hs_delete H k c) \<and> (\<forall>k' \<in> K. look (hs_delete H k c) k' = (if k' = k then None else look c k'))"
begin

lemma trim_entries_ok:
  assumes "good c" "0 \<le> m" "\<forall>i \<in> set es. get_history_key p i \<in> K"
  shows "\<exists>c'. trim_entries H m p es c = Inr (keep_newest (nat m) es, c') \<and> good c' \<and>
    (\<forall>k \<in> K. look c' k = (if k \<in> get_history_key p ` set (take (length es - nat m) es) then None else look c k))"
  using assms
proof (induction es arbitrary: c)
  case (Cons i es)
  show ?case
  proof (cases "int (length (i # es)) > m")
    case True
    then have "nat m \<le> length es" using Cons.prems(2) by simp
    then have n: "Suc (length es) - nat m = Suc (length es - nat m)" "\<not> length es < nat m" by (simp_all add: Suc_diff_le)
    have k: "get_history_key p i \<in> K" using Cons.prems(3) by simp
    note d = delete_law[OF Cons.prems(1) k]
    from Cons.IH[of "hs_delete H (get_history_key p i) c"] Cons.prems d obtain c' where
      "trim_entries H m p es (hs_delete H (get_history_key p i) c) = Inr (keep_newest (nat m) es, c')" "good c'"
      "\<forall>k \<in> K. look c' k = (if k \<in> get_history_key p ` set (take (length es - nat m) es) then None else look (hs_delete H (get_history_key p i) c) k)"
      by auto
    then show ?thesis using True n d by auto
  next
    case False
    then have "length es < nat m" "Suc (length es) - nat m = 0" by simp_all
    then show ?thesis using False Cons.prems by simp
  qed
qed simp

lemma get_metadata_ok:
  assumes "good c" "path_history_ok m (look c) p" "get_metadata_key p \<in> K"
  obtains c' where "get_metadata H p c = Inr ((entries_of (look c) p, counter_of (look c) p), c')" "good c'"
    "\<forall>k \<in> K. look c' k = look c k"
  using get_law[OF assms(1,3)] assms(2)
  by (auto simp: get_metadata_def entries_of_def counter_of_def path_history_ok_def split: option.splits history_value.splits)

lemma add_history_ok:
  assumes c: "good c" and m: "0 \<le> m" and ok: "path_history_ok m (look c) p"
    and K: "get_metadata_key p \<in> K" "\<forall>i \<le> counter_of (look c) p. get_history_key p i \<in> K"
  shows "\<exists>c'. add_history H m p t c = Inr c' \<and> good c' \<and> path_history_ok m (look c') p \<and>
    counter_of (look c') p = Suc (counter_of (look c) p) \<and> stack_of (look c') p = keep_newest (nat m) (stack_of (look c) p @ [t]) \<and>
    (\<forall>k \<in> K. k \<noteq> get_metadata_key p \<and> (\<forall>i. k \<noteq> get_history_key p i) \<longrightarrow> look c' k = look c k)"
proof -
  define es n where d: "es = entries_of (look c) p" "n = counter_of (look c) p"
  let ?l = "es @ [n]"
  have es: "distinct ?l" "\<forall>i \<in> set es. i < n \<and> (\<exists>t. look c (get_history_key p i) = Some (Old_Text t))"
    using ok by (auto simp: path_history_ok_def d)
  have kk: "\<forall>i \<in> set ?l. get_history_key p i \<in> K" using K(2) es(2) by (auto simp: d(2)[symmetric])
  obtain c1 where 1: "get_metadata H p c = Inr ((es, n), c1)" "good c1" "\<forall>k \<in> K. look c1 k = look c k"
    using get_metadata_ok[OF c ok K(1)] unfolding d by metis
  obtain c2 where 2: "hs_set H (get_history_key p n) (Old_Text t) c1 = Inr c2" "good c2"
      "\<forall>k \<in> K. look c2 k = (if k = get_history_key p n then Some (Old_Text t) else look c1 k)"
    using set_law[OF 1(2)] kk by (metis in_set_conv_decomp)
  obtain c3 where 3: "trim_entries H m p ?l c2 = Inr (keep_newest (nat m) ?l, c3)" "good c3"
      "\<forall>k \<in> K. look c3 k = (if k \<in> get_history_key p ` set (take (length ?l - nat m) ?l) then None else look c2 k)"
    using trim_entries_ok[OF 2(2) m kk] by blast
  obtain c4 where 4: "hs_set H (get_metadata_key p) (Metadata (keep_newest (nat m) ?l) (n + 1)) c3 = Inr c4" "good c4"
      "\<forall>k \<in> K. look c4 k = (if k = get_metadata_key p then Some (Metadata (keep_newest (nat m) ?l) (n + 1)) else look c3 k)"
    using set_law[OF 3(2) K(1)] by blast
  have new: "look c4 (get_history_key p i) = (if i = n then Some (Old_Text t) else look c (get_history_key p i))"
    if "i \<in> set (keep_newest (nat m) ?l)" for i
  proof -
    note k = bspec[OF kk subsetD[OF set_keep_newest that]]
    have "get_history_key p i \<notin> get_history_key p ` set (take (length ?l - nat m) ?l)"
      using dropped_not_kept[OF es(1) that] by auto
    then show ?thesis using bspec[OF 1(3) k] bspec[OF 2(3) k] bspec[OF 3(3) k] bspec[OF 4(3) k] by simp
  qed
  have meta: "look c4 (get_metadata_key p) = Some (Metadata (keep_newest (nat m) ?l) (n + 1))" using 4(3) K(1) by simp
  have stack: "stack_of (look c4) p = keep_newest (nat m) (stack_of (look c) p @ [t])"
  proof -
    have "stack_of (look c4) p = map (\<lambda>i. if i = n then t else text_at (look c) p i) (keep_newest (nat m) ?l)"
      using new by (auto simp: stack_of_def text_at_def entries_of_def meta)
    also have "\<dots> = keep_newest (nat m) (map (\<lambda>i. if i = n then t else text_at (look c) p i) ?l)" by (simp only: keep_newest_map)
    also have "map (\<lambda>i. if i = n then t else text_at (look c) p i) ?l = stack_of (look c) p @ [t]"
      using es(2) by (auto simp: stack_of_def d(1)[symmetric])
    finally show ?thesis .
  qed
  have "path_history_ok m (look c4) p"
    unfolding path_history_ok_def
  proof (intro conjI ballI)
    show "distinct (entries_of (look c4) p)" using distinct_drop[OF es(1)] by (simp only: entries_of_def meta keep_newest_def option.case history_value.case)
    show "int (length (entries_of (look c4) p)) \<le> m" using m by (auto simp: entries_of_def meta length_keep_newest)
  next
    fix i
    assume "i \<in> set (entries_of (look c4) p)"
    then have i: "i \<in> set (keep_newest (nat m) ?l)" by (simp add: entries_of_def meta)
    then have "i \<in> set ?l" by (rule subsetD[OF set_keep_newest])
    then show "i < counter_of (look c4) p" "\<exists>t. look c4 (get_history_key p i) = Some (Old_Text t)"
      using new[OF i] es(2) by (auto simp: counter_of_def meta)
  qed (simp add: meta)
  moreover have "add_history H m p t c = Inr c4" using 1(1) 2(1) 3(1) 4(1) by (simp add: add_history_def)
  moreover have "look c4 k = look c k" if "k \<in> K" "k \<noteq> get_metadata_key p" "\<forall>i. k \<noteq> get_history_key p i" for k
    using that bspec[OF 1(3) that(1)] bspec[OF 2(3) that(1)] bspec[OF 3(3) that(1)] bspec[OF 4(3) that(1)] by auto
  moreover have "counter_of (look c4) p = Suc n" by (simp add: counter_of_def meta)
  ultimately show ?thesis using 4(2) stack unfolding d(2) by blast
qed

lemma pop_last_history_ok:
  assumes c: "good c" and ok: "path_history_ok m (look c) p"
    and K: "get_metadata_key p \<in> K" "\<forall>i < counter_of (look c) p. get_history_key p i \<in> K"
  shows "\<exists>c'. pop_last_history H p c =
      Inr (if stack_of (look c) p = [] then None else Some (Old_Text (last (stack_of (look c) p))), c') \<and>
    good c' \<and> path_history_ok m (look c') p \<and>
    counter_of (look c') p = counter_of (look c) p \<and> stack_of (look c') p = butlast (stack_of (look c) p) \<and>
    (\<forall>k \<in> K. k \<noteq> get_metadata_key p \<and> (\<forall>i. k \<noteq> get_history_key p i) \<longrightarrow> look c' k = look c k)"
proof -
  define es n where d: "es = entries_of (look c) p" "n = counter_of (look c) p"
  have es: "distinct es" "\<forall>i \<in> set es. i < n \<and> (\<exists>t. look c (get_history_key p i) = Some (Old_Text t))"
    using ok by (auto simp: path_history_ok_def d)
  obtain c1 where 1: "get_metadata H p c = Inr ((es, n), c1)" "good c1" "\<forall>k \<in> K. look c1 k = look c k"
    using get_metadata_ok[OF c ok K(1)] unfolding d by metis
  show ?thesis
  proof (cases "es = []")
    case True
    have same: "look c1 (get_metadata_key p) = look c (get_metadata_key p)"
      "\<forall>i \<in> set (entries_of (look c) p). look c1 (get_history_key p i) = look c (get_history_key p i)"
      using 1(3) K(1) True d(1) by auto
    from True have "stack_of (look c) p = []" by (simp add: stack_of_def d(1)[symmetric])
    then show ?thesis using 1 True ok history_cong[OF same]
      by (intro exI[of _ c1]) (simp add: pop_last_history_def)
  next
    case False
    then obtain es' i where e: "es = es' @ [i]" by (metis rev_exhaust)
    have i: "get_history_key p i \<in> K" "look c (get_history_key p i) = Some (Old_Text (text_at (look c) p i))"
      using es(2) K(2) by (auto simp: e d(2)[symmetric] text_at_def)
    obtain c2 where 2: "hs_get H (get_history_key p i) c1 = (look c1 (get_history_key p i), c2)" "good c2"
        "\<forall>k \<in> K. look c2 k = look c1 k" using get_law[OF 1(2) i(1)] by blast
    define c3 where "c3 = hs_delete H (get_history_key p i) c2"
    have 3: "good c3" "\<forall>k \<in> K. look c3 k = (if k = get_history_key p i then None else look c2 k)"
      using delete_law[OF 2(2) i(1)] by (simp_all add: c3_def)
    obtain c4 where 4: "hs_set H (get_metadata_key p) (Metadata es' n) c3 = Inr c4" "good c4"
        "\<forall>k \<in> K. look c4 k = (if k = get_metadata_key p then Some (Metadata es' n) else look c3 k)"
      using set_law[OF 3(1) K(1)] by blast
    have meta: "look c4 (get_metadata_key p) = Some (Metadata es' n)" using 4(3) K(1) by simp
    have new: "look c4 (get_history_key p j) = look c (get_history_key p j)" if "j \<in> set es'" for j
    proof -
      have k: "get_history_key p j \<in> K" "j \<noteq> i" using that es K(2) by (auto simp: e d(2)[symmetric])
      show ?thesis using k(2) bspec[OF 1(3) k(1)] bspec[OF 2(3) k(1)] bspec[OF 3(2) k(1)] bspec[OF 4(3) k(1)] by simp
    qed
    have stack: "stack_of (look c) p = stack_of (look c4) p @ [text_at (look c) p i]"
      using new by (simp add: stack_of_def d(1)[symmetric] e entries_of_def[of "look c4"] meta text_at_def)
    have "path_history_ok m (look c4) p"
      using ok es new by (auto simp: path_history_ok_def entries_of_def[of "look c4"] counter_of_def meta d(1)[symmetric] e)
    moreover have "pop_last_history H p c = Inr (Some (Old_Text (text_at (look c) p i)), c4)"
      using 1(1) 2(1) 4(1) bspec[OF 1(3) i(1)] i(2) by (simp add: pop_last_history_def e c3_def)
    moreover have "look c4 k = look c k" if "k \<in> K" "k \<noteq> get_metadata_key p" "\<forall>i. k \<noteq> get_history_key p i" for k
      using that bspec[OF 1(3) that(1)] bspec[OF 2(3) that(1)] bspec[OF 3(2) that(1)] bspec[OF 4(3) that(1)] by auto
    moreover have "counter_of (look c4) p = n" by (simp add: counter_of_def meta)
    ultimately show ?thesis using 4(2) stack unfolding d(2) by (intro exI[of _ c4]) simp
  qed
qed

end

text \<open>
  The cache without a limit provides this for keys whose digests do not clash with those of other keys in
  use.
\<close>

definition clash_free :: "(str \<Rightarrow> str) \<Rightarrow> str set \<Rightarrow> str set" where
  "clash_free digest U = {k \<in> U. \<forall>k' \<in> U. digest k' = digest k \<longrightarrow> k' = k}"

definition fcache_look :: "(str \<Rightarrow> str) \<Rightarrow> 'v file_cache \<Rightarrow> str \<Rightarrow> 'v option" where
  "fcache_look digest c k = map_option cf_data (dict_get (fc_directory c) (digest k))"

interpretation fh: history_backing "file_history_store digest dumped now" "fcache_look digest" "clash_free digest U"
    "\<lambda>c. fc_size_limit c = None"
  for digest dumped now U
proof
  fix c :: "history_value file_cache" and k v
  assume c: "fc_size_limit c = None" and k: "k \<in> clash_free digest U"
  show "\<exists>c'. hs_get (file_history_store digest dumped now) k c = (fcache_look digest c k, c') \<and> fc_size_limit c' = None \<and>
      (\<forall>k' \<in> clash_free digest U. fcache_look digest c' k' = fcache_look digest c k')"
    using c by (auto simp: file_history_store_def fcache_get_def fcache_look_def split: option.splits)
  show "\<exists>c'. hs_set (file_history_store digest dumped now) k v c = Inr c' \<and> fc_size_limit c' = None \<and>
      (\<forall>k' \<in> clash_free digest U. fcache_look digest c' k' = (if k' = k then Some v else fcache_look digest c k'))"
    using c k by (auto simp: file_history_store_def fcache_set_def make_way_def fcache_look_def Let_def clash_free_def)
  show "fc_size_limit (hs_delete (file_history_store digest dumped now) k c) = None \<and>
      (\<forall>k' \<in> clash_free digest U.
        fcache_look digest (hs_delete (file_history_store digest dumped now) k c) k' = (if k' = k then None else fcache_look digest c k'))"
    using c k by (auto simp: file_history_store_def fcache_delete_def fcache_look_def clash_free_def split: option.splits)
qed

lemma clash_free_all: "inj_on digest U \<Longrightarrow> clash_free digest U = U"
  by (auto simp: clash_free_def inj_on_def)

text \<open>The history of the paths \<open>P\<close> in a cache, and what holds of it.\<close>

definition file_stack :: "(str \<Rightarrow> str) \<Rightarrow> history_value file_cache \<Rightarrow> str \<Rightarrow> str list" where
  "file_stack digest c p = stack_of (fcache_look digest c) p"

definition history_ok :: "(str \<Rightarrow> str) \<Rightarrow> int \<Rightarrow> str set \<Rightarrow> history_value file_cache \<Rightarrow> bool" where
  "history_ok digest max_history P c \<longleftrightarrow>
     fc_size_limit c = None \<and> (\<forall>p \<in> P. path_history_ok max_history (fcache_look digest c) p)"

definition history_counter :: "(str \<Rightarrow> str) \<Rightarrow> history_value file_cache \<Rightarrow> str \<Rightarrow> nat" where
  "history_counter digest c p = counter_of (fcache_look digest c) p"

lemma other_histories:
  assumes ok: "\<forall>q \<in> P. path_history_ok m look q" and P: "p \<in> P" and p: "path_history_ok m look' p"
    and same: "\<forall>k \<in> history_keys P n. k \<noteq> get_metadata_key p \<and> (\<forall>i. k \<noteq> get_history_key p i) \<longrightarrow> look' k = look k"
    and n: "\<forall>q \<in> P. counter_of look q \<le> n"
  shows "(\<forall>q \<in> P. path_history_ok m look' q) \<and> (\<forall>q \<in> P. q \<noteq> p \<longrightarrow> stack_of look' q = stack_of look q \<and> counter_of look' q = counter_of look q)"
proof -
  have *: "path_history_ok m look' q \<and> stack_of look' q = stack_of look q \<and> counter_of look' q = counter_of look q"
    if q: "q \<in> P" "q \<noteq> p" for q
  proof -
    have 1: "look' (get_metadata_key q) = look (get_metadata_key q)"
      using same q by (auto simp: history_keys_def)
    have 2: "look' (get_history_key q i) = look (get_history_key q i)" if "i \<in> set (entries_of look q)" for i
    proof -
      have "i < counter_of look q" using that ok q(1) by (auto simp: path_history_ok_def)
      then have "i < n" using n q(1) by fastforce
      then show ?thesis using same q by (auto simp: history_keys_def)
    qed
    show ?thesis using history_cong[where look' = look' and look = look and p = q] 1 2 ok q(1) by blast
  qed
  then show ?thesis using p by blast
qed

lemma history_keys_own:
  assumes "p \<in> P" "\<forall>q \<in> P. history_counter digest c q < n"
  shows "get_metadata_key p \<in> history_keys P n" "\<forall>i \<le> counter_of (fcache_look digest c) p. get_history_key p i \<in> history_keys P n"
    "\<forall>i < counter_of (fcache_look digest c) p. get_history_key p i \<in> history_keys P n"
    "\<forall>q \<in> P. counter_of (fcache_look digest c) q \<le> n"
  using assms by (fastforce simp: history_keys_def history_counter_def)+

lemma add_history_stack:
  assumes "inj_on digest (history_keys P n)" "history_ok digest m P c" "0 \<le> m" "p \<in> P" "\<forall>q \<in> P. history_counter digest c q < n"
  shows "\<exists>c'. add_history (file_history_store digest dumped now) m p t c = Inr c' \<and> history_ok digest m P c' \<and>
      file_stack digest c' p = keep_newest (nat m) (file_stack digest c p @ [t]) \<and>
      history_counter digest c' p = Suc (history_counter digest c p) \<and>
      (\<forall>q \<in> P - {p}. file_stack digest c' q = file_stack digest c q \<and> history_counter digest c' q = history_counter digest c q)"
proof -
  let ?L = "fcache_look digest" and ?K = "history_keys P n"
  have K: "clash_free digest ?K = ?K" using assms(1) by (rule clash_free_all)
  have c: "fc_size_limit c = None" "path_history_ok m (?L c) p" "\<forall>q \<in> P. path_history_ok m (?L c) q"
    using assms(2,4) by (auto simp: history_ok_def)
  note k = history_keys_own[OF assms(4,5)]
  obtain c1 where 1: "add_history (file_history_store digest dumped now) m p t c = Inr c1" "fc_size_limit c1 = None"
      "path_history_ok m (?L c1) p" "counter_of (?L c1) p = Suc (counter_of (?L c) p)"
      "stack_of (?L c1) p = keep_newest (nat m) (stack_of (?L c) p @ [t])"
      "\<forall>k \<in> ?K. k \<noteq> get_metadata_key p \<and> (\<forall>i. k \<noteq> get_history_key p i) \<longrightarrow> ?L c1 k = ?L c k"
    using fh.add_history_ok[where U = ?K and dumped = dumped and now = now and t = t, OF c(1) assms(3) c(2)] k unfolding K by blast
  show ?thesis
    using 1 other_histories[OF c(3) assms(4) 1(3,6) k(4)] by (auto simp: history_ok_def file_stack_def history_counter_def)
qed

lemma pop_history_stack:
  assumes "inj_on digest (history_keys P n)" "history_ok digest m P c" "p \<in> P" "\<forall>q \<in> P. history_counter digest c q < n"
  shows "\<exists>c'. pop_last_history (file_history_store digest dumped now) p c =
        Inr (if file_stack digest c p = [] then None else Some (Old_Text (last (file_stack digest c p))), c') \<and>
      history_ok digest m P c' \<and> file_stack digest c' p = butlast (file_stack digest c p) \<and>
      (\<forall>q \<in> P - {p}. file_stack digest c' q = file_stack digest c q)"
proof -
  let ?L = "fcache_look digest" and ?K = "history_keys P n"
  have K: "clash_free digest ?K = ?K" using assms(1) by (rule clash_free_all)
  have c: "fc_size_limit c = None" "path_history_ok m (?L c) p" "\<forall>q \<in> P. path_history_ok m (?L c) q"
    using assms(2,3) by (auto simp: history_ok_def)
  note k = history_keys_own[OF assms(3,4)]
  obtain c2 where 2: "pop_last_history (file_history_store digest dumped now) p c =
        Inr (if stack_of (?L c) p = [] then None else Some (Old_Text (last (stack_of (?L c) p))), c2)"
      "fc_size_limit c2 = None" "path_history_ok m (?L c2) p" "stack_of (?L c2) p = butlast (stack_of (?L c) p)"
      "\<forall>k \<in> ?K. k \<noteq> get_metadata_key p \<and> (\<forall>i. k \<noteq> get_history_key p i) \<longrightarrow> ?L c2 k = ?L c k"
    using fh.pop_last_history_ok[where U = ?K and dumped = dumped and now = now, OF c(1,2)] k unfolding K by blast
  show ?thesis
    using 2 other_histories[OF c(3) assms(3) 2(3,5) k(4)] by (auto simp: history_ok_def file_stack_def)
qed

text \<open>
  C23: the history manager is a bounded stack per file. As long as the digests of its keys do not clash,
  adding a text pushes it and keeps the newest \<open>max_history\<close> texts, popping returns the newest text and
  removes it, and the histories of other files stay as they are.
\<close>

theorem history_is_bounded_stack:
  assumes "inj_on digest (history_keys P n)" "history_ok digest m P c" "0 \<le> m" "p \<in> P"
    "\<forall>q \<in> P. history_counter digest c q < n"
  shows "(\<exists>c'. add_history (file_history_store digest dumped now) m p t c = Inr c' \<and> history_ok digest m P c' \<and>
      file_stack digest c' p = keep_newest (nat m) (file_stack digest c p @ [t]) \<and>
      (\<forall>q \<in> P - {p}. file_stack digest c' q = file_stack digest c q)) \<and>
    (\<exists>c'. pop_last_history (file_history_store digest dumped now) p c =
        Inr (if file_stack digest c p = [] then None else Some (Old_Text (last (file_stack digest c p))), c') \<and>
      history_ok digest m P c' \<and> file_stack digest c' p = butlast (file_stack digest c p) \<and>
      (\<forall>q \<in> P - {p}. file_stack digest c' q = file_stack digest c q))"
  using add_history_stack[OF assms, of dumped now t] pop_history_stack[OF assms(1,2,4,5), of dumped now] by blast

lemma empty_history_ok: "0 \<le> m \<Longrightarrow> history_ok digest m P (open_file_cache [] None)"
  by (auto simp: history_ok_def open_file_cache_def path_history_ok_def fcache_look_def entries_of_def)

lemma history_is_bounded_stack_witness:
  "\<exists>c'. add_history (file_history_store id (\<lambda>_ _. 1) 0) 10 ''/f'' ''old'' (open_file_cache [] None) = Inr c' \<and>
     file_stack id c' ''/f'' = [''old'']"
proof -
  have "file_stack id (open_file_cache [] None) ''/f'' = []" "history_counter id (open_file_cache [] None) ''/f'' = 0"
    by (simp_all add: file_stack_def stack_of_def entries_of_def history_counter_def counter_of_def fcache_look_def open_file_cache_def)
  then show ?thesis
    using history_is_bounded_stack[of id "{''/f''}" 1 10 "open_file_cache [] None" "''/f''" "\<lambda>_ _. 1" 0 "''old''"]
      empty_history_ok[of 10 id "{''/f''}"] by auto
qed


end
