(* ===== verification/File_Editor.thy ===== *)
theory File_Editor
  imports File_History File_Store Effects Complex_Main "HOL-Library.List_Lexorder" "HOL-Library.Char_ord"
begin

text \<open>
  The file editor tool: \<open>FileEditor\<close> (\<open>tools/file_editor/editor.py\<close>), the choice of encodings
  (\<open>utils/encoding.py\<close>) and the executor in front of it (\<open>impl.py\<close>).

  The file system is a map from absolute paths to folders and regular files with their bytes, time of change
  and mode; there are no symbolic links and no permissions, and the host is POSIX. Arguments of the model are
  the codecs of Python, the detectors of the packages \<open>charset_normalizer\<close> and \<open>binaryornot\<close>, which entry
  \<open>cachetools\<close> evicts, the home directories, \<open>mimetypes\<close>, base64 and the texts of operating system errors.
\<close>

section \<open>Paths\<close>

text \<open>A \<open>PurePosixPath\<close>: its root (empty, one or two slashes) and its components.\<close>

record py_path =
  pp_root :: str
  pp_parts :: "str list"

definition to_path :: "str \<Rightarrow> py_path" where
  "to_path s =
     \<lparr>pp_root = (if py_startswith s ''//'' \<and> \<not> py_startswith s ''///'' then ''//'' else if py_startswith s ''/'' then ''/'' else []),
      pp_parts = filter (\<lambda>c. c \<noteq> [] \<and> c \<noteq> ''.'') (py_split slash s)\<rparr>"

definition path_str :: "py_path \<Rightarrow> str" where
  "path_str p = (if pp_root p = [] \<and> pp_parts p = [] then ''.'' else pp_root p @ py_join [slash] (pp_parts p))"

definition path_name :: "py_path \<Rightarrow> str" where
  "path_name p = (if pp_parts p = [] then [] else last (pp_parts p))"

definition path_parent :: "py_path \<Rightarrow> py_path" where
  "path_parent p = p\<lparr>pp_parts := butlast (pp_parts p)\<rparr>"

text \<open>The suffix starts at the last dot, if that is neither the first nor the last character of the name.\<close>

definition path_suffix :: "py_path \<Rightarrow> str" where
  "path_suffix p =
     (let name = path_name p; tail = takeWhile (\<lambda>c. c \<noteq> CHR ''.'') (rev name) in
      if tail = [] \<or> length name \<le> length tail + 1 then [] else CHR ''.'' # rev tail)"

definition path_join :: "py_path \<Rightarrow> py_path \<Rightarrow> py_path" where
  "path_join a b = (if pp_root b \<noteq> [] then b else a\<lparr>pp_parts := pp_parts a @ pp_parts b\<rparr>)"

section \<open>Files\<close>

datatype fs_node = Folder | Regular (node_bytes: str) (node_mtime: int) (node_mode: int)

type_synonym files = "(abs_path, fs_node) dict"

text \<open>How the system resolves a path: every component on the way is looked up in an existing folder.\<close>

fun walk :: "files \<Rightarrow> abs_path \<Rightarrow> str list \<Rightarrow> abs_path option" where
  "walk fs cur [] = Some cur"
| "walk fs cur (c # cs) =
     (if dict_get fs cur \<noteq> Some Folder then None
      else if c = ''..'' then walk fs (butlast cur) cs else walk fs (cur @ [c]) cs)"

record editor_env =
  ee_cwd :: abs_path
  ee_workspace :: str
  ee_max_file_size :: int
  ee_home :: "str \<Rightarrow> str option"
  ee_detect :: "str \<Rightarrow> str option \<times> rat option"
  ee_decode :: "str \<Rightarrow> str \<Rightarrow> str option"
  ee_encode :: "str \<Rightarrow> str \<Rightarrow> str option"
  ee_is_binary :: "str \<Rightarrow> str \<Rightarrow> bool"
  ee_popitem :: "(str, str \<times> int) dict \<Rightarrow> (str, str \<times> int) dict"
  ee_guess_type :: "str \<Rightarrow> str option"
  ee_base64 :: "str \<Rightarrow> str"
  ee_os_error :: "str \<Rightarrow> str"
  ee_tick :: "int \<Rightarrow> int"
  ee_digest :: "str \<Rightarrow> str"
  ee_dumped :: "str \<Rightarrow> history_value \<Rightarrow> nat"

record editor =
  ed_files :: files
  ed_encodings :: "(str, str \<times> int) dict"
  ed_history :: "history_value file_cache"
  ed_clock :: int

type_synonym 'a edit = "(editor, 'a) eff"

definition locate :: "editor_env \<Rightarrow> files \<Rightarrow> py_path \<Rightarrow> abs_path option" where
  "locate env fs p = walk fs (if pp_root p = [] then ee_cwd env else []) (pp_parts p)"

definition node_at :: "editor_env \<Rightarrow> files \<Rightarrow> py_path \<Rightarrow> fs_node option" where
  "node_at env fs p = (case locate env fs p of None \<Rightarrow> None | Some q \<Rightarrow> dict_get fs q)"

definition exists_path :: "editor_env \<Rightarrow> files \<Rightarrow> py_path \<Rightarrow> bool" where
  "exists_path env fs p \<longleftrightarrow> node_at env fs p \<noteq> None"

definition is_dir_path :: "editor_env \<Rightarrow> files \<Rightarrow> py_path \<Rightarrow> bool" where
  "is_dir_path env fs p \<longleftrightarrow> node_at env fs p = Some Folder"

text \<open>
  \<open>Path.resolve\<close>: the normal form of the absolute path. A disk of the model has no symbolic links, so
  nothing is followed; with links the file that is checked here and the file that
  \<open>FileEditor._atomic_write\<close> replaces, at the path as given, can be two.
\<close>

definition resolve_lexically :: "editor_env \<Rightarrow> py_path \<Rightarrow> abs_path" where
  "resolve_lexically env p = norm_from [] ((if pp_root p = [] then ee_cwd env else []) @ pp_parts p)"

text \<open>\<open>is_host_absolute_path\<close> of \<open>sdk/utils/path.py\<close>: blanks around are dropped and a leading tilde is expanded.\<close>

definition expanduser :: "editor_env \<Rightarrow> py_path \<Rightarrow> py_exc + py_path" where
  "expanduser env p =
     (if pp_root p = [] \<and> pp_parts p \<noteq> [] \<and> py_startswith (hd (pp_parts p)) ''~'' then
        (case ee_home env (tl (hd (pp_parts p))) of
           None \<Rightarrow> Inl (RuntimeError ''Could not determine home directory.'')
         | Some home \<Rightarrow> Inr (path_join (to_path home) \<lparr>pp_root = [], pp_parts = tl (pp_parts p)\<rparr>))
      else Inr p)"

definition is_host_absolute_path :: "editor_env \<Rightarrow> py_path \<Rightarrow> py_exc + bool" where
  "is_host_absolute_path env path =
     (let text = py_strip (path_str path) in
      if text = [] then Inr False
      else rbind (expanduser env (to_path text)) (\<lambda>p. Inr (pp_root p \<noteq> [])))"

section \<open>Texts\<close>

text \<open>Reading in text mode turns every line end into a newline; lines keep theirs.\<close>

fun universal_newlines :: "str \<Rightarrow> str" where
  "universal_newlines [] = []"
| "universal_newlines (c # s) =
     (if c = CHR 0x0D then newline # universal_newlines (if py_startswith s [newline] then tl s else s)
      else c # universal_newlines s)"

fun text_lines_from :: "str \<Rightarrow> str \<Rightarrow> str list" where
  "text_lines_from acc [] = (if acc = [] then [] else [rev acc])"
| "text_lines_from acc (c # s) =
     (if c = newline then rev (c # acc) # text_lines_from [] s else text_lines_from (c # acc) s)"

definition text_lines :: "str \<Rightarrow> str list" where
  "text_lines s = text_lines_from [] s"

text \<open>The starts of the matches of \<open>re.finditer(re.escape(p), s)\<close>: from the left, without overlaps.\<close>

function find_matches :: "str \<Rightarrow> nat \<Rightarrow> str \<Rightarrow> nat list" where
  "find_matches p i s =
     (if p = [] then [i..<i + length s + 1]
      else if s = [] then []
      else if py_startswith s p then i # find_matches p (i + length p) (drop (length p) s)
      else find_matches p (Suc i) (tl s))"
  by pat_completeness auto
termination by (relation "measure (\<lambda>(_, _, s). length s)") auto

declare find_matches.simps [simp del]

definition count_newlines :: "str \<Rightarrow> nat" where
  "count_newlines s = length (filter (\<lambda>c. c = newline) s)"

definition list_text :: "('a \<Rightarrow> str) \<Rightarrow> 'a list \<Rightarrow> str" where
  "list_text f xs = ''['' @ py_join '', '' (map f xs) @ '']''"

text \<open>\<open>f"{n:6}"\<close>.\<close>

definition pad6 :: "int \<Rightarrow> str" where
  "pad6 n = replicate (6 - length (int_to_str n)) CHR '' '' @ int_to_str n"

text \<open>\<open>f"{size / 1024 / 1024:.1f}"\<close>: tenths of a megabyte, rounded to the nearest, ties to even.\<close>

definition megabytes :: "nat \<Rightarrow> str" where
  "megabytes n =
     (let q = n * 10 div 1048576; r = n * 10 mod 1048576;
          tenths = (if r > 524288 \<or> r = 524288 \<and> odd q then q + 1 else q)
      in nat_to_str (tenths div 10) @ ''.'' @ nat_to_str (tenths mod 10))"

section \<open>Observations and errors\<close>

record editor_observation =
  eo_text :: str
  eo_image_urls :: "str list"
  eo_command :: str
  eo_is_error :: bool
  eo_path :: "str option"
  eo_prev_exist :: bool
  eo_old_content :: "str option"
  eo_new_content :: "str option"

definition text_observation :: "str \<Rightarrow> str \<Rightarrow> editor_observation" where
  "text_observation command text =
     \<lparr>eo_text = text, eo_image_urls = [], eo_command = command, eo_is_error = False, eo_path = None, eo_prev_exist = True,
      eo_old_content = None, eo_new_content = None\<rparr>"

definition parameter_missing :: "str \<Rightarrow> str \<Rightarrow> py_exc" where
  "parameter_missing command parameter =
     ToolError (''Parameter `'' @ parameter @ ''` is required for command: '' @ command @ ''.'')"

definition parameter_invalid :: "str \<Rightarrow> str \<Rightarrow> str \<Rightarrow> py_exc" where
  "parameter_invalid parameter v hint =
     ToolError (''Invalid `'' @ parameter @ ''` parameter: '' @ v @ ''. '' @ hint)"

definition file_validation_error :: "str \<Rightarrow> str \<Rightarrow> py_exc" where
  "file_validation_error path reason = ToolError (''File validation failed for '' @ path @ '': '' @ reason)"

definition image_extensions :: "str set" where
  "image_extensions = {''.png'', ''.jpg'', ''.jpeg'', ''.gif'', ''.webp'', ''.bmp''}"

section \<open>Encodings\<close>

definition default_encoding :: str where
  "default_encoding = ''utf-8''"

text \<open>The confidence threshold is the double nearest to 0.9.\<close>

definition confidence_threshold :: rat where
  "confidence_threshold = 8106479329266893 / 9007199254740992"

text \<open>\<open>EncodingManager.detect_encoding\<close> of an existing file.\<close>

definition detect_encoding :: "editor_env \<Rightarrow> str \<Rightarrow> str" where
  "detect_encoding env bytes =
     (case ee_detect env (take (nat (min (int (length bytes)) 1048576)) bytes) of
        (Some enc, Some confidence) \<Rightarrow>
          if confidence > confidence_threshold \<and> enc \<noteq> [] then (if py_lower enc = ''ascii'' then default_encoding else enc) else default_encoding
      | _ \<Rightarrow> default_encoding)"

text \<open>The cache of at most 1000 encodings, in the order of the last access.\<close>

definition cache_encoding :: "editor_env \<Rightarrow> str \<Rightarrow> str \<times> int \<Rightarrow> (str, str \<times> int) dict \<Rightarrow> (str, str \<times> int) dict" where
  "cache_encoding env key v d =
     (if dict_get d key \<noteq> None then dict_del key d @ [(key, v)]
      else (if int (length d) \<ge> 1000 then ee_popitem env d else d) @ [(key, v)])"

definition get_encoding :: "editor_env \<Rightarrow> py_path \<Rightarrow> str edit" where
  "get_encoding env path e =
     (case node_at env (ed_files e) path of
        Some (Regular bytes mtime mode) \<Rightarrow>
          (case dict_get (ed_encodings e) (path_str path) of
             Some (enc, t) \<Rightarrow>
               if t = mtime then Some (e\<lparr>ed_encodings := dict_del (path_str path) (ed_encodings e) @ [(path_str path, (enc, t))]\<rparr>, Inr enc)
               else let enc' = detect_encoding env bytes in
                 Some (e\<lparr>ed_encodings := cache_encoding env (path_str path) (enc', mtime) (ed_encodings e)\<rparr>, Inr enc')
           | None \<Rightarrow>
               let enc' = detect_encoding env bytes in
               Some (e\<lparr>ed_encodings := cache_encoding env (path_str path) (enc', mtime) (ed_encodings e)\<rparr>, Inr enc'))
      | _ \<Rightarrow> Some (e, Inr default_encoding))"

text \<open>
  The decorator \<open>with_encoding\<close> of a method that takes an encoding. A folder gets the default of the
  parameter, which is the default encoding too.
\<close>

definition with_encoding :: "editor_env \<Rightarrow> py_path \<Rightarrow> (str \<Rightarrow> 'a edit) \<Rightarrow> 'a edit" where
  "with_encoding env path f e =
     (if is_dir_path env (ed_files e) path then f default_encoding e
      else if \<not> exists_path env (ed_files e) path then f default_encoding e
      else ebind (get_encoding env path) f e)"

section \<open>Reading and writing\<close>

definition validate_file :: "editor_env \<Rightarrow> py_path \<Rightarrow> unit edit" where
  "validate_file env path e =
     (case node_at env (ed_files e) path of
        Some (Regular bytes mtime mode) \<Rightarrow>
          if int (length bytes) > ee_max_file_size env then
            eraise (file_validation_error (path_str path)
              (''File is too large ('' @ megabytes (length bytes) @ ''MB). Maximum allowed size is ''
               @ int_to_str (ee_max_file_size env div 1048576) @ ''MB.'')) e
          else if ee_is_binary env (path_str path) bytes \<and> py_lower (path_suffix path) \<notin> image_extensions then
            eraise (file_validation_error (path_str path)
              ''File appears to be binary and this file type cannot be read or edited by this tool.'') e
          else eret () e
      | _ \<Rightarrow> eret () e)"

text \<open>Opening a path in text mode and reading all of it, or the exception's text.\<close>

definition open_text :: "editor_env \<Rightarrow> py_path \<Rightarrow> str \<Rightarrow> files \<Rightarrow> str + str" where
  "open_text env path enc fs =
     (case node_at env fs path of
        Some (Regular bytes mtime mode) \<Rightarrow>
          (case ee_decode env enc bytes of
             Some text \<Rightarrow> Inr (universal_newlines text)
           | None \<Rightarrow> Inl (ee_os_error env (path_str path)))
      | _ \<Rightarrow> Inl (ee_os_error env (path_str path)))"

definition count_lines :: "editor_env \<Rightarrow> py_path \<Rightarrow> nat edit" where
  "count_lines env path =
     with_encoding env path (\<lambda>enc e.
       case open_text env path enc (ed_files e) of
         Inl m \<Rightarrow> eraise (ValueError m) e
       | Inr text \<Rightarrow> eret (length (text_lines text)) e)"

text \<open>The lines \<open>start\<close> to \<open>end\<close>, counted from one.\<close>

definition line_range :: "int \<Rightarrow> int \<Rightarrow> str list \<Rightarrow> str list" where
  "line_range s t ls = drop (nat (s - 1)) (take (nat t) ls)"

definition read_file :: "editor_env \<Rightarrow> py_path \<Rightarrow> (int \<times> int) option \<Rightarrow> str edit" where
  "read_file env path bounds =
     with_encoding env path (\<lambda>enc. eseq (validate_file env path) (\<lambda>e.
       case open_text env path enc (ed_files e) of
         Inl m \<Rightarrow> eraise (ToolError (''Ran into '' @ m @ '' while trying to read '' @ path_str path)) e
       | Inr text \<Rightarrow>
           (case bounds of
              None \<Rightarrow> eret text e
            | Some (s, t) \<Rightarrow> eret (concat (line_range s t (text_lines text))) e)))"

text \<open>
  \<open>_atomic_write\<close>: the text goes to a new file beside the target, which then takes its place; a failure
  leaves everything as it was. A new file has the mode of the temporary file.
\<close>

definition atomic_write :: "editor_env \<Rightarrow> py_path \<Rightarrow> str \<Rightarrow> str \<Rightarrow> editor \<Rightarrow> str + editor" where
  "atomic_write env path file_text enc0 e =
     (let enc = (if enc0 \<noteq> default_encoding \<and> ee_encode env enc0 file_text = None then default_encoding else enc0);
          failed = Inl (ee_os_error env (path_str path))
      in if node_at env (ed_files e) (path_parent path) \<noteq> Some Folder then failed
         else (case (ee_encode env enc file_text, locate env (ed_files e) path) of
           (Some bytes, Some q) \<Rightarrow>
             (case dict_get (ed_files e) q of
                Some Folder \<Rightarrow> failed
              | Some (Regular b t mode) \<Rightarrow>
                  Inr (e\<lparr>ed_files := dict_put q (Regular bytes (ed_clock e) mode) (ed_files e), ed_clock := ee_tick env (ed_clock e)\<rparr>)
              | None \<Rightarrow>
                  Inr (e\<lparr>ed_files := dict_put q (Regular bytes (ed_clock e) 384) (ed_files e), ed_clock := ee_tick env (ed_clock e)\<rparr>))
         | _ \<Rightarrow> failed))"

definition editor_write_file :: "editor_env \<Rightarrow> py_path \<Rightarrow> str \<Rightarrow> unit edit" where
  "editor_write_file env path file_text =
     with_encoding env path (\<lambda>enc. eseq (validate_file env path) (\<lambda>e.
       case atomic_write env path file_text enc e of
         Inl m \<Rightarrow> eraise (ToolError (''Ran into '' @ m @ '' while trying to write to '' @ path_str path)) e
       | Inr e' \<Rightarrow> eret () e'))"

definition history_store_of :: "editor_env \<Rightarrow> editor \<Rightarrow> history_value file_cache history_store" where
  "history_store_of env e = file_history_store (ee_digest env) (ee_dumped env) (ed_clock e)"

definition push_history :: "editor_env \<Rightarrow> py_path \<Rightarrow> str \<Rightarrow> unit edit" where
  "push_history env path content e =
     (case add_history (history_store_of env e) 10 (path_str path) content (ed_history e) of
        Inl x \<Rightarrow> eraise x e
      | Inr h \<Rightarrow> eret () (e\<lparr>ed_history := h\<rparr>))"

definition pop_history :: "editor_env \<Rightarrow> py_path \<Rightarrow> history_value option edit" where
  "pop_history env path e =
     (case pop_last_history (history_store_of env e) (path_str path) (ed_history e) of
        Inl x \<Rightarrow> eraise x e
      | Inr (v, h) \<Rightarrow> eret v (e\<lparr>ed_history := h\<rparr>))"

section \<open>Output\<close>

definition max_response_len :: int where
  "max_response_len = 16000"

definition text_file_notice :: str where
  "text_file_notice =
     ''<response clipped><NOTE>Due to the max output limit, only part of this file has been shown to you. ''
     @ ''You should retry this tool after you have searched inside the file with `grep -n` in order to find the ''
     @ ''line numbers of what you are looking for.</NOTE>''"

definition directory_notice :: str where
  "directory_notice =
     ''<response clipped><NOTE>Due to the max output limit, only part of this directory has been shown to you. ''
     @ ''You should use `ls -la` instead to view large directories incrementally.</NOTE>''"

text \<open>The numbered lines of \<open>_make_output\<close> (no caller asks for its other form, converted Markdown).\<close>

definition number_lines :: "int \<Rightarrow> str \<Rightarrow> str" where
  "number_lines start_line content =
     py_join [newline] (map (\<lambda>(i, line). pad6 (int i + start_line) @ [CHR 0x09] @ line) (enumerate 0 (py_split newline content)))"

definition make_output :: "str \<Rightarrow> str \<Rightarrow> int \<Rightarrow> str" where
  "make_output content description start_line =
     ''Here'' @ [CHR 0x27] @ ''s the result of running `cat -n` on '' @ description @ '':'' @ [newline]
     @ number_lines start_line (maybe_truncate content (Some max_response_len) text_file_notice None) @ [newline]"

section \<open>Commands\<close>

definition validate_path :: "editor_env \<Rightarrow> str \<Rightarrow> py_path \<Rightarrow> unit edit" where
  "validate_path env command path e =
     (case is_host_absolute_path env path of
        Inl x \<Rightarrow> eraise x e
      | Inr absolute \<Rightarrow>
          if \<not> absolute then
            (let suggested = path_join (to_path (ee_workspace env)) path in
             eraise (parameter_invalid ''path'' (path_str path)
               (''The path should be an absolute path.'' @
                (if exists_path env (ed_files e) suggested then '' Maybe you meant '' @ path_str suggested @ ''?'' else []))) e)
          else if command = ''create'' \<and> exists_path env (ed_files e) path then
            eraise (parameter_invalid ''path'' (path_str path)
              (''File already exists at: '' @ path_str path @ ''. Cannot overwrite files using command `create`.'')) e
          else if command \<noteq> ''create'' \<and> \<not> exists_path env (ed_files e) path then
            eraise (parameter_invalid ''path'' (path_str path)
              (''The path '' @ path_str path @ '' does not exist. Please provide a valid path.'')) e
          else if command \<noteq> ''view'' \<and> is_dir_path env (ed_files e) path then
            eraise (parameter_invalid ''path'' (path_str path)
              (''The path '' @ path_str path @ '' is a directory and only the `view` command can be used on directories.'')) e
          else eret () e)"

text \<open>The occurrences of \<open>old_str\<close>: line, text and start of each match.\<close>

definition occurrences :: "str \<Rightarrow> str \<Rightarrow> nat list" where
  "occurrences old_str content = find_matches old_str 0 content"

definition line_of :: "str \<Rightarrow> nat \<Rightarrow> nat" where
  "line_of content i = count_newlines (take i content) + 1"

text \<open>
  The text that is replaced and where: a match of \<open>old_str\<close>, or of \<open>old_str\<close> without the blanks around it
  if there is none. Anything but one match is an error.
\<close>

definition find_unique :: "str \<Rightarrow> str \<Rightarrow> str \<Rightarrow> py_exc + str \<times> nat" where
  "find_unique path old_str content =
     (let old = (if occurrences old_str content = [] then py_strip old_str else old_str);
          found = occurrences old content
      in if found = [] then
           Inl (ToolError (''No replacement was performed, old_str `'' @ old @ ''` did not appear verbatim in '' @ path @ ''.''))
         else if length found > 1 then
           Inl (ToolError (''No replacement was performed. Multiple occurrences of old_str `'' @ old @ ''` in lines ''
             @ list_text nat_to_str (sort (remdups (map (line_of content) found))) @ ''. Please ensure it is unique.''))
         else Inr (old, hd found))"

text \<open>The replacement of the match of \<open>old\<close> at \<open>idx\<close>: the write, the history, and the snippet for the answer.\<close>

definition replace_match :: "editor_env \<Rightarrow> py_path \<Rightarrow> str \<Rightarrow> str \<Rightarrow> nat \<Rightarrow> str \<Rightarrow> editor_observation edit" where
  "replace_match env path content old idx new_str =
     (let new_content = take idx content @ new_str @ drop (idx + length old) content;
          replacement_line = int (line_of content idx);
          start_line = max 0 (replacement_line - 4);
          end_line = replacement_line + 4 + int (count_newlines new_str)
      in eseq (editor_write_file env path new_content) (
         eseq (push_history env path content) (
         ebind (read_file env path (Some (start_line + 1, end_line))) (\<lambda>snippet.
         eret ((text_observation ''str_replace''
             (''The file '' @ path_str path @ '' has been edited. ''
              @ make_output snippet (''a snippet of '' @ path_str path) (start_line + 1)
              @ ''Review the changes and make sure they are as expected. Edit the file again if necessary.''))
           \<lparr>eo_path := Some (path_str path), eo_old_content := Some content, eo_new_content := Some new_content\<rparr>)))))"

definition str_replace :: "editor_env \<Rightarrow> py_path \<Rightarrow> str \<Rightarrow> str \<Rightarrow> editor_observation edit" where
  "str_replace env path old_str new_str =
     eseq (validate_file env path) (
     ebind (read_file env path None) (\<lambda>content.
     case find_unique (path_str path) old_str content of
       Inl x \<Rightarrow> eraise x
     | Inr (old, idx) \<Rightarrow> replace_match env path content old idx new_str))"

text \<open>The insertion after line \<open>n\<close> of a text of \<open>num_lines\<close> lines.\<close>

definition insert_lines :: "editor_env \<Rightarrow> py_path \<Rightarrow> nat \<Rightarrow> int \<Rightarrow> str \<Rightarrow> str \<Rightarrow> editor_observation edit" where
  "insert_lines env path num_lines insert_line new_str content =
     (let n = nat insert_line;
          lines = text_lines content;
          new_str_lines = py_split newline new_str;
          new_lines = take n lines @ map (\<lambda>line. line @ [newline]) new_str_lines @ drop n lines;
          start_line = max 0 (insert_line - 4);
          end_line = min (int num_lines + int (length new_str_lines)) (insert_line + 4 + int (length new_str_lines))
      in eseq (editor_write_file env path (concat new_lines)) (
         ebind (read_file env path (Some (start_line + 1, end_line))) (\<lambda>snippet.
         eseq (push_history env path (concat lines)) (
         ebind (read_file env path None) (\<lambda>new_file_text.
         eret ((text_observation ''insert''
             (''The file '' @ path_str path @ '' has been edited. ''
              @ make_output snippet ''a snippet of the edited file'' (max 1 (insert_line - 4 + 1))
              @ ''Review the changes and make sure they are as expected (correct indentation, no duplicate lines, etc). ''
              @ ''Edit the file again if necessary.''))
           \<lparr>eo_path := Some (path_str path), eo_old_content := Some (concat lines), eo_new_content := Some new_file_text\<rparr>))))))"

definition insert_text :: "editor_env \<Rightarrow> py_path \<Rightarrow> int \<Rightarrow> str \<Rightarrow> editor_observation edit" where
  "insert_text env path insert_line new_str =
     with_encoding env path (\<lambda>enc. eseq (validate_file env path) (
     ebind (count_lines env path) (\<lambda>num_lines.
     if insert_line < 0 \<or> insert_line > int num_lines then
       eraise (parameter_invalid ''insert_line'' (int_to_str insert_line)
         (''It should be within the range of allowed values: '' @ list_text int_to_str [0, int num_lines]))
     else ebind (\<lambda>e. case open_text env path enc (ed_files e) of Inl m \<Rightarrow> eraise (ValueError m) e | Inr content \<Rightarrow> eret content e)
       (insert_lines env path num_lines insert_line new_str))))"

text \<open>What was popped is written as a text; a stored metadata value in its place would fail in the write.\<close>

definition undo_edit :: "editor_env \<Rightarrow> py_path \<Rightarrow> editor_observation edit" where
  "undo_edit env path =
     ebind (read_file env path None) (\<lambda>current_text.
     ebind (pop_history env path) (\<lambda>old.
     case old of
       None \<Rightarrow> eraise (ToolError (''No edit history found for '' @ path_str path @ ''.''))
     | Some (Metadata es n) \<Rightarrow>
         eraise (ToolError (''Ran into '' @ ee_os_error env (path_str path) @ '' while trying to write to '' @ path_str path))
     | Some (Old_Text old_text) \<Rightarrow>
         eseq (editor_write_file env path old_text) (
         eret ((text_observation ''undo_edit''
             (''Last edit to '' @ path_str path @ '' undone successfully. '' @ make_output old_text (path_str path) 1))
           \<lparr>eo_path := Some (path_str path), eo_old_content := Some current_text, eo_new_content := Some old_text\<rparr>))))"

section \<open>Viewing\<close>

definition is_hidden :: "str \<Rightarrow> bool" where
  "is_hidden name = py_startswith name ''.''"

definition children :: "files \<Rightarrow> abs_path \<Rightarrow> str list" where
  "children fs q = map last (filter (\<lambda>f. f \<noteq> [] \<and> butlast f = q) (dict_keys fs))"

definition count_hidden_children :: "files \<Rightarrow> abs_path \<Rightarrow> nat" where
  "count_hidden_children fs q = length (filter is_hidden (children fs q))"

text \<open>A line of the listing: the names below the root of the listing, with a slash after a folder.\<close>

definition format_directory_entry :: "files \<Rightarrow> py_path \<Rightarrow> abs_path \<Rightarrow> str list \<Rightarrow> str" where
  "format_directory_entry fs folder q names =
     (let root_display = to_posix_path (path_str folder);
          display = (if names = [] then root_display else root_display @ ''/'' @ to_posix_path (py_join [slash] names))
      in if dict_get fs (q @ names) = Some Folder then display @ ''/'' else display)"

definition visible_children :: "files \<Rightarrow> abs_path \<Rightarrow> str list" where
  "visible_children fs q = filter (\<lambda>name. \<not> is_hidden name) (sort (children fs q))"

definition list_directory_for_view :: "files \<Rightarrow> py_path \<Rightarrow> abs_path \<Rightarrow> str list" where
  "list_directory_for_view fs folder q =
     map (format_directory_entry fs folder q)
       ([] # concat (map (\<lambda>item. [item] #
           (if dict_get fs (q @ [item]) = Some Folder then map (\<lambda>child. [item, child]) (visible_children fs (q @ [item])) else []))
         (visible_children fs q)))"

definition view_directory :: "editor_env \<Rightarrow> py_path \<Rightarrow> abs_path \<Rightarrow> int list option \<Rightarrow> editor_observation edit" where
  "view_directory env path q view_range e =
     (case view_range of
        Some (i # is) \<Rightarrow>
          eraise (parameter_invalid ''view_range'' (list_text int_to_str (i # is))
            ''The `view_range` parameter is not allowed when `path` points to a directory.'') e
      | _ \<Rightarrow>
          (let hidden_count = count_hidden_children (ed_files e) q;
               listing = ''Here'' @ [CHR 0x27] @ ''s the files and directories up to 2 levels deep in '' @ path_str path
                 @ '', excluding hidden items:'' @ [newline]
                 @ py_join [newline] (list_directory_for_view (ed_files e) path q);
               hidden = newline # nat_to_str hidden_count @ '' hidden files/directories in this directory are excluded. You can use ''
                 @ [CHR 0x27] @ ''ls -la '' @ path_str path @ [CHR 0x27] @ '' to see them.''
           in eret ((text_observation ''view''
                (maybe_truncate (py_join [newline] (listing # (if hidden_count > 0 then [hidden] else [])))
                   (Some max_response_len) directory_notice None))
              \<lparr>eo_path := Some (path_str path)\<rparr>) e))"

definition view_image :: "editor_env \<Rightarrow> py_path \<Rightarrow> editor_observation edit" where
  "view_image env path e =
     (case node_at env (ed_files e) path of
        Some (Regular bytes mtime mode) \<Rightarrow>
          (let mime_type = (case ee_guess_type env (path_str path) of
                 Some t \<Rightarrow> if py_startswith t ''image/'' then t else ''image/png'' | None \<Rightarrow> ''image/png'')
           in eret ((text_observation ''view'' (''Image file '' @ path_str path @ '' read successfully. Displaying image content.''))
                \<lparr>eo_image_urls := [''data:'' @ mime_type @ '';base64,'' @ ee_base64 env bytes], eo_path := Some (path_str path)\<rparr>) e)
      | _ \<Rightarrow> eraise (ToolError (''Failed to read image file '' @ path_str path @ '': '' @ ee_os_error env (path_str path))) e)"

text \<open>A range of a file: the start must be a line, an end of minus one or past the last line is the last line.\<close>

definition view_range_of :: "nat \<Rightarrow> int list \<Rightarrow> py_exc + int \<times> int \<times> str" where
  "view_range_of num_lines view_range =
     (case view_range of
        [s, t] \<Rightarrow>
          if s < 1 \<or> s > int num_lines then
            Inl (parameter_invalid ''view_range'' (list_text int_to_str view_range)
              (''Its first element `'' @ int_to_str s @ ''` should be within the range of lines of the file: ''
               @ list_text int_to_str [1, int num_lines] @ ''.''))
          else (let t' = (if t = -1 \<or> t > int num_lines then int num_lines else t);
                    warning = (if t \<noteq> -1 \<and> t > int num_lines then
                      ''NOTE: We only show up to '' @ nat_to_str num_lines @ '' since there'' @ [CHR 0x27] @ ''re only ''
                      @ nat_to_str num_lines @ '' lines in this file.'' @ [newline] else [])
            in if t' < s then
              Inl (parameter_invalid ''view_range'' (list_text int_to_str view_range)
                (''Its second element `'' @ int_to_str t' @ ''` should be greater than or equal to the first element `''
                 @ int_to_str s @ ''`.''))
            else Inr (s, t', warning))
      | _ \<Rightarrow> Inl (parameter_invalid ''view_range'' (list_text int_to_str view_range) ''It should be a list of two integers.''))"

definition view_text :: "editor_env \<Rightarrow> py_path \<Rightarrow> int list option \<Rightarrow> editor_observation edit" where
  "view_text env path view_range =
     eseq (validate_file env path) (
     ebind (ecatch (count_lines env path) (\<lambda>x.
       case x of
         ValueError m \<Rightarrow> eraise (ToolError (''Cannot view '' @ path_str path @
           '': file contains binary content that cannot be decoded as text. Error: '' @ m))
       | _ \<Rightarrow> eraise x)) (\<lambda>num_lines.
     case view_range of
       Some (i # is) \<Rightarrow>
         (case view_range_of num_lines (i # is) of
            Inl x \<Rightarrow> eraise x
          | Inr (s, t, warning) \<Rightarrow>
              ebind (read_file env path (Some (s, t))) (\<lambda>content.
              eret ((text_observation ''view''
                  (warning @ make_output (py_join [newline] (py_splitlines content)) (path_str path) s))
                \<lparr>eo_path := Some (path_str path)\<rparr>)))
     | _ \<Rightarrow>
         ebind (read_file env path None) (\<lambda>content.
         eret ((text_observation ''view'' (make_output content (path_str path) 1))\<lparr>eo_path := Some (path_str path)\<rparr>))))"

definition view_path :: "editor_env \<Rightarrow> py_path \<Rightarrow> int list option \<Rightarrow> editor_observation edit" where
  "view_path env path view_range e =
     (case (node_at env (ed_files e) path, locate env (ed_files e) path) of
        (Some Folder, Some q) \<Rightarrow> view_directory env path q view_range e
      | _ \<Rightarrow>
          if py_lower (path_suffix path) \<in> image_extensions then view_image env path e
          else view_text env path view_range e)"

section \<open>Calls\<close>

record editor_action =
  ea_command :: str
  ea_path :: str
  ea_file_text :: "str option"
  ea_old_str :: "str option"
  ea_new_str :: "str option"
  ea_insert_line :: "int option"
  ea_view_range :: "int list option"

definition create_file :: "editor_env \<Rightarrow> py_path \<Rightarrow> str option \<Rightarrow> editor_observation edit" where
  "create_file env path file_text =
     (case file_text of
        None \<Rightarrow> eraise (parameter_missing ''create'' ''file_text'')
      | Some text \<Rightarrow>
          eseq (editor_write_file env path text) (
          eseq (push_history env path text) (
          eret ((text_observation ''create'' (''File created successfully at: '' @ path_str path))
            \<lparr>eo_path := Some (path_str path), eo_new_content := Some text, eo_prev_exist := False\<rparr>))))"

definition file_editor_call :: "editor_env \<Rightarrow> editor_action \<Rightarrow> editor_observation edit" where
  "file_editor_call env a =
     (let path = to_path (ea_path a); command = ea_command a in
      eseq (validate_path env command path) (
      if command = ''view'' then view_path env path (ea_view_range a)
      else if command = ''create'' then create_file env path (ea_file_text a)
      else if command = ''str_replace'' then
        (case (ea_old_str a, ea_new_str a) of
           (None, _) \<Rightarrow> eraise (parameter_missing command ''old_str'')
         | (Some old_str, None) \<Rightarrow> eraise (parameter_missing command ''new_str'')
         | (Some old_str, Some new_str) \<Rightarrow>
             if new_str = old_str then
               eraise (parameter_invalid ''new_str'' new_str
                 ''No replacement was performed. `new_str` and `old_str` must be different.'')
             else str_replace env path old_str new_str)
      else if command = ''insert'' then
        (case (ea_insert_line a, ea_new_str a) of
           (None, _) \<Rightarrow> eraise (parameter_missing command ''insert_line'')
         | (Some insert_line, None) \<Rightarrow> eraise (parameter_missing command ''new_str'')
         | (Some insert_line, Some new_str) \<Rightarrow> insert_text env path insert_line new_str)
      else if command = ''undo_edit'' then undo_edit env path
      else eraise (ToolError (''Unrecognized command '' @ command @
        ''. The allowed commands for FileEditor tool are: view, create, str_replace, insert, undo_edit''))))"

text \<open>\<open>FileEditorExecutor\<close>: the restriction to some files, and errors as observations.\<close>

definition abs_path_str :: "abs_path \<Rightarrow> str" where
  "abs_path_str q = slash # py_join [slash] q"

definition resolve_allowed :: "editor_env \<Rightarrow> str list option \<Rightarrow> abs_path list option" where
  "resolve_allowed env allowed_edits_files =
     (case allowed_edits_files of
        None \<Rightarrow> None
      | Some fs \<Rightarrow> if fs = [] then None else Some (remdups (map (resolve_lexically env \<circ> to_path) fs)))"

definition editor_executor :: "editor_env \<Rightarrow> str list option \<Rightarrow> editor_action \<Rightarrow> editor_observation edit" where
  "editor_executor env allowed_edits_files a =
     (let action_path = resolve_lexically env (to_path (ea_path a));
          run = ecatch (file_editor_call env a) (\<lambda>x.
            case x of
              ToolError m \<Rightarrow> eret ((text_observation (ea_command a) m)\<lparr>eo_is_error := True\<rparr>)
            | _ \<Rightarrow> eraise x)
      in case resolve_allowed env allowed_edits_files of
           Some allowed \<Rightarrow>
             if ea_command a \<noteq> ''view'' \<and> action_path \<notin> set allowed then
               eret ((text_observation (ea_command a)
                 (''Operation '' @ [CHR 0x27] @ ea_command a @ [CHR 0x27] @ '' is not allowed on file '' @ [CHR 0x27]
                  @ abs_path_str action_path @ [CHR 0x27] @ ''. Only the following files can be edited: ''
                  @ list_text (\<lambda>s. [CHR 0x27] @ s @ [CHR 0x27]) (sort (map abs_path_str allowed))))
                 \<lparr>eo_is_error := True\<rparr>)
             else run
         | None \<Rightarrow> run)"

text \<open>The lock key that \<open>FileEditorTool\<close> declares for an action.\<close>

definition editor_resource_key :: "editor_env \<Rightarrow> editor_action \<Rightarrow> str" where
  "editor_resource_key env a = ''file:'' @ abs_path_str (resolve_lexically env (to_path (ea_path a)))"

end
