(* ===== verification/Editor_Facts.thy ===== *)
theory Editor_Facts
  imports File_Editor
begin

text \<open>
  What the commands of the file editor do to the file system and to the undo history: an edit changes one
  occurrence or inserts lines, undo brings the text before it back, and a restricted executor changes nothing
  but its files.
\<close>

section \<open>What leaves the disk alone\<close>

definition same_disk :: "editor \<Rightarrow> editor \<Rightarrow> bool" where
  "same_disk e e' \<longleftrightarrow> ed_files e' = ed_files e \<and> ed_history e' = ed_history e \<and> ed_clock e' = ed_clock e"

lemma same_disk_rel [simp]: "reflp same_disk" "transp same_disk"
  by (auto simp: same_disk_def intro: reflpI transpI)

lemma same_disk_refl [simp]: "same_disk e e"
  by (simp add: same_disk_def)

lemmas disk_intros = keeps_ret[OF same_disk_rel(1)] keeps_bind[OF same_disk_rel(2)] keeps_seq[OF same_disk_rel(2)]
  keeps_catch[OF same_disk_rel(2)]

lemma disk_get_encoding: "keeps same_disk (get_encoding env path)"
  by (auto simp: keeps_def get_encoding_def Let_def same_disk_def split: option.splits fs_node.splits prod.splits if_splits)

lemma disk_with_encoding:
  assumes "\<And>enc. keeps same_disk (f enc)"
  shows "keeps same_disk (with_encoding env path f)"
proof -
  have "keeps same_disk (ebind (get_encoding env path) f)"
    by (intro disk_intros disk_get_encoding assms)
  then show ?thesis using assms unfolding keeps_def with_encoding_def by auto
qed

lemma disk_validate_file: "keeps same_disk (validate_file env path)"
  by (auto simp: keeps_def validate_file_def eff_defs split: option.splits fs_node.splits if_splits)

lemma disk_count_lines: "keeps same_disk (count_lines env path)"
  unfolding count_lines_def
  by (intro disk_with_encoding) (auto simp: keeps_def eff_defs split: sum.splits)

lemma disk_read_file: "keeps same_disk (read_file env path bounds)"
  unfolding read_file_def
  by (intro disk_with_encoding disk_intros disk_validate_file)
    (auto simp: keeps_def eff_defs split: sum.splits option.splits)

lemma disk_validate_path: "keeps same_disk (validate_path env command path)"
  by (auto simp: keeps_def validate_path_def eff_defs Let_def split: sum.splits if_splits)

lemma disk_view: "keeps same_disk (view_path env path view_range)"
proof -
  have 1: "keeps same_disk (view_directory env path q view_range)" for q
    by (auto simp: keeps_def view_directory_def eff_defs Let_def split: option.splits list.splits)
  have 2: "keeps same_disk (view_image env path)"
    by (auto simp: keeps_def view_image_def eff_defs Let_def split: option.splits fs_node.splits)
  have 3: "keeps same_disk (view_text env path view_range)"
    unfolding view_text_def
    by (auto intro!: disk_intros disk_validate_file disk_count_lines disk_read_file split: option.splits list.splits sum.splits py_exc.splits)
  show ?thesis using 1 2 3 unfolding keeps_def view_path_def by (auto split: option.splits fs_node.splits if_splits)
qed

section \<open>Results of reading and writing\<close>

lemma with_encoding_Some:
  assumes "with_encoding env path f e = Some (e', r)"
  obtains enc e1 where "same_disk e e1" "f enc e1 = Some (e', r)"
proof -
  have b: "\<exists>enc e1. same_disk e e1 \<and> f enc e1 = Some (e', r)" if x: "ebind (get_encoding env path) f e = Some (e', r)"
  proof -
    have "\<exists>e1 enc. get_encoding env path e = Some (e1, Inr enc)"
      by (auto simp: get_encoding_def Let_def split: option.splits fs_node.splits prod.splits if_splits)
    then obtain e1 enc where g: "get_encoding env path e = Some (e1, Inr enc)" by blast
    then have "f enc e1 = Some (e', r)" using x by (simp add: ebind_def)
    then show ?thesis using keepsD[OF disk_get_encoding g] by blast
  qed
  have "\<exists>enc e1. same_disk e e1 \<and> f enc e1 = Some (e', r)"
  proof (cases "is_dir_path env (ed_files e) path \<or> \<not> exists_path env (ed_files e) path")
    case True
    then have "f default_encoding e = Some (e', r)" using assms unfolding with_encoding_def by (simp split: if_splits)
    then show ?thesis using same_disk_refl by blast
  next
    case False
    then show ?thesis using assms b unfolding with_encoding_def by simp
  qed
  then show ?thesis using that by blast
qed

lemma validate_file_result:
  "\<exists>r. validate_file env path e = Some (e, r) \<and> (\<forall>x. r = Inl x \<longrightarrow> (\<exists>m. x = ToolError m))"
  by (auto simp: validate_file_def eff_defs file_validation_error_def split: option.splits fs_node.splits)

lemma same_disk_nodes:
  assumes "same_disk e e'"
  shows "node_at env (ed_files e') = node_at env (ed_files e)" "locate env (ed_files e') = locate env (ed_files e)"
    "ed_files e' = ed_files e" "ed_history e' = ed_history e" "ed_clock e' = ed_clock e"
  using assms by (simp_all add: same_disk_def fun_eq_iff)

lemma read_file_result:
  assumes "read_file env path None e = Some (e', Inr content)"
  obtains bytes mtime mode enc dec where "node_at env (ed_files e) path = Some (Regular bytes mtime mode)"
    "ee_decode env enc bytes = Some dec" "content = universal_newlines dec" "same_disk e e'"
proof -
  obtain enc e1 where 1: "same_disk e e1"
    "eseq (validate_file env path) (\<lambda>e. case open_text env path enc (ed_files e) of
         Inl m \<Rightarrow> eraise (ToolError (''Ran into '' @ m @ '' while trying to read '' @ path_str path)) e
       | Inr text \<Rightarrow> eret text e) e1 = Some (e', Inr content)"
    using with_encoding_Some[OF assms[unfolded read_file_def option.case]] by blast
  obtain e2 b where 2: "validate_file env path e1 = Some (e2, Inr b)"
    "(case open_text env path enc (ed_files e2) of
         Inl m \<Rightarrow> eraise (ToolError (''Ran into '' @ m @ '' while trying to read '' @ path_str path)) e2
       | Inr text \<Rightarrow> eret text e2) = Some (e', Inr content)"
    by (rule eseq_unchanged[OF 1(2)])
  have d: "same_disk e1 e2" by (rule keepsD[OF disk_validate_file 2(1)])
  then have f: "ed_files e2 = ed_files e" using 1(1) by (simp add: same_disk_def)
  from 2(2) obtain dec where "open_text env path enc (ed_files e2) = Inr dec" "content = dec"
    by (auto simp: eff_defs split: sum.splits)
  moreover have "same_disk e e'" using keepsD[OF disk_read_file assms] .
  ultimately show ?thesis using that unfolding open_text_def f by (auto split: option.splits fs_node.splits)
qed

definition kept_mode :: "files \<Rightarrow> abs_path \<Rightarrow> int" where
  "kept_mode fs q = (case dict_get fs q of Some (Regular b t mode) \<Rightarrow> mode | _ \<Rightarrow> 384)"

lemma atomic_write_result:
  assumes "atomic_write env path new enc0 e = Inr e'"
  obtains q enc bytes where "locate env (ed_files e) path = Some q" "ee_encode env enc new = Some bytes"
    "e' = e\<lparr>ed_files := dict_put q (Regular bytes (ed_clock e) (kept_mode (ed_files e) q)) (ed_files e), ed_clock := ee_tick env (ed_clock e)\<rparr>"
    "dict_get (ed_files e) q \<noteq> Some Folder"
proof -
  define enc where "enc = (if enc0 \<noteq> default_encoding \<and> ee_encode env enc0 new = None then default_encoding else enc0)"
  from assms show ?thesis
    unfolding atomic_write_def Let_def enc_def[symmetric]
    by (auto split: if_splits option.splits fs_node.splits intro!: that[of _ enc] simp: kept_mode_def)
qed

lemma write_file_result:
  assumes "editor_write_file env path new e = Some (e', r)"
  shows "(\<exists>m. r = Inl (ToolError m) \<and> same_disk e e') \<or>
    (\<exists>q enc bytes. r = Inr () \<and> locate env (ed_files e) path = Some q \<and> ee_encode env enc new = Some bytes \<and>
       ed_files e' = dict_put q (Regular bytes (ed_clock e) (kept_mode (ed_files e) q)) (ed_files e) \<and>
       dict_get (ed_files e) q \<noteq> Some Folder \<and> ed_history e' = ed_history e)"
proof -
  obtain enc e1 where 1: "same_disk e e1"
    "eseq (validate_file env path) (\<lambda>e. case atomic_write env path new enc e of
         Inl m \<Rightarrow> eraise (ToolError (''Ran into '' @ m @ '' while trying to write to '' @ path_str path)) e
       | Inr e' \<Rightarrow> eret () e') e1 = Some (e', r)"
    using with_encoding_Some[OF assms[unfolded editor_write_file_def]] by blast
  obtain v where 2: "validate_file env path e1 = Some (e1, v)" "\<forall>x. v = Inl x \<longrightarrow> (\<exists>m. x = ToolError m)"
    using validate_file_result by blast
  show ?thesis
  proof (cases v)
    case (Inl x)
    then show ?thesis using 1 2 by (auto simp: eseq_def ebind_def)
  next
    case (Inr u)
    then have w: "(case atomic_write env path new enc e1 of
         Inl m \<Rightarrow> eraise (ToolError (''Ran into '' @ m @ '' while trying to write to '' @ path_str path)) e1
       | Inr e' \<Rightarrow> eret () e') = Some (e', r)"
      using 1(2) 2 by (simp add: eseq_def ebind_def)
    show ?thesis
    proof (cases "atomic_write env path new enc e1")
      case (Inl m)
      then show ?thesis using w 1(1) by (auto simp: eff_defs)
    next
      case (Inr e3)
      then have "e' = e3" "r = Inr ()" using w by (auto simp: eff_defs)
      obtain q enc' bytes where q: "locate env (ed_files e1) path = Some q" "ee_encode env enc' new = Some bytes"
        "e3 = e1\<lparr>ed_files := dict_put q (Regular bytes (ed_clock e1) (kept_mode (ed_files e1) q)) (ed_files e1), ed_clock := ee_tick env (ed_clock e1)\<rparr>"
        "dict_get (ed_files e1) q \<noteq> Some Folder"
        by (rule atomic_write_result[OF Inr])
      have "locate env (ed_files e) path = Some q \<and> ee_encode env enc' new = Some bytes \<and>
          ed_files e' = dict_put q (Regular bytes (ed_clock e) (kept_mode (ed_files e) q)) (ed_files e) \<and>
          dict_get (ed_files e) q \<noteq> Some Folder \<and> ed_history e' = ed_history e"
        using q 1(1) \<open>e' = e3\<close> by (simp add: same_disk_def)
      then show ?thesis using \<open>r = Inr ()\<close> by blast
    qed
  qed
qed

section \<open>Replacing a text\<close>

lemma ebind_iff: "ebind m f c = Some (c', Inr a) \<longleftrightarrow> (\<exists>c1 b. m c = Some (c1, Inr b) \<and> f b c1 = Some (c', Inr a))"
  by (auto simp: ebind_def split: option.splits sum.splits)

lemma eseq_iff: "eseq m n c = Some (c', Inr a) \<longleftrightarrow> (\<exists>c1 b. m c = Some (c1, Inr b) \<and> n c1 = Some (c', Inr a))"
  by (simp add: eseq_def ebind_iff)

lemma no_match:
  "find_matches p i s = [] \<Longrightarrow> j \<le> length s \<Longrightarrow> \<not> py_startswith (drop j s) p"
proof (induction p i s arbitrary: j rule: find_matches.induct)
  case (1 p i s)
  then have p: "p \<noteq> []" by (auto simp: find_matches.simps[of p i s])
  show ?case
  proof (cases "s = []")
    case True
    then show ?thesis using p by (cases p) auto
  next
    case False
    then have n: "\<not> py_startswith s p" "find_matches p (Suc i) (tl s) = []"
      using 1(3) p by (auto simp: find_matches.simps[of p i s] split: if_splits)
    show ?thesis
    proof (cases j)
      case (Suc k)
      then show ?thesis using 1(2)[OF p False n(1) n(2), of k] 1(4) by (cases s) auto
    qed (use n(1) in simp)
  qed
qed

lemma one_match:
  "find_matches p i s = [k] \<Longrightarrow> i \<le> k \<and> k - i \<le> length s \<and> py_startswith (drop (k - i) s) p \<and>
     (\<forall>j \<le> length s. py_startswith (drop j s) p \<longrightarrow> k \<le> i + j \<and> i + j \<le> k + (length p - 1))"
proof (induction p i s rule: find_matches.induct)
  case (1 p i s)
  show ?case
  proof (cases "p = [] \<or> s = []")
    case True
    then have "p = []" using 1(3) by (cases "p = []") (auto simp: find_matches.simps[of p i "[]"])
    moreover have "find_matches [] i s = [i..<i + length s + 1]" by (subst find_matches.simps) simp
    ultimately have u: "[i..<i + length s + 1] = [k]" using 1(3) by metis
    have "length [i..<i + length s + 1] = 1" unfolding u by simp
    then have "s = []" by (simp del: upt_Suc)
    then have "k = i" using u by simp
    then show ?thesis using \<open>p = []\<close> \<open>s = []\<close> by simp
  next
    case False
    then have p: "p \<noteq> []" and s: "s \<noteq> []" by auto
    show ?thesis
    proof (cases "py_startswith s p")
      case True
      then have "k = i \<and> find_matches p (i + length p) (drop (length p) s) = []"
        using 1(3) p s by (auto simp: find_matches.simps[of p i s])
      then have k: "k = i" "find_matches p (i + length p) (drop (length p) s) = []" by blast+
      have "j \<le> length p - 1" if j: "j \<le> length s" "py_startswith (drop j s) p" for j
      proof (rule ccontr)
        assume "\<not> j \<le> length p - 1"
        then have "drop j s = drop (j - length p) (drop (length p) s)" "j - length p \<le> length (drop (length p) s)"
          using j(1) by simp_all
        then show False using no_match[OF k(2)] j(2) by metis
      qed
      then show ?thesis using True k(1) by simp
    next
      case False
      then have "find_matches p (Suc i) (tl s) = [k]" using 1(3) p s by (simp add: find_matches.simps[of p i s])
      then have ih: "Suc i \<le> k" "k - Suc i \<le> length (tl s)" "py_startswith (drop (k - Suc i) (tl s)) p"
        "\<forall>j \<le> length (tl s). py_startswith (drop j (tl s)) p \<longrightarrow> k \<le> Suc i + j \<and> Suc i + j \<le> k + (length p - 1)"
        using 1(2)[OF p s False] by auto
      have d: "k - i = Suc (k - Suc i)" using ih(1) by simp
      have "k \<le> i + j \<and> i + j \<le> k + (length p - 1)" if j: "j \<le> length s" "py_startswith (drop j s) p" for j
      proof (cases j)
        case 0
        then show ?thesis using j(2) False by simp
      next
        case (Suc l)
        then show ?thesis using ih(4)[rule_format, of l] j by (cases s) auto
      qed
      then show ?thesis using ih(1-3) s unfolding d by (cases s) auto
    qed
  qed
qed

lemma occurrences_one:
  assumes "occurrences m content = [k]"
  shows "content = take k content @ m @ drop (k + length m) content" "k \<le> length content"
    "\<forall>j \<le> length content. py_startswith (drop j content) m \<longrightarrow> k \<le> j \<and> j \<le> k + (length m - 1)"
proof -
  note o = one_match[OF assms[unfolded occurrences_def], simplified]
  obtain t where t: "drop k content = m @ t" using o by (auto simp: py_startswith_iff)
  then have "drop (k + length m) content = t" by (metis add.commute append_eq_conv_conj drop_drop)
  then show "content = take k content @ m @ drop (k + length m) content" using t by (metis append_take_drop_id)
  show "k \<le> length content" "\<forall>j \<le> length content. py_startswith (drop j content) m \<longrightarrow> k \<le> j \<and> j \<le> k + (length m - 1)"
    using o by auto
qed

lemma find_unique_Inr:
  assumes "find_unique p old content = Inr (m, k)"
  shows "occurrences m content = [k] \<and> (m = old \<or> occurrences old content = [] \<and> m = py_strip old)"
proof -
  define o' where "o' = (if occurrences old content = [] then py_strip old else old)"
  have "occurrences o' content \<noteq> [] \<and> \<not> length (occurrences o' content) > 1 \<and> m = o' \<and> k = hd (occurrences o' content)"
    using assms unfolding find_unique_def Let_def o'_def[symmetric] by (auto split: if_splits)
  then have "occurrences m content = [k]" by (cases "occurrences o' content") auto
  moreover have "m = o'" using \<open>_ \<and> _\<close> by blast
  ultimately show ?thesis unfolding o'_def by (auto split: if_splits)
qed

lemma validated: "validate_file env path e = Some (e1, r) \<Longrightarrow> e1 = e"
  using validate_file_result[of env path e] by auto

lemma push_history_result:
  assumes "push_history env path content e = Some (e', r)"
  shows "ed_files e' = ed_files e" "ed_clock e' = ed_clock e"
    "r = Inr () \<Longrightarrow> add_history (history_store_of env e) 10 (path_str path) content (ed_history e) = Inr (ed_history e')"
    "r = Inl x \<Longrightarrow> ed_history e' = ed_history e"
  using assms by (auto simp: push_history_def eff_defs split: sum.splits)

text \<open>The state after a write of \<open>new\<close> to a file, as far as the disk goes.\<close>

definition written :: "editor_env \<Rightarrow> py_path \<Rightarrow> str \<Rightarrow> editor \<Rightarrow> files \<Rightarrow> bool" where
  "written env path new e fs \<longleftrightarrow>
     (\<exists>q b t mode enc bytes. locate env (ed_files e) path = Some q \<and> dict_get (ed_files e) q = Some (Regular b t mode) \<and>
        ee_encode env enc new = Some bytes \<and> fs = dict_put q (Regular bytes (ed_clock e) mode) (ed_files e))"

text \<open>The text of a file in the encoding the editor takes for it, with its line ends unified.\<close>

definition reads_as :: "editor_env \<Rightarrow> py_path \<Rightarrow> str \<Rightarrow> editor \<Rightarrow> bool" where
  "reads_as env path content e \<longleftrightarrow>
     (\<exists>bytes mtime mode enc dec. node_at env (ed_files e) path = Some (Regular bytes mtime mode) \<and>
        ee_decode env enc bytes = Some dec \<and> content = universal_newlines dec)"

lemma write_existing:
  assumes "editor_write_file env path new e = Some (e', Inr u)" "node_at env (ed_files e) path = Some (Regular b t mode)"
  shows "written env path new e (ed_files e')" "ed_history e' = ed_history e"
proof -
  obtain q enc bytes where q: "locate env (ed_files e) path = Some q" "ee_encode env enc new = Some bytes"
      "ed_files e' = dict_put q (Regular bytes (ed_clock e) (kept_mode (ed_files e) q)) (ed_files e)" "ed_history e' = ed_history e"
    using write_file_result[OF assms(1)] by auto
  then show "written env path new e (ed_files e')" using assms(2)
    by (auto simp: written_def node_at_def kept_mode_def)
  show "ed_history e' = ed_history e" by (rule q(4))
qed

lemma replace_match_result:
  assumes "replace_match env path content old idx new e = Some (e', Inr obs)"
  obtains e2 e3 where "editor_write_file env path (take idx content @ new @ drop (idx + length old) content) e = Some (e2, Inr ())"
    "push_history env path content e2 = Some (e3, Inr ())" "same_disk e3 e'"
    "eo_old_content obs = Some content" "eo_new_content obs = Some (take idx content @ new @ drop (idx + length old) content)"
proof -
  from assms obtain e2 e3 e4 snippet where
    w: "editor_write_file env path (take idx content @ new @ drop (idx + length old) content) e = Some (e2, Inr ())"
    and p: "push_history env path content e2 = Some (e3, Inr ())"
    and r: "read_file env path (Some (max 0 (int (line_of content idx) - 4) + 1, int (line_of content idx) + 4 + int (count_newlines new))) e3
      = Some (e4, Inr snippet)"
    and o: "e4 = e'" "eo_old_content obs = Some content"
      "eo_new_content obs = Some (take idx content @ new @ drop (idx + length old) content)"
    unfolding replace_match_def Let_def eseq_iff ebind_iff eret_def by auto
  show ?thesis using that[OF w p] keepsD[OF disk_read_file r] o by simp
qed

lemma str_replace_result:
  assumes "str_replace env path old new e = Some (e', Inr obs)"
  obtains content m k e2 where "reads_as env path content e" "find_unique (path_str path) old content = Inr (m, k)"
    "written env path (take k content @ new @ drop (k + length m) content) e (ed_files e')"
    "add_history (history_store_of env e2) 10 (path_str path) content (ed_history e) = Inr (ed_history e')"
    "eo_old_content obs = Some content" "eo_new_content obs = Some (take k content @ new @ drop (k + length m) content)"
proof -
  obtain e1 content where r: "read_file env path None e = Some (e1, Inr content)"
    and f: "(case find_unique (path_str path) old content of Inl x \<Rightarrow> eraise x
       | Inr (old, idx) \<Rightarrow> replace_match env path content old idx new) e1 = Some (e', Inr obs)"
    using assms unfolding str_replace_def by (elim eseq_unchanged ebind_Inr) (metis validated)
  obtain b t mode enc dec where n: "node_at env (ed_files e) path = Some (Regular b t mode)" "ee_decode env enc b = Some dec"
      "content = universal_newlines dec" "same_disk e e1"
    by (rule read_file_result[OF r])
  obtain m k where u: "find_unique (path_str path) old content = Inr (m, k)"
    using f by (auto simp: eff_defs split: sum.splits)
  let ?new = "take k content @ new @ drop (k + length m) content"
  obtain e2 e3 where w: "editor_write_file env path ?new e1 = Some (e2, Inr ())"
    and p: "push_history env path content e2 = Some (e3, Inr ())" and d: "same_disk e3 e'"
    and obs: "eo_old_content obs = Some content" "eo_new_content obs = Some ?new"
    by (rule replace_match_result[OF f[unfolded u sum.case prod.case]])
  have w': "written env path ?new e (ed_files e2)" "ed_history e2 = ed_history e"
    using write_existing[OF w, of b t mode] n(1) same_disk_nodes[OF n(4)] by (simp_all add: written_def)
  have h: "add_history (history_store_of env e2) 10 (path_str path) content (ed_history e) = Inr (ed_history e')"
    using push_history_result(3)[OF p refl] w'(2) d by (simp add: same_disk_def)
  have files: "ed_files e' = ed_files e2" using push_history_result(1)[OF p] d by (simp add: same_disk_def)
  have "reads_as env path content e" using n by (auto simp: reads_as_def)
  then show ?thesis using that u w'(1) h obs unfolding files by blast
qed

text \<open>
  C21: a successful \<open>str_replace\<close> changes one occurrence and nothing else. The text of the file, with unified
  line ends, is \<open>pre @ m @ post\<close> where \<open>m\<close> is the given text, or the given text without the blanks around it
  if the file does not contain it as it is; every other occurrence of \<open>m\<close> overlaps this one; the file then
  holds \<open>pre @ new @ post\<close> with its mode, the other files are as before, and the old text is pushed
  on the history of the path.
\<close>

theorem str_replace_edits_once:
  assumes "str_replace env path old new e = Some (e', Inr obs)"
  shows "\<exists>pre m post e1. reads_as env path (pre @ m @ post) e \<and>
    (m = old \<or> occurrences old (pre @ m @ post) = [] \<and> m = py_strip old) \<and>
    (\<forall>j \<le> length (pre @ m @ post). py_startswith (drop j (pre @ m @ post)) m \<longrightarrow> length pre \<le> j \<and> j \<le> length pre + (length m - 1)) \<and>
    written env path (pre @ new @ post) e (ed_files e') \<and>
    eo_old_content obs = Some (pre @ m @ post) \<and> eo_new_content obs = Some (pre @ new @ post) \<and>
    add_history (history_store_of env e1) 10 (path_str path) (pre @ m @ post) (ed_history e) = Inr (ed_history e')"
proof -
  obtain content m k e2 where r: "reads_as env path content e" and u: "find_unique (path_str path) old content = Inr (m, k)"
    and w: "written env path (take k content @ new @ drop (k + length m) content) e (ed_files e')"
    and h: "add_history (history_store_of env e2) 10 (path_str path) content (ed_history e) = Inr (ed_history e')"
    and obs: "eo_old_content obs = Some content" "eo_new_content obs = Some (take k content @ new @ drop (k + length m) content)"
    by (rule str_replace_result[OF assms])
  note m = find_unique_Inr[OF u]
  define pre post where d: "pre = take k content" "post = drop (k + length m) content"
  have c: "pre @ m @ post = content" "length pre = k"
    using occurrences_one(1,2)[OF conjunct1[OF m]] by (simp_all add: d)
  have once: "\<forall>j \<le> length content. py_startswith (drop j content) m \<longrightarrow> length pre \<le> j \<and> j \<le> length pre + (length m - 1)"
    using occurrences_one(3)[OF conjunct1[OF m]] c(2) by simp
  have "written env path (pre @ new @ post) e (ed_files e')" using w unfolding d .
  moreover have "eo_new_content obs = Some (pre @ new @ post)" using obs(2) unfolding d .
  ultimately show ?thesis using conjunct2[OF m] once r h obs(1) unfolding c(1)[symmetric] by blast
qed

section \<open>Inserting lines\<close>

definition full_line :: "str \<Rightarrow> bool" where
  "full_line l \<longleftrightarrow> (\<exists>b. l = b @ [newline] \<and> newline \<notin> set b)"

lemma text_lines_from_break: "newline \<notin> set b \<Longrightarrow> text_lines_from acc (b @ newline # s) = (rev acc @ b @ [newline]) # text_lines_from [] s"
  by (induction b arbitrary: acc) auto

lemma text_lines_from_end: "newline \<notin> set b \<Longrightarrow> text_lines_from acc b = (if acc = [] \<and> b = [] then [] else [rev acc @ b])"
  by (induction b arbitrary: acc) auto

lemma text_lines_full: "full_line l \<Longrightarrow> text_lines (l @ s) = l # text_lines s"
  by (auto simp: full_line_def text_lines_def text_lines_from_break)

lemma text_lines_concat: "\<forall>l \<in> set ls. full_line l \<Longrightarrow> text_lines (concat ls @ s) = ls @ text_lines s"
  by (induction ls) (auto simp: text_lines_full)

lemma text_lines_rest: "newline \<notin> set t \<Longrightarrow> text_lines t = (if t = [] then [] else [t])"
  by (simp add: text_lines_def text_lines_from_end)

lemma split_lines: "\<exists>ls t. s = concat ls @ t \<and> (\<forall>l \<in> set ls. full_line l) \<and> newline \<notin> set t"
proof (induction "length s" arbitrary: s rule: less_induct)
  case less
  show ?case
  proof (cases "newline \<in> set s")
    case True
    then obtain b s' where s: "s = b @ newline # s'" "newline \<notin> set b" by (metis split_list_first)
    then obtain ls t where "s' = concat ls @ t" "\<forall>l \<in> set ls. full_line l" "newline \<notin> set t" using less[of s'] by auto
    then show ?thesis using s by (intro exI[of _ "(b @ [newline]) # ls"] exI[of _ t]) (auto simp: full_line_def)
  next
    case False
    then show ?thesis by (intro exI[of _ "[]"] exI[of _ s]) simp
  qed
qed

lemma concat_text_lines: "concat (text_lines s) = s"
proof -
  obtain ls t where "s = concat ls @ t" "\<forall>l \<in> set ls. full_line l" "newline \<notin> set t" using split_lines by blast
  then show ?thesis by (simp add: text_lines_concat text_lines_rest)
qed

lemma full_line_added: "newline \<notin> set l \<Longrightarrow> full_line (l @ [newline])"
  by (auto simp: full_line_def)

lemma full_lines_last: "\<forall>l \<in> set ls. full_line l \<Longrightarrow> concat ls = [] \<or> last (concat ls) = newline"
proof (induction ls)
  case (Cons l ls)
  then show ?case by (cases "concat ls = []") (auto simp: full_line_def last_append simp del: concat_eq_Nil_conv)
qed simp

text \<open>The lines of a text after \<open>added\<close> was put behind its first \<open>n\<close> lines.\<close>

lemma inserted_lines:
  fixes content added :: str and n :: nat
  defines "lines \<equiv> text_lines content" and "extra \<equiv> map (\<lambda>l. l @ [newline]) (py_split newline added)"
  shows "text_lines (concat (take n lines @ extra @ drop n lines)) =
    (if concat (take n lines) = [] \<or> last (concat (take n lines)) = newline then take n lines @ extra @ drop n lines
     else butlast lines @ extra[0 := last lines @ hd extra])"
proof -
  obtain ls t where s: "content = concat ls @ t" "\<forall>l \<in> set ls. full_line l" "newline \<notin> set t" using split_lines by blast
  have lines: "lines = ls @ (if t = [] then [] else [t])"
    unfolding lines_def s(1) text_lines_concat[OF s(2)] text_lines_rest[OF s(3)] ..
  have extra: "\<forall>l \<in> set extra. full_line l"
    using py_split_no_sep[of newline added] by (auto simp: extra_def intro: full_line_added)
  show ?thesis
  proof (cases "n \<le> length ls \<or> t = []")
    case True
    have a: "\<forall>l \<in> set (take n ls @ extra @ drop n ls). full_line l" using extra s(2) by (auto dest: in_set_takeD in_set_dropD)
    have e: "concat (take n lines @ extra @ drop n lines) = concat (take n ls @ extra @ drop n ls) @ t"
      "take n lines @ extra @ drop n lines = (take n ls @ extra @ drop n ls) @ (if t = [] then [] else [t])"
      "take n lines = take n ls" using True by (auto simp: lines)
    have "concat (take n ls) = [] \<or> last (concat (take n ls)) = newline"
      by (rule full_lines_last) (use s(2) in \<open>auto dest: in_set_takeD\<close>)
    then show ?thesis unfolding e(1) text_lines_concat[OF a] text_lines_rest[OF s(3)] unfolding e(3) using e(2)
      by (simp only: if_True append_assoc e(3))
  next
    case False
    then have t: "t \<noteq> []" "take n lines = ls @ [t]" "drop n lines = []" by (auto simp: lines)
    obtain m ms where m: "extra = m # ms" by (cases "py_split newline added") (auto simp: extra_def)
    have tm: "full_line (t @ m)" using extra s(3) unfolding m full_line_def by auto
    have "concat (take n lines @ extra @ drop n lines) = concat (ls @ (t @ m) # ms) @ []" by (simp add: t m)
    moreover have "\<forall>l \<in> set (ls @ (t @ m) # ms). full_line l" using tm extra s(2) m by auto
    ultimately have "text_lines (concat (take n lines @ extra @ drop n lines)) = ls @ (t @ m) # ms"
      using text_lines_concat[of "ls @ (t @ m) # ms" "[]"] by (simp add: text_lines_rest)
    moreover have "\<not> (concat (take n lines) = [] \<or> last (concat (take n lines)) = newline)"
      using t s(3) by (auto simp: last_append) (metis last_in_set)
    ultimately show ?thesis using t by (simp add: lines m)
  qed
qed


lemma insert_lines_result:
  assumes "insert_lines env path num_lines n added content e = Some (e', Inr obs)"
  obtains new e2 e3 e4 where
    "new = concat (take (nat n) (text_lines content) @ map (\<lambda>l. l @ [newline]) (py_split newline added) @ drop (nat n) (text_lines content))"
    "editor_write_file env path new e = Some (e2, Inr ())" "same_disk e2 e3" "push_history env path content e3 = Some (e4, Inr ())"
    "same_disk e4 e'" "eo_old_content obs = Some content"
proof -
  define new where "new = concat (take (nat n) (text_lines content) @ map (\<lambda>l. l @ [newline]) (py_split newline added) @ drop (nat n) (text_lines content))"
  from assms obtain e2 e3 e4 b snippet t where w: "editor_write_file env path new e = Some (e2, Inr ())"
    and r: "read_file env path b e2 = Some (e3, Inr snippet)" and p: "push_history env path content e3 = Some (e4, Inr ())"
    and r2: "read_file env path None e4 = Some (e', Inr t)" and o: "eo_old_content obs = Some content"
    unfolding insert_lines_def Let_def eseq_iff ebind_iff concat_text_lines new_def[symmetric] eret_def by auto
  show ?thesis using that[OF new_def w _ p _ o] keepsD[OF disk_read_file r] keepsD[OF disk_read_file r2] by blast
qed

lemma insert_text_result:
  assumes "insert_text env path n added e = Some (e', Inr obs)"
  obtains content new e1 where "0 \<le> n" "reads_as env path content e" "eo_old_content obs = Some content"
    "new = concat (take (nat n) (text_lines content) @ map (\<lambda>l. l @ [newline]) (py_split newline added) @ drop (nat n) (text_lines content))"
    "written env path new e (ed_files e')"
    "add_history (history_store_of env e1) 10 (path_str path) content (ed_history e) = Inr (ed_history e')"
proof -
  obtain enc e0 where 0: "same_disk e e0" "eseq (validate_file env path) (
     ebind (count_lines env path) (\<lambda>num_lines.
     if n < 0 \<or> n > int num_lines then
       eraise (parameter_invalid ''insert_line'' (int_to_str n)
         (''It should be within the range of allowed values: '' @ list_text int_to_str [0, int num_lines]))
     else ebind (\<lambda>e. case open_text env path enc (ed_files e) of Inl m \<Rightarrow> eraise (ValueError m) e | Inr content \<Rightarrow> eret content e)
       (insert_lines env path num_lines n added))) e0 = Some (e', Inr obs)"
    by (rule with_encoding_Some[OF assms[unfolded insert_text_def]])
  then obtain u e1 num_lines e2 content where 1: "validate_file env path e0 = Some (e1, Inr u)"
      "count_lines env path e1 = Some (e2, Inr num_lines)"
    and n: "0 \<le> n" and r: "open_text env path enc (ed_files e2) = Inr content"
    and i: "insert_lines env path num_lines n added content e2 = Some (e', Inr obs)"
    unfolding eseq_iff ebind_iff by (auto simp: ebind_iff eff_defs split: if_splits sum.splits)
  have d: "same_disk e e2"
    using 0(1) validated[OF 1(1)] keepsD[OF disk_count_lines 1(2)] by (simp add: same_disk_def)
  obtain b t mode dec where b: "node_at env (ed_files e) path = Some (Regular b t mode)" "ee_decode env enc b = Some dec"
      "content = universal_newlines dec"
    using r d by (auto simp: open_text_def same_disk_def split: option.splits fs_node.splits)
  obtain new e3 e4 e5 where new: "new = concat (take (nat n) (text_lines content) @ map (\<lambda>l. l @ [newline]) (py_split newline added) @ drop (nat n) (text_lines content))"
    and w: "editor_write_file env path new e2 = Some (e3, Inr ())" and s: "same_disk e3 e4"
    and p: "push_history env path content e4 = Some (e5, Inr ())" and f: "same_disk e5 e'" and o: "eo_old_content obs = Some content"
    by (rule insert_lines_result[OF i])
  have "written env path new e (ed_files e3)" "ed_history e3 = ed_history e"
    using write_existing[OF w, of b t mode] b(1) same_disk_nodes[OF d] by (simp_all add: written_def)
  then have "written env path new e (ed_files e')"
    "add_history (history_store_of env e4) 10 (path_str path) content (ed_history e) = Inr (ed_history e')"
    using s f push_history_result(1)[OF p] push_history_result(3)[OF p refl] by (simp_all add: same_disk_def)
  moreover have "reads_as env path content e" using b by (auto simp: reads_as_def)
  ultimately show ?thesis using that n o new by blast
qed

text \<open>
  A successful \<open>insert\<close> puts the lines of its text behind line \<open>n\<close>. If the first \<open>n\<close> lines of the file end
  in a line end (or there are none), the lines of the new text are these, the added lines, and the rest. If
  not, \<open>n\<close> is the last line, and the first added line continues it instead of following it. The old
  text is pushed on the history.
\<close>

theorem insert_puts_lines:
  assumes "insert_text env path n added e = Some (e', Inr obs)"
  shows "\<exists>content new e1. 0 \<le> n \<and> reads_as env path content e \<and> eo_old_content obs = Some content \<and>
    written env path new e (ed_files e') \<and>
    (let lines = text_lines content; before = take (nat n) lines; extra = map (\<lambda>l. l @ [newline]) (py_split newline added) in
     text_lines new = (if concat before = [] \<or> last (concat before) = newline then before @ extra @ drop (nat n) lines
       else butlast lines @ extra[0 := last lines @ hd extra])) \<and>
    add_history (history_store_of env e1) 10 (path_str path) content (ed_history e) = Inr (ed_history e')"
proof -
  obtain content new e1 where "0 \<le> n" "reads_as env path content e" "eo_old_content obs = Some content"
    and new: "new = concat (take (nat n) (text_lines content) @ map (\<lambda>l. l @ [newline]) (py_split newline added) @ drop (nat n) (text_lines content))"
    and "written env path new e (ed_files e')"
      "add_history (history_store_of env e1) 10 (path_str path) content (ed_history e) = Inr (ed_history e')"
    by (rule insert_text_result[OF assms])
  then show ?thesis using inserted_lines[of "nat n" content added] unfolding new Let_def by blast
qed

section \<open>Undo\<close>

lemma pop_history_result:
  assumes "pop_history env path e = Some (e', Inr v)"
  shows "pop_last_history (history_store_of env e) (path_str path) (ed_history e) = Inr (v, ed_history e')"
    "ed_files e' = ed_files e" "ed_clock e' = ed_clock e"
  using assms by (auto simp: pop_history_def eff_defs split: sum.splits prod.splits)

lemma undo_edit_result:
  assumes "undo_edit env path e = Some (e', Inr obs)"
  obtains old e1 where "pop_last_history (history_store_of env e1) (path_str path) (ed_history e) = Inr (Some (Old_Text old), ed_history e')"
    "written env path old e (ed_files e')" "eo_new_content obs = Some old"
proof -
  from assms obtain e1 current e2 v where r: "read_file env path None e = Some (e1, Inr current)"
    and p: "pop_history env path e1 = Some (e2, Inr v)"
    and u: "(case v of
       None \<Rightarrow> eraise (ToolError (''No edit history found for '' @ path_str path @ ''.''))
     | Some (Metadata es n) \<Rightarrow>
         eraise (ToolError (''Ran into '' @ ee_os_error env (path_str path) @ '' while trying to write to '' @ path_str path))
     | Some (Old_Text old_text) \<Rightarrow>
         eseq (editor_write_file env path old_text) (
         eret ((text_observation ''undo_edit''
             (''Last edit to '' @ path_str path @ '' undone successfully. '' @ make_output old_text (path_str path) 1))
           \<lparr>eo_path := Some (path_str path), eo_old_content := Some current, eo_new_content := Some old_text\<rparr>))) e2 = Some (e', Inr obs)"
    unfolding undo_edit_def ebind_iff by auto
  obtain b t mode where n: "node_at env (ed_files e) path = Some (Regular b t mode)" "same_disk e e1"
    by (rule read_file_result[OF r])
  note q = pop_history_result[OF p]
  obtain old where v: "v = Some (Old_Text old)" using u by (auto simp: eff_defs split: option.splits history_value.splits)
  then have w: "editor_write_file env path old e2 = Some (e', Inr ())" "eo_new_content obs = Some old"
    using u by (auto simp: eseq_iff eff_defs)
  have f: "ed_files e2 = ed_files e" "ed_clock e2 = ed_clock e" using q(2,3) n(2) by (simp_all add: same_disk_def)
  have "written env path old e (ed_files e')" "ed_history e' = ed_history e2"
    using write_existing[OF w(1), of b t mode] n(1) f by (simp_all add: written_def)
  then show ?thesis using that q(1) w(2) n(2) unfolding v by (simp add: same_disk_def)
qed

lemma validate_path_result: "\<exists>r. validate_path env command path e = Some (e, r)"
  by (auto simp: validate_path_def eff_defs Let_def split: sum.splits)

text \<open>What a successful edit does, whichever command it was.\<close>

lemma edit_pushes:
  assumes "file_editor_call env a e = Some (e', Inr obs)" "ea_command a \<in> {''str_replace'', ''insert''}"
  obtains old e1 where "eo_old_content obs = Some old" "reads_as env (to_path (ea_path a)) old e"
    "add_history (history_store_of env e1) 10 (path_str (to_path (ea_path a))) old (ed_history e) = Inr (ed_history e')"
proof -
  let ?path = "to_path (ea_path a)"
  obtain r where "validate_path env (ea_command a) ?path e = Some (e, r)"
    using validate_path_result by blast
  then consider (replace) old new where "str_replace env ?path old new e = Some (e', Inr obs)"
    | (insert) n added where "insert_text env ?path n added e = Some (e', Inr obs)"
    using assms by (auto simp: file_editor_call_def Let_def eseq_iff eff_defs split: option.splits if_splits)
  then show ?thesis
  proof cases
    case replace
    show ?thesis by (rule str_replace_result[OF replace]) (rule that)
  next
    case insert
    show ?thesis by (rule insert_text_result[OF insert]) (rule that)
  qed
qed

text \<open>
  C22: undo brings back the text before an edit. After a successful \<open>str_replace\<close> or \<open>insert\<close>, and whatever
  happens to other things than the history in between, a successful \<open>undo_edit\<close> of the path writes
  the text that the file had before the edit (with unified line ends), and the history is what it was
  before, less its oldest entry if it was full.
\<close>

theorem undo_restores_text:
  assumes "file_editor_call env a e = Some (e1, Inr obs)" "ea_command a \<in> {''str_replace'', ''insert''}"
    "ed_history e2 = ed_history e1" "undo_edit env (to_path (ea_path a)) e2 = Some (e3, Inr obs')"
    "inj_on (ee_digest env) (history_keys P n)" "history_ok (ee_digest env) 10 P (ed_history e)"
    "path_str (to_path (ea_path a)) \<in> P" "\<forall>q \<in> P. Suc (history_counter (ee_digest env) (ed_history e) q) < n"
  shows "\<exists>old. reads_as env (to_path (ea_path a)) old e \<and> written env (to_path (ea_path a)) old e2 (ed_files e3) \<and>
    eo_new_content obs' = Some old \<and>
    file_stack (ee_digest env) (ed_history e3) (path_str (to_path (ea_path a))) =
      keep_newest 9 (file_stack (ee_digest env) (ed_history e) (path_str (to_path (ea_path a))))"
proof -
  let ?p = "path_str (to_path (ea_path a))" and ?d = "ee_digest env"
  obtain old w where o: "eo_old_content obs = Some old" "reads_as env (to_path (ea_path a)) old e"
      "add_history (history_store_of env w) 10 ?p old (ed_history e) = Inr (ed_history e1)"
    by (rule edit_pushes[OF assms(1,2)])
  have n: "\<forall>q \<in> P. history_counter ?d (ed_history e) q < n" using assms(8) by (auto intro: Suc_lessD)
  have h: "history_ok ?d 10 P (ed_history e1)" "file_stack ?d (ed_history e1) ?p = keep_newest 10 (file_stack ?d (ed_history e) ?p @ [old])"
      "\<forall>q \<in> P. history_counter ?d (ed_history e1) q < n"
    using add_history_stack[OF assms(5,6) _ assms(7) n, where dumped = "ee_dumped env" and now = "ed_clock w" and t = old]
      o(3) n assms(7,8) by (auto simp: history_store_of_def) (metis Diff_iff empty_iff insert_iff)
  obtain old' w' where u: "pop_last_history (history_store_of env w') ?p (ed_history e2) = Inr (Some (Old_Text old'), ed_history e3)"
      "written env (to_path (ea_path a)) old' e2 (ed_files e3)" "eo_new_content obs' = Some old'"
    by (rule undo_edit_result[OF assms(4)])
  have s: "file_stack ?d (ed_history e1) ?p = keep_newest 9 (file_stack ?d (ed_history e) ?p) @ [old]"
    unfolding h(2) by (simp add: keep_newest_def)
  have "old' = old \<and> file_stack ?d (ed_history e3) ?p = keep_newest 9 (file_stack ?d (ed_history e) ?p)"
    using pop_history_stack[OF assms(5) h(1) assms(7) h(3), where dumped = "ee_dumped env" and now = "ed_clock w'"]
      u(1) s unfolding assms(3) by (auto simp: history_store_of_def)
  then show ?thesis using o(2) u by blast
qed


section \<open>Confinement\<close>

text \<open>\<open>only_at P\<close>: a computation that changes no file outside of \<open>P\<close>.\<close>

definition only_at :: "abs_path set \<Rightarrow> editor \<Rightarrow> editor \<Rightarrow> bool" where
  "only_at P e e' \<longleftrightarrow> (\<forall>q. q \<notin> P \<longrightarrow> dict_get (ed_files e') q = dict_get (ed_files e) q)"

lemma only_at_rel [simp]: "reflp (only_at P)" "transp (only_at P)"
  by (auto simp: only_at_def intro!: reflpI transpI)

lemma same_disk_only_at: "same_disk e e' \<Longrightarrow> only_at P e e'"
  by (simp add: same_disk_def only_at_def)

lemma keeps_only_at: "keeps same_disk m \<Longrightarrow> keeps (only_at P) m"
  by (auto simp: keeps_def intro: same_disk_only_at)

lemmas only_at_intros = keeps_ret[OF only_at_rel(1)] keeps_bind[OF only_at_rel(2)] keeps_seq[OF only_at_rel(2)]
  keeps_catch[OF only_at_rel(2)]

definition clean_path :: "py_path \<Rightarrow> bool" where
  "clean_path p \<longleftrightarrow> (\<forall>c \<in> set (pp_parts p). c \<noteq> [] \<and> c \<noteq> ''.'')"

lemma clean_to_path: "clean_path (to_path s)"
  by (simp add: clean_path_def to_path_def)

lemma walk_norm: "walk fs cur cs = Some q \<Longrightarrow> \<forall>c \<in> set cs. c \<noteq> [] \<and> c \<noteq> ''.'' \<Longrightarrow> q = norm_from (rev cur) cs"
proof (induction cs arbitrary: cur)
  case (Cons c cs)
  have "rev (butlast cur) = tl (rev cur)" by (induction cur) auto
  then show ?case using Cons.IH[of "butlast cur"] Cons.IH[of "cur @ [c]"] Cons.prems by (auto split: if_splits)
qed simp

lemma locate_resolves:
  assumes "locate env fs p = Some q" "clean_path p" "\<forall>c \<in> set (ee_cwd env). normal_name c"
  shows "q = resolve_lexically env p"
proof -
  have "norm_from [] (ee_cwd env) = ee_cwd env" using norm_from_normal[of "ee_cwd env" "[]"] assms(3) by simp
  then show ?thesis
    using walk_norm[of fs "[]" "pp_parts p" q] walk_norm[of fs "ee_cwd env" "pp_parts p" q] assms by (auto simp: locate_def resolve_lexically_def clean_path_def norm_from_append split: if_splits)
qed

lemma only_at_write_file:
  assumes "clean_path p" "\<forall>c \<in> set (ee_cwd env). normal_name c"
  shows "keeps (only_at {resolve_lexically env p}) (editor_write_file env p new)"
  unfolding keeps_def
proof (intro allI impI)
  fix e e' r
  assume "editor_write_file env p new e = Some (e', r)"
  from write_file_result[OF this] show "only_at {resolve_lexically env p} e e'"
    using locate_resolves[OF _ assms] by (auto simp: only_at_def same_disk_def)
qed

lemma only_at_history: "keeps (only_at P) (push_history env p content)" "keeps (only_at P) (pop_history env p)"
  by (auto simp: keeps_def only_at_def push_history_def pop_history_def eff_defs split: sum.splits prod.splits)

lemma only_at_with_encoding:
  assumes "\<And>enc. keeps (only_at P) (f enc)"
  shows "keeps (only_at P) (with_encoding env p f)"
proof -
  have "keeps (only_at P) (ebind (get_encoding env p) f)"
    by (intro only_at_intros keeps_only_at[OF disk_get_encoding] assms)
  then show ?thesis using assms unfolding keeps_def with_encoding_def by auto
qed

lemma only_at_call:
  assumes "\<forall>c \<in> set (ee_cwd env). normal_name c"
  shows "keeps (only_at {resolve_lexically env (to_path (ea_path a))}) (file_editor_call env a)"
proof -
  let ?p = "to_path (ea_path a)" and ?P = "{resolve_lexically env (to_path (ea_path a))}"
  note w = only_at_write_file[OF clean_to_path assms]
  note rules = only_at_intros w only_at_history keeps_only_at[OF disk_validate_file] keeps_only_at[OF disk_read_file]
    keeps_only_at[OF disk_count_lines] only_at_with_encoding
  have replace: "keeps (only_at ?P) (str_replace env ?p old new)" for old new
    unfolding str_replace_def replace_match_def Let_def
    by (auto intro!: rules split: sum.splits)
  have decoded: "keeps (only_at ?P) (\<lambda>e. case open_text env ?p enc (ed_files e) of Inl m \<Rightarrow> eraise (ValueError m) e | Inr content \<Rightarrow> eret content e)" for enc
    by (auto simp: keeps_def eff_defs only_at_def split: sum.splits)
  have insert: "keeps (only_at ?P) (insert_text env ?p n added)" for n added
    unfolding insert_text_def insert_lines_def Let_def
    by (auto intro!: rules decoded)
  have undo: "keeps (only_at ?P) (undo_edit env ?p)"
    unfolding undo_edit_def by (auto intro!: rules split: option.splits history_value.splits)
  have create: "keeps (only_at ?P) (create_file env ?p new)" for new
    unfolding create_file_def by (auto intro!: rules split: option.splits)
  show ?thesis
    unfolding file_editor_call_def Let_def
    by (auto intro!: only_at_intros keeps_only_at[OF disk_validate_path] keeps_only_at[OF disk_view] create replace insert undo
        split: option.splits)
qed

text \<open>
  A restricted editor changes only its files. Whatever the action and however it ends, with an observation
  or an exception, every file outside of the allowed ones is as before, and the only file that may
  change is the one the path of the action resolves to. This is the promise on a disk without symbolic
  links; the empty list of allowed files restricts nothing (\<open>empty_restriction\<close>).
\<close>

lemma empty_restriction: "editor_executor env (Some []) a = editor_executor env None a"
  by (simp add: editor_executor_def resolve_allowed_def Let_def)

theorem restricted_editor_confined:
  assumes "\<forall>c \<in> set (ee_cwd env). normal_name c" "editor_executor env (Some allowed) a e = Some (e', r)"
    "allowed \<noteq> []" "dict_get (ed_files e') q \<noteq> dict_get (ed_files e) q"
  shows "q \<in> (resolve_lexically env \<circ> to_path) ` set allowed \<and> q = resolve_lexically env (to_path (ea_path a))
     \<and> ea_command a \<noteq> ''view''"
proof -
  let ?act = "resolve_lexically env (to_path (ea_path a))" and ?ok = "resolve_lexically env \<circ> to_path"
  define run where "run = ecatch (file_editor_call env a) (\<lambda>x.
      case x of ToolError m \<Rightarrow> eret ((text_observation (ea_command a) m)\<lparr>eo_is_error := True\<rparr>) | _ \<Rightarrow> eraise x)"
  have 1: "keeps (only_at {?act}) run"
    unfolding run_def by (auto intro!: only_at_intros only_at_call[OF assms(1)] split: py_exc.splits)
  have 2: "keeps same_disk run" if v: "ea_command a = ''view''"
    unfolding run_def file_editor_call_def Let_def v
    by (auto intro!: disk_intros disk_validate_path disk_view split: py_exc.splits)
  have e: "editor_executor env (Some allowed) a e =
      (if ea_command a \<noteq> ''view'' \<and> ?act \<notin> ?ok ` set allowed then
         eret ((text_observation (ea_command a)
           (''Operation '' @ [CHR 0x27] @ ea_command a @ [CHR 0x27] @ '' is not allowed on file '' @ [CHR 0x27]
            @ abs_path_str ?act @ [CHR 0x27] @ ''. Only the following files can be edited: ''
            @ list_text (\<lambda>s. [CHR 0x27] @ s @ [CHR 0x27]) (sort (map abs_path_str (remdups (map ?ok allowed))))))
           \<lparr>eo_is_error := True\<rparr>) e
       else run e)"
    using assms(3) by (simp add: editor_executor_def resolve_allowed_def Let_def run_def)
  have r: "run e = Some (e', r)" "ea_command a = ''view'' \<or> ?act \<in> ?ok ` set allowed"
    using assms(2,4) unfolding e by (auto simp: eret_def split: if_splits)
  then have "q = ?act" "ea_command a \<noteq> ''view''"
    using keepsD[OF 1 r(1)] keepsD[OF 2 r(1)] assms(4) by (auto simp: only_at_def same_disk_def)
  then show ?thesis using r(2) by blast
qed


section \<open>A small file system\<close>

text \<open>One file in one folder, with one byte per character; a NUL byte makes a file look binary.\<close>

definition editor_sample :: editor_env where
  "editor_sample = \<lparr>ee_cwd = [''w''], ee_workspace = ''/w'', ee_max_file_size = 10485760, ee_home = (\<lambda>_. Some ''/h''),
     ee_detect = (\<lambda>_. (None, None)), ee_decode = (\<lambda>_ b. Some b), ee_encode = (\<lambda>_ t. Some t),
     ee_is_binary = (\<lambda>_ b. CHR 0x00 \<in> set b), ee_popitem = tl, ee_guess_type = (\<lambda>_. None), ee_base64 = id,
     ee_os_error = (\<lambda>p. p), ee_tick = (\<lambda>t. t + 1), ee_digest = id, ee_dumped = (\<lambda>_ _. 1)\<rparr>"

definition sample_disk :: "str \<Rightarrow> editor" where
  "sample_disk bytes = \<lparr>ed_files = [([], Folder), ([''w''], Folder), ([''w'', ''f''], Regular bytes 0 420)],
     ed_encodings = [], ed_history = open_file_cache [] None, ed_clock = 1\<rparr>"

definition edit_action :: "str \<Rightarrow> editor_action" where
  "edit_action command = \<lparr>ea_command = command, ea_path = ''/w/f'', ea_file_text = None, ea_old_str = Some ''b'', ea_new_str = Some ''x'',
     ea_insert_line = Some 1, ea_view_range = None\<rparr>"

definition bytes_at :: "editor \<Rightarrow> abs_path \<Rightarrow> str option" where
  "bytes_at e q = (case dict_get (ed_files e) q of Some (Regular b t mode) \<Rightarrow> Some b | _ \<Rightarrow> None)"

definition outcome :: "(editor \<times> (py_exc + editor_observation)) option \<Rightarrow> str option \<times> (str + str option) option" where
  "outcome r = (case r of None \<Rightarrow> (None, None)
     | Some (e, Inl x) \<Rightarrow> (bytes_at e [''w'', ''f''], Some (Inl (case x of ToolError m \<Rightarrow> take 22 m | _ \<Rightarrow> [])))
     | Some (e, Inr obs) \<Rightarrow> (bytes_at e [''w'', ''f''], Some (Inr (eo_new_content obs))))"

definition succeeds :: "(editor \<times> (py_exc + editor_observation)) option \<Rightarrow> bool" where
  "succeeds r = (case r of Some (e, Inr obs) \<Rightarrow> True | _ \<Rightarrow> False)"

lemma succeedsD: "succeeds r \<Longrightarrow> \<exists>e obs. r = Some (e, Inr obs)"
  by (auto simp: succeeds_def split: option.splits prod.splits sum.splits)

lemma str_replace_edits_once_witness:
  "\<exists>e' obs pre m post. str_replace editor_sample (to_path ''/w/f'') ''b'' ''x'' (sample_disk (''ab'' @ [newline])) = Some (e', Inr obs) \<and>
     eo_old_content obs = Some (pre @ m @ post) \<and> eo_new_content obs = Some (pre @ ''x'' @ post)"
proof -
  have "succeeds (str_replace editor_sample (to_path ''/w/f'') ''b'' ''x'' (sample_disk (''ab'' @ [newline])))" by code_simp
  then obtain e' obs where "str_replace editor_sample (to_path ''/w/f'') ''b'' ''x'' (sample_disk (''ab'' @ [newline])) = Some (e', Inr obs)"
    using succeedsD by blast
  with str_replace_edits_once[OF this] show ?thesis by blast
qed

lemma insert_puts_lines_witness:
  "\<exists>e' obs content. insert_text editor_sample (to_path ''/w/f'') 1 ''x'' (sample_disk ''ab'') = Some (e', Inr obs) \<and>
     reads_as editor_sample (to_path ''/w/f'') content (sample_disk ''ab'') \<and> eo_old_content obs = Some content"
proof -
  have "succeeds (insert_text editor_sample (to_path ''/w/f'') 1 ''x'' (sample_disk ''ab''))" by code_simp
  then obtain e' obs where "insert_text editor_sample (to_path ''/w/f'') 1 ''x'' (sample_disk ''ab'') = Some (e', Inr obs)"
    using succeedsD by blast
  with insert_puts_lines[OF this] show ?thesis by blast
qed

text \<open>A line inserted behind an unterminated last line continues it.\<close>

lemma insert_continues_last_line:
  "outcome (insert_text editor_sample (to_path ''/w/f'') 1 ''x'' (sample_disk ''ab'')) =
     (Some (''abx'' @ [newline]), Some (Inr (Some (''abx'' @ [newline]))))"
  by code_simp

lemma undo_restores_text_witness:
  "\<exists>e1 obs e3 obs' old. file_editor_call editor_sample (edit_action ''str_replace'') (sample_disk ''ab'') = Some (e1, Inr obs) \<and>
     undo_edit editor_sample (to_path ''/w/f'') e1 = Some (e3, Inr obs') \<and> eo_new_content obs' = Some old \<and>
     reads_as editor_sample (to_path ''/w/f'') old (sample_disk ''ab'')"
proof -
  let ?e = "sample_disk ''ab''" and ?a = "edit_action ''str_replace''" and ?p = "to_path ''/w/f''"
  have "succeeds (file_editor_call editor_sample ?a ?e)" by code_simp
  then obtain e1 obs where 1: "file_editor_call editor_sample ?a ?e = Some (e1, Inr obs)" using succeedsD by blast
  have "succeeds (case file_editor_call editor_sample ?a ?e of Some (e, r) \<Rightarrow> undo_edit editor_sample ?p e | None \<Rightarrow> None)" by code_simp
  then obtain e3 obs' where 2: "undo_edit editor_sample ?p e1 = Some (e3, Inr obs')" unfolding 1 option.case prod.case using succeedsD by blast
  have h: "ed_history ?e = open_file_cache [] None" "ee_digest editor_sample = id" "to_path (ea_path ?a) = ?p" "ea_command ?a = ''str_replace''"
    "path_str ?p = ''/w/f''"
    by (simp_all add: sample_disk_def editor_sample_def edit_action_def) code_simp
  have c: "history_counter id (open_file_cache [] None) q = 0" for q
    by (simp add: history_counter_def counter_of_def fcache_look_def open_file_cache_def)
  show ?thesis
    using undo_restores_text[OF 1 _ refl, where P = "{''/w/f''}" and n = 2 and ?e3.0 = e3 and obs' = obs'] 1 2
      empty_history_ok[of 10 id] c by (auto simp: h)
qed

lemma restricted_editor_confined_witness:
  "\<exists>e' r. editor_executor editor_sample (Some [''/w/f'']) (edit_action ''str_replace'') (sample_disk ''ab'') = Some (e', r) \<and>
     dict_get (ed_files e') [''w'', ''f''] \<noteq> dict_get (ed_files (sample_disk ''ab'')) [''w'', ''f''] \<and>
     [''w'', ''f''] = resolve_lexically editor_sample (to_path ''/w/f'')"
proof -
  let ?r = "editor_executor editor_sample (Some [''/w/f'']) (edit_action ''str_replace'') (sample_disk ''ab'')"
  have o: "fst (outcome ?r) = Some ''ax''" by code_simp
  then obtain e' r where e: "?r = Some (e', r)" by (cases ?r) (auto simp: outcome_def)
  have "bytes_at e' [''w'', ''f''] = Some ''ax''" using o unfolding e by (auto simp: outcome_def split: sum.splits)
  then have d: "dict_get (ed_files e') [''w'', ''f''] \<noteq> dict_get (ed_files (sample_disk ''ab'')) [''w'', ''f'']"
    by (auto simp: bytes_at_def sample_disk_def)
  have "\<forall>c \<in> set (ee_cwd editor_sample). normal_name c" by (simp add: editor_sample_def normal_name_def slash_def)
  from restricted_editor_confined[OF this e _ d] show ?thesis using e d by (simp add: edit_action_def)
qed

text \<open>
  An edit rewrites every line end of the file: carriage returns are gone afterwards, and undo does not bring
  them back.
\<close>

lemma edit_unifies_line_ends:
  "outcome (file_editor_call editor_sample (edit_action ''str_replace'') (sample_disk (''ab'' @ [CHR 0x0D, newline] @ ''c'' @ [CHR 0x0D, newline]))) =
     (Some (''ax'' @ [newline] @ ''c'' @ [newline]), Some (Inr (Some (''ax'' @ [newline] @ ''c'' @ [newline]))))"
  by code_simp

text \<open>
  An insert is reported as an error although it changed the file when the new file cannot be read back: here the
  inserted line makes it look binary. The old text is not in the history, so it cannot be undone.
\<close>

definition binary_insert :: editor_action where
  "binary_insert = (edit_action ''insert'')\<lparr>ea_new_str := Some [CHR 0x00]\<rparr>"

lemma failed_insert_changes_file:
  "outcome (file_editor_call editor_sample binary_insert (sample_disk (''ab'' @ [newline]))) =
     (Some (''ab'' @ [newline, CHR 0x00, newline]), Some (Inl ''File validation failed''))"
  by code_simp

lemma failed_insert_no_history:
  "(case file_editor_call editor_sample binary_insert (sample_disk (''ab'' @ [newline])) of
      Some (e, r) \<Rightarrow> file_stack id (ed_history e) ''/w/f'' | None \<Rightarrow> [''none'']) = []"
  by code_simp

text \<open>A path with a tilde counts as absolute, but is used as it is: relative to the working directory.\<close>

lemma tilde_path_is_relative:
  "is_host_absolute_path editor_sample (to_path ''~f'') = Inr True"
  "bytes_at (case file_editor_call editor_sample ((edit_action ''create'')\<lparr>ea_path := ''~f'', ea_file_text := Some ''t''\<rparr>) (sample_disk ''ab'') of
     Some (e, r) \<Rightarrow> e | None \<Rightarrow> sample_disk ''ab'') [''w'', ''~f''] = Some ''t''"
  by code_simp+

text \<open>A view with a range splits lines at form feeds, so its numbers are not those of the file.\<close>

lemma ranged_view_counts_form_feeds:
  "text_lines (''a'' @ [CHR 0x0C] @ ''b'' @ [newline]) = [''a'' @ [CHR 0x0C] @ ''b'' @ [newline]]"
  "number_lines 1 (py_join [newline] (py_splitlines (''a'' @ [CHR 0x0C] @ ''b'' @ [newline]))) =
     ''     1'' @ [CHR 0x09] @ ''a'' @ [newline] @ ''     2'' @ [CHR 0x09] @ ''b''"
  by code_simp+


end
