(* ===== verification/Secret_Registry.thy ===== *)
theory Secret_Registry
  imports Tool_Arguments "HOL-Library.Sublist"
begin

text \<open>
  The secret registry (\<open>conversation/secret_registry.py\<close>): which secrets a command mentions, how
  their values are resolved and remembered, and how remembered values are masked in text, in
  whole outputs, in text that arrives in pieces and inside structured values.

  A secret source is a parameter type \<open>'s\<close>, and what its \<open>get_value\<close> does is a parameter
  \<open>'s \<Rightarrow> 'w \<Rightarrow> (str + str option) \<times> 'w\<close>: it may raise (any exception, \<open>Inl\<close>), return nothing or an
  empty string, and change the world \<open>'w\<close> (a network request). The clock is the argument \<open>now\<close>.
\<close>

section \<open>Occurrences of the values\<close>

text \<open>
  \<open>re.compile("|".join(re.escape(v) for v in values))\<close> matches at a position the first value of the
  list that is a prefix of the text there, and \<open>finditer\<close> takes the leftmost match, then goes on
  behind it. The values of a pattern are non-empty, which makes every match advance.
\<close>

fun match_at :: "str list \<Rightarrow> str \<Rightarrow> str option" where
  "match_at [] s = None"
| "match_at (v # vs) s = (if prefix v s then Some v else match_at vs s)"

fun finditer :: "str list \<Rightarrow> nat \<Rightarrow> str \<Rightarrow> (nat \<times> nat) list" where
  "finditer vs p [] = []"
| "finditer vs p (c # s) =
     (case match_at vs (c # s) of
        None \<Rightarrow> finditer vs (p + 1) s
      | Some v \<Rightarrow> (p, p + length v) # finditer vs (p + length v) (drop (length v - 1) s))"

definition hidden :: str where
  "hidden = ''<secret-hidden>''"

section \<open>StreamOutputMask\<close>

record stream_mask =
  sm_pattern :: "str list option"
  sm_max_len :: nat
  sm_held :: str

text \<open>
  The loop of \<open>_release\<close>: \<open>pos\<close> is the end of the last replaced match and \<open>stop\<close> the end of what is
  released. A match that starts at or behind the cut ends the loop.
\<close>

fun release_loop :: "str \<Rightarrow> nat \<Rightarrow> (nat \<times> nat) list \<Rightarrow> nat \<Rightarrow> nat \<Rightarrow> str list \<Rightarrow> str list \<times> nat \<times> nat" where
  "release_loop held cutoff [] pos stop out = (out, pos, stop)"
| "release_loop held cutoff ((st, en) # ms) pos stop out =
     (if st \<ge> cutoff then (out, pos, stop)
      else release_loop held cutoff ms en (max stop en)
             (out @ [py_slice held (int pos) (int st), hidden]))"

definition release_held :: "stream_mask \<Rightarrow> str list \<Rightarrow> nat \<Rightarrow> str \<times> stream_mask" where
  "release_held m pattern cutoff =
     (let (out, pos, stop) = release_loop (sm_held m) cutoff (finditer pattern 0 (sm_held m)) 0 cutoff []
      in (concat (out @ [py_slice (sm_held m) (int pos) (int stop)]),
          m\<lparr>sm_held := drop stop (sm_held m)\<rparr>))"

definition mask_feed :: "stream_mask \<Rightarrow> str \<Rightarrow> str \<times> stream_mask" where
  "mask_feed m t =
     (case sm_pattern m of
        None \<Rightarrow> (t, m)
      | Some pattern \<Rightarrow>
          let m1 = m\<lparr>sm_held := sm_held m @ t\<rparr>
          in release_held m1 pattern
               (nat (max (int (length (sm_held m1)) - int (sm_max_len m1) + 1) 0)))"

definition mask_flush :: "stream_mask \<Rightarrow> str \<times> stream_mask" where
  "mask_flush m =
     (case sm_pattern m of
        None \<Rightarrow> ([], m)
      | Some pattern \<Rightarrow> release_held m pattern (length (sm_held m)))"

text \<open>What a consumer receives: the outputs of the pieces in their order, then of the flush.\<close>

fun mask_feeds :: "stream_mask \<Rightarrow> str list \<Rightarrow> str \<times> stream_mask" where
  "mask_feeds m [] = ([], m)"
| "mask_feeds m (t # ts) =
     (let (a, m1) = mask_feed m t; (b, m2) = mask_feeds m1 ts in (a @ b, m2))"

definition mask_stream :: "stream_mask \<Rightarrow> str list \<Rightarrow> str" where
  "mask_stream m ts = (let (a, m1) = mask_feeds m ts in a @ fst (mask_flush m1))"

text \<open>The reference: replace every leftmost match of the whole text.\<close>

fun mask_text :: "str list \<Rightarrow> str \<Rightarrow> str" where
  "mask_text vs [] = []"
| "mask_text vs (c # s) =
     (case match_at vs (c # s) of
        None \<Rightarrow> c # mask_text vs s
      | Some v \<Rightarrow> hidden @ mask_text vs (drop (length v - 1) s))"


section \<open>Stream masking is masking of the whole text\<close>

lemma match_at_prefix: "match_at vs s = Some v \<Longrightarrow> v \<in> set vs \<and> prefix v s"
  by (induction vs) (auto split: if_splits)

lemma match_at_None: "match_at vs s = None \<longleftrightarrow> (\<forall>v\<in>set vs. \<not> prefix v s)"
  by (induction vs) auto

text \<open>A text at least as long as the longest value decides what matches at its start.\<close>

lemma match_at_append:
  assumes "\<forall>v\<in>set vs. length v \<le> length s"
  shows "match_at vs (s @ r) = match_at vs s"
  using assms by (induction vs) (auto simp: prefix_append)

lemma drop_match:
  assumes "match_at vs (c # s) = Some v" and "[] \<notin> set vs"
  shows "drop (length v - 1) s = drop (length v) (c # s)" and "0 < length v"
proof -
  have "v \<noteq> []" using match_at_prefix [OF assms(1)] assms(2) by auto
  then show "drop (length v - 1) s = drop (length v) (c # s)" and "0 < length v"
    by (cases v; simp)+
qed

text \<open>
  \<open>release_text vs n s\<close> is what a release with the cut \<open>n\<close> does to the text \<open>s\<close>, without positions:
  the released text and the text kept.
\<close>

fun release_text :: "str list \<Rightarrow> nat \<Rightarrow> str \<Rightarrow> str \<times> str" where
  "release_text vs n [] = ([], [])"
| "release_text vs n (c # s) =
     (if n = 0 then ([], c # s)
      else case match_at vs (c # s) of
        None \<Rightarrow> (case release_text vs (n - 1) s of (a, r) \<Rightarrow> (c # a, r))
      | Some v \<Rightarrow> (case release_text vs (n - length v) (drop (length v - 1) s) of
                    (a, r) \<Rightarrow> (hidden @ a, r)))"

lemma release_text_0 [simp]: "release_text vs 0 s = ([], s)"
  by (cases s) simp_all

lemma take_drop_step:
  "j \<le> p \<Longrightarrow> drop p h = c # s \<Longrightarrow> take (Suc p - j) (drop j h) = take (p - j) (drop j h) @ [c]"
proof -
  assume "j \<le> p" and d: "drop p h = c # s"
  then have "drop (p - j) (drop j h) = c # s" by simp
  then have "take (Suc (p - j)) (drop j h) = take (p - j) (drop j h) @ [c]"
    by (metis append_eq_conv_conj append_take_drop_id take_Suc_conv_app_nth drop_eq_Nil2
        linorder_not_le list.distinct(1) nth_via_drop)
  then show ?thesis using \<open>j \<le> p\<close> by (simp add: Suc_diff_le)
qed

lemma finditer_ge: "(st, en) \<in> set (finditer vs p s) \<Longrightarrow> p \<le> st"
  by (induction vs p s rule: finditer.induct) (fastforce split: option.splits)+

lemma release_loop_stop:
  "\<forall>(st, en) \<in> set ms. n \<le> st \<Longrightarrow> release_loop h n ms j stop out = (out, j, stop)"
  by (cases ms) auto

lemma release_loop_text:
  assumes "[] \<notin> set vs" and "j \<le> p" and "p \<le> max n j" and "n \<le> length h" and "j \<le> length h"
  shows "case release_loop h n (finditer vs p (drop p h)) j (max n j) out of (out', pos, stop) \<Rightarrow>
     concat (out' @ [py_slice h (int pos) (int stop)])
       = concat out @ take (p - j) (drop j h) @ fst (release_text vs (n - p) (drop p h))
     \<and> drop stop h = snd (release_text vs (n - p) (drop p h))"
  using assms
proof (induction "length h - p" arbitrary: p j out rule: less_induct)
  case less
  show ?case
  proof (cases "p < n")
    case False
    then have "max n j = p" "p \<le> length h" using less.prems by auto
    moreover have "release_loop h n (finditer vs p (drop p h)) j (max n j) out = (out, j, max n j)"
      by (rule release_loop_stop) (use False finditer_ge in fastforce)
    ultimately show ?thesis using False by (simp add: min_def)
  next
    case True
    then have lt: "p < length h" using less.prems by simp
    then obtain c s where Cons: "drop p h = c # s" by (metis Cons_nth_drop_Suc)
    have s: "s = drop (Suc p) h" using Cons by (metis drop_Suc list.sel(3) tl_drop)
    show ?thesis
    proof (cases "match_at vs (c # s)")
      case None
      have "length h - Suc p < length h - p" using lt by simp
      note IH = less.hyps [OF this, of j out]
      have "case release_loop h n (finditer vs (Suc p) (drop (Suc p) h)) j (max n j) out of (out', pos, stop) \<Rightarrow>
         concat (out' @ [py_slice h (int pos) (int stop)])
           = concat out @ take (Suc p - j) (drop j h) @ fst (release_text vs (n - Suc p) (drop (Suc p) h))
         \<and> drop stop h = snd (release_text vs (n - Suc p) (drop (Suc p) h))"
        by (rule IH) (use less.prems True in auto)
      moreover have "take (Suc p - j) (drop j h) = take (p - j) (drop j h) @ [c]"
        by (rule take_drop_step) (use less.prems Cons in auto)
      ultimately show ?thesis using True None s Cons by (simp add: case_prod_beta)
    next
      case (Some v)
      have v: "drop (length v - 1) s = drop (p + length v) h" "0 < length v"
        using drop_match [OF Some less.prems(1)] Cons by (metis add.commute drop_drop, simp)
      have "prefix v (drop p h)" using match_at_prefix [OF Some] Cons by simp
      then have le: "p + length v \<le> length h" using lt by (metis add.commute le_diff_conv2 length_drop less_imp_le prefix_length_le)
      have "max (max n j) (p + length v) = max n (p + length v)" using less.prems by simp
      moreover have "length h - (p + length v) < length h - p" using lt v(2) le by linarith
      note IH = less.hyps [OF this, of "p + length v" "out @ [py_slice h (int j) (int p), hidden]"]
      have "case release_loop h n (finditer vs (p + length v) (drop (p + length v) h)) (p + length v)
           (max n (p + length v)) (out @ [py_slice h (int j) (int p), hidden]) of (out', pos, stop) \<Rightarrow>
         concat (out' @ [py_slice h (int pos) (int stop)])
           = concat (out @ [py_slice h (int j) (int p), hidden])
             @ fst (release_text vs (n - (p + length v)) (drop (p + length v) h))
         \<and> drop stop h = snd (release_text vs (n - (p + length v)) (drop (p + length v) h))"
        using IH [OF less.prems(1)] le less.prems(4) by simp
      moreover have "py_slice h (int j) (int p) = take (p - j) (drop j h)"
        using lt by (simp add: min_def)
      ultimately show ?thesis using True Some Cons v
        by (simp add: case_prod_beta)
    qed
  qed
qed

lemma release_held_text:
  assumes "[] \<notin> set vs" and "n \<le> length (sm_held m)"
  shows "release_held m vs n = (fst (release_text vs n (sm_held m)),
    m\<lparr>sm_held := snd (release_text vs n (sm_held m))\<rparr>)"
  using release_loop_text [OF assms(1), of 0 0 n "sm_held m" "[]"] assms(2)
  unfolding release_held_def by (auto simp: case_prod_beta)

text \<open>
  A release leaves for the kept text what masking would have done behind the released part,
  whatever text follows, because everything before the cut has a full value of lookahead.
\<close>

lemma release_text_mask:
  assumes "[] \<notin> set vs" and "\<forall>v\<in>set vs. length v \<le> k" and "n + k \<le> length s + 1 \<or> r = []"
  shows "fst (release_text vs n s) @ mask_text vs (snd (release_text vs n s) @ r) = mask_text vs (s @ r)"
  using assms
proof (induction vs n s rule: release_text.induct)
  case (2 vs n c s)
  show ?case
  proof (cases "n = 0")
    case False
    have at: "match_at vs (c # s @ r) = match_at vs (c # s)"
    proof (cases "r = []")
      case nonempty: False
      have "\<forall>v\<in>set vs. length v \<le> length (c # s)"
        using 2(4,5) nonempty False by fastforce
      then show ?thesis using match_at_append [of vs "c # s" r] by simp
    qed simp
    show ?thesis
    proof (cases "match_at vs (c # s)")
      case None
      have "fst (release_text vs (n - 1) s) @ mask_text vs (snd (release_text vs (n - 1) s) @ r)
          = mask_text vs (s @ r)"
        by (rule 2(1) [OF False None 2(3,4)]) (use 2(5) False in auto)
      then show ?thesis using False None at by (simp add: case_prod_beta)
    next
      case (Some v)
      have v: "v \<in> set vs" "prefix v (c # s)" using match_at_prefix [OF Some] by auto
      then have len: "length v \<le> k" "length v \<le> length s + 1" "0 < length v"
        using 2(3,4) drop_match(2) [OF Some 2(3)] prefix_length_le [OF v(2)] by auto
      have "fst (release_text vs (n - length v) (drop (length v - 1) s))
          @ mask_text vs (snd (release_text vs (n - length v) (drop (length v - 1) s)) @ r)
          = mask_text vs (drop (length v - 1) s @ r)"
      proof (cases "n \<le> length v")
        case False
        show ?thesis
          by (rule 2(2) [OF \<open>n \<noteq> 0\<close> Some 2(3,4)]) (use 2(5) len False in \<open>cases "r = []"; simp; linarith\<close>)
      qed simp
      moreover have "drop (length v - 1) (s @ r) = drop (length v - 1) s @ r" using len by simp
      ultimately show ?thesis using False Some at by (simp add: case_prod_beta)
    qed
  qed simp
qed simp

definition valid_mask :: "stream_mask \<Rightarrow> str list \<Rightarrow> bool" where
  "valid_mask m vs \<longleftrightarrow> sm_pattern m = Some vs \<and> [] \<notin> set vs \<and> (\<forall>v\<in>set vs. length v \<le> sm_max_len m)
     \<and> 0 < sm_max_len m"

lemma mask_feed_step:
  assumes "valid_mask m vs"
  shows "valid_mask (snd (mask_feed m t)) vs"
    and "fst (mask_feed m t) @ mask_text vs (sm_held (snd (mask_feed m t)) @ r)
       = mask_text vs (sm_held m @ t @ r)"
proof -
  define h where "h = sm_held m @ t"
  define n where "n = nat (max (int (length h) - int (sm_max_len m) + 1) 0)"
  note m = assms [unfolded valid_mask_def]
  have n: "n \<le> length h" "n = 0 \<or> n + sm_max_len m \<le> length h + 1" using m unfolding n_def by auto
  have feed: "mask_feed m t = (fst (release_text vs n h), m\<lparr>sm_held := snd (release_text vs n h)\<rparr>)"
    using m n(1) release_held_text [of vs n "m\<lparr>sm_held := h\<rparr>"]
    unfolding mask_feed_def by (simp add: h_def [symmetric] n_def [symmetric])
  show "valid_mask (snd (mask_feed m t)) vs" using m by (simp add: feed valid_mask_def)
  have "fst (release_text vs n h) @ mask_text vs (snd (release_text vs n h) @ r) = mask_text vs (h @ r)"
  proof (cases "n = 0")
    case False
    then show ?thesis using release_text_mask [of vs "sm_max_len m" n h r] m n by auto
  qed simp
  then show "fst (mask_feed m t) @ mask_text vs (sm_held (snd (mask_feed m t)) @ r)
       = mask_text vs (sm_held m @ t @ r)"
    by (simp add: feed h_def)
qed

lemma mask_feeds_step:
  "valid_mask m vs \<Longrightarrow> valid_mask (snd (mask_feeds m ts)) vs
     \<and> fst (mask_feeds m ts) @ mask_text vs (sm_held (snd (mask_feeds m ts)) @ r)
       = mask_text vs (sm_held m @ concat ts @ r)"
proof (induction ts arbitrary: m)
  case (Cons t ts)
  note one = mask_feed_step [OF Cons.prems]
  show ?case
    using Cons.IH [OF one(1) [of t]] one(2) [of t "concat ts @ r"] by (simp add: case_prod_beta)
qed simp

lemma release_text_all: "[] \<notin> set vs \<Longrightarrow> length s \<le> n \<Longrightarrow> snd (release_text vs n s) = []"
proof (induction vs n s rule: release_text.induct)
  case (2 vs n c s)
  show ?case
  proof (cases "match_at vs (c # s)")
    case (Some v)
    have "length (drop (length v - 1) s) \<le> n - length v" using 2(4) drop_match(2) [OF Some 2(3)] by simp
    then show ?thesis using 2(2) [OF _ Some 2(3)] 2(4) Some by (simp add: case_prod_beta)
  qed (use 2 in \<open>simp add: case_prod_beta\<close>)
qed simp

lemma mask_flush_text:
  assumes "valid_mask m vs"
  shows "fst (mask_flush m) = mask_text vs (sm_held m)"
proof -
  let ?h = "sm_held m"
  note m = assms [unfolded valid_mask_def]
  have "fst (mask_flush m) = fst (release_text vs (length ?h) ?h)"
    using m release_held_text [of vs "length ?h" m] by (simp add: mask_flush_def)
  then show ?thesis
    using m release_text_mask [of vs "sm_max_len m" "length ?h" ?h "[]"] release_text_all [of vs ?h "length ?h"]
    by auto
qed

lemma mask_stream_text:
  "valid_mask m vs \<Longrightarrow> mask_stream m ts = mask_text vs (sm_held m @ concat ts)"
  using mask_feeds_step [of m vs ts "[]"] mask_flush_text [of "snd (mask_feeds m ts)" vs]
  by (auto simp: mask_stream_def case_prod_beta)

section \<open>What masking leaves visible\<close>

text \<open>
  The pieces of the text between the replaced matches. No value occurs inside one of them.
\<close>

fun mask_pieces :: "str list \<Rightarrow> str \<Rightarrow> str list" where
  "mask_pieces vs [] = [[]]"
| "mask_pieces vs (c # s) =
     (case match_at vs (c # s) of
        None \<Rightarrow> (case mask_pieces vs s of p # ps \<Rightarrow> (c # p) # ps | [] \<Rightarrow> [[c]])
      | Some v \<Rightarrow> [] # mask_pieces vs (drop (length v - 1) s))"

lemma mask_pieces_ne [simp]: "mask_pieces vs s \<noteq> []"
  by (induction vs s rule: mask_pieces.induct) (auto split: option.splits list.splits)

lemma py_join_Cons: "ps \<noteq> [] \<Longrightarrow> py_join sep (p # ps) = p @ sep @ py_join sep ps"
  by (cases ps) auto

lemma py_join_Cons_head: "py_join sep ((c # p) # ps) = c # py_join sep (p # ps)"
  by (cases ps) auto

lemma mask_text_pieces: "mask_text vs s = py_join hidden (mask_pieces vs s)"
proof (induction vs s rule: mask_text.induct)
  case (2 vs c s)
  show ?case
  proof (cases "match_at vs (c # s)")
    case None
    then show ?thesis using 2(1)
      by (cases "mask_pieces vs s") (auto simp: py_join_Cons_head)
  qed (use 2(2) in \<open>auto simp: py_join_Cons\<close>)
qed simp

text \<open>The first piece is a beginning of the text, so an occurrence in it is one of the text.\<close>

lemma mask_pieces_head: "prefix (hd (mask_pieces vs s)) s"
proof (induction vs s rule: mask_pieces.induct)
  case (2 vs c s)
  then show ?case
    by (cases "match_at vs (c # s)"; cases "mask_pieces vs s") auto
qed simp

lemma mask_pieces_clean:
  "[] \<notin> set vs \<Longrightarrow> p \<in> set (mask_pieces vs s) \<Longrightarrow> v \<in> set vs \<Longrightarrow> \<not> sublist v p"
proof (induction vs s arbitrary: p rule: mask_pieces.induct)
  case (2 vs c s)
  show ?case
  proof (cases "match_at vs (c # s)")
    case None
    obtain q ps where q: "mask_pieces vs s = q # ps" by (cases "mask_pieces vs s") auto
    have "\<not> prefix v (c # q)"
    proof
      assume "prefix v (c # q)"
      moreover have "prefix (c # q) (c # s)" using mask_pieces_head [of vs s] q by simp
      ultimately have "prefix v (c # s)" using prefix_order.trans by blast
      then show False using None 2(5) by (simp add: match_at_None)
    qed
    moreover have "\<not> sublist v q'" if "q' \<in> set (q # ps)" for q'
      using 2(1) [OF None 2(3) _ 2(5)] that q by metis
    ultimately show ?thesis using 2(4) None q
      by (auto simp: sublist_Cons_right)
  next
    case (Some w)
    then show ?thesis using 2(2) [OF Some 2(3) _ 2(5)] 2(3,4,5) by auto
  qed
qed auto

text \<open>Nothing is masked without a value, and masking with one value is \<open>str.replace\<close>.\<close>

lemma mask_text_none [simp]: "mask_text [] s = s"
  by (induction s) auto

section \<open>The registry\<close>

record ('s) secret_registry =
  secret_sources :: "(str, 's) dict"
  exported_values :: "(str, str) dict"
  failed_lookups :: "(str, rat) dict"

type_synonym ('s, 'w) lookup = "'s \<Rightarrow> 'w \<Rightarrow> (str + str option) \<times> 'w"

definition failed_lookup_retry_seconds :: rat where
  "failed_lookup_retry_seconds = 60"

text \<open>\<open>if value\<close> of a \<open>str | None\<close>.\<close>

fun truthy_str :: "str option \<Rightarrow> bool" where
  "truthy_str None = False"
| "truthy_str (Some v) = (v \<noteq> [])"

definition dict_update :: "('k, 'v) dict \<Rightarrow> ('k, 'v) dict \<Rightarrow> ('k, 'v) dict" where
  "dict_update d e = foldl (\<lambda>d (k, v). dict_put k v d) d e"

definition track_exported_values :: "(str, str) dict \<Rightarrow> 's secret_registry \<Rightarrow> 's secret_registry" where
  "track_exported_values values reg =
     reg\<lparr>exported_values := dict_update (exported_values reg) (filter (\<lambda>(k, v). v \<noteq> []) values)\<rparr>"

text \<open>A secret given as a plain string becomes a \<open>StaticSecret\<close>; \<open>wrap\<close> is that constructor.\<close>

datatype 's secret_value = SecretText str | SecretObject 's

fun wrap_secret :: "(str \<Rightarrow> 's) \<Rightarrow> 's secret_value \<Rightarrow> 's" where
  "wrap_secret static (SecretText v) = static v"
| "wrap_secret static (SecretObject s) = s"

definition update_secrets :: "(str \<Rightarrow> 's) \<Rightarrow> (str, 's secret_value) dict \<Rightarrow> 's secret_registry \<Rightarrow> 's secret_registry" where
  "update_secrets static secrets reg =
     reg\<lparr>secret_sources := dict_update (secret_sources reg) (map (\<lambda>(n, v). (n, wrap_secret static v)) secrets)\<rparr>"

text \<open>\<open>description\<close> is the field of a source.\<close>

definition get_secret_infos :: "('s \<Rightarrow> str option) \<Rightarrow> 's secret_registry \<Rightarrow> (str \<times> str option) list" where
  "get_secret_infos description reg = map (\<lambda>(name, source). (name, description source)) (secret_sources reg)"

definition find_secrets_in_text :: "'s secret_registry \<Rightarrow> str \<Rightarrow> str list" where
  "find_secrets_in_text reg t =
     filter (\<lambda>key. contains (py_lower key) (py_lower t)) (dict_keys (secret_sources reg))"

definition get_secret_value ::
    "('s, 'w) lookup \<Rightarrow> str \<Rightarrow> 's secret_registry \<times> 'w \<Rightarrow> str option \<times> 's secret_registry \<times> 'w" where
  "get_secret_value fetch name = (\<lambda>(reg, w).
     case dict_get (secret_sources reg) name of
       None \<Rightarrow> (None, reg, w)
     | Some source \<Rightarrow>
         (case fetch source w of
            (Inl e, w1) \<Rightarrow> (None, reg, w1)
          | (Inr v, w1) \<Rightarrow>
              (v, if truthy_str v then track_exported_values [(name, the v)] reg else reg, w1)))"

text \<open>
  \<open>get_secrets_as_env_vars\<close>: the loop over the secrets found. The code runs over a set; the order
  here is that of the registry.
\<close>

fun resolve_env_vars ::
    "('s, 'w) lookup \<Rightarrow> str list \<Rightarrow> (str, str) dict \<Rightarrow> 's secret_registry \<times> 'w
      \<Rightarrow> (str, str) dict \<times> 's secret_registry \<times> 'w" where
  "resolve_env_vars fetch [] env st = (env, st)"
| "resolve_env_vars fetch (key # keys) env st =
     (case get_secret_value fetch key st of
        (v, st1) \<Rightarrow> resolve_env_vars fetch keys (if truthy_str v then dict_put key (the v) env else env) st1)"

definition get_secrets_as_env_vars ::
    "('s, 'w) lookup \<Rightarrow> str \<Rightarrow> 's secret_registry \<times> 'w \<Rightarrow> (str, str) dict \<times> 's secret_registry \<times> 'w" where
  "get_secrets_as_env_vars fetch command st =
     resolve_env_vars fetch (find_secrets_in_text (fst st) command) [] st"

definition get_all_secrets_as_env_vars ::
    "('s, 'w) lookup \<Rightarrow> str list \<Rightarrow> 's secret_registry \<times> 'w \<Rightarrow> (str, str) dict \<times> 's secret_registry \<times> 'w" where
  "get_all_secrets_as_env_vars fetch exclude st =
     resolve_env_vars fetch
       (filter (\<lambda>name. name \<notin> set exclude) (dict_keys (secret_sources (fst st)))) [] st"

text \<open>
  \<open>mask_secrets_in_output\<close>: values not resolved yet are resolved first, except where the last try
  failed less than a minute ago; then every remembered value is replaced, one after the other.
\<close>

definition backed_off :: "rat \<Rightarrow> 's secret_registry \<Rightarrow> str \<Rightarrow> bool" where
  "backed_off now reg key =
     (case dict_get (failed_lookups reg) key of
        None \<Rightarrow> False
      | Some failed_at \<Rightarrow> now - failed_at < failed_lookup_retry_seconds)"

fun resolve_uncached ::
    "('s, 'w) lookup \<Rightarrow> rat \<Rightarrow> str list \<Rightarrow> 's secret_registry \<times> 'w \<Rightarrow> 's secret_registry \<times> 'w" where
  "resolve_uncached fetch now [] st = st"
| "resolve_uncached fetch now (key # keys) st =
     (if dict_get (exported_values (fst st)) key \<noteq> None \<or> backed_off now (fst st) key
      then resolve_uncached fetch now keys st
      else case get_secret_value fetch key st of
        (v, reg, w) \<Rightarrow>
          resolve_uncached fetch now keys
            (if truthy_str v then reg
             else reg\<lparr>failed_lookups := dict_put key now (failed_lookups reg)\<rparr>, w))"

definition py_replace :: "str \<Rightarrow> str \<Rightarrow> str \<Rightarrow> str" where
  "py_replace old new s = py_join new (mask_pieces [old] s)"

definition mask_with :: "str list \<Rightarrow> str \<Rightarrow> str" where
  "mask_with vs t = foldl (\<lambda>t v. if v = [] then t else py_replace v hidden t) t vs"

definition mask_secrets_in_output ::
    "('s, 'w) lookup \<Rightarrow> rat \<Rightarrow> 's secret_registry \<times> 'w \<Rightarrow> str \<Rightarrow> str \<times> 's secret_registry \<times> 'w" where
  "mask_secrets_in_output fetch now st t =
     (if t = [] then (t, st)
      else let st1 = resolve_uncached fetch now (dict_keys (secret_sources (fst st))) st
           in (mask_with (map snd (exported_values (fst st1))) t, st1))"

text \<open>\<open>compile_stream_mask\<close>: the distinct non-empty values, the longest first.\<close>

definition stream_values :: "'s secret_registry \<Rightarrow> str list" where
  "stream_values reg =
     rev (sort_key length (rev (remdups (filter (\<lambda>v. v \<noteq> []) (map snd (exported_values reg))))))"

definition compile_stream_mask :: "'s secret_registry \<Rightarrow> stream_mask" where
  "compile_stream_mask reg =
     (let values = stream_values reg in
      if values = [] then \<lparr>sm_pattern = None, sm_max_len = 0, sm_held = []\<rparr>
      else \<lparr>sm_pattern = Some values, sm_max_len = Max (set (map length values)), sm_held = []\<rparr>)"


lemma set_stream_values: "set (stream_values reg) = {v \<in> snd ` set (exported_values reg). v \<noteq> []}"
  by (auto simp: stream_values_def)

lemma compile_valid:
  assumes "stream_values reg \<noteq> []"
  shows "valid_mask (compile_stream_mask reg) (stream_values reg)"
proof -
  let ?vs = "stream_values reg" and ?M = "Max (length ` set (stream_values reg))"
  have le: "\<forall>v\<in>set ?vs. length v \<le> ?M" by simp
  obtain v where v: "v \<in> set ?vs" using assms by (meson list.set_sel(1))
  then have "0 < length v" by (auto simp: set_stream_values)
  moreover have "length v \<le> ?M" using le v by blast
  ultimately have "0 < ?M" by linarith
  moreover have "compile_stream_mask reg = \<lparr>sm_pattern = Some ?vs, sm_max_len = ?M, sm_held = []\<rparr>"
    using assms by (simp add: compile_stream_mask_def Let_def)
  moreover have "[] \<notin> set ?vs" by (simp add: set_stream_values)
  ultimately show ?thesis using le by (simp only: valid_mask_def stream_mask.simps) simp
qed

lemma mask_feeds_none: "sm_pattern m = None \<Longrightarrow> mask_feeds m ts = (concat ts, m)"
  by (induction ts) (simp_all add: mask_feed_def)

lemma mask_stream_all:
  "mask_stream (compile_stream_mask reg) ts = mask_text (stream_values reg) (concat ts)"
proof (cases "stream_values reg = []")
  case True
  then show ?thesis
    by (simp add: mask_stream_def mask_feeds_none mask_flush_def compile_stream_mask_def)
next
  case False
  moreover have "sm_held (compile_stream_mask reg) = []" by (simp add: compile_stream_mask_def Let_def)
  ultimately show ?thesis using mask_stream_text [OF compile_valid [of reg], of ts] by simp
qed

text \<open>
  C6: Masking text that arrives in pieces does not depend on how it is cut: what is released for
  the pieces and at the final flush is, put together, the whole text with every leftmost longest
  occurrence of a remembered value replaced.
\<close>

theorem stream_mask_is_text_mask:
  "mask_stream (compile_stream_mask reg) ts = mask_text (stream_values reg) (concat ts)"
  by (rule mask_stream_all)

text \<open>The text is its pieces with the occurrences that were replaced between them.\<close>

fun interleave :: "str list \<Rightarrow> str list \<Rightarrow> str" where
  "interleave (p # ps) (v # vs) = p @ v @ interleave ps vs"
| "interleave ps vs = concat ps"

lemma mask_pieces_text:
  "[] \<notin> set vs \<Longrightarrow> \<exists>ws. set ws \<subseteq> set vs \<and> length (mask_pieces vs s) = length ws + 1
     \<and> s = interleave (mask_pieces vs s) ws"
proof (induction vs s rule: mask_pieces.induct)
  case (2 vs c s)
  show ?case
  proof (cases "match_at vs (c # s)")
    case None
    obtain ws where ws: "set ws \<subseteq> set vs" "length (mask_pieces vs s) = length ws + 1"
      "s = interleave (mask_pieces vs s) ws" using 2(1) [OF None 2(3)] by blast
    obtain p ps where ps: "mask_pieces vs s = p # ps" by (cases "mask_pieces vs s") auto
    have "interleave ((c # p) # ps) ws = c # s" using ws(3) ps by (cases ws) auto
    then show ?thesis using None ps ws(1,2) by (intro exI [of _ ws]) simp
  next
    case (Some v)
    obtain ws where ws: "set ws \<subseteq> set vs" "length (mask_pieces vs (drop (length v - 1) s)) = length ws + 1"
      "drop (length v - 1) s = interleave (mask_pieces vs (drop (length v - 1) s)) ws"
      using 2(2) [OF Some 2(3)] by blast
    have "v \<in> set vs" "c # s = v @ drop (length v) (c # s)"
      using match_at_prefix [OF Some] by (auto simp: prefix_def)
    then show ?thesis using Some ws drop_match(1) [OF Some 2(3)]
      by (intro exI [of _ "v # ws"]) simp
  qed
qed (auto intro: exI [of _ "[]"])

text \<open>
  C7: No value the registry remembers can be read in a masked stream: the text is a sequence of
  pieces with remembered values between them, what is released has the marker in the place of
  each of these values, and no piece contains a value.
\<close>

theorem stream_hides_values:
  "\<exists>ps ws. concat ts = interleave ps ws
     \<and> mask_stream (compile_stream_mask reg) ts = py_join hidden ps
     \<and> length ps = length ws + 1 \<and> set ws \<subseteq> snd ` set (exported_values reg)
     \<and> (\<forall>p v. p \<in> set ps \<and> v \<in> snd ` set (exported_values reg) \<and> sublist v p \<longrightarrow> v = [])"
proof -
  let ?vs = "stream_values reg"
  have ne: "[] \<notin> set ?vs" by (simp add: set_stream_values)
  obtain ws where ws: "set ws \<subseteq> set ?vs" "length (mask_pieces ?vs (concat ts)) = length ws + 1"
    "concat ts = interleave (mask_pieces ?vs (concat ts)) ws"
    using mask_pieces_text [OF ne, of "concat ts"] by blast
  have "v = []" if "p \<in> set (mask_pieces ?vs (concat ts))" "v \<in> snd ` set (exported_values reg)" "sublist v p" for p v
    using mask_pieces_clean [OF ne that(1), of v] that(2,3) by (auto simp: set_stream_values)
  moreover have "set ws \<subseteq> snd ` set (exported_values reg)" using ws(1) by (auto simp: set_stream_values)
  ultimately show ?thesis using ws(2,3) mask_stream_all [of reg ts] mask_text_pieces [of ?vs "concat ts"]
    by (intro exI [of _ "mask_pieces ?vs (concat ts)"] exI [of _ ws]) auto
qed

theorem stream_hides_values_witness:
  "\<exists>ps ws. concat [''use to'', ''ken-7 now''] = interleave ps ws
     \<and> mask_stream (compile_stream_mask
         \<lparr>secret_sources = [] :: (str, unit) dict, exported_values = [(''K'', ''token-7'')], failed_lookups = []\<rparr>)
         [''use to'', ''ken-7 now''] = py_join hidden ps
     \<and> length ps = length ws + 1
     \<and> set ws \<subseteq> snd ` set (exported_values
         \<lparr>secret_sources = [] :: (str, unit) dict, exported_values = [(''K'', ''token-7'')], failed_lookups = []\<rparr>)
     \<and> (\<forall>p v. p \<in> set ps \<and> v \<in> snd ` set (exported_values
         \<lparr>secret_sources = [] :: (str, unit) dict, exported_values = [(''K'', ''token-7'')], failed_lookups = []\<rparr>)
         \<and> sublist v p \<longrightarrow> v = [])"
  by (rule stream_hides_values)

text \<open>
  Outputs are masked value by value in the order in which the values were resolved. A value that
  begins another one and was resolved before it hides the common part only.
\<close>

theorem short_value_uncovers_long:
  "mask_with [''tok'', ''token-77''] ''use token-77'' = ''use '' @ hidden @ ''en-77''"
  by code_simp

section \<open>Resolving and backing off\<close>

text \<open>What every lookup keeps: the sources, and a value for every name that had one.\<close>

definition registry_grows :: "'s secret_registry \<times> 'w \<Rightarrow> 's secret_registry \<times> 'w \<Rightarrow> bool" where
  "registry_grows st st' \<longleftrightarrow> secret_sources (fst st') = secret_sources (fst st)
     \<and> dom (dict_get (exported_values (fst st))) \<subseteq> dom (dict_get (exported_values (fst st')))"

lemma registry_grows_refl [simp]: "registry_grows st st"
  by (simp add: registry_grows_def)

lemma registry_grows_trans: "registry_grows a b \<Longrightarrow> registry_grows b c \<Longrightarrow> registry_grows a c"
  by (auto simp: registry_grows_def)

lemma track_one [simp]:
  "v \<noteq> [] \<Longrightarrow> track_exported_values [(k, v)] reg = reg\<lparr>exported_values := dict_put k v (exported_values reg)\<rparr>"
  by (simp add: track_exported_values_def dict_update_def)

lemma truthy_str_iff: "truthy_str v \<longleftrightarrow> (\<exists>x. v = Some x \<and> x \<noteq> [])"
  by (cases v) auto

lemma get_secret_value_cases:
  assumes "get_secret_value fetch key st = (v, st')"
  shows "(\<exists>x. v = Some x \<and> x \<noteq> [] \<and> fst st' = (fst st)\<lparr>exported_values := dict_put key x (exported_values (fst st))\<rparr>)
     \<or> \<not> truthy_str v \<and> fst st' = fst st"
  using assms unfolding get_secret_value_def truthy_str_iff
  by (auto split: option.splits prod.splits sum.splits if_splits)

lemma get_secret_value_grows: "registry_grows st (snd (get_secret_value fetch key st))"
  using get_secret_value_cases [of fetch key st "fst (get_secret_value fetch key st)" "snd (get_secret_value fetch key st)"]
  by (auto simp: registry_grows_def)

lemma resolve_uncached_grows: "registry_grows st (resolve_uncached fetch now keys st)"
proof (induction keys arbitrary: st)
  case (Cons key keys)
  obtain v reg w where g: "get_secret_value fetch key st = (v, reg, w)" by (metis prod_cases3)
  let ?st = "(if truthy_str v then reg else reg\<lparr>failed_lookups := dict_put key now (failed_lookups reg)\<rparr>, w)"
  have "registry_grows st (reg, w)" using get_secret_value_grows [of st fetch key] g by simp
  then have "registry_grows st ?st" by (simp add: registry_grows_def)
  then have "registry_grows st (resolve_uncached fetch now keys ?st)"
    using Cons.IH by (rule registry_grows_trans)
  then show ?case using Cons.IH [of st] g by simp
qed simp

lemma mask_with_Nil [simp]: "mask_with vs [] = []"
  by (induction vs) (simp_all add: mask_with_def py_replace_def)

lemma mask_output_grows: "registry_grows st (snd (mask_secrets_in_output fetch now st t))"
  by (simp add: mask_secrets_in_output_def Let_def resolve_uncached_grows)

definition settled :: "rat \<Rightarrow> 's secret_registry \<Rightarrow> str \<Rightarrow> bool" where
  "settled now reg key \<longleftrightarrow> dict_get (exported_values reg) key \<noteq> None \<or> backed_off now reg key"

lemma resolve_uncached_settled [simp]:
  "\<forall>key\<in>set keys. settled now (fst st) key \<Longrightarrow> resolve_uncached fetch now keys st = st"
  by (induction keys) (auto simp: settled_def)

lemma settled_mono:
  assumes "get_secret_value fetch key st = (v, reg, w)" and "settled now (fst st) k"
  shows "settled now (if truthy_str v then reg
    else reg\<lparr>failed_lookups := dict_put key now (failed_lookups reg)\<rparr>) k"
  using get_secret_value_cases [OF assms(1)] assms(2)
  by (auto simp: settled_def backed_off_def failed_lookup_retry_seconds_def truthy_str_iff split: option.splits)

lemma settled_step:
  assumes "get_secret_value fetch key st = (v, reg, w)"
  shows "settled now (if truthy_str v then reg
    else reg\<lparr>failed_lookups := dict_put key now (failed_lookups reg)\<rparr>) key"
  using get_secret_value_cases [OF assms]
  by (auto simp: settled_def backed_off_def failed_lookup_retry_seconds_def truthy_str_iff)

lemma resolve_uncached_settles:
  "(k \<in> set keys \<or> settled now (fst st) k) \<Longrightarrow> settled now (fst (resolve_uncached fetch now keys st)) k"
proof (induction keys arbitrary: st)
  case (Cons key keys)
  show ?case
  proof (cases "settled now (fst st) key")
    case True
    then have "resolve_uncached fetch now (key # keys) st = resolve_uncached fetch now keys st"
      by (simp add: settled_def)
    moreover have "k \<in> set keys \<or> settled now (fst st) k" using Cons.prems True by auto
    ultimately show ?thesis using Cons.IH [of st] by simp
  next
    case False
    obtain v reg w where g: "get_secret_value fetch key st = (v, reg, w)" by (metis prod_cases3)
    let ?st = "(if truthy_str v then reg else reg\<lparr>failed_lookups := dict_put key now (failed_lookups reg)\<rparr>, w)"
    have "k \<in> set keys \<or> settled now (fst ?st) k"
      using Cons.prems settled_mono [OF g, of now k] settled_step [OF g, of now] by auto
    then have "settled now (fst (resolve_uncached fetch now keys ?st)) k" by (rule Cons.IH)
    moreover have "resolve_uncached fetch now (key # keys) st = resolve_uncached fetch now keys ?st"
      using False g by (simp add: settled_def)
    ultimately show ?thesis by simp
  qed
qed simp

text \<open>
  C9: A source that fails is left alone for a minute: when every lookup that had failed by the
  end of one masking is less than a minute old at the next, the next one asks no source and
  changes nothing, neither the registry nor the world.
\<close>

theorem masking_backs_off:
  assumes "t \<noteq> []" and "mask_secrets_in_output fetch now st t = (t', st')"
    and "\<forall>key failed_at. dict_get (failed_lookups (fst st')) key = Some failed_at
           \<longrightarrow> now' - failed_at < failed_lookup_retry_seconds"
  shows "mask_secrets_in_output fetch now' st' u = (mask_with (map snd (exported_values (fst st'))) u, st')"
proof -
  let ?keys = "dict_keys (secret_sources (fst st))"
  have st': "st' = resolve_uncached fetch now ?keys st"
    using assms(1,2) by (simp add: mask_secrets_in_output_def Let_def)
  then have src: "secret_sources (fst st') = secret_sources (fst st)"
    using resolve_uncached_grows [of st fetch now ?keys] by (simp add: registry_grows_def)
  have "settled now' (fst st') key" if "key \<in> set ?keys" for key
    using resolve_uncached_settles [of key ?keys now st fetch] that assms(3) unfolding st' [symmetric]
    by (auto simp: settled_def backed_off_def split: option.splits)
  then have "resolve_uncached fetch now' (dict_keys (secret_sources (fst st'))) st' = st'"
    using src by (intro resolve_uncached_settled) auto
  then show ?thesis by (simp add: mask_secrets_in_output_def Let_def)
qed

definition sample_fetch :: "(str option, int) lookup" where
  "sample_fetch src w = (case src of None \<Rightarrow> (Inl ''refused'', w + 1) | Some v \<Rightarrow> (Inr (Some v), w + 1))"

definition sample_registry :: "str option secret_registry" where
  "sample_registry = \<lparr>secret_sources = [(''GH'', Some ''tok-1''), (''REMOTE'', None)], exported_values = [], failed_lookups = []\<rparr>"

definition sample_masked :: "str option secret_registry" where
  "sample_masked = sample_registry\<lparr>exported_values := [(''GH'', ''tok-1'')], failed_lookups := [(''REMOTE'', 100)]\<rparr>"

lemma sample_mask:
  "mask_secrets_in_output sample_fetch 100 (sample_registry, 0) ''x tok-1'' = (''x '' @ hidden, sample_masked, 2)"
  by code_simp

theorem masking_backs_off_witness:
  "mask_secrets_in_output sample_fetch 130 (sample_masked, 2) ''tok-1''
     = (mask_with (map snd (exported_values (fst (sample_masked, 2 :: int)))) ''tok-1'', sample_masked, 2)"
  by (rule masking_backs_off [OF _ sample_mask])
    (simp_all add: sample_masked_def failed_lookup_retry_seconds_def)

section \<open>Masking inside values\<close>

text \<open>
  The values \<open>_mask_value\<close> distinguishes, each with its class. A model has its declared fields and the
  rest (private attributes, extra fields), which \<open>model_copy\<close> carries over; the flag of a tuple
  says that its class is a \<open>NamedTuple\<close>; \<open>PySet\<close> lists the elements of a set or frozenset; \<open>PyOther\<close> is every
  value of another type. Masking rebuilds lists, dictionaries and plain tuples as the
  built-in class, whatever subclass they were of.
\<close>

datatype py_value =
    PyEnum str str
  | PyStr str str
  | PyModel str "(str \<times> py_value) list" "(str \<times> py_value) list"
  | PyList str "py_value list"
  | PyTuple str bool "py_value list"
  | PySet str "py_value list"
  | PyDict str "(py_value \<times> py_value) list"
  | PyOther str str

type_synonym 'st str_mask = "'st \<Rightarrow> str \<times> str \<Rightarrow> (str \<times> str) \<times> 'st"

fun mask_value :: "'st str_mask \<Rightarrow> 'st \<Rightarrow> py_value \<Rightarrow> py_value \<times> 'st"
  and mask_values :: "'st str_mask \<Rightarrow> 'st \<Rightarrow> py_value list \<Rightarrow> py_value list \<times> 'st"
  and mask_fields :: "'st str_mask \<Rightarrow> 'st \<Rightarrow> (str \<times> py_value) list \<Rightarrow> (str \<times> py_value) list \<times> 'st"
  and mask_items :: "'st str_mask \<Rightarrow> 'st \<Rightarrow> (py_value \<times> py_value) list \<Rightarrow> (py_value \<times> py_value) list \<times> 'st"
where
  "mask_value mk st (PyEnum c v) = (PyEnum c v, st)"
| "mask_value mk st (PyStr c s) = (case mk st (c, s) of ((c', s'), st') \<Rightarrow> (PyStr c' s', st'))"
| "mask_value mk st (PyModel c fs rest) = (case mask_fields mk st fs of (fs', st') \<Rightarrow> (PyModel c fs' rest, st'))"
| "mask_value mk st (PyList c vs) = (case mask_values mk st vs of (vs', st') \<Rightarrow> (PyList ''list'' vs', st'))"
| "mask_value mk st (PyTuple c named vs) =
     (case mask_values mk st vs of (vs', st') \<Rightarrow> (PyTuple (if named then c else ''tuple'') named vs', st'))"
| "mask_value mk st (PySet c vs) = (case mask_values mk st vs of (vs', st') \<Rightarrow> (PySet c (remdups vs'), st'))"
| "mask_value mk st (PyDict c kvs) = (case mask_items mk st kvs of (kvs', st') \<Rightarrow> (PyDict ''dict'' kvs', st'))"
| "mask_value mk st (PyOther c v) = (PyOther c v, st)"
| "mask_values mk st [] = ([], st)"
| "mask_values mk st (v # vs) =
     (case mask_value mk st v of (v', st1) \<Rightarrow>
      case mask_values mk st1 vs of (vs', st2) \<Rightarrow> (v' # vs', st2))"
| "mask_fields mk st [] = ([], st)"
| "mask_fields mk st ((n, v) # fs) =
     (case mask_value mk st v of (v', st1) \<Rightarrow>
      case mask_fields mk st1 fs of (fs', st2) \<Rightarrow> ((n, v') # fs', st2))"
| "mask_items mk st [] = ([], st)"
| "mask_items mk st ((k, v) # kvs) =
     (case mask_value mk st v of (v', st1) \<Rightarrow>
      case mask_items mk st1 kvs of (kvs', st2) \<Rightarrow> ((k, v') # kvs', st2))"

text \<open>
  \<open>mask_secrets_in_output\<close> of a string object: \<open>replace\<close> returns a plain string, and without a
  call of it (no text, or no value to replace) the object itself is returned.
\<close>

definition mask_str :: "('s, 'w) lookup \<Rightarrow> rat \<Rightarrow> ('s secret_registry \<times> 'w) str_mask" where
  "mask_str fetch now st = (\<lambda>(c, t).
     case mask_secrets_in_output fetch now st t of
       (t', st') \<Rightarrow> ((if t = [] \<or> (\<forall>v\<in>set (map snd (exported_values (fst st'))). v = []) then c else ''str'', t'), st'))"

definition mask_secrets_in_model ::
    "('s, 'w) lookup \<Rightarrow> rat \<Rightarrow> 's secret_registry \<times> 'w \<Rightarrow> py_value \<Rightarrow> py_value \<times> 's secret_registry \<times> 'w" where
  "mask_secrets_in_model fetch now st model = mask_value (mask_str fetch now) st model"

text \<open>
  The types the fields of a model are declared with; \<open>conforms\<close> says that a value has a type. An
  enumeration lists its members. A text may be constrained: the values of a \<open>Literal\<close>, a pattern, a
  length. As \<open>isinstance\<close> does, \<open>TList\<close>, \<open>TDict\<close> and texts accept subclasses.
\<close>

datatype py_type =
    TAny
  | TEnum str "str list"
  | TStr
  | TConstrained "str \<Rightarrow> bool"
  | TModel str "(str \<times> py_type) list"
  | TList py_type
  | TTuple "py_type list"
  | TNamedTuple str "py_type list"
  | TSet str py_type
  | TDict py_type py_type
  | TOther str
  | TUnion "py_type list"

fun conforms :: "py_type \<Rightarrow> py_value \<Rightarrow> bool" where
  "conforms TAny v = True"
| "conforms (TEnum c ms) v = (case v of PyEnum c' m \<Rightarrow> c' = c \<and> m \<in> set ms | _ \<Rightarrow> False)"
| "conforms TStr v = (case v of PyStr c s \<Rightarrow> True | _ \<Rightarrow> False)"
| "conforms (TConstrained p) v = (case v of PyStr c s \<Rightarrow> p s | _ \<Rightarrow> False)"
| "conforms (TModel c fts) v =
     (case v of PyModel c' fs rest \<Rightarrow>
        c' = c \<and> list_all2 (\<lambda>(n, t) (n', v). n' = n \<and> conforms t v) fts fs
      | _ \<Rightarrow> False)"
| "conforms (TList t) v = (case v of PyList c vs \<Rightarrow> list_all (conforms t) vs | _ \<Rightarrow> False)"
| "conforms (TTuple ts) v = (case v of PyTuple c named vs \<Rightarrow> list_all2 conforms ts vs | _ \<Rightarrow> False)"
| "conforms (TNamedTuple c ts) v =
     (case v of PyTuple c' named vs \<Rightarrow> named \<and> c' = c \<and> list_all2 conforms ts vs | _ \<Rightarrow> False)"
| "conforms (TSet c t) v = (case v of PySet c' vs \<Rightarrow> c' = c \<and> distinct vs \<and> list_all (conforms t) vs | _ \<Rightarrow> False)"
| "conforms (TDict k t) v = (case v of PyDict c kvs \<Rightarrow> list_all (\<lambda>(a, b). conforms k a \<and> conforms t b) kvs | _ \<Rightarrow> False)"
| "conforms (TOther c) v = (case v of PyOther c' x \<Rightarrow> c' = c | _ \<Rightarrow> False)"
| "conforms (TUnion ts) v = list_ex (\<lambda>t. conforms t v) ts"

text \<open>The types masking keeps: a constraint on a text may stand only where it is not masked, on keys.\<close>

fun free_texts :: "py_type \<Rightarrow> bool" where
  "free_texts (TConstrained p) = False"
| "free_texts (TModel c fts) = list_all (\<lambda>(n, t). free_texts t) fts"
| "free_texts (TList t) = free_texts t"
| "free_texts (TTuple ts) = list_all free_texts ts"
| "free_texts (TNamedTuple c ts) = list_all free_texts ts"
| "free_texts (TSet c t) = free_texts t"
| "free_texts (TDict k t) = free_texts t"
| "free_texts (TUnion ts) = list_all free_texts ts"
| "free_texts t = True"

lemma mask_values_all:
  assumes "\<And>v st. v \<in> set vs \<Longrightarrow> P v \<Longrightarrow> P (fst (mask_value mk st v))" and "list_all P vs"
  shows "list_all P (fst (mask_values mk st vs))"
  using assms by (induction vs arbitrary: st) (auto simp: case_prod_beta)

lemma mask_values_all2:
  assumes "\<And>t v st. t \<in> set ts \<Longrightarrow> v \<in> set vs \<Longrightarrow> P t v \<Longrightarrow> P t (fst (mask_value mk st v))" and "list_all2 P ts vs"
  shows "list_all2 P ts (fst (mask_values mk st vs))"
  using assms(2,1) by (induction ts vs arbitrary: st rule: list_all2_induct) (auto simp: case_prod_beta)

lemma mask_fields_all2:
  assumes "\<And>n t n' v st. (n, t) \<in> set fts \<Longrightarrow> (n', v) \<in> set fs \<Longrightarrow> P t v \<Longrightarrow> P t (fst (mask_value mk st v))"
    and "list_all2 (\<lambda>(n, t) (n', v). n' = n \<and> P t v) fts fs"
  shows "list_all2 (\<lambda>(n, t) (n', v). n' = n \<and> P t v) fts (fst (mask_fields mk st fs))"
  using assms(2,1)
proof (induction fts fs arbitrary: st rule: list_all2_induct)
  case (Cons x xs y ys)
  obtain n t where x: "x = (n, t)" by (cases x)
  obtain n' v where y: "y = (n', v)" by (cases y)
  have "P t (fst (mask_value mk st v))" using Cons(1) Cons(4) [of n t n' v] x y by simp
  moreover have "list_all2 (\<lambda>(n, t) (n', v). n' = n \<and> P t v) xs (fst (mask_fields mk st' ys))" for st'
    by (rule Cons(3)) (meson Cons(4) list.set_intros(2))
  moreover obtain v' st1 ys' st2 where "mask_value mk st v = (v', st1)" "mask_fields mk st1 ys = (ys', st2)"
    by (metis surj_pair)
  ultimately show ?case using Cons(1) x y by (metis (mono_tags, lifting) case_prod_conv fst_conv list_all2_Cons mask_fields.simps(2))
qed simp

lemma mask_items_all:
  assumes "\<And>k v st. (k, v) \<in> set kvs \<Longrightarrow> P v \<Longrightarrow> P (fst (mask_value mk st v))"
    and "list_all (\<lambda>(k, v). Q k \<and> P v) kvs"
  shows "list_all (\<lambda>(k, v). Q k \<and> P v) (fst (mask_items mk st kvs))"
  using assms(2,1)
proof (induction kvs arbitrary: st)
  case (Cons kv kvs)
  obtain k v where kv: "kv = (k, v)" by (cases kv)
  have "P (fst (mask_value mk st v))" using Cons(2) Cons(3) [of k v] kv by simp
  moreover have "list_all (\<lambda>(k, v). Q k \<and> P v) (fst (mask_items mk st' kvs))" for st'
    by (rule Cons(1)) (use Cons(2) in simp, meson Cons(3) list.set_intros(2))
  moreover obtain v' st1 ys' st2 where "mask_value mk st v = (v', st1)" "mask_items mk st1 kvs = (ys', st2)"
    by (metis surj_pair)
  ultimately show ?case using Cons(2) kv
    by (metis (mono_tags, lifting) case_prod_conv fst_conv list.pred_inject(2) mask_items.simps(2))
qed simp

text \<open>
  C8: Masking keeps every declared type that does not constrain a masked text: a value that conforms
  to it conforms to it after every string in it was masked, so enumerations stay members, named
  tuples and models keep their class and fields, and sets stay sets. A \<open>Literal\<close> or another constrained text
  is masked like any other and can leave its type (\<open>literal_is_masked\<close>).
\<close>

theorem masking_keeps_types:
  assumes "conforms t v" and "free_texts t"
  shows "conforms t (fst (mask_secrets_in_model fetch now st v))"
proof -
  have "conforms t (fst (mask_value mk st v))" if "conforms t v" "free_texts t" for mk :: "'st str_mask" and st
    using that
  proof (induction t v arbitrary: st rule: conforms.induct)
    case (5 c fts v)
    then obtain fs rest where v: "v = PyModel c fs rest"
      and fs: "list_all2 (\<lambda>(n, t) (n', v). n' = n \<and> conforms t v) fts fs"
      by (auto split: py_value.splits)
    have free: "free_texts t" if "(n, t) \<in> set fts" for n t using 5(3) that by (auto simp: list_all_iff)
    have "list_all2 (\<lambda>(n, t) (n', v). n' = n \<and> conforms t v) fts (fst (mask_fields mk st fs))"
      by (rule mask_fields_all2 [OF _ fs]) (use 5(1) v free in blast)
    then show ?case by (cases "mask_fields mk st fs") (simp add: v)
  next
    case (6 t v)
    then obtain c vs where v: "v = PyList c vs" and vs: "list_all (conforms t) vs"
      by (auto split: py_value.splits)
    have "list_all (conforms t) (fst (mask_values mk st vs))"
      by (rule mask_values_all [OF _ vs]) (use 6(1,3) v in auto)
    then show ?case by (simp add: v case_prod_beta)
  next
    case (7 ts v)
    then obtain c named vs where v: "v = PyTuple c named vs" and vs: "list_all2 conforms ts vs"
      by (auto split: py_value.splits)
    have "list_all2 conforms ts (fst (mask_values mk st vs))"
      by (rule mask_values_all2 [OF _ vs]) (use 7(1,3) v in \<open>auto simp: list_all_iff\<close>)
    then show ?case by (simp add: v case_prod_beta)
  next
    case (8 c ts v)
    then obtain vs where v: "v = PyTuple c True vs" and vs: "list_all2 conforms ts vs"
      by (auto split: py_value.splits)
    have "list_all2 conforms ts (fst (mask_values mk st vs))"
      by (rule mask_values_all2 [OF _ vs]) (use 8(1,3) v in \<open>auto simp: list_all_iff\<close>)
    then show ?case by (simp add: v case_prod_beta)
  next
    case (9 c t v)
    then obtain vs where v: "v = PySet c vs" and vs: "list_all (conforms t) vs"
      by (auto split: py_value.splits)
    have "list_all (conforms t) (fst (mask_values mk st vs))"
      by (rule mask_values_all [OF _ vs]) (use 9(1,3) v in auto)
    then show ?case by (simp add: v case_prod_beta list_all_iff)
  next
    case (10 k t v)
    then obtain c kvs where v: "v = PyDict c kvs" and kvs: "list_all (\<lambda>(a, b). conforms k a \<and> conforms t b) kvs"
      by (auto split: py_value.splits)
    have "list_all (\<lambda>(a, b). conforms k a \<and> conforms t b) (fst (mask_items mk st kvs))"
      by (rule mask_items_all [OF _ kvs]) (use 10(2,4) v in auto)
    then show ?case by (cases "mask_items mk st kvs") (simp add: v)
  qed (auto simp: case_prod_beta list_ex_iff list_all_iff split: py_value.splits)
  then show ?thesis using assms by (simp add: mask_secrets_in_model_def)
qed

theorem masking_keeps_types_witness:
  "conforms (TModel ''Obs'' [(''kind'', TEnum ''Kind'' [''ok'', ''tok-1'']), (''out'', TList TStr)])
     (fst (mask_secrets_in_model sample_fetch 100 (sample_registry, 0)
       (PyModel ''Obs'' [(''kind'', PyEnum ''Kind'' ''tok-1''), (''out'', PyList ''list'' [PyStr ''str'' ''tok-1''])] [])))"
  by (rule masking_keeps_types) simp_all

text \<open>
  The command of a \<open>FileEditorObservation\<close> is a \<open>Literal\<close>: with the secret \<open>view\<close> registered, the masked
  observation of a view is no observation any more.
\<close>

theorem literal_is_masked:
  fixes v defines "t \<equiv> TModel ''FileEditorObservation'' [(''command'', TConstrained (\<lambda>s. s \<in> {''view'', ''create''}))]"
    and "v \<equiv> PyModel ''FileEditorObservation'' [(''command'', PyStr ''str'' ''view'')] []"
  shows "conforms t v"
    and "\<not> conforms t (fst (mask_secrets_in_model sample_fetch 100
       (sample_registry\<lparr>secret_sources := [(''WORD'', Some ''view'')]\<rparr>, 0) v))"
  unfolding t_def v_def by code_simp+

text \<open>
  The strings masking is responsible for: every string reachable from the value, apart from the
  members of enumerations, the keys of dictionaries and what is no declared field of a model.
\<close>

fun strings_of :: "py_value \<Rightarrow> str set" where
  "strings_of (PyStr c s) = {s}"
| "strings_of (PyModel c fs rest) = (\<Union>(n, v) \<in> set fs. strings_of v)"
| "strings_of (PyList c vs) = (\<Union>v \<in> set vs. strings_of v)"
| "strings_of (PyTuple c named vs) = (\<Union>v \<in> set vs. strings_of v)"
| "strings_of (PySet c vs) = (\<Union>v \<in> set vs. strings_of v)"
| "strings_of (PyDict c kvs) = (\<Union>(k, v) \<in> set kvs. strings_of v)"
| "strings_of v = {}"

definition masked_from ::
    "'st str_mask \<Rightarrow> ('st \<Rightarrow> 'st \<Rightarrow> bool) \<Rightarrow> 'st \<Rightarrow> str set \<Rightarrow> str set \<Rightarrow> bool" where
  "masked_from mk grows st A B \<longleftrightarrow> (\<forall>s'\<in>B. \<exists>s\<in>A. \<exists>c st'. grows st st' \<and> s' = snd (fst (mk st' (c, s))))"

text \<open>
  What the walk over a value relies on: masking one string moves the state along \<open>grows\<close>.
\<close>

locale text_masker =
  fixes mk :: "'st str_mask" and grows :: "'st \<Rightarrow> 'st \<Rightarrow> bool"
  assumes grows_refl: "grows st st"
    and grows_trans: "grows a b \<Longrightarrow> grows b c \<Longrightarrow> grows a c"
    and mk_grows: "grows st (snd (mk st s))"
begin

lemma masked_from_later: "grows st st1 \<Longrightarrow> masked_from mk grows st1 A B \<Longrightarrow> masked_from mk grows st A B"
  unfolding masked_from_def using grows_trans by meson

lemma masked_from_Un: "masked_from mk grows st A B \<Longrightarrow> masked_from mk grows st A' B' \<Longrightarrow> masked_from mk grows st (A \<union> A') (B \<union> B')"
  unfolding masked_from_def by blast

lemma masked_from_empty [simp]: "masked_from mk grows st A {}"
  by (simp add: masked_from_def)

lemma walk_two:
  "grows st st1 \<and> masked_from mk grows st A B \<Longrightarrow> grows st1 st2 \<and> masked_from mk grows st1 A' B'
     \<Longrightarrow> grows st st2 \<and> masked_from mk grows st (A \<union> A') (B \<union> B')"
  using grows_trans masked_from_Un masked_from_later by metis

lemma mask_walk:
  "m = mk \<Longrightarrow> grows st (snd (mask_value m st v))
     \<and> masked_from mk grows st (strings_of v) (strings_of (fst (mask_value m st v)))"
  "m = mk \<Longrightarrow> grows st (snd (mask_values m st vs))
     \<and> masked_from mk grows st (\<Union>v \<in> set vs. strings_of v) (\<Union>v \<in> set (fst (mask_values m st vs)). strings_of v)"
  "m = mk \<Longrightarrow> grows st (snd (mask_fields m st fs))
     \<and> masked_from mk grows st (\<Union>(n, v) \<in> set fs. strings_of v) (\<Union>(n, v) \<in> set (fst (mask_fields m st fs)). strings_of v)"
  "m = mk \<Longrightarrow> grows st (snd (mask_items m st kvs))
     \<and> masked_from mk grows st (\<Union>(k, v) \<in> set kvs. strings_of v) (\<Union>(k, v) \<in> set (fst (mask_items m st kvs)). strings_of v)"
proof (induction m st v and m st vs and m st fs and m st kvs rule: mask_value_mask_values_mask_fields_mask_items.induct)
  case (2 m st c s)
  have "grows st st" by (rule grows_refl)
  then show ?case using mk_grows [of st "(c, s)"] 2 by (auto simp: case_prod_beta masked_from_def)
next
  case (10 m st v rest)
  show ?case
    using walk_two [OF 10(1) [OF 10(3)] 10(2) [OF prod.collapse 10(3)]] by (simp add: case_prod_beta)
next
  case (12 m st n v rest)
  show ?case
    using walk_two [OF 12(1) [OF 12(3)] 12(2) [OF prod.collapse 12(3)]] by (simp add: case_prod_beta)
next
  case (14 m st n v rest)
  show ?case
    using walk_two [OF 14(1) [OF 14(3)] 14(2) [OF prod.collapse 14(3)]] by (simp add: case_prod_beta)
qed (simp_all add: case_prod_beta grows_refl)

end

interpretation registry_masker: text_masker "mask_str fetch now" registry_grows for fetch now
  by unfold_locales (auto simp: mask_str_def case_prod_beta intro: registry_grows_trans mask_output_grows)

text \<open>
  No string of a masked value escapes: each is what \<open>mask_secrets_in_output\<close> made of a string
  of the value, in a state of the registry that has the same sources as the first and a value
  for every name that had one.
\<close>

theorem every_string_masked:
  "\<forall>s' \<in> strings_of (fst (mask_secrets_in_model fetch now st v)).
     \<exists>s \<in> strings_of v. \<exists>st'. registry_grows st st' \<and> s' = fst (mask_secrets_in_output fetch now st' s)"
proof -
  have "snd (fst (mask_str fetch now st' (c, s))) = fst (mask_secrets_in_output fetch now st' s)" for st' c s
    by (simp add: mask_str_def case_prod_beta)
  then show ?thesis
    using registry_masker.mask_walk(1) [OF refl, THEN conjunct2, of fetch now st v]
    by (simp add: mask_secrets_in_model_def masked_from_def)
qed

text \<open>Keys of dictionaries and undeclared fields are reachable too, and stay as they are.\<close>

theorem dict_keys_stay:
  "fst (mask_secrets_in_model sample_fetch 100 (sample_registry, 0)
     (PyModel ''Obs'' [(''env'', PyDict ''dict'' [(PyStr ''str'' ''tok-1'', PyStr ''str'' ''tok-1'')])] [(''extra'', PyStr ''str'' ''tok-1'')]))
   = PyModel ''Obs'' [(''env'', PyDict ''dict'' [(PyStr ''str'' ''tok-1'', PyStr ''str'' hidden)])] [(''extra'', PyStr ''str'' ''tok-1'')]"
  by code_simp

end
