(* ===== verification/Stream_Context.thy ===== *)
theory Stream_Context
  imports Secret_Registry
begin

text \<open>
  The streaming slot of one agent step (\<open>agent/stream_context.py\<close>): it mints the id of the event
  the step will emit, stamps the increments of the stream with it, masks them, and closes the
  slot once. The frames handed to the sink \<open>on_stream\<close> are the list \<open>sc_frames\<close>; a sink that raises
  is caught by \<open>_emit\<close>, so it has no effect here. The clock of the masking is not involved: the
  masker an operation may have to compile, \<open>self._mask()\<close>, is an argument of the operation.
\<close>

section \<open>Frames and chunks\<close>

datatype stream_kind = TextKind | ReasoningKind

datatype progress =
    StreamStarted (fr_item: str) (fr_attempt: nat) (fr_anchor: "nat option")
  | StreamDelta (fr_item: str) (fr_attempt: nat) (fr_order: nat) (fr_kind: stream_kind)
      (fr_content: str) (fr_chunk: "str option") (fr_choice: "nat option")
  | StreamAborted (fr_item: str) (fr_attempt: nat) (fr_reason: str)

text \<open>
  A payload of the token callback: a bare string, or a chunk with its id and choices. A delta has
  its content and, when the field was set, its reasoning; \<open>None\<close> stands for every value that is
  not a string.
\<close>

record chunk_delta =
  dl_reasoning_set :: bool
  dl_reasoning :: "str option"
  dl_content :: "str option"

record chunk_choice =
  cc_delta :: "chunk_delta option"
  cc_index :: nat

datatype stream_chunk = BareChunk str | LLMChunk "str option" "chunk_choice list option"

type_synonym delta_piece = "stream_kind \<times> str \<times> str option \<times> nat option"

fun split_choice :: "str option \<Rightarrow> chunk_choice \<Rightarrow> delta_piece list" where
  "split_choice cid c =
     (case cc_delta c of
        None \<Rightarrow> []
      | Some d \<Rightarrow>
          let reasoning = (if dl_reasoning_set d then dl_reasoning d else None)
          in (if truthy_str reasoning then [(ReasoningKind, the reasoning, cid, Some (cc_index c))] else [])
             @ (if truthy_str (dl_content d) then [(TextKind, the (dl_content d), cid, Some (cc_index c))] else []))"

fun split_chunk :: "stream_chunk \<Rightarrow> delta_piece list" where
  "split_chunk (BareChunk s) = (if s \<noteq> [] then [(TextKind, s, None, None)] else [])"
| "split_chunk (LLMChunk cid choices) =
     concat (map (split_choice cid) (case choices of None \<Rightarrow> [] | Some cs \<Rightarrow> cs))"

section \<open>The slot\<close>

record stream_context =
  sc_item :: str
  sc_anchor :: "nat option"
  sc_on_token :: "(stream_chunk \<Rightarrow> py_exc option) option"
  sc_on_stream :: bool
  sc_masks :: "(stream_kind, stream_mask) dict"
  sc_attempt :: nat
  sc_order :: nat
  sc_started :: bool
  sc_opened :: bool
  sc_started_attempt :: "nat option"
  sc_reserved :: bool
  sc_claimed :: bool
  sc_chunk_id :: "str option"
  sc_frames :: "progress list"

text \<open>\<open>open\<close>: the minted id is an argument, the anchor is the number of the last event of the log.\<close>

definition stream_open ::
    "str \<Rightarrow> nat \<Rightarrow> (stream_chunk \<Rightarrow> py_exc option) option \<Rightarrow> bool \<Rightarrow> stream_context" where
  "stream_open item events on_token on_stream =
     \<lparr>sc_item = item, sc_anchor = (if events > 0 then Some (events - 1) else None),
      sc_on_token = on_token, sc_on_stream = on_stream, sc_masks = [], sc_attempt = 1, sc_order = 0,
      sc_started = False, sc_opened = False, sc_started_attempt = None, sc_reserved = False,
      sc_claimed = False, sc_chunk_id = None, sc_frames = []\<rparr>"

definition has_token_callback :: "stream_context \<Rightarrow> bool" where
  "has_token_callback sc \<longleftrightarrow> \<not> (sc_on_token sc = None \<and> \<not> sc_on_stream sc)"

definition emit_frame :: "progress \<Rightarrow> stream_context \<Rightarrow> stream_context" where
  "emit_frame f sc = sc\<lparr>sc_frames := sc_frames sc @ [f]\<rparr>"

definition emit_content ::
    "stream_kind \<Rightarrow> str \<Rightarrow> str option \<Rightarrow> nat option \<Rightarrow> stream_context \<Rightarrow> stream_context" where
  "emit_content kind content cid choice_index sc =
     emit_frame (StreamDelta (sc_item sc) (sc_attempt sc) (sc_order sc) kind content cid choice_index)
       (sc\<lparr>sc_order := sc_order sc + 1\<rparr>)"

fun flush_masks :: "(stream_kind \<times> stream_mask) list \<Rightarrow> stream_context \<Rightarrow> stream_context" where
  "flush_masks [] sc = sc"
| "flush_masks ((kind, m) # ms) sc =
     (let held = fst (mask_flush m)
      in flush_masks ms (if held \<noteq> [] then emit_content kind held (sc_chunk_id sc) None sc else sc))"

definition stream_flush :: "stream_context \<Rightarrow> stream_context" where
  "stream_flush sc = (flush_masks (sc_masks sc) sc)\<lparr>sc_masks := []\<rparr>"

definition new_attempt :: "stream_context \<Rightarrow> stream_context" where
  "new_attempt sc =
     (if \<not> sc_opened sc then sc
      else sc\<lparr>sc_attempt := sc_attempt sc + 1, sc_order := 0, sc_started := False,
              sc_chunk_id := None, sc_masks := []\<rparr>)"

definition stream_claim :: "stream_context \<Rightarrow> str option \<times> stream_context" where
  "stream_claim sc =
     (if sc_reserved sc \<or> \<not> sc_on_stream sc then (None, sc)
      else (Some (sc_item sc), (stream_flush sc)\<lparr>sc_reserved := True\<rparr>))"

definition stream_commit :: "stream_context \<Rightarrow> stream_context" where
  "stream_commit sc = (if sc_reserved sc then sc\<lparr>sc_claimed := True\<rparr> else sc)"

definition stream_close :: "str \<Rightarrow> stream_context \<Rightarrow> stream_context" where
  "stream_close reason sc =
     (if \<not> sc_opened sc \<or> sc_claimed sc then sc
      else let sc1 = stream_flush (sc\<lparr>sc_claimed := True\<rparr>)
           in emit_frame (StreamAborted (sc_item sc1)
                (case sc_started_attempt sc1 of
                   None \<Rightarrow> sc_attempt sc1
                 | Some a \<Rightarrow> if a \<noteq> 0 then a else sc_attempt sc1) reason) sc1)"

definition start_attempt :: "stream_context \<Rightarrow> stream_context" where
  "start_attempt sc =
     (if sc_started sc then sc
      else emit_frame (StreamStarted (sc_item sc) (sc_attempt sc) (sc_anchor sc))
             (sc\<lparr>sc_started := True, sc_opened := True, sc_started_attempt := Some (sc_attempt sc)\<rparr>))"

definition same_attempt :: "str option \<Rightarrow> stream_context \<Rightarrow> bool" where
  "same_attempt cid sc \<longleftrightarrow> cid = None \<or> sc_chunk_id sc = None \<or> cid = sc_chunk_id sc"

definition emit_delta :: "stream_mask \<Rightarrow> delta_piece \<Rightarrow> stream_context \<Rightarrow> stream_context" where
  "emit_delta fresh_mask = (\<lambda>(kind, t, cid, choice_index) sc.
     let sc1 = (if same_attempt cid sc then sc else new_attempt sc)\<lparr>sc_chunk_id := cid\<rparr>;
         sc2 = start_attempt sc1;
         masker = (case dict_get (sc_masks sc2) kind of None \<Rightarrow> fresh_mask | Some m \<Rightarrow> m);
         (released, masker1) = mask_feed masker t;
         sc3 = sc2\<lparr>sc_masks := dict_put kind masker1 (sc_masks sc2)\<rparr>
     in if released \<noteq> [] then emit_content kind released cid choice_index sc3 else sc3)"

text \<open>
  \<open>on_chunk\<close>: a raising \<open>on_token\<close> consumer is not caught and leaves the slot as it is.
\<close>

definition on_chunk :: "stream_mask \<Rightarrow> stream_chunk \<Rightarrow> stream_context \<Rightarrow> (py_exc option) \<times> stream_context" where
  "on_chunk fresh_mask chunk sc =
     (case (case sc_on_token sc of None \<Rightarrow> None | Some f \<Rightarrow> f chunk) of
        Some e \<Rightarrow> (Some e, sc)
      | None \<Rightarrow>
          if \<not> sc_on_stream sc then (None, sc)
          else (None, fold (emit_delta fresh_mask) (split_chunk chunk) sc))"

text \<open>\<open>_abort_reason\<close>: what a step that ends with an exception class, or without one, reports.\<close>

datatype exc_class = CancelledClass | KeyboardInterruptClass | OtherClass str

fun abort_reason :: "exc_class option \<Rightarrow> str" where
  "abort_reason None = ''no_durable_event''"
| "abort_reason (Some (OtherClass name)) = name"
| "abort_reason (Some c) = ''cancelled''"

text \<open>The calls a step makes, in any order.\<close>

datatype stream_op =
    Op_Chunk stream_mask stream_chunk
  | Op_New_Attempt
  | Op_Claim
  | Op_Commit
  | Op_Close "exc_class option"

fun apply_op :: "stream_op \<Rightarrow> stream_context \<Rightarrow> stream_context" where
  "apply_op (Op_Chunk m c) sc = snd (on_chunk m c sc)"
| "apply_op Op_New_Attempt sc = new_attempt sc"
| "apply_op Op_Claim sc = snd (stream_claim sc)"
| "apply_op Op_Commit sc = stream_commit sc"
| "apply_op (Op_Close e) sc = stream_close (abort_reason e) sc"

definition run_stream :: "stream_op list \<Rightarrow> stream_context \<Rightarrow> stream_context" where
  "run_stream ops sc = fold apply_op ops sc"


section \<open>The protocol of the frames\<close>

text \<open>
  What a client may rely on, as a recogniser: its state is the attempt that is open and the order
  of its next increment. An attempt starts with a higher number than the last one, an increment
  carries the open attempt, the next order and some content, an abort names the attempt that
  started last, and every frame carries the minted id.
\<close>

fun frame_step :: "str \<Rightarrow> progress \<Rightarrow> (nat \<times> nat) option \<Rightarrow> (nat \<times> nat) option option" where
  "frame_step item (StreamStarted i a anchor) cur =
     (if i = item \<and> (case cur of None \<Rightarrow> True | Some (b, n) \<Rightarrow> b < a) then Some (Some (a, 0)) else None)"
| "frame_step item (StreamDelta i a n kind content cid ci) cur =
     (if i = item \<and> cur = Some (a, n) \<and> content \<noteq> [] then Some (Some (a, n + 1)) else None)"
| "frame_step item (StreamAborted i a r) cur =
     (if i = item \<and> (case cur of None \<Rightarrow> False | Some (b, n) \<Rightarrow> b = a) then Some cur else None)"

fun frames_state :: "str \<Rightarrow> progress list \<Rightarrow> (nat \<times> nat) option \<Rightarrow> (nat \<times> nat) option option" where
  "frames_state item [] cur = Some cur"
| "frames_state item (f # fs) cur = Option.bind (frame_step item f cur) (frames_state item fs)"

definition frames_ok :: "str \<Rightarrow> progress list \<Rightarrow> bool" where
  "frames_ok item fs \<longleftrightarrow> frames_state item fs None \<noteq> None"

lemma frames_state_snoc:
  "frames_state item (fs @ [f]) cur = Option.bind (frames_state item fs cur) (frame_step item f)"
  by (induction fs arbitrary: cur) (auto split: Option.bind_split)

definition stream_inv :: "stream_context \<Rightarrow> bool" where
  "stream_inv sc \<longleftrightarrow>
     (\<exists>n. frames_state (sc_item sc) (sc_frames sc) None = Some (map_option (\<lambda>a. (a, n)) (sc_started_attempt sc))
        \<and> (sc_started sc \<longrightarrow> n = sc_order sc))
     \<and> 0 < sc_attempt sc
     \<and> (sc_opened sc \<longleftrightarrow> sc_started_attempt sc \<noteq> None)
     \<and> (sc_started sc \<longrightarrow> sc_started_attempt sc = Some (sc_attempt sc))
     \<and> (\<not> sc_started sc \<longrightarrow> sc_order sc = 0 \<and> sc_masks sc = []
          \<and> (\<forall>a. sc_started_attempt sc = Some a \<longrightarrow> 0 < a \<and> a < sc_attempt sc))"

lemma stream_inv_open: "stream_inv (stream_open item events on_token on_stream)"
  by (simp add: stream_inv_def stream_open_def)

lemma stream_inv_content:
  assumes "stream_inv sc" and "sc_started sc" and "content \<noteq> []"
  shows "stream_inv (emit_content kind content cid ci sc)"
  using assms by (auto simp: stream_inv_def emit_content_def emit_frame_def frames_state_snoc)

lemma emit_content_fields [simp]:
  "sc_started (emit_content kind content cid ci sc) = sc_started sc"
  "sc_opened (emit_content kind content cid ci sc) = sc_opened sc"
  "sc_claimed (emit_content kind content cid ci sc) = sc_claimed sc"
  "sc_reserved (emit_content kind content cid ci sc) = sc_reserved sc"
  "sc_on_stream (emit_content kind content cid ci sc) = sc_on_stream sc"
  "sc_on_token (emit_content kind content cid ci sc) = sc_on_token sc"
  "sc_item (emit_content kind content cid ci sc) = sc_item sc"
  "sc_masks (emit_content kind content cid ci sc) = sc_masks sc"
  "sc_attempt (emit_content kind content cid ci sc) = sc_attempt sc"
  "sc_started_attempt (emit_content kind content cid ci sc) = sc_started_attempt sc"
  "sc_chunk_id (emit_content kind content cid ci sc) = sc_chunk_id sc"
  by (simp_all add: emit_content_def emit_frame_def)

lemma flush_masks_fields [simp]:
  "sc_started (flush_masks ms sc) = sc_started sc"
  "sc_opened (flush_masks ms sc) = sc_opened sc"
  "sc_claimed (flush_masks ms sc) = sc_claimed sc"
  "sc_reserved (flush_masks ms sc) = sc_reserved sc"
  "sc_on_stream (flush_masks ms sc) = sc_on_stream sc"
  "sc_on_token (flush_masks ms sc) = sc_on_token sc"
  "sc_item (flush_masks ms sc) = sc_item sc"
  "sc_masks (flush_masks ms sc) = sc_masks sc"
  "sc_attempt (flush_masks ms sc) = sc_attempt sc"
  "sc_started_attempt (flush_masks ms sc) = sc_started_attempt sc"
  "sc_chunk_id (flush_masks ms sc) = sc_chunk_id sc"
  by (induction ms sc rule: flush_masks.induct) (simp_all add: Let_def)

lemma stream_inv_flush_masks:
  "stream_inv sc \<Longrightarrow> sc_started sc \<Longrightarrow> stream_inv (flush_masks ms sc)"
  by (induction ms sc rule: flush_masks.induct) (auto simp: Let_def stream_inv_content)

lemma stream_inv_flush: "stream_inv sc \<Longrightarrow> stream_inv (stream_flush sc)"
proof (cases "sc_started sc")
  case True
  assume "stream_inv sc"
  then have "stream_inv (flush_masks (sc_masks sc) sc)" using True by (rule stream_inv_flush_masks)
  then show ?thesis using True unfolding stream_flush_def stream_inv_def by auto
next
  case False
  assume "stream_inv sc"
  then show ?thesis using False by (auto simp: stream_flush_def stream_inv_def)
qed

lemma stream_inv_new_attempt: "stream_inv sc \<Longrightarrow> stream_inv (new_attempt sc)"
  by (auto simp: stream_inv_def new_attempt_def)

lemma stream_inv_start_attempt:
  "stream_inv sc \<Longrightarrow> stream_inv (start_attempt sc) \<and> sc_started (start_attempt sc)"
  by (auto simp: stream_inv_def start_attempt_def emit_frame_def frames_state_snoc split: option.splits)

lemma stream_inv_emit_delta: "stream_inv sc \<Longrightarrow> stream_inv (emit_delta m piece sc)"
proof -
  assume inv: "stream_inv sc"
  obtain kind t cid ci where piece: "piece = (kind, t, cid, ci)" by (cases piece)
  let ?sc1 = "(if same_attempt cid sc then sc else new_attempt sc)\<lparr>sc_chunk_id := cid\<rparr>"
  let ?sc2 = "start_attempt ?sc1"
  have "stream_inv ?sc1" using inv stream_inv_new_attempt [OF inv] by (simp add: stream_inv_def)
  then have sc2: "stream_inv ?sc2" "sc_started ?sc2" using stream_inv_start_attempt by blast+
  then have "stream_inv (?sc2\<lparr>sc_masks := ms\<rparr>)" for ms by (simp add: stream_inv_def)
  then show ?thesis using sc2(2) unfolding piece emit_delta_def
    by (auto simp: Let_def case_prod_beta stream_inv_content)
qed

lemma stream_inv_op: "stream_inv sc \<Longrightarrow> stream_inv (apply_op op sc)"
proof (cases op)
  case (Op_Chunk m c)
  assume inv: "stream_inv sc"
  have "stream_inv (fold (emit_delta m) ps sc)" if "stream_inv sc" for ps sc
    using that by (induction ps arbitrary: sc) (auto simp: stream_inv_emit_delta)
  then show ?thesis using inv Op_Chunk by (simp add: on_chunk_def split: option.split)
next
  case Op_Claim
  assume "stream_inv sc"
  then show ?thesis using Op_Claim stream_inv_flush [of sc]
    by (auto simp: stream_claim_def stream_inv_def)
next
  case (Op_Close e)
  assume inv: "stream_inv sc"
  show ?thesis
  proof (cases "sc_opened sc \<and> \<not> sc_claimed sc")
    case True
    let ?sc1 = "stream_flush (sc\<lparr>sc_claimed := True\<rparr>)"
    have "stream_inv (sc\<lparr>sc_claimed := True\<rparr>)" using inv by (simp add: stream_inv_def)
    then have sc1: "stream_inv ?sc1" by (rule stream_inv_flush)
    have "sc_opened ?sc1" using True by (simp add: stream_flush_def)
    then obtain a where a: "sc_started_attempt ?sc1 = Some a" "0 < a" using sc1
      by (auto simp: stream_inv_def)
    then show ?thesis using sc1 True Op_Close
      by (auto simp: stream_close_def Let_def stream_inv_def emit_frame_def frames_state_snoc)
  qed (use inv Op_Close in \<open>auto simp: stream_close_def\<close>)
qed (auto simp: stream_inv_def new_attempt_def stream_commit_def)

text \<open>What the operations leave alone.\<close>

lemma stream_flush_fields [simp]:
  "sc_opened (stream_flush sc) = sc_opened sc" "sc_claimed (stream_flush sc) = sc_claimed sc"
  "sc_reserved (stream_flush sc) = sc_reserved sc" "sc_on_stream (stream_flush sc) = sc_on_stream sc"
  "sc_item (stream_flush sc) = sc_item sc" "sc_masks (stream_flush sc) = []"
  by (simp_all add: stream_flush_def)

lemma emit_delta_fields [simp]:
  "sc_item (emit_delta m piece sc) = sc_item sc"
  "sc_on_stream (emit_delta m piece sc) = sc_on_stream sc"
  "sc_on_token (emit_delta m piece sc) = sc_on_token sc"
  "sc_claimed (emit_delta m piece sc) = sc_claimed sc"
  "sc_reserved (emit_delta m piece sc) = sc_reserved sc"
  by (simp_all add: emit_delta_def Let_def case_prod_beta start_attempt_def emit_frame_def new_attempt_def)

lemma emit_deltas_fields [simp]:
  "sc_item (fold (emit_delta m) ps sc) = sc_item sc"
  "sc_on_stream (fold (emit_delta m) ps sc) = sc_on_stream sc"
  "sc_claimed (fold (emit_delta m) ps sc) = sc_claimed sc"
  "sc_reserved (fold (emit_delta m) ps sc) = sc_reserved sc"
  by (induction ps arbitrary: sc) simp_all

lemma apply_op_item [simp]: "sc_item (apply_op op sc) = sc_item sc"
  by (cases op) (simp_all add: on_chunk_def new_attempt_def stream_claim_def stream_commit_def
      stream_close_def emit_frame_def Let_def split: option.split)

lemma apply_op_on_stream [simp]: "sc_on_stream (apply_op op sc) = sc_on_stream sc"
  by (cases op) (simp_all add: on_chunk_def new_attempt_def stream_claim_def stream_commit_def
      stream_close_def emit_frame_def Let_def split: option.split)

lemma run_stream_inv: "stream_inv sc \<Longrightarrow> stream_inv (run_stream ops sc) \<and> sc_item (run_stream ops sc) = sc_item sc"
  by (induction ops arbitrary: sc) (simp_all add: run_stream_def stream_inv_op)

text \<open>
  C10: Whatever calls a step makes, in whatever order, the frames it hands out follow the
  protocol: attempts count up and are announced before their increments, the increments of an
  attempt are numbered without a gap, are never empty, and an abort names the attempt that was
  announced last.
\<close>

theorem frames_follow_protocol:
  "frames_ok item (sc_frames (run_stream ops (stream_open item events on_token on_stream)))"
proof -
  let ?sc = "run_stream ops (stream_open item events on_token on_stream)"
  have "stream_inv ?sc" "sc_item ?sc = item"
    using run_stream_inv [OF stream_inv_open, of ops item events on_token on_stream]
    by (simp_all add: stream_open_def)
  then show ?thesis unfolding stream_inv_def frames_ok_def by (metis option.distinct(1))
qed

section \<open>The slot is closed once\<close>

fun is_abort :: "progress \<Rightarrow> bool" where
  "is_abort (StreamAborted i a r) = True"
| "is_abort f = False"

fun is_start :: "progress \<Rightarrow> bool" where
  "is_start (StreamStarted i a n) = True"
| "is_start f = False"

text \<open>A commit counts after the id was claimed.\<close>

fun committed :: "bool \<Rightarrow> stream_op list \<Rightarrow> bool" where
  "committed reserved [] = False"
| "committed reserved (Op_Claim # ops) = committed True ops"
| "committed reserved (Op_Commit # ops) = (reserved \<or> committed reserved ops)"
| "committed reserved (op # ops) = committed reserved ops"

fun is_close :: "stream_op \<Rightarrow> bool" where
  "is_close (Op_Close e) = True"
| "is_close op = False"

definition aborts :: "stream_context \<Rightarrow> progress list" where
  "aborts sc = filter is_abort (sc_frames sc)"

definition announced :: "stream_context \<Rightarrow> bool" where
  "announced sc \<longleftrightarrow> (\<exists>f \<in> set (sc_frames sc). is_start f)"

lemma emit_content_frames [simp]:
  "aborts (emit_content kind content cid ci sc) = aborts sc"
  "announced (emit_content kind content cid ci sc) = announced sc"
  by (simp_all add: aborts_def announced_def emit_content_def emit_frame_def)

lemma flush_masks_frames [simp]:
  "aborts (flush_masks ms sc) = aborts sc" "announced (flush_masks ms sc) = announced sc"
  by (induction ms sc rule: flush_masks.induct) (simp_all add: Let_def)

lemma frames_of_update [simp]:
  "aborts (sc\<lparr>sc_masks := ms\<rparr>) = aborts sc" "announced (sc\<lparr>sc_masks := ms\<rparr>) = announced sc"
  "aborts (sc\<lparr>sc_chunk_id := cid\<rparr>) = aborts sc" "announced (sc\<lparr>sc_chunk_id := cid\<rparr>) = announced sc"
  "aborts (sc\<lparr>sc_claimed := b\<rparr>) = aborts sc" "announced (sc\<lparr>sc_claimed := b\<rparr>) = announced sc"
  "aborts (sc\<lparr>sc_reserved := b\<rparr>) = aborts sc" "announced (sc\<lparr>sc_reserved := b\<rparr>) = announced sc"
  "aborts (new_attempt sc) = aborts sc" "announced (new_attempt sc) = announced sc"
  by (simp_all add: aborts_def announced_def new_attempt_def)

lemma stream_flush_frames [simp]:
  "aborts (stream_flush sc) = aborts sc" "announced (stream_flush sc) = announced sc"
  by (simp_all add: stream_flush_def)

lemma start_attempt_frames [simp]:
  "aborts (start_attempt sc) = aborts sc"
  "announced (start_attempt sc) \<longleftrightarrow> announced sc \<or> \<not> sc_started sc"
  "sc_opened (start_attempt sc) \<longleftrightarrow> sc_opened sc \<or> \<not> sc_started sc"
  by (auto simp: start_attempt_def aborts_def announced_def emit_frame_def)

lemma new_attempt_opened [simp]: "sc_opened (new_attempt sc) = sc_opened sc"
  by (simp add: new_attempt_def)

lemma emit_delta_frames:
  "aborts (emit_delta m piece sc) = aborts sc"
  "announced sc = sc_opened sc \<Longrightarrow> announced (emit_delta m piece sc) = sc_opened (emit_delta m piece sc)"
  by (auto simp: emit_delta_def Let_def case_prod_beta)

lemma emit_deltas_frames:
  "aborts (fold (emit_delta m) ps sc) = aborts sc"
  "announced sc = sc_opened sc \<Longrightarrow> announced (fold (emit_delta m) ps sc) = sc_opened (fold (emit_delta m) ps sc)"
  by (induction ps arbitrary: sc) (simp_all add: emit_delta_frames)

lemma apply_op_open:
  assumes "announced sc = sc_opened sc" and "\<not> is_close op"
  shows "announced (apply_op op sc) = sc_opened (apply_op op sc)" and "aborts (apply_op op sc) = aborts sc"
  using assms by (cases op; simp add: on_chunk_def stream_claim_def stream_commit_def emit_deltas_frames split: option.split)+

lemma run_stream_open:
  assumes "announced sc = sc_opened sc" and "list_all (\<lambda>op. \<not> is_close op) ops" and "sc_on_stream sc"
  shows "announced (run_stream ops sc) = sc_opened (run_stream ops sc)
    \<and> aborts (run_stream ops sc) = aborts sc
    \<and> (sc_claimed (run_stream ops sc) \<longleftrightarrow> sc_claimed sc \<or> committed (sc_reserved sc) ops)"
  using assms
proof (induction ops arbitrary: sc)
  case (Cons op ops)
  have "announced (run_stream ops (apply_op op sc)) = sc_opened (run_stream ops (apply_op op sc))
    \<and> aborts (run_stream ops (apply_op op sc)) = aborts (apply_op op sc)
    \<and> (sc_claimed (run_stream ops (apply_op op sc)) \<longleftrightarrow>
         sc_claimed (apply_op op sc) \<or> committed (sc_reserved (apply_op op sc)) ops)"
    by (rule Cons.IH) (use Cons.prems apply_op_open in auto)
  moreover have "(sc_claimed (apply_op op sc) \<or> committed (sc_reserved (apply_op op sc)) ops)
      \<longleftrightarrow> sc_claimed sc \<or> committed (sc_reserved sc) (op # ops)"
    using Cons.prems
    by (cases op) (auto simp: on_chunk_def new_attempt_def stream_claim_def stream_commit_def split: option.split)
  ultimately show ?case using Cons.prems apply_op_open(2) [of sc op] by (simp add: run_stream_def)
qed (simp add: run_stream_def)

lemma stream_close_again:
  "stream_close r' (stream_close r sc) = stream_close r sc"
  by (auto simp: stream_close_def Let_def emit_frame_def)

lemma run_closes: "run_stream (map Op_Close es) (stream_close r sc) = stream_close r sc"
  by (induction es) (simp_all add: run_stream_def stream_close_again)

text \<open>
  C11: A slot is answered for once: however often it is closed, a stream that was announced and
  whose id no durable event committed is aborted once, with the reason of the first close, and
  any other stream is never aborted.
\<close>

theorem slot_closed_once:
  assumes "list_all (\<lambda>op. \<not> is_close op) ops"
  shows "map fr_reason (aborts (run_stream (ops @ Op_Close e # map Op_Close es)
           (stream_open item events on_token True)))
     = (if announced (run_stream ops (stream_open item events on_token True)) \<and> \<not> committed False ops
        then [abort_reason e] else [])"
proof -
  let ?sc = "run_stream ops (stream_open item events on_token True)"
  have sc: "announced ?sc = sc_opened ?sc" "aborts ?sc = []" "sc_claimed ?sc \<longleftrightarrow> committed False ops"
    using run_stream_open [OF _ assms, of "stream_open item events on_token True"]
    by (simp_all add: stream_open_def announced_def aborts_def)
  have "run_stream (ops @ Op_Close e # map Op_Close es) (stream_open item events on_token True)
      = stream_close (abort_reason e) ?sc"
    using run_closes [of es "abort_reason e" ?sc] by (simp add: run_stream_def)
  moreover have "map fr_reason (aborts (stream_close r ?sc)) = (if sc_opened ?sc \<and> \<not> sc_claimed ?sc then [r] else [])" for r
  proof -
    have "aborts (emit_frame (StreamAborted i a r) s) = aborts s @ [StreamAborted i a r]" for i a s
      by (simp add: aborts_def emit_frame_def)
    then show ?thesis using sc(2) by (simp add: stream_close_def Let_def)
  qed
  ultimately show ?thesis using sc by simp
qed


theorem slot_closed_once_witness:
  "map fr_reason (aborts (run_stream ([Op_Chunk \<lparr>sm_pattern = None, sm_max_len = 0, sm_held = []\<rparr> (BareChunk ''hi''), Op_Claim]
       @ Op_Close (Some CancelledClass) # map Op_Close [None]) (stream_open ''m1'' 3 None True)))
   = (if announced (run_stream [Op_Chunk \<lparr>sm_pattern = None, sm_max_len = 0, sm_held = []\<rparr> (BareChunk ''hi''), Op_Claim]
        (stream_open ''m1'' 3 None True))
        \<and> \<not> committed False [Op_Chunk \<lparr>sm_pattern = None, sm_max_len = 0, sm_held = []\<rparr> (BareChunk ''hi''), Op_Claim]
      then [abort_reason (Some CancelledClass)] else [])"
  by (rule slot_closed_once) simp

section \<open>What a client reads\<close>

fun content_of :: "stream_kind \<Rightarrow> progress \<Rightarrow> str" where
  "content_of k (StreamDelta i a n kind content cid ci) = (if kind = k then content else [])"
| "content_of k f = []"

definition stream_text :: "stream_kind \<Rightarrow> stream_context \<Rightarrow> str" where
  "stream_text k sc = concat (map (content_of k) (sc_frames sc))"

definition fed_texts :: "stream_kind \<Rightarrow> delta_piece list \<Rightarrow> str list" where
  "fed_texts k ps = map (fst \<circ> snd) (filter (\<lambda>p. fst p = k) ps)"

lemma stream_text_content [simp]:
  "stream_text k (emit_content kind content cid ci sc) = stream_text k sc @ (if kind = k then content else [])"
  by (simp add: stream_text_def emit_content_def emit_frame_def)

lemma stream_text_update [simp]:
  "stream_text k (sc\<lparr>sc_masks := ms\<rparr>) = stream_text k sc"
  "stream_text k (sc\<lparr>sc_chunk_id := cid\<rparr>) = stream_text k sc"
  "stream_text k (sc\<lparr>sc_reserved := b\<rparr>) = stream_text k sc"
  "stream_text k (start_attempt sc) = stream_text k sc"
  by (simp_all add: stream_text_def start_attempt_def emit_frame_def)

lemma start_attempt_masks [simp]:
  "sc_masks (start_attempt sc) = sc_masks sc" "sc_chunk_id (start_attempt sc) = sc_chunk_id sc"
  by (simp_all add: start_attempt_def emit_frame_def)

lemma mask_feeds_snoc:
  "mask_feeds m (ts @ [t]) =
     (let (a, m1) = mask_feeds m ts; (b, m2) = mask_feed m1 t in (a @ b, m2))"
  by (induction ts arbitrary: m) (auto simp: case_prod_beta Let_def)

lemma stream_text_flush_masks:
  assumes "distinct (dict_keys ms)"
  shows "stream_text k (flush_masks ms sc) = stream_text k sc @
    (case dict_get ms k of None \<Rightarrow> [] | Some m \<Rightarrow> fst (mask_flush m))"
  using assms
proof (induction ms sc rule: flush_masks.induct)
  case (2 kind m ms sc)
  have "dict_get ms kind = None" using 2(2) by (simp add: map_of_eq_None_iff)
  then show ?case using 2 by (auto simp: Let_def)
qed simp

text \<open>After the pieces \<open>ps\<close> of one attempt: what was released for each kind, and its masker.\<close>

definition fed_inv :: "stream_mask \<Rightarrow> str option \<Rightarrow> delta_piece list \<Rightarrow> stream_context \<Rightarrow> bool" where
  "fed_inv m cid ps sc \<longleftrightarrow> sc_chunk_id sc \<in> {None, cid} \<and> distinct (dict_keys (sc_masks sc))
     \<and> (\<forall>k. stream_text k sc = fst (mask_feeds m (fed_texts k ps))
          \<and> dict_get (sc_masks sc) k
              = (if fed_texts k ps = [] then None else Some (snd (mask_feeds m (fed_texts k ps)))))"

lemma fed_inv_step:
  assumes "fed_inv m cid ps sc" and "fst (snd (snd p)) \<in> {None, cid}"
  shows "fed_inv m cid (ps @ [p]) (emit_delta m p sc)"
proof -
  obtain kind t c ci where p: "p = (kind, t, c, ci)" by (cases p)
  have same: "same_attempt c sc" using assms p by (auto simp: fed_inv_def same_attempt_def)
  have fed: "fed_texts k (ps @ [p]) = (if k = kind then fed_texts k ps @ [t] else fed_texts k ps)" for k
    by (simp add: fed_texts_def p)
  let ?m = "snd (mask_feeds m (fed_texts kind ps))"
  have old: "(case dict_get (sc_masks sc) kind of None \<Rightarrow> m | Some m \<Rightarrow> m) = ?m"
    using assms(1) by (simp add: fed_inv_def)
  have new: "mask_feeds m (fed_texts kind ps @ [t])
      = (fst (mask_feeds m (fed_texts kind ps)) @ fst (mask_feed ?m t), snd (mask_feed ?m t))"
    by (simp add: mask_feeds_snoc case_prod_beta Let_def)
  have masks: "sc_masks (emit_delta m p sc) = dict_put kind (snd (mask_feed ?m t)) (sc_masks sc)"
    and cid': "sc_chunk_id (emit_delta m p sc) = c"
    and shown: "stream_text k (emit_delta m p sc)
      = stream_text k sc @ (if kind = k then fst (mask_feed ?m t) else [])" for k
    using same old by (auto simp: p emit_delta_def Let_def case_prod_beta)
  show ?thesis using assms p fed new
    unfolding fed_inv_def masks cid' shown by auto
qed

lemma fed_inv_fold:
  "fed_inv m cid ps sc \<Longrightarrow> list_all (\<lambda>p. fst (snd (snd p)) \<in> {None, cid}) qs
     \<Longrightarrow> fed_inv m cid (ps @ qs) (fold (emit_delta m) qs sc)"
proof (induction qs arbitrary: ps sc)
  case (Cons q qs)
  have "fed_inv m cid (ps @ [q]) (emit_delta m q sc)" using Cons.prems by (intro fed_inv_step) auto
  then show ?case using Cons.IH [of "ps @ [q]"] Cons.prems(2) by simp
qed simp

lemma run_chunks:
  "sc_on_token sc = None \<Longrightarrow> sc_on_stream sc \<Longrightarrow>
     run_stream (map (Op_Chunk m) chunks) sc = fold (emit_delta m) (concat (map split_chunk chunks)) sc
     \<and> sc_on_stream (run_stream (map (Op_Chunk m) chunks) sc)
     \<and> sc_reserved (run_stream (map (Op_Chunk m) chunks) sc) = sc_reserved sc"
proof (induction chunks arbitrary: sc)
  case (Cons c chunks)
  let ?sc = "fold (emit_delta m) (split_chunk c) sc"
  have "sc_on_token (fold (emit_delta m) ps s) = sc_on_token s" for ps s
    by (induction ps arbitrary: s) simp_all
  then show ?case using Cons.IH [of ?sc] Cons.prems by (simp add: run_stream_def on_chunk_def)
qed (simp add: run_stream_def)

text \<open>
  C12: A client that follows one attempt to the claim of the id has read the model's text with the
  secrets masked: the increments of each kind, put together, are the whole text of that kind
  masked at once, however the model and the chunks cut it.
\<close>

theorem client_reads_masked_text:
  assumes "list_all (\<lambda>p. fst (snd (snd p)) \<in> {None, cid}) (concat (map split_chunk chunks))"
  shows "stream_text k (run_stream (map (Op_Chunk (compile_stream_mask reg)) chunks @ [Op_Claim])
           (stream_open item events None True))
     = mask_text (stream_values reg) (concat (fed_texts k (concat (map split_chunk chunks))))"
proof -
  let ?m = "compile_stream_mask reg" and ?ps = "concat (map split_chunk chunks)"
  let ?sc = "fold (emit_delta ?m) ?ps (stream_open item events None True)"
  have "fed_inv ?m cid [] (stream_open item events None True)"
    by (simp add: fed_inv_def stream_open_def fed_texts_def stream_text_def)
  then have inv: "fed_inv ?m cid ?ps ?sc" using fed_inv_fold assms by (metis append_Nil)
  have "run_stream (map (Op_Chunk ?m) chunks @ [Op_Claim]) (stream_open item events None True)
      = (stream_flush ?sc)\<lparr>sc_reserved := True\<rparr>"
    using run_chunks [of "stream_open item events None True" ?m chunks]
    by (simp add: run_stream_def stream_claim_def stream_open_def)
  moreover have "stream_text k (stream_flush ?sc) = mask_stream ?m (fed_texts k ?ps)"
    using inv stream_text_flush_masks [of "sc_masks ?sc" k ?sc]
    by (auto simp: fed_inv_def stream_flush_def mask_stream_def case_prod_beta mask_flush_def
        compile_stream_mask_def release_held_def Let_def split: option.split)
  ultimately show ?thesis by (simp add: mask_stream_all)
qed


definition sample_chunk :: "str \<Rightarrow> stream_chunk" where
  "sample_chunk t = LLMChunk (Some ''c1'')
     (Some [\<lparr>cc_delta = Some \<lparr>dl_reasoning_set = True, dl_reasoning = Some ''hm'', dl_content = Some t\<rparr>, cc_index = 0\<rparr>])"

theorem client_reads_masked_text_witness:
  "stream_text TextKind (run_stream (map (Op_Chunk (compile_stream_mask sample_masked))
        [sample_chunk ''x to'', sample_chunk ''k-1!''] @ [Op_Claim]) (stream_open ''m1'' 3 None True))
   = mask_text (stream_values sample_masked) (concat (fed_texts TextKind
        (concat (map split_chunk [sample_chunk ''x to'', sample_chunk ''k-1!'']))))"
  by (rule client_reads_masked_text [where cid = "Some ''c1''"]) (simp add: sample_chunk_def)

end
