(* ===== verification/Llm_Fallback.thy ===== *)
theory Llm_Fallback
  imports Prelude Complex_Main
begin

text \<open>
  The metrics of an LLM (\<open>llm/utils/metrics.py\<close>) and the fallback to other LLMs
  (\<open>llm/fallback_strategy.py\<close>, \<open>LLM._handle_error\<close>).

  Amounts of money are floating-point numbers; their type is a parameter \<open>'c\<close> with the operations
  the code uses and no laws. Token counts are Python integers, clock readings rationals. What an
  LLM call and the load of a profile do is a parameter; both may raise and change the world \<open>'w\<close>.
\<close>

section \<open>Metrics\<close>

record 'c cost =
  co_model :: str
  co_cost :: 'c
  co_timestamp :: rat

record 'c response_latency =
  rl_model :: str
  rl_latency :: 'c
  rl_response_id :: str

record token_usage =
  tu_model :: str
  tu_prompt :: int
  tu_completion :: int
  tu_cache_read :: int
  tu_cache_write :: int
  tu_reasoning :: int
  tu_context_window :: int
  tu_per_turn :: int
  tu_response_id :: str

record 'c metrics_snapshot =
  me_model :: str
  me_cost :: 'c
  me_budget :: "'c option"
  me_usage :: "token_usage option"

record 'c metrics = "'c metrics_snapshot" +
  me_costs :: "'c cost list"
  me_latencies :: "'c response_latency list"
  me_usages :: "token_usage list"

text \<open>The constructor of \<open>TokenUsage\<close> rejects negative counts.\<close>

definition make_usage :: "token_usage \<Rightarrow> py_exc + token_usage" where
  "make_usage u =
     (if tu_prompt u < 0 \<or> tu_completion u < 0 \<or> tu_cache_read u < 0 \<or> tu_cache_write u < 0
         \<or> tu_reasoning u < 0 \<or> tu_context_window u < 0 \<or> tu_per_turn u < 0
      then Inl (ValueError ''tokens must be non-negative'') else Inr u)"

definition add_usages :: "token_usage \<Rightarrow> token_usage \<Rightarrow> py_exc + token_usage" where
  "add_usages u v = make_usage
     \<lparr>tu_model = tu_model u, tu_prompt = tu_prompt u + tu_prompt v,
      tu_completion = tu_completion u + tu_completion v,
      tu_cache_read = tu_cache_read u + tu_cache_read v,
      tu_cache_write = tu_cache_write u + tu_cache_write v,
      tu_reasoning = tu_reasoning u + tu_reasoning v,
      tu_context_window = max (tu_context_window u) (tu_context_window v),
      tu_per_turn = tu_per_turn v, tu_response_id = tu_response_id u\<rparr>"

definition zero_usage :: "str \<Rightarrow> token_usage" where
  "zero_usage model = \<lparr>tu_model = model, tu_prompt = 0, tu_completion = 0, tu_cache_read = 0,
     tu_cache_write = 0, tu_reasoning = 0, tu_context_window = 0, tu_per_turn = 0, tu_response_id = ''''\<rparr>"

text \<open>\<open>Metrics(model_name=...)\<close>, whose validator fills in the accumulated usage.\<close>

definition new_metrics :: "str \<Rightarrow> ('c :: zero) metrics" where
  "new_metrics model = \<lparr>me_model = model, me_cost = 0, me_budget = None, me_usage = Some (zero_usage model),
     me_costs = [], me_latencies = [], me_usages = []\<rparr>"

definition cache_hit_counts :: "('c, 'z) metrics_snapshot_scheme \<Rightarrow> (int \<times> int) option" where
  "cache_hit_counts me =
     (case me_usage me of
        None \<Rightarrow> None
      | Some u \<Rightarrow>
          let denom = (if tu_cache_read u > tu_prompt u then tu_prompt u + tu_cache_read u else tu_prompt u)
          in if denom \<le> 0 then None else Some (tu_cache_read u, denom))"

definition get_snapshot :: "'c metrics \<Rightarrow> 'c metrics_snapshot" where
  "get_snapshot me = \<lparr>me_model = me_model me, me_cost = me_cost me, me_budget = me_budget me, me_usage = me_usage me\<rparr>"

definition add_cost :: "('c :: {plus, zero, ord}) \<Rightarrow> rat \<Rightarrow> 'c metrics \<Rightarrow> py_exc + 'c metrics" where
  "add_cost v now me =
     (if v < 0 then Inl (ValueError ''Added cost cannot be negative.'')
      else Inr (me\<lparr>me_cost := me_cost me + v,
        me_costs := me_costs me @ [\<lparr>co_model = me_model me, co_cost = v, co_timestamp = now\<rparr>]\<rparr>))"

definition add_response_latency :: "('c :: {zero, ord}) \<Rightarrow> str \<Rightarrow> 'c metrics \<Rightarrow> 'c metrics" where
  "add_response_latency v response_id me = me\<lparr>me_latencies := me_latencies me @
     [\<lparr>rl_model = me_model me, rl_latency = max 0 v, rl_response_id = response_id\<rparr>]\<rparr>"

text \<open>
  \<open>add_token_usage\<close>: the counts are given as a usage, of which the model and the tokens of the turn
  are filled in here. An exception after the record was appended keeps it.
\<close>

definition add_token_usage :: "token_usage \<Rightarrow> 'c metrics \<Rightarrow> py_exc option \<times> 'c metrics" where
  "add_token_usage counts me =
     (let usage = counts\<lparr>tu_model := me_model me, tu_per_turn := tu_prompt counts + tu_completion counts\<rparr>
      in case make_usage usage of
           Inl e \<Rightarrow> (Some e, me)
         | Inr usage \<Rightarrow>
             let me1 = me\<lparr>me_usages := me_usages me @ [usage]\<rparr>;
                 new_usage = usage\<lparr>tu_response_id := ''''\<rparr>
             in case me_usage me1 of
                  None \<Rightarrow> (None, me1\<lparr>me_usage := Some new_usage\<rparr>)
                | Some u \<Rightarrow>
                    (case add_usages u new_usage of
                       Inl e \<Rightarrow> (Some e, me1)
                     | Inr s \<Rightarrow> (None, me1\<lparr>me_usage := Some s\<rparr>)))"

definition merge_metrics :: "('c :: plus) metrics \<Rightarrow> 'c metrics \<Rightarrow> py_exc option \<times> 'c metrics" where
  "merge_metrics me other =
     (let me1 = me\<lparr>me_cost := me_cost me + me_cost other,
            me_budget := (case me_budget me of None \<Rightarrow> me_budget other | Some b \<Rightarrow> Some b),
            me_costs := me_costs me @ me_costs other,
            me_usages := me_usages me @ me_usages other,
            me_latencies := me_latencies me @ me_latencies other\<rparr>
      in case me_usage me of
           None \<Rightarrow> (None, me1\<lparr>me_usage := me_usage other\<rparr>)
         | Some u \<Rightarrow>
             (case me_usage other of
                None \<Rightarrow> (None, me1)
              | Some v \<Rightarrow>
                  (case add_usages u v of
                     Inl e \<Rightarrow> (Some e, me1)
                   | Inr s \<Rightarrow> (None, me1\<lparr>me_usage := Some s\<rparr>))))"

definition diff_usages :: "str \<Rightarrow> token_usage \<Rightarrow> token_usage \<Rightarrow> py_exc + token_usage" where
  "diff_usages model current base = make_usage
     \<lparr>tu_model = model, tu_prompt = tu_prompt current - tu_prompt base,
      tu_completion = tu_completion current - tu_completion base,
      tu_cache_read = tu_cache_read current - tu_cache_read base,
      tu_cache_write = tu_cache_write current - tu_cache_write base,
      tu_reasoning = tu_reasoning current - tu_reasoning base,
      tu_context_window = tu_context_window current, tu_per_turn = 0, tu_response_id = ''''\<rparr>"

definition diff_metrics :: "('c :: {minus, zero}) metrics \<Rightarrow> 'c metrics \<Rightarrow> py_exc + 'c metrics" where
  "diff_metrics me baseline =
     (let result = (new_metrics (me_model me))
            \<lparr>me_cost := me_cost me - me_cost baseline,
             me_costs := (if me_costs baseline \<noteq> []
               then filter (\<lambda>c. co_timestamp c > co_timestamp (last (me_costs baseline))) (me_costs me)
               else me_costs me),
             me_latencies := drop (length (me_latencies baseline)) (me_latencies me),
             me_usages := drop (length (me_usages baseline)) (me_usages me)\<rparr>
      in case (me_usage me, me_usage baseline) of
           (Some current, Some base) \<Rightarrow>
             rbind (diff_usages (me_model me) current base) (\<lambda>u. Inr (result\<lparr>me_usage := Some u\<rparr>))
         | (Some current, None) \<Rightarrow> Inr (result\<lparr>me_usage := Some current\<rparr>)
         | (None, _) \<Rightarrow> Inr (result\<lparr>me_usage := None\<rparr>))"

section \<open>Fallback\<close>

text \<open>
  An LLM as the strategy sees it: its model, its own strategy, its metrics, and the rest \<open>'l\<close>.
  \<open>load_profile\<close> is \<open>LLMProfileStore.load\<close>, \<open>call_llm\<close> the call handed to \<open>try_fallback\<close>.
\<close>

record ('c, 'l) llm =
  lm_model :: str
  lm_strategy :: "nat option"
  lm_metrics :: "'c metrics"
  lm_rest :: 'l

type_synonym ('c, 'l, 'w) profile_load = "str \<Rightarrow> 'w \<Rightarrow> (py_exc + ('c, 'l) llm) \<times> 'w"
type_synonym ('c, 'l, 'r, 'w) llm_call = "('c, 'l) llm \<Rightarrow> 'w \<Rightarrow> (py_exc + 'r) \<times> ('c, 'l) llm \<times> 'w"

record ('c, 'l) fallback_strategy =
  fs_names :: "str list"
  fs_resolved :: "('c, 'l) llm list option"

record ('c, 'l, 'w) fallback_state =
  fb_strategy :: "('c, 'l) fallback_strategy"
  fb_primary :: "'c metrics"
  fb_world :: 'w

definition resolved_llms :: "('c, 'l, 'w) fallback_state \<Rightarrow> ('c, 'l) llm list" where
  "resolved_llms st = (case fs_resolved (fb_strategy st) of None \<Rightarrow> [] | Some ls \<Rightarrow> ls)"

definition set_resolved :: "('c, 'l) llm list \<Rightarrow> ('c, 'l, 'w) fallback_state \<Rightarrow> ('c, 'l, 'w) fallback_state" where
  "set_resolved ls st = st\<lparr>fb_strategy := (fb_strategy st)\<lparr>fs_resolved := Some ls\<rparr>\<rparr>"

text \<open>
  One round of \<open>try_fallback\<close> with the resolved LLM at position \<open>i\<close>: its own strategy is taken
  away for the call and given back after it, and on success what the call added to its metrics is
  merged into those of the primary LLM. Every exception of the round ends in the next one.
\<close>

definition try_llm ::
    "('c :: {plus, minus, zero}, 'l, 'r, 'w) llm_call \<Rightarrow> nat \<Rightarrow> ('c, 'l, 'w) fallback_state
      \<Rightarrow> 'r option \<times> ('c, 'l, 'w) fallback_state" where
  "try_llm call_llm i st =
     (let fb = resolved_llms st ! i;
          (r, fb1, w) = call_llm (fb\<lparr>lm_strategy := None\<rparr>) (fb_world st);
          fb2 = fb1\<lparr>lm_strategy := lm_strategy fb\<rparr>;
          st1 = set_resolved ((resolved_llms st)[i := fb2]) (st\<lparr>fb_world := w\<rparr>)
      in case r of
           Inl e \<Rightarrow> (None, st1)
         | Inr result \<Rightarrow>
             (case diff_metrics (lm_metrics fb2) (lm_metrics fb) of
                Inl e \<Rightarrow> (None, st1)
              | Inr d \<Rightarrow>
                  (case merge_metrics (fb_primary st1) d of
                     (Some e, primary) \<Rightarrow> (None, st1\<lparr>fb_primary := primary\<rparr>)
                   | (None, primary) \<Rightarrow> (Some result, st1\<lparr>fb_primary := primary\<rparr>))))"

fun try_resolved ::
    "('c :: {plus, minus, zero}, 'l, 'r, 'w) llm_call \<Rightarrow> nat list \<Rightarrow> ('c, 'l, 'w) fallback_state
      \<Rightarrow> 'r option \<times> ('c, 'l, 'w) fallback_state" where
  "try_resolved call_llm [] st = (None, st)"
| "try_resolved call_llm (i # is) st =
     (case try_llm call_llm i st of
        (Some r, st1) \<Rightarrow> (Some r, st1)
      | (None, st1) \<Rightarrow> try_resolved call_llm is st1)"

text \<open>
  The rest of \<open>_iter_fallbacks\<close>: a profile that is missing or invalid is skipped, any other exception
  of the load leaves the generator and \<open>try_fallback\<close>.
\<close>

fun skipped_load_error :: "py_exc \<Rightarrow> bool" where
  "skipped_load_error (FileNotFoundError m) = True"
| "skipped_load_error (ValueError m) = True"
| "skipped_load_error e = False"

fun try_remaining ::
    "('c, 'l, 'w) profile_load \<Rightarrow> ('c :: {plus, minus, zero}, 'l, 'r, 'w) llm_call \<Rightarrow> str list
      \<Rightarrow> ('c, 'l, 'w) fallback_state \<Rightarrow> (py_exc + 'r option) \<times> ('c, 'l, 'w) fallback_state" where
  "try_remaining load_profile call_llm [] st = (Inr None, st)"
| "try_remaining load_profile call_llm (name # names) st =
     (case load_profile name (fb_world st) of
        (Inl e, w) \<Rightarrow>
          if skipped_load_error e then try_remaining load_profile call_llm names (st\<lparr>fb_world := w\<rparr>)
          else (Inl e, st\<lparr>fb_world := w\<rparr>)
      | (Inr fb, w) \<Rightarrow>
          let st1 = set_resolved (resolved_llms st @ [fb]) (st\<lparr>fb_world := w\<rparr>)
          in case try_llm call_llm (length (resolved_llms st)) st1 of
               (Some r, st2) \<Rightarrow> (Inr (Some r), st2)
             | (None, st2) \<Rightarrow> try_remaining load_profile call_llm names st2)"

definition try_fallback ::
    "('c, 'l, 'w) profile_load \<Rightarrow> ('c :: {plus, minus, zero}, 'l, 'r, 'w) llm_call
      \<Rightarrow> ('c, 'l, 'w) fallback_state \<Rightarrow> (py_exc + 'r option) \<times> ('c, 'l, 'w) fallback_state" where
  "try_fallback load_profile call_llm st =
     (let st0 = set_resolved (resolved_llms st) st
      in case try_resolved call_llm [0..<length (resolved_llms st0)] st0 of
           (Some r, st1) \<Rightarrow> (Inr (Some r), st1)
         | (None, st1) \<Rightarrow>
             try_remaining load_profile call_llm
               (drop (length (resolved_llms st1)) (fs_names (fb_strategy st1))) st1)"

text \<open>
  \<open>LLM._handle_error\<close>, for an LLM whose strategy is \<open>fb_strategy\<close>: \<open>eligible\<close> is \<open>should_fallback\<close>, a
  table of exception classes of litellm, \<open>mapped\<close> is \<open>map_provider_exception\<close>.
\<close>

definition handle_error ::
    "(py_exc \<Rightarrow> bool) \<Rightarrow> (py_exc \<Rightarrow> py_exc) \<Rightarrow> ('c, 'l, 'w) profile_load
      \<Rightarrow> ('c :: {plus, minus, zero}, 'l, 'r, 'w) llm_call \<Rightarrow> py_exc \<Rightarrow> bool
      \<Rightarrow> ('c, 'l, 'w) fallback_state \<Rightarrow> (py_exc + 'r) \<times> ('c, 'l, 'w) fallback_state" where
  "handle_error eligible mapped load_profile call_llm error has_strategy st =
     (if has_strategy \<and> eligible error then
        (case try_fallback load_profile call_llm st of
           (Inl e, st1) \<Rightarrow> (Inl e, st1)
         | (Inr (Some r), st1) \<Rightarrow> (Inr r, st1)
         | (Inr None, st1) \<Rightarrow> (Inl (mapped error), st1))
      else (Inl (mapped error), st))"


section \<open>What merging a difference gives\<close>

definition valid_usage :: "token_usage \<Rightarrow> bool" where
  "valid_usage u \<longleftrightarrow> make_usage u = Inr u"

lemma valid_usage_iff:
  "valid_usage u \<longleftrightarrow> 0 \<le> tu_prompt u \<and> 0 \<le> tu_completion u \<and> 0 \<le> tu_cache_read u \<and> 0 \<le> tu_cache_write u
     \<and> 0 \<le> tu_reasoning u \<and> 0 \<le> tu_context_window u \<and> 0 \<le> tu_per_turn u"
  by (auto simp: valid_usage_def make_usage_def)

lemma make_usage_valid: "valid_usage u \<Longrightarrow> make_usage u = Inr u"
  by (simp add: valid_usage_def)

text \<open>\<open>extends u v\<close>: the usage \<open>v\<close> is \<open>u\<close> with more calls counted.\<close>

definition extends_usage :: "token_usage \<Rightarrow> token_usage \<Rightarrow> bool" where
  "extends_usage u v \<longleftrightarrow> valid_usage v \<and> tu_model v = tu_model u \<and> tu_response_id v = tu_response_id u
     \<and> tu_prompt u \<le> tu_prompt v \<and> tu_completion u \<le> tu_completion v \<and> tu_cache_read u \<le> tu_cache_read v
     \<and> tu_cache_write u \<le> tu_cache_write v \<and> tu_reasoning u \<le> tu_reasoning v
     \<and> tu_context_window u \<le> tu_context_window v"

lemma extends_usage_refl: "valid_usage u \<Longrightarrow> extends_usage u u"
  by (simp add: extends_usage_def)

lemma add_token_usage_extends:
  assumes "me_usage me = Some u" and "valid_usage u" and "valid_usage c"
  shows "\<exists>v usage. add_token_usage c me = (None, me\<lparr>me_usages := me_usages me @ [usage], me_usage := Some v\<rparr>)
     \<and> extends_usage u v"
  using assms unfolding valid_usage_iff
  by (auto simp: add_token_usage_def make_usage_def add_usages_def extends_usage_def valid_usage_iff Let_def)

lemma extends_usage_trans: "extends_usage u v \<Longrightarrow> extends_usage v w \<Longrightarrow> extends_usage u w"
  by (auto simp: extends_usage_def)

definition record_usages :: "token_usage list \<Rightarrow> 'c metrics \<Rightarrow> 'c metrics" where
  "record_usages cs me = foldl (\<lambda>me c. snd (add_token_usage c me)) me cs"

lemma record_usages_extends:
  assumes "me_usage me = Some u" and "valid_usage u" and "\<forall>c\<in>set cs. valid_usage c"
  shows "\<exists>v us. record_usages cs me = me\<lparr>me_usages := me_usages me @ us, me_usage := Some v\<rparr> \<and> extends_usage u v"
  using assms
proof (induction cs arbitrary: me u)
  case Nil
  then show ?case by (intro exI [of _ u] exI [of _ "[]"]) (simp add: record_usages_def extends_usage_refl)
next
  case (Cons c cs)
  obtain v usage where v: "add_token_usage c me = (None, me\<lparr>me_usages := me_usages me @ [usage], me_usage := Some v\<rparr>)"
    "extends_usage u v" using add_token_usage_extends [OF Cons.prems(1,2), of c] Cons.prems(3) by auto
  let ?me = "me\<lparr>me_usages := me_usages me @ [usage], me_usage := Some v\<rparr>"
  obtain x us where x: "record_usages cs ?me = ?me\<lparr>me_usages := me_usages ?me @ us, me_usage := Some x\<rparr>" "extends_usage v x"
    using Cons.IH [of ?me v] v(2) Cons.prems(3) by (auto simp: extends_usage_def)
  then show ?case using v extends_usage_trans
    by (intro exI [of _ x] exI [of _ "usage # us"]) (auto simp: record_usages_def)
qed

text \<open>
  What a difference of metrics holds is what merging needs: merging into a baseline the
  difference of a later state to it gives the later state's token counts and its list of calls;
  only the tokens of the last turn are lost.
\<close>

theorem merge_diff_restores:
  assumes "me_usage me = Some u" and "valid_usage u" and "\<forall>c\<in>set cs. valid_usage c"
  shows "\<exists>d merged. diff_metrics (record_usages cs me) me = Inr d \<and> merge_metrics me d = (None, merged)
     \<and> me_usages merged = me_usages (record_usages cs me)
     \<and> me_usage merged = map_option (tu_per_turn_update (\<lambda>_. 0)) (me_usage (record_usages cs me))"
proof -
  obtain v us where v: "record_usages cs me = me\<lparr>me_usages := me_usages me @ us, me_usage := Some v\<rparr>" "extends_usage u v"
    using record_usages_extends [OF assms] by blast
  obtain du where du: "diff_usages (me_model me) v u = Inr du" "add_usages u du = Inr (v\<lparr>tu_per_turn := 0\<rparr>)"
    using v(2) assms(2)
    by (auto simp: diff_usages_def add_usages_def make_usage_def extends_usage_def valid_usage_iff)
  show ?thesis using assms(1) v(1) du by (auto simp: diff_metrics_def merge_metrics_def Let_def)
qed

theorem merge_diff_restores_witness:
  "\<exists>d merged. diff_metrics (record_usages [(zero_usage ''m'')\<lparr>tu_prompt := 7\<rparr>] (new_metrics ''m'')) (new_metrics ''m'' :: int metrics) = Inr d
     \<and> merge_metrics (new_metrics ''m'') d = (None, merged)
     \<and> me_usages merged = me_usages (record_usages [(zero_usage ''m'')\<lparr>tu_prompt := 7\<rparr>] (new_metrics ''m'' :: int metrics))
     \<and> me_usage merged = map_option (tu_per_turn_update (\<lambda>_. 0))
         (me_usage (record_usages [(zero_usage ''m'')\<lparr>tu_prompt := 7\<rparr>] (new_metrics ''m'' :: int metrics)))"
  by (rule merge_diff_restores [where u = "zero_usage ''m''"])
    (simp_all add: new_metrics_def zero_usage_def valid_usage_iff)

text \<open>Costs are told apart by their time only: one booked at the same reading as the last one before is lost.\<close>

theorem simultaneous_cost_lost:
  "rbind (add_cost 2 100 (new_metrics ''m'' :: int metrics)) (\<lambda>base. rbind (add_cost 3 100 base)
     (\<lambda>current. rbind (diff_metrics current base) (\<lambda>d. Inr (me_cost d, me_costs d)))) = Inr (3, [])"
  by code_simp


section \<open>Fallbacks do not fall back\<close>

definition agree_on_leaves :: "('c, 'l, 'r, 'w) llm_call \<Rightarrow> ('c, 'l, 'r, 'w) llm_call \<Rightarrow> bool" where
  "agree_on_leaves f g \<longleftrightarrow> (\<forall>l w. lm_strategy l = None \<longrightarrow> f l w = g l w)"

lemma try_llm_cong: "agree_on_leaves f g \<Longrightarrow> try_llm f i st = try_llm g i st"
  by (simp add: try_llm_def agree_on_leaves_def)

lemma try_resolved_cong: "agree_on_leaves f g \<Longrightarrow> try_resolved f is st = try_resolved g is st"
  by (induction "is" arbitrary: st) (auto simp: try_llm_cong split: prod.split option.split)

lemma try_remaining_cong: "agree_on_leaves f g \<Longrightarrow> try_remaining load_profile f names st = try_remaining load_profile g names st"
  by (induction names arbitrary: st) (auto simp: try_llm_cong Let_def split: prod.split option.split sum.split)

text \<open>
  C14: A fallback LLM is never called with a strategy of its own: what a call would do with an LLM
  that has one does not matter to the handling of an error, so fallbacks form no chains.
\<close>

theorem fallbacks_do_not_nest:
  assumes "agree_on_leaves f g"
  shows "handle_error eligible mapped load_profile f error has_strategy st
       = handle_error eligible mapped load_profile g error has_strategy st"
proof -
  have "try_remaining load_profile f = try_remaining load_profile g" "try_resolved f = try_resolved g"
    by (intro ext try_remaining_cong try_resolved_cong assms)+
  then show ?thesis by (simp only: handle_error_def try_fallback_def)
qed

section \<open>Fallbacks are tried in their order\<close>

text \<open>
  The setting in which the order can be read off: profiles that all load, a world that records the
  models called, and calls that answer or fail with \<open>reply\<close>. A call may change the LLM in
  any way that keeps its model and records valid token usages, \<open>spent\<close>, in its metrics; it may add
  any costs and latencies, and a failing call spends tokens too.
\<close>

definition traced_load :: "(str \<Rightarrow> ('c, 'l) llm) \<Rightarrow> ('c, 'l, str list) profile_load" where
  "traced_load prof n w = (Inr (prof n), w)"

definition usable_metrics :: "'c metrics \<Rightarrow> bool" where
  "usable_metrics me \<longleftrightarrow> (case me_usage me of None \<Rightarrow> False | Some u \<Rightarrow> valid_usage u)"

definition charged :: "token_usage list \<Rightarrow> 'c metrics \<Rightarrow> 'c metrics \<Rightarrow> bool" where
  "charged cs me me' \<longleftrightarrow> list_all valid_usage cs \<and> me_model me' = me_model me
     \<and> me_usage me' = me_usage (record_usages cs me) \<and> me_usages me' = me_usages (record_usages cs me)"

definition accounting_call ::
    "(str \<Rightarrow> py_exc + 'r) \<Rightarrow> (str \<Rightarrow> token_usage list) \<Rightarrow> ('c, 'l, 'r, str list) llm_call \<Rightarrow> bool" where
  "accounting_call reply spent call_llm \<longleftrightarrow> (\<forall>l w. usable_metrics (lm_metrics l) \<longrightarrow>
     (\<exists>l'. call_llm l w = (reply (lm_model l), l', w @ [lm_model l]) \<and> lm_model l' = lm_model l
        \<and> charged (spent (lm_model l)) (lm_metrics l) (lm_metrics l')))"

definition token_fields :: "(token_usage \<Rightarrow> int) set" where
  "token_fields = {tu_prompt, tu_completion, tu_cache_read, tu_cache_write, tu_reasoning}"

definition total :: "(token_usage \<Rightarrow> int) \<Rightarrow> 'c metrics \<Rightarrow> int" where
  "total f me = (case me_usage me of None \<Rightarrow> 0 | Some u \<Rightarrow> f u)"

fun up_to_first :: "('a \<Rightarrow> bool) \<Rightarrow> 'a list \<Rightarrow> 'a list" where
  "up_to_first p [] = []"
| "up_to_first p (x # xs) = (if p x then [x] else x # up_to_first p xs)"

abbreviation answers_ok :: "(str \<Rightarrow> py_exc + 'r) \<Rightarrow> str \<Rightarrow> bool" where
  "answers_ok reply m \<equiv> \<not> isl (reply m)"

definition first_answer :: "(str \<Rightarrow> py_exc + 'r) \<Rightarrow> str list \<Rightarrow> 'r option" where
  "first_answer reply ms = map_option (\<lambda>m. projr (reply m)) (find (answers_ok reply) ms)"

definition first_spent :: "(str \<Rightarrow> py_exc + 'r) \<Rightarrow> (str \<Rightarrow> token_usage list) \<Rightarrow> str list \<Rightarrow> token_usage list" where
  "first_spent reply spent ms = (case find (answers_ok reply) ms of None \<Rightarrow> [] | Some m \<Rightarrow> spent m)"

lemma record_usages_total:
  assumes "usable_metrics me" and "list_all valid_usage cs" and "f \<in> token_fields"
  shows "total f (record_usages cs me) = total f me + sum_list (map f cs)"
  using assms(1,2)
proof (induction cs arbitrary: me)
  case (Cons c cs)
  obtain u where u: "me_usage me = Some u" "valid_usage u" using Cons.prems(1) by (auto simp: usable_metrics_def split: option.splits)
  obtain v usage where v: "add_token_usage c me = (None, me\<lparr>me_usages := me_usages me @ [usage], me_usage := Some v\<rparr>)"
    "extends_usage u v" using add_token_usage_extends [OF u, of c] Cons.prems(2) by auto
  have "me_usage (snd (add_token_usage c me)) = Some v" using v(1) by simp
  then have "f v = f u + f c"
    using u assms(3) Cons.prems(2) unfolding token_fields_def list.pred_inject valid_usage_iff
    by (auto simp: add_token_usage_def make_usage_def add_usages_def Let_def)
  moreover have "usable_metrics (me\<lparr>me_usages := me_usages me @ [usage], me_usage := Some v\<rparr>)"
    using v(2) by (simp add: usable_metrics_def extends_usage_def)
  ultimately show ?case using Cons.IH Cons.prems(2) u v(1) by (simp add: record_usages_def total_def)
qed (simp add: record_usages_def)

text \<open>What a call has spent can be taken out of its metrics and merged into those of the primary LLM.\<close>

lemma charged_merges:
  assumes "usable_metrics me" and "charged cs me me'" and "usable_metrics primary"
  shows "\<exists>d primary'. diff_metrics me' me = Inr d \<and> merge_metrics primary d = (None, primary') \<and> usable_metrics primary'
     \<and> (\<forall>f\<in>token_fields. total f primary' = total f primary + sum_list (map f cs))"
proof -
  obtain u where u: "me_usage me = Some u" "valid_usage u" using assms(1) by (auto simp: usable_metrics_def split: option.splits)
  obtain p where p: "me_usage primary = Some p" "valid_usage p" using assms(3) by (auto simp: usable_metrics_def split: option.splits)
  obtain v where v: "me_usage me' = Some v" "extends_usage u v"
    using record_usages_extends [OF u] assms(2) by (fastforce simp: charged_def list_all_iff)
  have sums: "f v = f u + sum_list (map f cs)" if "f \<in> token_fields" for f
    using record_usages_total [OF assms(1) _ that, of cs] assms(2) u(1) v(1)
    unfolding charged_def total_def by (metis option.simps(5))
  obtain du where du: "diff_usages (me_model me') v u = Inr du" "valid_usage du"
    "\<forall>f\<in>token_fields. f du = f v - f u"
    using u(2) v(2) unfolding valid_usage_iff extends_usage_def token_fields_def
    by (fastforce simp: diff_usages_def make_usage_def)
  obtain d where d: "diff_metrics me' me = Inr d" "me_usage d = Some du"
    using u(1) v(1) du(1) by (auto simp: diff_metrics_def Let_def)
  obtain s where s: "add_usages p du = Inr s" "valid_usage s" "\<forall>f\<in>token_fields. f s = f p + f du"
    using p(2) du(2) unfolding valid_usage_iff token_fields_def by (fastforce simp: add_usages_def make_usage_def)
  obtain primary' where m: "merge_metrics primary d = (None, primary')" "me_usage primary' = Some s"
    using p(1) d(2) s(1) by (auto simp: merge_metrics_def Let_def)
  have "total f primary' = total f primary + sum_list (map f cs)" if "f \<in> token_fields" for f
    using bspec [OF s(3) that] bspec [OF du(3) that] sums [OF that] p(1) m(2) by (simp add: total_def)
  then show ?thesis using d(1) m s(2) by (auto simp: usable_metrics_def)
qed

definition fallback_ok :: "('c, 'l, 'w) fallback_state \<Rightarrow> bool" where
  "fallback_ok st \<longleftrightarrow> usable_metrics (fb_primary st) \<and> (\<forall>l\<in>set (resolved_llms st). usable_metrics (lm_metrics l))"

lemma set_resolved_fields [simp]:
  "resolved_llms (set_resolved ls st) = ls" "fb_world (set_resolved ls st) = fb_world st"
  "fb_primary (set_resolved ls st) = fb_primary st" "fs_names (fb_strategy (set_resolved ls st)) = fs_names (fb_strategy st)"
  by (simp_all add: set_resolved_def resolved_llms_def)

lemma resolved_llms_update [simp]:
  "resolved_llms (st\<lparr>fb_world := w\<rparr>) = resolved_llms st" "resolved_llms (st\<lparr>fb_primary := p\<rparr>) = resolved_llms st"
  by (simp_all add: resolved_llms_def)

text \<open>What a stage does: it tries the models \<open>ms\<close> up to the first that succeeds and charges the primary LLM.\<close>

definition tried :: "(str \<Rightarrow> py_exc + 'r) \<Rightarrow> (str \<Rightarrow> token_usage list) \<Rightarrow> str list \<Rightarrow> ('c, 'l, str list) fallback_state
    \<Rightarrow> 'r option \<times> ('c, 'l, str list) fallback_state \<Rightarrow> bool" where
  "tried reply spent ms st res \<longleftrightarrow> fst res = first_answer reply ms
     \<and> fb_world (snd res) = fb_world st @ up_to_first (answers_ok reply) ms
     \<and> fallback_ok (snd res) \<and> fs_names (fb_strategy (snd res)) = fs_names (fb_strategy st)
     \<and> (\<forall>f\<in>token_fields. total f (fb_primary (snd res))
          = total f (fb_primary st) + sum_list (map f (first_spent reply spent ms)))"

lemma try_llm_tried:
  assumes "accounting_call reply spent call_llm" and "fallback_ok st" and "i < length (resolved_llms st)"
  shows "tried reply spent [lm_model (resolved_llms st ! i)] st (try_llm call_llm i st)
     \<and> map lm_model (resolved_llms (snd (try_llm call_llm i st))) = map lm_model (resolved_llms st)"
proof -
  let ?fb = "resolved_llms st ! i" and ?m = "lm_model (resolved_llms st ! i)"
  have use: "usable_metrics (lm_metrics ?fb)" "usable_metrics (fb_primary st)"
    using assms(2,3) by (auto simp: fallback_ok_def)
  have "usable_metrics (lm_metrics (?fb\<lparr>lm_strategy := None\<rparr>))" using use(1) by simp
  with assms(1) obtain l' where l': "call_llm (?fb\<lparr>lm_strategy := None\<rparr>) (fb_world st) = (reply ?m, l', fb_world st @ [?m])"
    "lm_model l' = ?m" "charged (spent ?m) (lm_metrics ?fb) (lm_metrics l')"
    unfolding accounting_call_def by fastforce
  obtain d primary' where d: "diff_metrics (lm_metrics l') (lm_metrics ?fb) = Inr d"
    "merge_metrics (fb_primary st) d = (None, primary')" "usable_metrics primary'"
    "\<forall>f\<in>token_fields. total f primary' = total f (fb_primary st) + sum_list (map f (spent ?m))"
    using charged_merges [OF use(1) l'(3) use(2)] by blast
  let ?l = "l'\<lparr>lm_strategy := lm_strategy ?fb\<rparr>"
  let ?ls = "(resolved_llms st)[i := ?l]"
  have grown: "usable_metrics (lm_metrics l')"
    using record_usages_extends [of "lm_metrics ?fb" _ "spent ?m"] use(1) l'(3)
    by (fastforce simp: usable_metrics_def charged_def list_all_iff extends_usage_def split: option.splits)
  then have ls: "\<forall>l\<in>set ?ls. usable_metrics (lm_metrics l)"
    using assms(2) set_update_subset_insert [of "resolved_llms st" i ?l] by (auto simp: fallback_ok_def)
  have models: "map lm_model ?ls = map lm_model (resolved_llms st)"
    using l'(2) assms(3) by (simp add: map_update list_update_same_conv)
  show ?thesis
  proof (cases "reply ?m")
    case (Inl e)
    then have "try_llm call_llm i st = (None, set_resolved ?ls (st\<lparr>fb_world := fb_world st @ [?m]\<rparr>))"
      using l'(1) by (simp add: try_llm_def Let_def)
    then show ?thesis using Inl models ls use(2)
      by (simp add: tried_def first_answer_def first_spent_def fallback_ok_def)
  next
    case (Inr r)
    then have "try_llm call_llm i st = (Some r, (set_resolved ?ls (st\<lparr>fb_world := fb_world st @ [?m]\<rparr>))\<lparr>fb_primary := primary'\<rparr>)"
      using l'(1) d(1,2) by (simp add: try_llm_def Let_def)
    then show ?thesis using Inr models ls d(3,4)
      by (simp add: tried_def first_answer_def first_spent_def fallback_ok_def)
  qed
qed

lemma tried_seq:
  "tried reply spent [m] st (None, st1) \<Longrightarrow> tried reply spent ms st1 res \<Longrightarrow> tried reply spent (m # ms) st res"
  by (auto simp: tried_def first_answer_def first_spent_def split: if_splits)

lemma tried_stop: "tried reply spent [m] st (Some x, st1) \<Longrightarrow> tried reply spent (m # ms) st (Some x, st1)"
  by (auto simp: tried_def first_answer_def first_spent_def split: if_splits)

lemma try_resolved_tried:
  assumes "accounting_call reply spent call_llm" and "fallback_ok st" and "\<forall>i\<in>set is. i < length (resolved_llms st)"
  shows "tried reply spent (map (\<lambda>i. lm_model (resolved_llms st ! i)) is) st (try_resolved call_llm is st)
     \<and> map lm_model (resolved_llms (snd (try_resolved call_llm is st))) = map lm_model (resolved_llms st)"
  using assms(2,3)
proof (induction "is" arbitrary: st)
  case Nil
  then show ?case by (simp add: tried_def first_answer_def first_spent_def)
next
  case (Cons i "is")
  obtain r st1 where r: "try_llm call_llm i st = (r, st1)" by (cases "try_llm call_llm i st")
  have one: "tried reply spent [lm_model (resolved_llms st ! i)] st (r, st1)"
    "map lm_model (resolved_llms st1) = map lm_model (resolved_llms st)"
    using try_llm_tried [OF assms(1) Cons.prems(1), of i] Cons.prems(2) r by auto
  have len: "length (resolved_llms st1) = length (resolved_llms st)" using one(2) by (metis length_map)
  have same: "lm_model (resolved_llms st1 ! j) = lm_model (resolved_llms st ! j)" if "j < length (resolved_llms st)" for j
    using one(2) that len by (metis nth_map)
  show ?case
  proof (cases r)
    case None
    have "fallback_ok st1" using one(1) by (simp add: tried_def)
    then have "tried reply spent (map (\<lambda>i. lm_model (resolved_llms st1 ! i)) is) st1 (try_resolved call_llm is st1)"
      "map lm_model (resolved_llms (snd (try_resolved call_llm is st1))) = map lm_model (resolved_llms st)"
      using Cons.IH [of st1] Cons.prems(2) one(2) len by simp_all
    moreover have "map (\<lambda>i. lm_model (resolved_llms st1 ! i)) is = map (\<lambda>i. lm_model (resolved_llms st ! i)) is"
      using Cons.prems(2) same by simp
    ultimately show ?thesis using tried_seq [of reply spent "lm_model (resolved_llms st ! i)" st st1] one(1) r None by simp
  next
    case (Some x)
    then show ?thesis using one r tried_stop [of reply spent "lm_model (resolved_llms st ! i)" st x st1] by simp
  qed
qed

lemma try_remaining_tried:
  assumes "accounting_call reply spent call_llm" and "fallback_ok st" and "\<forall>n\<in>set names. usable_metrics (lm_metrics (prof n))"
  shows "\<exists>res. try_remaining (traced_load prof) call_llm names st = (Inr (fst res), snd res)
     \<and> tried reply spent (map (\<lambda>n. lm_model (prof n)) names) st res
     \<and> (\<exists>k. map lm_model (resolved_llms (snd res))
           = map lm_model (resolved_llms st) @ map (\<lambda>n. lm_model (prof n)) (take k names))"
  using assms(2,3)
proof (induction names arbitrary: st)
  case Nil
  then show ?case by (intro exI [of _ "(None, st)"]) (simp add: tried_def first_answer_def first_spent_def)
next
  case (Cons n names)
  let ?st1 = "set_resolved (resolved_llms st @ [prof n]) st"
  have ok1: "fallback_ok ?st1" using Cons.prems by (auto simp: fallback_ok_def)
  obtain r st2 where r: "try_llm call_llm (length (resolved_llms st)) ?st1 = (r, st2)" by fastforce
  have "tried reply spent [lm_model (prof n)] ?st1 (r, st2)"
    and ls2: "map lm_model (resolved_llms st2) = map lm_model (resolved_llms st) @ [lm_model (prof n)]"
    using try_llm_tried [OF assms(1) ok1, of "length (resolved_llms st)"] r by auto
  then have one: "tried reply spent [lm_model (prof n)] st (r, st2)" by (simp add: tried_def)
  have step: "try_remaining (traced_load prof) call_llm (n # names) st =
     (case r of Some x \<Rightarrow> (Inr (Some x), st2) | None \<Rightarrow> try_remaining (traced_load prof) call_llm names st2)"
    using r by (simp add: traced_load_def Let_def)
  show ?case
  proof (cases r)
    case (Some x)
    then show ?thesis using tried_stop [of reply spent "lm_model (prof n)" st x st2] one step ls2
      by (intro exI [of _ "(r, st2)"]) (auto intro!: exI [of _ 1])
  next
    case None
    have "fallback_ok st2" using one by (simp add: tried_def)
    then obtain res k where res: "try_remaining (traced_load prof) call_llm names st2 = (Inr (fst res), snd res)"
      "tried reply spent (map (\<lambda>n. lm_model (prof n)) names) st2 res"
      "map lm_model (resolved_llms (snd res)) = map lm_model (resolved_llms st2) @ map (\<lambda>n. lm_model (prof n)) (take k names)"
      using Cons.IH [of st2] Cons.prems(2) by (metis list.set_intros(2))
    have "tried reply spent (map (\<lambda>n. lm_model (prof n)) (n # names)) st res"
      using tried_seq [of reply spent "lm_model (prof n)" st st2] one None res(2) by simp
    then show ?thesis using step None res ls2
      by (intro exI [of _ res]) (auto simp del: try_remaining.simps intro!: exI [of _ "Suc k"])
  qed
qed

lemma first_append:
  "up_to_first p (xs @ ys) = (if find p xs = None then xs @ up_to_first p ys else up_to_first p xs)"
  "find p (xs @ ys) = (if find p xs = None then find p ys else find p xs)"
  "find p xs = None \<Longrightarrow> up_to_first p xs = xs"
  by (induction xs) (auto split: if_splits)

lemma tried_append:
  "tried reply spent ms st (None, st1) \<Longrightarrow> tried reply spent ns st1 res \<Longrightarrow> tried reply spent (ms @ ns) st res"
  "tried reply spent ms st (Some x, st1) \<Longrightarrow> tried reply spent (ms @ ns) st (Some x, st1)"
  by (auto simp: tried_def first_answer_def first_spent_def first_append split: option.splits)

text \<open>
  C13: When every profile loads and the outcome of a call depends on the model alone, an error is
  answered by the first fallback in the configured order that succeeds: the models called are the
  configured ones up to it, each once, whether they were loaded by an earlier call (the first
  \<open>k\<close> of them, as \<open>try_fallback\<close> itself leaves them) or are loaded now, and when none succeeds the
  caller gets none. The tokens the successful call spent are added to those of the primary LLM, and no
  others, whatever costs, latencies and tokens the calls add to the metrics of the fallbacks.
\<close>

theorem fallbacks_tried_in_order:
  assumes "accounting_call reply spent call_llm" and "fallback_ok st"
    and "\<forall>n\<in>set (fs_names (fb_strategy st)). usable_metrics (lm_metrics (prof n))"
    and "map lm_model (resolved_llms st) = map (\<lambda>n. lm_model (prof n)) (take k (fs_names (fb_strategy st)))"
    and "models = map (\<lambda>n. lm_model (prof n)) (fs_names (fb_strategy st))"
  shows "\<exists>st'. try_fallback (traced_load prof) call_llm st = (Inr (first_answer reply models), st')
     \<and> fb_world st' = fb_world st @ up_to_first (answers_ok reply) models
     \<and> (\<forall>f\<in>token_fields. total f (fb_primary st')
          = total f (fb_primary st) + sum_list (map f (first_spent reply spent models)))
     \<and> (\<exists>j. map lm_model (resolved_llms st') = take j models)"
proof -
  let ?mod = "\<lambda>n. lm_model (prof n)" and ?names = "fs_names (fb_strategy st)"
  let ?st0 = "set_resolved (resolved_llms st) st" and ?len = "length (resolved_llms st)"
  have loaded: "map lm_model (resolved_llms st) = take ?len models"
    using assms(4,5) by (metis length_map length_take min.commute take_map take_all_iff take_take nle_le)
  have ok0: "fallback_ok ?st0" using assms(2) by (simp add: fallback_ok_def)
  obtain r st1 where r: "try_resolved call_llm [0..<?len] ?st0 = (r, st1)" by fastforce
  have "map (\<lambda>i. lm_model (resolved_llms st ! i)) [0..<?len] = take ?len models"
    using loaded by (metis map_nth map_map comp_apply map_cong)
  then have "tried reply spent (take ?len models) ?st0 (r, st1)" and st1: "map lm_model (resolved_llms st1) = take ?len models"
    using try_resolved_tried [OF assms(1) ok0, of "[0..<?len]"] r loaded by auto
  then have first: "tried reply spent (take ?len models) st (r, st1)" by (simp add: tried_def)
  have len1: "length (resolved_llms st1) = ?len" using st1 loaded by (metis length_map)
  have split: "models = take ?len models @ map ?mod (drop ?len ?names)" using assms(5) by (simp add: drop_map [symmetric])
  have "\<exists>res. try_fallback (traced_load prof) call_llm st = (Inr (fst res), snd res) \<and> tried reply spent models st res
     \<and> (\<exists>j. map lm_model (resolved_llms (snd res)) = take j models)"
  proof (cases r)
    case (Some x)
    have "tried reply spent models st (Some x, st1)"
      using tried_append(2) [of reply spent "take ?len models" st x st1 "map ?mod (drop ?len ?names)"] first Some split by simp
    then show ?thesis using r Some st1 by (intro exI [of _ "(Some x, st1)"]) (auto simp: try_fallback_def)
  next
    case None
    have st1_ok: "fallback_ok st1" "fs_names (fb_strategy st1) = ?names" using first by (simp_all add: tried_def)
    obtain res j where res: "try_remaining (traced_load prof) call_llm (drop ?len ?names) st1 = (Inr (fst res), snd res)"
      "tried reply spent (map ?mod (drop ?len ?names)) st1 res"
      "map lm_model (resolved_llms (snd res)) = map lm_model (resolved_llms st1) @ map ?mod (take j (drop ?len ?names))"
      using try_remaining_tried [OF assms(1) st1_ok(1), of "drop ?len ?names" prof] assms(3) by (meson in_set_dropD)
    have "try_fallback (traced_load prof) call_llm st = (Inr (fst res), snd res)"
      using r None res(1) st1_ok(2) len1 by (simp add: try_fallback_def)
    moreover have "tried reply spent models st res"
      using tried_append(1) [of reply spent "take ?len models" st st1 "map ?mod (drop ?len ?names)" res] first None res(2) split
      by simp
    moreover have "map lm_model (resolved_llms (snd res)) = take (?len + j) models"
      using res(3) st1 assms(5) by (simp add: take_add take_map drop_map)
    ultimately show ?thesis by blast
  qed
  then show ?thesis unfolding tried_def by fastforce
qed

definition call_usage :: token_usage where
  "call_usage = (zero_usage [])\<lparr>tu_prompt := 10, tu_completion := 2\<rparr>"

text \<open>A call that spends tokens, whether it succeeds or not.\<close>

definition traced_call :: "(str \<Rightarrow> bool) \<Rightarrow> ('c, 'l, str, str list) llm_call" where
  "traced_call ok l w = (if ok (lm_model l) then Inr (lm_model l) else Inl (LLMError []),
     l\<lparr>lm_metrics := record_usages [call_usage] (lm_metrics l)\<rparr>, w @ [lm_model l])"

lemma traced_call_accounts:
  "accounting_call (\<lambda>m. if ok m then Inr m else Inl (LLMError [])) (\<lambda>m. [call_usage]) (traced_call ok)"
  by (auto simp: accounting_call_def traced_call_def charged_def valid_usage_iff call_usage_def zero_usage_def
      record_usages_def add_token_usage_def make_usage_def add_usages_def Let_def split: option.splits sum.splits)

definition sample_model :: "str \<Rightarrow> (int, unit) llm" where
  "sample_model n = \<lparr>lm_model = n, lm_strategy = Some 0, lm_metrics = new_metrics n, lm_rest = ()\<rparr>"

definition sample_fallback :: "str list \<Rightarrow> (int, unit) llm list option \<Rightarrow> (int, unit, str list) fallback_state" where
  "sample_fallback names resolved = \<lparr>fb_strategy = \<lparr>fs_names = names, fs_resolved = resolved\<rparr>,
     fb_primary = new_metrics ''primary'', fb_world = []\<rparr>"

theorem fallbacks_tried_in_order_witness:
  "\<exists>st'. try_fallback (traced_load sample_model) (traced_call (\<lambda>m. m = ''b''))
         (sample_fallback [''a'', ''b'', ''c''] (Some [sample_model ''a''])) = (Inr (Some ''b''), st')
     \<and> fb_world st' = [''a'', ''b''] \<and> total tu_prompt (fb_primary st') = 10"
proof -
  let ?st = "sample_fallback [''a'', ''b'', ''c''] (Some [sample_model ''a''])"
  have usable: "fallback_ok ?st" "\<forall>n\<in>set (fs_names (fb_strategy ?st)). usable_metrics (lm_metrics (sample_model n))"
    by (simp_all add: fallback_ok_def sample_fallback_def resolved_llms_def usable_metrics_def sample_model_def
        new_metrics_def zero_usage_def valid_usage_iff)
  have loaded: "map lm_model (resolved_llms ?st) = map (\<lambda>n. lm_model (sample_model n)) (take 1 (fs_names (fb_strategy ?st)))"
    by (simp add: sample_fallback_def resolved_llms_def)
  have f: "tu_prompt \<in> token_fields" by (simp add: token_fields_def)
  have vals: "fb_world ?st = []" "total tu_prompt (fb_primary ?st) = 0"
    "map (\<lambda>n. lm_model (sample_model n)) (fs_names (fb_strategy ?st)) = [''a'', ''b'', ''c'']"
    by (simp_all add: sample_fallback_def total_def new_metrics_def zero_usage_def sample_model_def)
  show ?thesis
    using fallbacks_tried_in_order [OF traced_call_accounts [of "\<lambda>m. m = ''b''"] usable loaded refl] f
    by (fastforce simp: vals first_answer_def first_spent_def call_usage_def)
qed

theorem fallbacks_do_not_nest_witness:
  "agree_on_leaves (traced_call (\<lambda>m. False))
     (\<lambda>l w. if lm_strategy l = None then traced_call (\<lambda>m. False) l w else (Inr ''nested'', l, w))
   \<and> handle_error (\<lambda>e. True) id (traced_load sample_model) (traced_call (\<lambda>m. False)) (LLMError ''x'') True (sample_fallback [''a''] None)
     = handle_error (\<lambda>e. True) id (traced_load sample_model)
        (\<lambda>l w. if lm_strategy l = None then traced_call (\<lambda>m. False) l w else (Inr ''nested'', l, w)) (LLMError ''x'') True (sample_fallback [''a''] None)"
  by (intro conjI fallbacks_do_not_nest) (simp_all add: agree_on_leaves_def)

text \<open>
  After a profile that could not be loaded the cached LLMs and the configured names are out of
  step: the next call skips as many names as it has LLMs, and loads and calls a profile again.
\<close>

definition first_missing :: "(int, unit, str list) profile_load" where
  "first_missing n w = (if n = ''a'' then Inl (FileNotFoundError n) else Inr (sample_model n), w)"

theorem fallback_tried_twice:
  "fb_world (snd (try_fallback first_missing (traced_call (\<lambda>m. False))
     (snd (try_fallback first_missing (traced_call (\<lambda>m. False)) (sample_fallback [''a'', ''b'', ''c''] None)))))
   = [''b'', ''c''] @ [''b'', ''c'', ''c'']"
  by code_simp

text \<open>A profile store that is locked for too long ends the fallback, and the error of the store replaces the first one.\<close>

definition locked_store :: "(int, unit, str list) profile_load" where
  "locked_store n w = (if n = ''a'' then Inl (TimeoutError ''lock'') else Inr (sample_model n), w)"

theorem locked_store_replaces_error:
  "fst (handle_error (\<lambda>e. True) id locked_store (traced_call (\<lambda>m. True)) (LLMError ''rate limit'') True
     (sample_fallback [''a'', ''b''] None)) = Inl (TimeoutError ''lock'')"
  by code_simp

end
