(* ===== verification/Shell_Scan.thy ===== *)
theory Shell_Scan
  imports Tool_Arguments
begin

text \<open>
  The scan for destructive shell commands (\<open>security/_shell_ast.py\<close>,
  \<open>security/defense_in_depth/shell_semantics.py\<close>) over a syntax tree.

  The tree is that of tree-sitter: a node has its type, the flags the scan reads, its text and its
  children. The parser is the parameter \<open>parse\<close> from source text to a tree; \<open>None\<close> is a text it
  rejects, which \<open>_safe_parse\<close> makes of an encoding error or a tree of another length.
\<close>

section \<open>The syntax tree and its commands\<close>

datatype sh_node = ShNode (nd_type: str) (nd_named: bool) (nd_has_error: bool) (nd_missing: bool) (nd_text: str)
  (nd_children: "sh_node list")

definition named_children :: "sh_node \<Rightarrow> sh_node list" where
  "named_children n = filter nd_named (nd_children n)"

fun iter_nodes :: "sh_node \<Rightarrow> sh_node list" where
  "iter_nodes (ShNode ty named err missing t cs) =
     (if named then [ShNode ty named err missing t cs] else []) @ concat (map iter_nodes cs)"

fun has_missing_descendant :: "sh_node \<Rightarrow> bool" where
  "has_missing_descendant (ShNode ty named err missing t cs) = (missing \<or> list_ex has_missing_descendant cs)"

definition has_parse_uncertainty :: "sh_node \<Rightarrow> bool" where
  "has_parse_uncertainty n \<longleftrightarrow> nd_has_error n \<or> has_missing_descendant n"

definition opaque_word_chars :: str where
  "opaque_word_chars = [CHR 0x22, CHR 0x27, CHR 0x60, CHR 0x5C] @ ''$*?[]{}()<>|&;!~''"

definition text_has_opaque_syntax :: "str \<Rightarrow> bool" where
  "text_has_opaque_syntax t \<longleftrightarrow> t = [] \<or> list_ex (\<lambda>c. py_isspace c \<or> c \<in> set opaque_word_chars) t"

definition is_opaque_word_node :: "sh_node \<Rightarrow> bool" where
  "is_opaque_word_node n =
     (if text_has_opaque_syntax (nd_text n) then True
      else if nd_type n = ''word'' then False
      else if nd_type n = ''variable_assignment''
        then list_ex (\<lambda>c. nd_type c \<notin> {''variable_name'', ''word''}) (named_children n)
      else True)"

record sh_word =
  sw_text :: str
  sw_type :: str
  sw_opaque :: bool
  sw_node :: sh_node

record sh_command =
  cm_name :: "sh_word option"
  cm_words :: "sh_word list"
  cm_assignments :: "sh_word list"
  cm_has_error :: bool

definition shell_word :: "sh_node \<Rightarrow> sh_word" where
  "shell_word n = \<lparr>sw_text = nd_text n, sw_type = nd_type n, sw_opaque = is_opaque_word_node n, sw_node = n\<rparr>"

definition command_name_word :: "sh_node \<Rightarrow> sh_word" where
  "command_name_word n = \<lparr>sw_text = nd_text n, sw_type = nd_type n,
     sw_opaque = (length (named_children n) \<noteq> 1 \<or> nd_type (hd (named_children n)) \<noteq> ''word''
                  \<or> text_has_opaque_syntax (nd_text n)),
     sw_node = n\<rparr>"

definition command_child_skip_types :: "str list" where
  "command_child_skip_types = [''command_name'', ''comment'', ''file_redirect'', ''heredoc_redirect'',
     ''herestring_redirect'', ''redirected_statement'', ''variable_assignment'']"

fun view_children :: "sh_node list \<Rightarrow> bool \<Rightarrow> sh_command \<Rightarrow> sh_command" where
  "view_children [] found cmd = cmd"
| "view_children (c # cs) found cmd =
     (if nd_type c = ''command_name'' then view_children cs True (cmd\<lparr>cm_name := Some (command_name_word c)\<rparr>)
      else if nd_type c = ''variable_assignment'' \<and> \<not> found
        then view_children cs found (cmd\<lparr>cm_assignments := cm_assignments cmd @ [shell_word c]\<rparr>)
      else if \<not> found \<or> nd_type c \<in> set command_child_skip_types then view_children cs found cmd
      else if contains ''redirect'' (nd_type c) then view_children cs found cmd
      else view_children cs found (cmd\<lparr>cm_words := cm_words cmd @ [shell_word c]\<rparr>))"

definition view_command :: "sh_node \<Rightarrow> sh_command" where
  "view_command n = view_children (named_children n) False
     \<lparr>cm_name = None, cm_words = [], cm_assignments = [], cm_has_error = has_parse_uncertainty n\<rparr>"

definition iter_commands :: "sh_node \<Rightarrow> sh_command list" where
  "iter_commands root_node = map view_command (filter (\<lambda>n. nd_type n = ''command'') (iter_nodes root_node))"

definition split_short_flags :: "str \<Rightarrow> char list" where
  "split_short_flags t =
     (if length t \<le> 1 \<or> \<not> py_startswith t ''-'' \<or> py_startswith t ''--'' then [] else drop 1 t)"

definition is_long_flag :: "str \<Rightarrow> str \<Rightarrow> bool" where
  "is_long_flag t name \<longleftrightarrow> t = ''--'' @ name"

section \<open>Quote removal\<close>

definition sh_backslash :: char where
  "sh_backslash = CHR 0x5C"

text \<open>\<open>escapable\<close> is \<open>None\<close> where a backslash escapes every character.\<close>

fun strip_backslash_escapes :: "char list option \<Rightarrow> str \<Rightarrow> str" where
  "strip_backslash_escapes e [] = []"
| "strip_backslash_escapes e [c] = [c]"
| "strip_backslash_escapes e (c # d # s) =
     (if c = sh_backslash \<and> d = newline then strip_backslash_escapes e s
      else if c = sh_backslash \<and> (case e of None \<Rightarrow> True | Some cs \<Rightarrow> d \<in> set cs) then d # strip_backslash_escapes e s
      else c # strip_backslash_escapes e (d # s))"

definition double_quote_escapable :: "char list" where
  "double_quote_escapable = [CHR ''$'', CHR 0x60, CHR 0x22, sh_backslash]"

definition unescape_unquoted :: "str \<Rightarrow> str" where
  "unescape_unquoted t = strip_backslash_escapes None t"

definition unescape_double_quoted :: "str \<Rightarrow> str" where
  "unescape_double_quoted t = strip_backslash_escapes (Some double_quote_escapable) t"

definition dynamic_name_node_types :: "str list" where
  "dynamic_name_node_types = [''command_substitution'', ''process_substitution'', ''expansion'',
     ''simple_expansion'', ''arithmetic_expansion'', ''ansi_c_string'']"

fun collect_literal_parts :: "sh_node \<Rightarrow> str list option"
  and collect_all_parts :: "sh_node list \<Rightarrow> str list option" where
  "collect_literal_parts (ShNode ty named err missing t cs) =
     (if ty \<in> set dynamic_name_node_types then None
      else if ty = ''word'' then Some [unescape_unquoted t]
      else if ty = ''raw_string'' then Some [if length t \<ge> 2 then butlast (drop 1 t) else []]
      else if ty = ''string_content'' then Some [unescape_double_quoted t]
      else if ty \<in> {''string'', ''command_name'', ''concatenation''} then collect_all_parts cs
      else None)"
| "collect_all_parts [] = Some []"
| "collect_all_parts (c # cs) =
     (if nd_named c then
        (case collect_literal_parts c of
           None \<Rightarrow> None
         | Some ps \<Rightarrow> (case collect_all_parts cs of None \<Rightarrow> None | Some qs \<Rightarrow> Some (ps @ qs)))
      else collect_all_parts cs)"

definition resolve_node_literal :: "sh_node \<Rightarrow> str option" where
  "resolve_node_literal n = map_option concat (collect_literal_parts n)"

definition slash_char :: char where
  "slash_char = CHR ''/''"

definition posix_basename :: "str \<Rightarrow> str" where
  "posix_basename path = rev (takeWhile (\<lambda>c. c \<noteq> slash_char) (rev path))"

definition resolve_command_basename :: "sh_command \<Rightarrow> str option" where
  "resolve_command_basename cmd =
     (case cm_name cmd of
        None \<Rightarrow> None
      | Some w \<Rightarrow> map_option posix_basename (resolve_node_literal (sw_node w)))"

section \<open>Flags and script operands\<close>

fun collect_flags :: "sh_word list \<Rightarrow> char list" where
  "collect_flags [] = []"
| "collect_flags (w # ws) =
     (case resolve_node_literal (sw_node w) of
        None \<Rightarrow> collect_flags ws
      | Some literal \<Rightarrow>
          if literal = ''--'' then []
          else split_short_flags literal
               @ (if is_long_flag literal ''recursive'' then [CHR ''r'']
                  else if is_long_flag literal ''force'' then [CHR ''f''] else [])
               @ collect_flags ws)"

definition has_recursive_force_flags :: "sh_command \<Rightarrow> bool" where
  "has_recursive_force_flags cmd \<longleftrightarrow>
     (let flags = collect_flags (cm_words cmd)
      in (CHR ''r'' \<in> set flags \<or> CHR ''R'' \<in> set flags) \<and> CHR ''f'' \<in> set flags)"

definition is_option_word :: "str \<Rightarrow> bool" where
  "is_option_word t \<longleftrightarrow> length t > 1 \<and> hd t \<in> {CHR ''-'', CHR ''+''}"

definition sets_script_flag :: "str \<Rightarrow> bool" where
  "sets_script_flag t \<longleftrightarrow> py_startswith t ''-'' \<and> \<not> py_startswith t ''--'' \<and> CHR ''c'' \<in> set (drop 1 t)"

definition consumes_next_word :: "str \<Rightarrow> bool" where
  "consumes_next_word t =
     (if t \<in> {''--rcfile'', ''--init-file''} then True
      else if py_startswith t ''--'' then False
      else last t \<in> {CHR ''o'', CHR ''O''})"

fun script_operand :: "sh_word list \<Rightarrow> bool \<Rightarrow> bool \<Rightarrow> bool \<times> str option" where
  "script_operand [] has_flag ended = (has_flag, None)"
| "script_operand (w # ws) has_flag ended =
     (case resolve_node_literal (sw_node w) of
        None \<Rightarrow> (has_flag, None)
      | Some literal \<Rightarrow>
          if \<not> ended \<and> (literal = ''--'' \<or> literal = ''-'') then script_operand ws has_flag True
          else if \<not> ended \<and> is_option_word literal then
            script_operand (if consumes_next_word literal then drop 1 ws else ws)
              (has_flag \<or> sets_script_flag literal) ended
          else if has_flag then (True, Some literal) else (False, None))"

definition extract_script_operand :: "sh_command \<Rightarrow> bool \<times> str option" where
  "extract_script_operand cmd = script_operand (cm_words cmd) False False"

section \<open>The scan\<close>

record signal_output =
  sg_matched :: bool
  sg_uncertain :: bool

definition no_signal :: signal_output where
  "no_signal = \<lparr>sg_matched = False, sg_uncertain = False\<rparr>"

definition match_signal :: signal_output where
  "match_signal = \<lparr>sg_matched = True, sg_uncertain = False\<rparr>"

definition uncertain_signal :: signal_output where
  "uncertain_signal = \<lparr>sg_matched = False, sg_uncertain = True\<rparr>"

definition shell_runners :: "str list" where
  "shell_runners = [''sh'', ''bash'', ''dash'', ''zsh'', ''ksh'', ''ash'']"

definition max_nesting_depth :: nat where
  "max_nesting_depth = 8"

text \<open>
  One loop of \<open>_program_signal\<close>, with the scan of a nested script as an argument.
\<close>

definition nested_signal :: "(str \<Rightarrow> signal_output) \<Rightarrow> sh_command \<Rightarrow> str option \<Rightarrow> signal_output" where
  "nested_signal scan_operand cmd resolved =
     (if resolved \<notin> Some ` set shell_runners then no_signal
      else let operand = (case extract_script_operand cmd of
                 (True, Some inner) \<Rightarrow> scan_operand inner
               | _ \<Rightarrow> no_signal)
           in if sg_matched operand then match_signal
              else if cm_has_error cmd then uncertain_signal
              else operand)"

fun commands_signal :: "(str \<Rightarrow> signal_output) \<Rightarrow> sh_command list \<Rightarrow> bool \<Rightarrow> signal_output" where
  "commands_signal scan_operand [] uncertain = \<lparr>sg_matched = False, sg_uncertain = uncertain\<rparr>"
| "commands_signal scan_operand (cmd # cmds) uncertain =
     (let resolved = resolve_command_basename cmd;
          flags = has_recursive_force_flags cmd
      in if flags \<and> resolved = Some ''rm'' then match_signal
         else let uncertain1 = (uncertain \<or> flags \<and> (resolved = None \<or> cm_has_error cmd));
                  nested = nested_signal scan_operand cmd resolved
              in if sg_matched nested then match_signal
                 else commands_signal scan_operand cmds (uncertain1 \<or> sg_uncertain nested))"

text \<open>
  \<open>_program_signal\<close> and \<open>_scan_script_operand\<close>: the argument is the number of levels of nested scripts
  that are still followed, \<open>_MAX_NESTING_DEPTH - depth\<close>.
\<close>

fun operand_signal :: "(str \<Rightarrow> sh_node option) \<Rightarrow> nat \<Rightarrow> str \<Rightarrow> signal_output" where
  "operand_signal parse 0 inner = uncertain_signal"
| "operand_signal parse (Suc levels) inner =
     (case parse inner of
        None \<Rightarrow> no_signal
      | Some program \<Rightarrow> commands_signal (operand_signal parse levels) (iter_commands program) False)"

definition program_signal :: "(str \<Rightarrow> sh_node option) \<Rightarrow> nat \<Rightarrow> sh_node \<Rightarrow> signal_output" where
  "program_signal parse levels program =
     commands_signal (operand_signal parse levels) (iter_commands program) False"

record shell_scan_result =
  ss_matched :: bool
  ss_detector_id :: "str option"
  ss_uncertain :: bool

definition scan_shell_command :: "(str \<Rightarrow> sh_node option) \<Rightarrow> str \<Rightarrow> str \<Rightarrow> shell_scan_result" where
  "scan_shell_command parse command rm_detector_id =
     (case parse command of
        None \<Rightarrow> \<lparr>ss_matched = False, ss_detector_id = None, ss_uncertain = False\<rparr>
      | Some program \<Rightarrow>
          let signal = program_signal parse max_nesting_depth program
          in if sg_matched signal then \<lparr>ss_matched = True, ss_detector_id = Some rm_detector_id, ss_uncertain = False\<rparr>
             else \<lparr>ss_matched = False, ss_detector_id = None, ss_uncertain = sg_uncertain signal\<rparr>)"


section \<open>What the scan reports\<close>

definition destructive :: "sh_command \<Rightarrow> bool" where
  "destructive cmd \<longleftrightarrow> has_recursive_force_flags cmd \<and> resolve_command_basename cmd = Some ''rm''"

definition is_runner :: "sh_command \<Rightarrow> bool" where
  "is_runner cmd \<longleftrightarrow> resolve_command_basename cmd \<in> Some ` set shell_runners"

text \<open>
  A program runs a recursive forced delete: one of its commands is one, or runs a shell whose
  script does, through at most the given number of shells.
\<close>

inductive runs_destructive :: "(str \<Rightarrow> sh_node option) \<Rightarrow> nat \<Rightarrow> sh_node \<Rightarrow> bool" for parse where
  direct: "cmd \<in> set (iter_commands program) \<Longrightarrow> destructive cmd \<Longrightarrow> runs_destructive parse n program"
| nested: "cmd \<in> set (iter_commands program) \<Longrightarrow> is_runner cmd
    \<Longrightarrow> extract_script_operand cmd = (True, Some inner) \<Longrightarrow> parse inner = Some program'
    \<Longrightarrow> runs_destructive parse n program' \<Longrightarrow> runs_destructive parse (Suc n) program"

text \<open>
  What the scan cannot vouch for: the flags on a verb it cannot resolve or trust, a shell whose
  arguments a syntax error touches, and a script beyond the last level it follows.
\<close>

inductive unvouched :: "(str \<Rightarrow> sh_node option) \<Rightarrow> nat \<Rightarrow> sh_node \<Rightarrow> bool" for parse where
  verb: "cmd \<in> set (iter_commands program) \<Longrightarrow> has_recursive_force_flags cmd
    \<Longrightarrow> resolve_command_basename cmd = None \<or> cm_has_error cmd \<Longrightarrow> unvouched parse n program"
| broken: "cmd \<in> set (iter_commands program) \<Longrightarrow> is_runner cmd \<Longrightarrow> cm_has_error cmd \<Longrightarrow> unvouched parse n program"
| too_deep: "cmd \<in> set (iter_commands program) \<Longrightarrow> is_runner cmd
    \<Longrightarrow> extract_script_operand cmd = (True, Some inner) \<Longrightarrow> unvouched parse 0 program"
| inside: "cmd \<in> set (iter_commands program) \<Longrightarrow> is_runner cmd
    \<Longrightarrow> extract_script_operand cmd = (True, Some inner) \<Longrightarrow> parse inner = Some program'
    \<Longrightarrow> unvouched parse n program' \<Longrightarrow> unvouched parse (Suc n) program"

inductive_cases runs_destructive_0E: "runs_destructive parse 0 program"
inductive_cases runs_destructive_SucE: "runs_destructive parse (Suc n) program"
inductive_cases unvouched_0E: "unvouched parse 0 program"
inductive_cases unvouched_SucE: "unvouched parse (Suc n) program"

lemmas signal_defs = no_signal_def match_signal_def uncertain_signal_def

definition nested_matched :: "(str \<Rightarrow> signal_output) \<Rightarrow> sh_command \<Rightarrow> bool" where
  "nested_matched f cmd \<longleftrightarrow> is_runner cmd \<and>
     (\<exists>inner. extract_script_operand cmd = (True, Some inner) \<and> sg_matched (f inner))"

definition nested_uncertain :: "(str \<Rightarrow> signal_output) \<Rightarrow> sh_command \<Rightarrow> bool" where
  "nested_uncertain f cmd \<longleftrightarrow> is_runner cmd \<and> (cm_has_error cmd \<or>
     (\<exists>inner. extract_script_operand cmd = (True, Some inner) \<and> sg_uncertain (f inner)))"

lemma nested_signal_matched:
  "sg_matched (nested_signal f cmd (resolve_command_basename cmd)) \<longleftrightarrow> nested_matched f cmd"
  by (cases "extract_script_operand cmd")
    (auto simp: nested_signal_def nested_matched_def is_runner_def signal_defs Let_def split: bool.splits option.splits)

lemma nested_signal_uncertain:
  "\<not> nested_matched f cmd \<Longrightarrow>
     sg_uncertain (nested_signal f cmd (resolve_command_basename cmd)) \<longleftrightarrow> nested_uncertain f cmd"
  by (cases "extract_script_operand cmd")
    (auto simp: nested_signal_def nested_matched_def nested_uncertain_def is_runner_def signal_defs Let_def
      split: bool.splits option.splits)

lemma commands_signal_matched:
  "sg_matched (commands_signal f cmds u) \<longleftrightarrow> (\<exists>cmd\<in>set cmds. destructive cmd \<or> nested_matched f cmd)"
  by (induction f cmds u rule: commands_signal.induct)
    (auto simp: Let_def destructive_def nested_signal_matched signal_defs)

lemma commands_signal_uncertain:
  "\<not> sg_matched (commands_signal f cmds u) \<Longrightarrow> sg_uncertain (commands_signal f cmds u) \<longleftrightarrow>
     u \<or> (\<exists>cmd\<in>set cmds. has_recursive_force_flags cmd \<and> (resolve_command_basename cmd = None \<or> cm_has_error cmd)
            \<or> nested_uncertain f cmd)"
proof (induction cmds arbitrary: u)
  case (Cons cmd cmds)
  have no: "\<not> destructive cmd" "\<not> nested_matched f cmd" "\<not> sg_matched (commands_signal f cmds u')" for u'
    using Cons.prems unfolding commands_signal_matched by auto
  have step: "commands_signal f (cmd # cmds) u = commands_signal f cmds
      (u \<or> has_recursive_force_flags cmd \<and> (resolve_command_basename cmd = None \<or> cm_has_error cmd)
       \<or> nested_uncertain f cmd)"
    using no(1,2) by (auto simp: Let_def destructive_def nested_signal_matched nested_signal_uncertain disj_assoc)
  show ?case unfolding step using Cons.IH [OF no(3)] by auto
qed simp

lemma commands_signal_exclusive: "\<not> (sg_matched (commands_signal f cmds u) \<and> sg_uncertain (commands_signal f cmds u))"
  by (induction f cmds u rule: commands_signal.induct) (auto simp: Let_def signal_defs)

lemma program_signal_matched:
  "sg_matched (program_signal parse n program) \<longleftrightarrow> runs_destructive parse n program"
proof (induction n arbitrary: program)
  case 0
  show ?case unfolding program_signal_def commands_signal_matched nested_matched_def
    by (auto simp: signal_defs intro: runs_destructive.direct elim: runs_destructive_0E)
next
  case (Suc n)
  have op: "sg_matched (operand_signal parse (Suc n) inner) \<longleftrightarrow>
      (\<exists>program'. parse inner = Some program' \<and> runs_destructive parse n program')" for inner
    using Suc.IH by (auto simp: program_signal_def signal_defs split: option.split)
  show ?case unfolding program_signal_def commands_signal_matched nested_matched_def op
    by (blast intro: runs_destructive.intros elim: runs_destructive_SucE)
qed

lemma program_signal_uncertain:
  "sg_uncertain (program_signal parse n program) \<longleftrightarrow>
     \<not> runs_destructive parse n program \<and> unvouched parse n program"
proof (induction n arbitrary: program)
  case 0
  have "sg_uncertain (program_signal parse 0 program) \<longleftrightarrow> unvouched parse 0 program"
    if "\<not> sg_matched (program_signal parse 0 program)"
    using commands_signal_uncertain [of "operand_signal parse 0" "iter_commands program" False] that
    unfolding program_signal_def nested_uncertain_def
    by (auto simp: signal_defs intro: unvouched.intros elim!: unvouched_0E)
  then show ?case using commands_signal_exclusive unfolding program_signal_matched [symmetric] program_signal_def by blast
next
  case (Suc n)
  have op: "sg_uncertain (operand_signal parse (Suc n) inner) \<longleftrightarrow>
      (\<exists>program'. parse inner = Some program' \<and> \<not> runs_destructive parse n program' \<and> unvouched parse n program')" for inner
    using Suc.IH by (auto simp: program_signal_def signal_defs split: option.split)
  have "sg_uncertain (program_signal parse (Suc n) program) \<longleftrightarrow> unvouched parse (Suc n) program"
    if no: "\<not> sg_matched (program_signal parse (Suc n) program)"
  proof -
    have none: "\<not> runs_destructive parse n program'"
      if "cmd \<in> set (iter_commands program)" "is_runner cmd" "extract_script_operand cmd = (True, Some inner)"
        "parse inner = Some program'" for cmd inner program'
      using no that unfolding program_signal_matched by (meson runs_destructive.nested)
    have "sg_uncertain (program_signal parse (Suc n) program) \<longleftrightarrow>
        (\<exists>cmd\<in>set (iter_commands program).
           has_recursive_force_flags cmd \<and> (resolve_command_basename cmd = None \<or> cm_has_error cmd)
           \<or> nested_uncertain (operand_signal parse (Suc n)) cmd)"
      using commands_signal_uncertain [of "operand_signal parse (Suc n)" "iter_commands program" False] no
      unfolding program_signal_def by simp
    also have "\<dots> \<longleftrightarrow> unvouched parse (Suc n) program"
      unfolding nested_uncertain_def op using none
      by (blast intro: unvouched.intros elim: unvouched_SucE)
    finally show ?thesis .
  qed
  then show ?case using commands_signal_exclusive unfolding program_signal_matched [symmetric] program_signal_def by blast
qed

lemma scan_matched_iff:
  "ss_matched (scan_shell_command parse command det) \<longleftrightarrow>
     (\<exists>program. parse command = Some program \<and> runs_destructive parse max_nesting_depth program)"
  by (auto simp: scan_shell_command_def Let_def program_signal_matched split: option.split)

text \<open>
  C15: The scan reports a match exactly when the command, as it is parsed, runs a recursive forced
  delete, itself or in a script handed to a shell, through up to eight shells.
\<close>

theorem scan_matches_destructive:
  "ss_matched (scan_shell_command parse command det) \<longleftrightarrow>
     (\<exists>program. parse command = Some program \<and> runs_destructive parse max_nesting_depth program)"
  by (rule scan_matched_iff)

lemma scan_uncertain_iff:
  "ss_uncertain (scan_shell_command parse command det) \<longleftrightarrow>
     (\<exists>program. parse command = Some program \<and> \<not> runs_destructive parse max_nesting_depth program
        \<and> unvouched parse max_nesting_depth program)"
  by (auto simp: scan_shell_command_def Let_def program_signal_matched program_signal_uncertain split: option.split)

section \<open>Quoting\<close>

text \<open>
  The ways a shell word can spell a text. A character stands for itself, is escaped by a
  backslash, or follows a backslash that stays (\<open>Kept\<close>, in double quotes before a character that needs no
  escape); a line may be continued by a backslash at its end. A word is made of unquoted, single-quoted
  and double-quoted runs. Its syntax tree is the one tree-sitter builds, as
  \<open>test_shell_parser_node_shapes.py\<close> pins it down: an unquoted run, escapes included, is one \<open>word\<close> node, so two of
  them are never neighbours; several runs are the children of a \<open>concatenation\<close>, a single one
  stands alone; empty double quotes have no content.
\<close>

datatype sh_char = Plain char | Escaped char | Kept char | Continued

fun char_text :: "sh_char \<Rightarrow> str" where
  "char_text (Plain c) = [c]"
| "char_text (Escaped c) = [sh_backslash, c]"
| "char_text (Kept c) = [sh_backslash, c]"
| "char_text Continued = [sh_backslash, newline]"



abbreviation chars_text :: "sh_char list \<Rightarrow> str" where
  "chars_text xs \<equiv> concat (map char_text xs)"


datatype word_run = Unquoted "sh_char list" | Single str | Double "sh_char list"

fun run_node :: "word_run \<Rightarrow> sh_node" where
  "run_node (Unquoted xs) = ShNode ''word'' True False False (chars_text xs) []"
| "run_node (Single t) = ShNode ''raw_string'' True False False (CHR 0x27 # t @ [CHR 0x27]) []"
| "run_node (Double xs) = ShNode ''string'' True False False (CHR 0x22 # chars_text xs @ [CHR 0x22])
     ([ShNode [CHR 0x22] False False False [CHR 0x22] []]
      @ (if xs = [] then [] else [ShNode ''string_content'' True False False (chars_text xs) []])
      @ [ShNode [CHR 0x22] False False False [CHR 0x22] []])"





definition word_node :: "word_run list \<Rightarrow> sh_node" where
  "word_node rs =
     (case rs of
        [r] \<Rightarrow> run_node r
      | _ \<Rightarrow> ShNode ''concatenation'' True False False (concat (map (\<lambda>r. nd_text (run_node r)) rs)) (map run_node rs))"









text \<open>A forced delete in a script of a script, with the verb and the flags quoted, is found.\<close>

definition bare :: "str \<Rightarrow> word_run" where
  "bare t = Unquoted (map Plain t)"

definition sample_command :: "word_run list \<Rightarrow> word_run list list \<Rightarrow> sh_node" where
  "sample_command verb args = ShNode ''program'' True False False []
     [ShNode ''command'' True False False []
       (ShNode ''command_name'' True False False [] [word_node verb] # map word_node args)]"

definition sample_parse :: "str \<Rightarrow> sh_node option" where
  "sample_parse t =
     (if t = ''outer'' then Some (sample_command [bare ''bash''] [[bare ''-xc''], [Single ''inner'']])
      else if t = ''inner'' then Some (sample_command [bare ''/bin/'', Double [Plain CHR ''r''], Unquoted [Escaped CHR ''m'']]
        [[bare ''-r'', Double [Plain CHR ''f'']], [bare ''/'']])
      else None)"

lemma sample_scan:
  "ss_matched (scan_shell_command sample_parse ''outer'' ''exec.destruct.rm_rf'')"
  "\<not> ss_matched (scan_shell_command sample_parse ''other'' ''exec.destruct.rm_rf'')"
  by code_simp+

end
