(* ===== verification/Security_Analysis.thy ===== *)
theory Security_Analysis
  imports Shell_Scan Agent_Step
begin

text \<open>
  The security analyzers (\<open>security/analyzer.py\<close>, \<open>llm_analyzer.py\<close>, \<open>ensemble.py\<close> and
  \<open>defense_in_depth\<close>): what they extract from an action, how they normalise it, the patterns and rails
  they look for, and how their verdicts are combined.

  Text is a list of the 256 characters HOL has; the invisible characters beyond them and the
  compatibility forms NFKC replaces are what the parameter \<open>nfkc\<close> stands for. \<open>json.loads\<close> and the shell
  parser are parameters.
\<close>

section \<open>Regular expressions\<close>

text \<open>
  The fragment of \<open>re\<close> the patterns use, all compiled with \<open>IGNORECASE\<close>: classes of characters,
  sequences, alternatives, bounded or unbounded repetition of a class, word boundaries and the
  end of the text. \<open>rx_ends r s i\<close> are the positions where a match of \<open>r\<close> that starts at \<open>i\<close> can end.
\<close>

datatype rx =
    RClass "char \<Rightarrow> bool"
  | RRep "char \<Rightarrow> bool" nat "nat option"
  | RSeq rx rx
  | RAlt rx rx
  | REps
  | RBoundary
  | REnd

definition is_word_char :: "char \<Rightarrow> bool" where
  "is_word_char c = (let n = of_char c :: nat in
     48 \<le> n \<and> n \<le> 57 \<or> 65 \<le> n \<and> n \<le> 90 \<or> n = 95 \<or> 97 \<le> n \<and> n \<le> 122
     \<or> n \<in> {170, 178, 179, 181, 185, 186, 188, 189, 190} \<or> 192 \<le> n \<and> n \<noteq> 215 \<and> n \<noteq> 247)"

definition word_at :: "str \<Rightarrow> nat \<Rightarrow> bool" where
  "word_at s i \<longleftrightarrow> i < length s \<and> is_word_char (s ! i)"

definition boundary_at :: "str \<Rightarrow> nat \<Rightarrow> bool" where
  "boundary_at s i \<longleftrightarrow> (0 < i \<and> word_at s (i - 1)) \<noteq> word_at s i"

definition end_at :: "str \<Rightarrow> nat \<Rightarrow> bool" where
  "end_at s i \<longleftrightarrow> i = length s \<or> i + 1 = length s \<and> s ! i = newline"

definition run_length :: "(char \<Rightarrow> bool) \<Rightarrow> str \<Rightarrow> nat \<Rightarrow> nat" where
  "run_length p s i = length (takeWhile p (drop i s))"

fun rx_ends :: "rx \<Rightarrow> str \<Rightarrow> nat \<Rightarrow> nat list" where
  "rx_ends (RClass p) s i = (if i < length s \<and> p (s ! i) then [i + 1] else [])"
| "rx_ends (RRep p lo hi) s i =
     (let n = run_length p s i; m = (case hi of None \<Rightarrow> n | Some h \<Rightarrow> min n h) in [i + lo..<i + m + 1])"
| "rx_ends (RSeq a b) s i = remdups (concat (map (rx_ends b s) (rx_ends a s i)))"
| "rx_ends (RAlt a b) s i = rx_ends a s i @ rx_ends b s i"
| "rx_ends REps s i = [i]"
| "rx_ends RBoundary s i = (if boundary_at s i then [i] else [])"
| "rx_ends REnd s i = (if end_at s i then [i] else [])"

definition rx_search :: "rx \<Rightarrow> str \<Rightarrow> bool" where
  "rx_search r s \<longleftrightarrow> list_ex (\<lambda>i. rx_ends r s i \<noteq> []) [0..<length s + 1]"

text \<open>The meaning of a pattern, as a relation between where a match starts and where it ends.\<close>

inductive rx_match :: "str \<Rightarrow> rx \<Rightarrow> nat \<Rightarrow> nat \<Rightarrow> bool" for s where
  "i < length s \<Longrightarrow> p (s ! i) \<Longrightarrow> rx_match s (RClass p) i (i + 1)"
| "lo \<le> n \<Longrightarrow> (case hi of None \<Rightarrow> True | Some h \<Rightarrow> n \<le> h) \<Longrightarrow> i + n \<le> length s \<or> n = 0 \<Longrightarrow> \<forall>k<n. p (s ! (i + k))
    \<Longrightarrow> rx_match s (RRep p lo hi) i (i + n)"
| "rx_match s a i j \<Longrightarrow> rx_match s b j k \<Longrightarrow> rx_match s (RSeq a b) i k"
| "rx_match s a i j \<Longrightarrow> rx_match s (RAlt a b) i j"
| "rx_match s b i j \<Longrightarrow> rx_match s (RAlt a b) i j"
| "rx_match s REps i i"
| "boundary_at s i \<Longrightarrow> rx_match s RBoundary i i"
| "end_at s i \<Longrightarrow> rx_match s REnd i i"

inductive_simps rx_match_simps:
  "rx_match s (RClass p) i j" "rx_match s (RRep p lo hi) i j" "rx_match s (RSeq a b) i j"
  "rx_match s (RAlt a b) i j" "rx_match s REps i j" "rx_match s RBoundary i j" "rx_match s REnd i j"

lemma run_length_iff:
  "n \<le> run_length p s i \<longleftrightarrow> (i + n \<le> length s \<or> n = 0) \<and> (\<forall>k<n. p (s ! (i + k)))"
proof (induction n arbitrary: i)
  case (Suc n)
  show ?case
  proof (cases "i < length s")
    case True
    then have "drop i s = s ! i # drop (Suc i) s" by (metis Cons_nth_drop_Suc)
    then have "Suc n \<le> run_length p s i \<longleftrightarrow> p (s ! i) \<and> n \<le> run_length p s (Suc i)"
      by (simp add: run_length_def)
    also have "\<dots> \<longleftrightarrow> (i + Suc n \<le> length s) \<and> (\<forall>k<Suc n. p (s ! (i + k)))"
      unfolding Suc.IH using True by (auto simp: All_less_Suc2)
    finally show ?thesis by simp
  qed (simp add: run_length_def)
qed simp

lemma rx_ends_iff: "j \<in> set (rx_ends r s i) \<longleftrightarrow> rx_match s r i j"
proof (induction r arbitrary: i j)
  case (RRep p lo hi)
  let ?n = "run_length p s i"
  have "j \<in> set (rx_ends (RRep p lo hi) s i) \<longleftrightarrow>
      (\<exists>n. j = i + n \<and> lo \<le> n \<and> n \<le> ?n \<and> (case hi of None \<Rightarrow> True | Some h \<Rightarrow> n \<le> h))"
    by (cases hi) (auto simp: Let_def intro!: exI [of _ "j - i"])
  then show ?case unfolding rx_match_simps run_length_iff by blast
qed (auto simp: rx_match_simps)

lemma rx_search_iff: "rx_search r s \<longleftrightarrow> (\<exists>i j. i \<le> length s \<and> rx_match s r i j)"
proof -
  have "rx_ends r s i \<noteq> [] \<longleftrightarrow> (\<exists>j. rx_match s r i j)" for i
    unfolding rx_ends_iff [symmetric] by (cases "rx_ends r s i") auto
  moreover have "set [0..<length s + 1] = {..length s}" by auto
  ultimately show ?thesis unfolding rx_search_def list_ex_iff by auto
qed


section \<open>Patterns\<close>

definition same_letter :: "char \<Rightarrow> char \<Rightarrow> bool" where
  "same_letter c d \<longleftrightarrow> lower_char d = lower_char c"

fun rseq :: "rx list \<Rightarrow> rx" where
  "rseq [] = REps"
| "rseq [r] = r"
| "rseq (r # s # rs) = RSeq r (rseq (s # rs))"

fun ralt :: "rx list \<Rightarrow> rx" where
  "ralt [] = RClass (\<lambda>c. False)"
| "ralt [r] = r"
| "ralt (r # s # rs) = RAlt r (ralt (s # rs))"

definition lit :: "str \<Rightarrow> rx" where
  "lit t = rseq (map (\<lambda>c. RClass (same_letter c)) t)"

definition words_alt :: "str list \<Rightarrow> rx" where
  "words_alt ts = ralt (map lit ts)"

definition opt :: "rx \<Rightarrow> rx" where
  "opt r = RAlt r REps"

definition one_of :: "str \<Rightarrow> char \<Rightarrow> bool" where
  "one_of cs c \<longleftrightarrow> list_ex (\<lambda>d. same_letter d c) cs"

definition spaces :: rx where
  "spaces = RRep py_isspace 1 None"

definition blanks :: rx where
  "blanks = RRep py_isspace 0 None"

definition gap :: "nat \<Rightarrow> rx" where
  "gap n = RRep (\<lambda>c. c \<noteq> newline) 0 (Some n)"

type_synonym threat_pattern = "rx \<times> str \<times> str"

definition rm_flags :: rx where
  "rm_flags = ralt
     [rseq [lit ''-'', RRep (one_of ''frR'') 2 None],
      rseq [lit ''-'', RClass (one_of ''rR''), spaces, lit ''-f''],
      rseq [lit ''-f'', spaces, lit ''-'', RClass (one_of ''rR'')],
      rseq [lit ''--recursive'', spaces, lit ''--force''],
      rseq [lit ''--force'', spaces, lit ''--recursive'']]"

definition rm_rf :: rx where
  "rm_rf = rseq [RBoundary, lit ''rm'', spaces, rm_flags, RBoundary]"

definition dd_raw :: rx where
  "dd_raw = rseq [RBoundary, lit ''dd'', RBoundary, gap 100, lit ''of=/dev/'']"

definition call_of :: "str \<Rightarrow> rx" where
  "call_of name = rseq [RBoundary, lit name, blanks, lit ''('']"

definition piped_to_sh :: "str \<Rightarrow> rx" where
  "piped_to_sh name = rseq [RBoundary, lit name, RBoundary, RRep (\<lambda>c. c \<noteq> CHR ''|'') 0 (Some 200), lit ''|'', blanks,
     opt (lit ''ba''), lit ''sh'', RBoundary]"

definition default_high_patterns :: "threat_pattern list" where
  "default_high_patterns =
     [(rm_rf, ''Recursive force-delete (rm -rf variants)'', ''exec.destruct.rm_rf''),
      (rseq [RBoundary, lit ''sudo'', spaces, lit ''rm'', RBoundary], ''Privileged file deletion'', ''exec.destruct.sudo_rm''),
      (rseq [RBoundary, lit ''mkfs.'', RRep is_word_char 1 None], ''Filesystem format command'', ''exec.destruct.mkfs''),
      (dd_raw, ''Raw disk write'', ''exec.destruct.dd_raw_disk''),
      (call_of ''eval'', ''Dynamic code evaluation'', ''exec.code.eval_call''),
      (call_of ''exec'', ''Dynamic code execution'', ''exec.code.exec_call''),
      (call_of ''os.system'', ''OS-level command execution'', ''exec.code.os_system''),
      (rseq [RBoundary, lit ''subprocess.'', words_alt [''call'', ''run'', ''Popen'', ''check_output'', ''check_call''], blanks, lit ''(''],
       ''Subprocess invocation'', ''exec.code.subprocess''),
      (piped_to_sh ''curl'', ''Download and run (curl | sh)'', ''exec.net.curl_pipe_exec''),
      (piped_to_sh ''wget'', ''Download and run (wget | sh)'', ''exec.net.wget_pipe_exec'')]"

definition request_with :: "str \<Rightarrow> rx" where
  "request_with name = rseq [RBoundary, lit name, RBoundary, gap 100, lit ''http'', opt (lit ''s''), lit ''://'']"

definition default_medium_patterns :: "threat_pattern list" where
  "default_medium_patterns =
     [(request_with ''curl'', ''HTTP request via curl'', ''exec.net.curl''),
      (request_with ''wget'', ''Download via wget'', ''exec.net.wget'')]"

definition plural :: "str \<Rightarrow> rx" where
  "plural w = rseq [lit w, opt (lit ''s'')]"

definition default_injection_high_patterns :: "threat_pattern list" where
  "default_injection_high_patterns =
     [(rseq [RBoundary, words_alt [''ignore'', ''disregard'', ''forget'', ''override'', ''bypass''], spaces,
         opt (rseq [lit ''all'', spaces]), words_alt [''previous'', ''prior'', ''above''], spaces,
         ralt (map plural [''instruction'', ''prompt'', ''rule'', ''directive'']), RBoundary],
       ''Instruction override attempt'', ''inject.override'')]"

definition default_injection_medium_patterns :: "threat_pattern list" where
  "default_injection_medium_patterns =
     [(rseq [RBoundary, lit ''you'', spaces, lit ''are'', spaces, lit ''now'', spaces, opt (rseq [lit ''in'', spaces]),
         opt (rseq [RRep is_word_char 1 None, spaces]), lit ''mode'', RBoundary],
       ''Mode switching attempt'', ''inject.mode_switch''),
      (rseq [RBoundary, lit ''pretend'', spaces,
         ralt [rseq [lit ''you'', spaces, lit ''are''], rseq [lit ''to'', spaces, lit ''be'']], spaces,
         opt (rseq [lit ''a'', spaces]), lit ''different'', RBoundary],
       ''Identity manipulation'', ''inject.identity'')]"

section \<open>Extraction and normalisation\<close>

record bounded_segments =
  bs_cap :: int
  bs_segments :: "str list"
  bs_total :: int

definition bounded_new :: "int \<Rightarrow> bounded_segments" where
  "bounded_new cap = \<lparr>bs_cap = cap, bs_segments = [], bs_total = 0\<rparr>"

definition bounded_add :: "str \<Rightarrow> bounded_segments \<Rightarrow> bounded_segments" where
  "bounded_add t b =
     (let separator_len = (if bs_segments b \<noteq> [] then 1 else 0);
          remaining = bs_cap b - bs_total b - separator_len
      in if remaining \<le> 0 then b
         else let t1 = (if int (length t) > remaining then take (nat remaining) t else t)
              in b\<lparr>bs_segments := bs_segments b @ [t1], bs_total := bs_total b + int (length t1) + separator_len\<rparr>)"

definition extract_hard_cap :: int where
  "extract_hard_cap = 30000"

fun walk_json_strings :: "jvalue \<Rightarrow> str list" where
  "walk_json_strings (JStr s) = [s]"
| "walk_json_strings (JDict kvs) = concat (map (\<lambda>(k, v). walk_json_strings v) kvs)"
| "walk_json_strings (JList vs) = concat (map walk_json_strings vs)"
| "walk_json_strings v = []"

text \<open>
  The fields of an action the analyzers read. \<open>loads\<close> is \<open>json.loads\<close>; it is \<open>None\<close> for a text that
  is no JSON, and for one nested too deeply to be parsed or walked.
\<close>

record analyzed_action =
  an_tool_name :: str
  an_call :: "tool_call option"
  an_summary :: "str option"
  an_reasoning :: "str option"
  an_thought :: "str list"
  an_risk :: security_risk

definition add_if :: "str option \<Rightarrow> bounded_segments \<Rightarrow> bounded_segments" where
  "add_if t b = (case t of None \<Rightarrow> b | Some s \<Rightarrow> if s \<noteq> [] then bounded_add s b else b)"

definition extract_exec_segments :: "(str \<Rightarrow> jvalue option) \<Rightarrow> analyzed_action \<Rightarrow> str list" where
  "extract_exec_segments loads a =
     (let b0 = bounded_new extract_hard_cap;
          b1 = (case an_call a of
                  None \<Rightarrow> b0
                | Some tc \<Rightarrow>
                    if tc_arguments tc = [] then b0
                    else (case loads (tc_arguments tc) of
                            None \<Rightarrow> bounded_add (tc_arguments tc) b0
                          | Some parsed \<Rightarrow> fold bounded_add (walk_json_strings parsed) b0));
          b2 = add_if (Some (an_tool_name a)) b1;
          b3 = add_if (map_option tc_name (an_call a)) b2
      in bs_segments b3)"

definition extract_text_segments :: "analyzed_action \<Rightarrow> str list" where
  "extract_text_segments a =
     bs_segments (fold (\<lambda>t. add_if (Some t)) (an_thought a)
       (add_if (an_reasoning a) (add_if (an_summary a) (bounded_new extract_hard_cap))))"

definition extract_content :: "(str \<Rightarrow> jvalue option) \<Rightarrow> analyzed_action \<Rightarrow> str" where
  "extract_content loads a = py_join '' '' (extract_exec_segments loads a @ extract_text_segments a)"

definition extract_exec_content :: "(str \<Rightarrow> jvalue option) \<Rightarrow> analyzed_action \<Rightarrow> str" where
  "extract_exec_content loads a = py_join '' '' (extract_exec_segments loads a)"

definition invisible_char :: "char \<Rightarrow> bool" where
  "invisible_char c = (let n = of_char c :: nat in
     n = 173 \<or> 1 \<le> n \<and> n \<le> 8 \<or> n = 11 \<or> n = 12 \<or> 14 \<le> n \<and> n \<le> 31 \<or> 127 \<le> n \<and> n \<le> 159)"

function (sequential) collapse_whitespace :: "str \<Rightarrow> str" where
  "collapse_whitespace [] = []"
| "collapse_whitespace (c # s) =
     (if py_isspace c then CHR '' '' # collapse_whitespace (dropWhile py_isspace s) else c # collapse_whitespace s)"
  by pat_completeness auto
termination by (relation "measure length") (auto simp: length_dropWhile_le less_Suc_eq_le)

definition normalize_text :: "(str \<Rightarrow> str) \<Rightarrow> str \<Rightarrow> str" where
  "normalize_text nfkc t =
     collapse_whitespace (nfkc (filter (\<lambda>c. \<not> invisible_char c) (filter (\<lambda>c. of_char c \<noteq> (0 :: nat)) t)))"


section \<open>The pattern analyzer\<close>

record pattern_analyzer =
  pa_high :: "threat_pattern list"
  pa_medium :: "threat_pattern list"
  pa_injection_high :: "threat_pattern list"
  pa_injection_medium :: "threat_pattern list"

definition default_pattern_analyzer :: pattern_analyzer where
  "default_pattern_analyzer = \<lparr>pa_high = default_high_patterns, pa_medium = default_medium_patterns,
     pa_injection_high = default_injection_high_patterns, pa_injection_medium = default_injection_medium_patterns\<rparr>"

definition some_pattern :: "threat_pattern list \<Rightarrow> str \<Rightarrow> bool" where
  "some_pattern ps t \<longleftrightarrow> list_ex (\<lambda>(r, desc, det). rx_search r t) ps"

record scan_env =
  se_loads :: "str \<Rightarrow> jvalue option"
  se_nfkc :: "str \<Rightarrow> str"
  se_parse :: "str \<Rightarrow> sh_node option"

definition pattern_risk :: "scan_env \<Rightarrow> pattern_analyzer \<Rightarrow> analyzed_action \<Rightarrow> security_risk" where
  "pattern_risk env pa a =
     (let exec_content = normalize_text (se_nfkc env) (extract_exec_content (se_loads env) a);
          all_content = normalize_text (se_nfkc env) (extract_content (se_loads env) a)
      in if exec_content = [] \<and> all_content = [] then LOW
         else if some_pattern (pa_high pa) exec_content then HIGH
         else if some_pattern (pa_injection_high pa) all_content then HIGH
         else let shell_scan = scan_shell_command (se_parse env) exec_content ''exec.destruct.rm_rf''
              in if ss_matched shell_scan then HIGH
                 else if some_pattern (pa_medium pa) exec_content then MEDIUM
                 else if some_pattern (pa_injection_medium pa) all_content then MEDIUM
                 else if ss_uncertain shell_scan then UNKNOWN
                 else LOW)"

section \<open>The policy rails\<close>

record rail_decision =
  rd_outcome :: security_risk
  rd_rule_name :: str
  rd_reason :: str

definition rail_pass :: rail_decision where
  "rail_pass = \<lparr>rd_outcome = LOW, rd_rule_name = [], rd_reason = []\<rparr>"

definition rail_fetch :: rx where
  "rail_fetch = rseq [RBoundary, words_alt [''curl'', ''wget''], RBoundary]"

definition rail_pipe_to_exec :: rx where
  "rail_pipe_to_exec = ralt
     [rseq [lit ''|'', blanks, opt (lit ''ba''), lit ''sh'', RBoundary],
      rseq [lit ''|'', blanks, lit ''python'', opt (RClass (one_of ''23'')), RBoundary],
      rseq [lit ''|'', blanks, lit ''perl'', RBoundary],
      rseq [lit ''|'', blanks, lit ''ruby'', RBoundary]]"

definition rail_mkfs :: rx where
  "rail_mkfs = rseq [RBoundary, lit ''mkfs.'']"

definition rail_critical :: rx where
  "rail_critical = rseq [RBoundary, lit ''rm'', RBoundary, gap 60, RClass py_isspace,
     ralt [rseq [lit ''/'', ralt [RClass py_isspace, REnd, lit ''*'']],
           rseq [lit ''~'', opt (lit ''/''), ralt [RClass py_isspace, REnd]],
           rseq [lit ''/'', words_alt [''etc'', ''usr'', ''var'', ''home'', ''boot''], RBoundary]]]"

fun evaluate_rail_segments :: "str list \<Rightarrow> rail_decision" where
  "evaluate_rail_segments [] = rail_pass"
| "evaluate_rail_segments (seg # segs) =
     (let has_fetch = rx_search rail_fetch seg;
          has_pipe_to_exec = rx_search rail_pipe_to_exec seg;
          has_recursive_force = rx_search rm_rf seg
      in if has_fetch \<and> has_pipe_to_exec then
           \<lparr>rd_outcome = HIGH, rd_rule_name = ''fetch-to-exec'', rd_reason = ''Network fetch piped to shell/interpreter''\<rparr>
         else if rx_search dd_raw seg then
           \<lparr>rd_outcome = HIGH, rd_rule_name = ''raw-disk-op'', rd_reason = ''Raw disk write via dd''\<rparr>
         else if rx_search rail_mkfs seg then
           \<lparr>rd_outcome = HIGH, rd_rule_name = ''raw-disk-op'', rd_reason = ''Filesystem format via mkfs''\<rparr>
         else if has_recursive_force \<and> rx_search rail_critical seg then
           \<lparr>rd_outcome = HIGH, rd_rule_name = ''catastrophic-delete'', rd_reason = ''Recursive force-delete targeting critical path''\<rparr>
         else evaluate_rail_segments segs)"

definition evaluate_rail :: "(str \<Rightarrow> str) \<Rightarrow> str \<Rightarrow> rail_decision" where
  "evaluate_rail nfkc content = evaluate_rail_segments [normalize_text nfkc content]"

definition rail_risk :: "scan_env \<Rightarrow> analyzed_action \<Rightarrow> security_risk" where
  "rail_risk env a =
     (let rail = evaluate_rail_segments (map (normalize_text (se_nfkc env)) (extract_exec_segments (se_loads env) a))
      in if rd_outcome rail \<noteq> LOW then HIGH else LOW)"

section \<open>The ensemble\<close>

definition llm_risk :: "analyzed_action \<Rightarrow> security_risk" where
  "llm_risk a = an_risk a"

text \<open>\<open>__gt__\<close> of the risk levels, and \<open>max\<close> with it.\<close>

definition risk_gt :: "security_risk \<Rightarrow> security_risk \<Rightarrow> py_exc + bool" where
  "risk_gt r s = (if r = UNKNOWN \<or> s = UNKNOWN then Inl (ValueError ''Cannot compare unknown risk levels.'')
     else Inr (risk_order r > risk_order s))"

fun max_risk :: "security_risk \<Rightarrow> security_risk list \<Rightarrow> py_exc + security_risk" where
  "max_risk m [] = Inr m"
| "max_risk m (r # rs) = rbind (risk_gt r m) (\<lambda>b. max_risk (if b then r else m) rs)"

type_synonym ('a, 'w) analyzer = "'a \<Rightarrow> 'w \<Rightarrow> (py_exc + security_risk) \<times> 'w"

fun child_risks :: "('a, 'w) analyzer list \<Rightarrow> 'a \<Rightarrow> 'w \<Rightarrow> security_risk list \<times> 'w" where
  "child_risks [] a w = ([], w)"
| "child_risks (an # ans) a w =
     (let (r, w1) = an a w; (rs, w2) = child_risks ans a w1
      in ((case r of Inl e \<Rightarrow> HIGH | Inr v \<Rightarrow> v) # rs, w2))"

definition fuse_risks :: "bool \<Rightarrow> security_risk list \<Rightarrow> py_exc + security_risk" where
  "fuse_risks propagate_unknown results =
     (if propagate_unknown \<and> UNKNOWN \<in> set results then Inr UNKNOWN
      else case filter (\<lambda>r. r \<noteq> UNKNOWN) results of
             [] \<Rightarrow> Inr UNKNOWN
           | r # rs \<Rightarrow> max_risk r rs)"

definition ensemble_risk :: "('a, 'w) analyzer list \<Rightarrow> bool \<Rightarrow> ('a, 'w) analyzer" where
  "ensemble_risk analyzers propagate_unknown a w =
     (let (results, w1) = child_risks analyzers a w in (fuse_risks propagate_unknown results, w1))"

section \<open>What a verdict means\<close>

lemma some_pattern_iff: "some_pattern ps t \<longleftrightarrow> (\<exists>r desc det i j. (r, desc, det) \<in> set ps \<and> i \<le> length t \<and> rx_match t r i j)"
  by (auto simp: some_pattern_def list_ex_iff rx_search_iff)

lemma max_risk_max:
  "m \<noteq> UNKNOWN \<Longrightarrow> UNKNOWN \<notin> set rs \<Longrightarrow>
     \<exists>x. max_risk m rs = Inr x \<and> x \<in> set (m # rs) \<and> (\<forall>r\<in>set (m # rs). risk_order r \<le> risk_order x)"
proof (induction rs arbitrary: m)
  case (Cons r rs)
  let ?m = "if risk_order r > risk_order m then r else m"
  obtain x where "max_risk ?m rs = Inr x" "x \<in> set (?m # rs)" "\<forall>r\<in>set (?m # rs). risk_order r \<le> risk_order x"
    using Cons.IH [of ?m] Cons.prems by (metis list.set_intros(1,2))
  then show ?case using Cons.prems by (intro exI [of _ x]) (auto simp: risk_gt_def split: if_splits)
qed simp

text \<open>The worst of the verdicts, where there is one that is not unknown.\<close>

lemma fuse_risks_worst:
  "\<exists>x. fuse_risks False rs = Inr x \<and>
     (if set rs \<subseteq> {UNKNOWN} then x = UNKNOWN
      else x \<noteq> UNKNOWN \<and> x \<in> set rs \<and> (\<forall>r\<in>set rs. risk_order r \<le> risk_order x))"
proof (cases "filter (\<lambda>r. r \<noteq> UNKNOWN) rs")
  case Nil
  then show ?thesis by (auto simp: fuse_risks_def filter_empty_conv)
next
  case (Cons m ms)
  have mem: "r \<in> set (m # ms) \<longleftrightarrow> r \<in> set rs \<and> r \<noteq> UNKNOWN" for r
    using arg_cong [OF Cons, of set] by auto
  then have "\<forall>r\<in>set (m # ms). r \<noteq> UNKNOWN \<and> r \<in> set rs" by blast
  moreover from this obtain x where x: "max_risk m ms = Inr x" "x \<in> set (m # ms)" "\<forall>r\<in>set (m # ms). risk_order r \<le> risk_order x"
    using max_risk_max [of m ms] by auto
  moreover have "risk_order r \<le> risk_order x" if "r \<in> set rs" for r
  proof (cases "r = UNKNOWN")
    case False
    then have "r \<in> set (m # ms)" using that mem by blast
    then show ?thesis using x(3) by blast
  qed (simp add: risk_order_def)
  ultimately show ?thesis using Cons by (intro exI [of _ x]) (auto simp: fuse_risks_def)
qed

definition child_verdict :: "py_exc + security_risk \<Rightarrow> security_risk" where
  "child_verdict r = (case r of Inl e \<Rightarrow> HIGH | Inr v \<Rightarrow> v)"

text \<open>
  C18: What an ensemble makes the policy ask. It always has a verdict, whatever the analyzers answer
  or raise; an analyzer that fails counts as high risk. In strict mode one unknown verdict
  makes the ensemble unknown. Otherwise unknown verdicts are ignored, unless all are unknown, and
  the policy confirms the action exactly when it would confirm one of the known verdicts. An unknown
  ensemble is confirmed exactly if the policy confirms unknown risks.
\<close>

theorem ensemble_confirms:
  fixes analyzers :: "('a, 'w) analyzer list"
  defines "verdicts \<equiv> \<lambda>a w. set (fst (child_risks analyzers a w))"
  assumes "t \<noteq> UNKNOWN"
  shows "\<exists>r. fst (ensemble_risk analyzers strict a w) = Inr r \<and>
     should_confirm (ConfirmRisky t u) r =
       Inr (if verdicts a w \<subseteq> {UNKNOWN} \<or> strict \<and> UNKNOWN \<in> verdicts a w then u
            else \<exists>v \<in> verdicts a w. v \<noteq> UNKNOWN \<and> should_confirm (ConfirmRisky t u) v = Inr True)"
proof (cases "strict \<and> UNKNOWN \<in> verdicts a w")
  case True
  then show ?thesis
    by (simp add: verdicts_def ensemble_risk_def fuse_risks_def case_prod_beta Let_def should_confirm_def)
next
  case mode: False
  let ?rs = "fst (child_risks analyzers a w)"
  obtain x where x: "fuse_risks False ?rs = Inr x"
    "if set ?rs \<subseteq> {UNKNOWN} then x = UNKNOWN
     else x \<noteq> UNKNOWN \<and> x \<in> set ?rs \<and> (\<forall>r\<in>set ?rs. risk_order r \<le> risk_order x)"
    using fuse_risks_worst [of ?rs] by blast
  have known: "should_confirm (ConfirmRisky t u) v = Inr (risk_order t \<le> risk_order v)" if "v \<noteq> UNKNOWN" for v
    using that assms(2) by (cases v; cases t) (simp_all add: should_confirm_def is_riskier_def risk_order_def)
  have "fst (ensemble_risk analyzers strict a w) = Inr x"
    using x(1) mode by (auto simp: verdicts_def ensemble_risk_def fuse_risks_def case_prod_beta Let_def)
  moreover have "should_confirm (ConfirmRisky t u) x = Inr (if set ?rs \<subseteq> {UNKNOWN} then u
      else \<exists>v \<in> set ?rs. v \<noteq> UNKNOWN \<and> should_confirm (ConfirmRisky t u) v = Inr True)"
  proof (cases "set ?rs \<subseteq> {UNKNOWN}")
    case False
    then have max: "x \<noteq> UNKNOWN" "x \<in> set ?rs" "\<forall>r\<in>set ?rs. risk_order r \<le> risk_order x" using x(2) by simp_all
    have "risk_order t \<le> risk_order x \<longleftrightarrow> (\<exists>v \<in> set ?rs. v \<noteq> UNKNOWN \<and> risk_order t \<le> risk_order v)"
      using max by (meson order_trans)
    then show ?thesis using False max(1) known by auto
  qed (use x(2) in \<open>simp add: should_confirm_def\<close>)
  ultimately show ?thesis using mode by (auto simp: verdicts_def)
qed

lemma child_risks_verdicts:
  "child_risks (an # ans) a w = (child_verdict (fst (an a w)) # fst (child_risks ans a (snd (an a w))),
     snd (child_risks ans a (snd (an a w))))"
  by (simp add: child_verdict_def case_prod_beta Let_def)

theorem ensemble_confirms_witness:
  "\<exists>r. fst (ensemble_risk [\<lambda>a w. (Inr UNKNOWN, w), \<lambda>a w. (Inl (ValueError []), w)] False () ()) = Inr r \<and>
     should_confirm (ConfirmRisky HIGH False) r = Inr True"
  using ensemble_confirms [of HIGH "[\<lambda>a w. (Inr UNKNOWN, w), \<lambda>a w. (Inl (ValueError []), w)]" False "()" "()" False]
  by (simp add: should_confirm_def is_riskier_def risk_order_def)

text \<open>
  The stricter mode is not stricter under a policy that lets unknown risks pass: an unknown verdict
  hides a high one.
\<close>

theorem strict_mode_hides_high:
  "fuse_risks True [HIGH, UNKNOWN] = Inr UNKNOWN"
  "should_confirm (ConfirmRisky HIGH False) UNKNOWN = Inr False"
  "rbind (fuse_risks False [HIGH, UNKNOWN]) (should_confirm (ConfirmRisky HIGH False)) = Inr True"
  by code_simp+

section \<open>Bounds of what is scanned\<close>

definition bounded_ok :: "bounded_segments \<Rightarrow> bool" where
  "bounded_ok b \<longleftrightarrow> int (length (py_join '' '' (bs_segments b))) = bs_total b \<and> (0 \<le> bs_cap b \<longrightarrow> bs_total b \<le> bs_cap b)"

lemma length_join_snoc:
  "length (py_join sep (xs @ [x])) = length (py_join sep xs) + length x + (if xs = [] then 0 else length sep)"
proof (induction sep xs rule: py_join.induct)
  case (3 sep l m ls)
  then show ?case by (cases ls) auto
qed auto

lemma bounded_add_ok: "bounded_ok b \<Longrightarrow> bounded_ok (bounded_add t b) \<and> bs_cap (bounded_add t b) = bs_cap b"
  by (auto simp: bounded_ok_def bounded_add_def Let_def length_join_snoc)

lemma bounded_new_ok: "bounded_ok (bounded_new cap)"
  by (simp add: bounded_ok_def bounded_new_def)

lemma fold_bounded_ok: "bounded_ok b \<Longrightarrow> bounded_ok (fold bounded_add ts b) \<and> bs_cap (fold bounded_add ts b) = bs_cap b"
  by (induction ts arbitrary: b) (auto simp: bounded_add_ok)

lemma add_if_ok: "bounded_ok b \<Longrightarrow> bounded_ok (add_if t b) \<and> bs_cap (add_if t b) = bs_cap b"
  by (auto simp: add_if_def bounded_add_ok split: option.split)

lemma fold_add_if_ok:
  "bounded_ok b \<Longrightarrow> bounded_ok (fold (\<lambda>t. add_if (Some t)) ts b) \<and> bs_cap (fold (\<lambda>t. add_if (Some t)) ts b) = bs_cap b"
  by (induction ts arbitrary: b) (auto simp: add_if_ok)


lemma bounded_okD:
  "bounded_ok b \<and> bs_cap b = extract_hard_cap \<Longrightarrow> int (length (py_join '' '' (bs_segments b))) \<le> extract_hard_cap"
  by (auto simp: bounded_ok_def extract_hard_cap_def)

lemma exec_segments_bounded: "int (length (py_join '' '' (extract_exec_segments loads a))) \<le> extract_hard_cap"
proof -
  let ?b0 = "bounded_new extract_hard_cap"
  define b1 where "b1 = (case an_call a of None \<Rightarrow> ?b0 | Some tc \<Rightarrow> if tc_arguments tc = [] then ?b0
    else (case loads (tc_arguments tc) of None \<Rightarrow> bounded_add (tc_arguments tc) ?b0
          | Some parsed \<Rightarrow> fold bounded_add (walk_json_strings parsed) ?b0))"
  have b0: "bounded_ok ?b0" "bs_cap ?b0 = extract_hard_cap" by (rule bounded_new_ok) (simp add: bounded_new_def)
  have b1: "bounded_ok b1 \<and> bs_cap b1 = extract_hard_cap"
    unfolding b1_def using b0 bounded_add_ok [OF b0(1)] fold_bounded_ok [OF b0(1)] by (simp split: option.split)
  let ?b3 = "add_if (map_option tc_name (an_call a)) (add_if (Some (an_tool_name a)) b1)"
  have "bounded_ok ?b3 \<and> bs_cap ?b3 = extract_hard_cap" using b1 add_if_ok by metis
  moreover have "extract_exec_segments loads a = bs_segments ?b3"
    unfolding extract_exec_segments_def Let_def b1_def ..
  ultimately show ?thesis using bounded_okD by metis
qed

lemma text_segments_bounded: "int (length (py_join '' '' (extract_text_segments a))) \<le> extract_hard_cap"
proof -
  let ?b = "add_if (an_reasoning a) (add_if (an_summary a) (bounded_new extract_hard_cap))"
  have "bounded_ok ?b \<and> bs_cap ?b = extract_hard_cap"
    using add_if_ok bounded_new_ok by (metis bounded_new_def bounded_segments.select_convs(1))
  then show ?thesis using fold_add_if_ok [of ?b "an_thought a"] bounded_okD
    unfolding extract_text_segments_def by metis
qed

lemma length_join_append:
  "length (py_join sep (xs @ ys)) \<le> length (py_join sep xs) + length (py_join sep ys) + length sep"
proof (induction sep xs rule: py_join.induct)
  case (2 sep l)
  then show ?case by (cases ys) auto
qed auto

text \<open>
  What the analyzers scan is bounded, whatever the model wrote: the text of an action and its
  reasoning has at most 60001 characters, so no action makes the patterns run for long.
\<close>

theorem scanned_text_bounded: "int (length (extract_content loads a)) \<le> 2 * extract_hard_cap + 1"
  using exec_segments_bounded [of loads a] text_segments_bounded [of a]
    length_join_append [of "'' ''" "extract_exec_segments loads a" "extract_text_segments a"]
  by (simp add: extract_content_def)

section \<open>What a low verdict rules out\<close>

definition threat_in :: "threat_pattern list \<Rightarrow> str \<Rightarrow> bool" where
  "threat_in ps t \<longleftrightarrow> (\<exists>r desc det i j. (r, desc, det) \<in> set ps \<and> i \<le> length t \<and> rx_match t r i j)"

lemma threat_in_append: "threat_in (ps @ qs) t \<longleftrightarrow> threat_in ps t \<or> threat_in qs t"
  unfolding threat_in_def set_append Un_iff by blast

lemma some_pattern_threat: "some_pattern ps t \<longleftrightarrow> threat_in ps t"
  by (simp add: some_pattern_iff threat_in_def)

text \<open>
  C17: A low verdict of the pattern analyzer rules out all it looks for: no pattern matches
  anywhere in the normalised text it applies to, and as the shell parser reads the text it runs
  no recursive forced delete and holds nothing the scan cannot vouch for. (Where both texts are
  empty nothing is looked for and the verdict is low.)
\<close>

theorem low_rules_out_threats:
  assumes "pattern_risk env pa a = LOW"
    and "exec = normalize_text (se_nfkc env) (extract_exec_content (se_loads env) a)"
    and "all_text = normalize_text (se_nfkc env) (extract_content (se_loads env) a)"
    and "exec \<noteq> [] \<or> all_text \<noteq> []"
  shows "\<not> (threat_in (pa_high pa @ pa_medium pa) exec
     \<or> threat_in (pa_injection_high pa @ pa_injection_medium pa) all_text
     \<or> (\<exists>program. se_parse env exec = Some program
          \<and> (runs_destructive (se_parse env) max_nesting_depth program
             \<or> unvouched (se_parse env) max_nesting_depth program)))"
proof -
  let ?scan = "scan_shell_command (se_parse env) exec ''exec.destruct.rm_rf''"
  have low: "\<not> some_pattern (pa_high pa) exec" "\<not> some_pattern (pa_injection_high pa) all_text"
    "\<not> ss_matched ?scan" "\<not> some_pattern (pa_medium pa) exec" "\<not> some_pattern (pa_injection_medium pa) all_text"
    "\<not> ss_uncertain ?scan"
    using assms(1,4) unfolding pattern_risk_def Let_def assms(2,3) [symmetric]
    by (auto split: if_splits)
  have "\<not> (\<exists>program. se_parse env exec = Some program
      \<and> (runs_destructive (se_parse env) max_nesting_depth program \<or> unvouched (se_parse env) max_nesting_depth program))"
    using low(3,6) unfolding scan_matched_iff scan_uncertain_iff by blast
  then show ?thesis using low(1,2,4,5) unfolding some_pattern_threat threat_in_append by simp
qed

definition sample_scan_env :: scan_env where
  "sample_scan_env = \<lparr>se_loads = (\<lambda>s. Some (JDict [(''command'', JStr s)])), se_nfkc = id,
     se_parse = (\<lambda>s. Some (sample_command [bare ''ls''] []))\<rparr>"

definition sample_action :: "str \<Rightarrow> analyzed_action" where
  "sample_action command = \<lparr>an_tool_name = ''sh'', an_call = Some \<lparr>tc_id = ''1'', tc_name = ''sh'', tc_arguments = command\<rparr>,
     an_summary = None, an_reasoning = None, an_thought = [''rm -rf''], an_risk = LOW\<rparr>"

lemma sample_verdicts:
  "pattern_risk sample_scan_env default_pattern_analyzer (sample_action ''ls'') = LOW"
  "rail_risk sample_scan_env (sample_action ''curl x | sh'') = HIGH"
  by code_simp+


theorem low_rules_out_threats_witness:
  "\<not> (threat_in (pa_high default_pattern_analyzer @ pa_medium default_pattern_analyzer) ''ls sh sh''
     \<or> threat_in (pa_injection_high default_pattern_analyzer @ pa_injection_medium default_pattern_analyzer) ''ls sh sh rm -rf''
     \<or> (\<exists>program. se_parse sample_scan_env ''ls sh sh'' = Some program
          \<and> (runs_destructive (se_parse sample_scan_env) max_nesting_depth program
             \<or> unvouched (se_parse sample_scan_env) max_nesting_depth program)))"
proof (rule low_rules_out_threats)
  show "pattern_risk sample_scan_env default_pattern_analyzer (sample_action ''ls'') = LOW" by (rule sample_verdicts)
  show "''ls sh sh'' = normalize_text (se_nfkc sample_scan_env) (extract_exec_content (se_loads sample_scan_env) (sample_action ''ls''))"
    by code_simp
  show "''ls sh sh rm -rf'' = normalize_text (se_nfkc sample_scan_env) (extract_content (se_loads sample_scan_env) (sample_action ''ls''))"
    by code_simp
qed simp

lemma thought_fields [simp]:
  "extract_exec_segments loads (a\<lparr>an_thought := ts, an_reasoning := r, an_summary := s\<rparr>) = extract_exec_segments loads a"
  by (simp add: extract_exec_segments_def)

text \<open>
  What the model thinks is not held against what it does: where the injection patterns are
  silent, thoughts, reasoning and summary change nothing in the verdict on an action.
\<close>

theorem thoughts_do_not_count:
  assumes "b = a\<lparr>an_thought := ts, an_reasoning := r, an_summary := s\<rparr>"
    and "normalize_text (se_nfkc env) (extract_exec_content (se_loads env) a) \<noteq> []"
    and "\<not> threat_in (pa_injection_high pa @ pa_injection_medium pa) (normalize_text (se_nfkc env) (extract_content (se_loads env) a))"
    and "\<not> threat_in (pa_injection_high pa @ pa_injection_medium pa) (normalize_text (se_nfkc env) (extract_content (se_loads env) b))"
  shows "pattern_risk env pa b = pattern_risk env pa a"
proof -
  have "extract_exec_content (se_loads env) b = extract_exec_content (se_loads env) a"
    unfolding assms(1) by (simp add: extract_exec_content_def)
  moreover have "\<not> some_pattern (pa_injection_high pa) (normalize_text (se_nfkc env) (extract_content (se_loads env) x))"
    "\<not> some_pattern (pa_injection_medium pa) (normalize_text (se_nfkc env) (extract_content (se_loads env) x))" if "x = a \<or> x = b" for x
    using that assms(3,4) unfolding some_pattern_threat threat_in_append by blast+
  ultimately show ?thesis using assms(2) unfolding pattern_risk_def Let_def by simp
qed

theorem thoughts_do_not_count_witness:
  "pattern_risk sample_scan_env default_pattern_analyzer ((sample_action ''ls'')\<lparr>an_thought := [''sudo rm''], an_reasoning := None, an_summary := None\<rparr>)
     = pattern_risk sample_scan_env default_pattern_analyzer (sample_action ''ls'')"
proof (rule thoughts_do_not_count [OF refl])
  show "normalize_text (se_nfkc sample_scan_env) (extract_exec_content (se_loads sample_scan_env) (sample_action ''ls'')) \<noteq> []"
    by code_simp
  show "\<not> threat_in (pa_injection_high default_pattern_analyzer @ pa_injection_medium default_pattern_analyzer)
      (normalize_text (se_nfkc sample_scan_env) (extract_content (se_loads sample_scan_env) (sample_action ''ls'')))"
    unfolding some_pattern_threat [symmetric] by code_simp
  show "\<not> threat_in (pa_injection_high default_pattern_analyzer @ pa_injection_medium default_pattern_analyzer)
      (normalize_text (se_nfkc sample_scan_env) (extract_content (se_loads sample_scan_env)
        ((sample_action ''ls'')\<lparr>an_thought := [''sudo rm''], an_reasoning := None, an_summary := None\<rparr>)))"
    unfolding some_pattern_threat [symmetric] by code_simp
qed

section \<open>Rails look at one field at a time\<close>

definition rail_fires :: "str \<Rightarrow> bool" where
  "rail_fires seg \<longleftrightarrow> rd_outcome (evaluate_rail_segments [seg]) = HIGH"

lemma rails_per_segment: "rd_outcome (evaluate_rail_segments segs) = (if list_ex rail_fires segs then HIGH else LOW)"
  by (induction segs) (auto simp: rail_fires_def rail_pass_def Let_def)

lemma rail_risk_iff:
  "rail_risk env a = (if list_ex (\<lambda>s. rail_fires (normalize_text (se_nfkc env) s)) (extract_exec_segments (se_loads env) a)
     then HIGH else LOW)"
  by (simp add: rail_risk_def Let_def rails_per_segment list_ex_iff)

end
