(* ===== verification/Spec2Isabelle.thy ===== *)
theory Spec2Isabelle
  imports Condenser Resource_Locks Event_Store Patch_Edit Patch_Tool Stuck_Detector Conversation_View Conversation_Branches Local_Conversation Run_Loop Pending_Calls Conversation_Lease Editor_Facts Stream_Context Llm_Fallback Security_Analysis
begin

text \<open>
  A verification development for the agent SDK: the packages \<open>suricate-sdk\<close>, \<open>suricate-tools\<close> and
  \<open>suricate-agent-server\<close> of this repository.

  \<^bold>\<open>The program.\<close> A conversation (\<open>sdk/conversation/impl/local_conversation.py\<close>) runs an agent. Everything that
  happens is an event, appended to a log of one JSON file per event (\<open>sdk/conversation/event_store.py\<close>) through
  a file store (\<open>sdk/io\<close>). The events form a tree by their parents; \<open>ConversationState\<close>
  (\<open>sdk/conversation/state.py\<close>) keeps the leaf of the active branch, and the view of that branch which is sent
  to the LLM (\<open>sdk/context/view\<close>), shortened by condensers (\<open>sdk/context/condenser\<close>). The run loop
  checks for pauses, stop hooks and stuck patterns (\<open>sdk/conversation/stuck_detector.py\<close>), and takes a step of
  the agent (\<open>sdk/agent/agent.py\<close>): prepare the messages, ask the LLM, turn its tool calls into actions, pass each
  through the hooks (\<open>sdk/hooks\<close>) and the confirmation gate (\<open>sdk/security\<close>), and execute them, several at a time
  if configured, under resource locks (\<open>sdk/conversation/resource_lock_manager.py\<close>, over
  \<open>fifo_lock.py\<close>). Tools act on the workspace; the patch tool (\<open>tools/apply_patch\<close>) and the file
  editor (\<open>tools/file_editor\<close>) are modelled. In the agent server several instances share the conversations
  on a disk through leases (\<open>agent_server/conversation_lease.py\<close>).

  \<^bold>\<open>How the code is modelled.\<close> A class is a record (or, where only one of several classes can occur, a
  datatype with one constructor per class), a method is a function that takes the object and returns it
  updated. An exception is a value: \<^theory_text>\<open>Inl\<close> of the exception type of the component. Operations that change
  the conversation state and may raise in between are computations of \<^theory_text>\<open>Effects\<close>: a function of the state to the
  state it leaves together with an exception or a value, because Python keeps what was assigned before a
  \<open>raise\<close>. Concurrent threads are step relations whose steps are the atomic sections of the code. What is
  outside of the repository (the LLM, tools given by clients, processes that hooks start, JSON and pydantic, the
  detection of encodings, the eviction of \<open>cachetools\<close>) is an argument of the definitions that use it; where a
  theorem needs something of it, that is a hypothesis, and a witness instantiates it.

  \<^bold>\<open>Theories\<close>, in the order of the program (each opens with what it models):

  \<^item> \<^theory_text>\<open>Prelude\<close>: Python's slices, \<open>insert\<close>, \<open>strip\<close>, \<open>split\<close>, \<open>join\<close>, dictionaries that keep their order,
    and the results of fallible code. \<^theory_text>\<open>Effects\<close>: computations with state, exceptions and fuel, the rules for
    what they keep (\<^theory_text>\<open>keeps\<close>), where they end (\<^theory_text>\<open>ends_in\<close>) and that they return (\<^theory_text>\<open>returns\<close>).
    \<^theory_text>\<open>Text_Utils\<close>: \<open>sdk/utils/truncate.py\<close> and the string functions shared by the tools.
  \<^item> \<^theory_text>\<open>Events\<close> (\<open>sdk/event\<close>): the event classes and their projection to LLM messages.
  \<^item> \<^theory_text>\<open>View_Properties\<close>, \<^theory_text>\<open>Manipulation\<close>, \<^theory_text>\<open>View\<close> (\<open>sdk/context/view\<close>): the four properties a view must have,
    each an instance of the locale \<^theory_text>\<open>view_property\<close> (what \<open>enforce\<close> owes its caller) and of
    \<^theory_text>\<open>cuttable_property\<close> (replacing events between two manipulation indices keeps the property); a view with
    all properties keeps them under every condensation between manipulation indices. \<^theory_text>\<open>Condenser\<close>: the
    condensers cut only there, and reach the size they promise.
  \<^item> \<^theory_text>\<open>Fifo_Lock\<close>, \<^theory_text>\<open>Resource_Locks\<close>: mutual exclusion, arrival order, no lost wakeup, no deadlock between
    calls that take several keys, and a lock table that holds exactly the keys in use.
  \<^item> \<^theory_text>\<open>File_Cache\<close>, \<^theory_text>\<open>File_Store\<close> (\<open>sdk/io\<close>): bounds of the cache, coherence of cache and disk, confinement of paths
    to the root. The locale \<^theory_text>\<open>file_store\<close> is what a client relies on; \<^theory_text>\<open>Event_Store\<close> proves its lemmas in the locale
    \<^theory_text>\<open>event_storage\<close> on top of it, and both are interpreted on the local store. There: an append keeps log
    and directory in step, reopening recovers the log, and the walk from a leaf to the root yields its branch.
  \<^item> \<^theory_text>\<open>Conversation_State\<close>, \<^theory_text>\<open>Conversation_View\<close> (\<open>sdk/conversation/state.py\<close>): an append extends the active branch,
    a block saves at most once, the cached view follows the branch. \<^theory_text>\<open>Conversation_Branches\<close>: moving HEAD, and
    forks, which have the history of their source.
  \<^item> \<^theory_text>\<open>Stuck_Detector\<close>: its verdict in terms of the recent events, and that a nudge comes before the stop.
  \<^item> \<^theory_text>\<open>Hooks\<close> (\<open>sdk/hooks\<close>): which hooks run, and what their answers decide.
  \<^item> \<^theory_text>\<open>Local_Conversation\<close>, \<^theory_text>\<open>Run_Loop\<close>: the event callback with its hooks, messages, pause, rejection, and the
    run loop; a run ends, and ends in a stopped status. \<^theory_text>\<open>Sample_Conversation\<close> is a small conversation for the
    witnesses. \<^theory_text>\<open>Hook_Blocks\<close>: where a denial is recorded.
  \<^item> \<^theory_text>\<open>Tool_Arguments\<close>, \<^theory_text>\<open>Tool_Execution\<close>, \<^theory_text>\<open>Agent_Step\<close> (\<open>sdk/agent\<close>): repair of tool calls, the batch of tool
    calls, the step. \<^theory_text>\<open>Agent_Safety\<close>: a denied or unconfirmed tool is not called, stated as independence of the
    step from what that tool does. \<^theory_text>\<open>Pending_Calls\<close>: which calls stay pending.
  \<^item> \<^theory_text>\<open>Patch_Core\<close>, \<^theory_text>\<open>Patch_Edit\<close>, \<^theory_text>\<open>Patch_Tool\<close> (\<open>tools/apply_patch\<close>): parser and applier, their equivalence with a
    line by line edit, the executor and its confinement to the workspace.
  \<^item> \<^theory_text>\<open>File_History\<close>, \<^theory_text>\<open>File_Editor\<close>, \<^theory_text>\<open>Editor_Facts\<close> (\<open>tools/file_editor\<close>): the cache directory and its limit, the undo
    history as a bounded stack (the locale \<^theory_text>\<open>history_backing\<close> is what it needs of the cache), the commands of the
    editor, what an edit and its undo do to a file, and the confinement of a restricted editor on a disk without
    symbolic links.
  \<^item> \<^theory_text>\<open>Secret_Registry\<close> (\<open>conversation/secret_registry.py\<close>): masking of texts, streams and nested values (the locale
    \<^theory_text>\<open>text_masker\<close> is what a walk needs of the mask of one string): a stream is masked as the whole text
    is, however it is cut, and values keep their types. \<^theory_text>\<open>Stream_Context\<close> (\<open>agent/stream_context.py\<close>): the frames of a
    streamed answer follow their protocol, end once, and give the client the masked text.
  \<^item> \<^theory_text>\<open>Llm_Fallback\<close> (\<open>llm/fallback_strategy.py\<close>, \<open>llm/utils/metrics.py\<close>): which models are tried after an error, and the
    accounting of what they used.
  \<^item> \<^theory_text>\<open>Shell_Scan\<close>, \<^theory_text>\<open>Security_Analysis\<close> (\<open>sdk/security\<close>): the scan for destructive commands is exact on the syntax tree
    (\<^theory_text>\<open>runs_destructive\<close>), a low verdict rules out what the patterns look for, and an ensemble is as strict as its
    strictest analyzer.
  \<^item> \<^theory_text>\<open>Conversation_Lease\<close> (agent server): fencing by generations.

  \<^bold>\<open>Bounds and fuel.\<close> Loops whose end depends on stored data run on fuel, and \<^theory_text>\<open>None\<close> stands for more rounds
  than it. The walk from a leaf to the root and the reading of a branch need one round more than the log has events
  (\<^theory_text>\<open>conv_inv\<close> demands it, \<^theory_text>\<open>path_to_root_branch\<close> and \<^theory_text>\<open>view_follows_branch\<close> show it is enough on a log whose parents
  come earlier; on a stored cycle the walk of the view never ends, \<^theory_text>\<open>tail_walk_loops\<close>). The run loop is given
  a number of rounds: \<^theory_text>\<open>run_ends_stopped\<close> shows that three times the iteration limit, two and the number of rounds
  with outside interference are enough. The expected types of a JSON schema are read to a given depth of nesting.
  All other loops are total functions: each round of the patch parser consumes a line, each round of
  \<open>enforce\<close> drops an event. Python's integers are unbounded and are \<^theory_text>\<open>int\<close> or \<^theory_text>\<open>nat\<close>; floating-point products are
  results given with the configuration.

  \<^bold>\<open>Not modelled.\<close> The LLM client (\<open>sdk/llm\<close>): requests to providers through litellm, authentication,
  telemetry; of it only the streaming slot, the metrics and the fallbacks are. Analyzers that ask a service or an LLM for a
  verdict. The ACP agent and the remote conversation, which drive other processes over their protocols. The REST
  service around conversations (routers, sockets, persistence of settings, telemetry). Settings, skills, plugins,
  profiles, MCP configuration and the marketplace: pydantic models and files whose validation is the library's.
  Terminals, browsers, docker and git, which wrap programs. The asynchronous variants, which repeat the synchronous
  steps with awaits between them. Rendering for display. The manifest gives the reason for every part.
\<close>

end
